(* ===== verification/UCOS_Prelude.thy ===== *)
theory UCOS_Prelude
  imports Main "HOL-Library.Word" "HOL-Library.While_Combinator"
begin

text \<open>
  Shared vocabulary of the development: the machine integers of the port (\<open>os_cpu.h\<close>),
  the theorem collections the component theories fill, and the facts on words, bits, lists and
  loops that several components use.

  \<^item> \<open>os_defs\<close>: the unfolding equations of the store primitives and the straight-line
    operations of the kernel;
  \<^item> \<open>inv_intro\<close>: "this operation preserves the kernel invariant" rules.
\<close>

unbundle bit_operations_syntax

named_theorems os_defs "unfolding equations of the state primitives"
named_theorems inv_intro "preservation rules for the kernel invariant"

section \<open>Machine integers\<close>

type_synonym INT8U = "8 word"
type_synonym INT16U = "16 word"
type_synonym INT32U = "32 word"
type_synonym BOOLEAN = bool

section \<open>Bits of a byte\<close>

lemma bit_byte_bound: "bit (w :: INT8U) n \<Longrightarrow> n < 8"
  using bit_imp_le_length[of w n] by simp

lemma byte_eq_0_iff: "(w :: INT8U) = 0 \<longleftrightarrow> (\<forall>n<8. \<not> bit w n)"
  by (auto simp: bit_eq_iff dest: bit_byte_bound)

lemma byte_neq_0_iff: "(w :: INT8U) \<noteq> 0 \<longleftrightarrow> (\<exists>n<8. bit w n)"
  by (auto simp: byte_eq_0_iff)

text \<open>A one-bit mask \<open>1 << k\<close>; the simplifier writes it \<open>2 ^ k\<close>.\<close>

lemma bit_single [simp]: "k < 8 \<Longrightarrow> bit ((2 :: INT8U) ^ k) n \<longleftrightarrow> n = k"
  by (auto simp: bit_exp_iff)

lemma bit_or_single: "k < 8 \<Longrightarrow> bit ((w :: INT8U) OR 2 ^ k) n \<longleftrightarrow> n = k \<or> bit w n"
  by (auto simp: bit_or_iff)

lemma bit_andnot_single:
  "k < 8 \<Longrightarrow> bit ((w :: INT8U) AND NOT (2 ^ k)) n \<longleftrightarrow> n \<noteq> k \<and> bit w n"
  by (auto simp: bit_and_iff bit_not_iff dest: bit_byte_bound)

lemma and_single_neq_0: "k < 8 \<Longrightarrow> (w :: INT8U) AND 2 ^ k \<noteq> 0 \<longleftrightarrow> bit w k"
  by (auto simp: byte_neq_0_iff bit_and_iff)

lemma or_single_neq_0 [simp]: "k < 8 \<Longrightarrow> (w :: INT8U) OR 2 ^ k \<noteq> 0"
  by (auto simp: byte_neq_0_iff bit_or_iff)

text \<open>The split of a priority into a row (\<open>prio >> 3\<close>) and a column (\<open>prio & 7\<close>).\<close>

lemma unat_row [simp]: "unat ((p :: INT8U) div 8) = unat p div 8"
  by (simp add: unat_div)

lemma unat_col [simp]: "unat ((p :: INT8U) AND 7) = unat p mod 8"
proof -
  have "p AND 7 = take_bit 3 p" by (simp add: take_bit_eq_mask mask_eq_exp_minus_1)
  also have "\<dots> = p mod 8" by (simp add: take_bit_eq_mod)
  finally show ?thesis by (simp add: unat_mod)
qed

lemma unat_row_col:
  assumes "unat (y :: INT8U) < 8" and "unat x < 8"
  shows "unat (y * 8 + x) = unat y * 8 + unat x"
  using assms by (simp add: unat_word_ariths)

lemma div_mod_8_eq: "(p::nat) div 8 = q div 8 \<Longrightarrow> p mod 8 = q mod 8 \<Longrightarrow> p = q"
  by (metis mult_div_mod_eq)

lemma row_col_le: "(y::nat) \<le> n div 8 \<Longrightarrow> x < 8 \<Longrightarrow> (y = n div 8 \<Longrightarrow> x \<le> n mod 8) \<Longrightarrow> y * 8 + x \<le> n"
  by (cases "y = n div 8") (simp, presburger, presburger)

lemma row_of: "(x::nat) < 8 \<Longrightarrow> (y * 8 + x) div 8 = y"
  by simp

lemma div_8_less_8: "(p::nat) < 64 \<Longrightarrow> p div 8 < 8"
  by simp

lemma inc8_nonzero: "(x :: INT8U) < 255 \<Longrightarrow> x + 1 \<noteq> 0"
proof
  assume "x < 255" and "x + 1 = 0"
  then show False using eq_neg_iff_add_eq_0 [of x 1] by simp
qed

lemma byte_and_not: "(x :: INT8U) AND m = 0 \<Longrightarrow> x AND NOT m = x"
proof (rule bit_eqI)
  fix n
  assume "x AND m = 0"
  then have "\<not> (bit x n \<and> bit m n)" by (metis bit_0_eq bit_and_iff bot_apply bot_bool_def)
  then show "bit (x AND NOT m) n = bit x n"
    by (auto simp: bit_and_iff bit_not_iff dest: bit_byte_bound)
qed

section \<open>Loops\<close>

text \<open>
  The loops of the kernel that may not stop on a corrupted state are \<^const>\<open>while_option\<close>
  terms, \<open>None\<close> standing for "does not return".  A measure that the body decreases under an
  invariant makes them return, and the invariant then holds of the result.
\<close>

lemma while_option_total:
  fixes m :: "'a \<Rightarrow> nat"
  assumes "P s"
    and "\<And>s. P s \<Longrightarrow> b s \<Longrightarrow> P (c s) \<and> m (c s) < m s"
  shows "\<exists>t. while_option b c s = Some t \<and> P t \<and> \<not> b t"
proof -
  obtain t where t: "while_option b c s = Some t"
    using measure_while_option_Some [where P = P and f = m and b = b and c = c] assms by blast
  moreover have "P t"
    using while_option_rule [where P = P, OF _ t] assms by blast
  ultimately show ?thesis using while_option_stop [OF t] by blast
qed

end
