(* ===== verification/UCOS_Types.thy ===== *)
theory UCOS_Types
  imports UCOS_Prelude
begin

text \<open>
  The data of the kernel, from \<open>uC-OS2/Source/ucos_ii.h\<close> under the configuration of
  \<open>uC-OS2/Cfg/Template/os_cfg.h\<close>: the manifest constants, the structures and the global
  variables.

  Conventions.
  \<^item> A static array of structures is a function from the index to the record, and a pointer to
    an element is the index: \<open>nat option\<close> with \<open>None\<close> for the null pointer.  Pointers
    to task control blocks have a third value, \<open>OS_TCB_RESERVED\<close>.
  \<^item> \<open>void *\<close> is the tagged union \<open>voidp\<close> of the pointers the kernel stores in it.
  \<^item> The arrays of bytes \<open>OSRdyTbl\<close> and \<open>OSEventTbl\<close> are lists of length 8.
  \<^item> Where a structure field and a global have the same name in C, the global keeps the name
    and the field is renamed, or the other way round: the global array \<open>OSEventTbl[]\<close> is
    \<open>OSEvents\<close>, the field \<open>OSMemFreeList\<close> of \<open>OS_MEM\<close> is
    \<open>OSMemBlkList\<close>.
  \<^item> Reading through a null pointer is undefined behaviour in C and an unspecified value here
    (\<^const>\<open>the\<close> of \<open>None\<close>).
\<close>

section \<open>Configuration\<close>

abbreviation (input) OS_LOWEST_PRIO :: INT8U where "OS_LOWEST_PRIO \<equiv> 63"
abbreviation (input) OS_MAX_EVENTS :: nat where "OS_MAX_EVENTS \<equiv> 10"
abbreviation (input) OS_MAX_FLAGS :: nat where "OS_MAX_FLAGS \<equiv> 5"
abbreviation (input) OS_MAX_MEM_PART :: nat where "OS_MAX_MEM_PART \<equiv> 5"
abbreviation (input) OS_MAX_QS :: nat where "OS_MAX_QS \<equiv> 4"
abbreviation (input) OS_MAX_TASKS :: nat where "OS_MAX_TASKS \<equiv> 20"
abbreviation (input) OS_TICKS_PER_SEC :: INT32U where "OS_TICKS_PER_SEC \<equiv> 100"
abbreviation (input) OS_TASK_REG_TBL_SIZE :: nat where "OS_TASK_REG_TBL_SIZE \<equiv> 1"
abbreviation (input) OS_TASK_TMR_STK_SIZE :: nat where "OS_TASK_TMR_STK_SIZE \<equiv> 128"
abbreviation (input) OS_TASK_STAT_STK_SIZE :: nat where "OS_TASK_STAT_STK_SIZE \<equiv> 128"
abbreviation (input) OS_TASK_IDLE_STK_SIZE :: nat where "OS_TASK_IDLE_STK_SIZE \<equiv> 128"
abbreviation (input) OS_TMR_CFG_MAX :: nat where "OS_TMR_CFG_MAX \<equiv> 16"
abbreviation (input) OS_TMR_CFG_WHEEL_SIZE :: nat where "OS_TMR_CFG_WHEEL_SIZE \<equiv> 7"
abbreviation (input) OS_TMR_CFG_TICKS_PER_SEC :: INT32U where "OS_TMR_CFG_TICKS_PER_SEC \<equiv> 10"
abbreviation (input) OS_N_SYS_TASKS :: nat where "OS_N_SYS_TASKS \<equiv> 2"
abbreviation (input) OS_EVENT_TBL_SIZE :: nat where "OS_EVENT_TBL_SIZE \<equiv> 8"
abbreviation (input) OS_RDY_TBL_SIZE :: nat where "OS_RDY_TBL_SIZE \<equiv> 8"
abbreviation (input) OS_TASK_IDLE_PRIO :: INT8U where "OS_TASK_IDLE_PRIO \<equiv> 63"
abbreviation (input) OS_TASK_STAT_PRIO :: INT8U where "OS_TASK_STAT_PRIO \<equiv> 62"
abbreviation (input) OS_TASK_TMR_PRIO :: INT8U where "OS_TASK_TMR_PRIO \<equiv> 61"

section \<open>Manifest constants\<close>

abbreviation (input) OS_VERSION :: INT16U where "OS_VERSION \<equiv> 29300"
abbreviation (input) OS_PRIO_SELF :: INT8U where "OS_PRIO_SELF \<equiv> 255"
abbreviation (input) OS_PRIO_MUTEX_CEIL_DIS :: INT8U where "OS_PRIO_MUTEX_CEIL_DIS \<equiv> 255"
abbreviation (input) OS_TASK_IDLE_ID :: INT16U where "OS_TASK_IDLE_ID \<equiv> 65535"
abbreviation (input) OS_TASK_STAT_ID :: INT16U where "OS_TASK_STAT_ID \<equiv> 65534"
abbreviation (input) OS_TASK_TMR_ID :: INT16U where "OS_TASK_TMR_ID \<equiv> 65533"
abbreviation (input) OS_STAT_RDY :: INT8U where "OS_STAT_RDY \<equiv> 0"
abbreviation (input) OS_STAT_SEM :: INT8U where "OS_STAT_SEM \<equiv> 1"
abbreviation (input) OS_STAT_MBOX :: INT8U where "OS_STAT_MBOX \<equiv> 2"
abbreviation (input) OS_STAT_Q :: INT8U where "OS_STAT_Q \<equiv> 4"
abbreviation (input) OS_STAT_SUSPEND :: INT8U where "OS_STAT_SUSPEND \<equiv> 8"
abbreviation (input) OS_STAT_MUTEX :: INT8U where "OS_STAT_MUTEX \<equiv> 16"
abbreviation (input) OS_STAT_FLAG :: INT8U where "OS_STAT_FLAG \<equiv> 32"
abbreviation (input) OS_STAT_MULTI :: INT8U where "OS_STAT_MULTI \<equiv> 128"
abbreviation (input) OS_STAT_PEND_OK :: INT8U where "OS_STAT_PEND_OK \<equiv> 0"
abbreviation (input) OS_STAT_PEND_TO :: INT8U where "OS_STAT_PEND_TO \<equiv> 1"
abbreviation (input) OS_STAT_PEND_ABORT :: INT8U where "OS_STAT_PEND_ABORT \<equiv> 2"
abbreviation (input) OS_EVENT_TYPE_UNUSED :: INT8U where "OS_EVENT_TYPE_UNUSED \<equiv> 0"
abbreviation (input) OS_EVENT_TYPE_MBOX :: INT8U where "OS_EVENT_TYPE_MBOX \<equiv> 1"
abbreviation (input) OS_EVENT_TYPE_Q :: INT8U where "OS_EVENT_TYPE_Q \<equiv> 2"
abbreviation (input) OS_EVENT_TYPE_SEM :: INT8U where "OS_EVENT_TYPE_SEM \<equiv> 3"
abbreviation (input) OS_EVENT_TYPE_MUTEX :: INT8U where "OS_EVENT_TYPE_MUTEX \<equiv> 4"
abbreviation (input) OS_EVENT_TYPE_FLAG :: INT8U where "OS_EVENT_TYPE_FLAG \<equiv> 5"
abbreviation (input) OS_TMR_TYPE :: INT8U where "OS_TMR_TYPE \<equiv> 100"
abbreviation (input) OS_FLAG_WAIT_CLR_ALL :: INT8U where "OS_FLAG_WAIT_CLR_ALL \<equiv> 0"
abbreviation (input) OS_FLAG_WAIT_CLR_AND :: INT8U where "OS_FLAG_WAIT_CLR_AND \<equiv> 0"
abbreviation (input) OS_FLAG_WAIT_CLR_ANY :: INT8U where "OS_FLAG_WAIT_CLR_ANY \<equiv> 1"
abbreviation (input) OS_FLAG_WAIT_CLR_OR :: INT8U where "OS_FLAG_WAIT_CLR_OR \<equiv> 1"
abbreviation (input) OS_FLAG_WAIT_SET_ALL :: INT8U where "OS_FLAG_WAIT_SET_ALL \<equiv> 2"
abbreviation (input) OS_FLAG_WAIT_SET_AND :: INT8U where "OS_FLAG_WAIT_SET_AND \<equiv> 2"
abbreviation (input) OS_FLAG_WAIT_SET_ANY :: INT8U where "OS_FLAG_WAIT_SET_ANY \<equiv> 3"
abbreviation (input) OS_FLAG_WAIT_SET_OR :: INT8U where "OS_FLAG_WAIT_SET_OR \<equiv> 3"
abbreviation (input) OS_FLAG_CONSUME :: INT8U where "OS_FLAG_CONSUME \<equiv> 128"
abbreviation (input) OS_FLAG_CLR :: INT8U where "OS_FLAG_CLR \<equiv> 0"
abbreviation (input) OS_FLAG_SET :: INT8U where "OS_FLAG_SET \<equiv> 1"
abbreviation (input) OS_TICK_STEP_DIS :: INT8U where "OS_TICK_STEP_DIS \<equiv> 0"
abbreviation (input) OS_TICK_STEP_WAIT :: INT8U where "OS_TICK_STEP_WAIT \<equiv> 1"
abbreviation (input) OS_TICK_STEP_ONCE :: INT8U where "OS_TICK_STEP_ONCE \<equiv> 2"
abbreviation (input) OS_DEL_NO_PEND :: INT8U where "OS_DEL_NO_PEND \<equiv> 0"
abbreviation (input) OS_DEL_ALWAYS :: INT8U where "OS_DEL_ALWAYS \<equiv> 1"
abbreviation (input) OS_PEND_OPT_NONE :: INT8U where "OS_PEND_OPT_NONE \<equiv> 0"
abbreviation (input) OS_PEND_OPT_BROADCAST :: INT8U where "OS_PEND_OPT_BROADCAST \<equiv> 1"
abbreviation (input) OS_POST_OPT_NONE :: INT8U where "OS_POST_OPT_NONE \<equiv> 0"
abbreviation (input) OS_POST_OPT_BROADCAST :: INT8U where "OS_POST_OPT_BROADCAST \<equiv> 1"
abbreviation (input) OS_POST_OPT_FRONT :: INT8U where "OS_POST_OPT_FRONT \<equiv> 2"
abbreviation (input) OS_POST_OPT_NO_SCHED :: INT8U where "OS_POST_OPT_NO_SCHED \<equiv> 4"
abbreviation (input) OS_TASK_OPT_NONE :: INT16U where "OS_TASK_OPT_NONE \<equiv> 0"
abbreviation (input) OS_TASK_OPT_STK_CHK :: INT16U where "OS_TASK_OPT_STK_CHK \<equiv> 1"
abbreviation (input) OS_TASK_OPT_STK_CLR :: INT16U where "OS_TASK_OPT_STK_CLR \<equiv> 2"
abbreviation (input) OS_TASK_OPT_SAVE_FP :: INT16U where "OS_TASK_OPT_SAVE_FP \<equiv> 4"
abbreviation (input) OS_TASK_OPT_NO_TLS :: INT16U where "OS_TASK_OPT_NO_TLS \<equiv> 8"
abbreviation (input) OS_TMR_OPT_NONE :: INT8U where "OS_TMR_OPT_NONE \<equiv> 0"
abbreviation (input) OS_TMR_OPT_ONE_SHOT :: INT8U where "OS_TMR_OPT_ONE_SHOT \<equiv> 1"
abbreviation (input) OS_TMR_OPT_PERIODIC :: INT8U where "OS_TMR_OPT_PERIODIC \<equiv> 2"
abbreviation (input) OS_TMR_OPT_CALLBACK :: INT8U where "OS_TMR_OPT_CALLBACK \<equiv> 3"
abbreviation (input) OS_TMR_OPT_CALLBACK_ARG :: INT8U where "OS_TMR_OPT_CALLBACK_ARG \<equiv> 4"
abbreviation (input) OS_TMR_STATE_UNUSED :: INT8U where "OS_TMR_STATE_UNUSED \<equiv> 0"
abbreviation (input) OS_TMR_STATE_STOPPED :: INT8U where "OS_TMR_STATE_STOPPED \<equiv> 1"
abbreviation (input) OS_TMR_STATE_COMPLETED :: INT8U where "OS_TMR_STATE_COMPLETED \<equiv> 2"
abbreviation (input) OS_TMR_STATE_RUNNING :: INT8U where "OS_TMR_STATE_RUNNING \<equiv> 3"
abbreviation (input) OS_ERR_NONE :: INT8U where "OS_ERR_NONE \<equiv> 0"
abbreviation (input) OS_ERR_EVENT_TYPE :: INT8U where "OS_ERR_EVENT_TYPE \<equiv> 1"
abbreviation (input) OS_ERR_PEND_ISR :: INT8U where "OS_ERR_PEND_ISR \<equiv> 2"
abbreviation (input) OS_ERR_POST_NULL_PTR :: INT8U where "OS_ERR_POST_NULL_PTR \<equiv> 3"
abbreviation (input) OS_ERR_PEVENT_NULL :: INT8U where "OS_ERR_PEVENT_NULL \<equiv> 4"
abbreviation (input) OS_ERR_POST_ISR :: INT8U where "OS_ERR_POST_ISR \<equiv> 5"
abbreviation (input) OS_ERR_QUERY_ISR :: INT8U where "OS_ERR_QUERY_ISR \<equiv> 6"
abbreviation (input) OS_ERR_INVALID_OPT :: INT8U where "OS_ERR_INVALID_OPT \<equiv> 7"
abbreviation (input) OS_ERR_ID_INVALID :: INT8U where "OS_ERR_ID_INVALID \<equiv> 8"
abbreviation (input) OS_ERR_PDATA_NULL :: INT8U where "OS_ERR_PDATA_NULL \<equiv> 9"
abbreviation (input) OS_ERR_TIMEOUT :: INT8U where "OS_ERR_TIMEOUT \<equiv> 10"
abbreviation (input) OS_ERR_EVENT_NAME_TOO_LONG :: INT8U where "OS_ERR_EVENT_NAME_TOO_LONG \<equiv> 11"
abbreviation (input) OS_ERR_PNAME_NULL :: INT8U where "OS_ERR_PNAME_NULL \<equiv> 12"
abbreviation (input) OS_ERR_PEND_LOCKED :: INT8U where "OS_ERR_PEND_LOCKED \<equiv> 13"
abbreviation (input) OS_ERR_PEND_ABORT :: INT8U where "OS_ERR_PEND_ABORT \<equiv> 14"
abbreviation (input) OS_ERR_DEL_ISR :: INT8U where "OS_ERR_DEL_ISR \<equiv> 15"
abbreviation (input) OS_ERR_CREATE_ISR :: INT8U where "OS_ERR_CREATE_ISR \<equiv> 16"
abbreviation (input) OS_ERR_NAME_GET_ISR :: INT8U where "OS_ERR_NAME_GET_ISR \<equiv> 17"
abbreviation (input) OS_ERR_NAME_SET_ISR :: INT8U where "OS_ERR_NAME_SET_ISR \<equiv> 18"
abbreviation (input) OS_ERR_ILLEGAL_CREATE_RUN_TIME :: INT8U where "OS_ERR_ILLEGAL_CREATE_RUN_TIME \<equiv> 19"
abbreviation (input) OS_ERR_MBOX_FULL :: INT8U where "OS_ERR_MBOX_FULL \<equiv> 20"
abbreviation (input) OS_ERR_ILLEGAL_DEL_RUN_TIME :: INT8U where "OS_ERR_ILLEGAL_DEL_RUN_TIME \<equiv> 21"
abbreviation (input) OS_ERR_Q_FULL :: INT8U where "OS_ERR_Q_FULL \<equiv> 30"
abbreviation (input) OS_ERR_Q_EMPTY :: INT8U where "OS_ERR_Q_EMPTY \<equiv> 31"
abbreviation (input) OS_ERR_PRIO_EXIST :: INT8U where "OS_ERR_PRIO_EXIST \<equiv> 40"
abbreviation (input) OS_ERR_PRIO :: INT8U where "OS_ERR_PRIO \<equiv> 41"
abbreviation (input) OS_ERR_PRIO_INVALID :: INT8U where "OS_ERR_PRIO_INVALID \<equiv> 42"
abbreviation (input) OS_ERR_SCHED_LOCKED :: INT8U where "OS_ERR_SCHED_LOCKED \<equiv> 50"
abbreviation (input) OS_ERR_SEM_OVF :: INT8U where "OS_ERR_SEM_OVF \<equiv> 51"
abbreviation (input) OS_ERR_TASK_CREATE_ISR :: INT8U where "OS_ERR_TASK_CREATE_ISR \<equiv> 60"
abbreviation (input) OS_ERR_TASK_DEL :: INT8U where "OS_ERR_TASK_DEL \<equiv> 61"
abbreviation (input) OS_ERR_TASK_DEL_IDLE :: INT8U where "OS_ERR_TASK_DEL_IDLE \<equiv> 62"
abbreviation (input) OS_ERR_TASK_DEL_REQ :: INT8U where "OS_ERR_TASK_DEL_REQ \<equiv> 63"
abbreviation (input) OS_ERR_TASK_DEL_ISR :: INT8U where "OS_ERR_TASK_DEL_ISR \<equiv> 64"
abbreviation (input) OS_ERR_TASK_NAME_TOO_LONG :: INT8U where "OS_ERR_TASK_NAME_TOO_LONG \<equiv> 65"
abbreviation (input) OS_ERR_TASK_NO_MORE_TCB :: INT8U where "OS_ERR_TASK_NO_MORE_TCB \<equiv> 66"
abbreviation (input) OS_ERR_TASK_NOT_EXIST :: INT8U where "OS_ERR_TASK_NOT_EXIST \<equiv> 67"
abbreviation (input) OS_ERR_TASK_NOT_SUSPENDED :: INT8U where "OS_ERR_TASK_NOT_SUSPENDED \<equiv> 68"
abbreviation (input) OS_ERR_TASK_OPT :: INT8U where "OS_ERR_TASK_OPT \<equiv> 69"
abbreviation (input) OS_ERR_TASK_RESUME_PRIO :: INT8U where "OS_ERR_TASK_RESUME_PRIO \<equiv> 70"
abbreviation (input) OS_ERR_TASK_SUSPEND_IDLE :: INT8U where "OS_ERR_TASK_SUSPEND_IDLE \<equiv> 71"
abbreviation (input) OS_ERR_TASK_SUSPEND_PRIO :: INT8U where "OS_ERR_TASK_SUSPEND_PRIO \<equiv> 72"
abbreviation (input) OS_ERR_TASK_WAITING :: INT8U where "OS_ERR_TASK_WAITING \<equiv> 73"
abbreviation (input) OS_ERR_TIME_NOT_DLY :: INT8U where "OS_ERR_TIME_NOT_DLY \<equiv> 80"
abbreviation (input) OS_ERR_TIME_INVALID_MINUTES :: INT8U where "OS_ERR_TIME_INVALID_MINUTES \<equiv> 81"
abbreviation (input) OS_ERR_TIME_INVALID_SECONDS :: INT8U where "OS_ERR_TIME_INVALID_SECONDS \<equiv> 82"
abbreviation (input) OS_ERR_TIME_INVALID_MS :: INT8U where "OS_ERR_TIME_INVALID_MS \<equiv> 83"
abbreviation (input) OS_ERR_TIME_ZERO_DLY :: INT8U where "OS_ERR_TIME_ZERO_DLY \<equiv> 84"
abbreviation (input) OS_ERR_TIME_DLY_ISR :: INT8U where "OS_ERR_TIME_DLY_ISR \<equiv> 85"
abbreviation (input) OS_ERR_MEM_INVALID_PART :: INT8U where "OS_ERR_MEM_INVALID_PART \<equiv> 90"
abbreviation (input) OS_ERR_MEM_INVALID_BLKS :: INT8U where "OS_ERR_MEM_INVALID_BLKS \<equiv> 91"
abbreviation (input) OS_ERR_MEM_INVALID_SIZE :: INT8U where "OS_ERR_MEM_INVALID_SIZE \<equiv> 92"
abbreviation (input) OS_ERR_MEM_NO_FREE_BLKS :: INT8U where "OS_ERR_MEM_NO_FREE_BLKS \<equiv> 93"
abbreviation (input) OS_ERR_MEM_FULL :: INT8U where "OS_ERR_MEM_FULL \<equiv> 94"
abbreviation (input) OS_ERR_MEM_INVALID_PBLK :: INT8U where "OS_ERR_MEM_INVALID_PBLK \<equiv> 95"
abbreviation (input) OS_ERR_MEM_INVALID_PMEM :: INT8U where "OS_ERR_MEM_INVALID_PMEM \<equiv> 96"
abbreviation (input) OS_ERR_MEM_INVALID_PDATA :: INT8U where "OS_ERR_MEM_INVALID_PDATA \<equiv> 97"
abbreviation (input) OS_ERR_MEM_INVALID_ADDR :: INT8U where "OS_ERR_MEM_INVALID_ADDR \<equiv> 98"
abbreviation (input) OS_ERR_MEM_NAME_TOO_LONG :: INT8U where "OS_ERR_MEM_NAME_TOO_LONG \<equiv> 99"
abbreviation (input) OS_ERR_NOT_MUTEX_OWNER :: INT8U where "OS_ERR_NOT_MUTEX_OWNER \<equiv> 100"
abbreviation (input) OS_ERR_FLAG_INVALID_PGRP :: INT8U where "OS_ERR_FLAG_INVALID_PGRP \<equiv> 110"
abbreviation (input) OS_ERR_FLAG_WAIT_TYPE :: INT8U where "OS_ERR_FLAG_WAIT_TYPE \<equiv> 111"
abbreviation (input) OS_ERR_FLAG_NOT_RDY :: INT8U where "OS_ERR_FLAG_NOT_RDY \<equiv> 112"
abbreviation (input) OS_ERR_FLAG_INVALID_OPT :: INT8U where "OS_ERR_FLAG_INVALID_OPT \<equiv> 113"
abbreviation (input) OS_ERR_FLAG_GRP_DEPLETED :: INT8U where "OS_ERR_FLAG_GRP_DEPLETED \<equiv> 114"
abbreviation (input) OS_ERR_FLAG_NAME_TOO_LONG :: INT8U where "OS_ERR_FLAG_NAME_TOO_LONG \<equiv> 115"
abbreviation (input) OS_ERR_PCP_LOWER :: INT8U where "OS_ERR_PCP_LOWER \<equiv> 120"
abbreviation (input) OS_ERR_TMR_INVALID_DLY :: INT8U where "OS_ERR_TMR_INVALID_DLY \<equiv> 130"
abbreviation (input) OS_ERR_TMR_INVALID_PERIOD :: INT8U where "OS_ERR_TMR_INVALID_PERIOD \<equiv> 131"
abbreviation (input) OS_ERR_TMR_INVALID_OPT :: INT8U where "OS_ERR_TMR_INVALID_OPT \<equiv> 132"
abbreviation (input) OS_ERR_TMR_INVALID_NAME :: INT8U where "OS_ERR_TMR_INVALID_NAME \<equiv> 133"
abbreviation (input) OS_ERR_TMR_NON_AVAIL :: INT8U where "OS_ERR_TMR_NON_AVAIL \<equiv> 134"
abbreviation (input) OS_ERR_TMR_INACTIVE :: INT8U where "OS_ERR_TMR_INACTIVE \<equiv> 135"
abbreviation (input) OS_ERR_TMR_INVALID_DEST :: INT8U where "OS_ERR_TMR_INVALID_DEST \<equiv> 136"
abbreviation (input) OS_ERR_TMR_INVALID_TYPE :: INT8U where "OS_ERR_TMR_INVALID_TYPE \<equiv> 137"
abbreviation (input) OS_ERR_TMR_INVALID :: INT8U where "OS_ERR_TMR_INVALID \<equiv> 138"
abbreviation (input) OS_ERR_TMR_ISR :: INT8U where "OS_ERR_TMR_ISR \<equiv> 139"
abbreviation (input) OS_ERR_TMR_NAME_TOO_LONG :: INT8U where "OS_ERR_TMR_NAME_TOO_LONG \<equiv> 140"
abbreviation (input) OS_ERR_TMR_INVALID_STATE :: INT8U where "OS_ERR_TMR_INVALID_STATE \<equiv> 141"
abbreviation (input) OS_ERR_TMR_STOPPED :: INT8U where "OS_ERR_TMR_STOPPED \<equiv> 142"
abbreviation (input) OS_ERR_TMR_NO_CALLBACK :: INT8U where "OS_ERR_TMR_NO_CALLBACK \<equiv> 143"
abbreviation (input) OS_ERR_NO_MORE_ID_AVAIL :: INT8U where "OS_ERR_NO_MORE_ID_AVAIL \<equiv> 150"
abbreviation (input) OS_ERR_TLS_NO_MORE_AVAIL :: INT8U where "OS_ERR_TLS_NO_MORE_AVAIL \<equiv> 160"
abbreviation (input) OS_ERR_TLS_ID_INVALID :: INT8U where "OS_ERR_TLS_ID_INVALID \<equiv> 161"
abbreviation (input) OS_ERR_TLS_NOT_EN :: INT8U where "OS_ERR_TLS_NOT_EN \<equiv> 162"
abbreviation (input) OS_ERR_TLS_DESTRUCT_ASSIGNED :: INT8U where "OS_ERR_TLS_DESTRUCT_ASSIGNED \<equiv> 163"
abbreviation (input) OS_ERR_OS_NOT_RUNNING :: INT8U where "OS_ERR_OS_NOT_RUNNING \<equiv> 164"
abbreviation OS_STAT_PEND_ANY :: INT8U where "OS_STAT_PEND_ANY \<equiv> 55"

section \<open>Pointers\<close>

datatype tcb_ptr = NullTCB | OS_TCB_RESERVED | TCB (tcb_ix: nat)

datatype voidp =
    NULL
  | AppP INT32U
  | EventP nat
  | QP nat
  | TcbP nat
  | FlagGrpP nat
  | FlagNodeP nat
  | MemP nat
  | TmrP nat

text \<open>The casts the kernel writes.  \<open>OS_TCB_RESERVED\<close> is the address 1.\<close>

definition event_of_void :: "voidp \<Rightarrow> nat option" where
  "event_of_void p = (case p of EventP e \<Rightarrow> Some e | _ \<Rightarrow> None)"

definition void_of_event :: "nat option \<Rightarrow> voidp" where
  "void_of_event p = (case p of None \<Rightarrow> NULL | Some e \<Rightarrow> EventP e)"

definition q_of_void :: "voidp \<Rightarrow> nat" where
  "q_of_void p = (case p of QP q \<Rightarrow> q | _ \<Rightarrow> undefined)"

definition tcb_of_void :: "voidp \<Rightarrow> tcb_ptr" where
  "tcb_of_void p = (case p of NULL \<Rightarrow> NullTCB | TcbP t \<Rightarrow> TCB t | AppP a \<Rightarrow> if a = 1 then OS_TCB_RESERVED else undefined | _ \<Rightarrow> undefined)"

definition void_of_tcb :: "tcb_ptr \<Rightarrow> voidp" where
  "void_of_tcb p = (case p of NullTCB \<Rightarrow> NULL | OS_TCB_RESERVED \<Rightarrow> AppP 1 | TCB t \<Rightarrow> TcbP t)"

section \<open>Structures\<close>

record os_event =
  OSEventType :: INT8U
  OSEventPtr :: voidp
  OSEventCnt :: INT16U
  OSEventGrp :: INT8U
  OSEventTbl :: "INT8U list"
  OSEventName :: "string option"

record os_flag_grp =
  OSFlagType :: INT8U
  OSFlagWaitList :: voidp
  OSFlagFlags :: INT16U
  OSFlagName :: "string option"

record os_flag_node =
  OSFlagNodeNext :: "nat option"
  OSFlagNodePrev :: "nat option"
  OSFlagNodeTCB :: nat
  OSFlagNodeFlagGrp :: nat
  OSFlagNodeFlags :: INT16U
  OSFlagNodeWaitType :: INT8U

record os_mbox_data =
  OSMboxMsg :: voidp
  OSMboxEventTbl :: "INT8U list"
  OSMboxEventGrp :: INT8U

record os_mem =
  OSMemAddr :: INT32U
  OSMemBlkList :: voidp
  OSMemBlkSize :: INT32U
  OSMemNBlks :: INT32U
  OSMemNFree :: INT32U
  OSMemName :: "string option"

record os_mem_data =
  OSAddr :: INT32U
  OSFreeList :: voidp
  OSBlkSize :: INT32U
  OSNBlks :: INT32U
  OSNFree :: INT32U
  OSNUsed :: INT32U

record os_mutex_data =
  OSMutexEventTbl :: "INT8U list"
  OSMutexEventGrp :: INT8U
  OSValue :: BOOLEAN
  OSOwnerPrio :: INT8U
  OSMutexPCP :: INT8U

record os_q =
  OSQPtr :: "nat option"
  OSQStart :: nat
  OSQEnd :: nat
  OSQIn :: nat
  OSQOut :: nat
  OSQSize :: INT16U
  OSQEntries :: INT16U

record os_q_data =
  OSQMsg :: voidp
  OSNMsgs :: INT16U
  OSQDataSize :: INT16U
  OSQEventTbl :: "INT8U list"
  OSQEventGrp :: INT8U

record os_sem_data =
  OSCnt :: INT16U
  OSSemEventTbl :: "INT8U list"
  OSSemEventGrp :: INT8U

record os_stk_data =
  OSFree :: INT32U
  OSUsed :: INT32U

record os_tcb =
  OSTCBStkPtr :: nat
  OSTCBExtPtr :: voidp
  OSTCBStkBottom :: nat
  OSTCBStkSize :: INT32U
  OSTCBOpt :: INT16U
  OSTCBId :: INT16U
  OSTCBNext :: tcb_ptr
  OSTCBPrev :: tcb_ptr
  OSTCBEventPtr :: "nat option"
  OSTCBEventMultiPtr :: "nat list option"
  OSTCBEventMultiRdy :: "nat option"
  OSTCBMsg :: voidp
  OSTCBFlagNode :: "nat option"
  OSTCBFlagsRdy :: INT16U
  OSTCBDly :: INT32U
  OSTCBStat :: INT8U
  OSTCBStatPend :: INT8U
  OSTCBPrio :: INT8U
  OSTCBX :: INT8U
  OSTCBY :: INT8U
  OSTCBBitX :: INT8U
  OSTCBBitY :: INT8U
  OSTCBDelReq :: INT8U
  OSTCBCtxSwCtr :: INT32U
  OSTCBCyclesTot :: INT32U
  OSTCBCyclesStart :: INT32U
  OSTCBStkBase :: nat
  OSTCBStkUsed :: INT32U
  OSTCBTaskName :: "string option"
  OSTCBRegTbl :: "INT32U list"

record os_tmr =
  OSTmrType :: INT8U
  OSTmrCallback :: "nat option"
  OSTmrCallbackArg :: voidp
  OSTmrNext :: "nat option"
  OSTmrPrev :: "nat option"
  OSTmrMatch :: INT32U
  OSTmrDly :: INT32U
  OSTmrPeriod :: INT32U
  OSTmrName :: "string option"
  OSTmrOpt :: INT8U
  OSTmrState :: INT8U

record os_tmr_wheel =
  OSTmrFirst :: "nat option"
  OSTmrEntries :: INT16U

section \<open>The global state\<close>

text \<open>
  The globals of \<open>ucos_ii.h\<close>, the counter \<open>OSTmrCtr\<close> of the port, and the
  application memory the kernel works on: the cells of the message queues
  (\<open>OSQCell\<close>), the words of the memory partitions (\<open>OSMemWord\<close>), the cells of the
  task stacks (\<open>OSStkCell\<close>) and the flag nodes, which live on the stack of the pending
  task and have its index (\<open>OSFlagNode\<close>).
\<close>

record os =
  OSCtxSwCtr :: INT32U
  OSEventFreeList :: "nat option"
  OSEvents :: "nat \<Rightarrow> os_event"
  OSFlagTbl :: "nat \<Rightarrow> os_flag_grp"
  OSFlagFreeList :: "nat option"
  OSFlagNode :: "nat \<Rightarrow> os_flag_node"
  OSCPUUsage :: INT8U
  OSIdleCtrMax :: INT32U
  OSIdleCtrRun :: INT32U
  OSStatRdy :: BOOLEAN
  OSIntNesting :: INT8U
  OSLockNesting :: INT8U
  OSPrioCur :: INT8U
  OSPrioHighRdy :: INT8U
  OSRdyGrp :: INT8U
  OSRdyTbl :: "INT8U list"
  OSRunning :: BOOLEAN
  OSTaskCtr :: INT8U
  OSIdleCtr :: INT32U
  OSTCBCur :: tcb_ptr
  OSTCBFreeList :: tcb_ptr
  OSTCBHighRdy :: tcb_ptr
  OSTCBList :: tcb_ptr
  OSTCBPrioTbl :: "nat \<Rightarrow> tcb_ptr"
  OSTCBTbl :: "nat \<Rightarrow> os_tcb"
  OSTickStepState :: INT8U
  OSMemFreeList :: "nat option"
  OSMemTbl :: "nat \<Rightarrow> os_mem"
  OSMemWord :: "INT32U \<Rightarrow> voidp"
  OSQFreeList :: "nat option"
  OSQTbl :: "nat \<Rightarrow> os_q"
  OSQCell :: "nat \<Rightarrow> voidp"
  OSStkCell :: "nat \<Rightarrow> INT32U"
  OSTaskRegNextAvailID :: INT8U
  OSTime :: INT32U
  OSTmrFree :: INT16U
  OSTmrUsed :: INT16U
  OSTmrTime :: INT32U
  OSTmrSem :: "nat option"
  OSTmrSemSignal :: "nat option"
  OSTmrTbl :: "nat \<Rightarrow> os_tmr"
  OSTmrFreeList :: "nat option"
  OSTmrWheelTbl :: "nat \<Rightarrow> os_tmr_wheel"
  OSTmrCtr :: INT16U

section \<open>Writing through a pointer\<close>

definition upd_tcb :: "nat \<Rightarrow> (os_tcb \<Rightarrow> os_tcb) \<Rightarrow> os \<Rightarrow> os" where
  "upd_tcb t f s = s\<lparr>OSTCBTbl := (OSTCBTbl s)(t := f (OSTCBTbl s t))\<rparr>"

definition upd_event :: "nat \<Rightarrow> (os_event \<Rightarrow> os_event) \<Rightarrow> os \<Rightarrow> os" where
  "upd_event e f s = s\<lparr>OSEvents := (OSEvents s)(e := f (OSEvents s e))\<rparr>"

definition upd_q :: "nat \<Rightarrow> (os_q \<Rightarrow> os_q) \<Rightarrow> os \<Rightarrow> os" where
  "upd_q q f s = s\<lparr>OSQTbl := (OSQTbl s)(q := f (OSQTbl s q))\<rparr>"

declare upd_tcb_def [os_defs] upd_event_def [os_defs] upd_q_def [os_defs]

abbreviation cur :: "os \<Rightarrow> nat" where "cur s \<equiv> tcb_ix (OSTCBCur s)"

text \<open>
  \<open>OS_MemClr\<close> on a whole table of structures, field by field: the values every zeroed
  structure has.
\<close>

definition zero_event :: os_event where
  "zero_event = \<lparr>OSEventType = 0, OSEventPtr = NULL, OSEventCnt = 0, OSEventGrp = 0,
     OSEventTbl = replicate OS_EVENT_TBL_SIZE 0, OSEventName = None\<rparr>"

definition zero_q :: os_q where
  "zero_q = \<lparr>OSQPtr = None, OSQStart = 0, OSQEnd = 0, OSQIn = 0, OSQOut = 0, OSQSize = 0, OSQEntries = 0\<rparr>"

definition zero_mem :: os_mem where
  "zero_mem = \<lparr>OSMemAddr = 0, OSMemBlkList = NULL, OSMemBlkSize = 0, OSMemNBlks = 0, OSMemNFree = 0,
     OSMemName = None\<rparr>"

definition zero_flag_grp :: os_flag_grp where
  "zero_flag_grp = \<lparr>OSFlagType = 0, OSFlagWaitList = NULL, OSFlagFlags = 0, OSFlagName = None\<rparr>"

definition zero_tmr :: os_tmr where
  "zero_tmr = \<lparr>OSTmrType = 0, OSTmrCallback = None, OSTmrCallbackArg = NULL, OSTmrNext = None,
     OSTmrPrev = None, OSTmrMatch = 0, OSTmrDly = 0, OSTmrPeriod = 0, OSTmrName = None, OSTmrOpt = 0,
     OSTmrState = 0\<rparr>"

definition zero_tmr_wheel :: os_tmr_wheel where
  "zero_tmr_wheel = \<lparr>OSTmrFirst = None, OSTmrEntries = 0\<rparr>"

definition zero_tcb :: os_tcb where
  "zero_tcb = \<lparr>OSTCBStkPtr = 0, OSTCBExtPtr = NULL, OSTCBStkBottom = 0, OSTCBStkSize = 0,
     OSTCBOpt = 0, OSTCBId = 0, OSTCBNext = NullTCB, OSTCBPrev = NullTCB, OSTCBEventPtr = None,
     OSTCBEventMultiPtr = None, OSTCBEventMultiRdy = None, OSTCBMsg = NULL, OSTCBFlagNode = None,
     OSTCBFlagsRdy = 0, OSTCBDly = 0, OSTCBStat = 0, OSTCBStatPend = 0, OSTCBPrio = 0,
     OSTCBX = 0, OSTCBY = 0, OSTCBBitX = 0, OSTCBBitY = 0, OSTCBDelReq = 0, OSTCBCtxSwCtr = 0,
     OSTCBCyclesTot = 0, OSTCBCyclesStart = 0, OSTCBStkBase = 0, OSTCBStkUsed = 0,
     OSTCBTaskName = None, OSTCBRegTbl = replicate OS_TASK_REG_TBL_SIZE 0\<rparr>"

end
