(* ===== verification/UCOS_Bitmap.thy ===== *)
theory UCOS_Bitmap
  imports UCOS_Types
begin

text \<open>
  The priority bitmap: a group byte and eight rows of eight bits, bit \<open>p mod 8\<close> of row
  \<open>p div 8\<close> standing for priority \<open>p\<close>.  The ready list (\<open>OSRdyGrp\<close>,
  \<open>OSRdyTbl\<close>) and the wait list of every event (\<open>OSEventGrp\<close>,
  \<open>OSEventTbl\<close>) are such bitmaps.  The code updates them in place with three idioms,
  the three operations below; \<open>OSUnMapTbl\<close> finds the lowest bit of a byte.

  The locale \<open>prio_set\<close> is the contract the scheduler and the event services rely on: a set
  of priorities below 64 with insertion, removal and minimum.  The bitmap is interpreted as one.
\<close>

section \<open>The lookup table of the lowest set bit (os_core.c)\<close>

definition OSUnMapTbl :: "INT8U list" where
  "OSUnMapTbl = [
     0, 0, 1, 0, 2, 0, 1, 0, 3, 0, 1, 0, 2, 0, 1, 0,
     4, 0, 1, 0, 2, 0, 1, 0, 3, 0, 1, 0, 2, 0, 1, 0,
     5, 0, 1, 0, 2, 0, 1, 0, 3, 0, 1, 0, 2, 0, 1, 0,
     4, 0, 1, 0, 2, 0, 1, 0, 3, 0, 1, 0, 2, 0, 1, 0,
     6, 0, 1, 0, 2, 0, 1, 0, 3, 0, 1, 0, 2, 0, 1, 0,
     4, 0, 1, 0, 2, 0, 1, 0, 3, 0, 1, 0, 2, 0, 1, 0,
     5, 0, 1, 0, 2, 0, 1, 0, 3, 0, 1, 0, 2, 0, 1, 0,
     4, 0, 1, 0, 2, 0, 1, 0, 3, 0, 1, 0, 2, 0, 1, 0,
     7, 0, 1, 0, 2, 0, 1, 0, 3, 0, 1, 0, 2, 0, 1, 0,
     4, 0, 1, 0, 2, 0, 1, 0, 3, 0, 1, 0, 2, 0, 1, 0,
     5, 0, 1, 0, 2, 0, 1, 0, 3, 0, 1, 0, 2, 0, 1, 0,
     4, 0, 1, 0, 2, 0, 1, 0, 3, 0, 1, 0, 2, 0, 1, 0,
     6, 0, 1, 0, 2, 0, 1, 0, 3, 0, 1, 0, 2, 0, 1, 0,
     4, 0, 1, 0, 2, 0, 1, 0, 3, 0, 1, 0, 2, 0, 1, 0,
     5, 0, 1, 0, 2, 0, 1, 0, 3, 0, 1, 0, 2, 0, 1, 0,
     4, 0, 1, 0, 2, 0, 1, 0, 3, 0, 1, 0, 2, 0, 1, 0]"

abbreviation unmap :: "INT8U \<Rightarrow> INT8U" where
  "unmap b \<equiv> OSUnMapTbl ! unat b"

text \<open>
  Every entry after the first is the position of the lowest set bit of its index: it divides the
  index by a power of two that leaves an odd number.
\<close>

definition least_bit_ok :: "nat \<Rightarrow> INT8U \<Rightarrow> bool" where
  "least_bit_ok n x \<longleftrightarrow> unat x < 8 \<and> n mod 2 ^ unat x = 0 \<and> odd (n div 2 ^ unat x)"

fun rows_ok :: "nat \<Rightarrow> INT8U list \<Rightarrow> bool" where
  "rows_ok n [] \<longleftrightarrow> True"
| "rows_ok n (x # xs) \<longleftrightarrow> (n = 0 \<or> least_bit_ok n x) \<and> rows_ok (n + 1) xs"

lemma OSUnMapTbl_rows: "rows_ok 0 OSUnMapTbl"
  by (simp add: OSUnMapTbl_def least_bit_ok_def)

lemma rows_ok_nth: "rows_ok n xs \<Longrightarrow> i < length xs \<Longrightarrow> n + i \<noteq> 0 \<Longrightarrow> least_bit_ok (n + i) (xs ! i)"
  by (induction n xs arbitrary: i rule: rows_ok.induct) (auto simp: nth_Cons split: nat.splits)

lemma length_OSUnMapTbl [simp]: "length OSUnMapTbl = 256"
  by (simp add: OSUnMapTbl_def)

lemma OSUnMapTbl_0 [simp]: "OSUnMapTbl ! 0 = 0"
  by (simp add: OSUnMapTbl_def)

lemma bit_unat_iff: "bit (unat (w :: INT8U)) n \<longleftrightarrow> bit w n"
  by (simp add: bit_unsigned_iff)

text \<open>What the table promises: on a non-zero byte, the index of its lowest set bit.\<close>

lemma unmap_least:
  assumes "w \<noteq> (0 :: INT8U)"
  shows "unat (unmap w) < 8" and "bit w (unat (unmap w))"
    and "\<And>i. i < unat (unmap w) \<Longrightarrow> \<not> bit w i"
proof -
  have lt: "unat w < 256" using unsigned_less [of w, where ?'a = nat] by simp
  have "least_bit_ok (0 + unat w) (unmap w)"
    using OSUnMapTbl_rows lt assms by (intro rows_ok_nth) (auto simp: unat_eq_0)
  then have b: "unat (unmap w) < 8" and m: "unat w mod 2 ^ unat (unmap w) = 0"
    and o: "odd (unat w div 2 ^ unat (unmap w))"
    by (simp_all add: least_bit_ok_def)
  show "unat (unmap w) < 8" by (rule b)
  show "bit w (unat (unmap w))" using o by (simp add: bit_unat_iff [symmetric] bit_iff_odd)
  show "\<not> bit w i" if "i < unat (unmap w)" for i
  proof -
    have "take_bit (unat (unmap w)) (unat w) = 0" using m by (simp add: take_bit_eq_mod)
    then have "\<not> bit (take_bit (unat (unmap w)) (unat w)) i" by simp
    with that show ?thesis by (simp add: bit_take_bit_iff bit_unat_iff)
  qed
qed

lemma unmap_lt_8: "unat (unmap w) < 8"
  by (cases "w = 0") (simp_all add: unmap_least)

section \<open>Sets of priorities\<close>

text \<open>
  The contract: \<open>mem\<close> is the abstraction to a set of natural numbers below 64, \<open>top\<close> the
  minimum, which is the highest priority, and \<open>none\<close> the emptiness test of the code (a zero
  group byte).
\<close>

locale prio_set =
  fixes ok :: "'b \<Rightarrow> bool"
    and mem :: "'b \<Rightarrow> nat set"
    and ins :: "nat \<Rightarrow> 'b \<Rightarrow> 'b"
    and del :: "nat \<Rightarrow> 'b \<Rightarrow> 'b"
    and top :: "'b \<Rightarrow> nat"
    and none :: "'b \<Rightarrow> bool"
  assumes mem_less: "n \<in> mem b \<Longrightarrow> n < 64"
    and ok_ins: "ok b \<Longrightarrow> n < 64 \<Longrightarrow> ok (ins n b)"
    and mem_ins: "ok b \<Longrightarrow> n < 64 \<Longrightarrow> mem (ins n b) = insert n (mem b)"
    and ok_del: "ok b \<Longrightarrow> n < 64 \<Longrightarrow> ok (del n b)"
    and mem_del: "ok b \<Longrightarrow> n < 64 \<Longrightarrow> mem (del n b) = mem b - {n}"
    and none_iff: "ok b \<Longrightarrow> none b \<longleftrightarrow> mem b = {}"
    and top_in: "ok b \<Longrightarrow> mem b \<noteq> {} \<Longrightarrow> top b \<in> mem b"
    and top_least: "ok b \<Longrightarrow> n \<in> mem b \<Longrightarrow> top b \<le> n"
begin

lemma finite_mem [simp]: "finite (mem b)"
  by (rule finite_subset [of _ "{..<64}"]) (auto dest: mem_less)

lemma top_less: "ok b \<Longrightarrow> mem b \<noteq> {} \<Longrightarrow> top b < 64"
  by (blast dest: top_in mem_less)

lemma top_eq_Min: "ok b \<Longrightarrow> mem b \<noteq> {} \<Longrightarrow> top b = Min (mem b)"
  by (rule sym, rule Min_eqI) (auto intro: top_in top_least)

lemma top_eqI:
  assumes "ok b" and "n \<in> mem b" and "\<And>k. k \<in> mem b \<Longrightarrow> n \<le> k"
  shows "top b = n"
proof (rule antisym)
  show "top b \<le> n" using assms(1,2) by (rule top_least)
  have "mem b \<noteq> {}" using assms(2) by blast
  with assms(1) have "top b \<in> mem b" by (rule top_in)
  then show "n \<le> top b" by (rule assms(3))
qed

text \<open>Inserting a member, or removing a non-member, leaves the set as it is.\<close>

lemma mem_ins_absorb: "ok b \<Longrightarrow> n \<in> mem b \<Longrightarrow> mem (ins n b) = mem b"
  using mem_less [of n b] by (simp add: mem_ins insert_absorb)

lemma mem_del_absorb: "ok b \<Longrightarrow> n < 64 \<Longrightarrow> n \<notin> mem b \<Longrightarrow> mem (del n b) = mem b"
  by (simp add: mem_del)

text \<open>Removing the top member takes the least element away: the step of a drain.\<close>

lemma del_top:
  assumes "ok b" and "mem b \<noteq> {}"
  shows "ok (del (top b) b)" and "mem (del (top b) b) = mem b - {Min (mem b)}"
    and "card (mem (del (top b) b)) < card (mem b)"
  using assms top_less [OF assms] top_in [OF assms]
  by (simp_all add: ok_del mem_del top_eq_Min card_gt_0_iff)

fun drain :: "nat \<Rightarrow> 'b \<Rightarrow> nat list" where
  "drain 0 b = []"
| "drain (Suc n) b = (if none b then [] else top b # drain n (del (top b) b))"

text \<open>Taking the top member until none is left gives the members in priority order.\<close>

lemma drain_sorted: "ok b \<Longrightarrow> card (mem b) \<le> n \<Longrightarrow> drain n b = sorted_list_of_set (mem b)"
proof (induction n arbitrary: b)
  case 0
  then show ?case by simp
next
  case (Suc n)
  show ?case
  proof (cases "mem b = {}")
    case True
    with Suc.prems show ?thesis by (simp add: none_iff)
  next
    case False
    note d = del_top [OF Suc.prems(1) False]
    have "drain n (del (top b) b) = sorted_list_of_set (mem b - {Min (mem b)})"
      using Suc.IH [OF d(1)] d Suc.prems(2) by simp
    then show ?thesis
      using Suc.prems(1) False
      by (simp add: none_iff top_eq_Min sorted_list_of_set_nonempty)
  qed
qed

end

section \<open>The bitmap\<close>

type_synonym bitmap = "INT8U \<times> INT8U list"

text \<open>
  The three idioms of the code.  With \<open>y = prio >> 3\<close>, \<open>bity = 1 << y\<close> and
  \<open>bitx = 1 << (prio & 7)\<close>:
  insertion is \<open>Grp |= bity; Tbl[y] |= bitx\<close>, removal is
  \<open>Tbl[y] &= ~bitx; if (Tbl[y] == 0) Grp &= ~bity\<close>, and the highest priority is
  \<open>y = OSUnMapTbl[Grp]; (y << 3) + OSUnMapTbl[Tbl[y]]\<close>.
\<close>

definition bm_set :: "INT8U \<Rightarrow> INT8U \<Rightarrow> INT8U \<Rightarrow> bitmap \<Rightarrow> bitmap" where
  "bm_set y bity bitx b = (fst b OR bity, (snd b)[unat y := snd b ! unat y OR bitx])"

definition bm_clear :: "INT8U \<Rightarrow> INT8U \<Rightarrow> INT8U \<Rightarrow> bitmap \<Rightarrow> bitmap" where
  "bm_clear y bity bitx b =
     (let tbl = (snd b)[unat y := snd b ! unat y AND NOT bitx]
      in (if tbl ! unat y = 0 then fst b AND NOT bity else fst b, tbl))"

definition bm_top :: "bitmap \<Rightarrow> INT8U" where
  "bm_top b = (let y = unmap (fst b) in push_bit 3 y + unmap (snd b ! unat y))"

text \<open>The set a bitmap stands for, and the consistency of the group byte with the rows.\<close>

definition bm_mem :: "bitmap \<Rightarrow> nat set" where
  "bm_mem b = {n. n < 64 \<and> bit (snd b ! (n div 8)) (n mod 8)}"

definition bm_ok :: "bitmap \<Rightarrow> bool" where
  "bm_ok b \<longleftrightarrow> length (snd b) = 8 \<and> (\<forall>y<8. bit (fst b) y \<longleftrightarrow> snd b ! y \<noteq> 0)"

text \<open>Insertion and removal of the priority \<open>n\<close>, as the contract wants them.\<close>

definition bm_ins :: "nat \<Rightarrow> bitmap \<Rightarrow> bitmap" where
  "bm_ins n = bm_set (of_nat (n div 8)) (2 ^ (n div 8)) (2 ^ (n mod 8))"

definition bm_del :: "nat \<Rightarrow> bitmap \<Rightarrow> bitmap" where
  "bm_del n = bm_clear (of_nat (n div 8)) (2 ^ (n div 8)) (2 ^ (n mod 8))"

lemma unat_of_nat_row [simp]: "n < 64 \<Longrightarrow> unat (of_nat (n div 8) :: INT8U) = n div 8"
  by (simp add: unsigned_of_nat take_bit_nat_eq_self)

lemma bm_memI: "n < 64 \<Longrightarrow> bit (snd b ! (n div 8)) (n mod 8) \<Longrightarrow> n \<in> bm_mem b"
  by (simp add: bm_mem_def)

lemma bm_mem_less: "n \<in> bm_mem b \<Longrightarrow> n < 64"
  by (simp add: bm_mem_def)

lemma bm_mem_bit: "n \<in> bm_mem b \<Longrightarrow> bit (snd b ! (n div 8)) (n mod 8)"
  by (simp add: bm_mem_def)

lemma bm_ok_length: "bm_ok b \<Longrightarrow> length (snd b) = 8"
  by (simp add: bm_ok_def)

lemma bm_ok_group: "bm_ok b \<Longrightarrow> y < 8 \<Longrightarrow> bit (fst b) y \<longleftrightarrow> snd b ! y \<noteq> 0"
  by (simp add: bm_ok_def)

lemma bm_ok_ins:
  assumes "bm_ok b" and "n < 64"
  shows "bm_ok (bm_ins n b)"
  using assms div_8_less_8 [OF assms(2)]
  by (auto simp: bm_ok_def bm_ins_def bm_set_def bit_or_single nth_list_update)

lemma bm_mem_ins:
  assumes "bm_ok b" and "n < 64"
  shows "bm_mem (bm_ins n b) = insert n (bm_mem b)"
  using assms bm_ok_length [OF assms(1)] div_8_less_8 [OF assms(2)]
  by (auto simp: bm_mem_def bm_ins_def bm_set_def bit_or_single nth_list_update div_8_less_8
      split: if_splits intro: div_mod_8_eq)

lemma bm_ok_del:
  assumes "bm_ok b" and "n < 64"
  shows "bm_ok (bm_del n b)"
  using assms div_8_less_8 [OF assms(2)]
  by (auto simp: bm_ok_def bm_del_def bm_clear_def Let_def bit_andnot_single nth_list_update)

lemma bm_mem_del:
  assumes "bm_ok b" and "n < 64"
  shows "bm_mem (bm_del n b) = bm_mem b - {n}"
  using assms bm_ok_length [OF assms(1)] div_8_less_8 [OF assms(2)]
  by (auto simp: bm_mem_def bm_del_def bm_clear_def Let_def bit_andnot_single nth_list_update
      div_8_less_8 split: if_splits intro: div_mod_8_eq)

lemma bm_none_iff:
  assumes "bm_ok b"
  shows "fst b = 0 \<longleftrightarrow> bm_mem b = {}"
proof
  assume z: "fst b = 0"
  have "snd b ! (n div 8) = 0" if "n < 64" for n
    using bm_ok_group [OF assms div_8_less_8 [OF that]] z by simp
  then show "bm_mem b = {}" by (auto simp: bm_mem_def)
next
  assume e: "bm_mem b = {}"
  show "fst b = 0"
  proof (rule ccontr)
    assume "fst b \<noteq> 0"
    then obtain y where y: "y < 8" "bit (fst b) y" by (auto simp: byte_neq_0_iff)
    then have "snd b ! y \<noteq> 0" using bm_ok_group [OF assms] by blast
    then obtain x where x: "x < 8" "bit (snd b ! y) x" by (auto simp: byte_neq_0_iff)
    have "y * 8 + x \<in> bm_mem b" using x y(1) by (intro bm_memI) auto
    with e show False by blast
  qed
qed

lemma unat_bm_top:
  "unat (bm_top b) = unat (unmap (fst b)) * 8 + unat (unmap (snd b ! unat (unmap (fst b))))"
  by (simp add: bm_top_def Let_def push_bit_eq_mult unat_row_col unmap_lt_8 mult.commute)

lemma bm_top_in_least:
  assumes ok: "bm_ok b" and ne: "bm_mem b \<noteq> {}"
  shows "unat (bm_top b) \<in> bm_mem b" and "n \<in> bm_mem b \<Longrightarrow> unat (bm_top b) \<le> n"
proof -
  let ?y = "unat (unmap (fst b))" and ?x = "unat (unmap (snd b ! unat (unmap (fst b))))"
  have g: "fst b \<noteq> 0" using bm_none_iff [OF ok] ne by blast
  note y = unmap_least [OF g]
  have r: "snd b ! ?y \<noteq> 0" using bm_ok_group [OF ok y(1)] y(2) by blast
  note x = unmap_least [OF r]
  show "unat (bm_top b) \<in> bm_mem b"
    unfolding unat_bm_top using x y by (intro bm_memI) auto
  show "unat (bm_top b) \<le> n" if n: "n \<in> bm_mem b"
  proof -
    from n have n64: "n < 64" and nb: "bit (snd b ! (n div 8)) (n mod 8)"
      by (simp_all add: bm_mem_def)
    then have "snd b ! (n div 8) \<noteq> 0" by auto
    then have "bit (fst b) (n div 8)" using bm_ok_group [OF ok div_8_less_8 [OF n64]] by blast
    then have yle: "?y \<le> n div 8" using y(3) not_less by blast
    have "?x \<le> n mod 8" if "?y = n div 8" using x(3) nb that not_less by metis
    with yle x(1) show ?thesis unfolding unat_bm_top by (rule row_col_le)
  qed
qed

text \<open>The bitmap keeps the contract of a set of priorities.\<close>

interpretation bm: prio_set bm_ok bm_mem bm_ins bm_del "\<lambda>b. unat (bm_top b)" "\<lambda>b. fst b = 0"
  by unfold_locales
    (auto simp: bm_ok_ins bm_mem_ins bm_ok_del bm_mem_del bm_none_iff bm_mem_less
      intro: bm_top_in_least)

section \<open>Coordinates of a priority\<close>

text \<open>
  A task control block caches the row, the column and the two masks of its priority.  With the
  cached values, the three idioms are the operations of the contract.
\<close>

definition xy_ok :: "os_tcb \<Rightarrow> bool" where
  "xy_ok t \<longleftrightarrow> unat (OSTCBPrio t) < 64 \<and> OSTCBY t = drop_bit 3 (OSTCBPrio t) \<and>
     OSTCBX t = OSTCBPrio t AND 7 \<and> OSTCBBitY t = push_bit (unat (OSTCBY t)) 1 \<and>
     OSTCBBitX t = push_bit (unat (OSTCBX t)) 1"

abbreviation prio_of :: "os_tcb \<Rightarrow> nat" where "prio_of t \<equiv> unat (OSTCBPrio t)"

lemma xy_okD:
  assumes "xy_ok t"
  shows "prio_of t < 64" and "unat (OSTCBY t) = prio_of t div 8"
    and "unat (OSTCBX t) = prio_of t mod 8" and "OSTCBBitY t = 2 ^ (prio_of t div 8)"
    and "OSTCBBitX t = 2 ^ (prio_of t mod 8)"
  using assms by (simp_all add: xy_ok_def drop_bit_eq_div)

lemma bm_set_xy: "xy_ok t \<Longrightarrow> bm_set (OSTCBY t) (OSTCBBitY t) (OSTCBBitX t) b = bm_ins (prio_of t) b"
  by (simp add: bm_ins_def bm_set_def xy_okD)

lemma bm_clear_xy: "xy_ok t \<Longrightarrow> bm_clear (OSTCBY t) (OSTCBBitY t) (OSTCBBitX t) b = bm_del (prio_of t) b"
  by (simp add: bm_del_def bm_clear_def xy_okD)

text \<open>The empty bitmap.\<close>

lemma bm_ok_empty [simp]: "bm_ok (0, replicate 8 0)"
  by (simp add: bm_ok_def)

lemma bm_mem_empty [simp]: "bm_mem (0, replicate 8 0) = {}"
  by (auto simp: bm_mem_def)

end
