(* ===== verification/UCOS_Sched.thy ===== *)
theory UCOS_Sched
  imports UCOS_Bitmap
begin

text \<open>
  The scheduler of \<open>os_core.c\<close>: the ready list, the choice of the highest-priority ready
  task, the context switch, interrupt nesting and the scheduler lock.

  The critical section of a service (\<open>OS_ENTER_CRITICAL\<close> to \<open>OS_EXIT_CRITICAL\<close>) is one
  atomic step of the model.  \<open>OS_TASK_SW\<close> and \<open>OSIntCtxSw\<close> of the port pend the
  \<open>PendSV\<close> exception, whose handler makes \<open>OSTCBHighRdy\<close> the current task; the model
  performs that switch at once and leaves out the registers and the stack pointer it saves.
\<close>

section \<open>The ready list\<close>

definition rdy :: "os \<Rightarrow> bitmap" where
  "rdy s = (OSRdyGrp s, OSRdyTbl s)"

definition set_rdy :: "bitmap \<Rightarrow> os \<Rightarrow> os" where
  "set_rdy b s = s\<lparr>OSRdyGrp := fst b, OSRdyTbl := snd b\<rparr>"

text \<open>
  \<open>OSRdyGrp |= ptcb->OSTCBBitY; OSRdyTbl[ptcb->OSTCBY] |= ptcb->OSTCBBitX;\<close>
\<close>

definition OS_RdyListInsert :: "nat \<Rightarrow> os \<Rightarrow> os" where
  "OS_RdyListInsert t s =
     (let p = OSTCBTbl s t in set_rdy (bm_set (OSTCBY p) (OSTCBBitY p) (OSTCBBitX p) (rdy s)) s)"

text \<open>
  \<open>OSRdyTbl[y] &= ~ptcb->OSTCBBitX; if (OSRdyTbl[y] == 0u) OSRdyGrp &= ~ptcb->OSTCBBitY;\<close>
\<close>

definition OS_RdyListRemove :: "nat \<Rightarrow> os \<Rightarrow> os" where
  "OS_RdyListRemove t s =
     (let p = OSTCBTbl s t in set_rdy (bm_clear (OSTCBY p) (OSTCBBitY p) (OSTCBBitX p) (rdy s)) s)"

section \<open>Scheduling\<close>

definition OS_SchedNew :: "os \<Rightarrow> os" where
  "OS_SchedNew s =
     (let y = unmap (OSRdyGrp s)
      in s\<lparr>OSPrioHighRdy := push_bit 3 y + unmap (OSRdyTbl s ! unat y)\<rparr>)"

definition OS_TASK_SW :: "os \<Rightarrow> os" where
  "OS_TASK_SW s = s\<lparr>OSPrioCur := OSPrioHighRdy s, OSTCBCur := OSTCBHighRdy s\<rparr>"

text \<open>The body that \<open>OS_Sched\<close> and \<open>OSIntExit\<close> share.\<close>

definition OS_SwitchHighRdy :: "os \<Rightarrow> os" where
  "OS_SwitchHighRdy s =
     (let s = OS_SchedNew s;
          s = s\<lparr>OSTCBHighRdy := OSTCBPrioTbl s (unat (OSPrioHighRdy s))\<rparr>
      in if OSPrioHighRdy s \<noteq> OSPrioCur s
         then let s = upd_tcb (tcb_ix (OSTCBHighRdy s)) (\<lambda>t. t\<lparr>OSTCBCtxSwCtr := OSTCBCtxSwCtr t + 1\<rparr>) s;
                  s = s\<lparr>OSCtxSwCtr := OSCtxSwCtr s + 1\<rparr>
              in OS_TASK_SW s
         else s)"

definition OS_Sched :: "os \<Rightarrow> os" where
  "OS_Sched s =
     (if OSIntNesting s = 0
      then if OSLockNesting s = 0 then OS_SwitchHighRdy s else s
      else s)"

definition OSIntEnter :: "os \<Rightarrow> os" where
  "OSIntEnter s =
     (if OSRunning s
      then if OSIntNesting s < 255 then s\<lparr>OSIntNesting := OSIntNesting s + 1\<rparr> else s
      else s)"

definition OSIntExit :: "os \<Rightarrow> os" where
  "OSIntExit s =
     (if OSRunning s
      then let s = (if OSIntNesting s > 0 then s\<lparr>OSIntNesting := OSIntNesting s - 1\<rparr> else s)
           in if OSIntNesting s = 0
              then if OSLockNesting s = 0 then OS_SwitchHighRdy s else s
              else s
      else s)"

definition OSSchedLock :: "os \<Rightarrow> os" where
  "OSSchedLock s =
     (if OSRunning s
      then if OSIntNesting s = 0
           then if OSLockNesting s < 255 then s\<lparr>OSLockNesting := OSLockNesting s + 1\<rparr> else s
           else s
      else s)"

definition OSSchedUnlock :: "os \<Rightarrow> os" where
  "OSSchedUnlock s =
     (if OSRunning s
      then if OSIntNesting s = 0
           then if OSLockNesting s > 0
                then let s = s\<lparr>OSLockNesting := OSLockNesting s - 1\<rparr>
                     in if OSLockNesting s = 0 then OS_Sched s else s
                else s
           else s
      else s)"

text \<open>
  \<open>OSStart\<close>.  \<open>OSStartHighRdy\<close> of the port sets \<open>OSRunning\<close>, calls the hook and
  runs the current task.
\<close>

definition OSStartHighRdy :: "os \<Rightarrow> os" where
  "OSStartHighRdy s = s\<lparr>OSPrioCur := OSPrioHighRdy s, OSTCBCur := OSTCBHighRdy s, OSRunning := True\<rparr>"

definition OSStart :: "os \<Rightarrow> os" where
  "OSStart s =
     (if \<not> OSRunning s
      then let s = OS_SchedNew s;
               s = s\<lparr>OSPrioCur := OSPrioHighRdy s\<rparr>;
               s = s\<lparr>OSTCBHighRdy := OSTCBPrioTbl s (unat (OSPrioHighRdy s))\<rparr>;
               s = s\<lparr>OSTCBCur := OSTCBHighRdy s\<rparr>
           in OSStartHighRdy s
      else s)"

definition OSVersion :: INT16U where "OSVersion = OS_VERSION"

section \<open>The choice of the next task\<close>

text \<open>C40: on a consistent, non-empty ready list, \<open>OS_SchedNew\<close> finds, with two lookups in
  \<open>OSUnMapTbl\<close>, the smallest priority number in the list, which is the highest priority.\<close>

theorem OS_SchedNew_finds_minimum:
  assumes "bm_ok (rdy s)" and "bm_mem (rdy s) \<noteq> {}"
  shows "unat (OSPrioHighRdy (OS_SchedNew s)) = Min (bm_mem (rdy s))"
proof -
  have "OSPrioHighRdy (OS_SchedNew s) = bm_top (rdy s)" by (simp add: OS_SchedNew_def bm_top_def rdy_def Let_def)
  then show ?thesis using bm.top_eq_Min [OF assms] by simp
qed

lemma OS_SchedNew_finds_minimum_witness:
  "\<forall>s. unat (OSPrioHighRdy (OS_SchedNew (set_rdy (bm_ins 42 (bm_ins 7 (0, replicate 8 0))) s))) = 7"
proof
  fix s
  let ?s = "set_rdy (bm_ins 42 (bm_ins 7 (0, replicate 8 0))) s"
  have "rdy ?s = bm_ins 42 (bm_ins 7 (0, replicate 8 0))" by (simp add: rdy_def set_rdy_def)
  then have "bm_ok (rdy ?s)" "bm_mem (rdy ?s) = {7, 42}" by (auto simp: bm_ok_ins bm_mem_ins)
  then show "unat (OSPrioHighRdy (OS_SchedNew ?s)) = 7" using OS_SchedNew_finds_minimum [of ?s] by simp
qed

end
