(* ===== verification/UCOS_Pool.thy ===== *)
theory UCOS_Pool
  imports UCOS_Types
begin

text \<open>
  Free lists.  The kernel keeps its unused control blocks, of events, queues, partitions, flag
  groups, tasks and timers, and the free blocks of a partition in singly linked lists.  A list is
  described by the sequence of its members; the locale \<open>pool\<close> is the contract of a free list.
\<close>

section \<open>Linked lists\<close>

fun path :: "('a \<Rightarrow> 'a option) \<Rightarrow> 'a option \<Rightarrow> 'a list \<Rightarrow> bool" where
  "path nx p [] \<longleftrightarrow> p = None"
| "path nx p (x # xs) \<longleftrightarrow> p = Some x \<and> path nx (nx x) xs"

lemma path_unique: "path nx p xs \<Longrightarrow> path nx p ys \<Longrightarrow> xs = ys"
proof (induction xs arbitrary: p ys)
  case Nil
  then show ?case by (cases ys) simp_all
next
  case (Cons x xs)
  then show ?case by (cases ys) auto
qed

lemma path_suffix: "path nx p (xs @ x # ys) \<Longrightarrow> path nx (Some x) (x # ys)"
  by (induction xs arbitrary: p) auto

text \<open>A list that ends has no member twice.\<close>

lemma path_distinct: "path nx p xs \<Longrightarrow> distinct xs"
proof (induction xs arbitrary: p)
  case Nil
  then show ?case by simp
next
  case (Cons x xs)
  have "x \<notin> set xs"
  proof
    assume "x \<in> set xs"
    then obtain ys zs where xs: "xs = ys @ x # zs" by (auto simp: in_set_conv_decomp)
    have "path nx (Some x) (x # xs)" using Cons.prems by simp
    moreover have "path nx (Some x) (x # zs)"
      using Cons.prems path_suffix [of nx p "x # ys" x zs] by (simp add: xs)
    ultimately have "x # xs = x # zs" by (rule path_unique)
    then show False by (simp add: xs)
  qed
  with Cons show ?case by auto
qed

lemma path_cong: "(\<And>x. x \<in> set xs \<Longrightarrow> nx' x = nx x) \<Longrightarrow> path nx p xs \<Longrightarrow> path nx' p xs"
  by (induction xs arbitrary: p) auto

text \<open>A table whose elements are linked in their order.\<close>

lemma path_table:
  assumes "\<And>x. i \<le> x \<Longrightarrow> x < j \<Longrightarrow> nx x = Some (Suc x)" and "nx j = None" and "i \<le> j"
  shows "path nx (Some i) [i..<Suc j]"
  using assms
proof (induction "j - i" arbitrary: i)
  case 0
  then have "i = j" by simp
  then show ?case using assms(2) by simp
next
  case (Suc n)
  have "n = j - Suc i" using Suc.hyps(2) by simp
  moreover have "Suc i \<le> j" using Suc.hyps(2) by simp
  ultimately have "path nx (Some (Suc i)) [Suc i..<Suc j]" using Suc.hyps(1) [of "Suc i"] Suc.prems(1) assms(2) by simp
  moreover have "[i..<Suc j] = i # [Suc i..<Suc j]" using \<open>Suc i \<le> j\<close> by (intro upt_conv_Cons) simp
  moreover have "nx i = Some (Suc i)" using Suc.prems(1) [of i] \<open>Suc i \<le> j\<close> by simp
  ultimately show ?case by simp
qed

section \<open>The contract of a free list\<close>

locale pool =
  fixes head :: "'s \<Rightarrow> 'a option"
    and nxt :: "'s \<Rightarrow> 'a \<Rightarrow> 'a option"
    and alloc :: "'s \<Rightarrow> 's \<times> 'a option"
    and free :: "'a \<Rightarrow> 's \<Rightarrow> 's"
  assumes alloc_none: "head s = None \<Longrightarrow> alloc s = (s, None)"
    and alloc_some: "head s = Some x \<Longrightarrow> snd (alloc s) = Some x \<and> head (fst (alloc s)) = nxt s x"
    and alloc_next: "head s = Some x \<Longrightarrow> y \<noteq> x \<Longrightarrow> nxt (fst (alloc s)) y = nxt s y"
    and free_head: "head (free x s) = Some x"
    and free_next: "nxt (free x s) y = (if y = x then head s else nxt s y)"
begin

definition holds :: "'s \<Rightarrow> 'a list \<Rightarrow> bool" where
  "holds s xs \<longleftrightarrow> path (nxt s) (head s) xs"

lemma holds_distinct: "holds s xs \<Longrightarrow> distinct xs"
  by (auto simp: holds_def intro: path_distinct)

lemma alloc_empty: "holds s [] \<Longrightarrow> alloc s = (s, None)"
  by (simp add: holds_def alloc_none)

lemma alloc_first:
  assumes "holds s (x # xs)"
  shows "snd (alloc s) = Some x" and "holds (fst (alloc s)) xs"
proof -
  have h: "head s = Some x" and p: "path (nxt s) (nxt s x) xs" and d: "x \<notin> set xs"
    using assms holds_distinct [OF assms] by (simp_all add: holds_def)
  show "snd (alloc s) = Some x" using alloc_some [OF h] by simp
  have "path (nxt (fst (alloc s))) (nxt s x) xs"
    by (rule path_cong [OF _ p]) (use d in \<open>auto intro: alloc_next [OF h]\<close>)
  then show "holds (fst (alloc s)) xs" using alloc_some [OF h] by (simp add: holds_def)
qed

lemma free_holds:
  assumes "holds s xs" and "x \<notin> set xs"
  shows "holds (free x s) (x # xs)"
  using assms by (auto simp: holds_def free_head free_next intro: path_cong [rotated])

text \<open>A released member is the next one allocated, and the list is then as before.\<close>

lemma free_alloc:
  assumes "holds s xs" and "x \<notin> set xs"
  shows "snd (alloc (free x s)) = Some x" and "holds (fst (alloc (free x s))) xs"
  using alloc_first [OF free_holds [OF assms]] by simp_all

text \<open>Allocating as often as there are members hands out each of them once, then fails.\<close>

fun alloc_all :: "nat \<Rightarrow> 's \<Rightarrow> 'a list" where
  "alloc_all 0 s = []"
| "alloc_all (Suc n) s =
     (case alloc s of (s', None) \<Rightarrow> [] | (s', Some x) \<Rightarrow> x # alloc_all n s')"

lemma alloc_all_holds: "holds s xs \<Longrightarrow> length xs \<le> n \<Longrightarrow> alloc_all n s = xs"
proof (induction n arbitrary: s xs)
  case 0
  then show ?case by simp
next
  case (Suc n)
  show ?case
  proof (cases xs)
    case Nil
    with Suc.prems show ?thesis by (simp add: alloc_empty)
  next
    case (Cons x ys)
    obtain s' r where a: "alloc s = (s', r)" by fastforce
    from alloc_first [of s x ys] Suc.prems(1) Cons a
    have "r = Some x" "holds s' ys" by simp_all
    with Suc.IH [of s' ys] Suc.prems(2) Cons a show ?thesis by simp
  qed
qed

end

end
