(* ===== verification/UCOS_Event.thy ===== *)
theory UCOS_Event
  imports UCOS_Sched UCOS_Pool
begin

text \<open>
  The event control blocks of \<open>os_core.c\<close>: the wait list of an event, waiting on one or on
  several events, readying the highest-priority waiter, the free list of control blocks, and the
  names of events.
\<close>

section \<open>Wait lists\<close>

definition wl :: "os \<Rightarrow> nat \<Rightarrow> bitmap" where
  "wl s e = (OSEventGrp (OSEvents s e), OSEventTbl (OSEvents s e))"

definition set_wl :: "nat \<Rightarrow> bitmap \<Rightarrow> os \<Rightarrow> os" where
  "set_wl e b = upd_event e (\<lambda>v. v\<lparr>OSEventGrp := fst b, OSEventTbl := snd b\<rparr>)"

text \<open>
  \<open>pevent->OSEventTbl[ptcb->OSTCBY] |= ptcb->OSTCBBitX; pevent->OSEventGrp |= ptcb->OSTCBBitY;\<close>
\<close>

definition OS_WaitListInsert :: "nat \<Rightarrow> nat \<Rightarrow> os \<Rightarrow> os" where
  "OS_WaitListInsert t e s =
     (let p = OSTCBTbl s t in set_wl e (bm_set (OSTCBY p) (OSTCBBitY p) (OSTCBBitX p) (wl s e)) s)"

definition OS_WaitListRemove :: "nat \<Rightarrow> nat \<Rightarrow> os \<Rightarrow> os" where
  "OS_WaitListRemove t e s =
     (let p = OSTCBTbl s t in set_wl e (bm_clear (OSTCBY p) (OSTCBBitY p) (OSTCBBitX p) (wl s e)) s)"

definition OS_EventWaitListInit :: "nat \<Rightarrow> os \<Rightarrow> os" where
  "OS_EventWaitListInit e =
     upd_event e (\<lambda>v. v\<lparr>OSEventGrp := 0, OSEventTbl := map (\<lambda>i. 0) [0..<OS_EVENT_TBL_SIZE]\<rparr>)"

definition OS_EventTaskRemove :: "nat \<Rightarrow> nat \<Rightarrow> os \<Rightarrow> os" where
  "OS_EventTaskRemove t e s =
     (let s = OS_WaitListRemove t e s in upd_tcb t (\<lambda>p. p\<lparr>OSTCBEventPtr := None\<rparr>) s)"

fun OS_EventTaskRemoveMulti :: "nat \<Rightarrow> nat list \<Rightarrow> os \<Rightarrow> os" where
  "OS_EventTaskRemoveMulti t [] s = s"
| "OS_EventTaskRemoveMulti t (e # es) s = OS_EventTaskRemoveMulti t es (OS_WaitListRemove t e s)"

definition OS_EventTaskWait :: "nat \<Rightarrow> os \<Rightarrow> os" where
  "OS_EventTaskWait e s =
     (let s = upd_tcb (cur s) (\<lambda>p. p\<lparr>OSTCBEventPtr := Some e\<rparr>) s;
          s = OS_WaitListInsert (cur s) e s
      in OS_RdyListRemove (cur s) s)"

fun OS_WaitListInsertMulti :: "nat \<Rightarrow> nat list \<Rightarrow> os \<Rightarrow> os" where
  "OS_WaitListInsertMulti t [] s = s"
| "OS_WaitListInsertMulti t (e # es) s = OS_WaitListInsertMulti t es (OS_WaitListInsert t e s)"

definition OS_EventTaskWaitMulti :: "nat list \<Rightarrow> os \<Rightarrow> os" where
  "OS_EventTaskWaitMulti es s =
     (let s = upd_tcb (cur s) (\<lambda>p. p\<lparr>OSTCBEventMultiPtr := Some es, OSTCBEventMultiRdy := None\<rparr>) s;
          s = OS_WaitListInsertMulti (cur s) es s
      in OS_RdyListRemove (cur s) s)"

text \<open>
  The way into a wait, common to the pend services: mark the current task as pending with the
  status bit of the service, start its timeout and put it in the wait list; and the way out, the
  assignments after the switch on the pend status.
\<close>

definition OS_PendBlock :: "INT8U \<Rightarrow> INT32U \<Rightarrow> nat \<Rightarrow> os \<Rightarrow> os" where
  "OS_PendBlock stat timeout e s =
     (let s = upd_tcb (cur s) (\<lambda>p. p\<lparr>OSTCBStat := OSTCBStat p OR stat, OSTCBStatPend := OS_STAT_PEND_OK,
                OSTCBDly := timeout\<rparr>) s
      in OS_EventTaskWait e s)"

definition OS_PendDone :: "os \<Rightarrow> os" where
  "OS_PendDone s =
     upd_tcb (cur s) (\<lambda>p. p\<lparr>OSTCBStat := OS_STAT_RDY, OSTCBStatPend := OS_STAT_PEND_OK,
        OSTCBEventPtr := None, OSTCBEventMultiPtr := None, OSTCBEventMultiRdy := None\<rparr>) s"

text \<open>
  The assignments of a new priority and its coordinates, with the masks \<open>1 << y\<close>, \<open>1 << x\<close>.
\<close>

definition set_prio_xy :: "INT8U \<Rightarrow> os_tcb \<Rightarrow> os_tcb" where
  "set_prio_xy prio p =
     (let y = drop_bit 3 prio; x = prio AND 7
      in p\<lparr>OSTCBPrio := prio, OSTCBY := y, OSTCBX := x,
           OSTCBBitY := push_bit (unat y) 1, OSTCBBitX := push_bit (unat x) 1\<rparr>)"

text \<open>
  \<open>OS_EventTaskRdy\<close>: the highest-priority waiter gets the message and the pend status, leaves
  the wait lists, and becomes ready unless it is suspended.  The result is its priority.
\<close>

definition OS_EventTaskRdy :: "nat \<Rightarrow> voidp \<Rightarrow> INT8U \<Rightarrow> INT8U \<Rightarrow> os \<Rightarrow> os \<times> INT8U" where
  "OS_EventTaskRdy e pmsg msk pend_stat s =
     (let y = unmap (OSEventGrp (OSEvents s e));
          x = unmap (OSEventTbl (OSEvents s e) ! unat y);
          prio = push_bit 3 y + x;
          t = tcb_ix (OSTCBPrioTbl s (unat prio));
          s = upd_tcb t (\<lambda>p. p\<lparr>OSTCBDly := 0, OSTCBMsg := pmsg,
                               OSTCBStat := OSTCBStat p AND NOT msk, OSTCBStatPend := pend_stat\<rparr>) s;
          s = (if OSTCBStat (OSTCBTbl s t) AND OS_STAT_SUSPEND = OS_STAT_RDY
               then set_rdy (bm_set y (OSTCBBitY (OSTCBTbl s t)) (OSTCBBitX (OSTCBTbl s t)) (rdy s)) s
               else s);
          s = OS_EventTaskRemove t e s;
          s = (case OSTCBEventMultiPtr (OSTCBTbl s t) of
                 None \<Rightarrow> s
               | Some es \<Rightarrow>
                   let s = OS_EventTaskRemoveMulti t es s
                   in upd_tcb t (\<lambda>p. p\<lparr>OSTCBEventMultiPtr := None, OSTCBEventMultiRdy := Some e\<rparr>) s)
      in (s, prio))"

text \<open>
  The loop \<open>while (pevent->OSEventGrp != 0u) OS_EventTaskRdy(...)\<close> of the delete, abort and
  broadcast services, with the number of tasks readied.
\<close>

definition OS_EventTaskRdyAll :: "nat \<Rightarrow> voidp \<Rightarrow> INT8U \<Rightarrow> INT8U \<Rightarrow> os \<times> INT8U \<Rightarrow> (os \<times> INT8U) option" where
  "OS_EventTaskRdyAll e pmsg msk pend_stat =
     while_option (\<lambda>(s, n). OSEventGrp (OSEvents s e) \<noteq> 0)
       (\<lambda>(s, n). (fst (OS_EventTaskRdy e pmsg msk pend_stat s), n + 1))"

section \<open>The free list of event control blocks\<close>

text \<open>The allocation every create service starts with.\<close>

definition OS_EventAlloc :: "os \<Rightarrow> os \<times> nat option" where
  "OS_EventAlloc s =
     (let pevent = OSEventFreeList s;
          s = (case OSEventFreeList s of
                 None \<Rightarrow> s
               | Some e \<Rightarrow> s\<lparr>OSEventFreeList := event_of_void (OSEventPtr (OSEvents s e))\<rparr>)
      in (s, pevent))"

text \<open>The release every delete service ends with.\<close>

definition OS_EventFree :: "nat \<Rightarrow> os \<Rightarrow> os" where
  "OS_EventFree e s =
     (let s = upd_event e (\<lambda>v. v\<lparr>OSEventName := Some ''?'', OSEventType := OS_EVENT_TYPE_UNUSED,
                OSEventPtr := void_of_event (OSEventFreeList s), OSEventCnt := 0\<rparr>) s
      in s\<lparr>OSEventFreeList := Some e\<rparr>)"

definition event_next :: "os \<Rightarrow> nat \<Rightarrow> nat option" where
  "event_next s e = event_of_void (OSEventPtr (OSEvents s e))"

lemma event_void_inverse [simp]: "event_of_void (void_of_event p) = p"
  by (cases p) (simp_all add: event_of_void_def void_of_event_def)

interpretation event_pool: pool OSEventFreeList event_next OS_EventAlloc OS_EventFree
  by unfold_locales (auto simp: OS_EventAlloc_def OS_EventFree_def event_next_def upd_event_def)

text \<open>\<open>OS_InitEventList\<close> chains the control blocks in the order of the table.\<close>

fun OS_InitEventChain :: "nat \<Rightarrow> nat \<Rightarrow> os \<Rightarrow> os" where
  "OS_InitEventChain 0 ix s = s"
| "OS_InitEventChain (Suc n) ix s =
     OS_InitEventChain n (ix + 1)
       (upd_event ix (\<lambda>v. v\<lparr>OSEventType := OS_EVENT_TYPE_UNUSED, OSEventPtr := EventP (ix + 1),
          OSEventName := Some ''?''\<rparr>) s)"

definition OS_InitEventList :: "os \<Rightarrow> os" where
  "OS_InitEventList s =
     (let s = s\<lparr>OSEvents := (\<lambda>_. zero_event)\<rparr>;
          s = OS_InitEventChain (OS_MAX_EVENTS - 1) 0 s;
          s = upd_event (OS_MAX_EVENTS - 1) (\<lambda>v. v\<lparr>OSEventType := OS_EVENT_TYPE_UNUSED,
                OSEventPtr := NULL, OSEventName := Some ''?''\<rparr>) s
      in s\<lparr>OSEventFreeList := Some 0\<rparr>)"

lemma InitEventChain_effect:
  "event_next (OS_InitEventChain n ix s) e = (if ix \<le> e \<and> e < ix + n then Some (Suc e) else event_next s e) \<and>
   OSEventType (OSEvents (OS_InitEventChain n ix s) e) =
     (if ix \<le> e \<and> e < ix + n then OS_EVENT_TYPE_UNUSED else OSEventType (OSEvents s e)) \<and>
   wl (OS_InitEventChain n ix s) e = wl s e"
proof (induction n arbitrary: ix s)
  case 0
  then show ?case by auto
next
  case (Suc n)
  let ?u = "upd_event ix (\<lambda>v. v\<lparr>OSEventType := OS_EVENT_TYPE_UNUSED, OSEventPtr := EventP (ix + 1),
    OSEventName := Some ''?''\<rparr>) s"
  have "event_next ?u e = (if e = ix then Some (Suc ix) else event_next s e)"
    "OSEventType (OSEvents ?u e) = (if e = ix then OS_EVENT_TYPE_UNUSED else OSEventType (OSEvents s e))"
    "wl ?u e = wl s e"
    by (simp_all add: event_next_def upd_event_def event_of_void_def wl_def)
  then show ?case using Suc.IH [of "ix + 1" ?u] by auto
qed

lemma InitEventList_effect:
  "event_pool.holds (OS_InitEventList s) [0..<OS_MAX_EVENTS]"
  "OSEventType (OSEvents (OS_InitEventList s) e) = OS_EVENT_TYPE_UNUSED"
  "wl (OS_InitEventList s) e = (0, replicate 8 0)"
proof -
  let ?s = "OS_InitEventChain (OS_MAX_EVENTS - 1) 0 (s\<lparr>OSEvents := \<lambda>_. zero_event\<rparr>)"
  note c = InitEventChain_effect [of "OS_MAX_EVENTS - 1" 0 "s\<lparr>OSEvents := \<lambda>_. zero_event\<rparr>"]
  have n: "event_next (OS_InitEventList s) x = (if x = 9 then None else event_next ?s x)" for x
    by (simp add: OS_InitEventList_def Let_def event_next_def upd_event_def event_of_void_def)
  have "path (event_next (OS_InitEventList s)) (Some 0) [0..<Suc 9]"
    by (rule path_table) (use c in \<open>simp_all add: n\<close>)
  moreover have "OSEventFreeList (OS_InitEventList s) = Some 0" by (simp add: OS_InitEventList_def Let_def)
  ultimately show "event_pool.holds (OS_InitEventList s) [0..<OS_MAX_EVENTS]"
    by (simp only: event_pool.holds_def) (simp add: eval_nat_numeral)
  show "OSEventType (OSEvents (OS_InitEventList s) e) = OS_EVENT_TYPE_UNUSED"
    using c [of e] by (simp add: OS_InitEventList_def Let_def upd_event_def zero_event_def)
  show "wl (OS_InitEventList s) e = (0, replicate 8 0)"
    using c [of e] c [of 9] by (auto simp: OS_InitEventList_def Let_def upd_event_def wl_def zero_event_def)
qed

section \<open>Names\<close>

text \<open>
  A name is the characters of a C string up to its terminator, \<open>None\<close> the null pointer.
  \<open>OS_StrLen\<close> counts in an 8-bit variable.
\<close>

fun OS_StrLen_loop :: "string \<Rightarrow> INT8U \<Rightarrow> INT8U" where
  "OS_StrLen_loop [] len = len"
| "OS_StrLen_loop (c # cs) len = OS_StrLen_loop cs (len + 1)"

definition OS_StrLen :: "string option \<Rightarrow> INT8U" where
  "OS_StrLen psrc = (case psrc of None \<Rightarrow> 0 | Some cs \<Rightarrow> OS_StrLen_loop cs 0)"

definition named_event_type :: "INT8U \<Rightarrow> bool" where
  "named_event_type ty \<longleftrightarrow> ty = OS_EVENT_TYPE_SEM \<or> ty = OS_EVENT_TYPE_MUTEX \<or>
     ty = OS_EVENT_TYPE_MBOX \<or> ty = OS_EVENT_TYPE_Q"

text \<open>
  \<open>OSEventNameGet\<close> returns the length, the error and, where it is written, the name;
  \<open>pname\<close> says whether the caller passed a non-null pointer.
\<close>

definition OSEventNameGet :: "nat option \<Rightarrow> bool \<Rightarrow> os \<Rightarrow> INT8U \<times> INT8U \<times> string option" where
  "OSEventNameGet pevent pname s =
     (case pevent of None \<Rightarrow> (0, OS_ERR_PEVENT_NULL, None)
      | Some e \<Rightarrow>
          if \<not> pname then (0, OS_ERR_PNAME_NULL, None)
          else if OSIntNesting s > 0 then (0, OS_ERR_NAME_GET_ISR, None)
          else if \<not> named_event_type (OSEventType (OSEvents s e)) then (0, OS_ERR_EVENT_TYPE, None)
          else (OS_StrLen (OSEventName (OSEvents s e)), OS_ERR_NONE, OSEventName (OSEvents s e)))"

definition OSEventNameSet :: "nat option \<Rightarrow> string option \<Rightarrow> os \<Rightarrow> os \<times> INT8U" where
  "OSEventNameSet pevent pname s =
     (case pevent of None \<Rightarrow> (s, OS_ERR_PEVENT_NULL)
      | Some e \<Rightarrow>
          if pname = None then (s, OS_ERR_PNAME_NULL)
          else if OSIntNesting s > 0 then (s, OS_ERR_NAME_SET_ISR)
          else if \<not> named_event_type (OSEventType (OSEvents s e)) then (s, OS_ERR_EVENT_TYPE)
          else (upd_event e (\<lambda>v. v\<lparr>OSEventName := pname\<rparr>) s, OS_ERR_NONE))"

lemma StrLen_loop: "OS_StrLen_loop cs len = len + of_nat (length cs)"
  by (induction cs len rule: OS_StrLen_loop.induct) simp_all

text \<open>\<open>OS_StrLen\<close> counts in 8 bits: the length it returns is that of the string modulo 256,
  so that a name of 256 characters has length 0.\<close>

theorem OS_StrLen_wraps: "unat (OS_StrLen (Some cs)) = length cs mod 256"
  by (simp add: OS_StrLen_def StrLen_loop unat_of_nat)

text \<open>A name that \<open>OSEventNameSet\<close> accepts is the one \<open>OSEventNameGet\<close> returns,
  with its length modulo 256; an error of \<open>OSEventNameSet\<close> leaves the state as it is.\<close>

theorem event_name_roundtrip:
  "case OSEventNameSet pevent pname s of (s', err) \<Rightarrow>
     if err = OS_ERR_NONE then OSEventNameGet pevent True s' = (OS_StrLen pname, OS_ERR_NONE, pname) else s' = s"
  by (auto simp: OSEventNameSet_def OSEventNameGet_def upd_event_def split: option.splits if_splits)

end
