(* ===== verification/UCOS_Flag.thy ===== *)
theory UCOS_Flag
  imports UCOS_Event
begin

text \<open>
  The event flag groups of \<open>os_flag.c\<close>: sixteen flags a task can wait for, all of them or any,
  set or cleared.  The waiting tasks form a doubly linked list of nodes, each a local variable of
  the pending call: the node of a task has the index of its control block.  \<open>OSFlagWaitList\<close>
  points to the first node, or to the next free group when the group is free.
\<close>

definition flag_grp_of_void :: "voidp \<Rightarrow> nat option" where
  "flag_grp_of_void p = (case p of FlagGrpP g \<Rightarrow> Some g | _ \<Rightarrow> None)"

definition void_of_flag_grp :: "nat option \<Rightarrow> voidp" where
  "void_of_flag_grp p = (case p of None \<Rightarrow> NULL | Some g \<Rightarrow> FlagGrpP g)"

definition flag_node_of_void :: "voidp \<Rightarrow> nat option" where
  "flag_node_of_void p = (case p of NULL \<Rightarrow> None | FlagNodeP n \<Rightarrow> Some n | _ \<Rightarrow> undefined)"

definition void_of_flag_node :: "nat option \<Rightarrow> voidp" where
  "void_of_flag_node p = (case p of None \<Rightarrow> NULL | Some n \<Rightarrow> FlagNodeP n)"

definition upd_grp :: "nat \<Rightarrow> (os_flag_grp \<Rightarrow> os_flag_grp) \<Rightarrow> os \<Rightarrow> os" where
  "upd_grp g f s = s\<lparr>OSFlagTbl := (OSFlagTbl s)(g := f (OSFlagTbl s g))\<rparr>"

definition upd_node :: "nat \<Rightarrow> (os_flag_node \<Rightarrow> os_flag_node) \<Rightarrow> os \<Rightarrow> os" where
  "upd_node n f s = s\<lparr>OSFlagNode := (OSFlagNode s)(n := f (OSFlagNode s n))\<rparr>"

section \<open>The test of a wait condition\<close>

text \<open>
  The four cases of the \<open>switch\<close> on the wait type: the flags that are ready, and whether they
  satisfy the wait; \<open>None\<close> is the default case.
\<close>

definition OS_FlagTest :: "INT16U \<Rightarrow> INT16U \<Rightarrow> INT8U \<Rightarrow> (INT16U \<times> bool) option" where
  "OS_FlagTest grp_flags flags wait_type =
     (if wait_type = OS_FLAG_WAIT_SET_ALL then
        let flags_rdy = grp_flags AND flags in Some (flags_rdy, flags_rdy = flags)
      else if wait_type = OS_FLAG_WAIT_SET_ANY then
        let flags_rdy = grp_flags AND flags in Some (flags_rdy, flags_rdy \<noteq> 0)
      else if wait_type = OS_FLAG_WAIT_CLR_ALL then
        let flags_rdy = NOT grp_flags AND flags in Some (flags_rdy, flags_rdy = flags)
      else if wait_type = OS_FLAG_WAIT_CLR_ANY then
        let flags_rdy = NOT grp_flags AND flags in Some (flags_rdy, flags_rdy \<noteq> 0)
      else None)"

text \<open>Consuming the flags: the set ones are cleared, the cleared ones set.\<close>

definition OS_FlagConsume :: "nat \<Rightarrow> INT16U \<Rightarrow> INT8U \<Rightarrow> os \<Rightarrow> os" where
  "OS_FlagConsume g flags_rdy wait_type =
     (if wait_type = OS_FLAG_WAIT_SET_ALL \<or> wait_type = OS_FLAG_WAIT_SET_ANY
      then upd_grp g (\<lambda>p. p\<lparr>OSFlagFlags := OSFlagFlags p AND NOT flags_rdy\<rparr>)
      else upd_grp g (\<lambda>p. p\<lparr>OSFlagFlags := OSFlagFlags p OR flags_rdy\<rparr>))"

section \<open>The list of waiting nodes\<close>

definition OS_FlagUnlink :: "nat \<Rightarrow> os \<Rightarrow> os" where
  "OS_FlagUnlink n s =
     (let pnode_prev = OSFlagNodePrev (OSFlagNode s n);
          pnode_next = OSFlagNodeNext (OSFlagNode s n);
          s = (case pnode_prev of
                 None \<Rightarrow>
                   let g = OSFlagNodeFlagGrp (OSFlagNode s n);
                       s = upd_grp g (\<lambda>p. p\<lparr>OSFlagWaitList := void_of_flag_node pnode_next\<rparr>) s
                   in (case pnode_next of None \<Rightarrow> s
                       | Some m \<Rightarrow> upd_node m (\<lambda>p. p\<lparr>OSFlagNodePrev := None\<rparr>) s)
               | Some l \<Rightarrow>
                   let s = upd_node l (\<lambda>p. p\<lparr>OSFlagNodeNext := pnode_next\<rparr>) s
                   in (case pnode_next of None \<Rightarrow> s
                       | Some m \<Rightarrow> upd_node m (\<lambda>p. p\<lparr>OSFlagNodePrev := pnode_prev\<rparr>) s))
      in upd_tcb (OSFlagNodeTCB (OSFlagNode s n)) (\<lambda>p. p\<lparr>OSTCBFlagNode := None\<rparr>) s)"

definition OS_FlagTaskRdy :: "nat \<Rightarrow> INT16U \<Rightarrow> INT8U \<Rightarrow> os \<Rightarrow> os \<times> BOOLEAN" where
  "OS_FlagTaskRdy n flags_rdy pend_stat s =
     (let t = OSFlagNodeTCB (OSFlagNode s n);
          s = upd_tcb t (\<lambda>p. p\<lparr>OSTCBDly := 0, OSTCBFlagsRdy := flags_rdy,
                OSTCBStat := OSTCBStat p AND NOT OS_STAT_FLAG, OSTCBStatPend := pend_stat\<rparr>) s;
          sched = (OSTCBStat (OSTCBTbl s t) = OS_STAT_RDY);
          s = (if sched then OS_RdyListInsert t s else s)
      in (OS_FlagUnlink n s, sched))"

definition OS_FlagBlock :: "nat \<Rightarrow> INT16U \<Rightarrow> INT8U \<Rightarrow> INT32U \<Rightarrow> os \<Rightarrow> os" where
  "OS_FlagBlock g flags wait_type timeout s =
     (let n = cur s;
          s = upd_tcb (cur s) (\<lambda>p. p\<lparr>OSTCBStat := OSTCBStat p OR OS_STAT_FLAG,
                OSTCBStatPend := OS_STAT_PEND_OK, OSTCBDly := timeout, OSTCBFlagNode := Some n\<rparr>) s;
          pnode_next = flag_node_of_void (OSFlagWaitList (OSFlagTbl s g));
          s = upd_node n (\<lambda>p. p\<lparr>OSFlagNodeFlags := flags, OSFlagNodeWaitType := wait_type,
                OSFlagNodeTCB := cur s, OSFlagNodeNext := pnode_next, OSFlagNodePrev := None,
                OSFlagNodeFlagGrp := g\<rparr>) s;
          s = (case pnode_next of None \<Rightarrow> s
               | Some m \<Rightarrow> upd_node m (\<lambda>p. p\<lparr>OSFlagNodePrev := Some n\<rparr>) s);
          s = upd_grp g (\<lambda>p. p\<lparr>OSFlagWaitList := FlagNodeP n\<rparr>) s
      in OS_RdyListRemove (cur s) s)"

section \<open>The services\<close>

definition OSFlagAccept :: "nat option \<Rightarrow> INT16U \<Rightarrow> INT8U \<Rightarrow> os \<Rightarrow> os \<times> INT16U \<times> INT8U" where
  "OSFlagAccept pgrp flags wait_type s =
     (case pgrp of None \<Rightarrow> (s, 0, OS_ERR_FLAG_INVALID_PGRP)
      | Some g \<Rightarrow>
          if OSFlagType (OSFlagTbl s g) \<noteq> OS_EVENT_TYPE_FLAG then (s, 0, OS_ERR_EVENT_TYPE)
          else
            let consume = (wait_type AND OS_FLAG_CONSUME \<noteq> 0);
                wait_type = (if consume then wait_type AND NOT OS_FLAG_CONSUME else wait_type)
            in case OS_FlagTest (OSFlagFlags (OSFlagTbl s g)) flags wait_type of
                 Some (flags_rdy, ok) \<Rightarrow>
                   if ok then (if consume then OS_FlagConsume g flags_rdy wait_type s else s,
                               flags_rdy, OS_ERR_NONE)
                   else (s, flags_rdy, OS_ERR_FLAG_NOT_RDY)
               | None \<Rightarrow> (s, 0, OS_ERR_FLAG_WAIT_TYPE))"

definition OSFlagCreate :: "INT16U \<Rightarrow> os \<Rightarrow> os \<times> nat option \<times> INT8U" where
  "OSFlagCreate flags s =
     (if OSIntNesting s > 0 then (s, None, OS_ERR_CREATE_ISR)
      else case OSFlagFreeList s of
             Some g \<Rightarrow>
               let s = s\<lparr>OSFlagFreeList := flag_grp_of_void (OSFlagWaitList (OSFlagTbl s g))\<rparr>
               in (upd_grp g (\<lambda>p. p\<lparr>OSFlagType := OS_EVENT_TYPE_FLAG, OSFlagFlags := flags,
                     OSFlagWaitList := NULL, OSFlagName := Some ''?''\<rparr>) s, Some g, OS_ERR_NONE)
           | None \<Rightarrow> (s, None, OS_ERR_FLAG_GRP_DEPLETED))"

definition OS_FlagFree :: "nat \<Rightarrow> os \<Rightarrow> os" where
  "OS_FlagFree g s =
     (let s = upd_grp g (\<lambda>p. p\<lparr>OSFlagName := Some ''?'', OSFlagType := OS_EVENT_TYPE_UNUSED,
                OSFlagWaitList := void_of_flag_grp (OSFlagFreeList s), OSFlagFlags := 0\<rparr>) s
      in s\<lparr>OSFlagFreeList := Some g\<rparr>)"

text \<open>The loop of the deletion over the waiting nodes; a readied node keeps its next pointer.\<close>

definition OS_FlagAbortAll :: "nat option \<Rightarrow> os \<Rightarrow> os option" where
  "OS_FlagAbortAll pnode s =
     map_option fst
       (while_option (\<lambda>(s, pnode). pnode \<noteq> None)
          (\<lambda>(s, pnode). let s = fst (OS_FlagTaskRdy (the pnode) 0 OS_STAT_PEND_ABORT s)
                        in (s, OSFlagNodeNext (OSFlagNode s (the pnode)))) (s, pnode))"

definition OSFlagDel :: "nat option \<Rightarrow> INT8U \<Rightarrow> os \<Rightarrow> (os \<times> nat option \<times> INT8U) option" where
  "OSFlagDel pgrp opt s =
     (case pgrp of None \<Rightarrow> Some (s, None, OS_ERR_FLAG_INVALID_PGRP)
      | Some g \<Rightarrow>
          if OSIntNesting s > 0 then Some (s, Some g, OS_ERR_DEL_ISR)
          else if OSFlagType (OSFlagTbl s g) \<noteq> OS_EVENT_TYPE_FLAG then Some (s, Some g, OS_ERR_EVENT_TYPE)
          else let tasks_waiting = (OSFlagWaitList (OSFlagTbl s g) \<noteq> NULL)
               in if opt = OS_DEL_NO_PEND then
                    if \<not> tasks_waiting then Some (OS_FlagFree g s, None, OS_ERR_NONE)
                    else Some (s, Some g, OS_ERR_TASK_WAITING)
                  else if opt = OS_DEL_ALWAYS then
                    case OS_FlagAbortAll (flag_node_of_void (OSFlagWaitList (OSFlagTbl s g))) s of
                      None \<Rightarrow> None
                    | Some s \<Rightarrow>
                        let s = OS_FlagFree g s
                        in Some (if tasks_waiting then OS_Sched s else s, None, OS_ERR_NONE)
                  else Some (s, Some g, OS_ERR_INVALID_OPT))"

definition OSFlagNameGet :: "nat option \<Rightarrow> bool \<Rightarrow> os \<Rightarrow> INT8U \<times> INT8U \<times> string option" where
  "OSFlagNameGet pgrp pname s =
     (case pgrp of None \<Rightarrow> (0, OS_ERR_FLAG_INVALID_PGRP, None)
      | Some g \<Rightarrow>
          if \<not> pname then (0, OS_ERR_PNAME_NULL, None)
          else if OSIntNesting s > 0 then (0, OS_ERR_NAME_GET_ISR, None)
          else if OSFlagType (OSFlagTbl s g) \<noteq> OS_EVENT_TYPE_FLAG then (0, OS_ERR_EVENT_TYPE, None)
          else (OS_StrLen (OSFlagName (OSFlagTbl s g)), OS_ERR_NONE, OSFlagName (OSFlagTbl s g)))"

definition OSFlagNameSet :: "nat option \<Rightarrow> string option \<Rightarrow> os \<Rightarrow> os \<times> INT8U" where
  "OSFlagNameSet pgrp pname s =
     (case pgrp of None \<Rightarrow> (s, OS_ERR_FLAG_INVALID_PGRP)
      | Some g \<Rightarrow>
          if pname = None then (s, OS_ERR_PNAME_NULL)
          else if OSIntNesting s > 0 then (s, OS_ERR_NAME_SET_ISR)
          else if OSFlagType (OSFlagTbl s g) \<noteq> OS_EVENT_TYPE_FLAG then (s, OS_ERR_EVENT_TYPE)
          else (upd_grp g (\<lambda>p. p\<lparr>OSFlagName := pname\<rparr>) s, OS_ERR_NONE))"

definition OSFlagPend :: "nat option \<Rightarrow> INT16U \<Rightarrow> INT8U \<Rightarrow> INT32U \<Rightarrow> os \<Rightarrow> os \<times> (INT16U \<times> INT8U) option" where
  "OSFlagPend pgrp flags wait_type timeout s =
     (case pgrp of None \<Rightarrow> (s, Some (0, OS_ERR_FLAG_INVALID_PGRP))
      | Some g \<Rightarrow>
          if OSIntNesting s > 0 then (s, Some (0, OS_ERR_PEND_ISR))
          else if OSLockNesting s > 0 then (s, Some (0, OS_ERR_PEND_LOCKED))
          else if OSFlagType (OSFlagTbl s g) \<noteq> OS_EVENT_TYPE_FLAG then (s, Some (0, OS_ERR_EVENT_TYPE))
          else
            let consume = (wait_type AND OS_FLAG_CONSUME \<noteq> 0);
                wait_type = (if consume then wait_type AND NOT OS_FLAG_CONSUME else wait_type)
            in case OS_FlagTest (OSFlagFlags (OSFlagTbl s g)) flags wait_type of
                 Some (flags_rdy, ok) \<Rightarrow>
                   if ok
                   then let s = (if consume then OS_FlagConsume g flags_rdy wait_type s else s)
                        in (upd_tcb (cur s) (\<lambda>p. p\<lparr>OSTCBFlagsRdy := flags_rdy\<rparr>) s,
                            Some (flags_rdy, OS_ERR_NONE))
                   else (OS_Sched (OS_FlagBlock g flags wait_type timeout s), None)
               | None \<Rightarrow> (s, Some (0, OS_ERR_FLAG_WAIT_TYPE)))"

text \<open>
  After the switch; \<open>wait_type\<close> is the parameter of the call, and the node is that of the
  current task.
\<close>

definition OSFlagPend_resume :: "nat \<Rightarrow> INT8U \<Rightarrow> os \<Rightarrow> os \<times> INT16U \<times> INT8U" where
  "OSFlagPend_resume g wait_type s =
     (let consume = (wait_type AND OS_FLAG_CONSUME \<noteq> 0);
          wait_type = (if consume then wait_type AND NOT OS_FLAG_CONSUME else wait_type);
          pend_stat = OSTCBStatPend (OSTCBTbl s (cur s))
      in if pend_stat \<noteq> OS_STAT_PEND_OK
         then let s = upd_tcb (cur s) (\<lambda>p. p\<lparr>OSTCBStatPend := OS_STAT_PEND_OK\<rparr>) s;
                  s = OS_FlagUnlink (cur s) s;
                  s = upd_tcb (cur s) (\<lambda>p. p\<lparr>OSTCBStat := OS_STAT_RDY\<rparr>) s
              in (s, 0, if pend_stat = OS_STAT_PEND_ABORT then OS_ERR_PEND_ABORT else OS_ERR_TIMEOUT)
         else
           let flags_rdy = OSTCBFlagsRdy (OSTCBTbl s (cur s))
           in if consume
              then if wait_type = OS_FLAG_WAIT_SET_ALL \<or> wait_type = OS_FLAG_WAIT_SET_ANY \<or>
                      wait_type = OS_FLAG_WAIT_CLR_ALL \<or> wait_type = OS_FLAG_WAIT_CLR_ANY
                   then (OS_FlagConsume g flags_rdy wait_type s, flags_rdy, OS_ERR_NONE)
                   else (s, 0, OS_ERR_FLAG_WAIT_TYPE)
              else (s, flags_rdy, OS_ERR_NONE))"

definition OSFlagPendGetFlagsRdy :: "os \<Rightarrow> INT16U" where
  "OSFlagPendGetFlagsRdy s = OSTCBFlagsRdy (OSTCBTbl s (cur s))"

text \<open>
  The loop of the post over the waiting nodes: the state, the next node, whether a task became
  ready, and whether a node with a bad wait type ended the loop.
\<close>

definition OS_FlagPostAll :: "nat \<Rightarrow> os \<times> nat option \<times> bool \<times> bool \<Rightarrow> (os \<times> nat option \<times> bool \<times> bool) option" where
  "OS_FlagPostAll g =
     while_option (\<lambda>(s, pnode, sched, bad). pnode \<noteq> None \<and> \<not> bad)
       (\<lambda>(s, pnode, sched, bad).
          let n = the pnode; nd = OSFlagNode s n
          in case OS_FlagTest (OSFlagFlags (OSFlagTbl s g)) (OSFlagNodeFlags nd) (OSFlagNodeWaitType nd) of
               None \<Rightarrow> (s, pnode, sched, True)
             | Some (flags_rdy, ok) \<Rightarrow>
                 let (s, rdy) = (if ok then OS_FlagTaskRdy n flags_rdy OS_STAT_PEND_OK s else (s, False))
                 in (s, OSFlagNodeNext (OSFlagNode s n), sched \<or> rdy, bad))"

text \<open>
  The post up to its scheduler call, after which the result is \<open>None\<close>, and the read of the flags
  when the caller runs again.
\<close>

definition OSFlagPost :: "nat option \<Rightarrow> INT16U \<Rightarrow> INT8U \<Rightarrow> os \<Rightarrow> (os \<times> (INT16U \<times> INT8U) option) option" where
  "OSFlagPost pgrp flags opt s =
     (case pgrp of None \<Rightarrow> Some (s, Some (0, OS_ERR_FLAG_INVALID_PGRP))
      | Some g \<Rightarrow>
          if OSFlagType (OSFlagTbl s g) \<noteq> OS_EVENT_TYPE_FLAG then Some (s, Some (0, OS_ERR_EVENT_TYPE))
          else if opt \<noteq> OS_FLAG_CLR \<and> opt \<noteq> OS_FLAG_SET
          then Some (s, Some (0, OS_ERR_FLAG_INVALID_OPT))
          else
            let s = (if opt = OS_FLAG_CLR
                     then upd_grp g (\<lambda>p. p\<lparr>OSFlagFlags := OSFlagFlags p AND NOT flags\<rparr>) s
                     else upd_grp g (\<lambda>p. p\<lparr>OSFlagFlags := OSFlagFlags p OR flags\<rparr>) s)
            in case OS_FlagPostAll g (s, flag_node_of_void (OSFlagWaitList (OSFlagTbl s g)), False, False) of
                 None \<Rightarrow> None
               | Some (s, _, sched, bad) \<Rightarrow>
                   if bad then Some (s, Some (0, OS_ERR_FLAG_WAIT_TYPE))
                   else Some (if sched then OS_Sched s else s, None))"

definition OSFlagPost_resume :: "nat \<Rightarrow> os \<Rightarrow> INT16U \<times> INT8U" where
  "OSFlagPost_resume g s = (OSFlagFlags (OSFlagTbl s g), OS_ERR_NONE)"

definition OSFlagQuery :: "nat option \<Rightarrow> os \<Rightarrow> INT16U \<times> INT8U" where
  "OSFlagQuery pgrp s =
     (case pgrp of None \<Rightarrow> (0, OS_ERR_FLAG_INVALID_PGRP)
      | Some g \<Rightarrow>
          if OSFlagType (OSFlagTbl s g) \<noteq> OS_EVENT_TYPE_FLAG then (0, OS_ERR_EVENT_TYPE)
          else (OSFlagFlags (OSFlagTbl s g), OS_ERR_NONE))"

fun OS_FlagInitChain :: "nat \<Rightarrow> nat \<Rightarrow> os \<Rightarrow> os" where
  "OS_FlagInitChain 0 ix s = s"
| "OS_FlagInitChain (Suc n) ix s =
     OS_FlagInitChain n (ix + 1)
       (upd_grp ix (\<lambda>p. p\<lparr>OSFlagType := OS_EVENT_TYPE_UNUSED, OSFlagWaitList := FlagGrpP (ix + 1),
          OSFlagName := Some ''?''\<rparr>) s)"

definition OS_FlagInit :: "os \<Rightarrow> os" where
  "OS_FlagInit s =
     (let s = s\<lparr>OSFlagTbl := (\<lambda>_. zero_flag_grp)\<rparr>;
          s = OS_FlagInitChain (OS_MAX_FLAGS - 1) 0 s;
          s = upd_grp (OS_MAX_FLAGS - 1) (\<lambda>p. p\<lparr>OSFlagType := OS_EVENT_TYPE_UNUSED,
                OSFlagWaitList := NULL, OSFlagName := Some ''?''\<rparr>) s
      in s\<lparr>OSFlagFreeList := Some 0\<rparr>)"

end
