(* ===== verification/UCOS_Dll.thy ===== *)
theory UCOS_Dll
  imports UCOS_Pool
begin

text \<open>
  Doubly linked lists that end in null pointers, as the flag groups and the spokes of the timer wheel
  keep them: the sequence of the members, and what unlinking a member and linking one in front do.
\<close>

fun dpath :: "('a \<Rightarrow> 'a option) \<Rightarrow> ('a \<Rightarrow> 'a option) \<Rightarrow> 'a option \<Rightarrow> 'a option \<Rightarrow> 'a list \<Rightarrow> bool" where
  "dpath nx pv l p [] \<longleftrightarrow> p = None"
| "dpath nx pv l p (x # xs) \<longleftrightarrow> p = Some x \<and> pv x = l \<and> dpath nx pv (Some x) (nx x) xs"

lemma dpath_path: "dpath nx pv l p xs \<Longrightarrow> path nx p xs"
  by (induction xs arbitrary: l p) auto

lemma dpath_distinct: "dpath nx pv l p xs \<Longrightarrow> distinct xs"
  by (rule path_distinct [OF dpath_path])

lemma dpath_cong:
  "(\<And>x. x \<in> set xs \<Longrightarrow> nx' x = nx x) \<Longrightarrow> (\<And>x. x \<in> set xs \<Longrightarrow> pv' x = pv x) \<Longrightarrow>
   dpath nx pv l p xs \<Longrightarrow> dpath nx' pv' l p xs"
  by (induction xs arbitrary: l p) auto

lemma dpath_head: "dpath nx pv l (Some x) xs \<Longrightarrow> \<exists>ys. xs = x # ys"
  by (cases xs) auto

lemma dpath_append:
  "dpath nx pv l p (xs @ x # ys) \<Longrightarrow>
     pv x = (if xs = [] then l else Some (last xs)) \<and> dpath nx pv (Some x) (nx x) ys"
proof (induction xs arbitrary: l p)
  case Nil
  then show ?case by simp
next
  case (Cons a xs)
  from Cons.prems have "dpath nx pv (Some a) (nx a) (xs @ x # ys)" by simp
  from Cons.IH [OF this] show ?case by simp
qed

text \<open>The pointer to the next member is the successor in the sequence, that to the previous one its
  predecessor.\<close>

lemma dpath_next: "dpath nx pv l p (xs @ x # ys) \<Longrightarrow> nx x = (case ys of [] \<Rightarrow> None | y # _ \<Rightarrow> Some y)"
  using dpath_append [of nx pv l p xs x ys] by (cases ys) auto

text \<open>
  Unlinking \<open>x\<close>: the member before it gets its next pointer, the member after it its previous
  pointer, and the head moves on when \<open>x\<close> was first.
\<close>

lemma dpath_unlink_from:
  assumes "dpath nx pv l p (xs @ x # ys)" and "distinct (xs @ x # ys)"
    and "\<And>y. l = Some y \<Longrightarrow> y \<notin> set (xs @ x # ys)"
    and nx': "\<And>y. y \<in> set (xs @ ys) \<Longrightarrow> nx' y = (if pv x = Some y then nx x else nx y)"
    and pv': "\<And>y. y \<in> set (xs @ ys) \<Longrightarrow> pv' y = (if nx x = Some y then pv x else pv y)"
  shows "dpath nx' pv' l (if xs = [] then nx x else p) (xs @ ys)"
  using assms
proof (induction xs arbitrary: l p)
  case Nil
  then have px: "pv x = l" and d: "dpath nx pv (Some x) (nx x) ys" by simp_all
  show ?case
  proof (cases ys)
    case Nil
    then show ?thesis using d by simp
  next
    case (Cons y zs)
    have nl: "l \<noteq> Some z" if "z \<in> set ys" for z using Nil.prems(3) [of z] that by auto
    have ny: "nx x = Some y" using d Cons by simp
    have "nx' z = nx z" if "z \<in> set ys" for z using Nil.prems(4) [of z] that nl px by auto
    moreover have "pv' z = pv z" if "z \<in> set zs" for z
      using Nil.prems(2) Nil.prems(5) [of z] that ny Cons by auto
    moreover have "pv' y = l" using Nil.prems(5) [of y] ny px Cons by simp
    ultimately show ?thesis using d Cons by (auto intro: dpath_cong)
  qed
next
  case (Cons a xs)
  have d: "p = Some a" "pv a = l" "dpath nx pv (Some a) (nx a) (xs @ x # ys)" using Cons.prems(1) by simp_all
  have ih: "dpath nx' pv' (Some a) (if xs = [] then nx x else nx a) (xs @ ys)"
    by (rule Cons.IH [OF d(3)]) (use Cons.prems(2,4,5) in auto)
  note ap = dpath_append [OF d(3)]
  have "nx x \<noteq> Some a" using ap Cons.prems(2) by (cases ys) auto
  then have "pv' a = l" using Cons.prems(5) [of a] d(2) by simp
  moreover have "nx' a = (if xs = [] then nx x else nx a)"
  proof (cases "xs = []")
    case True
    then show ?thesis using Cons.prems(4) [of a] ap by simp
  next
    case False
    then have "last xs \<in> set xs" by simp
    then have "last xs \<noteq> a" using Cons.prems(2) by auto
    then show ?thesis using Cons.prems(4) [of a] ap False by simp
  qed
  ultimately show ?case using ih d(1) by simp
qed

lemma dpath_unlink:
  assumes d: "dpath nx pv None p xs" and x: "x \<in> set xs"
    and nx': "\<And>y. y \<in> set xs \<Longrightarrow> y \<noteq> x \<Longrightarrow> nx' y = (if pv x = Some y then nx x else nx y)"
    and pv': "\<And>y. y \<in> set xs \<Longrightarrow> y \<noteq> x \<Longrightarrow> pv' y = (if nx x = Some y then pv x else pv y)"
  shows "dpath nx' pv' None (if pv x = None then nx x else p) (remove1 x xs)"
proof -
  obtain as bs where xs: "xs = as @ x # bs" and na: "x \<notin> set as" using split_list_first [OF x] by blast
  have ds: "distinct (as @ x # bs)" using dpath_distinct [OF d] xs by simp
  have n: "nx' y = (if pv x = Some y then nx x else nx y)" if "y \<in> set (as @ bs)" for y
    using nx' [of y] that ds xs by (cases "y = x") auto
  have v: "pv' y = (if nx x = Some y then pv x else pv y)" if "y \<in> set (as @ bs)" for y
    using pv' [of y] that ds xs by (cases "y = x") auto
  have "dpath nx' pv' None (if as = [] then nx x else p) (as @ bs)"
    by (rule dpath_unlink_from [OF d [unfolded xs] ds _ n v]) simp_all
  moreover have "pv x = None \<longleftrightarrow> as = []" using dpath_append [OF d [unfolded xs]] by simp
  moreover have "remove1 x xs = as @ bs" using na xs by (simp add: remove1_append)
  ultimately show ?thesis by simp
qed

text \<open>Linking \<open>x\<close> in front.\<close>

lemma dpath_push:
  assumes d: "dpath nx pv None p xs" and x: "x \<notin> set xs"
    and x': "nx' x = p" "pv' x = None"
    and nx': "\<And>y. y \<in> set xs \<Longrightarrow> nx' y = nx y"
    and pv': "\<And>y. y \<in> set xs \<Longrightarrow> pv' y = (if p = Some y then Some x else pv y)"
  shows "dpath nx' pv' None (Some x) (x # xs)"
proof (cases xs)
  case Nil
  then show ?thesis using d x' by simp
next
  case (Cons y ys)
  have "y \<notin> set ys" using dpath_distinct [OF d] Cons by simp
  then have "dpath nx' pv' (Some y) (nx y) ys"
    using d Cons nx' pv' by (intro dpath_cong [of ys nx' nx pv' pv]) auto
  then show ?thesis using d Cons x' nx' pv' by simp
qed

text \<open>The members of a sequence satisfy what the next pointer of each of them does.\<close>

lemma dpath_pv_in: "dpath nx pv None p xs \<Longrightarrow> x \<in> set xs \<Longrightarrow> pv x = Some y \<Longrightarrow> y \<in> set xs"
proof -
  assume d: "dpath nx pv None p xs" and x: "x \<in> set xs" and y: "pv x = Some y"
  obtain as bs where xs: "xs = as @ x # bs" using split_list [OF x] by blast
  show "y \<in> set xs" using dpath_append [OF d [unfolded xs]] y xs by (auto split: if_splits)
qed

lemma dpath_nx_in: "dpath nx pv l p xs \<Longrightarrow> x \<in> set xs \<Longrightarrow> nx x = Some y \<Longrightarrow> y \<in> set xs"
proof -
  assume d: "dpath nx pv l p xs" and x: "x \<in> set xs" and y: "nx x = Some y"
  obtain as bs where xs: "xs = as @ x # bs" using split_list [OF x] by blast
  show "y \<in> set xs" using dpath_next [OF d [unfolded xs]] y xs by (auto split: list.splits)
qed

lemma dpath_pv_head: "dpath nx pv None p xs \<Longrightarrow> x \<in> set xs \<Longrightarrow> pv x = None \<longleftrightarrow> p = Some x"
proof -
  assume d: "dpath nx pv None p xs" and x: "x \<in> set xs"
  obtain as bs where xs: "xs = as @ x # bs" using split_list [OF x] by blast
  show "pv x = None \<longleftrightarrow> p = Some x"
    using dpath_append [OF d [unfolded xs]] d dpath_distinct [OF d] xs by (cases as) auto
qed

end
