(* ===== verification/UCOS_Inv.thy ===== *)
theory UCOS_Inv
  imports UCOS_Event UCOS_Dll
begin

text \<open>
  The kernel invariant: how the ready list, the wait lists, the priority table and the task
  control blocks agree, and the rules by which the state primitives keep it.
\<close>

section \<open>The status byte\<close>

definition suspended :: "os_tcb \<Rightarrow> bool" where
  "suspended p \<longleftrightarrow> OSTCBStat p AND OS_STAT_SUSPEND \<noteq> 0"

definition pending :: "os_tcb \<Rightarrow> bool" where
  "pending p \<longleftrightarrow> OSTCBStat p AND OS_STAT_PEND_ANY \<noteq> 0"

definition multi :: "os_tcb \<Rightarrow> bool" where
  "multi p \<longleftrightarrow> OSTCBStat p AND OS_STAT_MULTI \<noteq> 0"

text \<open>The status bit a waiter of an event of each type carries.\<close>

definition type_stat :: "INT8U \<Rightarrow> INT8U" where
  "type_stat ty =
     (if ty = OS_EVENT_TYPE_SEM then OS_STAT_SEM
      else if ty = OS_EVENT_TYPE_MBOX then OS_STAT_MBOX
      else if ty = OS_EVENT_TYPE_Q then OS_STAT_Q
      else if ty = OS_EVENT_TYPE_MUTEX then OS_STAT_MUTEX else 0)"

section \<open>One task\<close>

text \<open>
  The conditions on the task at a priority: \<open>R\<close> says whether the priority is in the ready list,
  \<open>W\<close> the events whose wait lists hold it, \<open>ty\<close> the type of each event.
  \<^item> A ready task is not suspended and has no delay running.
  \<^item> A task is in the wait lists of the event, or of the events, it points to, never both, and
    these exist.
  \<^item> A task that is ready, or has no pend bit, is still in a wait list only when its pend timed
    out: a post and an abort take it off.
  \<^item> A waiting task with a timeout running has its pend bit set, so that the tick reports the
    timeout.
  \<^item> Unless the task pends on several events: a task that is not ready, not suspended and not
    delayed has a pend bit; a task with a pend bit is in a wait list or in a flag group; and its
    pend bit is the one of the type of its event.
\<close>

definition awaited :: "os_tcb \<Rightarrow> nat set" where
  "awaited p = (case OSTCBEventMultiPtr p of None \<Rightarrow> set_option (OSTCBEventPtr p) | Some es \<Rightarrow> set es)"

definition task_ok :: "bool \<Rightarrow> nat set \<Rightarrow> (nat \<Rightarrow> INT8U) \<Rightarrow> os_tcb \<Rightarrow> bool" where
  "task_ok R W ty p \<longleftrightarrow>
     (R \<longrightarrow> \<not> suspended p \<and> OSTCBDly p = 0) \<and>
     W = awaited p \<and>
     (OSTCBEventMultiPtr p \<noteq> None \<longrightarrow> OSTCBEventPtr p = None \<and> OSTCBEventMultiPtr p \<noteq> Some []) \<and>
     (\<forall>e\<in>W. ty e \<noteq> OS_EVENT_TYPE_UNUSED) \<and>
     (W \<noteq> {} \<and> (R \<or> \<not> pending p) \<longrightarrow> OSTCBStatPend p = OS_STAT_PEND_TO) \<and>
     (W \<noteq> {} \<and> OSTCBDly p \<noteq> 0 \<longrightarrow> pending p) \<and>
     (multi p \<or>
        (\<not> R \<and> \<not> suspended p \<and> OSTCBDly p = 0 \<longrightarrow> pending p) \<and>
        (pending p \<longrightarrow> W \<noteq> {} \<or> OSTCBFlagNode p \<noteq> None) \<and>
        (\<forall>e\<in>W. OSTCBStat p AND OS_STAT_PEND_ANY AND NOT (type_stat (ty e)) = 0))"

section \<open>The kernel\<close>

text \<open>
  \<open>task_at s n t\<close>: task control block \<open>t\<close> is the task of priority \<open>n\<close>.  While a mutex
  raises the priority of its owner, the owner's old entry of the priority table still points to
  the owner, which is then not the task of that priority.
\<close>

definition task_at :: "os \<Rightarrow> nat \<Rightarrow> nat \<Rightarrow> bool" where
  "task_at s n t \<longleftrightarrow> n < 64 \<and> OSTCBPrioTbl s n = TCB t \<and> prio_of (OSTCBTbl s t) = n"

definition waits_on :: "os \<Rightarrow> nat \<Rightarrow> nat set" where
  "waits_on s n = {e. n \<in> bm_mem (wl s e)}"

abbreviation event_type :: "os \<Rightarrow> nat \<Rightarrow> INT8U" where
  "event_type s \<equiv> \<lambda>e. OSEventType (OSEvents s e)"

definition kernel_inv :: "os \<Rightarrow> bool" where
  "kernel_inv s \<longleftrightarrow>
     bm_ok (rdy s) \<and> (\<forall>e. bm_ok (wl s e)) \<and>
     (\<forall>n t. n < 64 \<and> OSTCBPrioTbl s n = TCB t \<longrightarrow>
        xy_ok (OSTCBTbl s t) \<and> OSTCBPrioTbl s (prio_of (OSTCBTbl s t)) = TCB t) \<and>
     (\<forall>n. n \<in> bm_mem (rdy s) \<or> waits_on s n \<noteq> {} \<longrightarrow> (\<exists>t. task_at s n t)) \<and>
     (\<forall>n t. task_at s n t \<longrightarrow>
        task_ok (n \<in> bm_mem (rdy s)) (waits_on s n) (event_type s) (OSTCBTbl s t)) \<and>
     63 \<in> bm_mem (rdy s)"

lemma kernel_invD:
  assumes "kernel_inv s"
  shows "bm_ok (rdy s)" and "bm_ok (wl s e)"
    and "n < 64 \<Longrightarrow> OSTCBPrioTbl s n = TCB t \<Longrightarrow> xy_ok (OSTCBTbl s t)"
    and "n \<in> bm_mem (rdy s) \<Longrightarrow> \<exists>t. task_at s n t"
    and "n \<in> bm_mem (wl s e) \<Longrightarrow> \<exists>t. task_at s n t"
    and "task_at s n t \<Longrightarrow>
      task_ok (n \<in> bm_mem (rdy s)) (waits_on s n) (event_type s) (OSTCBTbl s t)"
    and "63 \<in> bm_mem (rdy s)"
    and "n < 64 \<Longrightarrow> OSTCBPrioTbl s n = TCB t \<Longrightarrow> OSTCBPrioTbl s (prio_of (OSTCBTbl s t)) = TCB t"
  using assms by (auto simp: kernel_inv_def waits_on_def)

lemma task_at_unique: "task_at s n t \<Longrightarrow> task_at s n t' \<Longrightarrow> t = t'"
  by (simp add: task_at_def)

lemma task_at_prio_tbl:
  "kernel_inv s \<Longrightarrow> n < 64 \<Longrightarrow> OSTCBPrioTbl s n = TCB t \<Longrightarrow> task_at s (prio_of (OSTCBTbl s t)) t"
  using kernel_invD(3,8) by (auto simp: task_at_def dest: xy_okD)

lemma task_at_xy: "kernel_inv s \<Longrightarrow> task_at s n t \<Longrightarrow> xy_ok (OSTCBTbl s t)"
  by (auto simp: task_at_def intro: kernel_invD(3))

text \<open>The fields the invariant reads.\<close>

definition tcb_coords :: "os_tcb \<Rightarrow> INT8U \<times> INT8U \<times> INT8U \<times> INT8U \<times> INT8U \<times> tcb_ptr \<times> tcb_ptr" where
  "tcb_coords p = (OSTCBPrio p, OSTCBX p, OSTCBY p, OSTCBBitX p, OSTCBBitY p, OSTCBNext p, OSTCBPrev p)"

definition tcb_sync :: "os_tcb \<Rightarrow> nat option \<times> nat list option \<times> nat option \<times> INT32U \<times> INT8U \<times> INT8U" where
  "tcb_sync p = (OSTCBEventPtr p, OSTCBEventMultiPtr p, OSTCBFlagNode p, OSTCBDly p, OSTCBStat p, OSTCBStatPend p)"

lemma xy_ok_cong: "tcb_coords p = tcb_coords q \<Longrightarrow> xy_ok p = xy_ok q"
  by (simp add: tcb_coords_def xy_ok_def)

lemma task_ok_cong:
  "tcb_sync p = tcb_sync q \<Longrightarrow> task_ok R W ty p = task_ok R W ty q"
  by (cases "OSTCBEventMultiPtr q")
    (simp_all add: tcb_sync_def task_ok_def awaited_def suspended_def pending_def multi_def)

text \<open>
  \<open>touches n t s s'\<close>: of all tasks, the operation changes only task \<open>t\<close> and moves only its
  priority \<open>n\<close> in the lists.  The running task and the nesting counters stay.
\<close>

definition same_task :: "os_tcb \<Rightarrow> os_tcb \<Rightarrow> bool" where
  "same_task p q \<longleftrightarrow> tcb_coords p = tcb_coords q \<and> tcb_sync p = tcb_sync q"

definition same_kernel :: "os \<Rightarrow> os \<Rightarrow> bool" where
  "same_kernel s s' \<longleftrightarrow>
     OSTCBPrioTbl s' = OSTCBPrioTbl s \<and> event_type s' = event_type s \<and>
     OSIntNesting s' = OSIntNesting s \<and> OSLockNesting s' = OSLockNesting s \<and>
     OSEventFreeList s' = OSEventFreeList s \<and> OSTCBList s' = OSTCBList s \<and> OSRunning s' = OSRunning s \<and>
     OSTCBFreeList s' = OSTCBFreeList s \<and>
     (\<forall>e. event_type s e = OS_EVENT_TYPE_UNUSED \<longrightarrow> OSEventPtr (OSEvents s' e) = OSEventPtr (OSEvents s e))"

definition same_run :: "os \<Rightarrow> os \<Rightarrow> bool" where
  "same_run s s' \<longleftrightarrow> OSTCBCur s' = OSTCBCur s \<and> OSPrioCur s' = OSPrioCur s"

definition touches :: "nat \<Rightarrow> nat \<Rightarrow> os \<Rightarrow> os \<Rightarrow> bool" where
  "touches n t s s' \<longleftrightarrow>
     same_kernel s s' \<and> same_run s s' \<and>
     (\<forall>u. u \<noteq> t \<longrightarrow> same_task (OSTCBTbl s' u) (OSTCBTbl s u)) \<and>
     tcb_coords (OSTCBTbl s' t) = tcb_coords (OSTCBTbl s t) \<and>
     bm_ok (rdy s') \<and> (\<forall>e. bm_ok (wl s' e)) \<and>
     (\<forall>m. m \<noteq> n \<longrightarrow> (m \<in> bm_mem (rdy s') \<longleftrightarrow> m \<in> bm_mem (rdy s))) \<and>
     (\<forall>m e. m \<noteq> n \<longrightarrow> (m \<in> bm_mem (wl s' e) \<longleftrightarrow> m \<in> bm_mem (wl s e)))"

text \<open>\<open>quiet s s'\<close>: the operation changes nothing of this.\<close>

definition quiet :: "os \<Rightarrow> os \<Rightarrow> bool" where
  "quiet s s' \<longleftrightarrow>
     same_kernel s s' \<and> same_run s s' \<and> (\<forall>u. same_task (OSTCBTbl s' u) (OSTCBTbl s u)) \<and>
     rdy s' = rdy s \<and> (\<forall>e. wl s' e = wl s e)"

lemma same_task_refl [simp]: "same_task p p"
  by (simp add: same_task_def)

lemma same_task_prio: "same_task p q \<Longrightarrow> prio_of p = prio_of q"
  by (simp add: same_task_def tcb_coords_def)

lemma coords_prio: "tcb_coords p = tcb_coords q \<Longrightarrow> prio_of p = prio_of q"
  by (simp add: tcb_coords_def)

lemma touchesD:
  assumes "touches n t s s'"
  shows "same_kernel s s'" and "same_run s s'"
    and "u \<noteq> t \<Longrightarrow> same_task (OSTCBTbl s' u) (OSTCBTbl s u)"
    and "tcb_coords (OSTCBTbl s' u) = tcb_coords (OSTCBTbl s u)"
    and "bm_ok (rdy s')" and "bm_ok (wl s' e)"
    and "m \<noteq> n \<Longrightarrow> m \<in> bm_mem (rdy s') \<longleftrightarrow> m \<in> bm_mem (rdy s)"
    and "m \<noteq> n \<Longrightarrow> waits_on s' m = waits_on s m"
    and "task_at s' m u \<longleftrightarrow> task_at s m u"
proof -
  show c: "tcb_coords (OSTCBTbl s' u) = tcb_coords (OSTCBTbl s u)" for u
    using assms by (cases "u = t") (auto simp: touches_def same_task_def)
  show "task_at s' m u \<longleftrightarrow> task_at s m u"
    using assms coords_prio [OF c] by (simp add: task_at_def touches_def same_kernel_def)
qed (use assms in \<open>auto simp: touches_def waits_on_def\<close>)

lemma same_kernelD:
  assumes "same_kernel s s'"
  shows "OSTCBPrioTbl s' = OSTCBPrioTbl s" and "event_type s' = event_type s"
    and "OSIntNesting s' = OSIntNesting s" and "OSLockNesting s' = OSLockNesting s"
    and "OSEventFreeList s' = OSEventFreeList s"
    and "event_type s e = OS_EVENT_TYPE_UNUSED \<Longrightarrow> OSEventPtr (OSEvents s' e) = OSEventPtr (OSEvents s e)"
    and "OSTCBList s' = OSTCBList s" and "OSRunning s' = OSRunning s"
    and "OSTCBFreeList s' = OSTCBFreeList s"
  using assms by (simp_all add: same_kernel_def)

lemma same_kernel_refl [simp]: "same_kernel s s"
  by (simp add: same_kernel_def)

lemma same_kernel_trans: "same_kernel s s' \<Longrightarrow> same_kernel s' s'' \<Longrightarrow> same_kernel s s''"
  by (simp add: same_kernel_def fun_eq_iff)

lemma touches_trans: "touches n t s s' \<Longrightarrow> touches n t s' s'' \<Longrightarrow> touches n t s s''"
  unfolding touches_def same_run_def same_task_def
  by (blast intro: same_kernel_trans trans)

lemma quiet_refl [simp]: "quiet s s"
  by (simp add: quiet_def same_run_def)

lemma quiet_trans: "quiet s s' \<Longrightarrow> quiet s' s'' \<Longrightarrow> quiet s s''"
  unfolding quiet_def same_run_def same_task_def by (metis same_kernel_trans)

lemma quiet_touches:
  assumes "kernel_inv s" and "quiet s s'"
  shows "touches n t s s'"
  using assms kernel_invD(1,2) [OF assms(1)]
  by (simp add: touches_def quiet_def) (simp add: same_task_def)

section \<open>The list of the tasks\<close>

text \<open>
  \<open>OSTCBList\<close> chains the control blocks of all tasks, forwards and backwards, each of them the task of its priority,
  up to the idle task; no task runs at a priority a mutex lent it; and the control blocks of the
  free list belong to no task.
\<close>

definition tcb_opt :: "tcb_ptr \<Rightarrow> nat option" where
  "tcb_opt p = (case p of TCB t \<Rightarrow> Some t | _ \<Rightarrow> None)"

definition tcb_next :: "os \<Rightarrow> nat \<Rightarrow> nat option" where
  "tcb_next s t = tcb_opt (OSTCBNext (OSTCBTbl s t))"

definition tcb_prev :: "os \<Rightarrow> nat \<Rightarrow> nat option" where
  "tcb_prev s t = tcb_opt (OSTCBPrev (OSTCBTbl s t))"

definition free_tcbs :: "os \<Rightarrow> nat list \<Rightarrow> bool" where
  "free_tcbs s fs \<longleftrightarrow> path (tcb_next s) (tcb_opt (OSTCBFreeList s)) fs \<and>
     (\<forall>t\<in>set fs. \<forall>n<64. OSTCBPrioTbl s n \<noteq> TCB t)"

definition task_list :: "os \<Rightarrow> nat list \<Rightarrow> bool" where
  "task_list s ts \<longleftrightarrow> dpath (tcb_next s) (tcb_prev s) None (tcb_opt (OSTCBList s)) ts \<and> ts \<noteq> [] \<and>
     OSTCBPrev (OSTCBTbl s (hd ts)) = NullTCB \<and>
     prio_of (OSTCBTbl s (last ts)) = 63 \<and> (\<forall>t\<in>set ts. task_at s (prio_of (OSTCBTbl s t)) t) \<and>
     (\<forall>n t. task_at s n t \<longrightarrow> t \<in> set ts) \<and>
     (\<forall>n t. n < 64 \<and> OSTCBPrioTbl s n = TCB t \<longrightarrow> prio_of (OSTCBTbl s t) = n) \<and>
     (\<exists>fs. free_tcbs s fs)"

lemma task_list_cong:
  assumes l: "task_list s ts" and "OSTCBPrioTbl s' = OSTCBPrioTbl s" and "OSTCBList s' = OSTCBList s"
    and "OSTCBFreeList s' = OSTCBFreeList s"
    and c: "\<And>u. tcb_coords (OSTCBTbl s' u) = tcb_coords (OSTCBTbl s u)"
  shows "task_list s' ts"
proof -
  have "tcb_next s' = tcb_next s" "tcb_prev s' = tcb_prev s" "OSTCBPrev (OSTCBTbl s' u) = OSTCBPrev (OSTCBTbl s u)" for u
    using c by (auto simp: tcb_next_def tcb_prev_def tcb_coords_def)
  moreover have p: "prio_of (OSTCBTbl s' u) = prio_of (OSTCBTbl s u)" for u using coords_prio [OF c] .
  moreover have "task_at s' = task_at s" by (intro ext) (simp add: task_at_def assms(2) p)
  ultimately show ?thesis using l by (simp add: task_list_def free_tcbs_def assms(2-4))
qed

section \<open>Keeping the invariant\<close>

lemma kernel_inv_touches:
  assumes inv: "kernel_inv s" and at: "task_at s n t" and tch: "touches n t s s'"
    and task: "task_ok (n \<in> bm_mem (rdy s')) (waits_on s' n) (event_type s') (OSTCBTbl s' t)"
    and idle: "n = 63 \<Longrightarrow> 63 \<in> bm_mem (rdy s')"
  shows "kernel_inv s'"
proof -
  note d = touchesD [OF tch]
  note k = same_kernelD [OF d(1)]
  have "task_ok (m \<in> bm_mem (rdy s')) (waits_on s' m) (event_type s') (OSTCBTbl s' u)"
    if u: "task_at s' m u" for m u
  proof (cases "m = n")
    case True
    with u at have "u = t" by (auto simp: d(9) dest: task_at_unique)
    with True task show ?thesis by simp
  next
    case False
    have su: "task_at s m u" using u by (simp add: d(9))
    with at False have "u \<noteq> t" by (auto simp: task_at_def)
    then have "tcb_sync (OSTCBTbl s' u) = tcb_sync (OSTCBTbl s u)"
      using d(3) by (simp add: same_task_def)
    from task_ok_cong [OF this] show ?thesis
      using kernel_invD(6) [OF inv su] False by (simp add: d(7,8) k(2))
  qed
  moreover have "xy_ok (OSTCBTbl s' u) \<and> OSTCBPrioTbl s' (prio_of (OSTCBTbl s' u)) = TCB u"
    if "m < 64" "OSTCBPrioTbl s' m = TCB u" for m u
    using kernel_invD(3,8) [OF inv] that xy_ok_cong [OF d(4)] coords_prio [OF d(4)] by (simp add: k(1))
  moreover have "\<exists>u. task_at s' m u" if "m \<in> bm_mem (rdy s') \<or> waits_on s' m \<noteq> {}" for m
    using that at inv by (cases "m = n") (auto simp: d(7-9) kernel_inv_def)
  moreover have "63 \<in> bm_mem (rdy s')"
    using idle d(7) [of 63] kernel_invD(7) [OF inv] by blast
  ultimately show ?thesis using d(5,6) by (auto simp: kernel_inv_def)
qed

lemma quietD:
  assumes "quiet s s'"
  shows "same_kernel s s'" and "same_run s s'" and "same_task (OSTCBTbl s' u) (OSTCBTbl s u)"
    and "rdy s' = rdy s" and "wl s' e = wl s e" and "waits_on s' m = waits_on s m"
    and "task_at s' m u \<longleftrightarrow> task_at s m u"
proof -
  show "task_at s' m u \<longleftrightarrow> task_at s m u"
    using assms same_task_prio [of "OSTCBTbl s' u" "OSTCBTbl s u"]
    by (simp add: task_at_def quiet_def same_kernel_def)
qed (use assms in \<open>auto simp: quiet_def waits_on_def\<close>)

text \<open>An operation that leaves all of this alone keeps the invariant.\<close>

lemma kernel_inv_cong:
  assumes "kernel_inv s" and "OSTCBPrioTbl s' = OSTCBPrioTbl s" and "event_type s' = event_type s"
    and st: "\<And>u. same_task (OSTCBTbl s' u) (OSTCBTbl s u)"
    and "rdy s' = rdy s" and "\<And>e. wl s' e = wl s e"
  shows "kernel_inv s'"
proof -
  have "task_at s' = task_at s"
    by (intro ext) (simp add: task_at_def assms(2) same_task_prio [OF st])
  moreover have "waits_on s' m = waits_on s m" for m by (simp add: waits_on_def assms(6))
  moreover have "xy_ok (OSTCBTbl s' u) = xy_ok (OSTCBTbl s u)" for u
    using st [of u] by (intro xy_ok_cong) (simp add: same_task_def)
  moreover have "prio_of (OSTCBTbl s' u) = prio_of (OSTCBTbl s u)" for u
    using same_task_prio [OF st] .
  moreover have "task_ok R W ty (OSTCBTbl s' u) = task_ok R W ty (OSTCBTbl s u)" for u R W ty
    using st [of u] by (intro task_ok_cong) (simp add: same_task_def)
  ultimately show ?thesis
    using assms(1) unfolding kernel_inv_def by (simp add: assms(2,3,5,6))
qed

lemma kernel_inv_quiet: "kernel_inv s \<Longrightarrow> quiet s s' \<Longrightarrow> kernel_inv s'"
  by (erule kernel_inv_cong) (simp_all add: quietD same_kernelD [OF quietD(1)])

end
