(* ===== verification/UCOS_Prim.thy ===== *)
theory UCOS_Prim
  imports UCOS_Inv
begin

text \<open>
  What the state primitives do to the ready list, the wait lists and the task control blocks, and
  that they keep the kernel invariant: the facts every service is verified with.
\<close>

section \<open>Observers of the primitives\<close>

lemma rdy_simps [simp]:
  "rdy (set_rdy b s) = b" "rdy (upd_tcb t f s) = rdy s" "rdy (upd_event e g s) = rdy s"
  "rdy (upd_q q h s) = rdy s" "rdy (set_wl e b s) = rdy s"
  by (simp_all add: rdy_def set_rdy_def set_wl_def os_defs)

lemma wl_simps [simp]:
  "wl (set_rdy b s) e = wl s e" "wl (upd_tcb t f s) e = wl s e" "wl (upd_q q h s) e = wl s e"
  "wl (set_wl d b s) e = (if e = d then b else wl s e)"
  by (simp_all add: wl_def set_rdy_def set_wl_def os_defs)

lemma tcb_simps [simp]:
  "OSTCBTbl (set_rdy b s) = OSTCBTbl s" "OSTCBTbl (upd_event e g s) = OSTCBTbl s"
  "OSTCBTbl (upd_q q h s) = OSTCBTbl s" "OSTCBTbl (set_wl e b s) = OSTCBTbl s"
  "OSTCBTbl (upd_tcb t f s) = (OSTCBTbl s)(t := f (OSTCBTbl s t))"
  by (simp_all add: set_rdy_def set_wl_def os_defs)

lemma event_simps [simp]:
  "OSEvents (set_rdy b s) = OSEvents s" "OSEvents (upd_tcb t f s) = OSEvents s"
  "OSEvents (upd_q q h s) = OSEvents s"
  "OSEvents (upd_event e g s) = (OSEvents s)(e := g (OSEvents s e))"
  "OSEvents (set_wl e b s) = (OSEvents s)(e := (OSEvents s e)\<lparr>OSEventGrp := fst b, OSEventTbl := snd b\<rparr>)"
  by (simp_all add: set_rdy_def set_wl_def os_defs)

lemma event_grp_wl: "OSEventGrp (OSEvents s e) = fst (wl s e)"
  by (simp add: wl_def)

text \<open>
  The frame: an operation on the lists changes the ready list, the group and table of events, and
  task control blocks, and nothing else.
\<close>

definition only_lists :: "os \<Rightarrow> os \<Rightarrow> bool" where
  "only_lists s s' \<longleftrightarrow>
     s' = s\<lparr>OSRdyGrp := OSRdyGrp s', OSRdyTbl := OSRdyTbl s', OSEvents := OSEvents s',
            OSTCBTbl := OSTCBTbl s'\<rparr> \<and>
     (\<forall>e. OSEvents s' e = (OSEvents s e)\<lparr>OSEventGrp := OSEventGrp (OSEvents s' e),
            OSEventTbl := OSEventTbl (OSEvents s' e)\<rparr>)"

lemma only_lists_prims [simp]:
  "only_lists s (set_rdy b s)" "only_lists s (upd_tcb t f s)" "only_lists s (set_wl e b s)"
  by (simp_all add: only_lists_def set_rdy_def set_wl_def os_defs)

lemma only_lists_refl [simp]: "only_lists s s"
  by (simp add: only_lists_def)

lemma only_lists_trans:
  assumes a: "only_lists s s'" and b: "only_lists s' s''"
  shows "only_lists s s''"
proof -
  have "s'' = s\<lparr>OSRdyGrp := OSRdyGrp s'', OSRdyTbl := OSRdyTbl s'', OSEvents := OSEvents s'',
      OSTCBTbl := OSTCBTbl s''\<rparr>"
  proof -
    have "s'' = s'\<lparr>OSRdyGrp := OSRdyGrp s'', OSRdyTbl := OSRdyTbl s'', OSEvents := OSEvents s'',
        OSTCBTbl := OSTCBTbl s''\<rparr>" using b by (simp add: only_lists_def)
    also have "s' = s\<lparr>OSRdyGrp := OSRdyGrp s', OSRdyTbl := OSRdyTbl s', OSEvents := OSEvents s',
        OSTCBTbl := OSTCBTbl s'\<rparr>" using a by (simp add: only_lists_def)
    finally show ?thesis by simp
  qed
  moreover have "OSEvents s'' e = (OSEvents s e)\<lparr>OSEventGrp := OSEventGrp (OSEvents s'' e),
      OSEventTbl := OSEventTbl (OSEvents s'' e)\<rparr>" for e
  proof -
    have "OSEvents s'' e = (OSEvents s' e)\<lparr>OSEventGrp := OSEventGrp (OSEvents s'' e),
        OSEventTbl := OSEventTbl (OSEvents s'' e)\<rparr>" using b by (simp add: only_lists_def)
    also have "OSEvents s' e = (OSEvents s e)\<lparr>OSEventGrp := OSEventGrp (OSEvents s' e),
        OSEventTbl := OSEventTbl (OSEvents s' e)\<rparr>" using a by (simp add: only_lists_def)
    finally show ?thesis by simp
  qed
  ultimately show ?thesis by (simp add: only_lists_def)
qed

lemma only_lists_global:
  assumes "only_lists s s'"
  shows "OSTCBPrioTbl s' = OSTCBPrioTbl s" and "OSIntNesting s' = OSIntNesting s"
    and "OSLockNesting s' = OSLockNesting s" and "OSTCBCur s' = OSTCBCur s"
    and "OSPrioCur s' = OSPrioCur s" and "OSRunning s' = OSRunning s"
    and "OSEventFreeList s' = OSEventFreeList s" and "OSQTbl s' = OSQTbl s"
    and "OSQCell s' = OSQCell s" and "OSQFreeList s' = OSQFreeList s"
    and "OSTCBList s' = OSTCBList s" and "OSTime s' = OSTime s"
    and "OSFlagTbl s' = OSFlagTbl s" and "OSFlagNode s' = OSFlagNode s"
    and "OSTCBFreeList s' = OSTCBFreeList s"
proof -
  have *: "s' = s\<lparr>OSRdyGrp := OSRdyGrp s', OSRdyTbl := OSRdyTbl s', OSEvents := OSEvents s',
      OSTCBTbl := OSTCBTbl s'\<rparr>" using assms by (simp add: only_lists_def)
  show "OSTCBPrioTbl s' = OSTCBPrioTbl s" "OSIntNesting s' = OSIntNesting s"
    "OSLockNesting s' = OSLockNesting s" "OSTCBCur s' = OSTCBCur s"
    "OSPrioCur s' = OSPrioCur s" "OSRunning s' = OSRunning s"
    "OSEventFreeList s' = OSEventFreeList s" "OSQTbl s' = OSQTbl s"
    "OSQCell s' = OSQCell s" "OSQFreeList s' = OSQFreeList s"
    "OSTCBList s' = OSTCBList s" "OSTime s' = OSTime s"
    "OSFlagTbl s' = OSFlagTbl s" "OSFlagNode s' = OSFlagNode s" "OSTCBFreeList s' = OSTCBFreeList s"
    by (subst *, simp)+
qed

lemma only_lists_event:
  assumes "only_lists s s'"
  shows "OSEventType (OSEvents s' e) = OSEventType (OSEvents s e)"
    and "OSEventCnt (OSEvents s' e) = OSEventCnt (OSEvents s e)"
    and "OSEventPtr (OSEvents s' e) = OSEventPtr (OSEvents s e)"
    and "OSEventName (OSEvents s' e) = OSEventName (OSEvents s e)"
proof -
  have *: "OSEvents s' e = (OSEvents s e)\<lparr>OSEventGrp := OSEventGrp (OSEvents s' e),
      OSEventTbl := OSEventTbl (OSEvents s' e)\<rparr>" using assms by (simp add: only_lists_def)
  show "OSEventType (OSEvents s' e) = OSEventType (OSEvents s e)"
    "OSEventCnt (OSEvents s' e) = OSEventCnt (OSEvents s e)"
    "OSEventPtr (OSEvents s' e) = OSEventPtr (OSEvents s e)"
    "OSEventName (OSEvents s' e) = OSEventName (OSEvents s e)"
    by (subst *, simp)+
qed

lemma only_lists_kernel:
  assumes "only_lists s s'"
  shows "same_kernel s s'" and "same_run s s'"
  using only_lists_global [OF assms] only_lists_event [OF assms]
  by (simp_all add: same_kernel_def same_run_def)

section \<open>Ready list and wait lists of one task\<close>

lemma RdyListInsert_effect:
  assumes "xy_ok (OSTCBTbl s t)"
  shows "rdy (OS_RdyListInsert t s) = bm_ins (prio_of (OSTCBTbl s t)) (rdy s)"
    and "wl (OS_RdyListInsert t s) e = wl s e" and "OSTCBTbl (OS_RdyListInsert t s) = OSTCBTbl s"
    and "OSEvents (OS_RdyListInsert t s) = OSEvents s" and "only_lists s (OS_RdyListInsert t s)"
  using assms by (simp_all add: OS_RdyListInsert_def Let_def bm_set_xy)

lemma RdyListRemove_effect:
  assumes "xy_ok (OSTCBTbl s t)"
  shows "rdy (OS_RdyListRemove t s) = bm_del (prio_of (OSTCBTbl s t)) (rdy s)"
    and "wl (OS_RdyListRemove t s) e = wl s e" and "OSTCBTbl (OS_RdyListRemove t s) = OSTCBTbl s"
    and "OSEvents (OS_RdyListRemove t s) = OSEvents s" and "only_lists s (OS_RdyListRemove t s)"
  using assms by (simp_all add: OS_RdyListRemove_def Let_def bm_clear_xy)

lemma WaitListInsert_effect:
  assumes "xy_ok (OSTCBTbl s t)"
  shows "rdy (OS_WaitListInsert t e s) = rdy s"
    and "wl (OS_WaitListInsert t e s) d =
      (if d = e then bm_ins (prio_of (OSTCBTbl s t)) (wl s e) else wl s d)"
    and "OSTCBTbl (OS_WaitListInsert t e s) = OSTCBTbl s" and "only_lists s (OS_WaitListInsert t e s)"
  using assms by (simp_all add: OS_WaitListInsert_def Let_def bm_set_xy)

lemma WaitListRemove_effect:
  assumes "xy_ok (OSTCBTbl s t)"
  shows "rdy (OS_WaitListRemove t e s) = rdy s"
    and "wl (OS_WaitListRemove t e s) d =
      (if d = e then bm_del (prio_of (OSTCBTbl s t)) (wl s e) else wl s d)"
    and "OSTCBTbl (OS_WaitListRemove t e s) = OSTCBTbl s" and "only_lists s (OS_WaitListRemove t e s)"
  using assms by (simp_all add: OS_WaitListRemove_def Let_def bm_clear_xy)

lemma EventTaskRemove_effect:
  assumes "xy_ok (OSTCBTbl s t)"
  shows "rdy (OS_EventTaskRemove t e s) = rdy s"
    and "wl (OS_EventTaskRemove t e s) d =
      (if d = e then bm_del (prio_of (OSTCBTbl s t)) (wl s e) else wl s d)"
    and "OSTCBTbl (OS_EventTaskRemove t e s) = (OSTCBTbl s)(t := (OSTCBTbl s t)\<lparr>OSTCBEventPtr := None\<rparr>)"
    and "only_lists s (OS_EventTaskRemove t e s)"
  using WaitListRemove_effect [OF assms]
  by (auto simp: OS_EventTaskRemove_def Let_def intro: only_lists_trans [OF _ only_lists_prims(2)])

lemma EventTaskRemoveMulti_effect:
  assumes "xy_ok (OSTCBTbl s t)" and "\<And>e. bm_ok (wl s e)"
  shows "rdy (OS_EventTaskRemoveMulti t es s) = rdy s \<and>
    bm_ok (wl (OS_EventTaskRemoveMulti t es s) d) \<and>
    bm_mem (wl (OS_EventTaskRemoveMulti t es s) d) =
      (if d \<in> set es then bm_mem (wl s d) - {prio_of (OSTCBTbl s t)} else bm_mem (wl s d)) \<and>
    OSTCBTbl (OS_EventTaskRemoveMulti t es s) = OSTCBTbl s \<and>
    only_lists s (OS_EventTaskRemoveMulti t es s)"
  using assms
proof (induction es arbitrary: s)
  case Nil
  then show ?case by simp
next
  case (Cons e es)
  let ?s = "OS_WaitListRemove t e s"
  note r = WaitListRemove_effect [OF Cons.prems(1)]
  have p: "prio_of (OSTCBTbl s t) < 64" using Cons.prems(1) by (rule xy_okD)
  have "xy_ok (OSTCBTbl ?s t)" and "\<And>e. bm_ok (wl ?s e)"
    using Cons.prems p by (auto simp: r bm_ok_del)
  note ih = Cons.IH [OF this]
  show ?case
    using ih Cons.prems p only_lists_trans [OF r(4) [of e]] by (simp add: r bm_mem_del)
qed

section \<open>The status byte under the masks of the code\<close>

lemma byte_forall: "(\<forall>n<8. P n) \<longleftrightarrow> P 0 \<and> P 1 \<and> P 2 \<and> P 3 \<and> P 4 \<and> P 5 \<and> P 6 \<and> P (7::nat)"
  by (auto simp: eval_nat_numeral All_less_Suc)

lemmas stat_bits = byte_eq_0_iff byte_forall bit_and_iff bit_or_iff bit_not_iff

text \<open>Clearing pend bits with a mask that leaves the suspend and multi bits.\<close>

lemma and_not_mask_bit:
  "bit (msk :: INT8U) k = False \<Longrightarrow> bit (w AND NOT msk) k = bit w k"
  by (auto simp: bit_and_iff bit_not_iff dest: bit_byte_bound)

lemma suspended_iff: "suspended p \<longleftrightarrow> bit (OSTCBStat p) 3"
  by (simp add: suspended_def stat_bits)

lemma multi_iff: "multi p \<longleftrightarrow> bit (OSTCBStat p) 7"
  by (simp add: multi_def stat_bits)

lemma pending_iff:
  "pending p \<longleftrightarrow> bit (OSTCBStat p) 0 \<or> bit (OSTCBStat p) 1 \<or> bit (OSTCBStat p) 2 \<or>
    bit (OSTCBStat p) 4 \<or> bit (OSTCBStat p) 5"
  by (auto simp: pending_def stat_bits)

lemmas stat_iffs = suspended_iff multi_iff pending_iff

lemma type_stat_cases: "type_stat ty \<in> {0, OS_STAT_SEM, OS_STAT_MBOX, OS_STAT_Q, OS_STAT_MUTEX}"
  by (simp add: type_stat_def)

lemma type_stat_bits [simp]: "\<not> bit (type_stat ty) 3" "\<not> bit (type_stat ty) 7"
  using type_stat_cases [of ty] by auto

text \<open>A waiter whose pend bit is covered by the mask has no pend bit left.\<close>

lemma masked_not_pending:
  assumes "OSTCBStat p AND OS_STAT_PEND_ANY AND NOT m = 0" and "OSTCBStat q = OSTCBStat p AND NOT m"
  shows "\<not> pending q"
  using assms by (simp add: pending_def ac_simps)

section \<open>Readying the highest-priority waiter\<close>

definition readied_tcb :: "nat \<Rightarrow> voidp \<Rightarrow> INT8U \<Rightarrow> INT8U \<Rightarrow> os_tcb \<Rightarrow> os_tcb" where
  "readied_tcb e pmsg msk ps p =
     (let p = p\<lparr>OSTCBDly := 0, OSTCBMsg := pmsg, OSTCBStat := OSTCBStat p AND NOT msk,
                OSTCBStatPend := ps, OSTCBEventPtr := None\<rparr>
      in case OSTCBEventMultiPtr p of
           None \<Rightarrow> p
         | Some es \<Rightarrow> p\<lparr>OSTCBEventMultiPtr := None, OSTCBEventMultiRdy := Some e\<rparr>)"

definition multi_events :: "os_tcb \<Rightarrow> nat set" where
  "multi_events p = (case OSTCBEventMultiPtr p of None \<Rightarrow> {} | Some es \<Rightarrow> set es)"

lemma top_waiter:
  assumes inv: "kernel_inv s" and ne: "bm_mem (wl s e) \<noteq> {}"
  shows "\<exists>t. task_at s (Min (bm_mem (wl s e))) t" and "Min (bm_mem (wl s e)) \<in> bm_mem (wl s e)"
    and "unat (bm_top (wl s e)) = Min (bm_mem (wl s e))"
proof -
  show m: "unat (bm_top (wl s e)) = Min (bm_mem (wl s e))"
    using bm.top_eq_Min [OF kernel_invD(2) [OF inv] ne] .
  show i: "Min (bm_mem (wl s e)) \<in> bm_mem (wl s e)"
    using ne by (intro Min_in) simp_all
  show "\<exists>t. task_at s (Min (bm_mem (wl s e))) t"
    using kernel_invD(5) [OF inv i] .
qed

lemma EventTaskRdy_unfold:
  "OS_EventTaskRdy e pmsg msk ps s =
     (let t = tcb_ix (OSTCBPrioTbl s (unat (bm_top (wl s e))));
          s1 = upd_tcb t (\<lambda>p. p\<lparr>OSTCBDly := 0, OSTCBMsg := pmsg,
                 OSTCBStat := OSTCBStat p AND NOT msk, OSTCBStatPend := ps\<rparr>) s;
          s2 = (if \<not> suspended (OSTCBTbl s1 t)
                then set_rdy (bm_set (unmap (fst (wl s e))) (OSTCBBitY (OSTCBTbl s1 t))
                       (OSTCBBitX (OSTCBTbl s1 t)) (rdy s1)) s1
                else s1);
          s3 = OS_EventTaskRemove t e s2
      in (case OSTCBEventMultiPtr (OSTCBTbl s3 t) of
            None \<Rightarrow> s3
          | Some es \<Rightarrow> upd_tcb t (\<lambda>p. p\<lparr>OSTCBEventMultiPtr := None, OSTCBEventMultiRdy := Some e\<rparr>)
              (OS_EventTaskRemoveMulti t es s3),
          bm_top (wl s e)))"
  unfolding OS_EventTaskRdy_def Let_def suspended_def bm_top_def wl_def fst_conv snd_conv not_not
  by (rule refl)

lemma EventTaskRdy_effect:
  fixes s e pmsg msk ps
  defines "s' \<equiv> fst (OS_EventTaskRdy e pmsg msk ps s)"
  assumes inv: "kernel_inv s" and ne: "bm_mem (wl s e) \<noteq> {}"
    and at: "task_at s (Min (bm_mem (wl s e))) t" and m3: "\<not> bit msk 3"
  shows "unat (snd (OS_EventTaskRdy e pmsg msk ps s)) = Min (bm_mem (wl s e))"
    and "OSTCBTbl s' = (OSTCBTbl s)(t := readied_tcb e pmsg msk ps (OSTCBTbl s t))"
    and "rdy s' = (if suspended (OSTCBTbl s t) then rdy s else bm_ins (Min (bm_mem (wl s e))) (rdy s))"
    and "bm_ok (wl s' d)"
    and "bm_mem (wl s' d) = (if d = e \<or> d \<in> multi_events (OSTCBTbl s t)
           then bm_mem (wl s d) - {Min (bm_mem (wl s e))} else bm_mem (wl s d))"
    and "only_lists s s'"
proof -
  let ?n = "Min (bm_mem (wl s e))" and ?p = "OSTCBTbl s t"
  note top = top_waiter [OF inv ne]
  have xy: "xy_ok ?p" and pn: "prio_of ?p = ?n" and ptr: "OSTCBPrioTbl s ?n = TCB t"
    and n64: "?n < 64"
    using task_at_xy [OF inv at] at by (auto simp: task_at_def)
  show "unat (snd (OS_EventTaskRdy e pmsg msk ps s)) = ?n"
    by (simp add: EventTaskRdy_unfold Let_def top(3))
  define s1 where "s1 = upd_tcb t (\<lambda>p. p\<lparr>OSTCBDly := 0, OSTCBMsg := pmsg,
      OSTCBStat := OSTCBStat p AND NOT msk, OSTCBStatPend := ps\<rparr>) s"
  have xy1: "xy_ok (OSTCBTbl s1 t)" and pn1: "prio_of (OSTCBTbl s1 t) = ?n"
    using xy pn by (simp_all add: s1_def xy_ok_def)
  have sus: "suspended (OSTCBTbl s1 t) \<longleftrightarrow> suspended ?p"
    using m3 by (simp add: s1_def suspended_iff and_not_mask_bit)
  have row: "unmap (fst (wl s e)) = OSTCBY (OSTCBTbl s1 t)"
  proof -
    have "unat (unmap (fst (wl s e))) = ?n div 8"
      by (simp add: top(3) [symmetric] unat_bm_top row_of unmap_lt_8)
    then show ?thesis using xy_okD(2) [OF xy1] pn1 by (simp add: word_unat_eq_iff)
  qed
  define s2 where "s2 = (if \<not> suspended (OSTCBTbl s1 t)
      then set_rdy (bm_set (unmap (fst (wl s e))) (OSTCBBitY (OSTCBTbl s1 t))
             (OSTCBBitX (OSTCBTbl s1 t)) (rdy s1)) s1
      else s1)"
  have r2: "rdy s2 = (if suspended ?p then rdy s else bm_ins ?n (rdy s))"
    unfolding s2_def row bm_set_xy [OF xy1] pn1 sus by (simp add: s1_def)
  have t2: "OSTCBTbl s2 = OSTCBTbl s1" and w2: "\<And>d. wl s2 d = wl s d" and o2: "only_lists s s2"
    by (auto simp: s2_def s1_def intro: only_lists_trans [OF _ only_lists_prims(1)])
  note r3 = EventTaskRemove_effect [of s2 t e, unfolded t2, OF xy1, unfolded pn1 w2]
  define s3 where "s3 = OS_EventTaskRemove t e s2"
  have xy3: "xy_ok (OSTCBTbl s3 t)" and pn3: "prio_of (OSTCBTbl s3 t) = ?n"
    using xy1 pn1 by (simp_all add: s3_def r3 xy_ok_def)
  have okw: "\<And>d. bm_ok (wl s d)" using kernel_invD(2) [OF inv] .
  have okw3: "\<And>d. bm_ok (wl s3 d)" using okw n64 by (simp add: s3_def r3 bm_ok_del)
  have o3: "only_lists s s3" using only_lists_trans [OF o2 r3(4)] by (simp add: s3_def)
  have m: "OSTCBEventMultiPtr (OSTCBTbl s3 t) = OSTCBEventMultiPtr ?p"
    by (simp add: s3_def r3 s1_def)
  have s': "s' = (case OSTCBEventMultiPtr ?p of None \<Rightarrow> s3
      | Some es \<Rightarrow> upd_tcb t (\<lambda>p. p\<lparr>OSTCBEventMultiPtr := None, OSTCBEventMultiRdy := Some e\<rparr>)
              (OS_EventTaskRemoveMulti t es s3))"
    unfolding s'_def EventTaskRdy_unfold m [symmetric] s3_def s2_def s1_def
    by (simp add: Let_def top(3) ptr)
  note rm = EventTaskRemoveMulti_effect [OF xy3 okw3]
  show "OSTCBTbl s' = (OSTCBTbl s)(t := readied_tcb e pmsg msk ps ?p)"
    using rm by (auto simp: s' s3_def r3 s1_def readied_tcb_def Let_def split: option.splits)
  show "rdy s' = (if suspended ?p then rdy s else bm_ins ?n (rdy s))"
    using rm by (auto simp: s' s3_def r3 r2 split: option.splits)
  show "bm_ok (wl s' d)"
    using rm okw3 by (auto simp: s' split: option.splits)
  show "bm_mem (wl s' d) = (if d = e \<or> d \<in> multi_events ?p
           then bm_mem (wl s d) - {?n} else bm_mem (wl s d))"
    using rm okw n64 pn3
    by (auto simp: s' multi_events_def s3_def r3 bm_mem_del split: option.splits if_splits)
  show "only_lists s s'"
    using rm o3 by (auto simp: s' split: option.splits
        intro: only_lists_trans [OF _ only_lists_prims(2)] only_lists_trans [OF o3])
qed

lemma waits_on_awaited:
  assumes "kernel_inv s" and "task_at s n t"
  shows "waits_on s n = awaited (OSTCBTbl s t)"
    and "e \<in> waits_on s n \<Longrightarrow> event_type s e \<noteq> OS_EVENT_TYPE_UNUSED"
  using kernel_invD(6) [OF assms] by (auto simp: task_ok_def)

text \<open>
  After the call the task is in no wait list: it pended on this event, or on several and is taken
  off all of them.
\<close>

lemma EventTaskRdy_waits:
  assumes inv: "kernel_inv s" and ne: "bm_mem (wl s e) \<noteq> {}" and m3: "\<not> bit msk 3"
    and at: "task_at s (Min (bm_mem (wl s e))) t"
  shows "waits_on (fst (OS_EventTaskRdy e pmsg msk ps s)) (Min (bm_mem (wl s e))) = {}"
proof -
  let ?n = "Min (bm_mem (wl s e))" and ?s = "fst (OS_EventTaskRdy e pmsg msk ps s)"
  note eff = EventTaskRdy_effect [OF inv ne at m3, of pmsg ps]
  have "e \<in> waits_on s ?n" using top_waiter(2) [OF inv ne] by (simp add: waits_on_def)
  then have "d = e \<or> d \<in> multi_events (OSTCBTbl s t)" if "d \<in> waits_on s ?n" for d
    using waits_on_awaited(1) [OF inv at] that
    by (cases "OSTCBEventPtr (OSTCBTbl s t)") (auto simp: awaited_def multi_events_def split: option.splits)
  moreover have "waits_on ?s ?n \<subseteq> waits_on s ?n" by (auto simp: waits_on_def eff(5) split: if_splits)
  ultimately show ?thesis by (auto simp: waits_on_def eff(5) split: if_splits)
qed

text \<open>Readying a waiter with the mask of its event's type keeps the invariant.\<close>

lemma readied_task_ok:
  assumes ok: "task_ok R W ty p" and e: "e \<in> W" and m: "msk = type_stat (ty e)"
  shows "task_ok (\<not> suspended p) {} ty (readied_tcb e pmsg msk ps p)"
proof -
  let ?q = "readied_tcb e pmsg msk ps p"
  have st: "OSTCBStat ?q = OSTCBStat p AND NOT msk" and d: "OSTCBDly ?q = 0"
    and ev: "OSTCBEventPtr ?q = None"
    by (simp_all add: readied_tcb_def Let_def split: option.splits)
  have b: "\<not> bit msk 3" "\<not> bit msk 7" by (simp_all add: m)
  have sus: "suspended ?q \<longleftrightarrow> suspended p" and mul: "multi ?q \<longleftrightarrow> multi p"
    by (simp_all add: stat_iffs st and_not_mask_bit b)
  have "\<not> multi p \<Longrightarrow> \<not> pending ?q"
    using ok e m by (intro masked_not_pending [OF _ st]) (auto simp: task_ok_def)
  moreover have "awaited ?q = {}" and "OSTCBEventMultiPtr ?q = None"
    by (simp_all add: awaited_def readied_tcb_def Let_def split: option.splits)
  ultimately show ?thesis using d ev unfolding task_ok_def sus mul by auto
qed

lemma EventTaskRdy_touches:
  assumes inv: "kernel_inv s" and ne: "bm_mem (wl s e) \<noteq> {}" and m3: "\<not> bit msk 3"
    and at: "task_at s (Min (bm_mem (wl s e))) t"
  shows "touches (Min (bm_mem (wl s e))) t s (fst (OS_EventTaskRdy e pmsg msk ps s))"
proof -
  note eff = EventTaskRdy_effect [OF inv ne at m3, of pmsg ps]
  have n64: "Min (bm_mem (wl s e)) < 64" using at by (simp add: task_at_def)
  have okr: "bm_ok (rdy s)" using kernel_invD(1) [OF inv] .
  have "tcb_coords (readied_tcb e pmsg msk ps (OSTCBTbl s t)) = tcb_coords (OSTCBTbl s t)"
    by (simp add: tcb_coords_def readied_tcb_def Let_def split: option.splits)
  then show ?thesis
    using okr n64 only_lists_kernel [OF eff(6)]
    by (simp add: touches_def eff(2-5) bm_ok_ins bm_mem_ins)
qed

lemma EventTaskRdy_inv [inv_intro]:
  assumes inv: "kernel_inv s" and ne: "bm_mem (wl s e) \<noteq> {}" and m: "msk = type_stat (event_type s e)"
  shows "kernel_inv (fst (OS_EventTaskRdy e pmsg msk ps s))"
proof -
  let ?n = "Min (bm_mem (wl s e))" and ?s = "fst (OS_EventTaskRdy e pmsg msk ps s)"
  have m3: "\<not> bit msk 3" by (simp add: m)
  obtain t where at: "task_at s ?n t" using top_waiter(1) [OF inv ne] by blast
  note eff = EventTaskRdy_effect [OF inv ne at m3, of pmsg ps]
  have n64: "?n < 64" using at by (simp add: task_at_def)
  have okr: "bm_ok (rdy s)" using kernel_invD(1) [OF inv] .
  have ok: "task_ok (?n \<in> bm_mem (rdy s)) (waits_on s ?n) (event_type s) (OSTCBTbl s t)"
    using kernel_invD(6) [OF inv at] .
  have "e \<in> waits_on s ?n" using top_waiter(2) [OF inv ne] by (simp add: waits_on_def)
  note rok = readied_task_ok [OF ok this m, of pmsg ps]
  have mr: "?n \<in> bm_mem (rdy ?s) \<longleftrightarrow> \<not> suspended (OSTCBTbl s t)"
    using ok okr n64 by (auto simp: eff(3) bm_mem_ins task_ok_def)
  have ty: "event_type ?s = event_type s" using only_lists_event(1) [OF eff(6)] by (intro ext) simp
  have tcb: "OSTCBTbl ?s t = readied_tcb e pmsg msk ps (OSTCBTbl s t)" by (simp add: eff(2))
  show ?thesis
  proof (rule kernel_inv_touches [OF inv at EventTaskRdy_touches [OF inv ne m3 at]])
    show "task_ok (?n \<in> bm_mem (rdy ?s)) (waits_on ?s ?n) (event_type ?s) (OSTCBTbl ?s t)"
      using rok by (simp add: mr EventTaskRdy_waits [OF inv ne m3 at] ty tcb)
    show "63 \<in> bm_mem (rdy ?s)" if "?n = 63"
      using kernel_invD(7) [OF inv] ok that by (auto simp: mr [unfolded that] task_ok_def)
  qed
qed

section \<open>Readying every waiter\<close>

text \<open>
  The drain loop returns, empties the wait list, and keeps the invariant; it counts the waiters.
\<close>

lemma EventTaskRdy_shrinks:
  assumes inv: "kernel_inv s" and ne: "bm_mem (wl s e) \<noteq> {}" and m3: "\<not> bit msk 3"
  shows "bm_mem (wl (fst (OS_EventTaskRdy e pmsg msk ps s)) e) = bm_mem (wl s e) - {Min (bm_mem (wl s e))}"
proof -
  obtain t where "task_at s (Min (bm_mem (wl s e))) t" using top_waiter(1) [OF inv ne] by blast
  from EventTaskRdy_effect(5) [OF inv ne this m3, of pmsg ps e] show ?thesis by simp
qed

lemma EventTaskRdy_only_lists:
  assumes inv: "kernel_inv s" and ne: "bm_mem (wl s e) \<noteq> {}" and m3: "\<not> bit msk 3"
  shows "only_lists s (fst (OS_EventTaskRdy e pmsg msk ps s))"
proof -
  obtain t where "task_at s (Min (bm_mem (wl s e))) t" using top_waiter(1) [OF inv ne] by blast
  from EventTaskRdy_effect(6) [OF inv ne this m3] show ?thesis .
qed

lemma grp_nonzero_iff: "kernel_inv s \<Longrightarrow> OSEventGrp (OSEvents s e) \<noteq> 0 \<longleftrightarrow> bm_mem (wl s e) \<noteq> {}"
  using bm_none_iff [OF kernel_invD(2), of s e] by (simp add: event_grp_wl)

lemma EventTaskRdyAll_total:
  assumes inv: "kernel_inv s" and m: "msk = type_stat (event_type s e)" and Q: "Q s"
    and Q_step: "\<And>u. kernel_inv u \<Longrightarrow> only_lists s u \<Longrightarrow> bm_mem (wl u e) \<noteq> {} \<Longrightarrow> Q u \<Longrightarrow>
      Q (fst (OS_EventTaskRdy e pmsg msk ps u))"
  shows "\<exists>s'. OS_EventTaskRdyAll e pmsg msk ps (s, k) = Some (s', k + of_nat (card (bm_mem (wl s e)))) \<and>
    kernel_inv s' \<and> bm_mem (wl s' e) = {} \<and> only_lists s s' \<and> Q s'"
proof -
  let ?P = "\<lambda>(s', k'). kernel_inv s' \<and> only_lists s s' \<and> Q s' \<and> bm_mem (wl s' e) \<subseteq> bm_mem (wl s e) \<and>
      k' + of_nat (card (bm_mem (wl s' e))) = k + of_nat (card (bm_mem (wl s e)))"
  have m3: "\<not> bit msk 3" by (simp add: m)
  have step: "?P (fst (OS_EventTaskRdy e pmsg msk ps u), j + 1) \<and>
      card (bm_mem (wl (fst (OS_EventTaskRdy e pmsg msk ps u)) e)) < card (bm_mem (wl u e))"
    if P: "?P (u, j)" and g: "OSEventGrp (OSEvents u e) \<noteq> 0" for u j
  proof -
    have iu: "kernel_inv u" and ou: "only_lists s u" and qu: "Q u" using P by auto
    have ne: "bm_mem (wl u e) \<noteq> {}" using g grp_nonzero_iff [OF iu] by blast
    have mu: "msk = type_stat (event_type u e)" using m only_lists_event(1) [OF ou] by simp
    note sh = EventTaskRdy_shrinks [OF iu ne m3, of pmsg ps]
    have c: "card (bm_mem (wl u e)) = Suc (card (bm_mem (wl u e) - {Min (bm_mem (wl u e))}))"
      using ne by (intro card.remove) (simp_all add: Min_in)
    then have "j + 1 + of_nat (card (bm_mem (wl u e) - {Min (bm_mem (wl u e))})) =
        j + of_nat (card (bm_mem (wl u e)))" by simp
    with P show ?thesis
      using EventTaskRdy_inv [OF iu ne mu] Q_step [OF iu ou ne qu] sh c
        only_lists_trans [OF ou EventTaskRdy_only_lists [OF iu ne m3]] by auto
  qed
  have "\<exists>r. OS_EventTaskRdyAll e pmsg msk ps (s, k) = Some r \<and> ?P r \<and>
      \<not> (\<lambda>(s, n). OSEventGrp (OSEvents s e) \<noteq> 0) r"
    unfolding OS_EventTaskRdyAll_def
  proof (rule while_option_total [where m = "\<lambda>(s, n). card (bm_mem (wl s e))"])
    show "?P (s, k)" using inv Q by simp
    fix r assume "?P r" and "(\<lambda>(s, n). OSEventGrp (OSEvents s e) \<noteq> 0) r"
    then show "?P ((\<lambda>(s, n). (fst (OS_EventTaskRdy e pmsg msk ps s), n + 1)) r) \<and>
        (\<lambda>(s, n). card (bm_mem (wl s e))) ((\<lambda>(s, n). (fst (OS_EventTaskRdy e pmsg msk ps s), n + 1)) r)
        < (\<lambda>(s, n). card (bm_mem (wl s e))) r"
      using step by (cases r) auto
  qed
  then obtain s' k' where r: "OS_EventTaskRdyAll e pmsg msk ps (s, k) = Some (s', k')"
    and P: "?P (s', k')" and g: "\<not> OSEventGrp (OSEvents s' e) \<noteq> 0" by auto
  then have "bm_mem (wl s' e) = {}" using grp_nonzero_iff [of s' e] by auto
  with r P show ?thesis by auto
qed

end
