(* ===== verification/UCOS_Wait.thy ===== *)
theory UCOS_Wait
  imports UCOS_Prim
begin

text \<open>
  The system invariant: the kernel invariant together with the running task and the calls that
  blocked tasks have to finish.  What the scheduler, a blocking pend, a wake-up and a readied
  waiter do to it, and the contract \<open>wait_service\<close> of a service with a wait list.
\<close>

section \<open>Blocked calls\<close>

text \<open>
  A task that blocked has the rest of its pend to run when it is scheduled again.
\<close>

datatype cont = PendSem nat | PendMbox nat | PendQ nat | PendMulti "nat list"

fun cont_events :: "cont \<Rightarrow> nat set" where
  "cont_events (PendSem e) = {e}"
| "cont_events (PendMbox e) = {e}"
| "cont_events (PendQ e) = {e}"
| "cont_events (PendMulti es) = set es"

fun is_multi :: "cont \<Rightarrow> bool" where
  "is_multi (PendMulti es) \<longleftrightarrow> True"
| "is_multi _ \<longleftrightarrow> False"

text \<open>
  A task with nothing to finish is in no wait list; one with a pend to finish is only in the wait
  lists of that pend, and has the multi bit when the pend is on several events.
\<close>

definition cont_ok :: "cont option \<Rightarrow> nat set \<Rightarrow> os_tcb \<Rightarrow> bool" where
  "cont_ok c W p \<longleftrightarrow> OSTCBFlagNode p = None \<and>
     (case c of
        None \<Rightarrow> W = {} \<and> OSTCBEventPtr p = None \<and> OSTCBEventMultiPtr p = None \<and> (multi p \<or> \<not> pending p)
      | Some c \<Rightarrow> W \<subseteq> cont_events c \<and>
          (if is_multi c then OSTCBEventPtr p = None \<and> multi p else OSTCBEventMultiPtr p = None))"

lemma cont_ok_cong: "tcb_sync p = tcb_sync q \<Longrightarrow> cont_ok c W p = cont_ok c W q"
  by (cases c) (simp_all add: tcb_sync_def cont_ok_def multi_def pending_def)

type_synonym conts = "nat \<Rightarrow> cont option"

definition conts_ok :: "conts \<Rightarrow> os \<Rightarrow> bool" where
  "conts_ok k s \<longleftrightarrow> (\<forall>n t. task_at s n t \<longrightarrow> cont_ok (k t) (waits_on s n) (OSTCBTbl s t))"

section \<open>The system invariant\<close>

text \<open>
  The current task is the task of the current priority; the free event control blocks are unused;
  and a task that holds the scheduler lock has nothing to finish.
\<close>

definition cur_ok :: "os \<Rightarrow> bool" where
  "cur_ok s \<longleftrightarrow> task_at s (unat (OSPrioCur s)) (cur s) \<and> OSTCBCur s = TCB (cur s)"

definition free_events_ok :: "os \<Rightarrow> bool" where
  "free_events_ok s \<longleftrightarrow>
     (\<exists>es. event_pool.holds s es \<and> (\<forall>e\<in>set es. event_type s e = OS_EVENT_TYPE_UNUSED))"

definition pre_inv :: "conts \<Rightarrow> os \<Rightarrow> bool" where
  "pre_inv k s \<longleftrightarrow> kernel_inv s \<and> conts_ok k s \<and> cur_ok s \<and> free_events_ok s \<and>
     OSRunning s \<and> (\<exists>ts. task_list s ts) \<and> (OSLockNesting s \<noteq> 0 \<longrightarrow> k (cur s) = None)"

text \<open>
  The scheduling invariant: outside interrupts and with the scheduler unlocked, the running task is
  the ready task of highest priority.
\<close>

definition top_runs :: "os \<Rightarrow> bool" where
  "top_runs s \<longleftrightarrow> (OSIntNesting s = 0 \<and> OSLockNesting s = 0 \<longrightarrow>
     unat (OSPrioCur s) = Min (bm_mem (rdy s)))"

definition sys_inv :: "conts \<Rightarrow> os \<Rightarrow> bool" where
  "sys_inv k s \<longleftrightarrow> pre_inv k s \<and> top_runs s"

lemma pre_invD:
  assumes "pre_inv k s"
  shows "kernel_inv s" and "conts_ok k s" and "cur_ok s" and "free_events_ok s"
    and "OSLockNesting s \<noteq> 0 \<Longrightarrow> k (cur s) = None"
    and "task_at s (unat (OSPrioCur s)) (cur s)" and "OSTCBCur s = TCB (cur s)"
    and "task_at s n t \<Longrightarrow> cont_ok (k t) (waits_on s n) (OSTCBTbl s t)"
    and "OSRunning s" and "\<exists>ts. task_list s ts"
  using assms unfolding pre_inv_def cur_ok_def conts_ok_def by blast+

lemma sys_invD:
  assumes "sys_inv k s"
  shows "pre_inv k s" and "top_runs s"
  using assms by (simp_all add: sys_inv_def)

lemma free_events_cong:
  assumes "free_events_ok s" and "same_kernel s s'"
  shows "free_events_ok s'"
proof -
  note k = same_kernelD [OF assms(2)]
  obtain es where h: "event_pool.holds s es"
    and u: "\<forall>e\<in>set es. event_type s e = OS_EVENT_TYPE_UNUSED"
    using assms(1) by (auto simp: free_events_ok_def)
  have "path (event_next s') (OSEventFreeList s) es"
    using h u by (auto intro!: path_cong [of es "event_next s'" "event_next s"]
        simp: event_pool.holds_def event_next_def k(6))
  then have "event_pool.holds s' es" by (simp add: event_pool.holds_def k(5))
  moreover have "event_type s' e = event_type s e" for e using k(2) by (simp add: fun_eq_iff)
  ultimately show ?thesis using u by (auto simp: free_events_ok_def)
qed

text \<open>The invariants under an operation on one task, and under one that changes nothing.\<close>

lemma pre_inv_touches:
  assumes inv: "pre_inv k s" and at: "task_at s n t" and tch: "touches n t s s'"
    and task: "task_ok (n \<in> bm_mem (rdy s')) (waits_on s' n) (event_type s') (OSTCBTbl s' t)"
    and cont: "cont_ok (k' t) (waits_on s' n) (OSTCBTbl s' t)"
    and others: "\<And>u. u \<noteq> t \<Longrightarrow> k' u = k u"
    and lock: "OSLockNesting s \<noteq> 0 \<Longrightarrow> k' (cur s) = None"
    and idle: "n = 63 \<Longrightarrow> 63 \<in> bm_mem (rdy s')"
  shows "pre_inv k' s'"
proof -
  note i = pre_invD [OF inv] and d = touchesD [OF tch]
  note sk = same_kernelD [OF d(1)]
  have run: "OSTCBCur s' = OSTCBCur s" "OSPrioCur s' = OSPrioCur s"
    using d(2) by (simp_all add: same_run_def)
  have "cont_ok (k' u) (waits_on s' m) (OSTCBTbl s' u)" if u: "task_at s' m u" for m u
  proof (cases "m = n")
    case True
    with u at have "u = t" by (auto simp: d(9) dest: task_at_unique)
    with True cont show ?thesis by simp
  next
    case False
    have su: "task_at s m u" using u by (simp add: d(9))
    with at False have ut: "u \<noteq> t" by (auto simp: task_at_def)
    then have "tcb_sync (OSTCBTbl s' u) = tcb_sync (OSTCBTbl s u)"
      using d(3) by (simp add: same_task_def)
    from cont_ok_cong [OF this] show ?thesis
      using i(8) [OF su] False by (simp add: d(8) others [OF ut])
  qed
  then have "conts_ok k' s'" by (simp add: conts_ok_def)
  moreover have "kernel_inv s'" using kernel_inv_touches [OF i(1) at tch task idle] .
  moreover have "cur_ok s'" using i(3) by (simp add: cur_ok_def run d(9))
  moreover have "\<exists>ts. task_list s' ts"
    using i(10) task_list_cong [OF _ sk(1) sk(7) sk(9) d(4)] by blast
  ultimately show ?thesis
    using free_events_cong [OF i(4) d(1)] lock i(9) by (simp add: pre_inv_def run sk)
qed

lemma quiet_pre_inv:
  assumes inv: "pre_inv k s" and q: "quiet s s'"
  shows "pre_inv k s'"
proof -
  note i = pre_invD [OF inv] and d = quietD [OF q]
  note sk = same_kernelD [OF d(1)]
  have run: "OSTCBCur s' = OSTCBCur s" "OSPrioCur s' = OSPrioCur s"
    using d(2) by (simp_all add: same_run_def)
  have "cont_ok c W (OSTCBTbl s' u) = cont_ok c W (OSTCBTbl s u)" for c W u
    using d(3) [of u] by (intro cont_ok_cong) (simp add: same_task_def)
  then have "conts_ok k s'" using i(2) by (simp add: conts_ok_def d(6,7))
  moreover have "\<exists>ts. task_list s' ts"
    using i(10) d(3) task_list_cong [OF _ sk(1) sk(7) sk(9)] by (fastforce simp: same_task_def)
  ultimately show ?thesis
    using kernel_inv_quiet [OF i(1) q] free_events_cong [OF i(4) d(1)] i(3,5,9)
    by (simp add: pre_inv_def cur_ok_def run d(7) sk)
qed

lemma quiet_sys_inv:
  assumes "sys_inv k s" and q: "quiet s s'"
  shows "sys_inv k s'"
  using quiet_pre_inv [OF sys_invD(1) [OF assms(1)] q] sys_invD(2) [OF assms(1)]
    quietD(2,4) [OF q] same_kernelD [OF quietD(1) [OF q]]
  by (simp add: sys_inv_def top_runs_def same_run_def)

text \<open>Changing the two nesting counters, the tick counter, the time and the stepping state.\<close>

lemma pre_inv_counters:
  assumes inv: "pre_inv k s" and same: "rdy s' = rdy s" "OSEvents s' = OSEvents s" "OSTCBTbl s' = OSTCBTbl s"
    "OSTCBPrioTbl s' = OSTCBPrioTbl s" "OSTCBList s' = OSTCBList s" "OSTCBCur s' = OSTCBCur s"
    "OSPrioCur s' = OSPrioCur s" "OSEventFreeList s' = OSEventFreeList s" "OSRunning s' = OSRunning s"
    "OSTCBFreeList s' = OSTCBFreeList s"
    and lock: "OSLockNesting s' \<noteq> 0 \<Longrightarrow> k (cur s) = None"
  shows "pre_inv k s'"
proof -
  note i = pre_invD [OF inv]
  have w: "wl s' = wl s" by (intro ext) (simp add: wl_def same)
  have at: "task_at s' = task_at s" by (intro ext) (simp add: task_at_def same)
  have wo: "waits_on s' = waits_on s" by (intro ext) (simp add: waits_on_def w)
  have "kernel_inv s'" using i(1) by (simp add: kernel_inv_def at wo w same)
  moreover have "conts_ok k s'" using i(2) by (simp add: conts_ok_def at wo same)
  moreover have "event_next s' = event_next s" by (intro ext) (simp add: event_next_def same)
  then have "free_events_ok s'"
    using i(4) by (simp add: free_events_ok_def event_pool.holds_def same)
  moreover have "\<exists>ts. task_list s' ts"
    using i(10) task_list_cong [OF _ same(4,5,10)] by (auto simp: same)
  ultimately show ?thesis using i(3,9) lock by (simp add: pre_inv_def cur_ok_def at same)
qed

text \<open>Changing the fields of a live event that hold its value.\<close>

lemma quiet_upd_event:
  assumes "event_type s e \<noteq> OS_EVENT_TYPE_UNUSED" and "\<And>v. OSEventType (f v) = OSEventType v"
    and "\<And>v. OSEventGrp (f v) = OSEventGrp v" and "\<And>v. OSEventTbl (f v) = OSEventTbl v"
  shows "quiet s (upd_event e f s)"
  using assms by (auto simp: quiet_def same_kernel_def same_run_def wl_def rdy_def upd_event_def)

section \<open>The scheduler\<close>

lemmas switch_defs = OS_SwitchHighRdy_def Let_def OS_SchedNew_def OS_TASK_SW_def upd_tcb_def

lemma Switch_run:
  "OSPrioCur (OS_SwitchHighRdy s) = bm_top (rdy s)"
  "OSTCBCur (OS_SwitchHighRdy s) =
     (if bm_top (rdy s) = OSPrioCur s then OSTCBCur s else OSTCBPrioTbl s (unat (bm_top (rdy s))))"
  by (simp_all add: switch_defs bm_top_def rdy_def)

lemma Switch_frame:
  "OSEvents (OS_SwitchHighRdy s) = OSEvents s" "rdy (OS_SwitchHighRdy s) = rdy s"
  "wl (OS_SwitchHighRdy s) e = wl s e" "OSTCBPrioTbl (OS_SwitchHighRdy s) = OSTCBPrioTbl s"
  "OSQTbl (OS_SwitchHighRdy s) = OSQTbl s" "OSQCell (OS_SwitchHighRdy s) = OSQCell s"
  "OSQFreeList (OS_SwitchHighRdy s) = OSQFreeList s" "same_kernel s (OS_SwitchHighRdy s)"
  "same_task (OSTCBTbl (OS_SwitchHighRdy s) u) (OSTCBTbl s u)"
  by (simp_all add: switch_defs rdy_def wl_def same_kernel_def same_task_def tcb_coords_def tcb_sync_def)

lemma Sched_frame [simp]:
  "OSEvents (OS_Sched s) = OSEvents s" "rdy (OS_Sched s) = rdy s" "wl (OS_Sched s) e = wl s e"
  "OSTCBPrioTbl (OS_Sched s) = OSTCBPrioTbl s" "OSQTbl (OS_Sched s) = OSQTbl s"
  "OSQCell (OS_Sched s) = OSQCell s" "OSQFreeList (OS_Sched s) = OSQFreeList s"
  "same_kernel s (OS_Sched s)" "same_task (OSTCBTbl (OS_Sched s) u) (OSTCBTbl s u)"
  by (simp_all add: OS_Sched_def Switch_frame)

lemma Switch_pre_inv:
  assumes inv: "pre_inv k s" and lock: "OSLockNesting s = 0"
  shows "pre_inv k (OS_SwitchHighRdy s)"
    and "unat (OSPrioCur (OS_SwitchHighRdy s)) = Min (bm_mem (rdy s))"
proof -
  let ?s = "OS_SwitchHighRdy s"
  note i = pre_invD [OF inv]
  have ne: "bm_mem (rdy s) \<noteq> {}" using kernel_invD(7) [OF i(1)] by blast
  have top: "unat (bm_top (rdy s)) = Min (bm_mem (rdy s))"
    using bm.top_eq_Min [OF kernel_invD(1) [OF i(1)] ne] .
  then have "unat (bm_top (rdy s)) \<in> bm_mem (rdy s)" using ne by (simp add: Min_in)
  then obtain t where t: "task_at s (unat (bm_top (rdy s))) t"
    using kernel_invD(4) [OF i(1)] by blast
  show "unat (OSPrioCur ?s) = Min (bm_mem (rdy s))" by (simp add: Switch_run top)
  have at: "task_at ?s = task_at s"
    by (intro ext) (simp add: task_at_def Switch_frame(4) same_task_prio [OF Switch_frame(9)])
  have "cur_ok ?s"
    using t i(6,7) by (auto simp: cur_ok_def Switch_run at task_at_def)
  moreover have "kernel_inv ?s"
    by (rule kernel_inv_cong [OF i(1)]) (simp_all add: Switch_frame)
  moreover have "conts_ok k ?s"
  proof -
    have "cont_ok c W (OSTCBTbl ?s u) = cont_ok c W (OSTCBTbl s u)" for c W u
      using Switch_frame(9) [of s u] by (intro cont_ok_cong) (simp add: same_task_def)
    then show ?thesis
      using i(2) by (simp add: conts_ok_def at) (simp add: waits_on_def Switch_frame(3))
  qed
  moreover have "\<exists>ts. task_list ?s ts"
    using i(10) Switch_frame(9) task_list_cong [OF _ Switch_frame(4) same_kernelD(7,9) [OF Switch_frame(8)]]
    by (fastforce simp: same_task_def)
  ultimately show "pre_inv k ?s"
    using free_events_cong [OF i(4) Switch_frame(8)] lock i(9) same_kernelD [OF Switch_frame(8)]
    by (simp add: pre_inv_def)
qed

text \<open>\<open>OS_Sched\<close> turns the invariant of a state it may be called in into the system invariant.\<close>

lemma Sched_sys_inv:
  assumes inv: "pre_inv k s"
  shows "sys_inv k (OS_Sched s)"
proof (cases "OSIntNesting s = 0 \<and> OSLockNesting s = 0")
  case True
  then have "OS_Sched s = OS_SwitchHighRdy s" by (simp add: OS_Sched_def)
  then show ?thesis
    using Switch_pre_inv [OF inv] True by (simp add: sys_inv_def top_runs_def Switch_frame(2))
next
  case False
  then have "OS_Sched s = s" by (auto simp: OS_Sched_def)
  then show ?thesis using inv False by (auto simp: sys_inv_def top_runs_def)
qed

section \<open>Readying a waiter\<close>

lemma EventTaskRdy_pre_inv:
  assumes inv: "pre_inv k s" and ne: "bm_mem (wl s e) \<noteq> {}" and m: "msk = type_stat (event_type s e)"
  shows "pre_inv k (fst (OS_EventTaskRdy e pmsg msk ps s))"
proof -
  let ?n = "Min (bm_mem (wl s e))" and ?s = "fst (OS_EventTaskRdy e pmsg msk ps s)"
  note i = pre_invD [OF inv]
  have m3: "\<not> bit msk 3" and m7: "\<not> bit msk 7" by (simp_all add: m)
  obtain t where at: "task_at s ?n t" using top_waiter(1) [OF i(1) ne] by blast
  note eff = EventTaskRdy_effect [OF i(1) ne at m3, of pmsg ps]
  note tch = EventTaskRdy_touches [OF i(1) ne m3 at, of pmsg ps]
  have inv': "kernel_inv ?s" using EventTaskRdy_inv [OF i(1) ne m] .
  have w: "waits_on ?s ?n = {}" using EventTaskRdy_waits [OF i(1) ne m3 at] .
  have "e \<in> waits_on s ?n" using top_waiter(2) [OF i(1) ne] by (simp add: waits_on_def)
  then obtain c where c: "k t = Some c" using i(8) [OF at] by (auto simp: cont_ok_def split: option.splits)
  have "cont_ok (k t) {} (readied_tcb e pmsg msk ps (OSTCBTbl s t))"
    using i(8) [OF at]
    by (auto simp: c cont_ok_def readied_tcb_def Let_def multi_iff and_not_mask_bit m7 split: option.splits)
  then have "cont_ok (k t) (waits_on ?s ?n) (OSTCBTbl ?s t)" by (simp add: w eff(2))
  moreover have "task_at ?s ?n t" using at touchesD(9) [OF tch] by simp
  ultimately show ?thesis
    using kernel_invD(6,7) [OF inv'] i(5) by (intro pre_inv_touches [OF inv at tch]) simp_all
qed

lemma EventTaskRdyAll_pre_inv:
  assumes inv: "pre_inv k s" and m: "msk = type_stat (event_type s e)"
  shows "\<exists>s'. OS_EventTaskRdyAll e pmsg msk ps (s, j) = Some (s', j + of_nat (card (bm_mem (wl s e)))) \<and>
    pre_inv k s' \<and> bm_mem (wl s' e) = {} \<and> only_lists s s'"
proof -
  have "\<exists>s'. OS_EventTaskRdyAll e pmsg msk ps (s, j) = Some (s', j + of_nat (card (bm_mem (wl s e)))) \<and>
    kernel_inv s' \<and> bm_mem (wl s' e) = {} \<and> only_lists s s' \<and> pre_inv k s'"
  proof (rule EventTaskRdyAll_total [OF pre_invD(1) [OF inv] m, where Q = "pre_inv k"])
    show "pre_inv k s" by (rule inv)
    fix u assume "kernel_inv u" "only_lists s u" "bm_mem (wl u e) \<noteq> {}" "pre_inv k u"
    then show "pre_inv k (fst (OS_EventTaskRdy e pmsg msk ps u))"
      using m only_lists_event(1) [of s u e] by (intro EventTaskRdy_pre_inv) simp_all
  qed
  then show ?thesis by blast
qed

text \<open>A post to an event with waiters, seen from the waiter that gets it.\<close>

lemma Sched_tcb [simp]:
  "OSTCBMsg (OSTCBTbl (OS_Sched s) u) = OSTCBMsg (OSTCBTbl s u)"
  "OSTCBStatPend (OSTCBTbl (OS_Sched s) u) = OSTCBStatPend (OSTCBTbl s u)"
  "OSTCBDly (OSTCBTbl (OS_Sched s) u) = OSTCBDly (OSTCBTbl s u)"
  by (simp_all add: OS_Sched_def switch_defs)

lemma hand_over:
  fixes s e pmsg msk ps
  defines "u \<equiv> fst (OS_EventTaskRdy e pmsg msk ps s)"
  assumes inv: "kernel_inv s" and ne: "bm_mem (wl s e) \<noteq> {}"
    and at: "task_at s (Min (bm_mem (wl s e))) t" and m3: "\<not> bit msk 3"
  shows "OSTCBMsg (OSTCBTbl u t) = pmsg" and "OSTCBStatPend (OSTCBTbl u t) = ps"
    and "OSTCBDly (OSTCBTbl u t) = 0"
    and "bm_mem (wl u e) = bm_mem (wl s e) - {Min (bm_mem (wl s e))}"
    and "\<not> suspended (OSTCBTbl s t) \<Longrightarrow> bm_mem (rdy u) = insert (Min (bm_mem (wl s e))) (bm_mem (rdy s))"
    and "OSIntNesting (OS_Sched u) = OSIntNesting s" and "OSLockNesting (OS_Sched u) = OSLockNesting s"
proof -
  note eff = EventTaskRdy_effect [OF inv ne at m3, of pmsg ps]
  have tcb: "OSTCBTbl u t = readied_tcb e pmsg msk ps (OSTCBTbl s t)" by (simp add: u_def eff(2))
  show "OSTCBMsg (OSTCBTbl u t) = pmsg" "OSTCBStatPend (OSTCBTbl u t) = ps" "OSTCBDly (OSTCBTbl u t) = 0"
    unfolding tcb by (simp_all add: readied_tcb_def Let_def split: option.split)
  show "bm_mem (wl u e) = bm_mem (wl s e) - {Min (bm_mem (wl s e))}"
    by (simp add: u_def eff(5))
  have "Min (bm_mem (wl s e)) < 64" using at by (simp add: task_at_def)
  then show "bm_mem (rdy u) = insert (Min (bm_mem (wl s e))) (bm_mem (rdy s))" if "\<not> suspended (OSTCBTbl s t)"
    using that kernel_invD(1) [OF inv] by (simp add: u_def eff(3) bm_mem_ins)
  show "OSIntNesting (OS_Sched u) = OSIntNesting s" "OSLockNesting (OS_Sched u) = OSLockNesting s"
    using same_kernelD [OF Sched_frame(8)] only_lists_global [OF eff(6)] by (simp_all add: u_def)
qed

section \<open>Blocking\<close>

text \<open>
  The current task, with nothing to finish, marks itself and joins the wait list of \<open>e\<close>.
\<close>

lemma stat_or_bits:
  "suspended (p\<lparr>OSTCBStat := OSTCBStat p OR type_stat ty\<rparr>) = suspended p"
  "multi (p\<lparr>OSTCBStat := OSTCBStat p OR type_stat ty\<rparr>) = multi p"
  by (simp_all add: stat_iffs bit_or_iff)

lemma pending_or: "type_stat ty \<noteq> 0 \<Longrightarrow> OSTCBStat q = OSTCBStat p OR type_stat ty \<Longrightarrow> pending q"
  by (auto simp: pending_iff bit_or_iff type_stat_def split: if_splits)

lemma type_stat_any: "type_stat ty AND OS_STAT_PEND_ANY AND NOT (type_stat ty) = 0"
  by (auto simp: stat_bits)

lemma not_pending_or:
  "\<not> pending p \<Longrightarrow> (OSTCBStat p OR type_stat ty) AND OS_STAT_PEND_ANY AND NOT (type_stat ty) = 0"
  by (auto simp: pending_iff stat_bits)

lemma PendBlock_effect:
  fixes s e stat timeout
  defines "s' \<equiv> OS_PendBlock stat timeout e s"
  assumes xy: "xy_ok (OSTCBTbl s (cur s))"
  shows "rdy s' = bm_del (prio_of (OSTCBTbl s (cur s))) (rdy s)"
    and "wl s' d = (if d = e then bm_ins (prio_of (OSTCBTbl s (cur s))) (wl s e) else wl s d)"
    and "OSTCBTbl s' = (OSTCBTbl s)(cur s := (OSTCBTbl s (cur s))\<lparr>OSTCBStat := OSTCBStat (OSTCBTbl s (cur s)) OR stat,
           OSTCBStatPend := OS_STAT_PEND_OK, OSTCBDly := timeout, OSTCBEventPtr := Some e\<rparr>)"
    and "only_lists s s'"
proof -
  let ?t = "cur s"
  define s1 where "s1 = upd_tcb ?t (\<lambda>p. p\<lparr>OSTCBStat := OSTCBStat p OR stat,
    OSTCBStatPend := OS_STAT_PEND_OK, OSTCBDly := timeout, OSTCBEventPtr := Some e\<rparr>) s"
  have c1: "OSTCBCur s1 = OSTCBCur s" by (simp add: s1_def upd_tcb_def)
  have xy1: "xy_ok (OSTCBTbl s1 ?t)" and p1: "prio_of (OSTCBTbl s1 ?t) = prio_of (OSTCBTbl s ?t)"
    using xy by (simp_all add: s1_def xy_ok_def)
  define s2 where "s2 = OS_WaitListInsert ?t e s1"
  note e2 = WaitListInsert_effect [OF xy1, of e, folded s2_def]
  have xy2: "xy_ok (OSTCBTbl s2 ?t)" using xy1 by (simp add: e2)
  note e3 = RdyListRemove_effect [OF xy2]
  have c2: "OSTCBCur s2 = OSTCBCur s" using only_lists_global(4) [OF e2(4)] c1 by simp
  have s': "s' = OS_RdyListRemove ?t s2"
    unfolding s'_def OS_PendBlock_def OS_EventTaskWait_def Let_def s2_def
    by (simp add: s1_def upd_tcb_def OS_WaitListInsert_def Let_def set_wl_def upd_event_def)
  show "rdy s' = bm_del (prio_of (OSTCBTbl s ?t)) (rdy s)"
    by (simp add: s' e3 e2 p1) (simp add: s1_def)
  show "wl s' d = (if d = e then bm_ins (prio_of (OSTCBTbl s ?t)) (wl s e) else wl s d)"
    by (simp add: s' e3 e2 p1) (simp add: s1_def)
  show "OSTCBTbl s' = (OSTCBTbl s)(?t := (OSTCBTbl s ?t)\<lparr>OSTCBStat := OSTCBStat (OSTCBTbl s ?t) OR stat,
           OSTCBStatPend := OS_STAT_PEND_OK, OSTCBDly := timeout, OSTCBEventPtr := Some e\<rparr>)"
    by (simp add: s' e3 e2) (simp add: s1_def)
  have "only_lists s s1" by (simp add: s1_def)
  from only_lists_trans [OF only_lists_trans [OF this e2(4)] e3(5)]
  show "only_lists s s'" by (simp add: s')
qed

text \<open>The continuation of a pend on one event.\<close>

lemma PendBlock_pre_inv:
  assumes inv: "pre_inv k s" and none: "k (cur s) = None" and lock: "OSLockNesting s = 0"
    and idle: "unat (OSPrioCur s) \<noteq> 63" and stat: "stat = type_stat (event_type s e)" "stat \<noteq> 0"
    and c: "cont_events c = {e}" "\<not> is_multi c"
  shows "pre_inv (k(cur s := Some c)) (OS_PendBlock stat timeout e s)"
proof -
  let ?n = "unat (OSPrioCur s)" and ?t = "cur s" and ?s = "OS_PendBlock stat timeout e s"
  note i = pre_invD [OF inv]
  note at = i(6)
  have xy: "xy_ok (OSTCBTbl s ?t)" and pn: "prio_of (OSTCBTbl s ?t) = ?n" and n64: "?n < 64"
    using task_at_xy [OF i(1) at] at by (simp_all add: task_at_def)
  note eff = PendBlock_effect [OF xy, of stat timeout e, unfolded pn]
  note okr = kernel_invD(1) [OF i(1)] and okw = kernel_invD(2) [OF i(1)]
  have co: "cont_ok None (waits_on s ?n) (OSTCBTbl s ?t)" using i(8) [OF at] none by simp
  then have w: "waits_on s ?n = {}" by (simp add: cont_ok_def)
  have w': "waits_on ?s ?n = {e}"
    using w okw n64 by (auto simp: waits_on_def eff(2) bm_mem_ins)
  have r': "?n \<notin> bm_mem (rdy ?s)" using okr n64 by (simp add: eff(1) bm_mem_del)
  have sk: "same_kernel s ?s" and sr: "same_run s ?s" using only_lists_kernel [OF eff(4)] .
  have ty: "event_type ?s = event_type s" by (rule same_kernelD(2) [OF sk])
  have tch: "touches ?n ?t s ?s"
    using okr okw n64 sk sr
    by (simp add: touches_def eff bm_ok_del bm_ok_ins bm_mem_del bm_mem_ins tcb_coords_def)
  show ?thesis
  proof (rule pre_inv_touches [OF inv at tch])
    let ?p = "OSTCBTbl s ?t" and ?q = "OSTCBTbl ?s ?t"
    have q: "OSTCBStat ?q = OSTCBStat ?p OR stat" "OSTCBEventPtr ?q = Some e"
      "OSTCBEventMultiPtr ?q = OSTCBEventMultiPtr ?p" "OSTCBFlagNode ?q = OSTCBFlagNode ?p"
      by (simp_all add: eff(3))
    have mu: "multi ?q \<longleftrightarrow> multi ?p" unfolding multi_iff q(1) by (simp add: stat(1) bit_or_iff)
    have pe: "pending ?q" using stat q(1) by (auto intro: pending_or)
    have tyu: "event_type s e \<noteq> OS_EVENT_TYPE_UNUSED" using stat by (auto simp: type_stat_def)
    have m0: "OSTCBEventMultiPtr ?p = None" and f0: "OSTCBFlagNode ?p = None"
      and mp: "multi ?p \<or> \<not> pending ?p"
      using co by (simp_all add: cont_ok_def)
    have "multi ?p \<or> OSTCBStat ?q AND OS_STAT_PEND_ANY AND NOT (type_stat (event_type s e)) = 0"
      using mp not_pending_or [of ?p "event_type s e"] unfolding q(1) by (auto simp: stat(1))
    then show "task_ok (?n \<in> bm_mem (rdy ?s)) (waits_on ?s ?n) (event_type ?s) ?q"
      unfolding task_ok_def w' ty using r' pe tyu by (auto simp: awaited_def q(2,3) m0 mu)
    show "cont_ok ((k(?t := Some c)) ?t) (waits_on ?s ?n) ?q"
      using c by (simp add: cont_ok_def w' q m0 f0)
  qed (use lock idle in simp_all)
qed

section \<open>Waking up\<close>

text \<open>
  The end of a pend on one event, in the task that runs again: a pend that timed out leaves the
  wait list first, and then the control block is reset.
\<close>

definition pend_wake :: "nat \<Rightarrow> os \<Rightarrow> os" where
  "pend_wake e s =
     OS_PendDone (if OSTCBStatPend (OSTCBTbl s (cur s)) = OS_STAT_PEND_OK \<or>
                     OSTCBStatPend (OSTCBTbl s (cur s)) = OS_STAT_PEND_ABORT
                  then s else OS_EventTaskRemove (cur s) e s)"

definition woken_tcb :: "os_tcb \<Rightarrow> os_tcb" where
  "woken_tcb p = p\<lparr>OSTCBStat := OS_STAT_RDY, OSTCBStatPend := OS_STAT_PEND_OK, OSTCBEventPtr := None,
     OSTCBEventMultiPtr := None, OSTCBEventMultiRdy := None\<rparr>"

lemma PendDone_effect:
  "rdy (OS_PendDone s) = rdy s" "wl (OS_PendDone s) e = wl s e"
  "OSTCBTbl (OS_PendDone s) = (OSTCBTbl s)(cur s := woken_tcb (OSTCBTbl s (cur s)))"
  "only_lists s (OS_PendDone s)"
  by (simp_all add: OS_PendDone_def woken_tcb_def)

lemma pend_wake_effect:
  assumes xy: "xy_ok (OSTCBTbl s (cur s))"
  shows "rdy (pend_wake e s) = rdy s"
    and "wl (pend_wake e s) d =
      (if d = e \<and> OSTCBStatPend (OSTCBTbl s (cur s)) \<noteq> OS_STAT_PEND_OK \<and>
          OSTCBStatPend (OSTCBTbl s (cur s)) \<noteq> OS_STAT_PEND_ABORT
       then bm_del (prio_of (OSTCBTbl s (cur s))) (wl s e) else wl s d)"
    and "OSTCBTbl (pend_wake e s) = (OSTCBTbl s)(cur s := woken_tcb (OSTCBTbl s (cur s)))"
    and "only_lists s (pend_wake e s)"
proof -
  note r = EventTaskRemove_effect [OF xy, of e]
  have c: "OSTCBCur (OS_EventTaskRemove (cur s) e s) = OSTCBCur s"
    using only_lists_global(4) [OF r(4)] .
  show "rdy (pend_wake e s) = rdy s"
    by (simp add: pend_wake_def PendDone_effect r)
  show "wl (pend_wake e s) d =
      (if d = e \<and> OSTCBStatPend (OSTCBTbl s (cur s)) \<noteq> OS_STAT_PEND_OK \<and>
          OSTCBStatPend (OSTCBTbl s (cur s)) \<noteq> OS_STAT_PEND_ABORT
       then bm_del (prio_of (OSTCBTbl s (cur s))) (wl s e) else wl s d)"
    by (simp add: pend_wake_def PendDone_effect r)
  show "OSTCBTbl (pend_wake e s) = (OSTCBTbl s)(cur s := woken_tcb (OSTCBTbl s (cur s)))"
    by (simp add: pend_wake_def PendDone_effect r c) (simp add: woken_tcb_def)
  show "only_lists s (pend_wake e s)"
    using only_lists_trans [OF r(4) PendDone_effect(4)] PendDone_effect(4)
    by (simp add: pend_wake_def)
qed

lemma stat_0 [simp]:
  "\<not> suspended (woken_tcb p)" "\<not> pending (woken_tcb p)" "\<not> multi (woken_tcb p)"
  by (simp_all add: suspended_def pending_def multi_def woken_tcb_def)

text \<open>
  The running task, whose pend is over, leaves its wait lists and resets its control block; its
  message field is not part of the invariant.
\<close>

lemma running_ready:
  assumes inv: "sys_inv k s" and int: "OSIntNesting s = 0" and c: "k (cur s) = Some c"
  shows "OSLockNesting s = 0" and "unat (OSPrioCur s) \<in> bm_mem (rdy s)"
    and "task_ok True (waits_on s (unat (OSPrioCur s))) (event_type s) (OSTCBTbl s (cur s))"
    and "cont_ok (Some c) (waits_on s (unat (OSPrioCur s))) (OSTCBTbl s (cur s))"
proof -
  note i = pre_invD [OF sys_invD(1) [OF inv]]
  show lock: "OSLockNesting s = 0" using i(5) c by auto
  have ne: "bm_mem (rdy s) \<noteq> {}" using kernel_invD(7) [OF i(1)] by blast
  have "unat (OSPrioCur s) = Min (bm_mem (rdy s))"
    using sys_invD(2) [OF inv] int lock by (simp add: top_runs_def)
  then show r: "unat (OSPrioCur s) \<in> bm_mem (rdy s)" using Min_in [OF bm.finite_mem ne] by simp
  show "task_ok True (waits_on s (unat (OSPrioCur s))) (event_type s) (OSTCBTbl s (cur s))"
    using kernel_invD(6) [OF i(1,6)] r by simp
  show "cont_ok (Some c) (waits_on s (unat (OSPrioCur s))) (OSTCBTbl s (cur s))" using i(8) [OF i(6)] c by simp
qed

lemma woken_sys_inv:
  assumes inv: "sys_inv k s" and int: "OSIntNesting s = 0" and c: "k (cur s) = Some c"
    and o: "only_lists s s'" and rdy: "rdy s' = rdy s" and okw: "\<And>d. bm_ok (wl s' d)"
    and wl: "\<And>m d. m \<noteq> unat (OSPrioCur s) \<Longrightarrow> m \<in> bm_mem (wl s' d) \<longleftrightarrow> m \<in> bm_mem (wl s d)"
    and none: "waits_on s' (unat (OSPrioCur s)) = {}"
    and tcb: "\<And>u. u \<noteq> cur s \<Longrightarrow> OSTCBTbl s' u = OSTCBTbl s u"
    and co: "tcb_coords (OSTCBTbl s' (cur s)) = tcb_coords (OSTCBTbl s (cur s))"
    and sy: "tcb_sync (OSTCBTbl s' (cur s)) = tcb_sync (woken_tcb (OSTCBTbl s (cur s)))"
  shows "sys_inv (k(cur s := None)) s'"
proof -
  let ?n = "unat (OSPrioCur s)" and ?t = "cur s" and ?w = "woken_tcb (OSTCBTbl s (cur s))"
  note i = pre_invD [OF sys_invD(1) [OF inv]]
  note r = running_ready [OF inv int c]
  have tch: "touches ?n ?t s s'"
    using only_lists_kernel [OF o] okw wl tcb co kernel_invD(1) [OF i(1)]
    by (simp add: touches_def rdy)
  have "pre_inv (k(?t := None)) s'"
  proof (rule pre_inv_touches [OF sys_invD(1) [OF inv] i(6) tch])
    show "task_ok (?n \<in> bm_mem (rdy s')) (waits_on s' ?n) (event_type s') (OSTCBTbl s' ?t)"
      unfolding none task_ok_cong [OF sy] using r(2,3)
      by (simp add: task_ok_def rdy) (simp add: woken_tcb_def awaited_def)
    show "cont_ok ((k(?t := None)) ?t) (waits_on s' ?n) (OSTCBTbl s' ?t)"
      unfolding none cont_ok_cong [OF sy] using r(4) by (simp add: cont_ok_def) (simp add: woken_tcb_def)
  qed (use r(1) kernel_invD(7) [OF i(1)] in \<open>simp_all add: rdy\<close>)
  moreover have "top_runs s'"
    using sys_invD(2) [OF inv] only_lists_global [OF o] by (simp add: top_runs_def rdy)
  ultimately show ?thesis by (simp add: sys_inv_def)
qed

lemma pend_wake_sys_inv:
  assumes inv: "sys_inv k s" and int: "OSIntNesting s = 0"
    and c: "k (cur s) = Some c" "cont_events c = {e}" "\<not> is_multi c"
  shows "sys_inv (k(cur s := None)) (upd_tcb (cur s) (\<lambda>p. p\<lparr>OSTCBMsg := m p\<rparr>) (pend_wake e s))"
proof -
  let ?n = "unat (OSPrioCur s)" and ?t = "cur s"
  note i = pre_invD [OF sys_invD(1) [OF inv]]
  note r = running_ready [OF inv int c(1)]
  have xy: "xy_ok (OSTCBTbl s ?t)" and pn: "prio_of (OSTCBTbl s ?t) = ?n" and n64: "?n < 64"
    using task_at_xy [OF i(1,6)] i(6) by (simp_all add: task_at_def)
  note eff = pend_wake_effect [OF xy, of e, unfolded pn]
  note okw = kernel_invD(2) [OF i(1)]
  show ?thesis
  proof (rule woken_sys_inv [OF inv int c(1)])
    show "only_lists s (upd_tcb ?t (\<lambda>p. p\<lparr>OSTCBMsg := m p\<rparr>) (pend_wake e s))"
      using only_lists_trans [OF eff(4) only_lists_prims(2)] .
    have "waits_on s ?n = {} \<or> OSTCBStatPend (OSTCBTbl s ?t) = OS_STAT_PEND_TO"
      using r(3) by (auto simp: task_ok_def)
    moreover have "waits_on s ?n \<subseteq> {e}" using r(4) c by (simp add: cont_ok_def)
    ultimately show "waits_on (upd_tcb ?t (\<lambda>p. p\<lparr>OSTCBMsg := m p\<rparr>) (pend_wake e s)) ?n = {}"
      using okw n64 by (auto simp: waits_on_def eff(2) bm_mem_del)
  qed (use okw n64 in \<open>simp_all add: eff bm_ok_del bm_mem_del tcb_coords_def tcb_sync_def woken_tcb_def\<close>)
qed

section \<open>Events that come and go\<close>

text \<open>
  An operation that changes the type of an event without waiters, and the free list.
\<close>

lemma pre_inv_retype:
  assumes inv: "pre_inv k s" and prio: "OSTCBPrioTbl s' = OSTCBPrioTbl s"
    and ty: "\<And>d. d \<noteq> e \<Longrightarrow> event_type s' d = event_type s d"
    and none: "bm_mem (wl s e) = {}" and none': "bm_mem (wl s' e) = {}" and okw: "bm_ok (wl s' e)"
    and wl: "\<And>d. d \<noteq> e \<Longrightarrow> wl s' d = wl s d" and rdy: "rdy s' = rdy s"
    and tcb: "OSTCBTbl s' = OSTCBTbl s" and run: "OSTCBCur s' = OSTCBCur s" "OSPrioCur s' = OSPrioCur s"
    and lock: "OSLockNesting s' = OSLockNesting s" and free: "free_events_ok s'"
    and lst: "OSTCBList s' = OSTCBList s" "OSRunning s' = OSRunning s" "OSTCBFreeList s' = OSTCBFreeList s"
  shows "pre_inv k s'"
proof -
  note i = pre_invD [OF inv]
  have at: "task_at s' = task_at s" by (intro ext) (simp add: task_at_def prio tcb)
  have "m \<in> bm_mem (wl s' d) \<longleftrightarrow> m \<in> bm_mem (wl s d)" for m d
    using none none' wl by (cases "d = e") auto
  then have w: "waits_on s' m = waits_on s m" for m by (simp add: waits_on_def)
  have okw': "bm_ok (wl s' d)" for d
    using okw wl kernel_invD(2) [OF i(1)] by (cases "d = e") auto
  have "task_ok R (waits_on s m) (event_type s') p = task_ok R (waits_on s m) (event_type s) p" for R m p
  proof -
    have "d \<noteq> e" if "d \<in> waits_on s m" for d using that none by (auto simp: waits_on_def)
    then show ?thesis using ty by (auto simp: task_ok_def)
  qed
  then have "kernel_inv s'"
    using i(1) unfolding kernel_inv_def at w by (simp add: rdy prio tcb okw')
  moreover have "conts_ok k s'" using i(2) by (simp add: conts_ok_def at w tcb)
  moreover have "\<exists>ts. task_list s' ts" using i(10) task_list_cong [OF _ prio lst(1,3)] by (auto simp: tcb)
  ultimately show ?thesis
    using i(3,5,9) free by (simp add: pre_inv_def cur_ok_def at run lock lst)
qed

lemma EventFree_pre_inv:
  assumes inv: "pre_inv k s" and ty: "event_type s e \<noteq> OS_EVENT_TYPE_UNUSED" and none: "bm_mem (wl s e) = {}"
  shows "pre_inv k (OS_EventFree e s)"
proof -
  let ?s = "OS_EventFree e s"
  note i = pre_invD [OF inv]
  obtain es where h: "event_pool.holds s es"
    and u: "\<forall>e\<in>set es. event_type s e = OS_EVENT_TYPE_UNUSED"
    using i(4) by (auto simp: free_events_ok_def)
  have "e \<notin> set es" using u ty by blast
  from event_pool.free_holds [OF h this] have h': "event_pool.holds ?s (e # es)" .
  have ty': "event_type ?s d = (if d = e then OS_EVENT_TYPE_UNUSED else event_type s d)" for d
    by (simp add: OS_EventFree_def upd_event_def)
  have "free_events_ok ?s"
    unfolding free_events_ok_def using h' u by (intro exI [of _ "e # es"]) (simp add: ty')
  moreover have "wl ?s d = wl s d" for d by (simp add: OS_EventFree_def upd_event_def wl_def)
  ultimately show ?thesis
    using none kernel_invD(2) [OF i(1)]
    by (intro pre_inv_retype [OF inv, where e = e])
      (simp_all add: ty', simp_all add: OS_EventFree_def upd_event_def rdy_def)
qed

text \<open>A fresh event is set up with an empty wait list.\<close>

lemma WaitListInit_wl:
  "wl (OS_EventWaitListInit e s) d = (if d = e then (0, replicate 8 0) else wl s d)"
proof -
  have "map (\<lambda>i. 0 :: INT8U) [0..<OS_EVENT_TBL_SIZE] = replicate 8 0" by (simp add: map_replicate_const)
  then show ?thesis by (simp add: OS_EventWaitListInit_def wl_def upd_event_def)
qed

lemma EventAlloc_pre_inv:
  assumes inv: "pre_inv k s" and e: "OSEventFreeList s = Some e"
    and s': "s' = OS_EventWaitListInit e (upd_event e f (fst (OS_EventAlloc s)))"
  shows "pre_inv k s'"
    and "rdy s' = rdy s" and "OSPrioCur s' = OSPrioCur s" and "OSTCBCur s' = OSTCBCur s"
    and "OSIntNesting s' = OSIntNesting s" and "OSLockNesting s' = OSLockNesting s"
proof -
  note i = pre_invD [OF inv]
  obtain es where h: "event_pool.holds s es"
    and u: "\<forall>e\<in>set es. event_type s e = OS_EVENT_TYPE_UNUSED"
    using i(4) by (auto simp: free_events_ok_def)
  then obtain es' where es: "es = e # es'" using e by (cases es) (auto simp: event_pool.holds_def)
  have d: "e \<notin> set es'" using event_pool.holds_distinct [OF h] by (simp add: es)
  have al: "OS_EventAlloc s = (s\<lparr>OSEventFreeList := event_next s e\<rparr>, Some e)"
    by (simp add: OS_EventAlloc_def e event_next_def)
  have n: "event_next s' x = event_next s x" if "x \<noteq> e" for x
    using that by (simp add: s' al event_next_def OS_EventWaitListInit_def upd_event_def)
  have fl: "OSEventFreeList s' = event_next s e"
    by (simp add: s' al OS_EventWaitListInit_def upd_event_def)
  have "path (event_next s') (event_next s e) es'"
    using h d by (auto intro!: path_cong [of es' "event_next s'" "event_next s"] n
        simp: es event_pool.holds_def)
  then have h': "event_pool.holds s' es'" by (simp add: event_pool.holds_def fl)
  have ty: "event_type s' x = event_type s x" if "x \<noteq> e" for x
    using that by (simp add: s' al OS_EventWaitListInit_def upd_event_def)
  have fo: "free_events_ok s'"
    unfolding free_events_ok_def
  proof (intro exI [of _ es'] conjI ballI)
    fix x assume x: "x \<in> set es'"
    then have "x \<noteq> e" using d by blast
    from ty [OF this] show "event_type s' x = OS_EVENT_TYPE_UNUSED" using x u by (simp add: es)
  qed (rule h')
  have none: "bm_mem (wl s e) = {}"
  proof (rule ccontr)
    assume "bm_mem (wl s e) \<noteq> {}"
    then obtain n where n: "n \<in> bm_mem (wl s e)" by blast
    then obtain t where "task_at s n t" using kernel_invD(5) [OF i(1)] by blast
    from waits_on_awaited(2) [OF i(1) this] n u show False by (auto simp: waits_on_def es)
  qed
  have w: "wl s' x = (if x = e then (0, replicate 8 0) else wl s x)" for x
    by (simp add: s' WaitListInit_wl al) (simp add: upd_event_def wl_def)
  show rdy: "rdy s' = rdy s" and "OSPrioCur s' = OSPrioCur s" and "OSTCBCur s' = OSTCBCur s"
    and "OSIntNesting s' = OSIntNesting s" and "OSLockNesting s' = OSLockNesting s"
    by (simp_all add: s' al OS_EventWaitListInit_def upd_event_def rdy_def)
  show "pre_inv k s'"
    by (rule pre_inv_retype [OF inv _ ty none _ _ _ rdy _ _ _ _ fo])
      (simp_all add: w, simp_all add: s' al OS_EventWaitListInit_def upd_event_def)
qed

lemma EventAlloc_sys_inv:
  assumes inv: "sys_inv k s" and e: "OSEventFreeList s = Some e"
  shows "sys_inv k (OS_EventWaitListInit e (upd_event e f (fst (OS_EventAlloc s))))"
  using EventAlloc_pre_inv [OF sys_invD(1) [OF inv] e refl, of f] sys_invD(2) [OF inv]
  by (simp add: sys_inv_def top_runs_def)

text \<open>A control block that is taken and put back, as when no queue is left for a new event.\<close>

lemma EventAlloc_undo_sys_inv:
  assumes inv: "sys_inv k s" and e: "OSEventFreeList s = Some e"
  defines "s1 \<equiv> fst (OS_EventAlloc s)"
  defines "s' \<equiv> (upd_event e (\<lambda>v. v\<lparr>OSEventPtr := void_of_event (OSEventFreeList s1)\<rparr>) s1)\<lparr>OSEventFreeList := Some e\<rparr>"
  shows "sys_inv k s'"
proof -
  note i = pre_invD [OF sys_invD(1) [OF inv]]
  have s1: "s1 = s\<lparr>OSEventFreeList := event_next s e\<rparr>"
    by (simp add: s1_def OS_EventAlloc_def e event_next_def)
  have n: "event_next s' = event_next s" by (auto simp: s'_def s1 event_next_def upd_event_def)
  have w: "wl s' d = wl s d" for d by (simp add: s'_def s1 wl_def upd_event_def)
  have ty: "event_type s' d = event_type s d" for d by (simp add: s'_def s1 upd_event_def)
  have fo: "free_events_ok s'"
    using i(4) by (simp add: free_events_ok_def event_pool.holds_def n ty) (simp add: s'_def e)
  obtain es where h: "event_pool.holds s es"
    and u: "\<forall>e\<in>set es. event_type s e = OS_EVENT_TYPE_UNUSED"
    using i(4) by (auto simp: free_events_ok_def)
  have "event_type s e = OS_EVENT_TYPE_UNUSED" using h u e by (cases es) (auto simp: event_pool.holds_def)
  then have none: "bm_mem (wl s e) = {}"
    using waits_on_awaited(2) [OF i(1)] kernel_invD(5) [OF i(1)] by (fastforce simp: waits_on_def)
  have "pre_inv k s'"
    by (rule pre_inv_retype [OF sys_invD(1) [OF inv] _ ty none _ _ w _ _ _ _ _ fo])
      (use none kernel_invD(2) [OF i(1)] in \<open>simp_all add: w\<close>, simp_all add: s'_def s1 upd_event_def rdy_def)
  then show ?thesis
    using sys_invD(2) [OF inv]
    by (simp add: sys_inv_def top_runs_def) (simp add: s'_def s1 upd_event_def rdy_def)
qed

lemma upd_tcb_id [simp]: "upd_tcb t (\<lambda>p. p) s = s"
  by (simp add: upd_tcb_def)

section \<open>Services with a wait list\<close>

text \<open>
  The contract the semaphores, the mailboxes and the queues share.  An event of type \<open>ty\<close> has the
  status bit \<open>stat\<close>.  A pend either returns without touching the kernel's lists or blocks on the
  event; its second half is \<open>pend_wake\<close>; a post with a waiter readies the first one, and without
  one touches no list; an abort readies one waiter or all; a deletion readies all and gives the
  control block back.
\<close>

locale wait_service =
  fixes ty stat :: INT8U
    and cont :: "nat \<Rightarrow> cont"
    and pend :: "nat option \<Rightarrow> INT32U \<Rightarrow> os \<Rightarrow> os \<times> 'r option"
    and resume :: "nat \<Rightarrow> os \<Rightarrow> os"
    and post :: "nat option \<Rightarrow> 'm \<Rightarrow> os \<Rightarrow> os"
    and post_msg :: "'m \<Rightarrow> voidp"
    and abort :: "nat option \<Rightarrow> INT8U \<Rightarrow> os \<Rightarrow> (os \<times> INT8U \<times> INT8U) option"
    and del :: "nat option \<Rightarrow> INT8U \<Rightarrow> os \<Rightarrow> (os \<times> nat option \<times> INT8U) option"
    and release :: "nat \<Rightarrow> os \<Rightarrow> os"
  assumes stat: "stat = type_stat ty" "stat \<noteq> 0"
    and cont: "cont_events (cont e) = {e}" "\<not> is_multi (cont e)"
    and pend_done: "pend pe timeout s = (s', Some r) \<Longrightarrow> quiet s s'"
    and pend_blocked: "pend pe timeout s = (s', None) \<Longrightarrow>
      \<exists>e. pe = Some e \<and> event_type s e = ty \<and> OSIntNesting s = 0 \<and> OSLockNesting s = 0 \<and>
        s' = OS_Sched (OS_PendBlock stat timeout e s)"
    and resume: "\<exists>m. resume e s = upd_tcb (cur s) (\<lambda>p. p\<lparr>OSTCBMsg := m p\<rparr>) (pend_wake e s)"
    and post: "quiet s (post pe msg s) \<or>
      (\<exists>e. pe = Some e \<and> event_type s e = ty \<and> OSEventGrp (OSEvents s e) \<noteq> 0 \<and>
        post pe msg s = OS_Sched (fst (OS_EventTaskRdy e (post_msg msg) stat OS_STAT_PEND_OK s)))"
    and abort: "(\<exists>err. abort pe opt s = Some (s, 0, err)) \<or>
      (\<exists>e. pe = Some e \<and> event_type s e = ty \<and> OSEventGrp (OSEvents s e) \<noteq> 0 \<and>
        abort pe opt s =
          (if opt = OS_PEND_OPT_BROADCAST
           then map_option (\<lambda>(s, n). (OS_Sched s, n, OS_ERR_PEND_ABORT))
                  (OS_EventTaskRdyAll e NULL stat OS_STAT_PEND_ABORT (s, 0))
           else Some (OS_Sched (fst (OS_EventTaskRdy e NULL stat OS_STAT_PEND_ABORT s)), 1,
                      OS_ERR_PEND_ABORT)))"
    and del: "(\<exists>r. del pe opt s = Some (s, r)) \<or>
      (\<exists>e. pe = Some e \<and> event_type s e = ty \<and> OSEventGrp (OSEvents s e) = 0 \<and>
        del pe opt s = Some (release e s, None, OS_ERR_NONE)) \<or>
      (\<exists>e. pe = Some e \<and> event_type s e = ty \<and>
        del pe opt s = map_option (\<lambda>(s', n). (if OSEventGrp (OSEvents s e) \<noteq> 0 then OS_Sched (release e s')
              else release e s', None, OS_ERR_NONE))
          (OS_EventTaskRdyAll e NULL stat OS_STAT_PEND_ABORT (s, 0)))"
    and release: "\<exists>s0. quiet s s0 \<and> release e s = OS_EventFree e s0"
begin

lemma pend_inv:
  assumes inv: "sys_inv k s" and none: "k (cur s) = None" and idle: "unat (OSPrioCur s) \<noteq> 63"
    and p: "pend pe timeout s = (s', r)"
  shows "sys_inv (if r = None then k(cur s := Some (cont (the pe))) else k) s'"
proof (cases r)
  case (Some x)
  with p have "quiet s s'" by (auto dest: pend_done)
  from quiet_sys_inv [OF inv this] Some show ?thesis by simp
next
  case None
  with p obtain e where e: "pe = Some e" "event_type s e = ty" "OSLockNesting s = 0"
    and s': "s' = OS_Sched (OS_PendBlock stat timeout e s)" by (auto dest: pend_blocked)
  have "pre_inv (k(cur s := Some (cont e))) (OS_PendBlock stat timeout e s)"
    using e stat by (intro PendBlock_pre_inv [OF sys_invD(1) [OF inv] none] idle cont) simp_all
  from Sched_sys_inv [OF this] show ?thesis by (simp add: s' None e)
qed

lemma resume_inv:
  assumes "sys_inv k s" and "OSIntNesting s = 0" and "k (cur s) = Some (cont e)"
  shows "sys_inv (k(cur s := None)) (resume e s)"
proof -
  obtain m where "resume e s = upd_tcb (cur s) (\<lambda>p. p\<lparr>OSTCBMsg := m p\<rparr>) (pend_wake e s)"
    using resume by blast
  with pend_wake_sys_inv [OF assms cont] show ?thesis by simp
qed

lemma post_inv:
  assumes inv: "sys_inv k s"
  shows "sys_inv k (post pe msg s)"
  using post [of s pe msg]
proof
  assume "quiet s (post pe msg s)"
  then show ?thesis by (rule quiet_sys_inv [OF inv])
next
  assume "\<exists>e. pe = Some e \<and> event_type s e = ty \<and> OSEventGrp (OSEvents s e) \<noteq> 0 \<and>
        post pe msg s = OS_Sched (fst (OS_EventTaskRdy e (post_msg msg) stat OS_STAT_PEND_OK s))"
  then obtain e where e: "event_type s e = ty" "OSEventGrp (OSEvents s e) \<noteq> 0"
    and p: "post pe msg s = OS_Sched (fst (OS_EventTaskRdy e (post_msg msg) stat OS_STAT_PEND_OK s))"
    by blast
  note i = sys_invD(1) [OF inv]
  have "bm_mem (wl s e) \<noteq> {}" using e(2) grp_nonzero_iff [OF pre_invD(1) [OF i]] by blast
  from Sched_sys_inv [OF EventTaskRdy_pre_inv [OF i this]] show ?thesis
    using stat(1) e(1) by (simp add: p)
qed

text \<open>The wake-up loops return, and what follows keeps the invariant.\<close>

lemma abort_inv:
  assumes inv: "sys_inv k s"
  shows "\<exists>s' n err. abort pe opt s = Some (s', n, err) \<and> sys_inv k s'"
  using abort [of pe opt s]
proof
  assume "\<exists>err. abort pe opt s = Some (s, 0, err)"
  with inv show ?thesis by auto
next
  assume "\<exists>e. pe = Some e \<and> event_type s e = ty \<and> OSEventGrp (OSEvents s e) \<noteq> 0 \<and>
        abort pe opt s =
          (if opt = OS_PEND_OPT_BROADCAST
           then map_option (\<lambda>(s, n). (OS_Sched s, n, OS_ERR_PEND_ABORT))
                  (OS_EventTaskRdyAll e NULL stat OS_STAT_PEND_ABORT (s, 0))
           else Some (OS_Sched (fst (OS_EventTaskRdy e NULL stat OS_STAT_PEND_ABORT s)), 1,
                      OS_ERR_PEND_ABORT))"
  then obtain e where e: "event_type s e = ty" "OSEventGrp (OSEvents s e) \<noteq> 0"
    and a: "abort pe opt s =
          (if opt = OS_PEND_OPT_BROADCAST
           then map_option (\<lambda>(s, n). (OS_Sched s, n, OS_ERR_PEND_ABORT))
                  (OS_EventTaskRdyAll e NULL stat OS_STAT_PEND_ABORT (s, 0))
           else Some (OS_Sched (fst (OS_EventTaskRdy e NULL stat OS_STAT_PEND_ABORT s)), 1,
                      OS_ERR_PEND_ABORT))" by blast
  note i = sys_invD(1) [OF inv]
  have ne: "bm_mem (wl s e) \<noteq> {}" using e(2) grp_nonzero_iff [OF pre_invD(1) [OF i]] by blast
  have st: "stat = type_stat (event_type s e)" using stat(1) e(1) by simp
  obtain s' where r: "OS_EventTaskRdyAll e NULL stat OS_STAT_PEND_ABORT (s, 0) =
      Some (s', 0 + of_nat (card (bm_mem (wl s e))))" and p: "pre_inv k s'"
    using EventTaskRdyAll_pre_inv [OF i st] by blast
  show ?thesis
  proof (cases "opt = OS_PEND_OPT_BROADCAST")
    case True
    then show ?thesis using Sched_sys_inv [OF p] a r by simp
  next
    case False
    then show ?thesis using Sched_sys_inv [OF EventTaskRdy_pre_inv [OF i ne st]] a by simp
  qed
qed

lemma ty_used: "ty \<noteq> OS_EVENT_TYPE_UNUSED"
  using stat by (auto simp: type_stat_def)

lemma release_pre_inv:
  assumes inv: "pre_inv k s" and "event_type s e = ty" and "bm_mem (wl s e) = {}"
  shows "pre_inv k (release e s)"
proof -
  obtain s0 where q: "quiet s s0" and r: "release e s = OS_EventFree e s0" using release by blast
  have "event_type s0 e = ty" using same_kernelD(2) [OF quietD(1) [OF q]] assms(2) by (simp add: fun_eq_iff)
  then show ?thesis
    using quiet_pre_inv [OF inv q] ty_used quietD(5) [OF q] assms(3)
    by (simp add: r EventFree_pre_inv)
qed

lemma release_sys_inv:
  assumes inv: "sys_inv k s" and "event_type s e = ty" and "bm_mem (wl s e) = {}"
  shows "sys_inv k (release e s)"
proof -
  obtain s0 where q: "quiet s s0" and r: "release e s = OS_EventFree e s0" using release by blast
  have "top_runs s0" using quiet_sys_inv [OF inv q] by (simp add: sys_inv_def)
  then have "top_runs (release e s)"
    by (simp add: r top_runs_def) (simp add: OS_EventFree_def upd_event_def rdy_def)
  with release_pre_inv [OF sys_invD(1) [OF inv] assms(2,3)] show ?thesis by (simp add: sys_inv_def)
qed

lemma del_inv:
  assumes inv: "sys_inv k s"
  shows "\<exists>s' r. del pe opt s = Some (s', r) \<and> sys_inv k s'"
proof -
  note i = sys_invD(1) [OF inv]
  note grp = grp_nonzero_iff [OF pre_invD(1) [OF i]]
  from del [of pe opt s] consider
    (same) r where "del pe opt s = Some (s, r)"
  | (free) e where "event_type s e = ty" "OSEventGrp (OSEvents s e) = 0"
      "del pe opt s = Some (release e s, None, OS_ERR_NONE)"
  | (all) e where "event_type s e = ty"
      "del pe opt s = map_option (\<lambda>(s', n). (if OSEventGrp (OSEvents s e) \<noteq> 0 then OS_Sched (release e s')
              else release e s', None, OS_ERR_NONE))
          (OS_EventTaskRdyAll e NULL stat OS_STAT_PEND_ABORT (s, 0))" by blast
  then show ?thesis
  proof cases
    case same
    with inv show ?thesis by auto
  next
    case free
    with release_sys_inv [OF inv] grp show ?thesis by auto
  next
    case all
    have st: "stat = type_stat (event_type s e)" using stat(1) all(1) by simp
    obtain s' where r: "OS_EventTaskRdyAll e NULL stat OS_STAT_PEND_ABORT (s, 0) =
        Some (s', 0 + of_nat (card (bm_mem (wl s e))))"
      and p: "pre_inv k s'" and none: "bm_mem (wl s' e) = {}" and o: "only_lists s s'"
      using EventTaskRdyAll_pre_inv [OF i st] by blast
    have ty': "event_type s' e = ty" using only_lists_event(1) [OF o] all(1) by simp
    show ?thesis
    proof (cases "OSEventGrp (OSEvents s e) = 0")
      case True
      then have "OS_EventTaskRdyAll e NULL stat OS_STAT_PEND_ABORT (s, 0) = Some (s, 0)"
        by (simp add: OS_EventTaskRdyAll_def while_option_unfold)
      with True release_sys_inv [OF inv all(1)] grp show ?thesis by (auto simp: all(2))
    next
      case False
      then show ?thesis
        using Sched_sys_inv [OF release_pre_inv [OF p ty' none]] by (simp add: all(2) r)
    qed
  qed
qed

end

section \<open>Services that broadcast\<close>

text \<open>A post with options: to one waiter or to all, with the scheduler call or without.\<close>

locale broadcast_service = wait_service +
  fixes post_opt :: "nat option \<Rightarrow> 'c \<Rightarrow> INT8U \<Rightarrow> os \<Rightarrow> (os \<times> INT8U) option"
  assumes post_opt: "(\<exists>s' err. post_opt pe msg opt s = Some (s', err) \<and> quiet s s') \<or>
      (\<exists>e. pe = Some e \<and> event_type s e = ty \<and> OSEventGrp (OSEvents s e) \<noteq> 0 \<and>
        post_opt pe msg opt s =
          map_option (\<lambda>(s', n). (if opt AND OS_POST_OPT_NO_SCHED = 0 then OS_Sched s' else s', OS_ERR_NONE))
            (if opt AND OS_POST_OPT_BROADCAST \<noteq> 0
             then OS_EventTaskRdyAll e (post_msg msg) stat OS_STAT_PEND_OK (s, 0)
             else Some (fst (OS_EventTaskRdy e (post_msg msg) stat OS_STAT_PEND_OK s), 1)))"
begin

lemma post_opt_inv:
  assumes inv: "sys_inv k s"
    and sched: "opt AND OS_POST_OPT_NO_SCHED = 0 \<or> OSIntNesting s \<noteq> 0 \<or> OSLockNesting s \<noteq> 0"
  shows "\<exists>s' err. post_opt pe msg opt s = Some (s', err) \<and> sys_inv k s'"
  using post_opt [of pe msg opt s]
proof
  assume "\<exists>s' err. post_opt pe msg opt s = Some (s', err) \<and> quiet s s'"
  then show ?thesis using quiet_sys_inv [OF inv] by blast
next
  assume "\<exists>e. pe = Some e \<and> event_type s e = ty \<and> OSEventGrp (OSEvents s e) \<noteq> 0 \<and>
        post_opt pe msg opt s =
          map_option (\<lambda>(s', n). (if opt AND OS_POST_OPT_NO_SCHED = 0 then OS_Sched s' else s', OS_ERR_NONE))
            (if opt AND OS_POST_OPT_BROADCAST \<noteq> 0
             then OS_EventTaskRdyAll e (post_msg msg) stat OS_STAT_PEND_OK (s, 0)
             else Some (fst (OS_EventTaskRdy e (post_msg msg) stat OS_STAT_PEND_OK s), 1))"
  then obtain e where e: "event_type s e = ty" "OSEventGrp (OSEvents s e) \<noteq> 0"
    and p: "post_opt pe msg opt s =
          map_option (\<lambda>(s', n). (if opt AND OS_POST_OPT_NO_SCHED = 0 then OS_Sched s' else s', OS_ERR_NONE))
            (if opt AND OS_POST_OPT_BROADCAST \<noteq> 0
             then OS_EventTaskRdyAll e (post_msg msg) stat OS_STAT_PEND_OK (s, 0)
             else Some (fst (OS_EventTaskRdy e (post_msg msg) stat OS_STAT_PEND_OK s), 1))" by blast
  note i = sys_invD(1) [OF inv]
  have ne: "bm_mem (wl s e) \<noteq> {}" using e(2) grp_nonzero_iff [OF pre_invD(1) [OF i]] by blast
  have st: "stat = type_stat (event_type s e)" using stat(1) e(1) by simp
  have m3: "\<not> bit stat 3" by (simp add: st)
  have fin: "sys_inv k (if opt AND OS_POST_OPT_NO_SCHED = 0 then OS_Sched u else u)"
    if "pre_inv k u" and o: "only_lists s u" for u
    using Sched_sys_inv [OF that(1)] that(1) sched only_lists_global(2,3) [OF o]
    by (auto simp: sys_inv_def top_runs_def)
  show ?thesis
  proof (cases "opt AND OS_POST_OPT_BROADCAST \<noteq> 0")
    case True
    obtain s' where "OS_EventTaskRdyAll e (post_msg msg) stat OS_STAT_PEND_OK (s, 0) =
        Some (s', 0 + of_nat (card (bm_mem (wl s e))))" "pre_inv k s'" "only_lists s s'"
      using EventTaskRdyAll_pre_inv [OF i st] by blast
    with True fin show ?thesis by (simp add: p)
  next
    case False
    with fin [OF EventTaskRdy_pre_inv [OF i ne st] EventTaskRdy_only_lists [OF pre_invD(1) [OF i] ne m3]]
    show ?thesis by (simp add: p)
  qed
qed

end

end
