(* ===== verification/UCOS_Example.thy ===== *)
theory UCOS_Example
  imports UCOS_Wait
begin

text \<open>
  Concrete states of a running kernel with three tasks, on which the theorems of the services are
  applied: task 0 of priority 10 runs, task 1 of priority 5 either waits for event 0, of type
  \<open>ty\<close>, or has a delay of one tick, and task 2 of priority 63 is the idle task.
\<close>

definition ex_tcb :: "INT8U \<Rightarrow> tcb_ptr \<Rightarrow> tcb_ptr \<Rightarrow> os_tcb" where
  "ex_tcb prio prev next = (set_prio_xy prio zero_tcb)\<lparr>OSTCBNext := next, OSTCBPrev := prev, OSTCBRegTbl := [7]\<rparr>"

definition ex_waiter :: "INT8U \<Rightarrow> bool \<Rightarrow> os_tcb" where
  "ex_waiter ty w =
     (if w then (ex_tcb 5 (TCB 0) (TCB 2))\<lparr>OSTCBStat := type_stat ty, OSTCBEventPtr := Some 0\<rparr>
      else (ex_tcb 5 (TCB 0) (TCB 2))\<lparr>OSTCBDly := 1\<rparr>)"

definition ex_os :: "INT8U \<Rightarrow> bool \<Rightarrow> os" where
  "ex_os ty w = \<lparr>OSCtxSwCtr = 0, OSEventFreeList = Some 1,
     OSEvents = (\<lambda>_. zero_event)(0 := zero_event\<lparr>OSEventType := ty,
       OSEventPtr := (if ty = OS_EVENT_TYPE_Q then QP 0 else NULL),
       OSEventGrp := (if w then 1 else 0), OSEventTbl := [if w then 32 else 0, 0, 0, 0, 0, 0, 0, 0]\<rparr>),
     OSFlagTbl = (\<lambda>_. zero_flag_grp), OSFlagFreeList = Some 0, OSFlagNode = (\<lambda>_. undefined),
     OSCPUUsage = 0, OSIdleCtrMax = 0, OSIdleCtrRun = 0, OSStatRdy = False, OSIntNesting = 0,
     OSLockNesting = 0, OSPrioCur = 10, OSPrioHighRdy = 10, OSRdyGrp = 0x82,
     OSRdyTbl = [0, 4, 0, 0, 0, 0, 0, 128], OSRunning = True, OSTaskCtr = 3, OSIdleCtr = 0,
     OSTCBCur = TCB 0, OSTCBFreeList = TCB 3, OSTCBHighRdy = TCB 0, OSTCBList = TCB 0,
     OSTCBPrioTbl = (\<lambda>_. NullTCB)(10 := TCB 0, 5 := TCB 1, 63 := TCB 2),
     OSTCBTbl = (\<lambda>_. zero_tcb)(0 := ex_tcb 10 NullTCB (TCB 1), 1 := ex_waiter ty w, 2 := ex_tcb 63 (TCB 1) NullTCB),
     OSTickStepState = 0, OSMemFreeList = None, OSMemTbl = (\<lambda>_. zero_mem), OSMemWord = (\<lambda>_. NULL),
     OSQFreeList = Some 1, OSQTbl = (\<lambda>_. zero_q)(0 := zero_q\<lparr>OSQEnd := 4, OSQSize := 4\<rparr>),
     OSQCell = (\<lambda>_. NULL), OSStkCell = (\<lambda>_. 0), OSTaskRegNextAvailID = 0, OSTime = 0,
     OSTmrFree = 0, OSTmrUsed = 0, OSTmrTime = 0, OSTmrSem = None, OSTmrSemSignal = None,
     OSTmrTbl = (\<lambda>_. zero_tmr), OSTmrFreeList = None, OSTmrWheelTbl = (\<lambda>_. zero_tmr_wheel),
     OSTmrCtr = 0\<rparr>"

definition ex_conts :: "cont \<Rightarrow> bool \<Rightarrow> conts" where
  "ex_conts c w = (if w then [1 \<mapsto> c] else Map.empty)"

lemma ex_fields [simp]:
  "OSEventFreeList (ex_os ty w) = Some 1" "OSIntNesting (ex_os ty w) = 0" "OSLockNesting (ex_os ty w) = 0"
  "OSPrioCur (ex_os ty w) = 10" "OSTCBCur (ex_os ty w) = TCB 0" "OSRunning (ex_os ty w)"
  "OSTCBFreeList (ex_os ty w) = TCB 3" "OSTCBList (ex_os ty w) = TCB 0"
  "OSTCBPrioTbl (ex_os ty w) = (\<lambda>_. NullTCB)(10 := TCB 0, 5 := TCB 1, 63 := TCB 2)"
  "OSTCBTbl (ex_os ty w) = (\<lambda>_. zero_tcb)(0 := ex_tcb 10 NullTCB (TCB 1), 1 := ex_waiter ty w, 2 := ex_tcb 63 (TCB 1) NullTCB)"
  "OSEventType (OSEvents (ex_os ty w) e) = (if e = 0 then ty else 0)"
  "OSEventCnt (OSEvents (ex_os ty w) e) = 0"
  "OSEventPtr (OSEvents (ex_os ty w) e) = (if e = 0 \<and> ty = OS_EVENT_TYPE_Q then QP 0 else NULL)"
  "OSQTbl (ex_os ty w) = (\<lambda>_. zero_q)(0 := zero_q\<lparr>OSQEnd := 4, OSQSize := 4\<rparr>)"
  by (simp_all add: ex_os_def zero_event_def)

lemma rows8: "replicate 8 (0 :: INT8U) = [0, 0, 0, 0, 0, 0, 0, 0]"
  by (simp add: eval_nat_numeral)

lemma ex_rdy: "rdy (ex_os ty w) = bm_ins 63 (bm_ins 10 (0, replicate 8 0))"
  by (simp add: rdy_def ex_os_def bm_ins_def bm_set_def rows8)

lemma ex_wl: "wl (ex_os ty w) e = (if e = 0 \<and> w then bm_ins 5 (0, replicate 8 0) else (0, replicate 8 0))"
  by (simp add: wl_def ex_os_def bm_ins_def bm_set_def zero_event_def rows8)

lemma ex_lists [simp]:
  "bm_ok (rdy (ex_os ty w))" "bm_mem (rdy (ex_os ty w)) = {10, 63}"
  "bm_ok (wl (ex_os ty w) e)" "bm_mem (wl (ex_os ty w) e) = (if e = 0 \<and> w then {5} else {})"
  by (auto simp: ex_rdy ex_wl bm_ok_ins bm_mem_ins)

lemma ex_waits: "waits_on (ex_os ty w) n = (if n = 5 \<and> w then {0} else {})"
  by (auto simp: waits_on_def)

lemma ex_tcb_fields [simp]:
  "OSTCBPrio (ex_tcb p pv nx) = p" "OSTCBNext (ex_tcb p pv nx) = nx" "OSTCBStat (ex_tcb p pv nx) = 0"
  "OSTCBDly (ex_tcb p pv nx) = 0" "OSTCBEventPtr (ex_tcb p pv nx) = None" "OSTCBFlagNode (ex_tcb p pv nx) = None"
  "OSTCBPrev (ex_tcb p pv nx) = pv" "OSTCBEventMultiPtr (ex_tcb p pv nx) = None" "OSTCBStatPend (ex_tcb p pv nx) = 0"
  by (simp_all add: ex_tcb_def set_prio_xy_def zero_tcb_def Let_def)

lemma ex_waiter_fields [simp]:
  "OSTCBPrio (ex_waiter ty w) = 5" "OSTCBNext (ex_waiter ty w) = TCB 2"
  "OSTCBPrev (ex_waiter ty w) = TCB 0"
  "OSTCBStat (ex_waiter ty w) = (if w then type_stat ty else 0)"
  "OSTCBDly (ex_waiter ty w) = (if w then 0 else 1)"
  "OSTCBEventPtr (ex_waiter ty w) = (if w then Some 0 else None)"
  "OSTCBFlagNode (ex_waiter ty w) = None" "OSTCBEventMultiPtr (ex_waiter ty w) = None"
  "OSTCBStatPend (ex_waiter ty w) = 0"
  by (simp_all add: ex_waiter_def)

lemma ex_xy: "p < 64 \<Longrightarrow> xy_ok (ex_tcb p pv nx)" "xy_ok (ex_waiter ty w)"
  by (simp_all add: xy_ok_def ex_waiter_def ex_tcb_def set_prio_xy_def Let_def word_less_nat_alt)

lemma ex_prio_tbl:
  "OSTCBPrioTbl (ex_os ty w) n = TCB t \<longleftrightarrow> (n, t) \<in> {(10, 0), (5, 1), (63, 2)}"
  by auto

lemma ex_task_at: "task_at (ex_os ty w) n t \<longleftrightarrow> (n, t) \<in> {(10, 0), (5, 1), (63, 2)}"
  unfolding task_at_def ex_prio_tbl by auto

lemma ex_stat: "ty \<in> {OS_EVENT_TYPE_SEM, OS_EVENT_TYPE_MBOX, OS_EVENT_TYPE_Q} \<Longrightarrow>
    type_stat ty AND OS_STAT_PEND_ANY \<noteq> 0 \<and> type_stat ty AND OS_STAT_SUSPEND = 0 \<and>
    type_stat ty AND OS_STAT_MULTI = 0 \<and> type_stat ty AND OS_STAT_PEND_ANY AND NOT (type_stat ty) = 0"
  by (auto simp: type_stat_def)

lemma ex_kernel_inv:
  assumes ty: "ty \<in> {OS_EVENT_TYPE_SEM, OS_EVENT_TYPE_MBOX, OS_EVENT_TYPE_Q}"
  shows "kernel_inv (ex_os ty w)"
proof -
  have "task_ok (n \<in> {10, 63}) (waits_on (ex_os ty w) n) (event_type (ex_os ty w)) (OSTCBTbl (ex_os ty w) t)"
    if "(n, t) \<in> {(10, 0), (5, 1), (63, 2)}" for n t
    using that ty ex_stat [OF ty]
    by (auto simp: task_ok_def ex_waits awaited_def suspended_def pending_def multi_def)
  then show ?thesis
    unfolding kernel_inv_def ex_task_at ex_prio_tbl
    by (auto simp: ex_xy ex_waits split: if_splits)
qed

lemma ex_task_list: "task_list (ex_os ty w) [0, 1, 2]"
proof -
  have "free_tcbs (ex_os ty w) [3]"
    by (auto simp: free_tcbs_def tcb_opt_def tcb_next_def zero_tcb_def)
  then show ?thesis
    unfolding task_list_def ex_task_at ex_prio_tbl by (auto simp: tcb_opt_def tcb_next_def tcb_prev_def)
qed

lemma ex_sys_inv:
  assumes ty: "ty \<in> {OS_EVENT_TYPE_SEM, OS_EVENT_TYPE_MBOX, OS_EVENT_TYPE_Q}"
    and c: "cont_events c = {0}" "\<not> is_multi c"
  shows "sys_inv (ex_conts c w) (ex_os ty w)"
proof -
  have "conts_ok (ex_conts c w) (ex_os ty w)"
    unfolding conts_ok_def ex_task_at using c ex_stat [OF ty]
    by (auto simp: cont_ok_def ex_waits ex_conts_def pending_def multi_def)
  moreover have "event_pool.holds (ex_os ty w) [1]"
    by (simp add: event_pool.holds_def event_next_def event_of_void_def)
  then have "free_events_ok (ex_os ty w)"
    unfolding free_events_ok_def by (intro exI [of _ "[1]"]) simp
  moreover have "cur_ok (ex_os ty w)" by (simp add: cur_ok_def ex_task_at)
  ultimately have "pre_inv (ex_conts c w) (ex_os ty w)"
    using ex_kernel_inv [OF ty] ex_task_list [of ty w] by (auto simp: pre_inv_def)
  then show ?thesis by (simp add: sys_inv_def top_runs_def)
qed

lemmas ex_pre_inv = sys_invD(1) [OF ex_sys_inv]

text \<open>The waiter of event 0, as the hand-over theorems want it.\<close>

lemma ex_top_waiter:
  "bm_mem (wl (ex_os ty True) 0) \<noteq> {}" "5 = Min (bm_mem (wl (ex_os ty True) 0))"
  "task_at (ex_os ty True) 5 1"
  by (simp_all add: ex_task_at)

lemma ex_not_suspended:
  "ty \<in> {OS_EVENT_TYPE_SEM, OS_EVENT_TYPE_MBOX, OS_EVENT_TYPE_Q} \<Longrightarrow> \<not> suspended (OSTCBTbl (ex_os ty w) 1)"
  using ex_stat [of ty] by (simp add: suspended_def)

end
