(* ===== verification/UCOS_Sem.thy ===== *)
theory UCOS_Sem
  imports UCOS_Example
begin

text \<open>
  The counting semaphores of \<open>os_sem.c\<close>: \<open>OSEventCnt\<close> is the count, the wait list the
  tasks that found it zero.  A pend that blocks is two steps: \<open>OSSemPend\<close> up to the scheduler
  call (result \<open>None\<close>), and \<open>OSSemPend_resume\<close>, which the task runs when it is
  scheduled again.  Null pointers are \<open>None\<close>; a service with a wake-up loop is \<open>None\<close> when
  the loop does not return.
\<close>

definition OSSemAccept :: "nat option \<Rightarrow> os \<Rightarrow> os \<times> INT16U" where
  "OSSemAccept pevent s =
     (case pevent of None \<Rightarrow> (s, 0)
      | Some e \<Rightarrow>
          if OSEventType (OSEvents s e) \<noteq> OS_EVENT_TYPE_SEM then (s, 0)
          else let cnt = OSEventCnt (OSEvents s e);
                   s = (if cnt > 0 then upd_event e (\<lambda>v. v\<lparr>OSEventCnt := OSEventCnt v - 1\<rparr>) s else s)
               in (s, cnt))"

definition OSSemCreate :: "INT16U \<Rightarrow> os \<Rightarrow> os \<times> nat option" where
  "OSSemCreate cnt s =
     (if OSIntNesting s > 0 then (s, None)
      else case OS_EventAlloc s of
             (s, None) \<Rightarrow> (s, None)
           | (s, Some e) \<Rightarrow>
               let s = upd_event e (\<lambda>v. v\<lparr>OSEventType := OS_EVENT_TYPE_SEM, OSEventCnt := cnt,
                         OSEventPtr := NULL, OSEventName := Some ''?''\<rparr>) s
               in (OS_EventWaitListInit e s, Some e))"

definition OSSemDel :: "nat option \<Rightarrow> INT8U \<Rightarrow> os \<Rightarrow> (os \<times> nat option \<times> INT8U) option" where
  "OSSemDel pevent opt s =
     (case pevent of None \<Rightarrow> Some (s, None, OS_ERR_PEVENT_NULL)
      | Some e \<Rightarrow>
          if OSEventType (OSEvents s e) \<noteq> OS_EVENT_TYPE_SEM then Some (s, Some e, OS_ERR_EVENT_TYPE)
          else if OSIntNesting s > 0 then Some (s, Some e, OS_ERR_DEL_ISR)
          else let tasks_waiting = (OSEventGrp (OSEvents s e) \<noteq> 0)
               in if opt = OS_DEL_NO_PEND then
                    if \<not> tasks_waiting then Some (OS_EventFree e s, None, OS_ERR_NONE)
                    else Some (s, Some e, OS_ERR_TASK_WAITING)
                  else if opt = OS_DEL_ALWAYS then
                    case OS_EventTaskRdyAll e NULL OS_STAT_SEM OS_STAT_PEND_ABORT (s, 0) of
                      None \<Rightarrow> None
                    | Some (s, _) \<Rightarrow>
                        let s = OS_EventFree e s
                        in Some (if tasks_waiting then OS_Sched s else s, None, OS_ERR_NONE)
                  else Some (s, Some e, OS_ERR_INVALID_OPT))"

definition OSSemPend :: "nat option \<Rightarrow> INT32U \<Rightarrow> os \<Rightarrow> os \<times> INT8U option" where
  "OSSemPend pevent timeout s =
     (case pevent of None \<Rightarrow> (s, Some OS_ERR_PEVENT_NULL)
      | Some e \<Rightarrow>
          if OSEventType (OSEvents s e) \<noteq> OS_EVENT_TYPE_SEM then (s, Some OS_ERR_EVENT_TYPE)
          else if OSIntNesting s > 0 then (s, Some OS_ERR_PEND_ISR)
          else if OSLockNesting s > 0 then (s, Some OS_ERR_PEND_LOCKED)
          else if OSEventCnt (OSEvents s e) > 0
          then (upd_event e (\<lambda>v. v\<lparr>OSEventCnt := OSEventCnt v - 1\<rparr>) s, Some OS_ERR_NONE)
          else (OS_Sched (OS_PendBlock OS_STAT_SEM timeout e s), None))"

definition OSSemPend_resume :: "nat \<Rightarrow> os \<Rightarrow> os \<times> INT8U" where
  "OSSemPend_resume e s =
     (let stat_pend = OSTCBStatPend (OSTCBTbl s (cur s));
          (s, err) =
            (if stat_pend = OS_STAT_PEND_OK then (s, OS_ERR_NONE)
             else if stat_pend = OS_STAT_PEND_ABORT then (s, OS_ERR_PEND_ABORT)
             else (OS_EventTaskRemove (cur s) e s, OS_ERR_TIMEOUT))
      in (OS_PendDone s, err))"

definition OSSemPendAbort :: "nat option \<Rightarrow> INT8U \<Rightarrow> os \<Rightarrow> (os \<times> INT8U \<times> INT8U) option" where
  "OSSemPendAbort pevent opt s =
     (case pevent of None \<Rightarrow> Some (s, 0, OS_ERR_PEVENT_NULL)
      | Some e \<Rightarrow>
          if OSEventType (OSEvents s e) \<noteq> OS_EVENT_TYPE_SEM then Some (s, 0, OS_ERR_EVENT_TYPE)
          else if OSEventGrp (OSEvents s e) \<noteq> 0
          then case (if opt = OS_PEND_OPT_BROADCAST
                     then OS_EventTaskRdyAll e NULL OS_STAT_SEM OS_STAT_PEND_ABORT (s, 0)
                     else Some (fst (OS_EventTaskRdy e NULL OS_STAT_SEM OS_STAT_PEND_ABORT s), 1)) of
                 None \<Rightarrow> None
               | Some (s, nbr_tasks) \<Rightarrow> Some (OS_Sched s, nbr_tasks, OS_ERR_PEND_ABORT)
          else Some (s, 0, OS_ERR_NONE))"

definition OSSemPost :: "nat option \<Rightarrow> os \<Rightarrow> os \<times> INT8U" where
  "OSSemPost pevent s =
     (case pevent of None \<Rightarrow> (s, OS_ERR_PEVENT_NULL)
      | Some e \<Rightarrow>
          if OSEventType (OSEvents s e) \<noteq> OS_EVENT_TYPE_SEM then (s, OS_ERR_EVENT_TYPE)
          else if OSEventGrp (OSEvents s e) \<noteq> 0
          then (OS_Sched (fst (OS_EventTaskRdy e NULL OS_STAT_SEM OS_STAT_PEND_OK s)), OS_ERR_NONE)
          else if OSEventCnt (OSEvents s e) < 65535
          then (upd_event e (\<lambda>v. v\<lparr>OSEventCnt := OSEventCnt v + 1\<rparr>) s, OS_ERR_NONE)
          else (s, OS_ERR_SEM_OVF))"

text \<open>The query services return the error and the structure they fill; \<open>pdata\<close> says that its
  pointer is not null.\<close>

definition OSSemQuery :: "nat option \<Rightarrow> bool \<Rightarrow> os \<Rightarrow> INT8U \<times> os_sem_data option" where
  "OSSemQuery pevent pdata s =
     (case pevent of None \<Rightarrow> (OS_ERR_PEVENT_NULL, None)
      | Some e \<Rightarrow>
          if \<not> pdata then (OS_ERR_PDATA_NULL, None)
          else let v = OSEvents s e
               in if OSEventType v \<noteq> OS_EVENT_TYPE_SEM then (OS_ERR_EVENT_TYPE, None)
                  else (OS_ERR_NONE,
                        Some \<lparr>OSCnt = OSEventCnt v,
                              OSSemEventTbl = map (\<lambda>i. OSEventTbl v ! i) [0..<OS_EVENT_TBL_SIZE],
                              OSSemEventGrp = OSEventGrp v\<rparr>))"

definition OSSemSet :: "nat option \<Rightarrow> INT16U \<Rightarrow> os \<Rightarrow> os \<times> INT8U" where
  "OSSemSet pevent cnt s =
     (case pevent of None \<Rightarrow> (s, OS_ERR_PEVENT_NULL)
      | Some e \<Rightarrow>
          if OSEventType (OSEvents s e) \<noteq> OS_EVENT_TYPE_SEM then (s, OS_ERR_EVENT_TYPE)
          else if OSEventCnt (OSEvents s e) > 0
          then (upd_event e (\<lambda>v. v\<lparr>OSEventCnt := cnt\<rparr>) s, OS_ERR_NONE)
          else if OSEventGrp (OSEvents s e) = 0
          then (upd_event e (\<lambda>v. v\<lparr>OSEventCnt := cnt\<rparr>) s, OS_ERR_NONE)
          else (s, OS_ERR_TASK_WAITING))"

section \<open>The contract of the wait services\<close>

lemma sem_pend_done: "OSSemPend pe timeout s = (s', Some r) \<Longrightarrow> quiet s s'"
  by (auto simp: OSSemPend_def quiet_upd_event split: option.splits if_splits)

lemma sem_pend_blocked:
  "OSSemPend pe timeout s = (s', None) \<Longrightarrow>
     \<exists>e. pe = Some e \<and> event_type s e = OS_EVENT_TYPE_SEM \<and> OSIntNesting s = 0 \<and> OSLockNesting s = 0 \<and>
       s' = OS_Sched (OS_PendBlock OS_STAT_SEM timeout e s)"
  by (auto simp: OSSemPend_def word_gt_0 split: option.splits if_splits)

lemma sem_resume: "fst (OSSemPend_resume e s) = pend_wake e s"
  by (simp add: OSSemPend_resume_def pend_wake_def Let_def split: prod.splits)

lemma sem_post:
  "quiet s (fst (OSSemPost pe s)) \<or>
     (\<exists>e. pe = Some e \<and> event_type s e = OS_EVENT_TYPE_SEM \<and> OSEventGrp (OSEvents s e) \<noteq> 0 \<and>
       fst (OSSemPost pe s) = OS_Sched (fst (OS_EventTaskRdy e NULL OS_STAT_SEM OS_STAT_PEND_OK s)))"
  by (cases pe) (auto simp: OSSemPost_def quiet_upd_event)

interpretation sem: wait_service OS_EVENT_TYPE_SEM OS_STAT_SEM PendSem OSSemPend
  "\<lambda>e s. fst (OSSemPend_resume e s)" "\<lambda>pe (u :: unit) s. fst (OSSemPost pe s)" "\<lambda>u. NULL"
  OSSemPendAbort OSSemDel OS_EventFree
proof
  show "\<exists>m. fst (OSSemPend_resume e s) = upd_tcb (cur s) (\<lambda>p. p\<lparr>OSTCBMsg := m p\<rparr>) (pend_wake e s)" for e s
    by (intro exI [of _ OSTCBMsg]) (simp add: sem_resume)
next
  fix pe opt s
  show "(\<exists>r. OSSemDel pe opt s = Some (s, r)) \<or>
      (\<exists>e. pe = Some e \<and> event_type s e = OS_EVENT_TYPE_SEM \<and> OSEventGrp (OSEvents s e) = 0 \<and>
        OSSemDel pe opt s = Some (OS_EventFree e s, None, OS_ERR_NONE)) \<or>
      (\<exists>e. pe = Some e \<and> event_type s e = OS_EVENT_TYPE_SEM \<and>
        OSSemDel pe opt s = map_option (\<lambda>(s', n). (if OSEventGrp (OSEvents s e) \<noteq> 0
              then OS_Sched (OS_EventFree e s') else OS_EventFree e s', None, OS_ERR_NONE))
          (OS_EventTaskRdyAll e NULL OS_STAT_SEM OS_STAT_PEND_ABORT (s, 0)))"
    by (cases pe) (auto simp: OSSemDel_def Let_def map_option_case split: option.splits)
next
  fix pe opt s
  show "(\<exists>err. OSSemPendAbort pe opt s = Some (s, 0, err)) \<or>
      (\<exists>e. pe = Some e \<and> event_type s e = OS_EVENT_TYPE_SEM \<and> OSEventGrp (OSEvents s e) \<noteq> 0 \<and>
        OSSemPendAbort pe opt s =
          (if opt = OS_PEND_OPT_BROADCAST
           then map_option (\<lambda>(s, n). (OS_Sched s, n, OS_ERR_PEND_ABORT))
                  (OS_EventTaskRdyAll e NULL OS_STAT_SEM OS_STAT_PEND_ABORT (s, 0))
           else Some (OS_Sched (fst (OS_EventTaskRdy e NULL OS_STAT_SEM OS_STAT_PEND_ABORT s)), 1,
                      OS_ERR_PEND_ABORT)))"
    by (cases pe) (auto simp: OSSemPendAbort_def map_option_case split: option.splits)
next
  show "quiet s (fst (OSSemPost pe s)) \<or>
     (\<exists>e. pe = Some e \<and> event_type s e = OS_EVENT_TYPE_SEM \<and> OSEventGrp (OSEvents s e) \<noteq> 0 \<and>
       fst (OSSemPost pe s) = OS_Sched (fst (OS_EventTaskRdy e NULL OS_STAT_SEM OS_STAT_PEND_OK s)))"
    for s pe by (rule sem_post)
qed (auto simp: type_stat_def sem_pend_done dest: sem_pend_blocked intro: quiet_refl)

section \<open>The semaphore as a counter and a set of waiters\<close>

text \<open>
  The abstract semaphore: the count, and the priorities of the waiting tasks.  A post hands its
  unit to the most urgent waiter, or adds it to the count up to 65535.
\<close>

type_synonym asem = "nat \<times> nat set"

definition sem_abs :: "os \<Rightarrow> nat \<Rightarrow> asem" where
  "sem_abs s e = (unat (OSEventCnt (OSEvents s e)), bm_mem (wl s e))"

definition asem_post :: "asem \<Rightarrow> asem" where
  "asem_post a = (let (c, W) = a in
     if W \<noteq> {} then (c, W - {Min W}) else if c < 65535 then (c + 1, W) else (c, W))"

definition asem_pend :: "nat \<Rightarrow> asem \<Rightarrow> asem" where
  "asem_pend n a = (let (c, W) = a in if c > 0 then (c - 1, W) else (c, insert n W))"

definition asem_accept :: "asem \<Rightarrow> asem" where
  "asem_accept a = (let (c, W) = a in (c - 1, W))"

definition asem_set :: "nat \<Rightarrow> asem \<Rightarrow> asem" where
  "asem_set m a = (let (c, W) = a in if c > 0 \<or> W = {} then (m, W) else (c, W))"

lemma unat_cnt_pos: "unat (c :: INT16U) > 0 \<longleftrightarrow> c > 0"
  by (simp add: word_gt_0 unat_gt_0)

lemma unat_cnt_dec: "(c :: INT16U) > 0 \<Longrightarrow> unat (c - 1) = unat c - 1"
  by (simp add: unat_minus_one word_gt_0)

lemma unat_cnt_inc: "(c :: INT16U) < 65535 \<Longrightarrow> unat (c + 1) = unat c + 1"
  by (simp add: unat_word_ariths word_less_nat_alt)

lemma cnt_less_iff: "(c :: INT16U) < 65535 \<longleftrightarrow> unat c < 65535"
  by (simp add: word_less_nat_alt)

lemma sem_abs_Sched [simp]: "sem_abs (OS_Sched s) e = sem_abs s e"
  by (simp add: sem_abs_def)

lemma sem_abs_Rdy:
  assumes inv: "kernel_inv s" and ne: "bm_mem (wl s e) \<noteq> {}" and m3: "\<not> bit msk 3"
  shows "sem_abs (fst (OS_EventTaskRdy e pmsg msk ps s)) e =
    (fst (sem_abs s e), snd (sem_abs s e) - {Min (snd (sem_abs s e))})"
  using EventTaskRdy_shrinks [OF inv ne m3] only_lists_event(2) [OF EventTaskRdy_only_lists [OF inv ne m3]]
  by (simp add: sem_abs_def)

text \<open>C6: \<open>OSSemPost\<close> implements the post of an abstract counting semaphore (a count and
  the set of waiting priorities): it releases the waiter of highest priority when there is one and
  adds one to the count otherwise, up to 65535; it reports an overflow exactly at that bound.\<close>

theorem OSSemPost_refines:
  assumes inv: "kernel_inv s" and ty: "event_type s e = OS_EVENT_TYPE_SEM"
  shows "sem_abs (fst (OSSemPost (Some e) s)) e = asem_post (sem_abs s e) \<and>
    snd (OSSemPost (Some e) s) =
      (if snd (sem_abs s e) = {} \<and> fst (sem_abs s e) = 65535 then OS_ERR_SEM_OVF else OS_ERR_NONE)"
proof (cases "bm_mem (wl s e) = {}")
  case False
  then have "OSEventGrp (OSEvents s e) \<noteq> 0" using grp_nonzero_iff [OF inv] by blast
  then show ?thesis
    using ty False sem_abs_Rdy [OF inv False, of OS_STAT_SEM NULL OS_STAT_PEND_OK]
    by (simp add: OSSemPost_def asem_post_def Let_def split_beta) (simp add: sem_abs_def)
next
  case True
  then have g: "OSEventGrp (OSEvents s e) = 0" using grp_nonzero_iff [OF inv, of e] by blast
  have "unat (OSEventCnt (OSEvents s e)) < 65536"
    using unsigned_less [of "OSEventCnt (OSEvents s e)", where ?'a = nat] by simp
  then have "OSEventCnt (OSEvents s e) < 65535 \<longleftrightarrow> unat (OSEventCnt (OSEvents s e)) \<noteq> 65535"
    unfolding cnt_less_iff by linarith
  then show ?thesis
    using ty g True
    by (simp add: OSSemPost_def asem_post_def sem_abs_def upd_event_def wl_def unat_cnt_inc cnt_less_iff)
qed

text \<open>C7: \<open>OSSemPend\<close> from a task implements the abstract pend: it takes a unit when there is
  one, and otherwise adds the caller's priority to the waiting set; the call blocks exactly when the
  count is zero.\<close>

theorem OSSemPend_refines:
  assumes inv: "pre_inv k s" and ty: "event_type s e = OS_EVENT_TYPE_SEM"
    and task: "OSIntNesting s = 0" "OSLockNesting s = 0"
  shows "sem_abs (fst (OSSemPend (Some e) timeout s)) e = asem_pend (unat (OSPrioCur s)) (sem_abs s e) \<and>
    (snd (OSSemPend (Some e) timeout s) = None \<longleftrightarrow> fst (sem_abs s e) = 0)"
proof (cases "OSEventCnt (OSEvents s e) > 0")
  case True
  with ty task show ?thesis
    by (simp add: OSSemPend_def asem_pend_def sem_abs_def upd_event_def wl_def unat_cnt_dec unat_cnt_pos)
next
  case False
  note i = pre_invD [OF inv]
  have xy: "xy_ok (OSTCBTbl s (cur s))" and pn: "prio_of (OSTCBTbl s (cur s)) = unat (OSPrioCur s)"
    and n64: "unat (OSPrioCur s) < 64"
    using task_at_xy [OF i(1,6)] i(6) by (simp_all add: task_at_def)
  note eff = PendBlock_effect [OF xy, of OS_STAT_SEM timeout e, unfolded pn]
  have "OSEventCnt (OSEvents s e) = 0" using False by (simp add: word_gt_0)
  then show ?thesis
    using ty task False n64 kernel_invD(2) [OF i(1)] only_lists_event(2) [OF eff(4)]
    by (simp add: OSSemPend_def asem_pend_def) (simp add: sem_abs_def eff(2) bm_mem_ins)
qed

text \<open>\<open>OSSemAccept\<close> takes a unit without blocking, if there is one, and returns the count
  before; \<open>OSSemSet\<close> sets the count unless tasks wait on a zero count.\<close>

theorem OSSemAccept_Set_refine:
  assumes inv: "kernel_inv s" and ty: "event_type s e = OS_EVENT_TYPE_SEM"
  shows "sem_abs (fst (OSSemAccept (Some e) s)) e = asem_accept (sem_abs s e) \<and>
    unat (snd (OSSemAccept (Some e) s)) = fst (sem_abs s e) \<and>
    sem_abs (fst (OSSemSet (Some e) c s)) e = asem_set (unat c) (sem_abs s e)"
  using ty grp_nonzero_iff [OF inv, of e]
  by (auto simp: OSSemAccept_def OSSemSet_def asem_accept_def asem_set_def sem_abs_def upd_event_def
      wl_def unat_cnt_dec unat_cnt_pos word_gt_0 unat_gt_0 Let_def)

text \<open>A unit is never available while a task waits for one.\<close>

definition sem_ok :: "asem \<Rightarrow> bool" where "sem_ok a \<longleftrightarrow> fst a = 0 \<or> snd a = {}"

lemma asem_keeps_ok:
  "sem_ok a \<Longrightarrow> sem_ok (asem_post a)" "sem_ok a \<Longrightarrow> sem_ok (asem_pend n a)"
  "sem_ok a \<Longrightarrow> sem_ok (asem_accept a)" "sem_ok a \<Longrightarrow> sem_ok (asem_set m a)"
  by (auto simp: sem_ok_def asem_post_def asem_pend_def asem_accept_def asem_set_def Let_def
      split: prod.splits if_splits)

section \<open>Creation and hand-over\<close>

theorem OSSemCreate_inv:
  assumes inv: "sys_inv k s"
  shows "sys_inv k (fst (OSSemCreate cnt s))"
proof (cases "OSIntNesting s > 0 \<or> OSEventFreeList s = None")
  case True
  with inv show ?thesis by (auto simp: OSSemCreate_def OS_EventAlloc_def)
next
  case False
  then obtain e where e: "OSEventFreeList s = Some e" by blast
  have "fst (OSSemCreate cnt s) = OS_EventWaitListInit e (upd_event e (\<lambda>v. v\<lparr>OSEventType := OS_EVENT_TYPE_SEM,
      OSEventCnt := cnt, OSEventPtr := NULL, OSEventName := Some ''?''\<rparr>) (fst (OS_EventAlloc s)))"
    using False e by (simp add: OSSemCreate_def OS_EventAlloc_def Let_def)
  then show ?thesis using EventAlloc_sys_inv [OF inv e] by simp
qed

text \<open>
  A post to a semaphore with waiters gives the unit to the one of highest priority, whose pend
  then returns without error; and at task level it preempts a poster of lower priority.
\<close>

text \<open>A post to a semaphore with waiters succeeds, takes exactly the waiter of highest priority
  off the wait list, makes it ready unless it is suspended, and its pend, when it runs again with that
  status, returns without error.\<close>

theorem OSSemPost_hands_over:
  assumes inv: "kernel_inv s" and ty: "event_type s e = OS_EVENT_TYPE_SEM"
    and n: "bm_mem (wl s e) \<noteq> {}" "n = Min (bm_mem (wl s e))" and at: "task_at s n t"
  shows "snd (OSSemPost (Some e) s) = OS_ERR_NONE \<and>
    bm_mem (wl (fst (OSSemPost (Some e) s)) e) = bm_mem (wl s e) - {n} \<and>
    (\<not> suspended (OSTCBTbl s t) \<longrightarrow> n \<in> bm_mem (rdy (fst (OSSemPost (Some e) s)))) \<and>
    (\<forall>u. cur u = t \<and> OSTCBStatPend (OSTCBTbl u t) = OSTCBStatPend (OSTCBTbl (fst (OSSemPost (Some e) s)) t) \<longrightarrow>
       snd (OSSemPend_resume e u) = OS_ERR_NONE)"
proof -
  have m3: "\<not> bit (OS_STAT_SEM :: INT8U) 3" by simp
  note h = hand_over [OF inv n(1) at [unfolded n(2)] m3, of NULL OS_STAT_PEND_OK]
  have "OSEventGrp (OSEvents s e) \<noteq> 0" using grp_nonzero_iff [OF inv] n(1) by blast
  then have p: "OSSemPost (Some e) s =
      (OS_Sched (fst (OS_EventTaskRdy e NULL OS_STAT_SEM OS_STAT_PEND_OK s)), OS_ERR_NONE)"
    using ty by (simp add: OSSemPost_def)
  show ?thesis by (simp add: p h n(2)) (auto simp: OSSemPend_resume_def Let_def h)
qed

text \<open>A post from a task, with the scheduler unlocked, to a semaphore whose first waiter has a
  higher priority than the poster and is not suspended switches to that waiter before it returns.\<close>

theorem OSSemPost_preempts:
  assumes inv: "sys_inv k s" and ty: "event_type s e = OS_EVENT_TYPE_SEM"
    and task: "OSIntNesting s = 0" "OSLockNesting s = 0"
    and n: "bm_mem (wl s e) \<noteq> {}" "n = Min (bm_mem (wl s e))" and at: "task_at s n t"
    and up: "n < unat (OSPrioCur s)" "\<not> suspended (OSTCBTbl s t)"
  shows "unat (OSPrioCur (fst (OSSemPost (Some e) s))) = n \<and> OSTCBCur (fst (OSSemPost (Some e) s)) = TCB t"
proof -
  have m3: "\<not> bit (OS_STAT_SEM :: INT8U) 3" by simp
  note i = pre_invD [OF sys_invD(1) [OF inv]]
  note h = hand_over [OF i(1) n(1) at [unfolded n(2)] m3, of NULL OS_STAT_PEND_OK]
  have "OSEventGrp (OSEvents s e) \<noteq> 0" using grp_nonzero_iff [OF i(1)] n(1) by blast
  then have p: "fst (OSSemPost (Some e) s) = OS_Sched (fst (OS_EventTaskRdy e NULL OS_STAT_SEM OS_STAT_PEND_OK s))"
    using ty by (simp add: OSSemPost_def)
  let ?s = "fst (OSSemPost (Some e) s)"
  have inv': "sys_inv k ?s" by (rule sem.post_inv [OF inv])
  have r: "bm_mem (rdy ?s) = insert n (bm_mem (rdy s))" using h(5) up by (simp add: p n(2))
  have ne: "bm_mem (rdy s) \<noteq> {}" using kernel_invD(7) [OF i(1)] by blast
  have "unat (OSPrioCur s) = Min (bm_mem (rdy s))" using sys_invD(2) [OF inv] task by (simp add: top_runs_def)
  then have "Min (bm_mem (rdy ?s)) = n" using up(1) ne by (simp add: r)
  then have c: "unat (OSPrioCur ?s) = n"
    using sys_invD(2) [OF inv'] task h(6,7) by (simp add: top_runs_def p)
  note i' = pre_invD [OF sys_invD(1) [OF inv']]
  have "OSTCBPrioTbl ?s = OSTCBPrioTbl s"
    using only_lists_global(1) [OF EventTaskRdy_only_lists [OF i(1) n(1) m3]] by (simp add: p)
  then have "OSTCBCur ?s = TCB t" using i'(6,7) at c by (simp add: task_at_def)
  with c show ?thesis by simp
qed

section \<open>The theorems on a concrete state\<close>

lemma ex_sem_abs: "sem_abs (ex_os ty w) 0 = (0, if w then {5} else {})"
  by (simp add: sem_abs_def)

lemma OSSemPost_refines_witness:
  "sem_abs (fst (OSSemPost (Some 0) (ex_os OS_EVENT_TYPE_SEM True))) 0 = (0, {}) \<and>
   sem_abs (fst (OSSemPost (Some 0) (ex_os OS_EVENT_TYPE_SEM False))) 0 = (1, {})"
  using OSSemPost_refines [OF ex_kernel_inv, of OS_EVENT_TYPE_SEM True 0]
    OSSemPost_refines [OF ex_kernel_inv, of OS_EVENT_TYPE_SEM False 0]
  by (simp add: ex_sem_abs asem_post_def)

lemma OSSemPend_refines_witness:
  "sem_abs (fst (OSSemPend (Some 0) 3 (ex_os OS_EVENT_TYPE_SEM True))) 0 = (0, {5, 10}) \<and>
   snd (OSSemPend (Some 0) 3 (ex_os OS_EVENT_TYPE_SEM True)) = None"
  using OSSemPend_refines [OF ex_pre_inv, of OS_EVENT_TYPE_SEM "PendSem 0" True 0 3]
  by (simp add: ex_sem_abs asem_pend_def insert_commute)

lemma OSSemAccept_Set_refine_witness:
  "sem_abs (fst (OSSemAccept (Some 0) (ex_os OS_EVENT_TYPE_SEM True))) 0 = (0, {5}) \<and>
   sem_abs (fst (OSSemSet (Some 0) 9 (ex_os OS_EVENT_TYPE_SEM False))) 0 = (9, {})"
  using OSSemAccept_Set_refine [OF ex_kernel_inv, of OS_EVENT_TYPE_SEM True 0 9]
    OSSemAccept_Set_refine [OF ex_kernel_inv, of OS_EVENT_TYPE_SEM False 0 9]
  by (simp add: ex_sem_abs asem_accept_def asem_set_def)

lemma OSSemPost_hands_over_witness:
  "5 \<in> bm_mem (rdy (fst (OSSemPost (Some 0) (ex_os OS_EVENT_TYPE_SEM True))))"
  using OSSemPost_hands_over [OF ex_kernel_inv _ ex_top_waiter] ex_not_suspended [of OS_EVENT_TYPE_SEM True]
  by simp

lemma OSSemPost_preempts_witness:
  "unat (OSPrioCur (fst (OSSemPost (Some 0) (ex_os OS_EVENT_TYPE_SEM True)))) = 5 \<and>
   OSTCBCur (fst (OSSemPost (Some 0) (ex_os OS_EVENT_TYPE_SEM True))) = TCB 1"
  by (rule OSSemPost_preempts [OF ex_sys_inv [where c = "PendSem 0"] _ _ _ ex_top_waiter])
    (simp_all add: ex_not_suspended [of OS_EVENT_TYPE_SEM True, simplified One_nat_def] del: ex_fields(10))

end
