(* ===== verification/UCOS_Time.thy ===== *)
theory UCOS_Time
  imports UCOS_Sem
begin

text \<open>
  The time services of \<open>os_time.c\<close> and the clock tick: \<open>OSTimeTick\<close> of \<open>os_core.c\<close>, the
  tick hook and the interrupt handler of the ARMv7-M port.  \<open>App_TimeTickHook\<close>, which the
  hook calls first, is application code that leaves the kernel's state alone.
\<close>

section \<open>The delay services\<close>

definition OSTimeDly :: "INT32U \<Rightarrow> os \<Rightarrow> os" where
  "OSTimeDly ticks s =
     (if OSIntNesting s > 0 then s
      else if OSLockNesting s > 0 then s
      else if ticks > 0
      then let s = OS_RdyListRemove (cur s) s;
               s = upd_tcb (cur s) (\<lambda>p. p\<lparr>OSTCBDly := ticks\<rparr>) s
           in OS_Sched s
      else s)"

text \<open>The argument of the delay: hours, minutes, seconds and milliseconds in ticks, in 32 bits.\<close>

definition hmsm_ticks :: "INT8U \<Rightarrow> INT8U \<Rightarrow> INT8U \<Rightarrow> INT16U \<Rightarrow> INT32U" where
  "hmsm_ticks hours minutes seconds ms =
     (ucast hours * 3600 + ucast minutes * 60 + ucast seconds) * OS_TICKS_PER_SEC
     + OS_TICKS_PER_SEC * (ucast ms + 500 div OS_TICKS_PER_SEC) div 1000"

definition OSTimeDlyHMSM :: "INT8U \<Rightarrow> INT8U \<Rightarrow> INT8U \<Rightarrow> INT16U \<Rightarrow> os \<Rightarrow> os \<times> INT8U" where
  "OSTimeDlyHMSM hours minutes seconds ms s =
     (if OSIntNesting s > 0 then (s, OS_ERR_TIME_DLY_ISR)
      else if OSLockNesting s > 0 then (s, OS_ERR_SCHED_LOCKED)
      else if hours = 0 \<and> minutes = 0 \<and> seconds = 0 \<and> ms = 0 then (s, OS_ERR_TIME_ZERO_DLY)
      else if minutes > 59 then (s, OS_ERR_TIME_INVALID_MINUTES)
      else if seconds > 59 then (s, OS_ERR_TIME_INVALID_SECONDS)
      else if ms > 999 then (s, OS_ERR_TIME_INVALID_MS)
      else (OSTimeDly (hmsm_ticks hours minutes seconds ms) s, OS_ERR_NONE))"

text \<open>
  What a delay or a timeout does to a task when it ends: a pending task gets the timeout status,
  and the task becomes ready unless it is suspended.  \<open>OSTimeDlyResume\<close> and the tick share it.
\<close>

definition OS_DlyExpire :: "nat \<Rightarrow> os \<Rightarrow> os" where
  "OS_DlyExpire t s =
     (let s = (if OSTCBStat (OSTCBTbl s t) AND OS_STAT_PEND_ANY \<noteq> OS_STAT_RDY
               then upd_tcb t (\<lambda>p. p\<lparr>OSTCBStat := OSTCBStat p AND NOT OS_STAT_PEND_ANY,
                                     OSTCBStatPend := OS_STAT_PEND_TO\<rparr>) s
               else upd_tcb t (\<lambda>p. p\<lparr>OSTCBStatPend := OS_STAT_PEND_OK\<rparr>) s)
      in if OSTCBStat (OSTCBTbl s t) AND OS_STAT_SUSPEND = OS_STAT_RDY then OS_RdyListInsert t s else s)"

definition OSTimeDlyResume :: "INT8U \<Rightarrow> os \<Rightarrow> os \<times> INT8U" where
  "OSTimeDlyResume prio s =
     (if prio \<ge> OS_LOWEST_PRIO then (s, OS_ERR_PRIO_INVALID)
      else case OSTCBPrioTbl s (unat prio) of
             NullTCB \<Rightarrow> (s, OS_ERR_TASK_NOT_EXIST)
           | OS_TCB_RESERVED \<Rightarrow> (s, OS_ERR_TASK_NOT_EXIST)
           | TCB t \<Rightarrow>
               if OSTCBDly (OSTCBTbl s t) = 0 then (s, OS_ERR_TIME_NOT_DLY)
               else let s = OS_DlyExpire t (upd_tcb t (\<lambda>p. p\<lparr>OSTCBDly := 0\<rparr>) s)
                    in (if OSTCBStat (OSTCBTbl s t) AND OS_STAT_SUSPEND = OS_STAT_RDY
                        then OS_Sched s else s, OS_ERR_NONE))"

definition OSTimeGet :: "os \<Rightarrow> INT32U" where "OSTimeGet s = OSTime s"

definition OSTimeSet :: "INT32U \<Rightarrow> os \<Rightarrow> os" where "OSTimeSet ticks s = s\<lparr>OSTime := ticks\<rparr>"

section \<open>The clock tick\<close>

text \<open>
  The tick signals the timer task through its semaphore once in
  \<open>OS_TICKS_PER_SEC / OS_TMR_CFG_TICKS_PER_SEC\<close> ticks.
\<close>

definition OSTmrSignal :: "os \<Rightarrow> os \<times> INT8U" where
  "OSTmrSignal s = OSSemPost (OSTmrSemSignal s) s"

definition OSTimeTickHook :: "os \<Rightarrow> os" where
  "OSTimeTickHook s =
     (let s = s\<lparr>OSTmrCtr := OSTmrCtr s + 1\<rparr>
      in if ucast (OSTmrCtr s) \<ge> OS_TICKS_PER_SEC div OS_TMR_CFG_TICKS_PER_SEC
         then fst (OSTmrSignal (s\<lparr>OSTmrCtr := 0\<rparr>))
         else s)"

text \<open>The body of the loop over the task list, for one task.\<close>

definition OS_TickTask :: "nat \<Rightarrow> os \<Rightarrow> os" where
  "OS_TickTask t s =
     (if OSTCBDly (OSTCBTbl s t) \<noteq> 0
      then let s = upd_tcb t (\<lambda>p. p\<lparr>OSTCBDly := OSTCBDly p - 1\<rparr>) s
           in if OSTCBDly (OSTCBTbl s t) = 0 then OS_DlyExpire t s else s
      else s)"

text \<open>
  The loop follows \<open>OSTCBNext\<close> until the idle task; \<open>None\<close> when it does not get there.
\<close>

definition OS_TickList :: "tcb_ptr \<Rightarrow> os \<Rightarrow> os option" where
  "OS_TickList p s =
     map_option fst
       (while_option (\<lambda>(s, ptcb). OSTCBPrio (OSTCBTbl s (tcb_ix ptcb)) \<noteq> OS_TASK_IDLE_PRIO)
          (\<lambda>(s, ptcb). let s = OS_TickTask (tcb_ix ptcb) s
                       in (s, OSTCBNext (OSTCBTbl s (tcb_ix ptcb)))) (s, p))"

definition OS_TickStep :: "os \<Rightarrow> os \<times> bool" where
  "OS_TickStep s =
     (if OSTickStepState s = OS_TICK_STEP_DIS then (s, True)
      else if OSTickStepState s = OS_TICK_STEP_WAIT then (s, False)
      else if OSTickStepState s = OS_TICK_STEP_ONCE then (s\<lparr>OSTickStepState := OS_TICK_STEP_WAIT\<rparr>, True)
      else (s\<lparr>OSTickStepState := OS_TICK_STEP_DIS\<rparr>, True))"

definition OSTimeTick :: "os \<Rightarrow> os option" where
  "OSTimeTick s =
     (let s = OSTimeTickHook s;
          s = s\<lparr>OSTime := OSTime s + 1\<rparr>
      in if OSRunning s
         then let (s, step) = OS_TickStep s
              in if \<not> step then Some s else OS_TickList (OSTCBList s) s
         else Some s)"

definition SysTick_Handler :: "os \<Rightarrow> os option" where
  "SysTick_Handler s =
     (case OSTimeTick (OSIntEnter s) of None \<Rightarrow> None | Some s \<Rightarrow> Some (OSIntExit s))"

section \<open>Interrupt nesting and the scheduler lock\<close>

lemma IntEnter_pre_inv:
  assumes inv: "pre_inv k s"
  shows "pre_inv k (OSIntEnter s)" and "OSIntNesting (OSIntEnter s) \<noteq> 0"
proof -
  note i = pre_invD [OF inv]
  show "pre_inv k (OSIntEnter s)"
    by (rule pre_inv_counters [OF inv]) (use i(5) in \<open>auto simp: OSIntEnter_def rdy_def split: if_splits\<close>)
  show "OSIntNesting (OSIntEnter s) \<noteq> 0" using i(9) by (auto simp: OSIntEnter_def inc8_nonzero)
qed

lemma IntExit_sys_inv:
  assumes inv: "pre_inv k s"
  shows "sys_inv k (OSIntExit s)"
proof -
  note i = pre_invD [OF inv]
  define s1 where "s1 = (if OSIntNesting s > 0 then s\<lparr>OSIntNesting := OSIntNesting s - 1\<rparr> else s)"
  have inv1: "pre_inv k s1"
    by (rule pre_inv_counters [OF inv]) (use i(5) in \<open>auto simp: s1_def rdy_def split: if_splits\<close>)
  have e: "OSIntExit s = OS_Sched s1"
    using i(9) by (simp add: OSIntExit_def s1_def OS_Sched_def Let_def)
  show ?thesis unfolding e by (rule Sched_sys_inv [OF inv1])
qed

lemma SchedLock_sys_inv:
  assumes inv: "sys_inv k s" and none: "k (cur s) = None"
  shows "sys_inv k (OSSchedLock s)"
proof -
  have "pre_inv k (OSSchedLock s)"
    by (rule pre_inv_counters [OF sys_invD(1) [OF inv]]) (use none in \<open>simp_all add: OSSchedLock_def rdy_def\<close>)
  moreover have "top_runs (OSSchedLock s)"
    using sys_invD(2) [OF inv] by (auto simp: OSSchedLock_def top_runs_def inc8_nonzero rdy_def)
  ultimately show ?thesis by (simp add: sys_inv_def)
qed

lemma SchedUnlock_sys_inv:
  assumes inv: "sys_inv k s"
  shows "sys_inv k (OSSchedUnlock s)"
proof -
  note i = pre_invD [OF sys_invD(1) [OF inv]]
  show ?thesis
  proof (cases "OSIntNesting s = 0 \<and> OSLockNesting s > 0")
    case True
    let ?s = "s\<lparr>OSLockNesting := OSLockNesting s - 1\<rparr>"
    have "k (cur s) = None" using i(5) True by auto
    then have p: "pre_inv k ?s"
      by (intro pre_inv_counters [OF sys_invD(1) [OF inv]]) (simp_all add: rdy_def)
    have "OSSchedUnlock s = (if OSLockNesting ?s = 0 then OS_Sched ?s else ?s)"
      using True i(9) by (simp add: OSSchedUnlock_def Let_def)
    then show ?thesis using Sched_sys_inv [OF p] p by (auto simp: sys_inv_def top_runs_def)
  next
    case False
    then have "OSSchedUnlock s = s" by (auto simp: OSSchedUnlock_def)
    with inv show ?thesis by simp
  qed
qed

section \<open>Delays\<close>

lemma TimeDly_sys_inv:
  assumes inv: "sys_inv k s" and none: "k (cur s) = None" and idle: "unat (OSPrioCur s) \<noteq> 63"
  shows "sys_inv k (OSTimeDly ticks s)"
proof (cases "OSIntNesting s = 0 \<and> OSLockNesting s = 0 \<and> ticks > 0")
  case False
  then have "OSTimeDly ticks s = s" by (auto simp: OSTimeDly_def word_gt_0)
  with inv show ?thesis by simp
next
  case True
  let ?n = "unat (OSPrioCur s)" and ?t = "cur s" and ?p = "OSTCBTbl s (cur s)"
  define s1 where "s1 = upd_tcb ?t (\<lambda>p. p\<lparr>OSTCBDly := ticks\<rparr>) (OS_RdyListRemove ?t s)"
  note i = pre_invD [OF sys_invD(1) [OF inv]]
  have xy: "xy_ok ?p" and pn: "prio_of ?p = ?n" and n64: "?n < 64"
    using task_at_xy [OF i(1,6)] i(6) by (simp_all add: task_at_def)
  note e = RdyListRemove_effect [OF xy, unfolded pn]
  note okr = kernel_invD(1) [OF i(1)]
  have tcb: "OSTCBTbl s1 ?t = ?p\<lparr>OSTCBDly := ticks\<rparr>" by (simp add: s1_def e)
  have w: "waits_on s1 m = waits_on s m" for m by (simp add: waits_on_def s1_def e)
  have co: "cont_ok None (waits_on s ?n) ?p" using i(8) [OF i(6)] none by simp
  have o: "only_lists s s1" unfolding s1_def by (rule only_lists_trans [OF e(5)]) simp
  have tch: "touches ?n ?t s s1"
    using okr kernel_invD(2) [OF i(1)] n64 only_lists_kernel [OF o]
    by (simp add: touches_def s1_def e bm_ok_del bm_mem_del tcb_coords_def)
  have "pre_inv k s1"
  proof (rule pre_inv_touches [OF sys_invD(1) [OF inv] i(6) tch])
    have st: "pending (?p\<lparr>OSTCBDly := ticks\<rparr>) = pending ?p" "multi (?p\<lparr>OSTCBDly := ticks\<rparr>) = multi ?p"
      by (simp_all add: pending_def multi_def)
    have r: "?n \<notin> bm_mem (rdy s1)" using okr n64 by (simp add: s1_def e bm_mem_del)
    show "task_ok (?n \<in> bm_mem (rdy s1)) (waits_on s1 ?n) (event_type s1) (OSTCBTbl s1 ?t)"
      unfolding w tcb using co r True
      by (simp add: task_ok_def cont_ok_def st word_gt_0) (simp add: awaited_def)
    show "cont_ok (k ?t) (waits_on s1 ?n) (OSTCBTbl s1 ?t)"
      unfolding w tcb none using co by (simp add: cont_ok_def st)
  qed (use idle none in simp_all)
  moreover have "OSTimeDly ticks s = OS_Sched s1"
    using True by (simp add: OSTimeDly_def s1_def only_lists_global(4) [OF e(5)])
  ultimately show ?thesis by (simp add: Sched_sys_inv)
qed

text \<open>The end of a delay or of a timeout.\<close>

lemma DlyExpire_effect:
  assumes xy: "xy_ok (OSTCBTbl s t)"
  shows "rdy (OS_DlyExpire t s) =
      (if suspended (OSTCBTbl s t) then rdy s else bm_ins (prio_of (OSTCBTbl s t)) (rdy s))"
    and "wl (OS_DlyExpire t s) e = wl s e"
    and "OSTCBTbl (OS_DlyExpire t s) = (OSTCBTbl s)(t := (OSTCBTbl s t)\<lparr>
           OSTCBStat := OSTCBStat (OSTCBTbl s t) AND NOT OS_STAT_PEND_ANY,
           OSTCBStatPend := (if pending (OSTCBTbl s t) then OS_STAT_PEND_TO else OS_STAT_PEND_OK)\<rparr>)"
    and "only_lists s (OS_DlyExpire t s)"
proof -
  let ?p = "OSTCBTbl s t"
  let ?q = "?p\<lparr>OSTCBStat := OSTCBStat ?p AND NOT OS_STAT_PEND_ANY,
    OSTCBStatPend := (if pending ?p then OS_STAT_PEND_TO else OS_STAT_PEND_OK)\<rparr>"
  define s1 where "s1 = (if OSTCBStat ?p AND OS_STAT_PEND_ANY \<noteq> OS_STAT_RDY
               then upd_tcb t (\<lambda>p. p\<lparr>OSTCBStat := OSTCBStat p AND NOT OS_STAT_PEND_ANY,
                                     OSTCBStatPend := OS_STAT_PEND_TO\<rparr>) s
               else upd_tcb t (\<lambda>p. p\<lparr>OSTCBStatPend := OS_STAT_PEND_OK\<rparr>) s)"
  have np: "OSTCBStat ?p AND NOT OS_STAT_PEND_ANY = OSTCBStat ?p" if "\<not> pending ?p"
    using that by (intro byte_and_not) (simp add: pending_def)
  have s1: "s1 = upd_tcb t (\<lambda>p. ?q) s"
    using np by (auto simp: s1_def pending_def upd_tcb_def)
  have xy1: "xy_ok (OSTCBTbl s1 t)" using xy by (simp add: s1 xy_ok_def)
  have su: "OSTCBStat (OSTCBTbl s1 t) AND OS_STAT_SUSPEND = OS_STAT_RDY \<longleftrightarrow> \<not> suspended ?p"
    by (simp add: s1 suspended_def and.assoc)
  have d: "OS_DlyExpire t s = (if suspended ?p then s1 else OS_RdyListInsert t s1)"
    using su by (simp add: OS_DlyExpire_def s1_def [symmetric] Let_def)
  note r = RdyListInsert_effect [OF xy1]
  show "rdy (OS_DlyExpire t s) = (if suspended ?p then rdy s else bm_ins (prio_of ?p) (rdy s))"
    "wl (OS_DlyExpire t s) e = wl s e" "OSTCBTbl (OS_DlyExpire t s) = (OSTCBTbl s)(t := ?q)"
    by (simp_all add: d r) (simp_all add: s1)
  have "only_lists s s1" by (simp add: s1)
  then show "only_lists s (OS_DlyExpire t s)" using only_lists_trans [OF _ r(5)] by (simp add: d)
qed

lemma expire_pre_inv:
  assumes inv: "pre_inv k s" and at: "task_at s n t" and dly: "OSTCBDly (OSTCBTbl s t) \<noteq> 0"
    and s1: "OSTCBTbl s1 = (OSTCBTbl s)(t := (OSTCBTbl s t)\<lparr>OSTCBDly := 0\<rparr>)" "rdy s1 = rdy s" "only_lists s s1"
      "\<And>e. wl s1 e = wl s e"
  shows "pre_inv k (OS_DlyExpire t s1)"
proof -
  let ?p = "OSTCBTbl s t" and ?q = "OSTCBTbl (OS_DlyExpire t s1) t" and ?s = "OS_DlyExpire t s1"
  note i = pre_invD [OF inv]
  have xy: "xy_ok ?p" and pn: "prio_of ?p = n" and n64: "n < 64"
    using task_at_xy [OF i(1) at] at by (simp_all add: task_at_def)
  have st: "suspended (?p\<lparr>OSTCBDly := 0\<rparr>) = suspended ?p" "pending (?p\<lparr>OSTCBDly := 0\<rparr>) = pending ?p"
    by (simp_all add: suspended_def pending_def)
  have "xy_ok (OSTCBTbl s1 t)" using xy by (simp add: s1 xy_ok_def)
  note e = DlyExpire_effect [OF this]
  have q: "?q = ?p\<lparr>OSTCBDly := 0, OSTCBStat := OSTCBStat ?p AND NOT OS_STAT_PEND_ANY,
      OSTCBStatPend := (if pending ?p then OS_STAT_PEND_TO else OS_STAT_PEND_OK)\<rparr>"
    by (simp add: e s1 st)
  have rd: "rdy ?s = (if suspended ?p then rdy s else bm_ins n (rdy s))" by (simp add: e s1 st pn)
  have w: "waits_on ?s m = waits_on s m" for m by (simp add: waits_on_def e s1)
  have o: "only_lists s ?s" using only_lists_trans [OF s1(3) e(4)] .
  have ty: "event_type ?s = event_type s" by (rule same_kernelD(2) [OF only_lists_kernel(1) [OF o]])
  have ok: "task_ok (n \<in> bm_mem (rdy s)) (waits_on s n) (event_type s) ?p" using kernel_invD(6) [OF i(1) at] .
  then have nr: "n \<notin> bm_mem (rdy s)" using dly by (simp add: task_ok_def)
  have r: "n \<in> bm_mem (rdy ?s) \<longleftrightarrow> \<not> suspended ?p"
    using nr kernel_invD(1) [OF i(1)] n64 by (simp add: rd bm_mem_ins)
  have tch: "touches n t s ?s"
    using kernel_invD(1,2) [OF i(1)] n64 only_lists_kernel [OF o]
    by (simp add: touches_def rd q bm_ok_ins bm_mem_ins tcb_coords_def e(2) s1(4))
      (simp add: e s1)
  have pq: "suspended ?q = suspended ?p" "\<not> pending ?q" "multi ?q = multi ?p"
    "OSTCBStat ?q AND OS_STAT_PEND_ANY = 0" "awaited ?q = awaited ?p"
    unfolding q by (simp_all add: suspended_def pending_def multi_def awaited_def and.assoc split: option.split)
  have any: "OSTCBStat ?q AND OS_STAT_PEND_ANY AND m = 0" for m
    using pq(4) by (simp add: and.assoc [symmetric])
  show ?thesis
  proof (rule pre_inv_touches [OF inv at tch])
    show "task_ok (n \<in> bm_mem (rdy ?s)) (waits_on ?s n) (event_type ?s) ?q"
      unfolding w ty r task_ok_def using ok dly
      by (simp add: pq any) (simp add: q task_ok_def)
    show "cont_ok (k t) (waits_on ?s n) ?q"
      unfolding w using i(8) [OF at] by (simp add: cont_ok_def pq split: option.splits) (simp_all add: q)
    show "63 \<in> bm_mem (rdy ?s)" if "n = 63" using that nr kernel_invD(7) [OF i(1)] by simp
  qed (use i(5) in simp_all)
qed

lemma TimeDlyResume_sys_inv:
  assumes inv: "sys_inv k s"
  shows "sys_inv k (fst (OSTimeDlyResume prio s))"
proof (cases "\<exists>t. prio < 63 \<and> OSTCBPrioTbl s (unat prio) = TCB t \<and> OSTCBDly (OSTCBTbl s t) \<noteq> 0")
  case False
  then have "fst (OSTimeDlyResume prio s) = s"
    by (auto simp: OSTimeDlyResume_def split: tcb_ptr.splits)
  with inv show ?thesis by simp
next
  case True
  then obtain t where t: "prio < 63" "OSTCBPrioTbl s (unat prio) = TCB t" "OSTCBDly (OSTCBTbl s t) \<noteq> 0"
    by blast
  note i = pre_invD [OF sys_invD(1) [OF inv]]
  let ?s1 = "upd_tcb t (\<lambda>p. p\<lparr>OSTCBDly := 0\<rparr>) s"
  let ?s2 = "OS_DlyExpire t ?s1"
  have "unat prio < 64" using t(1) by (simp add: word_less_nat_alt)
  then have at: "task_at s (prio_of (OSTCBTbl s t)) t" using task_at_prio_tbl [OF i(1)] t(2) by simp
  then have p: "pre_inv k ?s2"
    by (rule expire_pre_inv [OF sys_invD(1) [OF inv] _ t(3)]) simp_all
  have xy: "xy_ok (OSTCBTbl ?s1 t)" using task_at_xy [OF i(1) at] by (simp add: xy_ok_def)
  have su: "OSTCBStat (OSTCBTbl ?s2 t) AND OS_STAT_SUSPEND = OS_STAT_RDY \<longleftrightarrow> \<not> suspended (OSTCBTbl s t)"
    by (simp add: DlyExpire_effect [OF xy] suspended_def and.assoc)
  have top: "top_runs ?s2" if "suspended (OSTCBTbl s t)"
  proof -
    have "suspended (OSTCBTbl ?s1 t)" using that by (simp add: suspended_def)
    then have "rdy ?s2 = rdy s" using DlyExpire_effect(1) [OF xy] by simp
    moreover have "only_lists s ?s2" using only_lists_trans [OF only_lists_prims(2) DlyExpire_effect(4) [OF xy]] .
    ultimately show ?thesis
      using sys_invD(2) [OF inv] only_lists_global by (simp add: top_runs_def)
  qed
  show ?thesis
    using Sched_sys_inv [OF p] p top su t
    by (auto simp: OSTimeDlyResume_def Let_def sys_inv_def)
qed

section \<open>The tick\<close>

text \<open>What one tick does to a task.\<close>

definition ticked :: "bool \<Rightarrow> os_tcb \<Rightarrow> bool \<Rightarrow> os_tcb \<Rightarrow> bool" where
  "ticked R p R' p' \<longleftrightarrow>
     (if OSTCBDly p = 1
      then p' = p\<lparr>OSTCBDly := 0, OSTCBStat := OSTCBStat p AND NOT OS_STAT_PEND_ANY,
                  OSTCBStatPend := (if pending p then OS_STAT_PEND_TO else OS_STAT_PEND_OK)\<rparr> \<and>
           (R' \<longleftrightarrow> \<not> suspended p)
      else p' = p\<lparr>OSTCBDly := (if OSTCBDly p = 0 then 0 else OSTCBDly p - 1)\<rparr> \<and> (R' \<longleftrightarrow> R))"

lemma TickTask_effect:
  assumes inv: "pre_inv k s" and at: "task_at s n t"
  shows "pre_inv k (OS_TickTask t s)" and "only_lists s (OS_TickTask t s)"
    and "ticked (n \<in> bm_mem (rdy s)) (OSTCBTbl s t) (n \<in> bm_mem (rdy (OS_TickTask t s))) (OSTCBTbl (OS_TickTask t s) t)"
    and "u \<noteq> t \<Longrightarrow> OSTCBTbl (OS_TickTask t s) u = OSTCBTbl s u"
    and "m \<noteq> n \<Longrightarrow> m \<in> bm_mem (rdy (OS_TickTask t s)) \<longleftrightarrow> m \<in> bm_mem (rdy s)"
proof -
  let ?p = "OSTCBTbl s t" and ?s = "OS_TickTask t s"
  note i = pre_invD [OF inv]
  have xy: "xy_ok ?p" and pn: "prio_of ?p = n" and n64: "n < 64"
    using task_at_xy [OF i(1) at] at by (simp_all add: task_at_def)
  let ?s1 = "upd_tcb t (\<lambda>p. p\<lparr>OSTCBDly := OSTCBDly p - 1\<rparr>) s"
  have ok: "task_ok (n \<in> bm_mem (rdy s)) (waits_on s n) (event_type s) ?p" using kernel_invD(6) [OF i(1) at] .
  consider (zero) "OSTCBDly ?p = 0" | (one) "OSTCBDly ?p = 1" | (more) "OSTCBDly ?p \<noteq> 0" "OSTCBDly ?p \<noteq> 1" by blast
  then have all: "pre_inv k ?s \<and> only_lists s ?s \<and>
    ticked (n \<in> bm_mem (rdy s)) ?p (n \<in> bm_mem (rdy ?s)) (OSTCBTbl ?s t) \<and>
    (u \<noteq> t \<longrightarrow> OSTCBTbl ?s u = OSTCBTbl s u) \<and> (m \<noteq> n \<longrightarrow> (m \<in> bm_mem (rdy ?s) \<longleftrightarrow> m \<in> bm_mem (rdy s)))"
  proof cases
    case zero
    then have "?s = s" by (simp add: OS_TickTask_def)
    with inv zero show ?thesis by (simp add: ticked_def)
  next
    case one
    then have s: "?s = OS_DlyExpire t ?s1" by (simp add: OS_TickTask_def)
    have xy1: "xy_ok (OSTCBTbl ?s1 t)" using xy by (simp add: xy_ok_def)
    note e = DlyExpire_effect [OF xy1]
    have st: "suspended (?p\<lparr>OSTCBDly := x\<rparr>) = suspended ?p" "pending (?p\<lparr>OSTCBDly := x\<rparr>) = pending ?p" for x
      by (simp_all add: suspended_def pending_def)
    have nr: "n \<notin> bm_mem (rdy s)" using ok one by (simp add: task_ok_def)
    have "pre_inv k ?s" unfolding s by (rule expire_pre_inv [OF inv at]) (simp_all add: one)
    moreover have "only_lists s ?s" unfolding s using only_lists_trans [OF only_lists_prims(2) e(4)] .
    ultimately show ?thesis
      using nr kernel_invD(1) [OF i(1)] n64 pn one by (simp add: s e st ticked_def bm_mem_ins)
  next
    case more
    have "OSTCBDly ?p - 1 \<noteq> 0" using more(2) by simp
    then have s: "?s = ?s1" using more by (simp add: OS_TickTask_def Let_def)
    let ?q = "?p\<lparr>OSTCBDly := OSTCBDly ?p - 1\<rparr>"
    have st: "suspended ?q = suspended ?p" "pending ?q = pending ?p" "multi ?q = multi ?p"
      "awaited ?q = awaited ?p"
      by (simp_all add: suspended_def pending_def multi_def awaited_def split: option.split)
    have tch: "touches n t s ?s1"
      using kernel_invD(1,2) [OF i(1)] only_lists_kernel [of s ?s1] by (simp add: touches_def tcb_coords_def)
    have w: "waits_on ?s1 n = waits_on s n" by (simp add: waits_on_def)
    have ty: "event_type ?s1 = event_type s" by simp
    have "pre_inv k ?s1"
    proof (rule pre_inv_touches [OF inv at tch])
      show "task_ok (n \<in> bm_mem (rdy ?s1)) (waits_on ?s1 n) (event_type ?s1) (OSTCBTbl ?s1 t)"
        unfolding w ty using ok more by (auto simp: task_ok_def st)
      show "cont_ok (k t) (waits_on ?s1 n) (OSTCBTbl ?s1 t)"
        unfolding w using i(8) [OF at] by (simp add: cont_ok_def st split: option.splits)
    qed (use i(5) kernel_invD(7) [OF i(1)] in simp_all)
    with more show ?thesis by (simp add: s ticked_def)
  qed
  show "pre_inv k ?s" "only_lists s ?s"
    "ticked (n \<in> bm_mem (rdy s)) ?p (n \<in> bm_mem (rdy ?s)) (OSTCBTbl ?s t)" using all by simp_all
  show "u \<noteq> t \<Longrightarrow> OSTCBTbl ?s u = OSTCBTbl s u"
    "m \<noteq> n \<Longrightarrow> m \<in> bm_mem (rdy ?s) \<longleftrightarrow> m \<in> bm_mem (rdy s)" using all by simp_all
qed

text \<open>
  The loop visits the tasks of the list up to the idle task, so it returns.
\<close>

lemma TickTask_static [simp]:
  "OSTCBNext (OSTCBTbl (OS_TickTask t s) u) = OSTCBNext (OSTCBTbl s u)"
  "OSTCBPrio (OSTCBTbl (OS_TickTask t s) u) = OSTCBPrio (OSTCBTbl s u)"
  by (simp_all add: OS_TickTask_def OS_DlyExpire_def OS_RdyListInsert_def Let_def)

lemma tcb_opt_Some: "tcb_opt p = Some t \<longleftrightarrow> p = TCB t"
  by (cases p) (simp_all add: tcb_opt_def)

lemma TickList_fold:
  assumes "path (tcb_next s) (tcb_opt p) (us @ [l])" and "OSTCBPrio (OSTCBTbl s l) = 63"
    and "\<And>u. u \<in> set us \<Longrightarrow> OSTCBPrio (OSTCBTbl s u) \<noteq> 63"
  shows "OS_TickList p s = Some (fold OS_TickTask us s)"
  using assms
proof (induction us arbitrary: s p)
  case Nil
  then show ?case by (auto simp: OS_TickList_def while_option_unfold tcb_opt_Some)
next
  case (Cons u us)
  let ?s = "OS_TickTask u s"
  have p: "p = TCB u" using Cons.prems(1) by (simp add: tcb_opt_Some)
  have nx: "tcb_next ?s = tcb_next s" by (auto simp: tcb_next_def)
  have "path (tcb_next ?s) (tcb_opt (OSTCBNext (OSTCBTbl s u))) (us @ [l])"
    using Cons.prems(1) by (simp add: nx) (simp add: tcb_next_def)
  from Cons.IH [OF this] have "OS_TickList (OSTCBNext (OSTCBTbl s u)) ?s = Some (fold OS_TickTask us ?s)"
    using Cons.prems(2,3) by simp
  moreover have "OS_TickList p s = OS_TickList (OSTCBNext (OSTCBTbl s u)) ?s"
    unfolding OS_TickList_def p by (subst while_option_unfold) (simp add: Cons.prems(3))
  ultimately show ?case by simp
qed

lemma TickFold_effect:
  assumes "pre_inv k s" and "distinct us" and "\<And>u. u \<in> set us \<Longrightarrow> task_at s (prio_of (OSTCBTbl s u)) u"
  shows "pre_inv k (fold OS_TickTask us s) \<and> only_lists s (fold OS_TickTask us s) \<and>
    (\<forall>n u. task_at s n u \<longrightarrow>
       (if u \<in> set us
        then ticked (n \<in> bm_mem (rdy s)) (OSTCBTbl s u) (n \<in> bm_mem (rdy (fold OS_TickTask us s))) (OSTCBTbl (fold OS_TickTask us s) u)
        else OSTCBTbl (fold OS_TickTask us s) u = OSTCBTbl s u \<and>
          (n \<in> bm_mem (rdy (fold OS_TickTask us s)) \<longleftrightarrow> n \<in> bm_mem (rdy s))))"
  using assms
proof (induction us arbitrary: s)
  case Nil
  then show ?case by simp
next
  case (Cons v us)
  let ?s = "OS_TickTask v s" and ?n = "prio_of (OSTCBTbl s v)"
  have atv: "task_at s ?n v" using Cons.prems(3) by simp
  note e = TickTask_effect [OF Cons.prems(1) atv]
  have at: "task_at ?s m u \<longleftrightarrow> task_at s m u" for m u
    using only_lists_global(1) [OF e(2)] by (simp add: task_at_def)
  have "\<And>u. u \<in> set us \<Longrightarrow> task_at ?s (prio_of (OSTCBTbl ?s u)) u" using Cons.prems(3) by (simp add: at)
  then have ih: "pre_inv k (fold OS_TickTask us ?s) \<and> only_lists ?s (fold OS_TickTask us ?s) \<and>
    (\<forall>n u. task_at s n u \<longrightarrow>
       (if u \<in> set us
        then ticked (n \<in> bm_mem (rdy ?s)) (OSTCBTbl ?s u) (n \<in> bm_mem (rdy (fold OS_TickTask us ?s))) (OSTCBTbl (fold OS_TickTask us ?s) u)
        else OSTCBTbl (fold OS_TickTask us ?s) u = OSTCBTbl ?s u \<and>
          (n \<in> bm_mem (rdy (fold OS_TickTask us ?s)) \<longleftrightarrow> n \<in> bm_mem (rdy ?s))))"
    using Cons.IH [OF e(1)] Cons.prems(2) by (simp add: at)
  have "if u \<in> set (v # us)
        then ticked (n \<in> bm_mem (rdy s)) (OSTCBTbl s u) (n \<in> bm_mem (rdy (fold OS_TickTask us ?s))) (OSTCBTbl (fold OS_TickTask us ?s) u)
        else OSTCBTbl (fold OS_TickTask us ?s) u = OSTCBTbl s u \<and>
          (n \<in> bm_mem (rdy (fold OS_TickTask us ?s)) \<longleftrightarrow> n \<in> bm_mem (rdy s))"
    if u: "task_at s n u" for n u
  proof (cases "u = v")
    case True
    then have "n = ?n" using u by (simp add: task_at_def)
    moreover have "v \<notin> set us" using Cons.prems(2) by simp
    ultimately show ?thesis using ih u True e(3) by auto
  next
    case False
    then have "n \<noteq> ?n" using u atv by (auto simp: task_at_def)
    with ih [THEN conjunct2, THEN conjunct2, rule_format, OF u] False show ?thesis
      by (cases "u \<in> set us") (simp_all add: e(4) e(5))
  qed
  then show ?case using ih only_lists_trans [OF e(2)] by simp
qed

lemma prio_of_63: "prio_of p = 63 \<longleftrightarrow> OSTCBPrio p = 63"
  by (simp add: word_unat_eq_iff)

lemma TickList_effect:
  assumes inv: "pre_inv k s"
  shows "\<exists>s'. OS_TickList (OSTCBList s) s = Some s' \<and> pre_inv k s' \<and> only_lists s s' \<and>
    (\<forall>n t. task_at s n t \<longrightarrow>
       ticked (n \<in> bm_mem (rdy s)) (OSTCBTbl s t) (n \<in> bm_mem (rdy s')) (OSTCBTbl s' t))"
proof -
  note i = pre_invD [OF inv]
  obtain ts where "task_list s ts" using i(10) by blast
  then obtain us l where l: "path (tcb_next s) (tcb_opt (OSTCBList s)) (us @ [l])" "prio_of (OSTCBTbl s l) = 63"
    "\<And>t. t \<in> set (us @ [l]) \<Longrightarrow> task_at s (prio_of (OSTCBTbl s t)) t" "\<And>n t. task_at s n t \<Longrightarrow> t \<in> set (us @ [l])"
    by (cases ts rule: rev_cases) (auto simp: task_list_def dest: dpath_path)
  have d: "distinct (us @ [l])" using path_distinct [OF l(1)] .
  have n63: "OSTCBPrio (OSTCBTbl s u) \<noteq> 63" if "u \<in> set us" for u
  proof
    assume "OSTCBPrio (OSTCBTbl s u) = 63"
    then have "task_at s 63 u" "task_at s 63 l" using l(2) l(3) [of u] l(3) [of l] that by simp_all
    from task_at_unique [OF this] show False using d that by simp
  qed
  let ?s = "fold OS_TickTask us s"
  note f = TickFold_effect [OF inv, of us]
  have ef: "pre_inv k ?s" "only_lists s ?s" "\<And>n u. task_at s n u \<Longrightarrow>
       (if u \<in> set us
        then ticked (n \<in> bm_mem (rdy s)) (OSTCBTbl s u) (n \<in> bm_mem (rdy ?s)) (OSTCBTbl ?s u)
        else OSTCBTbl ?s u = OSTCBTbl s u \<and> (n \<in> bm_mem (rdy ?s) \<longleftrightarrow> n \<in> bm_mem (rdy s)))"
    using f d l(3) by simp_all
  have "ticked (n \<in> bm_mem (rdy s)) (OSTCBTbl s t) (n \<in> bm_mem (rdy ?s)) (OSTCBTbl ?s t)"
    if t: "task_at s n t" for n t
  proof (cases "t \<in> set us")
    case True
    then show ?thesis using ef(3) [OF t] by simp
  next
    case False
    then have "t = l" using l(4) [OF t] by simp
    then have "n = 63" using t l(2) by (simp add: task_at_def)
    then have "OSTCBDly (OSTCBTbl s t) = 0"
      using kernel_invD(6) [OF i(1) t] kernel_invD(7) [OF i(1)] by (simp add: task_ok_def)
    then show ?thesis using ef(3) [OF t] False by (simp add: ticked_def)
  qed
  moreover have "OS_TickList (OSTCBList s) s = Some ?s"
    using TickList_fold [OF l(1)] l(2) n63 by (simp add: prio_of_63)
  ultimately show ?thesis using ef by blast
qed

lemma pre_sys_inv: "pre_inv k s \<Longrightarrow> OSIntNesting s \<noteq> 0 \<Longrightarrow> sys_inv k s"
  by (simp add: sys_inv_def top_runs_def)

lemma SemPost_time:
  assumes inv: "kernel_inv s"
  shows "OSTime (fst (OSSemPost pe s)) = OSTime s" and "OSIntNesting (fst (OSSemPost pe s)) = OSIntNesting s"
proof -
  have a: "OSTime (OS_Sched u) = OSTime u \<and> OSIntNesting (OS_Sched u) = OSIntNesting u" for u
    by (simp add: OS_Sched_def switch_defs)
  have b: "OSTime (fst (OS_EventTaskRdy e NULL OS_STAT_SEM OS_STAT_PEND_OK s)) = OSTime s \<and>
      OSIntNesting (fst (OS_EventTaskRdy e NULL OS_STAT_SEM OS_STAT_PEND_OK s)) = OSIntNesting s"
    if "OSEventGrp (OSEvents s e) \<noteq> 0" for e
  proof -
    have "bm_mem (wl s e) \<noteq> {}" using that grp_nonzero_iff [OF inv] by blast
    from EventTaskRdy_only_lists [OF inv this, of OS_STAT_SEM NULL OS_STAT_PEND_OK]
    show ?thesis using only_lists_global(2,12) by simp
  qed
  show "OSTime (fst (OSSemPost pe s)) = OSTime s" "OSIntNesting (fst (OSSemPost pe s)) = OSIntNesting s"
    using a b by (cases pe; simp add: OSSemPost_def upd_event_def)+
qed

lemma TimeTickHook_pre_inv:
  assumes inv: "pre_inv k s" and int: "OSIntNesting s \<noteq> 0"
  shows "pre_inv k (OSTimeTickHook s)" and "OSTime (OSTimeTickHook s) = OSTime s"
    and "OSIntNesting (OSTimeTickHook s) = OSIntNesting s"
proof -
  note i = pre_invD [OF inv]
  let ?s1 = "s\<lparr>OSTmrCtr := OSTmrCtr s + 1\<rparr>" and ?s2 = "s\<lparr>OSTmrCtr := 0\<rparr>"
  have p: "pre_inv k ?s1" "pre_inv k ?s2"
    by (rule pre_inv_counters [OF inv], use i(5) in \<open>simp_all add: rdy_def\<close>)+
  have "sys_inv k (fst (OSSemPost (OSTmrSemSignal ?s2) ?s2))"
    using sem.post_inv [OF pre_sys_inv [OF p(2)]] int by simp
  then have "pre_inv k (fst (OSSemPost (OSTmrSemSignal ?s2) ?s2))" by (simp add: sys_inv_def)
  moreover have e: "OSTimeTickHook s = (if ucast (OSTmrCtr s + 1) \<ge> OS_TICKS_PER_SEC div OS_TMR_CFG_TICKS_PER_SEC
      then fst (OSSemPost (OSTmrSemSignal ?s2) ?s2) else ?s1)"
    by (simp add: OSTimeTickHook_def OSTmrSignal_def Let_def)
  ultimately show "pre_inv k (OSTimeTickHook s)" using p(1) by (simp split: if_split)
  show "OSTime (OSTimeTickHook s) = OSTime s" "OSIntNesting (OSTimeTickHook s) = OSIntNesting s"
    using SemPost_time [OF pre_invD(1) [OF p(2)], of "OSTmrSemSignal ?s2"] by (simp_all add: e split: if_split)
qed

lemma TimeTick_pre_inv:
  assumes inv: "pre_inv k s" and int: "OSIntNesting s \<noteq> 0"
  shows "\<exists>s'. OSTimeTick s = Some s' \<and> pre_inv k s' \<and> OSTime s' = OSTime s + 1 \<and>
    OSIntNesting s' = OSIntNesting s"
proof -
  note h = TimeTickHook_pre_inv [OF assms]
  let ?s1 = "(OSTimeTickHook s)\<lparr>OSTime := OSTime s + 1\<rparr>"
  have p1: "pre_inv k ?s1"
    by (rule pre_inv_counters [OF h(1)]) (use pre_invD(5) [OF h(1)] in \<open>simp_all add: rdy_def\<close>)
  obtain s2 b where st: "OS_TickStep ?s1 = (s2, b)" by fastforce
  have s2: "s2 = ?s1\<lparr>OSTickStepState := OSTickStepState s2\<rparr>"
    using st by (auto simp: OS_TickStep_def split: if_splits)
  have same: "rdy s2 = rdy ?s1" "OSEvents s2 = OSEvents ?s1" "OSTCBTbl s2 = OSTCBTbl ?s1"
    "OSTCBPrioTbl s2 = OSTCBPrioTbl ?s1" "OSTCBList s2 = OSTCBList ?s1" "OSTCBCur s2 = OSTCBCur ?s1"
    "OSPrioCur s2 = OSPrioCur ?s1" "OSEventFreeList s2 = OSEventFreeList ?s1" "OSRunning s2 = OSRunning ?s1"
    "OSTCBFreeList s2 = OSTCBFreeList ?s1" "OSLockNesting s2 = OSLockNesting ?s1" "OSTime s2 = OSTime s + 1"
    "OSIntNesting s2 = OSIntNesting (OSTimeTickHook s)"
    by (subst s2, simp add: rdy_def)+
  have p2: "pre_inv k s2"
    using pre_invD(5) [OF p1] by (intro pre_inv_counters [OF p1 same(1-10)]) (simp add: same(11))
  obtain s3 where "OS_TickList (OSTCBList s2) s2 = Some s3" "pre_inv k s3" "OSTime s3 = OSTime s2"
    "OSIntNesting s3 = OSIntNesting s2"
    using TickList_effect [OF p2] only_lists_global(2,12) by blast
  then show ?thesis
    using p1 p2 st h(2,3) pre_invD(9) [OF p1] same(12,13) by (cases b) (auto simp: OSTimeTick_def)
qed

theorem SysTick_Handler_inv:
  assumes "sys_inv k s"
  shows "\<exists>s'. SysTick_Handler s = Some s' \<and> sys_inv k s'"
proof -
  obtain s' where "OSTimeTick (OSIntEnter s) = Some s'" "pre_inv k s'"
    using TimeTick_pre_inv [OF IntEnter_pre_inv [OF sys_invD(1) [OF assms]]] by blast
  then show ?thesis using IntExit_sys_inv by (simp add: SysTick_Handler_def)
qed

section \<open>The length of a delay\<close>

text \<open>
  For the arguments \<open>OSTimeDlyHMSM\<close> accepts, the 32-bit arithmetic does not overflow: the delay is
  the number of ticks nearest to the time, a half rounded up.
\<close>

text \<open>For hours, minutes, seconds and milliseconds that \<open>OSTimeDlyHMSM\<close> accepts, the 32-bit
  arithmetic does not overflow, and the delay is the number of ticks (100 a second) nearest to the time, a
  half rounded up.\<close>

lemma hmsm_ticks_exact:
  assumes "minutes \<le> 59" and "seconds \<le> 59" and "ms \<le> 999"
  shows "unat (hmsm_ticks hours minutes seconds ms) =
    (3600 * unat hours + 60 * unat minutes + unat seconds) * 100 + (unat ms + 5) div 10"
proof -
  have h: "unat hours < 256" using unsigned_less [of hours, where ?'a = nat] by simp
  have b: "unat minutes \<le> 59" "unat seconds \<le> 59" "unat ms \<le> 999"
    using assms by (simp_all add: word_le_nat_alt)
  have u: "unat (ucast hours :: INT32U) = unat hours" "unat (ucast minutes :: INT32U) = unat minutes"
    "unat (ucast seconds :: INT32U) = unat seconds" "unat (ucast ms :: INT32U) = unat ms"
    using h b by (simp_all add: unsigned_ucast_eq take_bit_nat_eq_self)
  define A :: INT32U where "A = ucast hours * 3600 + ucast minutes * 60 + ucast seconds"
  define B :: INT32U where "B = 100 * (ucast ms + 500 div 100) div 1000"
  have A: "unat A = 3600 * unat hours + 60 * unat minutes + unat seconds"
    using h b by (simp add: A_def unat_word_ariths u)
  have "unat B = 100 * (unat ms + 5) div 1000"
    using b by (simp add: B_def unat_word_ariths unat_div u)
  also have "\<dots> = (unat ms + 5) div 10" by simp
  finally have B: "unat B = (unat ms + 5) div 10" .
  have "unat (A * 100 + B) = unat A * 100 + unat B"
    using h b by (simp add: unat_word_ariths A B)
  moreover have "hmsm_ticks hours minutes seconds ms = A * 100 + B"
    unfolding hmsm_ticks_def A_def B_def ..
  ultimately show ?thesis by (simp add: A B)
qed

lemma hmsm_ticks_exact_witness: "unat (hmsm_ticks 1 0 2 15) = 360202"
  using hmsm_ticks_exact [of 0 2 15 1] by simp

text \<open>One pass of the tick over the task list returns and treats every task once: a delay or
  timeout of one tick ends (a pending task gets the timeout status, the task becomes ready unless it is
  suspended), a longer one gets shorter by one, and every other field and task stays as it is.\<close>

theorem tick_treats_every_task:
  assumes "sys_inv k s"
  shows "\<exists>s'. OS_TickList (OSTCBList s) s = Some s' \<and> pre_inv k s' \<and>
    (\<forall>n t. task_at s n t \<longrightarrow>
       ticked (n \<in> bm_mem (rdy s)) (OSTCBTbl s t) (n \<in> bm_mem (rdy s')) (OSTCBTbl s' t))"
  using TickList_effect [OF sys_invD(1) [OF assms]] by blast

lemma tick_treats_every_task_witness:
  "\<exists>s'. OS_TickList (TCB 0) (ex_os OS_EVENT_TYPE_SEM False) = Some s' \<and>
     ticked False (ex_waiter OS_EVENT_TYPE_SEM False) (5 \<in> bm_mem (rdy s')) (OSTCBTbl s' 1)"
proof -
  have "sys_inv (ex_conts (PendSem 0) False) (ex_os OS_EVENT_TYPE_SEM False)" by (rule ex_sys_inv) simp_all
  then obtain s' where s': "OS_TickList (TCB 0) (ex_os OS_EVENT_TYPE_SEM False) = Some s'"
    and tk: "\<And>n t. task_at (ex_os OS_EVENT_TYPE_SEM False) n t \<Longrightarrow>
       ticked (n \<in> {10, 63}) (OSTCBTbl (ex_os OS_EVENT_TYPE_SEM False) t) (n \<in> bm_mem (rdy s')) (OSTCBTbl s' t)"
    using tick_treats_every_task by fastforce
  from tk [of 5 1] s' show ?thesis by (simp add: ex_task_at)
qed

end
