(* ===== verification/UCOS_Task.thy ===== *)
theory UCOS_Task
  imports UCOS_Flag UCOS_Time
begin

text \<open>
  The task services of \<open>os_task.c\<close>, with \<open>OS_TCBInit\<close> of \<open>os_core.c\<close> and
  \<open>OSTaskStkInit\<close> of the ARMv7-M port (without floating point registers).  A stack pointer is
  the number of a 32-bit stack cell; the addresses of the task's function and of \<open>OS_TaskReturn\<close>,
  which the linker assigns, are parameters.  The application's hooks are left out.
\<close>

section \<open>Task control blocks\<close>

definition set_prio_tbl :: "INT8U \<Rightarrow> tcb_ptr \<Rightarrow> os \<Rightarrow> os" where
  "set_prio_tbl prio p s = s\<lparr>OSTCBPrioTbl := (OSTCBPrioTbl s)(unat prio := p)\<rparr>"

text \<open>The assignments of \<open>OS_TCBInit\<close> to a new control block.\<close>

definition init_tcb :: "INT8U \<Rightarrow> nat \<Rightarrow> nat \<Rightarrow> INT16U \<Rightarrow> INT32U \<Rightarrow> voidp \<Rightarrow> INT16U \<Rightarrow> os_tcb \<Rightarrow> os_tcb" where
  "init_tcb prio ptos pbos i stk_size pext opt p =
     (let p = p\<lparr>OSTCBStkPtr := ptos, OSTCBStat := OS_STAT_RDY, OSTCBStatPend := OS_STAT_PEND_OK,
                OSTCBDly := 0, OSTCBExtPtr := pext, OSTCBStkSize := stk_size, OSTCBStkBottom := pbos,
                OSTCBOpt := opt, OSTCBId := i, OSTCBDelReq := OS_ERR_NONE\<rparr>;
          p = set_prio_xy prio p
      in p\<lparr>OSTCBEventPtr := None, OSTCBEventMultiPtr := None, OSTCBEventMultiRdy := None,
           OSTCBFlagNode := None, OSTCBMsg := NULL, OSTCBCtxSwCtr := 0, OSTCBCyclesStart := 0,
           OSTCBCyclesTot := 0, OSTCBStkBase := 0, OSTCBStkUsed := 0, OSTCBTaskName := Some ''?'',
           OSTCBRegTbl := map (\<lambda>i. 0) [0..<OS_TASK_REG_TBL_SIZE]\<rparr>)"

definition OS_TCBInit ::
    "INT8U \<Rightarrow> nat \<Rightarrow> nat \<Rightarrow> INT16U \<Rightarrow> INT32U \<Rightarrow> voidp \<Rightarrow> INT16U \<Rightarrow> os \<Rightarrow> os \<times> INT8U" where
  "OS_TCBInit prio ptos pbos i stk_size pext opt s =
     (case OSTCBFreeList s of
        TCB t \<Rightarrow>
          let s = s\<lparr>OSTCBFreeList := OSTCBNext (OSTCBTbl s t)\<rparr>;
              s = upd_tcb t (init_tcb prio ptos pbos i stk_size pext opt) s;
              s = set_prio_tbl prio (TCB t) s;
              s = upd_tcb t (\<lambda>p. p\<lparr>OSTCBNext := OSTCBList s, OSTCBPrev := NullTCB\<rparr>) s;
              s = (if OSTCBList s \<noteq> NullTCB
                   then upd_tcb (tcb_ix (OSTCBList s)) (\<lambda>p. p\<lparr>OSTCBPrev := TCB t\<rparr>) s else s);
              s = s\<lparr>OSTCBList := TCB t\<rparr>;
              s = OS_RdyListInsert t s
          in (s\<lparr>OSTaskCtr := OSTaskCtr s + 1\<rparr>, OS_ERR_NONE)
      | _ \<Rightarrow> (s, OS_ERR_TASK_NO_MORE_TCB))"

section \<open>Stacks\<close>

text \<open>\<open>*(--p_stk) = v\<close> for each value of a list.\<close>

fun push_stk :: "INT32U list \<Rightarrow> nat \<times> os \<Rightarrow> nat \<times> os" where
  "push_stk [] (p_stk, s) = (p_stk, s)"
| "push_stk (v # vs) (p_stk, s) =
     (let p_stk = p_stk - 1
      in push_stk vs (p_stk, s\<lparr>OSStkCell := (OSStkCell s)(p_stk := v)\<rparr>))"

text \<open>
  \<open>OSTaskStkInit\<close> aligns the top of the stack to 8 bytes and pushes the frame an exception
  return restores: xPSR, the entry point, LR, R12, R3, R2, R1, R0, \<open>EXEC_RETURN\<close>, R11 to R4.
\<close>

definition OSTaskStkInit :: "INT32U \<Rightarrow> INT32U \<Rightarrow> INT32U \<Rightarrow> nat \<Rightarrow> INT16U \<Rightarrow> os \<Rightarrow> nat \<times> os" where
  "OSTaskStkInit ret task p_arg ptos opt s =
     (let p_stk = ptos + 1;
          p_stk = p_stk - p_stk mod 2
      in push_stk [0x01000000, task, ret, 0x12121212, 0x03030303, 0x02020202, 0x01010101, p_arg,
                   0xFFFFFFFD, 0x11111111, 0x10101010, 0x09090909, 0x08080808, 0x07070707,
                   0x06060606, 0x05050505, 0x04040404] (p_stk, s))"

text \<open>\<open>OS_TaskStkClr\<close> clears the stack upwards from its bottom.\<close>

fun clr_stk :: "nat \<Rightarrow> nat \<Rightarrow> os \<Rightarrow> os" where
  "clr_stk 0 pbos s = s"
| "clr_stk (Suc n) pbos s = clr_stk n (pbos + 1) (s\<lparr>OSStkCell := (OSStkCell s)(pbos := 0)\<rparr>)"

definition OS_TaskStkClr :: "nat \<Rightarrow> INT32U \<Rightarrow> INT16U \<Rightarrow> os \<Rightarrow> os" where
  "OS_TaskStkClr pbos sz opt s =
     (if opt AND OS_TASK_OPT_STK_CHK \<noteq> 0
      then if opt AND OS_TASK_OPT_STK_CLR \<noteq> 0 then clr_stk (unat sz) pbos s else s
      else s)"

text \<open>The count of the zero cells at the bottom; \<open>None\<close> when no other cell follows.\<close>

definition OS_StkFree :: "nat \<Rightarrow> os \<Rightarrow> INT32U option" where
  "OS_StkFree pbos s =
     map_option snd
       (while_option (\<lambda>(pchk, nfree). OSStkCell s pchk = 0) (\<lambda>(pchk, nfree). (pchk + 1, nfree + 1))
          (pbos, 0))"

definition OSTaskStkChk :: "INT8U \<Rightarrow> bool \<Rightarrow> os \<Rightarrow> (INT8U \<times> os_stk_data option) option" where
  "OSTaskStkChk prio pdata s =
     (if prio > OS_LOWEST_PRIO \<and> prio \<noteq> OS_PRIO_SELF then Some (OS_ERR_PRIO_INVALID, None)
      else if \<not> pdata then Some (OS_ERR_PDATA_NULL, None)
      else
        let zero = Some \<lparr>OSFree = 0, OSUsed = 0\<rparr>;
            prio = (if prio = OS_PRIO_SELF then OSTCBPrio (OSTCBTbl s (cur s)) else prio)
        in case OSTCBPrioTbl s (unat prio) of
             NullTCB \<Rightarrow> Some (OS_ERR_TASK_NOT_EXIST, zero)
           | OS_TCB_RESERVED \<Rightarrow> Some (OS_ERR_TASK_NOT_EXIST, zero)
           | TCB t \<Rightarrow>
               let p = OSTCBTbl s t
               in if OSTCBOpt p AND OS_TASK_OPT_STK_CHK = 0 then Some (OS_ERR_TASK_OPT, zero)
                  else case OS_StkFree (OSTCBStkBottom p) s of
                         None \<Rightarrow> None
                       | Some nfree \<Rightarrow>
                           Some (OS_ERR_NONE, Some \<lparr>OSFree = nfree, OSUsed = OSTCBStkSize p - nfree\<rparr>))"

section \<open>Creation and deletion\<close>

definition OSTaskCreate :: "INT32U \<Rightarrow> INT32U \<Rightarrow> INT32U \<Rightarrow> nat \<Rightarrow> INT8U \<Rightarrow> os \<Rightarrow> os \<times> INT8U" where
  "OSTaskCreate ret task p_arg ptos prio s =
     (if prio > OS_LOWEST_PRIO then (s, OS_ERR_PRIO_INVALID)
      else if OSIntNesting s > 0 then (s, OS_ERR_TASK_CREATE_ISR)
      else if OSTCBPrioTbl s (unat prio) = NullTCB
      then
        let s = set_prio_tbl prio OS_TCB_RESERVED s;
            (psp, s) = OSTaskStkInit ret task p_arg ptos 0 s;
            (s, err) = OS_TCBInit prio psp 0 0 0 NULL 0 s
        in if err = OS_ERR_NONE then (if OSRunning s then OS_Sched s else s, err)
           else (set_prio_tbl prio NullTCB s, err)
      else (s, OS_ERR_PRIO_EXIST))"

definition OSTaskCreateExt ::
    "INT32U \<Rightarrow> INT32U \<Rightarrow> INT32U \<Rightarrow> nat \<Rightarrow> INT8U \<Rightarrow> INT16U \<Rightarrow> nat \<Rightarrow> INT32U \<Rightarrow> voidp \<Rightarrow> INT16U
      \<Rightarrow> os \<Rightarrow> os \<times> INT8U" where
  "OSTaskCreateExt ret task p_arg ptos prio i pbos stk_size pext opt s =
     (if prio > OS_LOWEST_PRIO then (s, OS_ERR_PRIO_INVALID)
      else if OSIntNesting s > 0 then (s, OS_ERR_TASK_CREATE_ISR)
      else if OSTCBPrioTbl s (unat prio) = NullTCB
      then
        let s = set_prio_tbl prio OS_TCB_RESERVED s;
            s = OS_TaskStkClr pbos stk_size opt s;
            (psp, s) = OSTaskStkInit ret task p_arg ptos opt s;
            (s, err) = OS_TCBInit prio psp pbos i stk_size pext opt s
        in if err = OS_ERR_NONE then (if OSRunning s then OS_Sched s else s, err)
           else (set_prio_tbl prio NullTCB s, err)
      else (s, OS_ERR_PRIO_EXIST))"

text \<open>
  \<open>OSTaskDel\<close>: off the ready list and every wait list, then, after the scheduler lock has been
  raised and lowered around \<open>OS_Dummy\<close>, out of the task list and onto the free list.
\<close>

definition OS_TaskUnlink :: "nat \<Rightarrow> os \<Rightarrow> os" where
  "OS_TaskUnlink t s =
     (let p = OSTCBTbl s t; nx = tcb_ix (OSTCBNext p)
      in if OSTCBPrev p = NullTCB
         then let s = upd_tcb nx (\<lambda>q. q\<lparr>OSTCBPrev := NullTCB\<rparr>) s in s\<lparr>OSTCBList := OSTCBNext p\<rparr>
         else let s = upd_tcb (tcb_ix (OSTCBPrev p)) (\<lambda>q. q\<lparr>OSTCBNext := OSTCBNext p\<rparr>) s
              in upd_tcb nx (\<lambda>q. q\<lparr>OSTCBPrev := OSTCBPrev p\<rparr>) s)"

definition OSTaskDel :: "INT8U \<Rightarrow> os \<Rightarrow> os \<times> INT8U" where
  "OSTaskDel prio s =
     (if OSIntNesting s > 0 then (s, OS_ERR_TASK_DEL_ISR)
      else if prio = OS_TASK_IDLE_PRIO then (s, OS_ERR_TASK_DEL_IDLE)
      else if prio \<ge> OS_LOWEST_PRIO \<and> prio \<noteq> OS_PRIO_SELF then (s, OS_ERR_PRIO_INVALID)
      else
        let prio = (if prio = OS_PRIO_SELF then OSTCBPrio (OSTCBTbl s (cur s)) else prio)
        in case OSTCBPrioTbl s (unat prio) of
             NullTCB \<Rightarrow> (s, OS_ERR_TASK_NOT_EXIST)
           | OS_TCB_RESERVED \<Rightarrow> (s, OS_ERR_TASK_DEL)
           | TCB t \<Rightarrow>
               let s = OS_RdyListRemove t s;
                   s = (case OSTCBEventPtr (OSTCBTbl s t) of None \<Rightarrow> s
                        | Some e \<Rightarrow> OS_EventTaskRemove t e s);
                   s = (case OSTCBEventMultiPtr (OSTCBTbl s t) of None \<Rightarrow> s
                        | Some es \<Rightarrow> OS_EventTaskRemoveMulti t es s);
                   s = (case OSTCBFlagNode (OSTCBTbl s t) of None \<Rightarrow> s
                        | Some n \<Rightarrow> OS_FlagUnlink n s);
                   s = upd_tcb t (\<lambda>p. p\<lparr>OSTCBDly := 0, OSTCBStat := OS_STAT_RDY,
                         OSTCBStatPend := OS_STAT_PEND_OK\<rparr>) s;
                   s = (if OSLockNesting s < 255 then s\<lparr>OSLockNesting := OSLockNesting s + 1\<rparr> else s);
                   s = (if OSLockNesting s > 0 then s\<lparr>OSLockNesting := OSLockNesting s - 1\<rparr> else s);
                   s = s\<lparr>OSTaskCtr := OSTaskCtr s - 1\<rparr>;
                   s = set_prio_tbl prio NullTCB s;
                   s = OS_TaskUnlink t s;
                   s = upd_tcb t (\<lambda>p. p\<lparr>OSTCBNext := OSTCBFreeList s, OSTCBTaskName := Some ''?''\<rparr>) s;
                   s = s\<lparr>OSTCBFreeList := TCB t\<rparr>
               in (if OSRunning s then OS_Sched s else s, OS_ERR_NONE))"

definition OSTaskDelReq :: "INT8U \<Rightarrow> os \<Rightarrow> os \<times> INT8U" where
  "OSTaskDelReq prio s =
     (if prio = OS_TASK_IDLE_PRIO then (s, OS_ERR_TASK_DEL_IDLE)
      else if prio \<ge> OS_LOWEST_PRIO \<and> prio \<noteq> OS_PRIO_SELF then (s, OS_ERR_PRIO_INVALID)
      else if prio = OS_PRIO_SELF then (s, OSTCBDelReq (OSTCBTbl s (cur s)))
      else case OSTCBPrioTbl s (unat prio) of
             NullTCB \<Rightarrow> (s, OS_ERR_TASK_NOT_EXIST)
           | OS_TCB_RESERVED \<Rightarrow> (s, OS_ERR_TASK_DEL)
           | TCB t \<Rightarrow> (upd_tcb t (\<lambda>p. p\<lparr>OSTCBDelReq := OS_ERR_TASK_DEL_REQ\<rparr>) s, OS_ERR_NONE))"

text \<open>A task function that returns deletes its task.\<close>

definition OS_TaskReturn :: "os \<Rightarrow> os" where
  "OS_TaskReturn s = fst (OSTaskDel OS_PRIO_SELF s)"

end
