(* ===== verification/UCOS_TaskCtl.thy ===== *)
theory UCOS_TaskCtl
  imports UCOS_Task
begin

text \<open>
  The services of \<open>os_task.c\<close> that change or query an existing task: priority, suspension, name,
  registers.
\<close>

section \<open>Change of priority\<close>

text \<open>One bitmap of the old priority's bit to the new one's.\<close>

definition bm_move :: "os_tcb \<Rightarrow> os_tcb \<Rightarrow> bitmap \<Rightarrow> bitmap" where
  "bm_move p q b =
     bm_set (OSTCBY q) (OSTCBBitY q) (OSTCBBitX q) (bm_clear (OSTCBY p) (OSTCBBitY p) (OSTCBBitX p) b)"

fun move_wl :: "os_tcb \<Rightarrow> os_tcb \<Rightarrow> nat list \<Rightarrow> os \<Rightarrow> os" where
  "move_wl p q [] s = s"
| "move_wl p q (e # es) s = move_wl p q es (set_wl e (bm_move p q (wl s e)) s)"

definition OSTaskChangePrio :: "INT8U \<Rightarrow> INT8U \<Rightarrow> os \<Rightarrow> os \<times> INT8U" where
  "OSTaskChangePrio oldprio newprio s =
     (if oldprio \<ge> OS_LOWEST_PRIO \<and> oldprio \<noteq> OS_PRIO_SELF then (s, OS_ERR_PRIO_INVALID)
      else if newprio \<ge> OS_LOWEST_PRIO then (s, OS_ERR_PRIO_INVALID)
      else if OSTCBPrioTbl s (unat newprio) \<noteq> NullTCB then (s, OS_ERR_PRIO_EXIST)
      else
        let oldprio = (if oldprio = OS_PRIO_SELF then OSTCBPrio (OSTCBTbl s (cur s)) else oldprio)
        in case OSTCBPrioTbl s (unat oldprio) of
             NullTCB \<Rightarrow> (s, OS_ERR_PRIO)
           | OS_TCB_RESERVED \<Rightarrow> (s, OS_ERR_TASK_NOT_EXIST)
           | TCB t \<Rightarrow>
               let p = OSTCBTbl s t;
                   q = set_prio_xy newprio p;
                   s = set_prio_tbl newprio (TCB t) (set_prio_tbl oldprio NullTCB s);
                   s = (if OSRdyTbl s ! unat (OSTCBY p) AND OSTCBBitX p \<noteq> 0
                        then set_rdy (bm_move p q (rdy s)) s else s);
                   s = (case OSTCBEventPtr p of None \<Rightarrow> s
                        | Some e \<Rightarrow> set_wl e (bm_move p q (wl s e)) s);
                   s = (case OSTCBEventMultiPtr p of None \<Rightarrow> s | Some es \<Rightarrow> move_wl p q es s);
                   s = upd_tcb t (set_prio_xy newprio) s
               in (if OSRunning s then OS_Sched s else s, OS_ERR_NONE))"

section \<open>Suspension\<close>

definition OSTaskSuspend :: "INT8U \<Rightarrow> os \<Rightarrow> os \<times> INT8U" where
  "OSTaskSuspend prio s =
     (if prio = OS_TASK_IDLE_PRIO then (s, OS_ERR_TASK_SUSPEND_IDLE)
      else if prio \<ge> OS_LOWEST_PRIO \<and> prio \<noteq> OS_PRIO_SELF then (s, OS_ERR_PRIO_INVALID)
      else
        let curprio = OSTCBPrio (OSTCBTbl s (cur s));
            (prio, self) = (if prio = OS_PRIO_SELF then (curprio, True)
                            else if prio = curprio then (prio, True) else (prio, False))
        in case OSTCBPrioTbl s (unat prio) of
             NullTCB \<Rightarrow> (s, OS_ERR_TASK_SUSPEND_PRIO)
           | OS_TCB_RESERVED \<Rightarrow> (s, OS_ERR_TASK_NOT_EXIST)
           | TCB t \<Rightarrow>
               let s = OS_RdyListRemove t s;
                   s = upd_tcb t (\<lambda>p. p\<lparr>OSTCBStat := OSTCBStat p OR OS_STAT_SUSPEND\<rparr>) s
               in (if self then OS_Sched s else s, OS_ERR_NONE))"

definition OSTaskResume :: "INT8U \<Rightarrow> os \<Rightarrow> os \<times> INT8U" where
  "OSTaskResume prio s =
     (if prio \<ge> OS_LOWEST_PRIO then (s, OS_ERR_PRIO_INVALID)
      else case OSTCBPrioTbl s (unat prio) of
             NullTCB \<Rightarrow> (s, OS_ERR_TASK_RESUME_PRIO)
           | OS_TCB_RESERVED \<Rightarrow> (s, OS_ERR_TASK_NOT_EXIST)
           | TCB t \<Rightarrow>
               if OSTCBStat (OSTCBTbl s t) AND OS_STAT_SUSPEND \<noteq> OS_STAT_RDY
               then
                 let s = upd_tcb t (\<lambda>p. p\<lparr>OSTCBStat := OSTCBStat p AND NOT OS_STAT_SUSPEND\<rparr>) s
                 in if OSTCBStat (OSTCBTbl s t) AND OS_STAT_PEND_ANY = OS_STAT_RDY
                    then if OSTCBDly (OSTCBTbl s t) = 0
                         then let s = OS_RdyListInsert t s
                              in (if OSRunning s then OS_Sched s else s, OS_ERR_NONE)
                         else (s, OS_ERR_NONE)
                    else (s, OS_ERR_NONE)
               else (s, OS_ERR_TASK_NOT_SUSPENDED))"

section \<open>Names, queries and registers\<close>

text \<open>The task a query is about, or the error.\<close>

definition task_arg :: "INT8U \<Rightarrow> os \<Rightarrow> tcb_ptr" where
  "task_arg prio s =
     OSTCBPrioTbl s (unat (if prio = OS_PRIO_SELF then OSTCBPrio (OSTCBTbl s (cur s)) else prio))"

definition OSTaskNameGet :: "INT8U \<Rightarrow> bool \<Rightarrow> os \<Rightarrow> INT8U \<times> INT8U \<times> string option" where
  "OSTaskNameGet prio pname s =
     (if prio > OS_LOWEST_PRIO \<and> prio \<noteq> OS_PRIO_SELF then (0, OS_ERR_PRIO_INVALID, None)
      else if \<not> pname then (0, OS_ERR_PNAME_NULL, None)
      else if OSIntNesting s > 0 then (0, OS_ERR_NAME_GET_ISR, None)
      else case task_arg prio s of
             NullTCB \<Rightarrow> (0, OS_ERR_TASK_NOT_EXIST, None)
           | OS_TCB_RESERVED \<Rightarrow> (0, OS_ERR_TASK_NOT_EXIST, None)
           | TCB t \<Rightarrow> (OS_StrLen (OSTCBTaskName (OSTCBTbl s t)), OS_ERR_NONE, OSTCBTaskName (OSTCBTbl s t)))"

definition OSTaskNameSet :: "INT8U \<Rightarrow> string option \<Rightarrow> os \<Rightarrow> os \<times> INT8U" where
  "OSTaskNameSet prio pname s =
     (if prio > OS_LOWEST_PRIO \<and> prio \<noteq> OS_PRIO_SELF then (s, OS_ERR_PRIO_INVALID)
      else if pname = None then (s, OS_ERR_PNAME_NULL)
      else if OSIntNesting s > 0 then (s, OS_ERR_NAME_SET_ISR)
      else case task_arg prio s of
             NullTCB \<Rightarrow> (s, OS_ERR_TASK_NOT_EXIST)
           | OS_TCB_RESERVED \<Rightarrow> (s, OS_ERR_TASK_NOT_EXIST)
           | TCB t \<Rightarrow> (upd_tcb t (\<lambda>p. p\<lparr>OSTCBTaskName := pname\<rparr>) s, OS_ERR_NONE))"

definition OSTaskQuery :: "INT8U \<Rightarrow> bool \<Rightarrow> os \<Rightarrow> INT8U \<times> os_tcb option" where
  "OSTaskQuery prio pdata s =
     (if prio > OS_LOWEST_PRIO \<and> prio \<noteq> OS_PRIO_SELF then (OS_ERR_PRIO_INVALID, None)
      else if \<not> pdata then (OS_ERR_PDATA_NULL, None)
      else case task_arg prio s of
             NullTCB \<Rightarrow> (OS_ERR_PRIO, None)
           | OS_TCB_RESERVED \<Rightarrow> (OS_ERR_TASK_NOT_EXIST, None)
           | TCB t \<Rightarrow> (OS_ERR_NONE, Some (OSTCBTbl s t)))"

text \<open>The register services do not test the entry of the priority table.\<close>

definition reg_task :: "INT8U \<Rightarrow> os \<Rightarrow> nat" where
  "reg_task prio s = tcb_ix (if prio = OS_PRIO_SELF then OSTCBCur s else OSTCBPrioTbl s (unat prio))"

definition OSTaskRegGet :: "INT8U \<Rightarrow> INT8U \<Rightarrow> os \<Rightarrow> INT32U \<times> INT8U" where
  "OSTaskRegGet prio i s =
     (if prio \<ge> OS_LOWEST_PRIO \<and> prio \<noteq> OS_PRIO_SELF then (0, OS_ERR_PRIO_INVALID)
      else if unat i \<ge> OS_TASK_REG_TBL_SIZE then (0, OS_ERR_ID_INVALID)
      else (OSTCBRegTbl (OSTCBTbl s (reg_task prio s)) ! unat i, OS_ERR_NONE))"

definition OSTaskRegGetID :: "os \<Rightarrow> os \<times> INT8U \<times> INT8U" where
  "OSTaskRegGetID s =
     (if unat (OSTaskRegNextAvailID s) \<ge> OS_TASK_REG_TBL_SIZE
      then (s, of_nat OS_TASK_REG_TBL_SIZE, OS_ERR_NO_MORE_ID_AVAIL)
      else (s\<lparr>OSTaskRegNextAvailID := OSTaskRegNextAvailID s + 1\<rparr>, OSTaskRegNextAvailID s, OS_ERR_NONE))"

definition OSTaskRegSet :: "INT8U \<Rightarrow> INT8U \<Rightarrow> INT32U \<Rightarrow> os \<Rightarrow> os \<times> INT8U" where
  "OSTaskRegSet prio i val s =
     (if prio \<ge> OS_LOWEST_PRIO \<and> prio \<noteq> OS_PRIO_SELF then (s, OS_ERR_PRIO_INVALID)
      else if unat i \<ge> OS_TASK_REG_TBL_SIZE then (s, OS_ERR_ID_INVALID)
      else (upd_tcb (reg_task prio s) (\<lambda>p. p\<lparr>OSTCBRegTbl := (OSTCBRegTbl p)[unat i := val]\<rparr>) s,
            OS_ERR_NONE))"

text \<open>The statistics task records the use of every stack it can check.\<close>

fun OS_TaskStatStkChk_loop :: "nat \<Rightarrow> INT8U \<Rightarrow> os \<Rightarrow> os option" where
  "OS_TaskStatStkChk_loop 0 prio s = Some s"
| "OS_TaskStatStkChk_loop (Suc n) prio s =
     (case OSTaskStkChk prio True s of
        None \<Rightarrow> None
      | Some (err, data) \<Rightarrow>
          let s = (if err = OS_ERR_NONE
                   then case OSTCBPrioTbl s (unat prio) of
                          TCB t \<Rightarrow> upd_tcb t (\<lambda>p. p\<lparr>OSTCBStkBase := OSTCBStkBottom p + unat (OSTCBStkSize p),
                                     OSTCBStkUsed := OSUsed (the data)\<rparr>) s
                        | _ \<Rightarrow> s
                   else s)
          in OS_TaskStatStkChk_loop n (prio + 1) s)"

definition OS_TaskStatStkChk :: "os \<Rightarrow> os option" where
  "OS_TaskStatStkChk = OS_TaskStatStkChk_loop (unat OS_TASK_IDLE_PRIO + 1) 0"

text \<open>
  The arithmetic of one round of the statistics task: the idle counter of the interval against
  the largest one, in a signed byte.
\<close>

definition OS_TaskStat_usage :: "os \<Rightarrow> os" where
  "OS_TaskStat_usage s =
     (let s = s\<lparr>OSIdleCtrRun := OSIdleCtr s\<rparr>;
          usage = (100 - ucast (OSIdleCtrRun s div OSIdleCtrMax s) :: INT8U)
      in if 0 \<le> sint usage then s\<lparr>OSCPUUsage := usage\<rparr>
         else s\<lparr>OSCPUUsage := 0, OSIdleCtrMax := OSIdleCtrRun s div 100\<rparr>)"

section \<open>Suspension keeps the invariant\<close>

lemma stat_suspend_bits:
  "suspended (p\<lparr>OSTCBStat := OSTCBStat p OR OS_STAT_SUSPEND\<rparr>)"
  "pending (p\<lparr>OSTCBStat := OSTCBStat p OR OS_STAT_SUSPEND\<rparr>) = pending p"
  "multi (p\<lparr>OSTCBStat := OSTCBStat p OR OS_STAT_SUSPEND\<rparr>) = multi p"
  "\<not> suspended (p\<lparr>OSTCBStat := OSTCBStat p AND NOT OS_STAT_SUSPEND\<rparr>)"
  "pending (p\<lparr>OSTCBStat := OSTCBStat p AND NOT OS_STAT_SUSPEND\<rparr>) = pending p"
  "multi (p\<lparr>OSTCBStat := OSTCBStat p AND NOT OS_STAT_SUSPEND\<rparr>) = multi p"
  by (simp_all add: stat_iffs bit_or_iff bit_and_iff bit_not_iff)

lemma awaited_stat [simp]: "awaited (p\<lparr>OSTCBStat := x\<rparr>) = awaited p"
  by (simp add: awaited_def split: option.split)

lemma suspend_type_bits:
  "OSTCBStat (p\<lparr>OSTCBStat := OSTCBStat p OR OS_STAT_SUSPEND\<rparr>) AND OS_STAT_PEND_ANY AND m = OSTCBStat p AND OS_STAT_PEND_ANY AND m"
  "OSTCBStat (p\<lparr>OSTCBStat := OSTCBStat p AND NOT OS_STAT_SUSPEND\<rparr>) AND OS_STAT_PEND_ANY AND m = OSTCBStat p AND OS_STAT_PEND_ANY AND m"
proof -
  have "(x OR OS_STAT_SUSPEND) AND OS_STAT_PEND_ANY = x AND OS_STAT_PEND_ANY"
    "(x AND NOT OS_STAT_SUSPEND) AND OS_STAT_PEND_ANY = x AND OS_STAT_PEND_ANY" for x
    by (simp_all add: bit.conj_disj_distrib2 and.assoc)
  then have "(x OR OS_STAT_SUSPEND) AND OS_STAT_PEND_ANY AND m = x AND OS_STAT_PEND_ANY AND m"
    "(x AND NOT OS_STAT_SUSPEND) AND OS_STAT_PEND_ANY AND m = x AND OS_STAT_PEND_ANY AND m" for x
    unfolding and.assoc [symmetric] by simp_all
  then show "OSTCBStat (p\<lparr>OSTCBStat := OSTCBStat p OR OS_STAT_SUSPEND\<rparr>) AND OS_STAT_PEND_ANY AND m = OSTCBStat p AND OS_STAT_PEND_ANY AND m"
    "OSTCBStat (p\<lparr>OSTCBStat := OSTCBStat p AND NOT OS_STAT_SUSPEND\<rparr>) AND OS_STAT_PEND_ANY AND m = OSTCBStat p AND OS_STAT_PEND_ANY AND m"
    by simp_all
qed

lemma suspend_fields:
  "OSTCBDly (p\<lparr>OSTCBStat := x\<rparr>) = OSTCBDly p" "OSTCBEventPtr (p\<lparr>OSTCBStat := x\<rparr>) = OSTCBEventPtr p"
  "OSTCBEventMultiPtr (p\<lparr>OSTCBStat := x\<rparr>) = OSTCBEventMultiPtr p"
  "OSTCBStatPend (p\<lparr>OSTCBStat := x\<rparr>) = OSTCBStatPend p" "OSTCBFlagNode (p\<lparr>OSTCBStat := x\<rparr>) = OSTCBFlagNode p"
  by simp_all

lemma task_ok_suspend:
  "task_ok R W ty p \<Longrightarrow> task_ok False W ty (p\<lparr>OSTCBStat := OSTCBStat p OR OS_STAT_SUSPEND\<rparr>)"
  unfolding task_ok_def stat_suspend_bits(2,3) suspend_type_bits(1) awaited_stat suspend_fields
  using stat_suspend_bits(1) [of p] by blast

lemma task_ok_resume:
  "task_ok False W ty p \<Longrightarrow>
     task_ok (\<not> pending p \<and> OSTCBDly p = 0) W ty (p\<lparr>OSTCBStat := OSTCBStat p AND NOT OS_STAT_SUSPEND\<rparr>)"
  unfolding task_ok_def stat_suspend_bits(5,6) suspend_type_bits(2) awaited_stat suspend_fields
  using stat_suspend_bits(4) [of p] by blast

lemma cont_ok_suspend:
  "cont_ok c W (p\<lparr>OSTCBStat := OSTCBStat p OR OS_STAT_SUSPEND\<rparr>) = cont_ok c W p"
  "cont_ok c W (p\<lparr>OSTCBStat := OSTCBStat p AND NOT OS_STAT_SUSPEND\<rparr>) = cont_ok c W p"
  unfolding cont_ok_def stat_suspend_bits suspend_fields by (rule refl)+

lemma suspend_pre_inv:
  assumes inv: "pre_inv k s" and at: "task_at s n t" and n: "n \<noteq> 63"
  shows "pre_inv k (upd_tcb t (\<lambda>p. p\<lparr>OSTCBStat := OSTCBStat p OR OS_STAT_SUSPEND\<rparr>) (OS_RdyListRemove t s))"
    (is "pre_inv k ?s")
proof -
  let ?p = "OSTCBTbl s t"
  let ?q = "?p\<lparr>OSTCBStat := OSTCBStat ?p OR OS_STAT_SUSPEND\<rparr>"
  note i = pre_invD [OF inv]
  have xy: "xy_ok ?p" and pn: "prio_of ?p = n" and n64: "n < 64"
    using task_at_xy [OF i(1) at] at by (simp_all add: task_at_def)
  note e = RdyListRemove_effect [OF xy, unfolded pn]
  note okr = kernel_invD(1) [OF i(1)]
  have tcb: "OSTCBTbl ?s t = ?q" by (simp add: e)
  have w: "waits_on ?s m = waits_on s m" for m by (simp add: waits_on_def e)
  have o: "only_lists s ?s" by (rule only_lists_trans [OF e(5)]) simp
  have ty: "event_type ?s = event_type s" by (rule same_kernelD(2) [OF only_lists_kernel(1) [OF o]])
  have tch: "touches n t s ?s"
    using okr kernel_invD(2) [OF i(1)] n64 only_lists_kernel [OF o]
    by (simp add: touches_def e bm_ok_del bm_mem_del tcb_coords_def)
  have ok: "task_ok (n \<in> bm_mem (rdy s)) (waits_on s n) (event_type s) ?p" using kernel_invD(6) [OF i(1) at] .
  show ?thesis
  proof (rule pre_inv_touches [OF inv at tch])
    have r: "n \<notin> bm_mem (rdy ?s)" using okr n64 by (simp add: e bm_mem_del)
    show "task_ok (n \<in> bm_mem (rdy ?s)) (waits_on ?s n) (event_type ?s) (OSTCBTbl ?s t)"
      unfolding w ty tcb using task_ok_suspend [OF ok] r by simp
    show "cont_ok (k t) (waits_on ?s n) (OSTCBTbl ?s t)"
      unfolding w tcb cont_ok_suspend using i(8) [OF at] .
  qed (use n i(5) in simp_all)
qed

lemma prio_tbl_task_at:
  assumes "pre_inv k s" and "n < 64" and "OSTCBPrioTbl s n = TCB t"
  shows "task_at s n t"
  using assms pre_invD(10) [OF assms(1)] by (auto simp: task_at_def task_list_def)

definition suspend_task :: "nat \<Rightarrow> os \<Rightarrow> os" where
  "suspend_task t s = upd_tcb t (\<lambda>p. p\<lparr>OSTCBStat := OSTCBStat p OR OS_STAT_SUSPEND\<rparr>) (OS_RdyListRemove t s)"

lemma TaskSuspend_unfold:
  fixes s :: os and prio :: INT8U
  defines "cp \<equiv> OSTCBPrio (OSTCBTbl s (cur s))"
  defines "q \<equiv> if prio = OS_PRIO_SELF then cp else prio"
  shows "fst (OSTaskSuspend prio s) =
    (if prio = 63 \<or> (prio \<ge> 63 \<and> prio \<noteq> 255) then s
     else case OSTCBPrioTbl s (unat q) of
            TCB t \<Rightarrow> if q = cp then OS_Sched (suspend_task t s) else suspend_task t s
          | _ \<Rightarrow> s)"
  unfolding OSTaskSuspend_def Let_def suspend_task_def q_def cp_def
  by (cases "prio = 255") (simp_all split: tcb_ptr.split)

lemma TaskSuspend_sys_inv:
  assumes inv: "sys_inv k s" and idle: "prio = OS_PRIO_SELF \<Longrightarrow> unat (OSPrioCur s) \<noteq> 63"
  shows "sys_inv k (fst (OSTaskSuspend prio s))"
proof -
  let ?cp = "OSTCBPrio (OSTCBTbl s (cur s))"
  define q where "q = (if prio = OS_PRIO_SELF then ?cp else prio)"
  note inv' = sys_invD(1) [OF inv]
  note i = pre_invD [OF inv']
  have cp: "unat ?cp = unat (OSPrioCur s)" using i(6) by (simp add: task_at_def)
  note u = TaskSuspend_unfold [of prio s, folded q_def]
  show ?thesis
  proof (cases "(prio = 63 \<or> (prio \<ge> 63 \<and> prio \<noteq> 255)) \<or> (\<forall>t. OSTCBPrioTbl s (unat q) \<noteq> TCB t)")
    case True
    then have "fst (OSTaskSuspend prio s) = s" unfolding u by (auto split: tcb_ptr.split)
    with inv show ?thesis by simp
  next
    case False
    then obtain t where t: "OSTCBPrioTbl s (unat q) = TCB t" by blast
    have q64: "unat q < 64" and q63: "unat q \<noteq> 63"
    proof -
      have "unat q < 64 \<and> unat q \<noteq> 63"
      proof (cases "prio = 255")
        case True
        then show ?thesis using idle cp i(6) by (simp add: q_def task_at_def)
      next
        case pr: False
        then have "unat prio < 63" using False by (simp add: word_le_nat_alt)
        then show ?thesis using pr by (simp add: q_def)
      qed
      then show "unat q < 64" "unat q \<noteq> 63" by simp_all
    qed
    have at: "task_at s (unat q) t" using prio_tbl_task_at [OF inv' q64 t] .
    let ?s = "suspend_task t s"
    have p: "pre_inv k ?s" unfolding suspend_task_def using suspend_pre_inv [OF inv' at q63] .
    have e: "fst (OSTaskSuspend prio s) = (if q = ?cp then OS_Sched ?s else ?s)"
      unfolding u t using False by auto
    have "top_runs ?s" if "q \<noteq> ?cp"
    proof -
      have xy: "xy_ok (OSTCBTbl s t)" and pn: "prio_of (OSTCBTbl s t) = unat q"
        using task_at_xy [OF i(1) at] at by (simp_all add: task_at_def)
      note r = RdyListRemove_effect [OF xy, unfolded pn]
      have m: "bm_mem (rdy ?s) = bm_mem (rdy s) - {unat q}"
        using kernel_invD(1) [OF i(1)] q64 by (simp add: suspend_task_def r bm_mem_del)
      have o: "only_lists s ?s" unfolding suspend_task_def by (rule only_lists_trans [OF r(5)]) simp
      have ne: "bm_mem (rdy s) \<noteq> {}" using kernel_invD(7) [OF i(1)] by blast
      have d: "unat q \<noteq> unat (OSPrioCur s)" using that cp word_unat_eq_iff [of q ?cp] by simp
      show ?thesis
        unfolding top_runs_def
      proof
        assume "OSIntNesting ?s = 0 \<and> OSLockNesting ?s = 0"
        then have c: "unat (OSPrioCur s) = Min (bm_mem (rdy s))"
          using sys_invD(2) [OF inv] only_lists_global [OF o] by (simp add: top_runs_def)
        have "Min (bm_mem (rdy s) - {unat q}) = Min (bm_mem (rdy s))"
          using d c ne Min_in [OF bm.finite_mem ne] by (intro Min_eqI) auto
        then show "unat (OSPrioCur ?s) = Min (bm_mem (rdy ?s))"
          using c only_lists_global [OF o] by (simp add: m)
      qed
    qed
    then show ?thesis using Sched_sys_inv [OF p] p by (simp add: e sys_inv_def)
  qed
qed

lemma resume_task_pre_inv:
  assumes inv: "pre_inv k s" and at: "task_at s n t" and su: "suspended (OSTCBTbl s t)"
  defines "s1 \<equiv> upd_tcb t (\<lambda>p. p\<lparr>OSTCBStat := OSTCBStat p AND NOT OS_STAT_SUSPEND\<rparr>) s"
  shows "if pending (OSTCBTbl s t) \<or> OSTCBDly (OSTCBTbl s t) \<noteq> 0 then pre_inv k s1 else pre_inv k (OS_RdyListInsert t s1)"
proof -
  let ?p = "OSTCBTbl s t"
  let ?q = "?p\<lparr>OSTCBStat := OSTCBStat ?p AND NOT OS_STAT_SUSPEND\<rparr>"
  define r where "r \<longleftrightarrow> \<not> pending ?p \<and> OSTCBDly ?p = 0"
  define s2 where "s2 = (if r then OS_RdyListInsert t s1 else s1)"
  note i = pre_invD [OF inv]
  have xy: "xy_ok ?p" and pn: "prio_of ?p = n" and n64: "n < 64"
    using task_at_xy [OF i(1) at] at by (simp_all add: task_at_def)
  have "xy_ok (OSTCBTbl s1 t)" using xy by (simp add: s1_def xy_ok_def)
  note e = RdyListInsert_effect [OF this]
  note okr = kernel_invD(1) [OF i(1)]
  have ok: "task_ok (n \<in> bm_mem (rdy s)) (waits_on s n) (event_type s) ?p" using kernel_invD(6) [OF i(1) at] .
  then have nr: "n \<notin> bm_mem (rdy s)" using su by (simp add: task_ok_def)
  have tcb: "OSTCBTbl s2 = (OSTCBTbl s)(t := ?q)" by (simp add: s2_def e) (simp add: s1_def)
  have rd: "rdy s2 = (if r then bm_ins n (rdy s) else rdy s)" by (simp add: s2_def e) (simp add: s1_def pn)
  have wls: "wl s2 d = wl s d" for d by (simp add: s2_def e) (simp add: s1_def)
  then have w: "waits_on s2 m = waits_on s m" for m by (simp add: waits_on_def)
  have o: "only_lists s s2" using only_lists_trans [OF _ e(5), of s] by (simp add: s2_def s1_def)
  have ty: "event_type s2 = event_type s" by (rule same_kernelD(2) [OF only_lists_kernel(1) [OF o]])
  have tch: "touches n t s s2"
    using okr kernel_invD(2) [OF i(1)] n64 only_lists_kernel [OF o]
    by (simp add: touches_def tcb rd wls bm_ok_ins bm_mem_ins tcb_coords_def)
  have mem: "n \<in> bm_mem (rdy s2) \<longleftrightarrow> r" using nr okr n64 by (simp add: rd bm_mem_ins)
  have "pre_inv k s2"
  proof (rule pre_inv_touches [OF inv at tch])
    show "task_ok (n \<in> bm_mem (rdy s2)) (waits_on s2 n) (event_type s2) (OSTCBTbl s2 t)"
      unfolding w ty mem r_def tcb fun_upd_same
      by (rule task_ok_resume) (use ok nr in simp)
    show "cont_ok (k t) (waits_on s2 n) (OSTCBTbl s2 t)"
      unfolding w tcb fun_upd_same cont_ok_suspend using i(8) [OF at] .
    show "63 \<in> bm_mem (rdy s2)" if "n = 63" using that nr kernel_invD(7) [OF i(1)] by simp
  qed (use i(5) in simp_all)
  then show ?thesis by (auto simp: s2_def r_def)
qed

lemma TaskResume_sys_inv:
  assumes inv: "sys_inv k s"
  shows "sys_inv k (fst (OSTaskResume prio s))"
proof -
  note inv' = sys_invD(1) [OF inv]
  note i = pre_invD [OF inv']
  show ?thesis
  proof (cases "\<exists>t. prio < 63 \<and> OSTCBPrioTbl s (unat prio) = TCB t \<and> suspended (OSTCBTbl s t)")
    case False
    then have "fst (OSTaskResume prio s) = s"
      by (auto simp: OSTaskResume_def suspended_def split: tcb_ptr.splits)
    with inv show ?thesis by simp
  next
    case True
    then obtain t where t: "prio < 63" "OSTCBPrioTbl s (unat prio) = TCB t" "suspended (OSTCBTbl s t)" by blast
    have "unat prio < 64" using t(1) by (simp add: word_less_nat_alt)
    then have at: "task_at s (unat prio) t" using prio_tbl_task_at [OF inv' _ t(2)] by simp
    let ?s = "upd_tcb t (\<lambda>p. p\<lparr>OSTCBStat := OSTCBStat p AND NOT OS_STAT_SUSPEND\<rparr>) s"
    have pe: "OSTCBStat (OSTCBTbl ?s t) AND OS_STAT_PEND_ANY = OS_STAT_RDY \<longleftrightarrow> \<not> pending (OSTCBTbl s t)"
      using stat_suspend_bits(5) [of "OSTCBTbl s t"] by (simp add: pending_def)
    have run: "OSRunning (OS_RdyListInsert t ?s)"
      using i(9) by (simp add: OS_RdyListInsert_def set_rdy_def upd_tcb_def Let_def)
    have e: "fst (OSTaskResume prio s) =
      (if pending (OSTCBTbl s t) \<or> OSTCBDly (OSTCBTbl s t) \<noteq> 0 then ?s else OS_Sched (OS_RdyListInsert t ?s))"
      using t pe run by (simp add: OSTaskResume_def suspended_def Let_def)
    note p = resume_task_pre_inv [OF inv' at t(3)]
    have "top_runs ?s" using sys_invD(2) [OF inv] by (simp add: top_runs_def) (simp add: upd_tcb_def)
    then show ?thesis
      using p Sched_sys_inv [of k "OS_RdyListInsert t ?s"] by (auto simp: e sys_inv_def split: if_splits)
  qed
qed

section \<open>What suspension does\<close>

text \<open>A call of the scheduler changes no task when the running task is the one it would pick.\<close>

lemma Sched_stays:
  assumes "bm_ok (rdy s)" and "bm_mem (rdy s) \<noteq> {}" and "top_runs s"
  shows "OSTCBTbl (OS_Sched s) = OSTCBTbl s" and "OSTCBCur (OS_Sched s) = OSTCBCur s"
proof -
  have "OSTCBTbl (OS_Sched s) = OSTCBTbl s \<and> OSTCBCur (OS_Sched s) = OSTCBCur s"
  proof (cases "OSIntNesting s = 0 \<and> OSLockNesting s = 0")
    case True
    then have "unat (OSPrioCur s) = unat (bm_top (rdy s))"
      using assms by (simp add: top_runs_def bm.top_eq_Min)
    then have "bm_top (rdy s) = OSPrioCur s" by (simp add: word_unat_eq_iff)
    then show ?thesis using True by (simp add: OS_Sched_def switch_defs bm_top_def rdy_def)
  qed (auto simp: OS_Sched_def)
  then show "OSTCBTbl (OS_Sched s) = OSTCBTbl s" "OSTCBCur (OS_Sched s) = OSTCBCur s" by simp_all
qed

lemma suspend_other:
  assumes inv: "sys_inv k s" and at: "task_at s (unat prio) t" and p: "prio < 63" "unat prio \<noteq> unat (OSPrioCur s)"
  shows "OSTaskSuspend prio s = (suspend_task t s, OS_ERR_NONE)"
proof -
  note i = pre_invD [OF sys_invD(1) [OF inv]]
  have c: "prio \<noteq> OSTCBPrio (OSTCBTbl s (cur s))" using i(6) p(2) by (auto simp: task_at_def)
  have "prio \<noteq> 63" "\<not> 63 \<le> prio" "prio \<noteq> 255" using p(1) by auto
  then show ?thesis
    using at c by (simp add: OSTaskSuspend_def suspend_task_def task_at_def Let_def)
qed

lemma stat_restored: "x AND OS_STAT_SUSPEND = 0 \<Longrightarrow> (x OR OS_STAT_SUSPEND) AND NOT OS_STAT_SUSPEND = (x :: INT8U)"
  unfolding bit.conj_disj_distrib2 using byte_and_not [of x 8] by simp

text \<open>C21: suspending a ready task other than the running one, which has no pend left to finish, takes
  exactly this task off the ready list and marks it; resuming it gives back the ready list, the control block and the running task as they
  were.\<close>

theorem suspend_resume:
  assumes inv: "sys_inv k s" and at: "task_at s (unat prio) t" and p: "prio < 63" "unat prio \<noteq> unat (OSPrioCur s)"
    and r: "unat prio \<in> bm_mem (rdy s)" "\<not> pending (OSTCBTbl s t)"
  defines "u \<equiv> fst (OSTaskSuspend prio s)"
  shows "snd (OSTaskSuspend prio s) = OS_ERR_NONE \<and> suspended (OSTCBTbl u t) \<and>
    bm_mem (rdy u) = bm_mem (rdy s) - {unat prio} \<and> OSTCBCur u = OSTCBCur s \<and>
    snd (OSTaskResume prio u) = OS_ERR_NONE \<and> bm_mem (rdy (fst (OSTaskResume prio u))) = bm_mem (rdy s) \<and>
    OSTCBTbl (fst (OSTaskResume prio u)) = OSTCBTbl s \<and> OSTCBCur (fst (OSTaskResume prio u)) = OSTCBCur s"
proof -
  let ?p = "OSTCBTbl s t" and ?n = "unat prio"
  note i = pre_invD [OF sys_invD(1) [OF inv]]
  have n: "?n < 63" using p(1) by (simp add: word_less_nat_alt)
  have su: "OSTaskSuspend prio s = (suspend_task t s, OS_ERR_NONE)" using suspend_other [OF inv at p] .
  have u: "u = suspend_task t s" by (simp add: u_def su)
  have xy: "xy_ok ?p" and pn: "prio_of ?p = ?n" using task_at_xy [OF i(1) at] at by (simp_all add: task_at_def)
  note e = RdyListRemove_effect [OF xy, unfolded pn]
  have ok: "task_ok True (waits_on s ?n) (event_type s) ?p" using kernel_invD(6) [OF i(1) at] r by simp
  then have ns: "OSTCBStat ?p AND OS_STAT_SUSPEND = 0" and d: "OSTCBDly ?p = 0"
    by (simp_all add: task_ok_def suspended_def)
  let ?q = "?p\<lparr>OSTCBStat := OSTCBStat ?p OR OS_STAT_SUSPEND\<rparr>"
  have ut: "OSTCBTbl u = (OSTCBTbl s)(t := ?q)" by (simp add: u suspend_task_def e)
  have ur: "rdy u = bm_del ?n (rdy s)" by (simp add: u suspend_task_def e)
  have uo: "only_lists s u" unfolding u suspend_task_def by (rule only_lists_trans [OF e(5)]) simp
  note g = only_lists_global [OF uo]
  have um: "bm_mem (rdy u) = bm_mem (rdy s) - {?n}" using kernel_invD(1) [OF i(1)] n by (simp add: ur bm_mem_del)
  have sq: "suspended ?q" "\<not> pending ?q" "OSTCBDly ?q = 0"
    using r(2) d by (simp_all add: stat_suspend_bits)
  define v where "v = upd_tcb t (\<lambda>p. p\<lparr>OSTCBStat := OSTCBStat p AND NOT OS_STAT_SUSPEND\<rparr>) u"
  have vt: "OSTCBTbl v = OSTCBTbl s" using stat_restored [OF ns] by (simp add: v_def upd_tcb_def ut)
  have vr: "rdy v = rdy u" "only_lists s v" using only_lists_trans [OF uo, of v] by (simp_all add: v_def)
  have xv: "xy_ok (OSTCBTbl v t)" "prio_of (OSTCBTbl v t) = ?n" using xy pn by (simp_all add: vt)
  define w where "w = OS_RdyListInsert t v"
  note ew = RdyListInsert_effect [OF xv(1), folded w_def, unfolded xv(2)]
  have wr: "bm_ok (rdy w)" "bm_mem (rdy w) = bm_mem (rdy s)"
    using kernel_invD(1) [OF i(1)] n r(1) by (auto simp: ew(1) vr(1) ur bm_ok_ins bm_ok_del bm_mem_ins bm_mem_del)
  have wo: "only_lists s w" using only_lists_trans [OF vr(2) ew(5)] .
  have "top_runs w" using sys_invD(2) [OF inv] only_lists_global [OF wo] by (simp add: top_runs_def wr)
  note st = Sched_stays [OF wr(1) _ this]
  have ne: "bm_mem (rdy w) \<noteq> {}" using r(1) wr(2) by blast
  have pr: "\<not> 63 \<le> prio" using p(1) by auto
  have "OSTCBPrioTbl u ?n = TCB t" using at g(1) by (simp add: task_at_def)
  moreover have "upd_tcb t (\<lambda>p. p\<lparr>OSTCBStat := OSTCBStat p AND - 9\<rparr>) u = v" by (simp add: v_def)
  moreover have "OSTCBStat (OSTCBTbl u t) AND OS_STAT_SUSPEND \<noteq> 0" using sq(1) by (simp add: ut suspended_def)
  moreover have "OSTCBStat (OSTCBTbl v t) AND OS_STAT_PEND_ANY = 0" using r(2) by (simp add: vt pending_def)
  moreover have "OSRunning w" using i(9) only_lists_global(6) [OF wo] by simp
  ultimately have re: "OSTaskResume prio u = (OS_Sched w, OS_ERR_NONE)"
    using pr d by (simp add: OSTaskResume_def Let_def vt w_def)
  show ?thesis
    using st [OF ne] wr(2) ew(3) vt only_lists_global(4) [OF wo] sq(1) um g(4)
    by (simp add: su u [symmetric] re ut)
qed

text \<open>The example: an interrupt handler has ended the delay of task 1.\<close>

definition ex_isr :: os where
  "ex_isr = fst (OSTimeDlyResume 5 (OSIntEnter (ex_os OS_EVENT_TYPE_SEM False)))"

lemma ex_isr_inv: "sys_inv (ex_conts (PendSem 0) False) ex_isr"
proof -
  have "sys_inv (ex_conts (PendSem 0) False) (ex_os OS_EVENT_TYPE_SEM False)" by (rule ex_sys_inv) simp_all
  then have "sys_inv (ex_conts (PendSem 0) False) (OSIntEnter (ex_os OS_EVENT_TYPE_SEM False))"
    using IntEnter_pre_inv [OF sys_invD(1)] by (intro pre_sys_inv) blast+
  then show ?thesis unfolding ex_isr_def by (rule TimeDlyResume_sys_inv)
qed

lemma ex_isr_eval:
  "OSTCBTbl ex_isr 1 = (ex_waiter OS_EVENT_TYPE_SEM False)\<lparr>OSTCBDly := 0\<rparr>"
  "OSTCBPrioTbl ex_isr = OSTCBPrioTbl (ex_os OS_EVENT_TYPE_SEM False)" "OSPrioCur ex_isr = 10"
  "rdy ex_isr = bm_ins 5 (rdy (ex_os OS_EVENT_TYPE_SEM False))"
proof -
  let ?s = "OSIntEnter (ex_os OS_EVENT_TYPE_SEM False)"
  let ?u = "upd_tcb 1 (\<lambda>p. p\<lparr>OSTCBDly := 0\<rparr>) ?s"
  have s: "?s = (ex_os OS_EVENT_TYPE_SEM False)\<lparr>OSIntNesting := 1\<rparr>" by (simp add: OSIntEnter_def)
  have ut: "OSTCBTbl ?u 1 = (ex_waiter OS_EVENT_TYPE_SEM False)\<lparr>OSTCBDly := 0\<rparr>" by (simp add: s upd_tcb_def)
  have x: "xy_ok (OSTCBTbl ?u 1)" using ex_xy(2) [of OS_EVENT_TYPE_SEM False] unfolding ut by (simp add: xy_ok_def)
  note e = DlyExpire_effect [OF x, unfolded ut]
  have q: "\<not> suspended ((ex_waiter OS_EVENT_TYPE_SEM False)\<lparr>OSTCBDly := 0\<rparr>)"
    "\<not> pending ((ex_waiter OS_EVENT_TYPE_SEM False)\<lparr>OSTCBDly := 0\<rparr>)" by (simp_all add: suspended_def pending_def)
  have i: "OSIntNesting (OS_DlyExpire 1 ?u) = 1"
    using only_lists_global(2) [OF e(4)] by (simp add: s upd_tcb_def)
  have r: "ex_isr = OS_DlyExpire 1 ?u"
    unfolding ex_isr_def by (simp add: OSTimeDlyResume_def s OS_Sched_def i [unfolded s One_nat_def] Let_def)
  show "OSTCBTbl ex_isr 1 = (ex_waiter OS_EVENT_TYPE_SEM False)\<lparr>OSTCBDly := 0\<rparr>"
    unfolding r e(3) using q by (simp add: ex_waiter_def ex_tcb_def set_prio_xy_def zero_tcb_def Let_def)
  show "OSTCBPrioTbl ex_isr = OSTCBPrioTbl (ex_os OS_EVENT_TYPE_SEM False)" "OSPrioCur ex_isr = 10"
    unfolding r only_lists_global [OF e(4)] by (simp_all add: s upd_tcb_def)
  show "rdy ex_isr = bm_ins 5 (rdy (ex_os OS_EVENT_TYPE_SEM False))"
    unfolding r e(1) using q by (simp add: s rdy_def upd_tcb_def)
qed

lemma suspend_resume_witness:
  "suspended (OSTCBTbl (fst (OSTaskSuspend 5 ex_isr)) 1) \<and>
   OSTCBTbl (fst (OSTaskResume 5 (fst (OSTaskSuspend 5 ex_isr)))) = OSTCBTbl ex_isr"
proof -
  have "task_at ex_isr 5 1" "5 \<in> bm_mem (rdy ex_isr)" "\<not> pending (OSTCBTbl ex_isr 1)"
    by (simp_all add: task_at_def ex_isr_eval [unfolded One_nat_def] bm_mem_ins pending_def)
  then show ?thesis
    using suspend_resume [OF ex_isr_inv, of 5 1] by (simp add: ex_isr_eval(3))
qed

end
