(* ===== verification/UCOS_Tmr.thy ===== *)
theory UCOS_Tmr
  imports UCOS_TaskCtl
begin

text \<open>
  The software timers of \<open>os_tmr.c\<close>: a wheel of seven spokes, each a doubly linked list of the
  running timers whose expiry time has that remainder.  A callback is application code, the
  parameter \<open>cb\<close>: the number of the function, the timer, the argument, and what it does to the
  state.
\<close>

abbreviation (input) OS_TMR_LINK_DLY :: INT8U where "OS_TMR_LINK_DLY \<equiv> 0"
abbreviation (input) OS_TMR_LINK_PERIODIC :: INT8U where "OS_TMR_LINK_PERIODIC \<equiv> 1"

type_synonym callbacks = "nat \<Rightarrow> nat \<Rightarrow> voidp \<Rightarrow> os \<Rightarrow> os"

definition upd_tmr :: "nat \<Rightarrow> (os_tmr \<Rightarrow> os_tmr) \<Rightarrow> os \<Rightarrow> os" where
  "upd_tmr t f s = s\<lparr>OSTmrTbl := (OSTmrTbl s)(t := f (OSTmrTbl s t))\<rparr>"

definition upd_spoke :: "nat \<Rightarrow> (os_tmr_wheel \<Rightarrow> os_tmr_wheel) \<Rightarrow> os \<Rightarrow> os" where
  "upd_spoke i f s = s\<lparr>OSTmrWheelTbl := (OSTmrWheelTbl s)(i := f (OSTmrWheelTbl s i))\<rparr>"

section \<open>The pool and the wheel\<close>

definition OSTmr_Alloc :: "os \<Rightarrow> os \<times> nat option" where
  "OSTmr_Alloc s =
     (case OSTmrFreeList s of
        None \<Rightarrow> (s, None)
      | Some t \<Rightarrow>
          let s = s\<lparr>OSTmrFreeList := OSTmrNext (OSTmrTbl s t)\<rparr>;
              s = upd_tmr t (\<lambda>p. p\<lparr>OSTmrNext := None, OSTmrPrev := None\<rparr>) s
          in (s\<lparr>OSTmrUsed := OSTmrUsed s + 1, OSTmrFree := OSTmrFree s - 1\<rparr>, Some t))"

definition OSTmr_Free :: "nat \<Rightarrow> os \<Rightarrow> os" where
  "OSTmr_Free t s =
     (let s = upd_tmr t (\<lambda>p. p\<lparr>OSTmrState := OS_TMR_STATE_UNUSED, OSTmrOpt := OS_TMR_OPT_NONE,
                OSTmrPeriod := 0, OSTmrMatch := 0, OSTmrCallback := None, OSTmrCallbackArg := NULL,
                OSTmrName := Some ''?'', OSTmrPrev := None, OSTmrNext := OSTmrFreeList s\<rparr>) s;
          s = s\<lparr>OSTmrFreeList := Some t\<rparr>
      in s\<lparr>OSTmrUsed := OSTmrUsed s - 1, OSTmrFree := OSTmrFree s + 1\<rparr>)"

definition tmr_spoke :: "INT32U \<Rightarrow> nat" where
  "tmr_spoke time = unat (time mod of_nat OS_TMR_CFG_WHEEL_SIZE)"

definition OSTmr_Link :: "nat \<Rightarrow> INT8U \<Rightarrow> os \<Rightarrow> os" where
  "OSTmr_Link t ty s =
     (let s = upd_tmr t (\<lambda>p. p\<lparr>OSTmrState := OS_TMR_STATE_RUNNING\<rparr>) s;
          s = upd_tmr t (\<lambda>p. p\<lparr>OSTmrMatch :=
                (if ty = OS_TMR_LINK_PERIODIC then OSTmrPeriod p + OSTmrTime s
                 else if OSTmrDly p = 0 then OSTmrPeriod p + OSTmrTime s
                 else OSTmrDly p + OSTmrTime s)\<rparr>) s;
          spoke = tmr_spoke (OSTmrMatch (OSTmrTbl s t));
          s = (case OSTmrFirst (OSTmrWheelTbl s spoke) of
                 None \<Rightarrow>
                   let s = upd_spoke spoke (\<lambda>w. w\<lparr>OSTmrFirst := Some t\<rparr>) s;
                       s = upd_tmr t (\<lambda>p. p\<lparr>OSTmrNext := None\<rparr>) s
                   in upd_spoke spoke (\<lambda>w. w\<lparr>OSTmrEntries := 1\<rparr>) s
               | Some t1 \<Rightarrow>
                   let s = upd_spoke spoke (\<lambda>w. w\<lparr>OSTmrFirst := Some t\<rparr>) s;
                       s = upd_tmr t (\<lambda>p. p\<lparr>OSTmrNext := Some t1\<rparr>) s;
                       s = upd_tmr t1 (\<lambda>p. p\<lparr>OSTmrPrev := Some t\<rparr>) s
                   in upd_spoke spoke (\<lambda>w. w\<lparr>OSTmrEntries := OSTmrEntries w + 1\<rparr>) s)
      in upd_tmr t (\<lambda>p. p\<lparr>OSTmrPrev := None\<rparr>) s)"

definition OSTmr_Unlink :: "nat \<Rightarrow> os \<Rightarrow> os" where
  "OSTmr_Unlink t s =
     (let spoke = tmr_spoke (OSTmrMatch (OSTmrTbl s t));
          p = OSTmrTbl s t;
          s = (if OSTmrFirst (OSTmrWheelTbl s spoke) = Some t
               then
                 let s = upd_spoke spoke (\<lambda>w. w\<lparr>OSTmrFirst := OSTmrNext p\<rparr>) s
                 in (case OSTmrNext p of None \<Rightarrow> s
                     | Some t1 \<Rightarrow> upd_tmr t1 (\<lambda>q. q\<lparr>OSTmrPrev := None\<rparr>) s)
               else
                 let t1 = the (OSTmrPrev p);
                     s = upd_tmr t1 (\<lambda>q. q\<lparr>OSTmrNext := OSTmrNext p\<rparr>) s
                 in (case OSTmrNext p of None \<Rightarrow> s
                     | Some t2 \<Rightarrow> upd_tmr t2 (\<lambda>q. q\<lparr>OSTmrPrev := Some t1\<rparr>) s));
          s = upd_tmr t (\<lambda>q. q\<lparr>OSTmrState := OS_TMR_STATE_STOPPED, OSTmrNext := None, OSTmrPrev := None\<rparr>) s
      in upd_spoke spoke (\<lambda>w. w\<lparr>OSTmrEntries := OSTmrEntries w - 1\<rparr>) s)"

section \<open>The services\<close>

definition OSTmrCreate ::
    "INT32U \<Rightarrow> INT32U \<Rightarrow> INT8U \<Rightarrow> nat option \<Rightarrow> voidp \<Rightarrow> string option \<Rightarrow> os
      \<Rightarrow> os \<times> nat option \<times> INT8U" where
  "OSTmrCreate dly period opt callback callback_arg pname s =
     (if opt = OS_TMR_OPT_PERIODIC \<and> period = 0 then (s, None, OS_ERR_TMR_INVALID_PERIOD)
      else if opt = OS_TMR_OPT_ONE_SHOT \<and> dly = 0 then (s, None, OS_ERR_TMR_INVALID_DLY)
      else if opt \<noteq> OS_TMR_OPT_PERIODIC \<and> opt \<noteq> OS_TMR_OPT_ONE_SHOT then (s, None, OS_ERR_TMR_INVALID_OPT)
      else if OSIntNesting s > 0 then (s, None, OS_ERR_TMR_ISR)
      else case OSTmr_Alloc (OSSchedLock s) of
             (s, None) \<Rightarrow> (OSSchedUnlock s, None, OS_ERR_TMR_NON_AVAIL)
           | (s, Some t) \<Rightarrow>
               let s = upd_tmr t (\<lambda>p. p\<lparr>OSTmrState := OS_TMR_STATE_STOPPED, OSTmrDly := dly,
                         OSTmrPeriod := period, OSTmrOpt := opt, OSTmrCallback := callback,
                         OSTmrCallbackArg := callback_arg,
                         OSTmrName := (case pname of None \<Rightarrow> Some ''?'' | Some n \<Rightarrow> Some n)\<rparr>) s
               in (OSSchedUnlock s, Some t, OS_ERR_NONE))"

text \<open>The guards the services share; \<open>isr\<close> is the error of a call from an interrupt.\<close>

definition tmr_guard :: "nat option \<Rightarrow> INT8U \<Rightarrow> os \<Rightarrow> INT8U + nat" where
  "tmr_guard ptmr isr s =
     (case ptmr of None \<Rightarrow> Inl OS_ERR_TMR_INVALID
      | Some t \<Rightarrow>
          if OSTmrType (OSTmrTbl s t) \<noteq> OS_TMR_TYPE then Inl OS_ERR_TMR_INVALID_TYPE
          else if OSIntNesting s > 0 then Inl isr else Inr t)"

definition OSTmrDel :: "nat option \<Rightarrow> os \<Rightarrow> os \<times> BOOLEAN \<times> INT8U" where
  "OSTmrDel ptmr s =
     (case tmr_guard ptmr OS_ERR_TMR_ISR s of Inl err \<Rightarrow> (s, False, err)
      | Inr t \<Rightarrow>
          let s = OSSchedLock s; st = OSTmrState (OSTmrTbl s t)
          in if st = OS_TMR_STATE_RUNNING
             then (OSSchedUnlock (OSTmr_Free t (OSTmr_Unlink t s)), True, OS_ERR_NONE)
             else if st = OS_TMR_STATE_STOPPED \<or> st = OS_TMR_STATE_COMPLETED
             then (OSSchedUnlock (OSTmr_Free t s), True, OS_ERR_NONE)
             else if st = OS_TMR_STATE_UNUSED then (OSSchedUnlock s, False, OS_ERR_TMR_INACTIVE)
             else (OSSchedUnlock s, False, OS_ERR_TMR_INVALID_STATE))"

definition OSTmrNameGet :: "nat option \<Rightarrow> bool \<Rightarrow> os \<Rightarrow> os \<times> INT8U \<times> INT8U \<times> string option" where
  "OSTmrNameGet ptmr pdest s =
     (if \<not> pdest then (s, 0, OS_ERR_TMR_INVALID_DEST, None)
      else case tmr_guard ptmr OS_ERR_NAME_GET_ISR s of Inl err \<Rightarrow> (s, 0, err, None)
      | Inr t \<Rightarrow>
          let s = OSSchedLock s; p = OSTmrTbl s t; st = OSTmrState p
          in if st = OS_TMR_STATE_RUNNING \<or> st = OS_TMR_STATE_STOPPED \<or> st = OS_TMR_STATE_COMPLETED
             then (OSSchedUnlock s, OS_StrLen (OSTmrName p), OS_ERR_NONE, OSTmrName p)
             else if st = OS_TMR_STATE_UNUSED then (OSSchedUnlock s, 0, OS_ERR_TMR_INACTIVE, None)
             else (OSSchedUnlock s, 0, OS_ERR_TMR_INVALID_STATE, None))"

definition OSTmrRemainGet :: "nat option \<Rightarrow> os \<Rightarrow> os \<times> INT32U \<times> INT8U" where
  "OSTmrRemainGet ptmr s =
     (case tmr_guard ptmr OS_ERR_TMR_ISR s of Inl err \<Rightarrow> (s, 0, err)
      | Inr t \<Rightarrow>
          let s = OSSchedLock s; p = OSTmrTbl s t; st = OSTmrState p
          in if st = OS_TMR_STATE_RUNNING then (OSSchedUnlock s, OSTmrMatch p - OSTmrTime s, OS_ERR_NONE)
             else if st = OS_TMR_STATE_STOPPED
             then (OSSchedUnlock s,
                   (if OSTmrOpt p = OS_TMR_OPT_PERIODIC
                    then if OSTmrDly p = 0 then OSTmrPeriod p else OSTmrDly p
                    else OSTmrDly p), OS_ERR_NONE)
             else if st = OS_TMR_STATE_COMPLETED then (OSSchedUnlock s, 0, OS_ERR_NONE)
             else if st = OS_TMR_STATE_UNUSED then (OSSchedUnlock s, 0, OS_ERR_TMR_INACTIVE)
             else (OSSchedUnlock s, 0, OS_ERR_TMR_INVALID_STATE))"

definition OSTmrStateGet :: "nat option \<Rightarrow> os \<Rightarrow> os \<times> INT8U \<times> INT8U" where
  "OSTmrStateGet ptmr s =
     (case tmr_guard ptmr OS_ERR_TMR_ISR s of Inl err \<Rightarrow> (s, 0, err)
      | Inr t \<Rightarrow>
          let s = OSSchedLock s; st = OSTmrState (OSTmrTbl s t)
          in (OSSchedUnlock s, st,
              if st = OS_TMR_STATE_UNUSED \<or> st = OS_TMR_STATE_STOPPED \<or>
                 st = OS_TMR_STATE_COMPLETED \<or> st = OS_TMR_STATE_RUNNING
              then OS_ERR_NONE else OS_ERR_TMR_INVALID_STATE))"

definition OSTmrStart :: "nat option \<Rightarrow> os \<Rightarrow> os \<times> BOOLEAN \<times> INT8U" where
  "OSTmrStart ptmr s =
     (case tmr_guard ptmr OS_ERR_TMR_ISR s of Inl err \<Rightarrow> (s, False, err)
      | Inr t \<Rightarrow>
          let s = OSSchedLock s; st = OSTmrState (OSTmrTbl s t)
          in if st = OS_TMR_STATE_RUNNING
             then (OSSchedUnlock (OSTmr_Link t OS_TMR_LINK_DLY (OSTmr_Unlink t s)), True, OS_ERR_NONE)
             else if st = OS_TMR_STATE_STOPPED \<or> st = OS_TMR_STATE_COMPLETED
             then (OSSchedUnlock (OSTmr_Link t OS_TMR_LINK_DLY s), True, OS_ERR_NONE)
             else if st = OS_TMR_STATE_UNUSED then (OSSchedUnlock s, False, OS_ERR_TMR_INACTIVE)
             else (OSSchedUnlock s, False, OS_ERR_TMR_INVALID_STATE))"

definition OSTmrStop :: "callbacks \<Rightarrow> nat option \<Rightarrow> INT8U \<Rightarrow> voidp \<Rightarrow> os \<Rightarrow> os \<times> BOOLEAN \<times> INT8U" where
  "OSTmrStop cb ptmr opt callback_arg s =
     (case tmr_guard ptmr OS_ERR_TMR_ISR s of Inl err \<Rightarrow> (s, False, err)
      | Inr t \<Rightarrow>
          let s = OSSchedLock s; st = OSTmrState (OSTmrTbl s t)
          in if st = OS_TMR_STATE_RUNNING then
               let s = OSTmr_Unlink t s; p = OSTmrTbl s t;
                   (s, err) =
                     (if opt = OS_TMR_OPT_CALLBACK then
                        (case OSTmrCallback p of
                           Some f \<Rightarrow> (cb f t (OSTmrCallbackArg p) s, OS_ERR_NONE)
                         | None \<Rightarrow> (s, OS_ERR_TMR_NO_CALLBACK))
                      else if opt = OS_TMR_OPT_CALLBACK_ARG then
                        (case OSTmrCallback p of
                           Some f \<Rightarrow> (cb f t callback_arg s, OS_ERR_NONE)
                         | None \<Rightarrow> (s, OS_ERR_TMR_NO_CALLBACK))
                      else if opt = OS_TMR_OPT_NONE then (s, OS_ERR_NONE)
                      else (s, OS_ERR_TMR_INVALID_OPT))
               in (OSSchedUnlock s, True, err)
             else if st = OS_TMR_STATE_COMPLETED \<or> st = OS_TMR_STATE_STOPPED
             then (OSSchedUnlock s, True, OS_ERR_TMR_STOPPED)
             else if st = OS_TMR_STATE_UNUSED then (OSSchedUnlock s, False, OS_ERR_TMR_INACTIVE)
             else (OSSchedUnlock s, False, OS_ERR_TMR_INVALID_STATE))"

section \<open>The timer task\<close>

text \<open>What the task does with one timer of the spoke.\<close>

definition OSTmr_Expire :: "callbacks \<Rightarrow> nat \<Rightarrow> os \<Rightarrow> os" where
  "OSTmr_Expire cb t s =
     (if OSTmrTime s = OSTmrMatch (OSTmrTbl s t)
      then let s = OSTmr_Unlink t s;
               s = (if OSTmrOpt (OSTmrTbl s t) = OS_TMR_OPT_PERIODIC
                    then OSTmr_Link t OS_TMR_LINK_PERIODIC s
                    else upd_tmr t (\<lambda>p. p\<lparr>OSTmrState := OS_TMR_STATE_COMPLETED\<rparr>) s)
           in (case OSTmrCallback (OSTmrTbl s t) of None \<Rightarrow> s
               | Some f \<Rightarrow> cb f t (OSTmrCallbackArg (OSTmrTbl s t)) s)
      else s)"

text \<open>The walk along the spoke, and one round of the task after its semaphore was signalled.\<close>

definition OSTmr_Walk :: "callbacks \<Rightarrow> nat option \<Rightarrow> os \<Rightarrow> os option" where
  "OSTmr_Walk cb ptmr s =
     map_option fst
       (while_option (\<lambda>(s, ptmr). ptmr \<noteq> None)
          (\<lambda>(s, ptmr). let ptmr_next = OSTmrNext (OSTmrTbl s (the ptmr))
                       in (OSTmr_Expire cb (the ptmr) s, ptmr_next)) (s, ptmr))"

definition OSTmr_Round :: "callbacks \<Rightarrow> os \<Rightarrow> os option" where
  "OSTmr_Round cb s =
     (let s = OSSchedLock s;
          s = s\<lparr>OSTmrTime := OSTmrTime s + 1\<rparr>;
          spoke = tmr_spoke (OSTmrTime s)
      in map_option OSSchedUnlock (OSTmr_Walk cb (OSTmrFirst (OSTmrWheelTbl s spoke)) s))"

section \<open>Initialisation\<close>

fun OSTmr_InitChain :: "nat \<Rightarrow> nat \<Rightarrow> os \<Rightarrow> os" where
  "OSTmr_InitChain 0 ix s = s"
| "OSTmr_InitChain (Suc n) ix s =
     OSTmr_InitChain n (ix + 1)
       (upd_tmr ix (\<lambda>p. p\<lparr>OSTmrType := OS_TMR_TYPE, OSTmrState := OS_TMR_STATE_UNUSED,
          OSTmrNext := Some (ix + 1), OSTmrName := Some ''?''\<rparr>) s)"

text \<open>
  The stack of a system task and the addresses of the functions, which the linker assigns.
\<close>

record sys_task =
  st_ret :: INT32U
  st_entry :: INT32U
  st_stk :: nat

definition OSTmr_InitTask :: "sys_task \<Rightarrow> os \<Rightarrow> os" where
  "OSTmr_InitTask k s =
     (let s = fst (OSTaskCreateExt (st_ret k) (st_entry k) 0 (st_stk k + (OS_TASK_TMR_STK_SIZE - 1))
                OS_TASK_TMR_PRIO OS_TASK_TMR_ID (st_stk k) (of_nat OS_TASK_TMR_STK_SIZE) NULL
                (OS_TASK_OPT_STK_CHK OR OS_TASK_OPT_STK_CLR) s)
      in fst (OSTaskNameSet OS_TASK_TMR_PRIO (Some ''uC/OS-II Tmr'') s))"

definition OSTmr_Init :: "sys_task \<Rightarrow> os \<Rightarrow> os" where
  "OSTmr_Init k s =
     (let s = s\<lparr>OSTmrTbl := (\<lambda>_. zero_tmr), OSTmrWheelTbl := (\<lambda>_. zero_tmr_wheel)\<rparr>;
          s = OSTmr_InitChain (OS_TMR_CFG_MAX - 1) 0 s;
          s = upd_tmr (OS_TMR_CFG_MAX - 1) (\<lambda>p. p\<lparr>OSTmrType := OS_TMR_TYPE,
                OSTmrState := OS_TMR_STATE_UNUSED, OSTmrNext := None, OSTmrName := Some ''?''\<rparr>) s;
          s = s\<lparr>OSTmrTime := 0, OSTmrUsed := 0, OSTmrFree := of_nat OS_TMR_CFG_MAX,
                OSTmrFreeList := Some 0\<rparr>;
          (s, sem) = OSSemCreate 1 s;
          s = s\<lparr>OSTmrSem := sem\<rparr>;
          (s, sem) = OSSemCreate 0 s;
          s = s\<lparr>OSTmrSemSignal := sem\<rparr>;
          s = fst (OSEventNameSet (OSTmrSem s) (Some ''uC/OS-II TmrLock'') s);
          s = fst (OSEventNameSet (OSTmrSemSignal s) (Some ''uC/OS-II TmrSignal'') s)
      in OSTmr_InitTask k s)"

section \<open>The pool of timers\<close>

definition tmr_next :: "os \<Rightarrow> nat \<Rightarrow> nat option" where
  "tmr_next s t = OSTmrNext (OSTmrTbl s t)"

interpretation tmr_pool: pool OSTmrFreeList tmr_next OSTmr_Alloc OSTmr_Free
  by unfold_locales (auto simp: OSTmr_Alloc_def OSTmr_Free_def tmr_next_def upd_tmr_def Let_def)

lemma TmrInitChain_next:
  "tmr_next (OSTmr_InitChain n ix s) t = (if ix \<le> t \<and> t < ix + n then Some (Suc t) else tmr_next s t)"
proof (induction n arbitrary: ix s)
  case 0
  then show ?case by auto
next
  case (Suc n)
  let ?u = "upd_tmr ix (\<lambda>p. p\<lparr>OSTmrType := OS_TMR_TYPE, OSTmrState := OS_TMR_STATE_UNUSED,
          OSTmrNext := Some (ix + 1), OSTmrName := Some ''?''\<rparr>) s"
  have "tmr_next ?u t = (if t = ix then Some (Suc ix) else tmr_next s t)"
    by (simp add: tmr_next_def upd_tmr_def)
  then show ?case using Suc.IH [of "ix + 1" ?u] by auto
qed

end
