(* ===== verification/UCOS_Mem.thy ===== *)
theory UCOS_Mem
  imports UCOS_Example
begin

text \<open>
  The memory partitions of \<open>os_mem.c\<close>.  A partition divides an area of the application into
  blocks of one size; a free block holds the address of the next one in its first word.  Addresses
  are 32-bit numbers, the null pointer being address 0; \<open>OSMemWord\<close> is the pointer stored at
  an address.
\<close>

definition ptr_of_addr :: "INT32U \<Rightarrow> voidp" where
  "ptr_of_addr a = (if a = 0 then NULL else AppP a)"

definition addr_of_void :: "voidp \<Rightarrow> INT32U" where
  "addr_of_void p = (case p of NULL \<Rightarrow> 0 | AppP a \<Rightarrow> a | _ \<Rightarrow> undefined)"

definition mem_of_void :: "voidp \<Rightarrow> nat option" where
  "mem_of_void p = (case p of MemP m \<Rightarrow> Some m | _ \<Rightarrow> None)"

definition upd_mem :: "nat \<Rightarrow> (os_mem \<Rightarrow> os_mem) \<Rightarrow> os \<Rightarrow> os" where
  "upd_mem m f s = s\<lparr>OSMemTbl := (OSMemTbl s)(m := f (OSMemTbl s m))\<rparr>"

definition set_mem_word :: "INT32U \<Rightarrow> voidp \<Rightarrow> os \<Rightarrow> os" where
  "set_mem_word a p s = s\<lparr>OSMemWord := (OSMemWord s)(a := p)\<rparr>"

text \<open>The loop that links the blocks: \<open>n\<close> iterations from the block at \<open>plink\<close>.\<close>

fun OS_MemLink :: "nat \<Rightarrow> INT32U \<Rightarrow> INT32U \<Rightarrow> os \<Rightarrow> INT32U \<times> os" where
  "OS_MemLink 0 blksize plink s = (plink, s)"
| "OS_MemLink (Suc n) blksize plink s =
     (let pblk = plink + blksize
      in OS_MemLink n blksize pblk (set_mem_word plink (ptr_of_addr pblk) s))"

definition OSMemCreate :: "INT32U \<Rightarrow> INT32U \<Rightarrow> INT32U \<Rightarrow> os \<Rightarrow> os \<times> nat option \<times> INT8U" where
  "OSMemCreate addr nblks blksize s =
     (if addr = 0 then (s, None, OS_ERR_MEM_INVALID_ADDR)
      else if addr AND 3 \<noteq> 0 then (s, None, OS_ERR_MEM_INVALID_ADDR)
      else if nblks < 2 then (s, None, OS_ERR_MEM_INVALID_BLKS)
      else if blksize < 4 then (s, None, OS_ERR_MEM_INVALID_SIZE)
      else
        let pmem = OSMemFreeList s;
            s = (case OSMemFreeList s of None \<Rightarrow> s
                 | Some m \<Rightarrow> s\<lparr>OSMemFreeList := mem_of_void (OSMemBlkList (OSMemTbl s m))\<rparr>)
        in case pmem of None \<Rightarrow> (s, None, OS_ERR_MEM_INVALID_PART)
           | Some m \<Rightarrow>
               let (plink, s) = OS_MemLink (unat (nblks - 1)) blksize addr s;
                   s = set_mem_word plink NULL s
               in (upd_mem m (\<lambda>p. p\<lparr>OSMemAddr := addr, OSMemBlkList := ptr_of_addr addr,
                     OSMemNFree := nblks, OSMemNBlks := nblks, OSMemBlkSize := blksize\<rparr>) s,
                   Some m, OS_ERR_NONE))"

definition OSMemGet :: "nat option \<Rightarrow> os \<Rightarrow> os \<times> voidp \<times> INT8U" where
  "OSMemGet pmem s =
     (case pmem of None \<Rightarrow> (s, NULL, OS_ERR_MEM_INVALID_PMEM)
      | Some m \<Rightarrow>
          if OSMemNFree (OSMemTbl s m) > 0
          then let pblk = OSMemBlkList (OSMemTbl s m)
               in (upd_mem m (\<lambda>p. p\<lparr>OSMemBlkList := OSMemWord s (addr_of_void pblk),
                     OSMemNFree := OSMemNFree p - 1\<rparr>) s, pblk, OS_ERR_NONE)
          else (s, NULL, OS_ERR_MEM_NO_FREE_BLKS))"

definition OSMemPut :: "nat option \<Rightarrow> voidp \<Rightarrow> os \<Rightarrow> os \<times> INT8U" where
  "OSMemPut pmem pblk s =
     (case pmem of None \<Rightarrow> (s, OS_ERR_MEM_INVALID_PMEM)
      | Some m \<Rightarrow>
          if pblk = NULL then (s, OS_ERR_MEM_INVALID_PBLK)
          else if OSMemNFree (OSMemTbl s m) \<ge> OSMemNBlks (OSMemTbl s m) then (s, OS_ERR_MEM_FULL)
          else let s = set_mem_word (addr_of_void pblk) (OSMemBlkList (OSMemTbl s m)) s
               in (upd_mem m (\<lambda>p. p\<lparr>OSMemBlkList := pblk, OSMemNFree := OSMemNFree p + 1\<rparr>) s,
                   OS_ERR_NONE))"

definition OSMemNameGet :: "nat option \<Rightarrow> bool \<Rightarrow> os \<Rightarrow> INT8U \<times> INT8U \<times> string option" where
  "OSMemNameGet pmem pname s =
     (case pmem of None \<Rightarrow> (0, OS_ERR_MEM_INVALID_PMEM, None)
      | Some m \<Rightarrow>
          if \<not> pname then (0, OS_ERR_PNAME_NULL, None)
          else if OSIntNesting s > 0 then (0, OS_ERR_NAME_GET_ISR, None)
          else (OS_StrLen (OSMemName (OSMemTbl s m)), OS_ERR_NONE, OSMemName (OSMemTbl s m)))"

definition OSMemNameSet :: "nat option \<Rightarrow> string option \<Rightarrow> os \<Rightarrow> os \<times> INT8U" where
  "OSMemNameSet pmem pname s =
     (case pmem of None \<Rightarrow> (s, OS_ERR_MEM_INVALID_PMEM)
      | Some m \<Rightarrow>
          if pname = None then (s, OS_ERR_PNAME_NULL)
          else if OSIntNesting s > 0 then (s, OS_ERR_NAME_SET_ISR)
          else (upd_mem m (\<lambda>p. p\<lparr>OSMemName := pname\<rparr>) s, OS_ERR_NONE))"

definition OSMemQuery :: "nat option \<Rightarrow> bool \<Rightarrow> os \<Rightarrow> INT8U \<times> os_mem_data option" where
  "OSMemQuery pmem pdata s =
     (case pmem of None \<Rightarrow> (OS_ERR_MEM_INVALID_PMEM, None)
      | Some m \<Rightarrow>
          if \<not> pdata then (OS_ERR_MEM_INVALID_PDATA, None)
          else let p = OSMemTbl s m
               in (OS_ERR_NONE,
                   Some \<lparr>OSAddr = OSMemAddr p, OSFreeList = OSMemBlkList p, OSBlkSize = OSMemBlkSize p,
                         OSNBlks = OSMemNBlks p, OSNFree = OSMemNFree p,
                         OSNUsed = OSMemNBlks p - OSMemNFree p\<rparr>))"

text \<open>\<open>OS_MemInit\<close> chains the partition control blocks in the order of the table.\<close>

fun OS_MemInitChain :: "nat \<Rightarrow> nat \<Rightarrow> os \<Rightarrow> os" where
  "OS_MemInitChain 0 ix s = s"
| "OS_MemInitChain (Suc n) ix s =
     OS_MemInitChain n (ix + 1)
       (upd_mem ix (\<lambda>p. p\<lparr>OSMemBlkList := MemP (ix + 1), OSMemName := Some ''?''\<rparr>) s)"

definition OS_MemInit :: "os \<Rightarrow> os" where
  "OS_MemInit s =
     (let s = s\<lparr>OSMemTbl := (\<lambda>_. zero_mem)\<rparr>;
          s = OS_MemInitChain (OS_MAX_MEM_PART - 1) 0 s;
          s = upd_mem (OS_MAX_MEM_PART - 1) (\<lambda>p. p\<lparr>OSMemBlkList := NULL, OSMemName := Some ''?''\<rparr>) s
      in s\<lparr>OSMemFreeList := Some 0\<rparr>)"

section \<open>The free blocks of a partition\<close>

text \<open>The addresses in the free list of partition \<open>m\<close>, counted by \<open>OSMemNFree\<close>.\<close>

definition blk_opt :: "voidp \<Rightarrow> INT32U option" where
  "blk_opt p = (case p of AppP a \<Rightarrow> Some a | _ \<Rightarrow> None)"

definition mem_next :: "os \<Rightarrow> INT32U \<Rightarrow> INT32U option" where
  "mem_next s a = blk_opt (OSMemWord s a)"

definition mem_free :: "os \<Rightarrow> nat \<Rightarrow> INT32U list \<Rightarrow> bool" where
  "mem_free s m as \<longleftrightarrow> path (mem_next s) (blk_opt (OSMemBlkList (OSMemTbl s m))) as \<and>
     unat (OSMemNFree (OSMemTbl s m)) = length as \<and> 0 \<notin> set as"

lemma blk_opt_ptr [simp]: "blk_opt (ptr_of_addr a) = (if a = 0 then None else Some a)"
  by (simp add: blk_opt_def ptr_of_addr_def)

lemma blk_opt_Some: "blk_opt p = Some a \<longleftrightarrow> p = AppP a"
  by (cases p) (simp_all add: blk_opt_def)

text \<open>A request takes the first free block; with none left it fails and changes nothing.\<close>

lemma MemGet_correct:
  assumes "mem_free s m (a # as)"
  shows "snd (OSMemGet (Some m) s) = (AppP a, OS_ERR_NONE)" and "mem_free (fst (OSMemGet (Some m) s)) m as"
    and "OSMemNBlks (OSMemTbl (fst (OSMemGet (Some m) s)) m) = OSMemNBlks (OSMemTbl s m)"
proof -
  have b: "OSMemBlkList (OSMemTbl s m) = AppP a" and p: "path (mem_next s) (mem_next s a) as"
    and n: "unat (OSMemNFree (OSMemTbl s m)) = Suc (length as)" and z: "0 \<notin> set as"
    using assms by (simp_all add: mem_free_def blk_opt_Some)
  have pos: "OSMemNFree (OSMemTbl s m) > 0" using n by (simp add: word_less_nat_alt)
  have g: "OSMemGet (Some m) s = (upd_mem m (\<lambda>p. p\<lparr>OSMemBlkList := OSMemWord s a, OSMemNFree := OSMemNFree p - 1\<rparr>) s,
      AppP a, OS_ERR_NONE)"
    using pos b by (simp add: OSMemGet_def addr_of_void_def)
  have "unat (OSMemNFree (OSMemTbl s m) - 1) = length as" using n unat_minus_one [of "OSMemNFree (OSMemTbl s m)"] pos by (simp add: word_gt_0)
  moreover have "mem_next (fst (OSMemGet (Some m) s)) = mem_next s" by (auto simp: g mem_next_def upd_mem_def)
  ultimately show "mem_free (fst (OSMemGet (Some m) s)) m as"
    using p z by (simp add: mem_free_def) (simp add: g upd_mem_def mem_next_def)
  show "snd (OSMemGet (Some m) s) = (AppP a, OS_ERR_NONE)" by (simp add: g)
  show "OSMemNBlks (OSMemTbl (fst (OSMemGet (Some m) s)) m) = OSMemNBlks (OSMemTbl s m)"
    by (simp add: g upd_mem_def)
qed

lemma MemGet_empty: "mem_free s m [] \<Longrightarrow> OSMemGet (Some m) s = (s, NULL, OS_ERR_MEM_NO_FREE_BLKS)"
  by (auto simp: mem_free_def OSMemGet_def word_gt_0 unat_eq_0)

text \<open>A returned block becomes the first of the list, unless all blocks are free already.\<close>

lemma MemPut_correct:
  assumes f: "mem_free s m as" and a: "a \<notin> set as" "a \<noteq> 0" and room: "length as < unat (OSMemNBlks (OSMemTbl s m))"
  shows "snd (OSMemPut (Some m) (AppP a) s) = OS_ERR_NONE"
    and "mem_free (fst (OSMemPut (Some m) (AppP a) s)) m (a # as)"
    and "OSMemNBlks (OSMemTbl (fst (OSMemPut (Some m) (AppP a) s)) m) = OSMemNBlks (OSMemTbl s m)"
proof -
  have n: "unat (OSMemNFree (OSMemTbl s m)) = length as" using f by (simp add: mem_free_def)
  have lt: "OSMemNFree (OSMemTbl s m) < OSMemNBlks (OSMemTbl s m)" using room n by (simp add: word_less_nat_alt)
  let ?s = "upd_mem m (\<lambda>p. p\<lparr>OSMemBlkList := AppP a, OSMemNFree := OSMemNFree p + 1\<rparr>)
      (set_mem_word a (OSMemBlkList (OSMemTbl s m)) s)"
  have g: "OSMemPut (Some m) (AppP a) s = (?s, OS_ERR_NONE)"
    using lt by (simp add: OSMemPut_def addr_of_void_def set_mem_word_def)
  have "unat (OSMemNFree (OSMemTbl s m) + 1) = Suc (length as)"
    using room n unsigned_less [of "OSMemNBlks (OSMemTbl s m)", where ?'a = nat] by (simp add: unat_word_ariths)
  moreover have "path (mem_next ?s) (blk_opt (OSMemBlkList (OSMemTbl s m))) as"
    by (rule path_cong [of _ _ "mem_next s"])
      (use f a in \<open>auto simp: mem_free_def mem_next_def upd_mem_def set_mem_word_def\<close>)
  ultimately show "mem_free (fst (OSMemPut (Some m) (AppP a) s)) m (a # as)"
    using f a by (simp add: g mem_free_def blk_opt_def) (simp add: upd_mem_def set_mem_word_def mem_next_def blk_opt_def)
  show "snd (OSMemPut (Some m) (AppP a) s) = OS_ERR_NONE" by (simp add: g)
  show "OSMemNBlks (OSMemTbl (fst (OSMemPut (Some m) (AppP a) s)) m) = OSMemNBlks (OSMemTbl s m)"
    by (simp add: g upd_mem_def set_mem_word_def)
qed

lemma MemPut_full:
  "mem_free s m as \<Longrightarrow> length as \<ge> unat (OSMemNBlks (OSMemTbl s m)) \<Longrightarrow> p \<noteq> NULL \<Longrightarrow>
     OSMemPut (Some m) p s = (s, OS_ERR_MEM_FULL)"
  by (simp add: mem_free_def OSMemPut_def word_le_nat_alt)

section \<open>Creation\<close>

text \<open>The addresses of the blocks.\<close>

definition mem_blocks :: "INT32U \<Rightarrow> nat \<Rightarrow> INT32U \<Rightarrow> INT32U list" where
  "mem_blocks addr n blksize = map (\<lambda>i. addr + of_nat i * blksize) [0..<n]"

lemma mem_blocks_Suc: "mem_blocks addr (Suc n) bs = addr # mem_blocks (addr + bs) n bs"
proof -
  have "[0..<Suc n] = 0 # map Suc [0..<n]" by (metis map_Suc_upt upt_conv_Cons zero_less_Suc)
  then show ?thesis by (simp add: mem_blocks_def algebra_simps comp_def)
qed

lemma mem_blocks_unat:
  fixes addr bs :: INT32U
  assumes "unat addr + n * unat bs \<le> 2 ^ 32" and "i < n" and "bs \<noteq> 0"
  shows "unat (addr + of_nat i * bs) = unat addr + i * unat bs"
proof -
  have "0 < unat bs" using assms(3) by (simp add: unat_gt_0)
  moreover have "Suc i * unat bs \<le> n * unat bs" using assms(2) by (intro mult_le_mono1) simp
  ultimately have l: "unat addr + i * unat bs < 2 ^ 32" using assms(1) by simp
  have "i \<le> i * unat bs" using \<open>0 < unat bs\<close> by (cases "unat bs") simp_all
  then have "i < 2 ^ 32" using l by linarith
  then have "unat (of_nat i :: INT32U) = i" by (simp add: unat_of_nat)
  then show ?thesis using l by (simp add: unat_word_ariths)
qed

lemma mem_blocks_distinct:
  fixes addr bs :: INT32U
  assumes "unat addr + n * unat bs \<le> 2 ^ 32" and "addr \<noteq> 0" and "bs \<noteq> 0"
  shows "distinct (mem_blocks addr n bs)" and "0 \<notin> set (mem_blocks addr n bs)"
proof -
  have u: "unat bs > 0" "unat addr > 0" using assms(2,3) by (simp_all add: unat_gt_0)
  show "distinct (mem_blocks addr n bs)"
    unfolding mem_blocks_def distinct_map
  proof (intro conjI inj_onI)
    fix i j assume "i \<in> set [0..<n]" "j \<in> set [0..<n]" "addr + of_nat i * bs = addr + of_nat j * bs"
    then have "unat addr + i * unat bs = unat addr + j * unat bs"
      using mem_blocks_unat [OF assms(1) _ assms(3)] by (metis atLeastLessThan_iff set_upt)
    then show "i = j" using u by simp
  qed simp
  show "0 \<notin> set (mem_blocks addr n bs)"
  proof
    assume "0 \<in> set (mem_blocks addr n bs)"
    then obtain i where "i < n" "addr + of_nat i * bs = 0" by (auto simp: mem_blocks_def)
    with mem_blocks_unat [OF assms(1) this(1) assms(3)] u show False by simp
  qed
qed

text \<open>The loop links the blocks in their order and returns the last.\<close>

lemma MemLink_effect:
  assumes "unat addr + Suc n * unat bs \<le> 2 ^ 32" and "addr \<noteq> 0" and "bs \<noteq> 0" and "OS_MemLink n bs addr s = (l, s')"
  shows "path (mem_next (set_mem_word l NULL s')) (Some addr) (mem_blocks addr (Suc n) bs) \<and>
    l \<in> set (mem_blocks addr (Suc n) bs) \<and>
    OSMemTbl s' = OSMemTbl s \<and> (\<forall>a. a \<notin> set (mem_blocks addr (Suc n) bs) \<longrightarrow> OSMemWord s' a = OSMemWord s a)"
  using assms
proof (induction n arbitrary: addr s)
  case 0
  then show ?case by (auto simp: mem_blocks_def mem_next_def set_mem_word_def blk_opt_def)
next
  case (Suc n)
  have u1: "unat (addr + bs) = unat addr + unat bs"
    using mem_blocks_unat [OF Suc.prems(1), of 1] Suc.prems(3) by simp
  have nz: "addr + bs \<noteq> 0"
  proof
    assume "addr + bs = 0"
    then show False using u1 Suc.prems(2) by (simp add: unat_eq_0)
  qed
  let ?s = "set_mem_word addr (ptr_of_addr (addr + bs)) s"
  have "OS_MemLink n bs (addr + bs) ?s = (l, s')" using Suc.prems(4) by (simp add: Let_def)
  from Suc.IH [OF _ nz Suc.prems(3) this] Suc.prems(1)
  have ih: "path (mem_next (set_mem_word l NULL s')) (Some (addr + bs)) (mem_blocks (addr + bs) (Suc n) bs)"
    "l \<in> set (mem_blocks (addr + bs) (Suc n) bs)"
    "OSMemTbl s' = OSMemTbl ?s" "\<And>a. a \<notin> set (mem_blocks (addr + bs) (Suc n) bs) \<Longrightarrow> OSMemWord s' a = OSMemWord ?s a"
    by (simp_all add: u1)
  have d: "addr \<notin> set (mem_blocks (addr + bs) (Suc n) bs)"
    using mem_blocks_distinct(1) [OF Suc.prems(1-3)] by (simp add: mem_blocks_Suc [of addr])
  then have "OSMemWord s' addr = ptr_of_addr (addr + bs)" and "addr \<noteq> l"
    using ih(2) ih(4) [OF d] by (auto simp: set_mem_word_def)
  then have "mem_next (set_mem_word l NULL s') addr = Some (addr + bs)"
    using nz by (simp add: mem_next_def set_mem_word_def)
  then show ?case using ih by (simp add: mem_blocks_Suc [of addr] set_mem_word_def)
qed

theorem OSMemCreate_correct:
  assumes ok: "OSMemCreate addr nblks blksize s = (s', Some m, OS_ERR_NONE)"
    and area: "unat addr + unat nblks * unat blksize \<le> 2 ^ 32"
  shows "mem_free s' m (mem_blocks addr (unat nblks) blksize) \<and>
    distinct (mem_blocks addr (unat nblks) blksize) \<and> unat (OSMemNBlks (OSMemTbl s' m)) = unat nblks"
proof -
  have g: "addr \<noteq> 0" "\<not> nblks < 2" "\<not> blksize < 4" "OSMemFreeList s = Some m"
    using ok by (auto simp: OSMemCreate_def Let_def split: if_splits option.splits prod.splits)
  have bs: "blksize \<noteq> 0" using g(3) by auto
  let ?s = "s\<lparr>OSMemFreeList := mem_of_void (OSMemBlkList (OSMemTbl s m))\<rparr>"
  obtain l u where u: "OS_MemLink (unat (nblks - 1)) blksize addr ?s = (l, u)" by fastforce
  have "nblks \<noteq> 0" using g(2) by auto
  then have n: "Suc (unat (nblks - 1)) = unat nblks" by (simp add: unat_minus_one unat_gt_0)
  have s': "s' = upd_mem m (\<lambda>p. p\<lparr>OSMemAddr := addr, OSMemBlkList := ptr_of_addr addr,
                     OSMemNFree := nblks, OSMemNBlks := nblks, OSMemBlkSize := blksize\<rparr>) (set_mem_word l NULL u)"
    using ok g u by (auto simp: OSMemCreate_def Let_def split: if_splits)
  from MemLink_effect [of addr "unat (nblks - 1)", OF _ g(1) bs u, unfolded n] area
  have "path (mem_next (set_mem_word l NULL u)) (Some addr) (mem_blocks addr (unat nblks) blksize)" by simp
  moreover have "mem_next s' = mem_next (set_mem_word l NULL u)" by (auto simp: s' mem_next_def upd_mem_def)
  ultimately show ?thesis
    using mem_blocks_distinct [OF area g(1) bs] g(1)
    by (simp add: mem_free_def) (simp add: s' upd_mem_def mem_blocks_def)
qed

text \<open>\<open>n\<close> requests in a row, with the blocks they return.\<close>

fun mem_gets :: "nat \<Rightarrow> nat \<Rightarrow> os \<Rightarrow> voidp list \<times> os" where
  "mem_gets m 0 s = ([], s)"
| "mem_gets m (Suc n) s =
     (let (s, p, err) = OSMemGet (Some m) s; (ps, s) = mem_gets m n s in (p # ps, s))"

lemma mem_gets_all: "mem_free s m as \<Longrightarrow> \<exists>s'. mem_gets m (length as) s = (map AppP as, s') \<and> mem_free s' m []"
proof (induction as arbitrary: s)
  case Nil
  then show ?case by simp
next
  case (Cons a as)
  obtain s1 where g: "OSMemGet (Some m) s = (s1, AppP a, OS_ERR_NONE)" "mem_free s1 m as"
    using MemGet_correct(1,2) [OF Cons.prems] by (cases "OSMemGet (Some m) s") auto
  from Cons.IH [OF g(2)] show ?case by (auto simp: g(1))
qed

lemma mem_gets_nblks:
  "mem_free s m as \<Longrightarrow> OSMemNBlks (OSMemTbl (snd (mem_gets m (length as) s)) m) = OSMemNBlks (OSMemTbl s m)"
proof (induction as arbitrary: s)
  case Nil
  then show ?case by simp
next
  case (Cons a as)
  obtain s1 where g: "OSMemGet (Some m) s = (s1, AppP a, OS_ERR_NONE)" "mem_free s1 m as"
      "OSMemNBlks (OSMemTbl s1 m) = OSMemNBlks (OSMemTbl s m)"
    using MemGet_correct [OF Cons.prems] by (cases "OSMemGet (Some m) s") auto
  show ?case using Cons.IH [OF g(2)] g(3) by (cases "mem_gets m (length as) s1") (simp add: g(1))
qed

section \<open>A partition hands out its blocks\<close>

text \<open>After a successful \<open>OSMemCreate\<close> over an area that fits in the address space, getting
  as many blocks as the partition was created with returns each block of the area once, in order and all
  different, and one more get fails with \<open>OS_ERR_MEM_NO_FREE_BLKS\<close> and changes nothing.\<close>

theorem partition_hands_out_blocks:
  assumes ok: "OSMemCreate addr nblks blksize s = (s', Some m, OS_ERR_NONE)"
    and area: "unat addr + unat nblks * unat blksize \<le> 2 ^ 32"
  shows "\<exists>s''. mem_gets m (unat nblks) s' = (map AppP (mem_blocks addr (unat nblks) blksize), s'') \<and>
    OSMemGet (Some m) s'' = (s'', NULL, OS_ERR_MEM_NO_FREE_BLKS) \<and>
    distinct (mem_blocks addr (unat nblks) blksize)"
proof -
  note c = OSMemCreate_correct [OF ok area]
  obtain s'' where "mem_gets m (unat nblks) s' = (map AppP (mem_blocks addr (unat nblks) blksize), s'')" "mem_free s'' m []"
    using mem_gets_all [of s' m "mem_blocks addr (unat nblks) blksize"] c by (auto simp: mem_blocks_def)
  then show ?thesis using c MemGet_empty by blast
qed

definition ex_mem :: os where
  "ex_mem = (ex_os OS_EVENT_TYPE_SEM False)\<lparr>OSMemFreeList := Some 0\<rparr>"

lemma ex_mem_create: "\<exists>s'. OSMemCreate 0x1000 3 8 ex_mem = (s', Some 0, OS_ERR_NONE)"
  by (simp add: OSMemCreate_def ex_mem_def Let_def split: prod.split)

lemma ex_mem_blocks: "mem_blocks 0x1000 3 8 = [0x1000, 0x1008, 0x1010]"
  by (simp add: mem_blocks_def upt_rec)

lemma partition_hands_out_blocks_witness:
  "\<exists>s' s''. OSMemCreate 0x1000 3 8 ex_mem = (s', Some 0, OS_ERR_NONE) \<and>
     mem_gets 0 3 s' = ([AppP 0x1000, AppP 0x1008, AppP 0x1010], s'')"
proof -
  obtain s' where s': "OSMemCreate 0x1000 3 8 ex_mem = (s', Some 0, OS_ERR_NONE)" using ex_mem_create by blast
  have a: "unat (0x1000 :: 32 word) + unat (3 :: 32 word) * unat (8 :: 32 word) \<le> 2 ^ 32" by simp
  show ?thesis using partition_hands_out_blocks [OF s' a] s' ex_mem_blocks by auto
qed

text \<open>C26: putting a block back makes it the next one \<open>OSMemGet\<close> returns, and the free list is
  then as before; a block is refused, with the state unchanged, exactly when all blocks are free.\<close>

theorem put_get_block:
  assumes f: "mem_free s m as" and a: "a \<notin> set as" "a \<noteq> 0"
    and n: "length as \<le> unat (OSMemNBlks (OSMemTbl s m))"
  shows "if length as < unat (OSMemNBlks (OSMemTbl s m))
    then snd (OSMemPut (Some m) (AppP a) s) = OS_ERR_NONE \<and>
      snd (OSMemGet (Some m) (fst (OSMemPut (Some m) (AppP a) s))) = (AppP a, OS_ERR_NONE) \<and>
      mem_free (fst (OSMemGet (Some m) (fst (OSMemPut (Some m) (AppP a) s)))) m as
    else OSMemPut (Some m) (AppP a) s = (s, OS_ERR_MEM_FULL)"
  using MemPut_correct [OF f a] MemGet_correct [of "fst (OSMemPut (Some m) (AppP a) s)" m a as]
    MemPut_full [OF f, of "AppP a"] n by auto

lemma put_get_block_witness:
  "\<exists>s. mem_free s 0 [] \<and> snd (OSMemGet (Some 0) (fst (OSMemPut (Some 0) (AppP 0x1008) s))) = (AppP 0x1008, OS_ERR_NONE)"
proof -
  obtain s' where s': "OSMemCreate 0x1000 3 8 ex_mem = (s', Some 0, OS_ERR_NONE)" using ex_mem_create by blast
  have c: "mem_free s' 0 (mem_blocks 0x1000 3 8)" "unat (OSMemNBlks (OSMemTbl s' 0)) = 3"
    using OSMemCreate_correct [OF s'] by simp_all
  obtain s'' where g: "mem_gets 0 (length (mem_blocks 0x1000 3 8)) s' = (map AppP (mem_blocks 0x1000 3 8), s'')"
      "mem_free s'' 0 []"
    using mem_gets_all [OF c(1)] by blast
  have "OSMemNBlks (OSMemTbl s'' 0) = OSMemNBlks (OSMemTbl s' 0)"
    using mem_gets_nblks [OF c(1)] g(1) by simp
  then show ?thesis using put_get_block [where a = "0x1008", OF g(2)] c(2) g(2) by (intro exI [of _ s'']) simp
qed

end
