(* ===== verification/UCOS_Create.thy ===== *)
theory UCOS_Create
  imports UCOS_TaskCtl
begin

text \<open>
  The creation of tasks: what \<open>OS_TCBInit\<close> adds to the tables, and that the two create
  services keep the invariants.
\<close>

section \<open>A new task\<close>

text \<open>
  \<open>adds_task n t s s'\<close>: control block \<open>t\<close>, the first of the free list, becomes the ready task
  of priority \<open>n\<close> and the head of the task list; of the rest of the kernel's state nothing
  changes.
\<close>

definition new_prev :: "nat \<Rightarrow> tcb_ptr \<Rightarrow> nat \<Rightarrow> tcb_ptr \<Rightarrow> tcb_ptr" where
  "new_prev t h u p = (if h \<noteq> NullTCB \<and> tcb_ix h = u then TCB t else p)"

definition adds_task :: "nat \<Rightarrow> nat \<Rightarrow> os \<Rightarrow> os \<Rightarrow> bool" where
  "adds_task n t s s' \<longleftrightarrow>
     OSTCBFreeList s = TCB t \<and> OSTCBFreeList s' = OSTCBNext (OSTCBTbl s t) \<and>
     OSTCBList s' = TCB t \<and> OSTCBNext (OSTCBTbl s' t) = OSTCBList s \<and>
     OSTCBPrioTbl s' = (OSTCBPrioTbl s)(n := TCB t) \<and> rdy s' = bm_ins n (rdy s) \<and>
     (\<forall>u. u \<noteq> t \<longrightarrow> same_task (OSTCBTbl s' u)
        ((OSTCBTbl s u)\<lparr>OSTCBPrev := new_prev t (OSTCBList s) u (OSTCBPrev (OSTCBTbl s u))\<rparr>)) \<and>
     OSTCBPrev (OSTCBTbl s' t) = new_prev t (OSTCBList s) t NullTCB \<and>
     xy_ok (OSTCBTbl s' t) \<and> prio_of (OSTCBTbl s' t) = n \<and>
     tcb_sync (OSTCBTbl s' t) = (None, None, None, 0, 0, 0) \<and>
     OSEvents s' = OSEvents s \<and> OSEventFreeList s' = OSEventFreeList s \<and>
     OSTCBCur s' = OSTCBCur s \<and> OSPrioCur s' = OSPrioCur s \<and> OSRunning s' = OSRunning s \<and>
     OSIntNesting s' = OSIntNesting s \<and> OSLockNesting s' = OSLockNesting s"

lemma adds_taskD:
  assumes "adds_task n t s s'"
  shows "OSTCBFreeList s = TCB t" and "OSTCBFreeList s' = OSTCBNext (OSTCBTbl s t)"
    and "OSTCBList s' = TCB t" and "OSTCBNext (OSTCBTbl s' t) = OSTCBList s"
    and "OSTCBPrioTbl s' = (OSTCBPrioTbl s)(n := TCB t)" and "rdy s' = bm_ins n (rdy s)"
    and "u \<noteq> t \<Longrightarrow> tcb_sync (OSTCBTbl s' u) = tcb_sync (OSTCBTbl s u)"
    and "xy_ok (OSTCBTbl s' t)" and "prio_of (OSTCBTbl s' t) = n"
    and "u \<noteq> t \<Longrightarrow> prio_of (OSTCBTbl s' u) = prio_of (OSTCBTbl s u)"
    and "u \<noteq> t \<Longrightarrow> xy_ok (OSTCBTbl s' u) = xy_ok (OSTCBTbl s u)"
    and "u \<noteq> t \<Longrightarrow> tcb_next s' u = tcb_next s u" and "tcb_next s' t = tcb_opt (OSTCBList s)"
    and "tcb_sync (OSTCBTbl s' t) = (None, None, None, 0, 0, 0)"
    and "OSTCBPrev (OSTCBTbl s' t) = new_prev t (OSTCBList s) t NullTCB"
    and "u \<noteq> t \<Longrightarrow> tcb_prev s' u = (if OSTCBList s \<noteq> NullTCB \<and> tcb_ix (OSTCBList s) = u then Some t else tcb_prev s u)"
  using assms
  by (auto simp: adds_task_def same_task_def tcb_next_def tcb_prev_def tcb_opt_def tcb_coords_def tcb_sync_def xy_ok_def new_prev_def)

lemma adds_task_at:
  assumes tch: "adds_task n t s s'" and free: "\<And>m. m < 64 \<Longrightarrow> OSTCBPrioTbl s m \<noteq> TCB t" and n: "n < 64"
  shows "task_at s' m u \<longleftrightarrow> (if m = n then u = t else task_at s m u)"
proof (cases "u = t")
  case True
  then show ?thesis using tch free n by (auto simp: task_at_def adds_task_def)
next
  case False
  then have "prio_of (OSTCBTbl s' u) = prio_of (OSTCBTbl s u)"
    by (rule adds_taskD(10) [OF tch])
  then show ?thesis using False tch by (auto simp: task_at_def adds_task_def)
qed

lemma fresh_task_ok:
  assumes "tcb_sync p = (None, None, None, 0, 0, 0)"
  shows "task_ok True {} ty p" and "cont_ok None {} p"
  using assms by (simp_all add: tcb_sync_def task_ok_def cont_ok_def awaited_def suspended_def pending_def)

lemma adds_task_kernel_inv:
  assumes inv: "kernel_inv s" and tch: "adds_task n t s s'" and n: "n < 64" "\<And>u. OSTCBPrioTbl s n \<noteq> TCB u"
    and free: "\<And>m. m < 64 \<Longrightarrow> OSTCBPrioTbl s m \<noteq> TCB t"
  shows "kernel_inv s'" and "waits_on s n = {}" and "waits_on s' m = waits_on s m"
proof -
  note at = adds_task_at [OF tch free n(1)]
  have no: "\<not> task_at s n u" for u using n(2) by (simp add: task_at_def)
  have nr: "n \<notin> bm_mem (rdy s)" using kernel_invD(4) [OF inv] no by blast
  show nw: "waits_on s n = {}" using kernel_invD(5) [OF inv] no by (auto simp: waits_on_def)
  have w: "wl s' = wl s" using tch by (intro ext) (simp add: adds_task_def wl_def)
  show wo: "waits_on s' m = waits_on s m" for m by (simp add: waits_on_def w)
  have rd: "rdy s' = bm_ins n (rdy s)" using tch by (simp add: adds_task_def)
  have okr: "bm_ok (rdy s')" and mem: "bm_mem (rdy s') = insert n (bm_mem (rdy s))"
    using kernel_invD(1) [OF inv] n(1) by (simp_all add: rd bm_ok_ins bm_mem_ins)
  have ty: "event_type s' = event_type s" using tch by (simp add: adds_task_def)
  have "xy_ok (OSTCBTbl s' u) \<and> OSTCBPrioTbl s' (prio_of (OSTCBTbl s' u)) = TCB u"
    if m: "m < 64" "OSTCBPrioTbl s' m = TCB u" for m u
  proof (cases "u = t")
    case True
    then show ?thesis using tch by (simp add: adds_task_def)
  next
    case False
    then have mu: "OSTCBPrioTbl s m = TCB u" using m tch by (auto simp: adds_task_def split: if_splits)
    show ?thesis
      using kernel_invD(3,8) [OF inv m(1) mu] n(2) adds_taskD(10,11) [OF tch False]
      by (auto simp: adds_taskD(5) [OF tch])
  qed
  moreover have "task_ok (m \<in> bm_mem (rdy s')) (waits_on s' m) (event_type s') (OSTCBTbl s' u)"
    if u: "task_at s' m u" for m u
  proof (cases "m = n")
    case True
    then have "u = t" using u at by simp
    then show ?thesis using True nw fresh_task_ok(1) [OF adds_taskD(14) [OF tch]] by (simp add: wo mem)
  next
    case False
    then have su: "task_at s m u" using u at by simp
    then have "u \<noteq> t" using free by (auto simp: task_at_def)
    from task_ok_cong [OF adds_taskD(7) [OF tch this]] show ?thesis using kernel_invD(6) [OF inv su] False by (simp add: wo mem ty)
  qed
  moreover have "\<exists>u. task_at s' m u" if "m \<in> bm_mem (rdy s') \<or> waits_on s' m \<noteq> {}" for m
    using that at inv by (cases "m = n") (auto simp: mem wo kernel_inv_def)
  ultimately show "kernel_inv s'"
    using okr kernel_invD(2,7) [OF inv] by (auto simp: kernel_inv_def mem w)
qed

lemma adds_task_list:
  assumes l: "task_list s ts" and tch: "adds_task n t s s'" and n: "n < 64" "\<And>u. OSTCBPrioTbl s n \<noteq> TCB u"
  shows "(\<forall>m<64. OSTCBPrioTbl s m \<noteq> TCB t) \<and> t \<notin> set ts \<and> task_list s' (t # ts)"
proof -
  obtain fs where f: "path (tcb_next s) (tcb_opt (OSTCBFreeList s)) fs" "\<forall>t\<in>set fs. \<forall>n<64. OSTCBPrioTbl s n \<noteq> TCB t"
    using l by (auto simp: task_list_def free_tcbs_def)
  have "OSTCBFreeList s = TCB t" using tch by (simp add: adds_task_def)
  then obtain fs' where fs: "fs = t # fs'" using f(1) by (cases fs) (auto simp: tcb_opt_def)
  have free: "\<And>m. m < 64 \<Longrightarrow> OSTCBPrioTbl s m \<noteq> TCB t" using f(2) fs by simp
  note at = adds_task_at [OF tch free n(1)]
  have inl: "task_at s (prio_of (OSTCBTbl s u)) u" if "u \<in> set ts" for u using l that by (simp add: task_list_def)
  have nt: "t \<notin> set ts" using inl [of t] free by (auto simp: task_at_def)
  note D = adds_taskD [OF tch]
  have dp: "dpath (tcb_next s) (tcb_prev s) None (tcb_opt (OSTCBList s)) ts" using l by (simp add: task_list_def)
  have hd: "OSTCBList s = TCB (hd ts)" using dp l by (cases ts; cases "OSTCBList s") (auto simp: task_list_def tcb_opt_def)
  have ht: "hd ts \<noteq> t" using nt l by (cases ts) (auto simp: task_list_def)
  have pt0: "OSTCBPrev (OSTCBTbl s' t) = NullTCB" using D(15) hd ht by (simp add: new_prev_def)
  have "dpath (tcb_next s') (tcb_prev s') None (Some t) (t # ts)"
  proof (rule dpath_push [OF dp nt])
    show "tcb_next s' t = tcb_opt (OSTCBList s)" by (rule D(13))
    show "tcb_prev s' t = None" using pt0 by (simp add: tcb_prev_def tcb_opt_def)
    show "tcb_next s' u = tcb_next s u" if "u \<in> set ts" for u using that nt by (intro D(12)) auto
    show "tcb_prev s' u = (if tcb_opt (OSTCBList s) = Some u then Some t else tcb_prev s u)" if "u \<in> set ts" for u
    proof -
      have "u \<noteq> t" using that nt by blast
      from D(16) [OF this] show ?thesis by (simp add: hd tcb_opt_def)
    qed
  qed
  then have p: "dpath (tcb_next s') (tcb_prev s') None (tcb_opt (OSTCBList s')) (t # ts)"
    by (simp add: D(3) tcb_opt_def)
  have d: "t \<notin> set fs'" using path_distinct [OF f(1)] fs by simp
  have "path (tcb_next s') (tcb_next s t) fs'"
  proof (rule path_cong [of _ _ "tcb_next s"])
    show "tcb_next s' u = tcb_next s u" if "u \<in> set fs'" for u using that d by (intro D(12)) auto
    show "path (tcb_next s) (tcb_next s t) fs'" using f(1) fs by simp
  qed
  moreover have "tcb_opt (OSTCBFreeList s') = tcb_next s t" by (simp add: D(2) tcb_next_def)
  ultimately have fr: "free_tcbs s' fs'"
    using f(2) fs d by (simp add: free_tcbs_def D(5)) metis
  have pt: "prio_of (OSTCBTbl s' u) = m" if "m < 64" "OSTCBPrioTbl s' m = TCB u" for m u
  proof (cases "m = n")
    case True
    then show ?thesis using that D(5,9) by simp
  next
    case False
    then have mu: "OSTCBPrioTbl s m = TCB u" using that D(5) by simp
    then have "u \<noteq> t" using free that(1) by blast
    then show ?thesis using l mu that(1) D(10) by (simp add: task_list_def)
  qed
  have lt: "task_at s' (prio_of (OSTCBTbl s' u)) u" if "u \<in> set (t # ts)" for u
  proof (cases "u = t")
    case True
    then show ?thesis using D(9) at by simp
  next
    case False
    then have "task_at s (prio_of (OSTCBTbl s u)) u" using that inl by simp
    moreover from this have "prio_of (OSTCBTbl s u) \<noteq> n" using n(2) by (auto simp: task_at_def)
    ultimately show ?thesis using at D(10) [OF False] by simp
  qed
  have al: "u \<in> set (t # ts)" if "task_at s' m u" for m u
    using that at [of m u] l by (cases "m = n") (simp_all add: task_list_def)
  have ne: "ts \<noteq> []" and ls: "prio_of (OSTCBTbl s (last ts)) = 63" using l by (simp_all add: task_list_def)
  then have "last ts \<noteq> t" using nt last_in_set [OF ne] by auto
  then have "prio_of (OSTCBTbl s' (last (t # ts))) = 63" using D(10) ls ne by simp
  then have "task_list s' (t # ts)"
    unfolding task_list_def
    by (intro conjI allI impI ballI exI [of _ fs'] p fr) (use pt lt al pt0 in \<open>simp_all only: simp_thms list.distinct list.sel\<close>)
  with free nt show ?thesis by simp
qed

lemma adds_task_pre_inv:
  assumes inv: "pre_inv k s" and tch: "adds_task n t s s'" and n: "n < 64" "\<And>u. OSTCBPrioTbl s n \<noteq> TCB u"
  shows "pre_inv (k(t := None)) s'"
proof -
  note i = pre_invD [OF inv]
  obtain ts where l: "task_list s ts" using i(10) by blast
  note lst = adds_task_list [OF l tch n]
  then have free: "\<And>m. m < 64 \<Longrightarrow> OSTCBPrioTbl s m \<noteq> TCB t" by blast
  note at = adds_task_at [OF tch free n(1)]
  note ki = adds_task_kernel_inv [OF i(1) tch n free]
  have "conts_ok (k(t := None)) s'"
    unfolding conts_ok_def
  proof (intro allI impI)
    fix m u assume u: "task_at s' m u"
    show "cont_ok ((k(t := None)) u) (waits_on s' m) (OSTCBTbl s' u)"
    proof (cases "m = n")
      case True
      then have "u = t" using u at by simp
      then show ?thesis using True ki(2,3) fresh_task_ok(2) [OF adds_taskD(14) [OF tch]] by simp
    next
      case False
      then have su: "task_at s m u" using u at by simp
      then have "u \<noteq> t" using free by (auto simp: task_at_def)
      from cont_ok_cong [OF adds_taskD(7) [OF tch this]] show ?thesis using i(8) [OF su] \<open>u \<noteq> t\<close> by (simp add: ki(3))
    qed
  qed
  moreover have "cur_ok s'"
  proof -
    have "unat (OSPrioCur s) \<noteq> n" using i(6) n(2) by (auto simp: task_at_def)
    then show ?thesis using i(3) at tch by (simp add: cur_ok_def adds_task_def)
  qed
  moreover have "event_next s' = event_next s" using tch by (intro ext) (simp add: event_next_def adds_task_def)
  then have "free_events_ok s'"
    using i(4) tch by (simp add: free_events_ok_def event_pool.holds_def adds_task_def)
  moreover have "(k(t := None)) (cur s') = None" if "OSLockNesting s' \<noteq> 0"
    using i(5) that tch by (simp add: adds_task_def)
  ultimately show ?thesis using ki(1) i(9) lst tch by (auto simp: pre_inv_def adds_task_def)
qed

section \<open>The create services\<close>

lemma init_tcb_fields:
  "xy_ok (init_tcb prio ptos pbos i sz ext opt p) \<longleftrightarrow> unat prio < 64"
  "OSTCBPrio (init_tcb prio ptos pbos i sz ext opt p) = prio"
  "tcb_sync (init_tcb prio ptos pbos i sz ext opt p) = (None, None, None, 0, 0, 0)"
  by (simp_all add: init_tcb_def set_prio_xy_def Let_def xy_ok_def tcb_sync_def)

lemma TCBInit_adds:
  assumes f: "OSTCBFreeList s = TCB t" and lst: "OSTCBList s \<noteq> TCB t" and n: "unat prio < 64"
  shows "adds_task (unat prio) t s (fst (OS_TCBInit prio ptos pbos i sz ext opt s))"
    and "snd (OS_TCBInit prio ptos pbos i sz ext opt s) = OS_ERR_NONE"
proof -
  let ?q = "(init_tcb prio ptos pbos i sz ext opt (OSTCBTbl s t))\<lparr>OSTCBNext := OSTCBList s, OSTCBPrev := NullTCB\<rparr>"
  define tb where "tb = (let f = (OSTCBTbl s)(t := ?q) in
    if OSTCBList s \<noteq> NullTCB then f(tcb_ix (OSTCBList s) := (f (tcb_ix (OSTCBList s)))\<lparr>OSTCBPrev := TCB t\<rparr>) else f)"
  define s1 where "s1 = s\<lparr>OSTCBFreeList := OSTCBNext (OSTCBTbl s t),
    OSTCBPrioTbl := (OSTCBPrioTbl s)(unat prio := TCB t), OSTCBTbl := tb, OSTCBList := TCB t\<rparr>"
  have r: "OS_TCBInit prio ptos pbos i sz ext opt s =
      ((OS_RdyListInsert t s1)\<lparr>OSTaskCtr := OSTaskCtr (OS_RdyListInsert t s1) + 1\<rparr>, OS_ERR_NONE)"
    using f unfolding OS_TCBInit_def s1_def tb_def
    by (simp add: upd_tcb_def set_prio_tbl_def Let_def)
  have "tb t = ?q \<or> tb t = ?q\<lparr>OSTCBPrev := TCB t\<rparr>" by (auto simp: tb_def Let_def)
  then have xy: "xy_ok (tb t)" and pn: "OSTCBPrio (tb t) = prio" and sy: "tcb_sync (tb t) = (None, None, None, 0, 0, 0)"
    and nx: "OSTCBNext (tb t) = OSTCBList s"
    using init_tcb_fields [of prio ptos pbos i sz ext opt "OSTCBTbl s t"] n
    by (auto simp: xy_ok_def tcb_sync_def)
  have pv: "OSTCBPrev (tb t) = new_prev t (OSTCBList s) t NullTCB"
    by (simp add: tb_def Let_def new_prev_def)
  have oth: "same_task (tb u) ((OSTCBTbl s u)\<lparr>OSTCBPrev := new_prev t (OSTCBList s) u (OSTCBPrev (OSTCBTbl s u))\<rparr>)" if "u \<noteq> t" for u
    using that by (simp add: tb_def Let_def same_task_def tcb_coords_def tcb_sync_def new_prev_def)
  have "OSTCBTbl s1 t = tb t" by (simp add: s1_def)
  then have "xy_ok (OSTCBTbl s1 t)" using xy by simp
  note e = RdyListInsert_effect [OF this]
  have s2: "rdy (OS_RdyListInsert t s1) = bm_ins (unat prio) (rdy s)"
    using e(1) pn by (simp add: s1_def) (simp add: rdy_def)
  show "snd (OS_TCBInit prio ptos pbos i sz ext opt s) = OS_ERR_NONE" by (simp add: r)
  show "adds_task (unat prio) t s (fst (OS_TCBInit prio ptos pbos i sz ext opt s))"
    unfolding r fst_conv adds_task_def
    using f s2 xy pn sy nx oth pv
    by (simp add: rdy_def) (simp add: OS_RdyListInsert_def set_rdy_def s1_def Let_def)
qed

text \<open>The stack frame is written to the stack's cells only.\<close>

lemma push_stk_cells: "\<exists>c. snd (push_stk vs (p, s)) = s\<lparr>OSStkCell := c\<rparr>"
proof (induction vs arbitrary: p s)
  case Nil
  show ?case by (intro exI [of _ "OSStkCell s"]) simp
next
  case (Cons v vs)
  obtain c where "snd (push_stk vs (p - 1, s\<lparr>OSStkCell := (OSStkCell s)(p - 1 := v)\<rparr>)) =
      (s\<lparr>OSStkCell := (OSStkCell s)(p - 1 := v)\<rparr>)\<lparr>OSStkCell := c\<rparr>" using Cons.IH by blast
  then show ?case by (intro exI [of _ c]) (simp add: Let_def)
qed

lemma clr_stk_cells: "\<exists>c. clr_stk n p s = s\<lparr>OSStkCell := c\<rparr>"
proof (induction n arbitrary: p s)
  case 0
  show ?case by (intro exI [of _ "OSStkCell s"]) simp
next
  case (Suc n)
  obtain c where "clr_stk n (p + 1) (s\<lparr>OSStkCell := (OSStkCell s)(p := 0)\<rparr>) =
      (s\<lparr>OSStkCell := (OSStkCell s)(p := 0)\<rparr>)\<lparr>OSStkCell := c\<rparr>" using Suc.IH by blast
  then show ?case by (intro exI [of _ c]) simp
qed

text \<open>
  Both services: a call that passes the guards reserves the priority, writes the stack and adds the
  task, or frees the priority again when no control block is left.
\<close>

definition create_step :: "INT8U \<Rightarrow> os \<Rightarrow> os \<times> INT8U \<Rightarrow> bool" where
  "create_step prio s r \<longleftrightarrow>
     (snd r \<noteq> OS_ERR_NONE \<and> (\<exists>c. fst r = s\<lparr>OSStkCell := c\<rparr>)) \<or>
     (\<exists>t c s2. prio \<le> 63 \<and> OSTCBPrioTbl s (unat prio) = NullTCB \<and> OSTCBFreeList s = TCB t \<and> snd r = OS_ERR_NONE \<and>
        (OSTCBList s \<noteq> TCB t \<longrightarrow>
           adds_task (unat prio) t (s\<lparr>OSStkCell := c, OSTCBPrioTbl := (OSTCBPrioTbl s)(unat prio := OS_TCB_RESERVED)\<rparr>) s2) \<and>
        fst r = (if OSRunning s2 then OS_Sched s2 else s2))"

lemma TCBInit_create_step:
  fixes c :: "nat \<Rightarrow> INT32U" and s :: os and prio :: INT8U
  assumes n: "prio \<le> 63" and null: "OSTCBPrioTbl s (unat prio) = NullTCB"
  defines "u \<equiv> s\<lparr>OSStkCell := c, OSTCBPrioTbl := (OSTCBPrioTbl s)(unat prio := OS_TCB_RESERVED)\<rparr>"
  shows "create_step prio s
    (let (s, err) = OS_TCBInit prio psp pbos i sz ext opt u
     in if err = OS_ERR_NONE then (if OSRunning s then OS_Sched s else s, err)
        else (set_prio_tbl prio NullTCB s, err))"
proof (cases "OSTCBFreeList s")
  case (TCB t)
  have n64: "unat prio < 64" using n by (simp add: word_le_nat_alt)
  have f: "OSTCBFreeList u = TCB t" using TCB by (simp add: u_def)
  obtain s2 err where r: "OS_TCBInit prio psp pbos i sz ext opt u = (s2, err)" by fastforce
  have e: "err = OS_ERR_NONE" using r f by (auto simp: OS_TCBInit_def Let_def)
  have "adds_task (unat prio) t u s2" if "OSTCBList s \<noteq> TCB t"
    using TCBInit_adds(1) [OF f _ n64, of psp pbos i sz ext opt] that r by (simp add: u_def)
  then show ?thesis
    unfolding create_step_def r using n null TCB e
    by (intro disjI2 exI [of _ t] exI [of _ c] exI [of _ s2]) (simp add: u_def)
next
  case NullTCB
  then have r: "OS_TCBInit prio psp pbos i sz ext opt u = (u, OS_ERR_TASK_NO_MORE_TCB)"
    by (simp add: OS_TCBInit_def u_def)
  have "set_prio_tbl prio NullTCB u = s\<lparr>OSStkCell := c\<rparr>"
    using null by (intro os.equality) (simp_all add: u_def set_prio_tbl_def fun_upd_idem)
  then show ?thesis unfolding create_step_def r by auto
next
  case OS_TCB_RESERVED
  then have r: "OS_TCBInit prio psp pbos i sz ext opt u = (u, OS_ERR_TASK_NO_MORE_TCB)"
    by (simp add: OS_TCBInit_def u_def)
  have "set_prio_tbl prio NullTCB u = s\<lparr>OSStkCell := c\<rparr>"
    using null by (intro os.equality) (simp_all add: u_def set_prio_tbl_def fun_upd_idem)
  then show ?thesis unfolding create_step_def r by auto
qed

lemma create_step_fail: "err \<noteq> OS_ERR_NONE \<Longrightarrow> create_step prio s (s, err)"
  unfolding create_step_def by (intro disjI1 conjI exI [of _ "OSStkCell s"]) simp_all

lemma StkInit_cells: "\<exists>c. snd (OSTaskStkInit ret task p_arg ptos opt s) = s\<lparr>OSStkCell := c\<rparr>"
  unfolding OSTaskStkInit_def Let_def by (rule push_stk_cells)

lemma reserve_eq:
  "(set_prio_tbl prio OS_TCB_RESERVED s)\<lparr>OSStkCell := c\<rparr> =
     s\<lparr>OSStkCell := c, OSTCBPrioTbl := (OSTCBPrioTbl s)(unat prio := OS_TCB_RESERVED)\<rparr>"
  by (intro os.equality) (simp_all add: set_prio_tbl_def)

lemma TaskCreate_step: "create_step prio s (OSTaskCreate ret task p_arg ptos prio s)"
proof (cases "prio > 63 \<or> OSIntNesting s > 0 \<or> OSTCBPrioTbl s (unat prio) \<noteq> NullTCB")
  case True
  then show ?thesis by (auto simp: OSTaskCreate_def intro: create_step_fail)
next
  case False
  obtain psp u where u: "OSTaskStkInit ret task p_arg ptos 0 (set_prio_tbl prio OS_TCB_RESERVED s) = (psp, u)"
    by fastforce
  obtain c where "u = (set_prio_tbl prio OS_TCB_RESERVED s)\<lparr>OSStkCell := c\<rparr>"
    using StkInit_cells [of ret task p_arg ptos 0 "set_prio_tbl prio OS_TCB_RESERVED s"] u by auto
  then have c: "u = s\<lparr>OSStkCell := c, OSTCBPrioTbl := (OSTCBPrioTbl s)(unat prio := OS_TCB_RESERVED)\<rparr>"
    by (simp only: reserve_eq)
  have "prio \<le> 63" and "OSTCBPrioTbl s (unat prio) = NullTCB" using False by (simp_all add: not_less)
  from TCBInit_create_step [OF this, of psp 0 0 0 NULL 0 c] show ?thesis
    using False u unfolding OSTaskCreate_def Let_def by (simp add: c)
qed

lemma TaskCreateExt_step: "create_step prio s (OSTaskCreateExt ret task p_arg ptos prio i pbos sz ext opt s)"
proof (cases "prio > 63 \<or> OSIntNesting s > 0 \<or> OSTCBPrioTbl s (unat prio) \<noteq> NullTCB")
  case True
  then show ?thesis by (auto simp: OSTaskCreateExt_def intro: create_step_fail)
next
  case False
  let ?s = "set_prio_tbl prio OS_TCB_RESERVED s"
  obtain c0 where c0: "OS_TaskStkClr pbos sz opt ?s = ?s\<lparr>OSStkCell := c0\<rparr>"
  proof (cases "opt AND OS_TASK_OPT_STK_CHK \<noteq> 0 \<and> opt AND OS_TASK_OPT_STK_CLR \<noteq> 0")
    case True
    then show ?thesis using that clr_stk_cells [of "unat sz" pbos ?s] by (auto simp: OS_TaskStkClr_def)
  next
    case False
    then have "OS_TaskStkClr pbos sz opt ?s = ?s\<lparr>OSStkCell := OSStkCell ?s\<rparr>" by (auto simp: OS_TaskStkClr_def)
    then show ?thesis by (rule that)
  qed
  obtain psp u where u: "OSTaskStkInit ret task p_arg ptos opt (OS_TaskStkClr pbos sz opt ?s) = (psp, u)"
    by fastforce
  obtain c where "u = ?s\<lparr>OSStkCell := c\<rparr>"
    using StkInit_cells [of ret task p_arg ptos opt "OS_TaskStkClr pbos sz opt ?s"] u by (auto simp: c0)
  then have c: "u = s\<lparr>OSStkCell := c, OSTCBPrioTbl := (OSTCBPrioTbl s)(unat prio := OS_TCB_RESERVED)\<rparr>"
    by (simp only: reserve_eq)
  have "prio \<le> 63" and "OSTCBPrioTbl s (unat prio) = NullTCB" using False by (simp_all add: not_less)
  from TCBInit_create_step [OF this, of psp pbos i sz ext opt c] show ?thesis
    using False u unfolding OSTaskCreateExt_def Let_def by (simp add: c)
qed

lemma pre_inv_reserve:
  assumes inv: "pre_inv k s" and n: "\<And>u. OSTCBPrioTbl s n \<noteq> TCB u"
  shows "pre_inv k (s\<lparr>OSStkCell := c, OSTCBPrioTbl := (OSTCBPrioTbl s)(n := OS_TCB_RESERVED)\<rparr>)" (is "pre_inv k ?s")
proof -
  note i = pre_invD [OF inv]
  have tbl: "OSTCBPrioTbl ?s m = TCB u \<longleftrightarrow> OSTCBPrioTbl s m = TCB u" for m u using n by auto
  have at: "task_at ?s = task_at s" by (intro ext) (simp only: task_at_def tbl, simp)
  have w: "waits_on ?s = waits_on s" by (intro ext) (simp add: waits_on_def wl_def)
  have e: "rdy ?s = rdy s" "wl ?s = wl s" "event_next ?s = event_next s" "tcb_next ?s = tcb_next s"
    "tcb_prev ?s = tcb_prev s"
    by (auto simp: rdy_def wl_def event_next_def tcb_next_def tcb_prev_def)
  have "kernel_inv ?s" using i(1) unfolding kernel_inv_def at w e tbl by simp
  moreover have "conts_ok k ?s" using i(2) unfolding conts_ok_def at w by simp
  moreover have "cur_ok ?s" using i(3) unfolding cur_ok_def at by simp
  moreover have "free_events_ok ?s" using i(4) unfolding free_events_ok_def event_pool.holds_def e by simp
  moreover have "\<exists>ts. task_list ?s ts" using i(10) unfolding task_list_def free_tcbs_def at e tbl by simp
  ultimately show ?thesis using i(5,9) by (simp add: pre_inv_def)
qed

lemma pre_inv_free_not_head:
  assumes inv: "pre_inv k s" and f: "OSTCBFreeList s = TCB t"
  shows "OSTCBList s \<noteq> TCB t"
proof
  obtain ts fs where l: "task_list s ts" "free_tcbs s fs" using pre_invD(10) [OF inv] by (auto simp: task_list_def)
  assume eq: "OSTCBList s = TCB t"
  then have "t \<in> set ts" using l(1) by (cases ts) (auto simp: task_list_def tcb_opt_def)
  then have "task_at s (prio_of (OSTCBTbl s t)) t" using l(1) by (simp add: task_list_def)
  moreover have "t \<in> set fs" using l(2) f by (cases fs) (auto simp: free_tcbs_def tcb_opt_def)
  ultimately show False using l(2) by (auto simp: free_tcbs_def task_at_def)
qed

theorem create_step_sys_inv:
  assumes inv: "sys_inv k s" and st: "create_step prio s (s', err)"
  shows "sys_inv (if err = OS_ERR_NONE then k(tcb_ix (OSTCBFreeList s) := None) else k) s'"
  using st unfolding create_step_def
proof (elim disjE)
  assume "snd (s', err) \<noteq> OS_ERR_NONE \<and> (\<exists>c. fst (s', err) = s\<lparr>OSStkCell := c\<rparr>)"
  then obtain c where c: "err \<noteq> OS_ERR_NONE" "s' = s\<lparr>OSStkCell := c\<rparr>" by auto
  have "pre_inv k s'"
    by (rule pre_inv_counters [OF sys_invD(1) [OF inv]])
      (use pre_invD(5) [OF sys_invD(1) [OF inv]] in \<open>simp_all add: c(2) rdy_def\<close>)
  then show ?thesis using c sys_invD(2) [OF inv] by (simp add: sys_inv_def top_runs_def rdy_def)
next
  assume "\<exists>t c s2. prio \<le> 63 \<and> OSTCBPrioTbl s (unat prio) = NullTCB \<and> OSTCBFreeList s = TCB t \<and> snd (s', err) = OS_ERR_NONE \<and>
        (OSTCBList s \<noteq> TCB t \<longrightarrow>
           adds_task (unat prio) t (s\<lparr>OSStkCell := c, OSTCBPrioTbl := (OSTCBPrioTbl s)(unat prio := OS_TCB_RESERVED)\<rparr>) s2) \<and>
        fst (s', err) = (if OSRunning s2 then OS_Sched s2 else s2)"
  then obtain t c s2 where c: "prio \<le> 63" "OSTCBPrioTbl s (unat prio) = NullTCB" "OSTCBFreeList s = TCB t" "err = OS_ERR_NONE"
    and add: "OSTCBList s \<noteq> TCB t \<Longrightarrow>
      adds_task (unat prio) t (s\<lparr>OSStkCell := c, OSTCBPrioTbl := (OSTCBPrioTbl s)(unat prio := OS_TCB_RESERVED)\<rparr>) s2"
    and s': "s' = (if OSRunning s2 then OS_Sched s2 else s2)" by auto
  let ?u = "s\<lparr>OSStkCell := c, OSTCBPrioTbl := (OSTCBPrioTbl s)(unat prio := OS_TCB_RESERVED)\<rparr>"
  note i = pre_invD [OF sys_invD(1) [OF inv]]
  have pu: "pre_inv k ?u" using c(2) by (intro pre_inv_reserve [OF sys_invD(1) [OF inv]]) simp
  have "OSTCBList s \<noteq> TCB t" using pre_inv_free_not_head [OF sys_invD(1) [OF inv] c(3)] .
  note a = add [OF this]
  have n: "unat prio < 64" using c(1) by (simp add: word_le_nat_alt)
  have p2: "pre_inv (k(t := None)) s2" by (rule adds_task_pre_inv [OF pu a n]) simp
  then have "OSRunning s2" by (rule pre_invD(9))
  then show ?thesis using Sched_sys_inv [OF p2] c(3,4) by (simp add: s')
qed

section \<open>When a task is created\<close>

lemma TCBInit_err:
  "snd (OS_TCBInit prio psp pbos i sz ext opt s) =
     (case OSTCBFreeList s of TCB t \<Rightarrow> OS_ERR_NONE | _ \<Rightarrow> OS_ERR_TASK_NO_MORE_TCB)"
  by (cases "OSTCBFreeList s") (simp_all add: OS_TCBInit_def Let_def)

lemma StkInit_frame [simp]: "OSTCBFreeList (snd (OSTaskStkInit ret task p_arg ptos opt s)) = OSTCBFreeList s"
  using StkInit_cells [of ret task p_arg ptos opt s] by auto

lemma StkClr_frame [simp]: "OSTCBFreeList (OS_TaskStkClr pbos sz opt s) = OSTCBFreeList s"
  using clr_stk_cells [of "unat sz" pbos s] by (auto simp: OS_TaskStkClr_def)

lemma set_prio_tbl_frame [simp]: "OSTCBFreeList (set_prio_tbl prio p s) = OSTCBFreeList s"
  by (simp add: set_prio_tbl_def)

definition create_err :: "INT8U \<Rightarrow> os \<Rightarrow> INT8U" where
  "create_err prio s =
     (if prio > 63 then OS_ERR_PRIO_INVALID
      else if OSIntNesting s > 0 then OS_ERR_TASK_CREATE_ISR
      else if OSTCBPrioTbl s (unat prio) \<noteq> NullTCB then OS_ERR_PRIO_EXIST
      else case OSTCBFreeList s of TCB t \<Rightarrow> OS_ERR_NONE | _ \<Rightarrow> OS_ERR_TASK_NO_MORE_TCB)"

lemma TaskCreate_err: "snd (OSTaskCreate ret task p_arg ptos prio s) = create_err prio s"
proof -
  obtain psp u where u: "OSTaskStkInit ret task p_arg ptos 0 (set_prio_tbl prio OS_TCB_RESERVED s) = (psp, u)"
    by fastforce
  then have "OSTCBFreeList u = OSTCBFreeList s"
    using StkInit_frame [of ret task p_arg ptos 0 "set_prio_tbl prio OS_TCB_RESERVED s"] by simp
  moreover obtain w err where w: "OS_TCBInit prio psp 0 0 0 NULL 0 u = (w, err)" by fastforce
  ultimately have "err = (case OSTCBFreeList s of TCB t \<Rightarrow> OS_ERR_NONE | _ \<Rightarrow> OS_ERR_TASK_NO_MORE_TCB)"
    using TCBInit_err [of prio psp 0 0 0 NULL 0 u] by simp
  then show ?thesis unfolding OSTaskCreate_def create_err_def Let_def by (simp add: u w)
qed

lemma TaskCreateExt_err: "snd (OSTaskCreateExt ret task p_arg ptos prio i pbos sz ext opt s) = create_err prio s"
proof -
  let ?v = "OS_TaskStkClr pbos sz opt (set_prio_tbl prio OS_TCB_RESERVED s)"
  obtain psp u where u: "OSTaskStkInit ret task p_arg ptos opt ?v = (psp, u)" by fastforce
  then have "OSTCBFreeList u = OSTCBFreeList s" using StkInit_frame [of ret task p_arg ptos opt ?v] by simp
  moreover obtain w err where w: "OS_TCBInit prio psp pbos i sz ext opt u = (w, err)" by fastforce
  ultimately have "err = (case OSTCBFreeList s of TCB t \<Rightarrow> OS_ERR_NONE | _ \<Rightarrow> OS_ERR_TASK_NO_MORE_TCB)"
    using TCBInit_err [of prio psp pbos i sz ext opt u] by simp
  then show ?thesis unfolding OSTaskCreateExt_def create_err_def Let_def by (simp add: u w)
qed

lemma create_step_result:
  assumes inv: "sys_inv k s" and st: "create_step prio s (s', OS_ERR_NONE)"
  shows "\<exists>t. OSTCBFreeList s = TCB t \<and> bm_mem (rdy s') = insert (unat prio) (bm_mem (rdy s)) \<and>
    (\<forall>m u. task_at s' m u \<longleftrightarrow> (if m = unat prio then u = t else task_at s m u))"
proof -
  obtain t c s2 where c: "prio \<le> 63" "OSTCBPrioTbl s (unat prio) = NullTCB" "OSTCBFreeList s = TCB t"
    and add: "OSTCBList s \<noteq> TCB t \<Longrightarrow>
      adds_task (unat prio) t (s\<lparr>OSStkCell := c, OSTCBPrioTbl := (OSTCBPrioTbl s)(unat prio := OS_TCB_RESERVED)\<rparr>) s2"
    and s': "s' = (if OSRunning s2 then OS_Sched s2 else s2)"
    using st unfolding create_step_def by auto
  let ?u = "s\<lparr>OSStkCell := c, OSTCBPrioTbl := (OSTCBPrioTbl s)(unat prio := OS_TCB_RESERVED)\<rparr>"
  have n: "unat prio < 64" using c(1) by (simp add: word_le_nat_alt)
  note inv' = sys_invD(1) [OF inv]
  have a: "adds_task (unat prio) t ?u s2" using add pre_inv_free_not_head [OF inv' c(3)] by blast
  obtain ts fs where l: "task_list s ts" "path (tcb_next s) (tcb_opt (OSTCBFreeList s)) fs"
      "\<forall>t\<in>set fs. \<forall>n<64. OSTCBPrioTbl s n \<noteq> TCB t"
    using pre_invD(10) [OF inv'] by (auto simp: task_list_def free_tcbs_def)
  then have "t \<in> set fs" using c(3) by (cases fs) (auto simp: tcb_opt_def)
  then have free: "\<And>m. m < 64 \<Longrightarrow> OSTCBPrioTbl ?u m \<noteq> TCB t" using l(3) by auto
  have sch: "rdy s' = rdy s2" "task_at s' = task_at s2"
    using same_task_prio [OF Sched_frame(9) [of s2]] by (auto simp: s' task_at_def fun_eq_iff)
  have u: "task_at ?u m x \<longleftrightarrow> m \<noteq> unat prio \<and> task_at s m x" for m x using c(2) by (auto simp: task_at_def)
  have "rdy s2 = bm_ins (unat prio) (rdy s)" using adds_taskD(6) [OF a] by (simp add: rdy_def)
  then have "bm_mem (rdy s') = insert (unat prio) (bm_mem (rdy s))"
    using kernel_invD(1) [OF pre_invD(1) [OF inv']] n by (simp add: sch bm_mem_ins)
  then show ?thesis using adds_task_at [OF a free n] by (intro exI [of _ t]) (simp add: c(3) sch u)
qed

lemma push_stk_outside:
  "i < p - length vs \<or> p \<le> i \<and> 0 < i \<Longrightarrow> OSStkCell (snd (push_stk vs (p, s))) i = OSStkCell s i"
proof (induction vs arbitrary: p s)
  case (Cons v vs)
  have "OSStkCell (snd (push_stk vs (p - 1, s\<lparr>OSStkCell := (OSStkCell s)(p - 1 := v)\<rparr>))) i =
      OSStkCell (s\<lparr>OSStkCell := (OSStkCell s)(p - 1 := v)\<rparr>) i"
    using Cons.prems by (intro Cons.IH) auto
  then show ?case using Cons.prems by (auto simp: Let_def)
qed simp

text \<open>The cells of the frame \<open>OSTaskStkInit\<close> builds: 17 words, below the top of the stack rounded
  down to eight bytes.\<close>

definition stk_frame :: "nat \<Rightarrow> nat set" where
  "stk_frame ptos = {ptos + 1 - (ptos + 1) mod 2 - 17..ptos}"

lemma StkInit_outside:
  "i \<notin> stk_frame ptos \<Longrightarrow> OSStkCell (snd (OSTaskStkInit ret task p_arg ptos opt s)) i = OSStkCell s i"
  unfolding OSTaskStkInit_def Let_def by (intro push_stk_outside) (auto simp: stk_frame_def)

lemma TaskCreate_fails:
  assumes "OSTaskCreate ret task p_arg ptos prio s = (s', err)" and "err \<noteq> OS_ERR_NONE"
  shows "\<forall>i. i \<notin> stk_frame ptos \<longrightarrow> OSStkCell s' i = OSStkCell s i"
    and "err \<noteq> OS_ERR_TASK_NO_MORE_TCB \<Longrightarrow> s' = s"
proof -
  let ?s = "set_prio_tbl prio OS_TCB_RESERVED s"
  obtain psp u where u: "OSTaskStkInit ret task p_arg ptos 0 ?s = (psp, u)" by fastforce
  have "OSStkCell u i = OSStkCell s i" if "i \<notin> stk_frame ptos" for i
    using StkInit_outside [OF that, of ret task p_arg 0 ?s] u by (simp add: set_prio_tbl_def)
  then have u_out: "\<forall>i. i \<notin> stk_frame ptos \<longrightarrow> OSStkCell u i = OSStkCell s i" by blast
  obtain v e where v: "OS_TCBInit prio psp 0 0 0 NULL 0 u = (v, e)" by fastforce
  have ve: "v = u \<and> e = OS_ERR_TASK_NO_MORE_TCB" if "e \<noteq> OS_ERR_NONE"
    using v that by (auto simp: OS_TCBInit_def Let_def split: tcb_ptr.splits)
  have c: "OSTaskCreate ret task p_arg ptos prio s =
     (if prio > OS_LOWEST_PRIO then (s, OS_ERR_PRIO_INVALID)
      else if OSIntNesting s > 0 then (s, OS_ERR_TASK_CREATE_ISR)
      else if OSTCBPrioTbl s (unat prio) = NullTCB
      then if e = OS_ERR_NONE then (if OSRunning v then OS_Sched v else v, e) else (set_prio_tbl prio NullTCB v, e)
      else (s, OS_ERR_PRIO_EXIST))"
    unfolding OSTaskCreate_def Let_def by (simp only: u v prod.case)
  show "\<forall>i. i \<notin> stk_frame ptos \<longrightarrow> OSStkCell s' i = OSStkCell s i"
    using assms u_out ve unfolding c by (auto simp: set_prio_tbl_def split: if_splits)
  show "err \<noteq> OS_ERR_TASK_NO_MORE_TCB \<Longrightarrow> s' = s"
    using assms ve unfolding c by (auto split: if_splits)
qed

text \<open>C17: the result of \<open>OSTaskCreate\<close> on every branch.  Its error is decided by the priority,
  where all from 0 to \<open>OS_LOWEST_PRIO\<close> itself pass the test (its comment excludes \<open>OS_LOWEST_PRIO\<close>), the caller, the priority table and the
  free list, in that order; a successful call makes the first free control block the ready task of that
  priority and leaves every other task as it is; a failed call changes nothing, except that with no
  control block left it has already written the initial frame: the cells of the 17 words at the top of
  the stack the task was given, and nothing else.\<close>

theorem OSTaskCreate_result:
  assumes inv: "sys_inv k s" and r: "OSTaskCreate ret task p_arg ptos prio s = (s', err)"
  shows "err = create_err prio s \<and>
    (if err = OS_ERR_NONE
     then \<exists>t. OSTCBFreeList s = TCB t \<and> bm_mem (rdy s') = insert (unat prio) (bm_mem (rdy s)) \<and>
       (\<forall>m u. task_at s' m u \<longleftrightarrow> (if m = unat prio then u = t else task_at s m u))
     else if err = OS_ERR_TASK_NO_MORE_TCB
     then \<exists>c. s' = s\<lparr>OSStkCell := c\<rparr> \<and> (\<forall>i. i \<notin> stk_frame ptos \<longrightarrow> c i = OSStkCell s i)
     else s' = s)"
proof -
  have e: "err = create_err prio s" using TaskCreate_err [of ret task p_arg ptos prio s] r by simp
  have st: "create_step prio s (s', err)" using TaskCreate_step [of prio s ret task p_arg ptos] r by simp
  show ?thesis
  proof (cases "err = OS_ERR_NONE")
    case True
    then show ?thesis using e create_step_result [OF inv] st by simp
  next
    case False
    then obtain c where c: "s' = s\<lparr>OSStkCell := c\<rparr>" using st by (auto simp: create_step_def)
    have "\<forall>i. i \<notin> stk_frame ptos \<longrightarrow> c i = OSStkCell s i" using TaskCreate_fails(1) [OF r False] c by simp
    then show ?thesis using e False c TaskCreate_fails(2) [OF r False] by auto
  qed
qed

lemma OSTaskCreate_result_witness:
  "task_at (fst (OSTaskCreate 0 0x100 0 99 7 (ex_os OS_EVENT_TYPE_SEM True))) 7 3 \<and>
   OSTaskCreate 0 0x100 0 99 5 (ex_os OS_EVENT_TYPE_SEM True) = (ex_os OS_EVENT_TYPE_SEM True, OS_ERR_PRIO_EXIST)"
proof -
  let ?s = "ex_os OS_EVENT_TYPE_SEM True"
  have inv: "sys_inv (ex_conts (PendSem 0) True) ?s" by (rule ex_sys_inv) simp_all
  obtain s1 e1 where 1: "OSTaskCreate 0 0x100 0 99 7 ?s = (s1, e1)" by fastforce
  obtain s2 e2 where 2: "OSTaskCreate 0 0x100 0 99 5 ?s = (s2, e2)" by fastforce
  have e: "create_err 7 ?s = OS_ERR_NONE" "create_err 5 ?s = OS_ERR_PRIO_EXIST" by (simp_all add: create_err_def)
  show ?thesis
    using OSTaskCreate_result [OF inv 1] OSTaskCreate_result [OF inv 2]
    by (auto simp: 1 2 e simp del: split_paired_All)
qed

end
