(* ===== verification/UCOS_Quiet.thy ===== *)
theory UCOS_Quiet
  imports UCOS_Tmr UCOS_Mem UCOS_Create
begin

text \<open>
  The services that leave the tasks, the ready list, the wait lists and the event control blocks
  alone: memory partitions, names, task registers, the time of day and, up to the scheduler lock
  they take and release, the software timers.
\<close>

section \<open>Tables of other components\<close>

lemma quiet_tables [simp]:
  "quiet s (s\<lparr>OSFlagTbl := f1\<rparr>)" "quiet s (s\<lparr>OSFlagFreeList := f2\<rparr>)" "quiet s (s\<lparr>OSMemTbl := f3\<rparr>)"
  "quiet s (s\<lparr>OSMemFreeList := f4\<rparr>)" "quiet s (s\<lparr>OSQTbl := f5\<rparr>)" "quiet s (s\<lparr>OSQFreeList := f6\<rparr>)"
  "quiet s (s\<lparr>OSTmrTbl := f7\<rparr>)" "quiet s (s\<lparr>OSTmrFreeList := f8\<rparr>)" "quiet s (s\<lparr>OSTmrWheelTbl := f9\<rparr>)"
  "quiet s (s\<lparr>OSTmrTime := f10\<rparr>)" "quiet s (s\<lparr>OSTmrUsed := f11\<rparr>)" "quiet s (s\<lparr>OSTmrFree := f12\<rparr>)"
  "quiet s (s\<lparr>OSTmrSem := f13\<rparr>)" "quiet s (s\<lparr>OSTmrSemSignal := f14\<rparr>)" "quiet s (s\<lparr>OSMemWord := f15\<rparr>)"
  "quiet s (s\<lparr>OSTime := f16\<rparr>)" "quiet s (s\<lparr>OSTaskRegNextAvailID := f17\<rparr>)"
  by (simp_all add: quiet_def same_kernel_def same_run_def rdy_def wl_def)

lemma quiet_upd [simp]:
  "quiet s (upd_mem m f2 s)" "quiet s (upd_tmr x f3 s)" "quiet s (upd_spoke i f4 s)"
  "quiet s (set_mem_word a v s)"
  by (simp_all add: upd_mem_def upd_tmr_def upd_spoke_def set_mem_word_def)

text \<open>To prove a chain of such updates quiet, step over its last one.\<close>

lemma quiet_after:
  "quiet s u \<Longrightarrow> quiet s (upd_mem m f2 u)" "quiet s u \<Longrightarrow> quiet s (upd_tmr x f3 u)"
  "quiet s u \<Longrightarrow> quiet s (upd_spoke i f4 u)" "quiet s u \<Longrightarrow> quiet s (set_mem_word a v u)"
  "quiet s u \<Longrightarrow> quiet s (u\<lparr>OSTmrFreeList := f8\<rparr>)" "quiet s u \<Longrightarrow> quiet s (u\<lparr>OSMemFreeList := f9\<rparr>)"
  "quiet s u \<Longrightarrow> quiet s (u\<lparr>OSTmrUsed := f11, OSTmrFree := f12\<rparr>)"
  "quiet s u \<Longrightarrow> quiet s (u\<lparr>OSTmrTime := f10\<rparr>)"
  by (erule quiet_trans; simp add: quiet_def same_kernel_def same_run_def rdy_def wl_def
      upd_mem_def upd_tmr_def upd_spoke_def set_mem_word_def)+

lemma quiet_upd_tcb:
  "(\<And>p. tcb_coords (f p) = tcb_coords p) \<Longrightarrow> (\<And>p. tcb_sync (f p) = tcb_sync p) \<Longrightarrow> quiet s (upd_tcb t f s)"
  by (simp add: quiet_def same_kernel_def same_run_def same_task_def upd_tcb_def rdy_def wl_def)

section \<open>Memory partitions, names, registers, time\<close>

lemma MemLink_quiet: "quiet s (snd (OS_MemLink n sz p s))"
  by (induction n sz p s rule: OS_MemLink.induct) (auto simp: Let_def intro: quiet_trans [OF quiet_upd(4)])

lemma MemCreate_quiet: "quiet s (fst (OSMemCreate addr nblks blksize s))"
proof (cases "addr = 0 \<or> addr AND 3 \<noteq> 0 \<or> nblks < 2 \<or> blksize < 4 \<or> OSMemFreeList s = None")
  case True
  then show ?thesis by (auto simp: OSMemCreate_def)
next
  case False
  then obtain m where m: "OSMemFreeList s = Some m" by blast
  let ?s = "s\<lparr>OSMemFreeList := mem_of_void (OSMemBlkList (OSMemTbl s m))\<rparr>"
  obtain p u where u: "OS_MemLink (unat (nblks - 1)) blksize addr ?s = (p, u)" by fastforce
  then have "quiet ?s u" using MemLink_quiet [of ?s "unat (nblks - 1)" blksize addr] by simp
  then have "quiet s u" using quiet_tables(4) by (rule quiet_trans [rotated])
  then show ?thesis using False m u by (simp add: OSMemCreate_def Let_def quiet_after)
qed

lemma Mem_quiet:
  "quiet s (fst (OSMemGet pm s))" "quiet s (fst (OSMemPut pm pblk s))" "quiet s (fst (OSMemNameSet pm pname s))"
  by (auto simp: OSMemGet_def OSMemPut_def OSMemNameSet_def Let_def quiet_after split: option.split)

lemma TaskNameSet_quiet: "quiet s (fst (OSTaskNameSet prio pname s))"
  by (auto simp: OSTaskNameSet_def intro!: quiet_upd_tcb simp: tcb_coords_def tcb_sync_def split: tcb_ptr.split)

lemma TaskReg_quiet: "quiet s (fst (OSTaskRegSet prio i v s))" "quiet s (fst (OSTaskRegGetID s))"
  by (auto simp: OSTaskRegSet_def OSTaskRegGetID_def intro!: quiet_upd_tcb simp: tcb_coords_def tcb_sync_def)

lemma TaskDelReq_quiet: "quiet s (fst (OSTaskDelReq prio s))"
  by (auto simp: OSTaskDelReq_def intro!: quiet_upd_tcb simp: tcb_coords_def tcb_sync_def split: tcb_ptr.split)

lemma named_event_used: "named_event_type ty \<Longrightarrow> ty \<noteq> OS_EVENT_TYPE_UNUSED"
  by (auto simp: named_event_type_def)

lemma EventNameSet_quiet: "quiet s (fst (OSEventNameSet pe pname s))"
  by (auto simp: OSEventNameSet_def intro: quiet_upd_event dest: named_event_used split: option.split)

lemma TimeSet_quiet: "quiet s (OSTimeSet ticks s)"
  by (simp add: OSTimeSet_def)

lemmas quiet_services = MemCreate_quiet Mem_quiet TaskNameSet_quiet TaskReg_quiet TaskDelReq_quiet
  EventNameSet_quiet TimeSet_quiet

section \<open>Software timers\<close>

lemma Tmr_quiet:
  "quiet s (fst (OSTmr_Alloc s))" "quiet s (OSTmr_Free t s)" "quiet s (OSTmr_Link t ty s)" "quiet s (OSTmr_Unlink t s)"
  unfolding OSTmr_Alloc_def OSTmr_Free_def OSTmr_Link_def OSTmr_Unlink_def Let_def
  by (auto simp: quiet_after split: option.split)

lemmas Tmr_after = quiet_trans [OF _ Tmr_quiet(2)] quiet_trans [OF _ Tmr_quiet(3)] quiet_trans [OF _ Tmr_quiet(4)]

text \<open>
  A timer service changes the timers between taking and releasing the scheduler lock.
\<close>

lemma locked_sys_inv:
  assumes inv: "sys_inv k s" and none: "k (cur s) = None" and q: "quiet (OSSchedLock s) u"
  shows "sys_inv k (OSSchedUnlock u)"
  using SchedUnlock_sys_inv [OF quiet_sys_inv [OF SchedLock_sys_inv [OF inv none] q]] .

definition quiet_callbacks :: "callbacks \<Rightarrow> bool" where
  "quiet_callbacks cb \<longleftrightarrow> (\<forall>f t arg s. quiet s (cb f t arg s))"

lemma callbacks_after: "quiet_callbacks cb \<Longrightarrow> quiet s u \<Longrightarrow> quiet s (cb f t arg u)"
  by (auto simp: quiet_callbacks_def intro: quiet_trans)

lemma Tmr_sys_inv:
  assumes inv: "sys_inv k s" and none: "k (cur s) = None"
  shows "sys_inv k (fst (OSTmrCreate dly period opt callback arg pname s))"
    and "sys_inv k (fst (OSTmrDel pt s))" and "sys_inv k (fst (OSTmrStart pt s))"
    and "sys_inv k (fst (OSTmrRemainGet pt s))" and "sys_inv k (fst (OSTmrStateGet pt s))"
    and "sys_inv k (fst (OSTmrNameGet pt pdest s))"
    and "quiet_callbacks cb \<Longrightarrow> sys_inv k (fst (OSTmrStop cb pt opt arg s))"
proof -
  note L = locked_sys_inv [OF inv none]
  obtain u r where u: "OSTmr_Alloc (OSSchedLock s) = (u, r)" by fastforce
  have "quiet (OSSchedLock s) u" using Tmr_quiet(1) [of "OSSchedLock s"] u by simp
  then show "sys_inv k (fst (OSTmrCreate dly period opt callback arg pname s))"
    using inv L by (cases r) (simp_all add: OSTmrCreate_def u Let_def quiet_after)
  show "sys_inv k (fst (OSTmrDel pt s))" "sys_inv k (fst (OSTmrStart pt s))"
    "sys_inv k (fst (OSTmrRemainGet pt s))" "sys_inv k (fst (OSTmrStateGet pt s))"
    "sys_inv k (fst (OSTmrNameGet pt pdest s))"
    using inv by (auto simp: OSTmrDel_def OSTmrStart_def OSTmrRemainGet_def OSTmrStateGet_def OSTmrNameGet_def
        Let_def split: sum.split intro!: L Tmr_after)
  assume cb: "quiet_callbacks cb"
  show "sys_inv k (fst (OSTmrStop cb pt opt arg s))"
    using inv by (auto simp: OSTmrStop_def Let_def split: sum.split option.split
        intro!: L callbacks_after [OF cb] Tmr_after)
qed

text \<open>One round of the timer task.\<close>

lemma TmrExpire_quiet:
  assumes cb: "quiet_callbacks cb"
  shows "quiet s (OSTmr_Expire cb t s)"
  unfolding OSTmr_Expire_def Let_def
  by (auto split: option.split intro!: callbacks_after [OF cb] Tmr_after quiet_after)

lemma TmrWalk_quiet:
  assumes cb: "quiet_callbacks cb" and w: "OSTmr_Walk cb p s = Some s'"
  shows "quiet s s'"
proof -
  obtain r where r: "while_option (\<lambda>(s, ptmr). ptmr \<noteq> None)
          (\<lambda>(s, ptmr). let ptmr_next = OSTmrNext (OSTmrTbl s (the ptmr))
                       in (OSTmr_Expire cb (the ptmr) s, ptmr_next)) (s, p) = Some r" "s' = fst r"
    using w by (auto simp: OSTmr_Walk_def)
  have "quiet s (fst r)"
    by (rule while_option_rule [OF _ r(1), where P = "\<lambda>v. quiet s (fst v)"])
      (auto simp: Let_def intro: quiet_trans [OF _ TmrExpire_quiet [OF cb]])
  then show ?thesis by (simp add: r(2))
qed

lemma TmrRound_sys_inv:
  assumes inv: "sys_inv k s" and none: "k (cur s) = None" and cb: "quiet_callbacks cb"
    and r: "OSTmr_Round cb s = Some s'"
  shows "sys_inv k s'"
proof -
  let ?u = "(OSSchedLock s)\<lparr>OSTmrTime := OSTmrTime (OSSchedLock s) + 1\<rparr>"
  obtain v where v: "OSTmr_Walk cb (OSTmrFirst (OSTmrWheelTbl ?u (tmr_spoke (OSTmrTime ?u)))) ?u = Some v"
      and s': "s' = OSSchedUnlock v"
    using r by (auto simp: OSTmr_Round_def Let_def)
  have "quiet ?u v" by (rule TmrWalk_quiet [OF cb v])
  then have "quiet (OSSchedLock s) v" by (rule quiet_trans [OF quiet_tables(10)])
  then show ?thesis unfolding s' by (rule locked_sys_inv [OF inv none])
qed

end
