(* ===== verification/UCOS_Fifo.thy ===== *)
theory UCOS_Fifo
  imports UCOS_Types
begin

text \<open>
  The contract of a bounded buffer of messages: taken from the front, stored at the back or at the
  front.  The message queues rely on it, and their circular buffers provide it.
\<close>

locale bounded_buffer =
  fixes ok :: "'r \<Rightarrow> bool"
    and contents :: "'r \<Rightarrow> 'v list"
    and room :: "'r \<Rightarrow> nat"
    and get :: "'r \<Rightarrow> 'r \<times> 'v"
    and put :: "'v \<Rightarrow> 'r \<Rightarrow> 'r"
    and put_front :: "'v \<Rightarrow> 'r \<Rightarrow> 'r"
  assumes bounded: "ok r \<Longrightarrow> length (contents r) \<le> room r"
    and get_ok: "ok r \<Longrightarrow> contents r \<noteq> [] \<Longrightarrow> ok (fst (get r))"
    and get_contents: "ok r \<Longrightarrow> contents r \<noteq> [] \<Longrightarrow> contents r = snd (get r) # contents (fst (get r))"
    and get_room: "ok r \<Longrightarrow> contents r \<noteq> [] \<Longrightarrow> room (fst (get r)) = room r"
    and put_ok: "ok r \<Longrightarrow> length (contents r) < room r \<Longrightarrow> ok (put v r)"
    and put_contents: "ok r \<Longrightarrow> length (contents r) < room r \<Longrightarrow> contents (put v r) = contents r @ [v]"
    and put_room: "ok r \<Longrightarrow> length (contents r) < room r \<Longrightarrow> room (put v r) = room r"
    and front_ok: "ok r \<Longrightarrow> length (contents r) < room r \<Longrightarrow> ok (put_front v r)"
    and front_contents: "ok r \<Longrightarrow> length (contents r) < room r \<Longrightarrow> contents (put_front v r) = v # contents r"
    and front_room: "ok r \<Longrightarrow> length (contents r) < room r \<Longrightarrow> room (put_front v r) = room r"
begin

text \<open>What was stored last in front comes out first, and the rest is as before.\<close>

lemma lifo:
  assumes "ok r" and "length (contents r) < room r"
  shows "snd (get (put_front v r)) = v" and "contents (fst (get (put_front v r))) = contents r"
  using get_contents [OF front_ok [OF assms, of v]] front_contents [OF assms, of v] by simp_all

text \<open>Storing a sequence, and taking as many messages.\<close>

fun puts :: "'v list \<Rightarrow> 'r \<Rightarrow> 'r" where
  "puts [] r = r"
| "puts (v # vs) r = puts vs (put v r)"

fun gets :: "nat \<Rightarrow> 'r \<Rightarrow> 'v list \<times> 'r" where
  "gets 0 r = ([], r)"
| "gets (Suc n) r = (let (r, v) = get r; (vs, r) = gets n r in (v # vs, r))"

lemma puts_contents:
  "ok r \<Longrightarrow> length (contents r) + length vs \<le> room r \<Longrightarrow>
     ok (puts vs r) \<and> contents (puts vs r) = contents r @ vs \<and> room (puts vs r) = room r"
proof (induction vs arbitrary: r)
  case Nil
  then show ?case by simp
next
  case (Cons v vs)
  then have l: "length (contents r) < room r" by simp
  show ?case
    using Cons.IH [OF put_ok [OF Cons.prems(1) l]] Cons.prems
    by (simp add: put_contents l put_room)
qed

lemma gets_contents:
  "ok r \<Longrightarrow> n \<le> length (contents r) \<Longrightarrow>
     fst (gets n r) = take n (contents r) \<and> ok (snd (gets n r)) \<and>
     contents (snd (gets n r)) = drop n (contents r) \<and> room (snd (gets n r)) = room r"
proof (induction n arbitrary: r)
  case 0
  then show ?case by simp
next
  case (Suc n)
  then have ne: "contents r \<noteq> []" by auto
  obtain r' v where g: "get r = (r', v)" by fastforce
  have "contents r = v # contents r'" using get_contents [OF Suc.prems(1) ne] g by simp
  moreover have "ok r'" "room r' = room r"
    using get_ok [OF Suc.prems(1) ne] get_room [OF Suc.prems(1) ne] g by simp_all
  ultimately show ?case
    using Suc.IH [of r'] Suc.prems(2) by (simp add: g split_beta)
qed

text \<open>First in, first out: after a sequence is stored, taking all gives the old contents, then it.\<close>

lemma fifo:
  assumes "ok r" and "length (contents r) + length vs \<le> room r"
  shows "fst (gets (length (contents r) + length vs) (puts vs r)) = contents r @ vs"
    and "contents (snd (gets (length (contents r) + length vs) (puts vs r))) = []"
  using puts_contents [OF assms] gets_contents [of "puts vs r" "length (contents r) + length vs"]
  by simp_all

end

end
