(* ===== verification/UCOS_Q.thy ===== *)
theory UCOS_Q
  imports UCOS_Example UCOS_Fifo
begin

text \<open>
  The message queues of \<open>os_q.c\<close>: \<open>OSEventPtr\<close> of the event points to a queue control
  block, a circular buffer over the cells \<open>OSQStart\<close> to \<open>OSQEnd - 1\<close> of the storage the
  application passed.  The addresses of the cells are numbers.  The conventions are those of the
  semaphores.
\<close>

section \<open>The circular buffer\<close>

text \<open>
  The three moves of the code on a control block and the cells: take the message at \<open>OSQOut\<close>,
  store one at \<open>OSQIn\<close>, and store one in front of \<open>OSQOut\<close>.
\<close>

type_synonym ring = "os_q \<times> (nat \<Rightarrow> voidp)"

definition OS_QGet :: "ring \<Rightarrow> ring \<times> voidp" where
  "OS_QGet r =
     (let (q, c) = r;
          pmsg = c (OSQOut q);
          q = q\<lparr>OSQOut := OSQOut q + 1\<rparr>;
          q = q\<lparr>OSQEntries := OSQEntries q - 1\<rparr>;
          q = (if OSQOut q = OSQEnd q then q\<lparr>OSQOut := OSQStart q\<rparr> else q)
      in ((q, c), pmsg))"

definition OS_QPut :: "voidp \<Rightarrow> ring \<Rightarrow> ring" where
  "OS_QPut pmsg r =
     (let (q, c) = r;
          c = c(OSQIn q := pmsg);
          q = q\<lparr>OSQIn := OSQIn q + 1\<rparr>;
          q = q\<lparr>OSQEntries := OSQEntries q + 1\<rparr>;
          q = (if OSQIn q = OSQEnd q then q\<lparr>OSQIn := OSQStart q\<rparr> else q)
      in (q, c))"

definition OS_QPutFront :: "voidp \<Rightarrow> ring \<Rightarrow> ring" where
  "OS_QPutFront pmsg r =
     (let (q, c) = r;
          q = (if OSQOut q = OSQStart q then q\<lparr>OSQOut := OSQEnd q\<rparr> else q);
          q = q\<lparr>OSQOut := OSQOut q - 1\<rparr>;
          c = c(OSQOut q := pmsg);
          q = q\<lparr>OSQEntries := OSQEntries q + 1\<rparr>
      in (q, c))"

text \<open>
  A well-formed control block, and the messages it holds: the \<open>OSQEntries\<close> cells from
  \<open>OSQOut\<close> on, around the end of the storage.
\<close>

definition ring_ok :: "ring \<Rightarrow> bool" where
  "ring_ok r \<longleftrightarrow> (let q = fst r; n = unat (OSQSize q) in
     0 < n \<and> OSQEnd q = OSQStart q + n \<and> unat (OSQEntries q) \<le> n \<and>
     OSQStart q \<le> OSQOut q \<and> OSQOut q < OSQEnd q \<and>
     OSQIn q = OSQStart q + (OSQOut q - OSQStart q + unat (OSQEntries q)) mod n)"

definition ring_cell :: "os_q \<Rightarrow> nat \<Rightarrow> nat" where
  "ring_cell q i = OSQStart q + (OSQOut q - OSQStart q + i) mod unat (OSQSize q)"

definition ring_contents :: "ring \<Rightarrow> voidp list" where
  "ring_contents r = map (\<lambda>i. snd r (ring_cell (fst r) i)) [0..<unat (OSQEntries (fst r))]"

definition ring_room :: "ring \<Rightarrow> nat" where
  "ring_room r = unat (OSQSize (fst r))"

lemma length_ring_contents [simp]: "length (ring_contents r) = unat (OSQEntries (fst r))"
  by (simp add: ring_contents_def)

lemma cells_differ: "i < j \<Longrightarrow> j < n \<Longrightarrow> (a + i) mod n \<noteq> (a + j) mod (n::nat)"
  using mod_eq_dvd_iff_nat [of "a + i" "a + j" n] by (auto dest: dvd_imp_le)

lemma unat_entries_inc: "unat (n :: INT16U) < unat (m :: INT16U) \<Longrightarrow> unat (n + 1) = unat n + 1"
  using unsigned_less [of m, where ?'a = nat] by (simp add: unat_word_ariths)

lemma ring_step:
  "x < n \<Longrightarrow> (if a + x + 1 = a + n then a else a + x + 1) = a + (x + 1) mod (n::nat)"
  by (cases "x + 1 = n") auto

lemma QGet_correct:
  assumes ok: "ring_ok r" and ne: "ring_contents r \<noteq> []"
  shows "ring_ok (fst (OS_QGet r))"
    and "ring_contents r = snd (OS_QGet r) # ring_contents (fst (OS_QGet r))"
    and "ring_room (fst (OS_QGet r)) = ring_room r" and "snd (fst (OS_QGet r)) = snd r"
proof -
  obtain q c where r: "r = (q, c)" by fastforce
  let ?n = "unat (OSQSize q)" and ?a = "OSQStart q" and ?x = "OSQOut q - OSQStart q"
  have k: "0 < ?n" "OSQEnd q = ?a + ?n" "unat (OSQEntries q) \<le> ?n" "?a \<le> OSQOut q" "?x < ?n"
    "OSQIn q = ?a + (?x + unat (OSQEntries q)) mod ?n"
    using ok by (auto simp: ring_ok_def r Let_def)
  have e: "OSQEntries q \<noteq> 0"
  proof
    assume "OSQEntries q = 0"
    then show False using ne by (simp add: r ring_contents_def)
  qed
  then have e1: "unat (OSQEntries q - 1) = unat (OSQEntries q) - 1" and e0: "unat (OSQEntries q) > 0"
    by (simp_all add: unat_minus_one unat_gt_0)
  have o: "OSQOut q = ?a + ?x" using k(4) by simp
  define q' where "q' = q\<lparr>OSQOut := ?a + (?x + 1) mod ?n, OSQEntries := OSQEntries q - 1\<rparr>"
  have g: "OS_QGet r = ((q', c), c (OSQOut q))"
    using ring_step [OF k(5), of ?a] o k(2) by (auto simp: OS_QGet_def r q'_def split: if_splits)
  have "(?x + unat (OSQEntries q)) mod ?n = ((?x + 1) mod ?n + unat (OSQEntries q - 1)) mod ?n"
    using e0 by (subst mod_add_left_eq) (simp add: e1)
  then show "ring_ok (fst (OS_QGet r))"
    unfolding g ring_ok_def Let_def using k(1,2,3,6) e1 e0 by (simp add: q'_def)
  have cell: "ring_cell q' i = ring_cell q (Suc i)" for i
    using mod_add_left_eq [of "?x + 1" ?n i] by (simp add: ring_cell_def q'_def)
  have e': "unat (OSQEntries q') = unat (OSQEntries q) - 1" by (simp add: q'_def e1)
  have "[0..<unat (OSQEntries q)] = 0 # map Suc [0..<unat (OSQEntries q) - 1]"
    using e0 by (simp add: map_Suc_upt upt_conv_Cons)
  then have "ring_contents r = c (ring_cell q 0) # ring_contents (q', c)"
    by (simp add: ring_contents_def r e' cell)
  moreover have "ring_cell q 0 = OSQOut q" using k(4,5) by (simp add: ring_cell_def)
  ultimately show "ring_contents r = snd (OS_QGet r) # ring_contents (fst (OS_QGet r))"
    by (simp add: g)
  show "ring_room (fst (OS_QGet r)) = ring_room r" and "snd (fst (OS_QGet r)) = snd r"
    unfolding g by (simp_all add: ring_room_def r q'_def)
qed

lemma QPut_correct:
  assumes ok: "ring_ok r" and room: "length (ring_contents r) < ring_room r"
  shows "ring_ok (OS_QPut v r)" and "ring_contents (OS_QPut v r) = ring_contents r @ [v]"
    and "ring_room (OS_QPut v r) = ring_room r"
proof -
  obtain q c where r: "r = (q, c)" by fastforce
  let ?n = "unat (OSQSize q)" and ?a = "OSQStart q" and ?x = "OSQOut q - OSQStart q"
    and ?m = "unat (OSQEntries q)"
  have k: "0 < ?n" "OSQEnd q = ?a + ?n" "?a \<le> OSQOut q" "?x < ?n" "OSQIn q = ?a + (?x + ?m) mod ?n"
    using ok by (auto simp: ring_ok_def r Let_def)
  have m: "?m < ?n" using room by (simp add: r ring_room_def)
  then have m1: "unat (OSQEntries q + 1) = ?m + 1" by (rule unat_entries_inc)
  let ?q = "q\<lparr>OSQIn := ?a + (?x + ?m + 1) mod ?n, OSQEntries := OSQEntries q + 1\<rparr>"
    and ?c = "c(ring_cell q ?m := v)"
  have "((?x + ?m) mod ?n + 1) mod ?n = (?x + ?m + 1) mod ?n" by (rule mod_add_left_eq)
  then have "(if OSQIn q + 1 = OSQEnd q then ?a else OSQIn q + 1) = ?a + (?x + ?m + 1) mod ?n"
    using ring_step [of "(?x + ?m) mod ?n" ?n ?a] k(1) unfolding k(2,5) by simp
  moreover have "OSQIn q = ring_cell q ?m" using k(5) by (simp add: ring_cell_def)
  ultimately have g: "OS_QPut v r = (?q, ?c)"
    by (auto simp: OS_QPut_def r split: if_splits)
  show "ring_ok (OS_QPut v r)"
    using k m m1 by (simp add: g ring_ok_def Let_def)
  have "ring_cell ?q i = ring_cell q i" for i by (simp add: ring_cell_def)
  moreover have "ring_cell q i \<noteq> ring_cell q ?m" if "i < ?m" for i
    using cells_differ [OF that m] by (simp add: ring_cell_def)
  ultimately show "ring_contents (OS_QPut v r) = ring_contents r @ [v]"
    unfolding g by (simp add: ring_contents_def r m1)
  show "ring_room (OS_QPut v r) = ring_room r" unfolding g by (simp add: ring_room_def r)
qed

lemma QPutFront_correct:
  assumes ok: "ring_ok r" and room: "length (ring_contents r) < ring_room r"
  shows "ring_ok (OS_QPutFront v r)" and "ring_contents (OS_QPutFront v r) = v # ring_contents r"
    and "ring_room (OS_QPutFront v r) = ring_room r"
proof -
  obtain q c where r: "r = (q, c)" by fastforce
  let ?n = "unat (OSQSize q)" and ?a = "OSQStart q" and ?x = "OSQOut q - OSQStart q"
    and ?m = "unat (OSQEntries q)"
  have k: "0 < ?n" "OSQEnd q = ?a + ?n" "?a \<le> OSQOut q" "?x < ?n" "OSQIn q = ?a + (?x + ?m) mod ?n"
    using ok by (auto simp: ring_ok_def r Let_def)
  have m: "?m < ?n" using room by (simp add: r ring_room_def)
  then have m1: "unat (OSQEntries q + 1) = ?m + 1" by (rule unat_entries_inc)
  define y where "y = (if ?x = 0 then ?n - 1 else ?x - 1)"
  have y: "y < ?n" "(y + 1) mod ?n = ?x" using k(1,4) by (auto simp: y_def)
  let ?q = "q\<lparr>OSQOut := ?a + y, OSQEntries := OSQEntries q + 1\<rparr>" and ?c = "c(?a + y := v)"
  have "(if OSQOut q = ?a then OSQEnd q else OSQOut q) - 1 = ?a + y"
    using k(1-3) by (auto simp: y_def)
  then have g: "OS_QPutFront v r = (?q, ?c)"
    by (auto simp: OS_QPutFront_def r split: if_splits)
  have wrap: "(y + Suc i) mod ?n = (?x + i) mod ?n" for i
    using mod_add_left_eq [of "y + 1" ?n i] y(2) by simp
  show "ring_ok (OS_QPutFront v r)"
    using k m m1 y(1) wrap [of ?m] by (simp add: g ring_ok_def Let_def)
  have c0: "ring_cell ?q 0 = ?a + y" using y(1) by (simp add: ring_cell_def)
  have cS: "ring_cell ?q (Suc i) = ring_cell q i" for i
    using wrap [of i] by (simp add: ring_cell_def)
  have "ring_cell q i \<noteq> ?a + y" if "i < ?m" for i
    using cells_differ [of 0 "Suc i" ?n y] that m y(1) wrap [of i] by (simp add: ring_cell_def)
  moreover have "[0..<?m + 1] = 0 # map Suc [0..<?m]" by (simp add: map_Suc_upt upt_conv_Cons del: upt_Suc)
  ultimately show "ring_contents (OS_QPutFront v r) = v # ring_contents r"
    unfolding g by (simp add: ring_contents_def r m1 c0 cS del: upt_Suc)
  show "ring_room (OS_QPutFront v r) = ring_room r" unfolding g by (simp add: ring_room_def r)
qed

interpretation ring: bounded_buffer ring_ok ring_contents ring_room OS_QGet OS_QPut OS_QPutFront
proof
  show "length (ring_contents r) \<le> ring_room r" if "ring_ok r" for r
    using that by (simp add: ring_ok_def ring_room_def Let_def)
qed (fact QGet_correct QPut_correct QPutFront_correct)+

definition ring_of :: "os \<Rightarrow> nat \<Rightarrow> ring" where
  "ring_of s q = (OSQTbl s q, OSQCell s)"

definition set_ring :: "nat \<Rightarrow> ring \<Rightarrow> os \<Rightarrow> os" where
  "set_ring q r s = s\<lparr>OSQTbl := (OSQTbl s)(q := fst r), OSQCell := snd r\<rparr>"

text \<open>The control block of a queue event.\<close>

abbreviation pq_of :: "nat \<Rightarrow> os \<Rightarrow> nat" where
  "pq_of e s \<equiv> q_of_void (OSEventPtr (OSEvents s e))"

section \<open>The services\<close>

definition OSQAccept :: "nat option \<Rightarrow> os \<Rightarrow> os \<times> voidp \<times> INT8U" where
  "OSQAccept pevent s =
     (case pevent of None \<Rightarrow> (s, NULL, OS_ERR_PEVENT_NULL)
      | Some e \<Rightarrow>
          if OSEventType (OSEvents s e) \<noteq> OS_EVENT_TYPE_Q then (s, NULL, OS_ERR_EVENT_TYPE)
          else let pq = pq_of e s
               in if OSQEntries (OSQTbl s pq) > 0
                  then let (r, pmsg) = OS_QGet (ring_of s pq) in (set_ring pq r s, pmsg, OS_ERR_NONE)
                  else (s, NULL, OS_ERR_Q_EMPTY))"

definition OSQCreate :: "nat \<Rightarrow> INT16U \<Rightarrow> os \<Rightarrow> os \<times> nat option" where
  "OSQCreate start sz s =
     (if OSIntNesting s > 0 then (s, None)
      else case OS_EventAlloc s of
             (s, None) \<Rightarrow> (s, None)
           | (s, Some e) \<Rightarrow>
               (case OSQFreeList s of
                  Some pq \<Rightarrow>
                    let s = s\<lparr>OSQFreeList := OSQPtr (OSQTbl s pq)\<rparr>;
                        s = upd_q pq (\<lambda>q. q\<lparr>OSQStart := start, OSQEnd := start + unat sz, OSQIn := start,
                              OSQOut := start, OSQSize := sz, OSQEntries := 0\<rparr>) s;
                        s = upd_event e (\<lambda>v. v\<lparr>OSEventType := OS_EVENT_TYPE_Q, OSEventCnt := 0,
                              OSEventPtr := QP pq, OSEventName := Some ''?''\<rparr>) s
                    in (OS_EventWaitListInit e s, Some e)
                | None \<Rightarrow>
                    let s = upd_event e (\<lambda>v. v\<lparr>OSEventPtr := void_of_event (OSEventFreeList s)\<rparr>) s
                    in (s\<lparr>OSEventFreeList := Some e\<rparr>, None)))"

text \<open>The release of the control block.\<close>

definition OS_QFree :: "nat \<Rightarrow> os \<Rightarrow> os" where
  "OS_QFree e s =
     (let pq = pq_of e s;
          s = upd_q pq (\<lambda>q. q\<lparr>OSQPtr := OSQFreeList s\<rparr>) s;
          s = s\<lparr>OSQFreeList := Some pq\<rparr>
      in OS_EventFree e s)"

definition OSQDel :: "nat option \<Rightarrow> INT8U \<Rightarrow> os \<Rightarrow> (os \<times> nat option \<times> INT8U) option" where
  "OSQDel pevent opt s =
     (case pevent of None \<Rightarrow> Some (s, None, OS_ERR_PEVENT_NULL)
      | Some e \<Rightarrow>
          if OSEventType (OSEvents s e) \<noteq> OS_EVENT_TYPE_Q then Some (s, Some e, OS_ERR_EVENT_TYPE)
          else if OSIntNesting s > 0 then Some (s, Some e, OS_ERR_DEL_ISR)
          else let tasks_waiting = (OSEventGrp (OSEvents s e) \<noteq> 0)
               in if opt = OS_DEL_NO_PEND then
                    if \<not> tasks_waiting then Some (OS_QFree e s, None, OS_ERR_NONE)
                    else Some (s, Some e, OS_ERR_TASK_WAITING)
                  else if opt = OS_DEL_ALWAYS then
                    case OS_EventTaskRdyAll e NULL OS_STAT_Q OS_STAT_PEND_ABORT (s, 0) of
                      None \<Rightarrow> None
                    | Some (s, _) \<Rightarrow>
                        let s = OS_QFree e s
                        in Some (if tasks_waiting then OS_Sched s else s, None, OS_ERR_NONE)
                  else Some (s, Some e, OS_ERR_INVALID_OPT))"

definition OSQFlush :: "nat option \<Rightarrow> os \<Rightarrow> os \<times> INT8U" where
  "OSQFlush pevent s =
     (case pevent of None \<Rightarrow> (s, OS_ERR_PEVENT_NULL)
      | Some e \<Rightarrow>
          if OSEventType (OSEvents s e) \<noteq> OS_EVENT_TYPE_Q then (s, OS_ERR_EVENT_TYPE)
          else (upd_q (pq_of e s) (\<lambda>q. q\<lparr>OSQIn := OSQStart q, OSQOut := OSQStart q, OSQEntries := 0\<rparr>) s,
                OS_ERR_NONE))"

definition OSQPend :: "nat option \<Rightarrow> INT32U \<Rightarrow> os \<Rightarrow> os \<times> (voidp \<times> INT8U) option" where
  "OSQPend pevent timeout s =
     (case pevent of None \<Rightarrow> (s, Some (NULL, OS_ERR_PEVENT_NULL))
      | Some e \<Rightarrow>
          if OSEventType (OSEvents s e) \<noteq> OS_EVENT_TYPE_Q then (s, Some (NULL, OS_ERR_EVENT_TYPE))
          else if OSIntNesting s > 0 then (s, Some (NULL, OS_ERR_PEND_ISR))
          else if OSLockNesting s > 0 then (s, Some (NULL, OS_ERR_PEND_LOCKED))
          else let pq = pq_of e s
               in if OSQEntries (OSQTbl s pq) > 0
                  then let (r, pmsg) = OS_QGet (ring_of s pq)
                       in (set_ring pq r s, Some (pmsg, OS_ERR_NONE))
                  else (OS_Sched (OS_PendBlock OS_STAT_Q timeout e s), None))"

definition OSQPend_resume :: "nat \<Rightarrow> os \<Rightarrow> os \<times> voidp \<times> INT8U" where
  "OSQPend_resume e s =
     (let stat_pend = OSTCBStatPend (OSTCBTbl s (cur s));
          (s, pmsg, err) =
            (if stat_pend = OS_STAT_PEND_OK then (s, OSTCBMsg (OSTCBTbl s (cur s)), OS_ERR_NONE)
             else if stat_pend = OS_STAT_PEND_ABORT then (s, NULL, OS_ERR_PEND_ABORT)
             else (OS_EventTaskRemove (cur s) e s, NULL, OS_ERR_TIMEOUT));
          s = OS_PendDone s
      in (upd_tcb (cur s) (\<lambda>p. p\<lparr>OSTCBMsg := NULL\<rparr>) s, pmsg, err))"

definition OSQPendAbort :: "nat option \<Rightarrow> INT8U \<Rightarrow> os \<Rightarrow> (os \<times> INT8U \<times> INT8U) option" where
  "OSQPendAbort pevent opt s =
     (case pevent of None \<Rightarrow> Some (s, 0, OS_ERR_PEVENT_NULL)
      | Some e \<Rightarrow>
          if OSEventType (OSEvents s e) \<noteq> OS_EVENT_TYPE_Q then Some (s, 0, OS_ERR_EVENT_TYPE)
          else if OSEventGrp (OSEvents s e) \<noteq> 0
          then case (if opt = OS_PEND_OPT_BROADCAST
                     then OS_EventTaskRdyAll e NULL OS_STAT_Q OS_STAT_PEND_ABORT (s, 0)
                     else Some (fst (OS_EventTaskRdy e NULL OS_STAT_Q OS_STAT_PEND_ABORT s), 1)) of
                 None \<Rightarrow> None
               | Some (s, nbr_tasks) \<Rightarrow> Some (OS_Sched s, nbr_tasks, OS_ERR_PEND_ABORT)
          else Some (s, 0, OS_ERR_NONE))"

definition OSQPost :: "nat option \<Rightarrow> voidp \<Rightarrow> os \<Rightarrow> os \<times> INT8U" where
  "OSQPost pevent pmsg s =
     (case pevent of None \<Rightarrow> (s, OS_ERR_PEVENT_NULL)
      | Some e \<Rightarrow>
          if OSEventType (OSEvents s e) \<noteq> OS_EVENT_TYPE_Q then (s, OS_ERR_EVENT_TYPE)
          else if OSEventGrp (OSEvents s e) \<noteq> 0
          then (OS_Sched (fst (OS_EventTaskRdy e pmsg OS_STAT_Q OS_STAT_PEND_OK s)), OS_ERR_NONE)
          else let pq = pq_of e s
               in if OSQEntries (OSQTbl s pq) \<ge> OSQSize (OSQTbl s pq) then (s, OS_ERR_Q_FULL)
                  else (set_ring pq (OS_QPut pmsg (ring_of s pq)) s, OS_ERR_NONE))"

definition OSQPostFront :: "nat option \<Rightarrow> voidp \<Rightarrow> os \<Rightarrow> os \<times> INT8U" where
  "OSQPostFront pevent pmsg s =
     (case pevent of None \<Rightarrow> (s, OS_ERR_PEVENT_NULL)
      | Some e \<Rightarrow>
          if OSEventType (OSEvents s e) \<noteq> OS_EVENT_TYPE_Q then (s, OS_ERR_EVENT_TYPE)
          else if OSEventGrp (OSEvents s e) \<noteq> 0
          then (OS_Sched (fst (OS_EventTaskRdy e pmsg OS_STAT_Q OS_STAT_PEND_OK s)), OS_ERR_NONE)
          else let pq = pq_of e s
               in if OSQEntries (OSQTbl s pq) \<ge> OSQSize (OSQTbl s pq) then (s, OS_ERR_Q_FULL)
                  else (set_ring pq (OS_QPutFront pmsg (ring_of s pq)) s, OS_ERR_NONE))"

definition OSQPostOpt :: "nat option \<Rightarrow> voidp \<Rightarrow> INT8U \<Rightarrow> os \<Rightarrow> (os \<times> INT8U) option" where
  "OSQPostOpt pevent pmsg opt s =
     (case pevent of None \<Rightarrow> Some (s, OS_ERR_PEVENT_NULL)
      | Some e \<Rightarrow>
          if OSEventType (OSEvents s e) \<noteq> OS_EVENT_TYPE_Q then Some (s, OS_ERR_EVENT_TYPE)
          else if OSEventGrp (OSEvents s e) \<noteq> 0
          then case (if opt AND OS_POST_OPT_BROADCAST \<noteq> 0
                     then OS_EventTaskRdyAll e pmsg OS_STAT_Q OS_STAT_PEND_OK (s, 0)
                     else Some (fst (OS_EventTaskRdy e pmsg OS_STAT_Q OS_STAT_PEND_OK s), 1)) of
                 None \<Rightarrow> None
               | Some (s, _) \<Rightarrow>
                   Some (if opt AND OS_POST_OPT_NO_SCHED = 0 then OS_Sched s else s, OS_ERR_NONE)
          else let pq = pq_of e s
               in if OSQEntries (OSQTbl s pq) \<ge> OSQSize (OSQTbl s pq) then Some (s, OS_ERR_Q_FULL)
                  else if opt AND OS_POST_OPT_FRONT \<noteq> 0
                  then Some (set_ring pq (OS_QPutFront pmsg (ring_of s pq)) s, OS_ERR_NONE)
                  else Some (set_ring pq (OS_QPut pmsg (ring_of s pq)) s, OS_ERR_NONE))"

definition OSQQuery :: "nat option \<Rightarrow> bool \<Rightarrow> os \<Rightarrow> INT8U \<times> os_q_data option" where
  "OSQQuery pevent pdata s =
     (case pevent of None \<Rightarrow> (OS_ERR_PEVENT_NULL, None)
      | Some e \<Rightarrow>
          if \<not> pdata then (OS_ERR_PDATA_NULL, None)
          else let v = OSEvents s e
               in if OSEventType v \<noteq> OS_EVENT_TYPE_Q then (OS_ERR_EVENT_TYPE, None)
                  else let q = OSQTbl s (pq_of e s)
                       in (OS_ERR_NONE,
                           Some \<lparr>OSQMsg = (if OSQEntries q > 0 then OSQCell s (OSQOut q) else NULL),
                                 OSNMsgs = OSQEntries q, OSQDataSize = OSQSize q,
                                 OSQEventTbl = map (\<lambda>i. OSEventTbl v ! i) [0..<OS_EVENT_TBL_SIZE],
                                 OSQEventGrp = OSEventGrp v\<rparr>))"

text \<open>\<open>OS_QInit\<close> chains the control blocks in the order of the table.\<close>

fun OS_QInitChain :: "nat \<Rightarrow> nat \<Rightarrow> os \<Rightarrow> os" where
  "OS_QInitChain 0 ix s = s"
| "OS_QInitChain (Suc n) ix s =
     OS_QInitChain n (ix + 1) (upd_q ix (\<lambda>q. q\<lparr>OSQPtr := Some (ix + 1)\<rparr>) s)"

definition OS_QInit :: "os \<Rightarrow> os" where
  "OS_QInit s =
     (let s = s\<lparr>OSQTbl := (\<lambda>_. zero_q)\<rparr>;
          s = OS_QInitChain (OS_MAX_QS - 1) 0 s;
          s = upd_q (OS_MAX_QS - 1) (\<lambda>q. q\<lparr>OSQPtr := None\<rparr>) s
      in s\<lparr>OSQFreeList := Some 0\<rparr>)"

section \<open>The contract of the wait services\<close>

lemma quiet_set_ring [simp]: "quiet s (set_ring q r s)"
  by (simp add: quiet_def same_kernel_def same_run_def set_ring_def rdy_def wl_def)

lemma quiet_upd_q [simp]: "quiet s (upd_q q f s)"
  by (simp add: quiet_def same_kernel_def same_run_def upd_q_def rdy_def wl_def)

lemma q_pend_done: "OSQPend pe timeout s = (s', Some r) \<Longrightarrow> quiet s s'"
  by (auto simp: OSQPend_def Let_def split: option.splits if_splits prod.splits)

lemma q_pend_blocked:
  "OSQPend pe timeout s = (s', None) \<Longrightarrow>
     \<exists>e. pe = Some e \<and> event_type s e = OS_EVENT_TYPE_Q \<and> OSIntNesting s = 0 \<and> OSLockNesting s = 0 \<and>
       s' = OS_Sched (OS_PendBlock OS_STAT_Q timeout e s)"
  by (auto simp: OSQPend_def Let_def word_gt_0 split: option.splits if_splits prod.splits)

lemma q_resume:
  "\<exists>m. fst (OSQPend_resume e s) = upd_tcb (cur s) (\<lambda>p. p\<lparr>OSTCBMsg := m p\<rparr>) (pend_wake e s)"
proof (intro exI [of _ "\<lambda>p. NULL"])
  have c: "OSTCBCur (OS_PendDone s) = OSTCBCur s" for s
    using only_lists_global(4) [OF PendDone_effect(4)] .
  have "OSTCBCur (OS_EventTaskRemove (cur s) e s) = OSTCBCur s"
    by (simp add: OS_EventTaskRemove_def OS_WaitListRemove_def Let_def set_wl_def os_defs)
  then show "fst (OSQPend_resume e s) = upd_tcb (cur s) (\<lambda>p. p\<lparr>OSTCBMsg := NULL\<rparr>) (pend_wake e s)"
    by (simp add: OSQPend_resume_def pend_wake_def Let_def c split: prod.splits)
qed

lemma q_post:
  "quiet s (fst (OSQPost pe msg s)) \<or>
     (\<exists>e. pe = Some e \<and> event_type s e = OS_EVENT_TYPE_Q \<and> OSEventGrp (OSEvents s e) \<noteq> 0 \<and>
       fst (OSQPost pe msg s) = OS_Sched (fst (OS_EventTaskRdy e msg OS_STAT_Q OS_STAT_PEND_OK s)))"
  by (cases pe) (auto simp: OSQPost_def Let_def)

lemma q_post_front:
  "quiet s (fst (OSQPostFront pe msg s)) \<or>
     (\<exists>e. pe = Some e \<and> event_type s e = OS_EVENT_TYPE_Q \<and> OSEventGrp (OSEvents s e) \<noteq> 0 \<and>
       fst (OSQPostFront pe msg s) = OS_Sched (fst (OS_EventTaskRdy e msg OS_STAT_Q OS_STAT_PEND_OK s)))"
  by (cases pe) (auto simp: OSQPostFront_def Let_def)

lemma q_abort:
  "(\<exists>err. OSQPendAbort pe opt s = Some (s, 0, err)) \<or>
      (\<exists>e. pe = Some e \<and> event_type s e = OS_EVENT_TYPE_Q \<and> OSEventGrp (OSEvents s e) \<noteq> 0 \<and>
        OSQPendAbort pe opt s =
          (if opt = OS_PEND_OPT_BROADCAST
           then map_option (\<lambda>(s, n). (OS_Sched s, n, OS_ERR_PEND_ABORT))
                  (OS_EventTaskRdyAll e NULL OS_STAT_Q OS_STAT_PEND_ABORT (s, 0))
           else Some (OS_Sched (fst (OS_EventTaskRdy e NULL OS_STAT_Q OS_STAT_PEND_ABORT s)), 1,
                      OS_ERR_PEND_ABORT)))"
  by (cases pe) (auto simp: OSQPendAbort_def map_option_case split: option.splits)

lemma q_del:
  "(\<exists>r. OSQDel pe opt s = Some (s, r)) \<or>
      (\<exists>e. pe = Some e \<and> event_type s e = OS_EVENT_TYPE_Q \<and> OSEventGrp (OSEvents s e) = 0 \<and>
        OSQDel pe opt s = Some (OS_QFree e s, None, OS_ERR_NONE)) \<or>
      (\<exists>e. pe = Some e \<and> event_type s e = OS_EVENT_TYPE_Q \<and>
        OSQDel pe opt s = map_option (\<lambda>(s', n). (if OSEventGrp (OSEvents s e) \<noteq> 0
              then OS_Sched (OS_QFree e s') else OS_QFree e s', None, OS_ERR_NONE))
          (OS_EventTaskRdyAll e NULL OS_STAT_Q OS_STAT_PEND_ABORT (s, 0)))"
  by (cases pe) (auto simp: OSQDel_def Let_def map_option_case split: option.splits)

lemma q_release: "\<exists>s0. quiet s s0 \<and> OS_QFree e s = OS_EventFree e s0"
  by (intro exI [of _ "(upd_q (pq_of e s) (\<lambda>q. q\<lparr>OSQPtr := OSQFreeList s\<rparr>) s)\<lparr>OSQFreeList := Some (pq_of e s)\<rparr>"])
    (simp add: OS_QFree_def Let_def quiet_def same_kernel_def same_run_def upd_q_def rdy_def wl_def)

lemma q_post_opt:
  "(\<exists>s' err. OSQPostOpt pe msg opt s = Some (s', err) \<and> quiet s s') \<or>
      (\<exists>e. pe = Some e \<and> event_type s e = OS_EVENT_TYPE_Q \<and> OSEventGrp (OSEvents s e) \<noteq> 0 \<and>
        OSQPostOpt pe msg opt s =
          map_option (\<lambda>(s', n). (if opt AND OS_POST_OPT_NO_SCHED = 0 then OS_Sched s' else s', OS_ERR_NONE))
            (if opt AND OS_POST_OPT_BROADCAST \<noteq> 0
             then OS_EventTaskRdyAll e msg OS_STAT_Q OS_STAT_PEND_OK (s, 0)
             else Some (fst (OS_EventTaskRdy e msg OS_STAT_Q OS_STAT_PEND_OK s), 1)))"
  by (cases pe) (auto simp: OSQPostOpt_def Let_def map_option_case split: option.splits)

interpretation msgq: broadcast_service OS_EVENT_TYPE_Q OS_STAT_Q PendQ OSQPend
  "\<lambda>e s. fst (OSQPend_resume e s)" "\<lambda>pe msg s. fst (OSQPost pe msg s)" "\<lambda>m. m"
  OSQPendAbort OSQDel OS_QFree OSQPostOpt
  by unfold_locales
    (fact q_pend_done q_pend_blocked q_resume q_post q_abort q_del q_release q_post_opt | simp add: type_stat_def)+

interpretation msgq_front: wait_service OS_EVENT_TYPE_Q OS_STAT_Q PendQ OSQPend
  "\<lambda>e s. fst (OSQPend_resume e s)" "\<lambda>pe msg s. fst (OSQPostFront pe msg s)" "\<lambda>m. m"
  OSQPendAbort OSQDel OS_QFree
  by unfold_locales
    (fact q_pend_done q_pend_blocked q_resume q_post_front q_abort q_del q_release | simp add: type_stat_def)+

section \<open>The queue as a list of messages and a set of waiters\<close>

type_synonym aqueue = "voidp list \<times> nat set"

text \<open>A queue event with its control block, and what it stands for.\<close>

definition q_wf :: "os \<Rightarrow> nat \<Rightarrow> bool" where
  "q_wf s e \<longleftrightarrow> OSEventType (OSEvents s e) = OS_EVENT_TYPE_Q \<and> ring_ok (ring_of s (pq_of e s))"

definition q_abs :: "os \<Rightarrow> nat \<Rightarrow> aqueue" where
  "q_abs s e = (ring_contents (ring_of s (pq_of e s)), bm_mem (wl s e))"

definition q_room :: "os \<Rightarrow> nat \<Rightarrow> nat" where
  "q_room s e = unat (OSQSize (OSQTbl s (pq_of e s)))"

definition aq_post :: "nat \<Rightarrow> voidp \<Rightarrow> aqueue \<Rightarrow> aqueue" where
  "aq_post room m a = (let (xs, W) = a in
     if W \<noteq> {} then (xs, W - {Min W}) else if length xs < room then (xs @ [m], W) else (xs, W))"

definition aq_post_front :: "nat \<Rightarrow> voidp \<Rightarrow> aqueue \<Rightarrow> aqueue" where
  "aq_post_front room m a = (let (xs, W) = a in
     if W \<noteq> {} then (xs, W - {Min W}) else if length xs < room then (m # xs, W) else (xs, W))"

definition aq_pend :: "nat \<Rightarrow> aqueue \<Rightarrow> aqueue" where
  "aq_pend n a = (case a of ([], W) \<Rightarrow> ([], insert n W) | (x # xs, W) \<Rightarrow> (xs, W))"

lemma ring_of_set_ring [simp]:
  "ring_of (set_ring q r s) q = r" "OSEvents (set_ring q r s) = OSEvents s" "wl (set_ring q r s) e = wl s e"
  by (simp_all add: ring_of_def set_ring_def wl_def)

lemma ring_of_Sched [simp]: "ring_of (OS_Sched s) q = ring_of s q"
  by (simp add: ring_of_def)

text \<open>Readying a waiter leaves the messages alone.\<close>

lemma only_lists_q:
  assumes "only_lists s s'"
  shows "OSEventPtr (OSEvents s' e) = OSEventPtr (OSEvents s e)" and "ring_of s' q = ring_of s q"
    and "OSQTbl s' = OSQTbl s"
  using only_lists_global [OF assms] only_lists_event [OF assms] by (simp_all add: ring_of_def)

lemma q_abs_Rdy:
  assumes inv: "kernel_inv s" and ne: "bm_mem (wl s e) \<noteq> {}" and wf: "q_wf s e"
  shows "q_abs (fst (OS_EventTaskRdy e pmsg OS_STAT_Q ps s)) e =
      (fst (q_abs s e), snd (q_abs s e) - {Min (snd (q_abs s e))}) \<and>
    q_wf (fst (OS_EventTaskRdy e pmsg OS_STAT_Q ps s)) e"
proof -
  have m3: "\<not> bit (OS_STAT_Q :: INT8U) 3" by simp
  note o = EventTaskRdy_only_lists [OF inv ne m3, of pmsg ps]
  show ?thesis
    using wf EventTaskRdy_shrinks [OF inv ne m3, of pmsg ps] only_lists_event(1) [OF o]
    by (simp add: q_abs_def q_wf_def only_lists_q [OF o])
qed

lemma entries_pos: "OSQEntries q > 0 \<longleftrightarrow> ring_contents (q, c) \<noteq> []"
  by (auto simp: ring_contents_def word_gt_0 unat_gt_0 simp flip: length_0_conv)

lemma entries_full: "OSQEntries q \<ge> OSQSize q \<longleftrightarrow> \<not> length (ring_contents (q, c)) < ring_room (q, c)"
  by (simp add: ring_room_def word_le_nat_alt not_less)

text \<open>C9: \<open>OSQPost\<close> implements the post of an abstract bounded FIFO queue (the list of its
  messages and the set of waiting priorities): the waiter of highest priority is released, or the
  message is appended when there is room; the queue stays well formed, and the call reports a full
  queue exactly when it has no waiter and no room.\<close>

theorem OSQPost_refines:
  assumes inv: "kernel_inv s" and wf: "q_wf s e"
  shows "q_abs (fst (OSQPost (Some e) m s)) e = aq_post (q_room s e) m (q_abs s e) \<and>
    q_wf (fst (OSQPost (Some e) m s)) e \<and>
    snd (OSQPost (Some e) m s) =
      (if snd (q_abs s e) = {} \<and> length (fst (q_abs s e)) = q_room s e then OS_ERR_Q_FULL else OS_ERR_NONE)"
proof (cases "bm_mem (wl s e) = {}")
  case False
  then have "OSEventGrp (OSEvents s e) \<noteq> 0" using grp_nonzero_iff [OF inv] by blast
  then show ?thesis
    using wf q_abs_Rdy [OF inv False wf, of m OS_STAT_PEND_OK] False
    by (simp add: OSQPost_def aq_post_def Let_def split_beta q_wf_def) (simp add: q_abs_def)
next
  case True
  then have g: "OSEventGrp (OSEvents s e) = 0" using grp_nonzero_iff [OF inv, of e] by blast
  let ?r = "ring_of s (pq_of e s)"
  have ok: "ring_ok ?r" and ty: "OSEventType (OSEvents s e) = OS_EVENT_TYPE_Q" using wf by (simp_all add: q_wf_def)
  have full: "OSQEntries (OSQTbl s (pq_of e s)) \<ge> OSQSize (OSQTbl s (pq_of e s)) \<longleftrightarrow>
      \<not> length (ring_contents ?r) < ring_room ?r" unfolding ring_of_def by (rule entries_full)
  have room: "q_room s e = ring_room ?r" by (simp add: q_room_def ring_room_def ring_of_def)
  have le: "length (ring_contents ?r) \<le> ring_room ?r" using ring.bounded [OF ok] .
  show ?thesis
  proof (cases "length (ring_contents ?r) < ring_room ?r")
    case room': True
    then have "OSQPost (Some e) m s = (set_ring (pq_of e s) (OS_QPut m ?r) s, OS_ERR_NONE)"
      using ty g full by (simp add: OSQPost_def Let_def)
    then show ?thesis
      using True room' ty ring.put_contents [OF ok room'] ring.put_ok [OF ok room']
      by (simp add: q_abs_def aq_post_def room q_wf_def del: length_ring_contents)
  next
    case False
    then have "OSQPost (Some e) m s = (s, OS_ERR_Q_FULL)"
      using ty g full by (simp add: OSQPost_def Let_def)
    then show ?thesis
      using True False le wf by (simp add: q_abs_def aq_post_def room del: length_ring_contents)
  qed
qed

text \<open>\<open>OSQPostFront\<close> implements the abstract post to the front of the queue.\<close>

theorem OSQPostFront_refines:
  assumes inv: "kernel_inv s" and wf: "q_wf s e"
  shows "q_abs (fst (OSQPostFront (Some e) m s)) e = aq_post_front (q_room s e) m (q_abs s e) \<and>
    q_wf (fst (OSQPostFront (Some e) m s)) e"
proof (cases "bm_mem (wl s e) = {}")
  case False
  then have "OSEventGrp (OSEvents s e) \<noteq> 0" using grp_nonzero_iff [OF inv] by blast
  then show ?thesis
    using wf q_abs_Rdy [OF inv False wf, of m OS_STAT_PEND_OK] False
    by (simp add: OSQPostFront_def aq_post_front_def Let_def split_beta q_wf_def) (simp add: q_abs_def)
next
  case True
  then have g: "OSEventGrp (OSEvents s e) = 0" using grp_nonzero_iff [OF inv, of e] by blast
  let ?r = "ring_of s (pq_of e s)"
  have ok: "ring_ok ?r" and ty: "OSEventType (OSEvents s e) = OS_EVENT_TYPE_Q" using wf by (simp_all add: q_wf_def)
  have full: "OSQEntries (OSQTbl s (pq_of e s)) \<ge> OSQSize (OSQTbl s (pq_of e s)) \<longleftrightarrow>
      \<not> length (ring_contents ?r) < ring_room ?r" unfolding ring_of_def by (rule entries_full)
  have room: "q_room s e = ring_room ?r" by (simp add: q_room_def ring_room_def ring_of_def)
  show ?thesis
  proof (cases "length (ring_contents ?r) < ring_room ?r")
    case room': True
    then have "OSQPostFront (Some e) m s = (set_ring (pq_of e s) (OS_QPutFront m ?r) s, OS_ERR_NONE)"
      using ty g full by (simp add: OSQPostFront_def Let_def)
    then show ?thesis
      using True room' ty ring.front_contents [OF ok room'] ring.front_ok [OF ok room']
      by (simp add: q_abs_def aq_post_front_def room q_wf_def del: length_ring_contents)
  next
    case False
    then have "OSQPostFront (Some e) m s = (s, OS_ERR_Q_FULL)"
      using ty g full by (simp add: OSQPostFront_def Let_def)
    then show ?thesis
      using True False wf by (simp add: q_abs_def aq_post_front_def room del: length_ring_contents)
  qed
qed

text \<open>C10: \<open>OSQPend\<close> from a task returns the oldest message and removes it, and blocks, adding the
  caller to the waiting set, exactly when the queue is empty.\<close>

theorem OSQPend_refines:
  assumes inv: "pre_inv k s" and wf: "q_wf s e" and task: "OSIntNesting s = 0" "OSLockNesting s = 0"
  shows "q_abs (fst (OSQPend (Some e) timeout s)) e = aq_pend (unat (OSPrioCur s)) (q_abs s e) \<and>
    q_wf (fst (OSQPend (Some e) timeout s)) e \<and>
    snd (OSQPend (Some e) timeout s) =
      (case fst (q_abs s e) of [] \<Rightarrow> None | m # ms \<Rightarrow> Some (m, OS_ERR_NONE))"
proof -
  let ?r = "ring_of s (pq_of e s)"
  have ok: "ring_ok ?r" and ty: "OSEventType (OSEvents s e) = OS_EVENT_TYPE_Q" using wf by (simp_all add: q_wf_def)
  have pos: "OSQEntries (OSQTbl s (pq_of e s)) > 0 \<longleftrightarrow> ring_contents ?r \<noteq> []"
    unfolding ring_of_def by (rule entries_pos)
  show ?thesis
  proof (cases "ring_contents ?r")
    case (Cons m ms)
    then have ne: "ring_contents ?r \<noteq> []" by simp
    obtain r' m' where g: "OS_QGet ?r = (r', m')" by fastforce
    have "OSQPend (Some e) timeout s = (set_ring (pq_of e s) r' s, Some (m', OS_ERR_NONE))"
      using ty task pos ne g by (simp add: OSQPend_def Let_def)
    then show ?thesis
      using Cons ty ring.get_contents [OF ok ne] ring.get_ok [OF ok ne] g
      by (simp add: q_abs_def aq_pend_def q_wf_def)
  next
    case Nil
    note i = pre_invD [OF inv]
    have xy: "xy_ok (OSTCBTbl s (cur s))" and pn: "prio_of (OSTCBTbl s (cur s)) = unat (OSPrioCur s)"
      and n64: "unat (OSPrioCur s) < 64"
      using task_at_xy [OF i(1,6)] i(6) by (simp_all add: task_at_def)
    note eff = PendBlock_effect [OF xy, of OS_STAT_Q timeout e, unfolded pn]
    have "OSQPend (Some e) timeout s = (OS_Sched (OS_PendBlock OS_STAT_Q timeout e s), None)"
      using ty task pos Nil by (simp add: OSQPend_def Let_def)
    then show ?thesis
      using Nil wf n64 kernel_invD(2) [OF i(1)] only_lists_event(1) [OF eff(4)]
      by (simp add: q_abs_def aq_pend_def q_wf_def eff(2) bm_mem_ins only_lists_q [OF eff(4)])
  qed
qed

section \<open>Creation and hand-over\<close>

lemma OSQCreate_unfold:
  "fst (OSQCreate start sz s) =
     (if OSIntNesting s > 0 then s
      else case OSEventFreeList s of None \<Rightarrow> s
      | Some e \<Rightarrow>
          (case OSQFreeList s of
             None \<Rightarrow>
               (upd_event e (\<lambda>v. v\<lparr>OSEventPtr := void_of_event (OSEventFreeList (fst (OS_EventAlloc s)))\<rparr>)
                 (fst (OS_EventAlloc s)))\<lparr>OSEventFreeList := Some e\<rparr>
           | Some pq \<Rightarrow>
               OS_EventWaitListInit e (upd_event e (\<lambda>v. v\<lparr>OSEventType := OS_EVENT_TYPE_Q, OSEventCnt := 0,
                 OSEventPtr := QP pq, OSEventName := Some ''?''\<rparr>)
                 (fst (OS_EventAlloc (upd_q pq (\<lambda>q. q\<lparr>OSQStart := start, OSQEnd := start + unat sz,
                    OSQIn := start, OSQOut := start, OSQSize := sz, OSQEntries := 0\<rparr>)
                    (s\<lparr>OSQFreeList := OSQPtr (OSQTbl s pq)\<rparr>)))))))"
  by (simp add: OSQCreate_def OS_EventAlloc_def Let_def upd_q_def split: option.split)
    (intro allI impI arg_cong [where f = "OS_EventWaitListInit _"] arg_cong [where f = "upd_event _ _"]
      os.equality, simp_all)

theorem OSQCreate_inv:
  assumes inv: "sys_inv k s"
  shows "sys_inv k (fst (OSQCreate start sz s))"
proof (cases "OSIntNesting s > 0 \<or> OSEventFreeList s = None")
  case True
  with inv show ?thesis by (auto simp: OSQCreate_unfold)
next
  case False
  then obtain e where e: "OSEventFreeList s = Some e" by blast
  show ?thesis
  proof (cases "OSQFreeList s")
    case None
    then show ?thesis using EventAlloc_undo_sys_inv [OF inv e] False e by (simp add: OSQCreate_unfold)
  next
    case (Some pq)
    let ?s = "upd_q pq (\<lambda>q. q\<lparr>OSQStart := start, OSQEnd := start + unat sz,
                    OSQIn := start, OSQOut := start, OSQSize := sz, OSQEntries := 0\<rparr>)
                    (s\<lparr>OSQFreeList := OSQPtr (OSQTbl s pq)\<rparr>)"
    have "quiet s ?s"
      by (simp add: quiet_def same_kernel_def same_run_def upd_q_def rdy_def wl_def)
    then have "sys_inv k ?s" by (rule quiet_sys_inv [OF inv])
    moreover have "OSEventFreeList ?s = Some e" by (simp add: upd_q_def e)
    ultimately show ?thesis using EventAlloc_sys_inv False e Some by (simp add: OSQCreate_unfold)
  qed
qed

text \<open>A new queue is empty and has the room its creator asked for.\<close>

text \<open>\<open>OSQCreate\<close> over a storage of at least one cell makes a well-formed empty queue with
  room for as many messages as the storage has cells, and nobody waiting.\<close>

theorem OSQCreate_empty:
  assumes "OSQCreate start sz s = (s', Some e)" and "sz > 0"
  shows "q_wf s' e \<and> q_abs s' e = ([], {}) \<and> q_room s' e = unat sz"
proof -
  obtain pq where s': "OSQFreeList s = Some pq" "OSEventFreeList s = Some e" "OSIntNesting s = 0"
    using assms by (auto simp: OSQCreate_def OS_EventAlloc_def Let_def word_gt_0 split: option.splits if_splits)
  then have "s' = OS_EventWaitListInit e (upd_event e (\<lambda>v. v\<lparr>OSEventType := OS_EVENT_TYPE_Q, OSEventCnt := 0,
                 OSEventPtr := QP pq, OSEventName := Some ''?''\<rparr>)
                 (fst (OS_EventAlloc (upd_q pq (\<lambda>q. q\<lparr>OSQStart := start, OSQEnd := start + unat sz,
                    OSQIn := start, OSQOut := start, OSQSize := sz, OSQEntries := 0\<rparr>)
                    (s\<lparr>OSQFreeList := OSQPtr (OSQTbl s pq)\<rparr>)))))"
    using OSQCreate_unfold [of start sz s] assms(1) by simp
  moreover have "bm_mem (0, replicate 8 0) = {}" by (auto simp: bm_mem_def)
  ultimately show ?thesis
    using assms(2) s'(2)
    by (simp add: q_wf_def q_abs_def q_room_def ring_of_def ring_contents_def ring_ok_def WaitListInit_wl)
      (simp add: OS_EventWaitListInit_def OS_EventAlloc_def upd_event_def upd_q_def q_of_void_def word_gt_0 unat_gt_0)
qed

text \<open>A message posted to a queue with waiters goes to the waiter of highest priority, which leaves
  the wait list, becomes ready unless suspended, and whose pend then returns this message without error.\<close>

theorem OSQPost_hands_over:
  assumes inv: "kernel_inv s" and ty: "event_type s e = OS_EVENT_TYPE_Q"
    and n: "bm_mem (wl s e) \<noteq> {}" "n = Min (bm_mem (wl s e))" and at: "task_at s n t"
  shows "snd (OSQPost (Some e) m s) = OS_ERR_NONE \<and>
    bm_mem (wl (fst (OSQPost (Some e) m s)) e) = bm_mem (wl s e) - {n} \<and>
    (\<not> suspended (OSTCBTbl s t) \<longrightarrow> n \<in> bm_mem (rdy (fst (OSQPost (Some e) m s)))) \<and>
    (\<forall>u. cur u = t \<and>
       OSTCBStatPend (OSTCBTbl u t) = OSTCBStatPend (OSTCBTbl (fst (OSQPost (Some e) m s)) t) \<and>
       OSTCBMsg (OSTCBTbl u t) = OSTCBMsg (OSTCBTbl (fst (OSQPost (Some e) m s)) t) \<longrightarrow>
       snd (OSQPend_resume e u) = (m, OS_ERR_NONE))"
proof -
  have m3: "\<not> bit (OS_STAT_Q :: INT8U) 3" by simp
  note h = hand_over [OF inv n(1) at [unfolded n(2)] m3, of m OS_STAT_PEND_OK]
  have "OSEventGrp (OSEvents s e) \<noteq> 0" using grp_nonzero_iff [OF inv] n(1) by blast
  then have p: "OSQPost (Some e) m s =
      (OS_Sched (fst (OS_EventTaskRdy e m OS_STAT_Q OS_STAT_PEND_OK s)), OS_ERR_NONE)"
    using ty by (simp add: OSQPost_def)
  show ?thesis by (simp add: p h n(2)) (auto simp: OSQPend_resume_def Let_def h)
qed

section \<open>The theorems on a concrete state\<close>

lemma ex_ring: "ring_of (ex_os ty w) 0 = (zero_q\<lparr>OSQEnd := 4, OSQSize := 4\<rparr>, \<lambda>_. NULL)"
  by (simp add: ring_of_def) (simp add: ex_os_def)

lemma ex_q_wf: "q_wf (ex_os OS_EVENT_TYPE_Q w) 0"
  by (simp add: q_wf_def q_of_void_def ex_ring) (simp add: ring_ok_def zero_q_def)

lemma ex_q_abs: "q_abs (ex_os OS_EVENT_TYPE_Q w) 0 = ([], if w then {5} else {})" "q_room (ex_os OS_EVENT_TYPE_Q w) 0 = 4"
  by (simp_all add: q_abs_def q_room_def q_of_void_def ex_ring ring_contents_def zero_q_def)

lemma OSQPost_refines_witness:
  "q_abs (fst (OSQPost (Some 0) (AppP 9) (ex_os OS_EVENT_TYPE_Q False))) 0 = ([AppP 9], {}) \<and>
   snd (OSQPost (Some 0) (AppP 9) (ex_os OS_EVENT_TYPE_Q False)) = OS_ERR_NONE"
  using OSQPost_refines [OF ex_kernel_inv ex_q_wf, of "AppP 9" False]
  by (simp add: ex_q_abs aq_post_def)

lemma OSQPostFront_refines_witness:
  "q_abs (fst (OSQPostFront (Some 0) (AppP 9) (ex_os OS_EVENT_TYPE_Q False))) 0 = ([AppP 9], {})"
  using OSQPostFront_refines [OF ex_kernel_inv ex_q_wf, of "AppP 9" False]
  by (simp add: ex_q_abs aq_post_front_def)

lemma OSQPend_refines_witness:
  "q_abs (fst (OSQPend (Some 0) 0 (ex_os OS_EVENT_TYPE_Q True))) 0 = ([], {5, 10}) \<and>
   snd (OSQPend (Some 0) 0 (ex_os OS_EVENT_TYPE_Q True)) = None"
  using OSQPend_refines [OF ex_pre_inv ex_q_wf, of "PendQ 0" True 0]
  by (simp add: ex_q_abs aq_pend_def insert_commute)

lemma OSQCreate_empty_witness:
  "q_abs (fst (OSQCreate 16 8 (ex_os OS_EVENT_TYPE_SEM False))) 1 = ([], {})"
proof -
  have "OSQCreate 16 8 (ex_os OS_EVENT_TYPE_SEM False) = (fst (OSQCreate 16 8 (ex_os OS_EVENT_TYPE_SEM False)), Some 1)"
    by (simp add: OSQCreate_def OS_EventAlloc_def Let_def ex_os_def)
  from OSQCreate_empty [OF this] show ?thesis by simp
qed

lemma OSQPost_hands_over_witness:
  "5 \<in> bm_mem (rdy (fst (OSQPost (Some 0) (AppP 9) (ex_os OS_EVENT_TYPE_Q True))))"
  using OSQPost_hands_over [OF ex_kernel_inv _ ex_top_waiter, of OS_EVENT_TYPE_Q "AppP 9"]
    ex_not_suspended [of OS_EVENT_TYPE_Q True] by simp

end
