(* ===== verification/UCOS_Multi.thy ===== *)
theory UCOS_Multi
  imports UCOS_Q
begin

text \<open>
  \<open>OSEventPendMulti\<close> of \<open>os_core.c\<close>: waiting on several semaphores, mailboxes and queues.
  The null-terminated array of events is a list, and so are the two arrays the call fills, of the
  events that were ready and of their messages.
\<close>

record multi_result =
  multi_rdy :: "nat list"
  multi_msgs :: "voidp list"
  multi_nbr :: INT16U
  multi_err :: INT8U

abbreviation multi_error :: "INT8U \<Rightarrow> multi_result" where
  "multi_error err \<equiv> \<lparr>multi_rdy = [], multi_msgs = [], multi_nbr = 0, multi_err = err\<rparr>"

text \<open>The first loop: only semaphores, mailboxes and queues may be waited for.\<close>

fun OS_MultiCheck :: "nat list \<Rightarrow> os \<Rightarrow> bool" where
  "OS_MultiCheck [] s \<longleftrightarrow> True"
| "OS_MultiCheck (e # es) s \<longleftrightarrow>
     (let ty = OSEventType (OSEvents s e)
      in if ty = OS_EVENT_TYPE_SEM then OS_MultiCheck es s
         else if ty = OS_EVENT_TYPE_MBOX then OS_MultiCheck es s
         else if ty = OS_EVENT_TYPE_Q then OS_MultiCheck es s
         else False)"

text \<open>
  The second loop takes one unit, or one message, from every event that has one, and collects the
  status bits of the others.  \<open>False\<close> stands for its return on a wrong type.
\<close>

record multi_acc =
  acc_os :: os
  acc_rdy :: "nat list"
  acc_msgs :: "voidp list"
  acc_nbr :: INT16U
  acc_stat :: INT8U

definition multi_take :: "os \<Rightarrow> nat \<Rightarrow> voidp \<Rightarrow> multi_acc \<Rightarrow> multi_acc" where
  "multi_take s e pmsg a =
     a\<lparr>acc_os := s, acc_rdy := acc_rdy a @ [e], acc_msgs := acc_msgs a @ [pmsg],
       acc_nbr := acc_nbr a + 1\<rparr>"

fun OS_MultiGet :: "nat list \<Rightarrow> multi_acc \<Rightarrow> bool \<times> multi_acc" where
  "OS_MultiGet [] a = (True, a)"
| "OS_MultiGet (e # es) a =
     (let s = acc_os a; v = OSEvents s e; ty = OSEventType v
      in if ty = OS_EVENT_TYPE_SEM then
           (if OSEventCnt v > 0
            then OS_MultiGet es
                   (multi_take (upd_event e (\<lambda>v. v\<lparr>OSEventCnt := OSEventCnt v - 1\<rparr>) s) e NULL a)
            else OS_MultiGet es (a\<lparr>acc_stat := acc_stat a OR OS_STAT_SEM\<rparr>))
         else if ty = OS_EVENT_TYPE_MBOX then
           (if OSEventPtr v \<noteq> NULL
            then OS_MultiGet es
                   (multi_take (upd_event e (\<lambda>v. v\<lparr>OSEventPtr := NULL\<rparr>) s) e (OSEventPtr v) a)
            else OS_MultiGet es (a\<lparr>acc_stat := acc_stat a OR OS_STAT_MBOX\<rparr>))
         else if ty = OS_EVENT_TYPE_Q then
           (let pq = pq_of e s
            in if OSQEntries (OSQTbl s pq) > 0
               then let (r, pmsg) = OS_QGet (ring_of s pq)
                    in OS_MultiGet es (multi_take (set_ring pq r s) e pmsg a)
               else OS_MultiGet es (a\<lparr>acc_stat := acc_stat a OR OS_STAT_Q\<rparr>))
         else (False, a))"

definition OSEventPendMulti ::
    "nat list option \<Rightarrow> bool \<Rightarrow> bool \<Rightarrow> INT32U \<Rightarrow> os \<Rightarrow> os \<times> multi_result option" where
  "OSEventPendMulti pevents_pend pevents_rdy pmsgs_rdy timeout s =
     (case pevents_pend of
        None \<Rightarrow> (s, Some (multi_error OS_ERR_PEVENT_NULL))
      | Some es \<Rightarrow>
          if es = [] then (s, Some (multi_error OS_ERR_PEVENT_NULL))
          else if \<not> pevents_rdy then (s, Some (multi_error OS_ERR_PEVENT_NULL))
          else if \<not> pmsgs_rdy then (s, Some (multi_error OS_ERR_PEVENT_NULL))
          else if \<not> OS_MultiCheck es s then (s, Some (multi_error OS_ERR_EVENT_TYPE))
          else if OSIntNesting s > 0 then (s, Some (multi_error OS_ERR_PEND_ISR))
          else if OSLockNesting s > 0 then (s, Some (multi_error OS_ERR_PEND_LOCKED))
          else
            let (ok, a) = OS_MultiGet es
                  \<lparr>acc_os = s, acc_rdy = [], acc_msgs = [], acc_nbr = 0, acc_stat = OS_STAT_RDY\<rparr>;
                s = acc_os a;
                res = \<lparr>multi_rdy = acc_rdy a, multi_msgs = acc_msgs a, multi_nbr = acc_nbr a,
                       multi_err = OS_ERR_NONE\<rparr>
            in if \<not> ok then (s, Some (res\<lparr>multi_err := OS_ERR_EVENT_TYPE\<rparr>))
               else if acc_rdy a \<noteq> [] then (s, Some res)
               else
                 let s = upd_tcb (cur s) (\<lambda>p. p\<lparr>
                           OSTCBStat := OSTCBStat p OR (acc_stat a OR OS_STAT_MULTI),
                           OSTCBStatPend := OS_STAT_PEND_OK, OSTCBDly := timeout\<rparr>) s
                 in (OS_Sched (OS_EventTaskWaitMulti es s), None))"

text \<open>
  After the switch: the first \<open>switch\<close> of the code stores the event that became ready, or turns
  a missing one into a timeout, and the second fetches the message.
\<close>

definition OSEventPendMulti_resume :: "nat list \<Rightarrow> os \<Rightarrow> os \<times> multi_result" where
  "OSEventPendMulti_resume es s =
     (let t = cur s;
          stat_pend = OSTCBStatPend (OSTCBTbl s t);
          pevent = OSTCBEventMultiRdy (OSTCBTbl s t);
          (s, rdy, nbr) =
            (if stat_pend = OS_STAT_PEND_OK \<or> stat_pend = OS_STAT_PEND_ABORT then
               (case pevent of
                  Some e \<Rightarrow> (s, [e], 1)
                | None \<Rightarrow>
                    (OS_EventTaskRemoveMulti t es
                       (upd_tcb t (\<lambda>p. p\<lparr>OSTCBStatPend := OS_STAT_PEND_TO\<rparr>) s), [], 0))
             else (OS_EventTaskRemoveMulti t es s, [], 0));
          stat_pend = OSTCBStatPend (OSTCBTbl s t);
          ty = (case pevent of None \<Rightarrow> OS_EVENT_TYPE_UNUSED | Some e \<Rightarrow> OSEventType (OSEvents s e));
          done = (\<lambda>s. upd_tcb t (\<lambda>p. p\<lparr>OSTCBStat := OS_STAT_RDY, OSTCBStatPend := OS_STAT_PEND_OK,
                    OSTCBEventMultiPtr := None, OSTCBEventMultiRdy := None, OSTCBMsg := NULL\<rparr>) s);
          res = (\<lambda>msgs err. \<lparr>multi_rdy = rdy, multi_msgs = msgs, multi_nbr = nbr, multi_err = err\<rparr>)
      in if stat_pend = OS_STAT_PEND_OK then
           (if ty = OS_EVENT_TYPE_SEM then (done s, res [NULL] OS_ERR_NONE)
            else if ty = OS_EVENT_TYPE_MBOX \<or> ty = OS_EVENT_TYPE_Q
            then (done s, res [OSTCBMsg (OSTCBTbl s t)] OS_ERR_NONE)
            else (s, res [] OS_ERR_EVENT_TYPE))
         else if stat_pend = OS_STAT_PEND_ABORT then (done s, res [NULL] OS_ERR_PEND_ABORT)
         else (done s, res [NULL] OS_ERR_TIMEOUT))"

section \<open>The loops\<close>

lemma MultiCheck_types:
  "OS_MultiCheck es s \<Longrightarrow> e \<in> set es \<Longrightarrow>
     OSEventType (OSEvents s e) \<in> {OS_EVENT_TYPE_SEM, OS_EVENT_TYPE_MBOX, OS_EVENT_TYPE_Q}"
  by (induction es s rule: OS_MultiCheck.induct) (auto simp: Let_def split: if_splits)

text \<open>
  The second loop changes no list.  When it finds nothing ready, it changes nothing and has the
  status bit of every event.
\<close>

definition stat_any :: "INT8U \<Rightarrow> bool" where "stat_any w \<longleftrightarrow> w AND OS_STAT_PEND_ANY \<noteq> 0"

lemma stat_any_or: "stat_any (w OR v) \<longleftrightarrow> stat_any w \<or> stat_any v"
  by (auto simp: stat_any_def stat_bits)

lemma stat_any_bits [simp]: "stat_any OS_STAT_SEM" "stat_any OS_STAT_MBOX" "stat_any OS_STAT_Q"
  by (simp_all add: stat_any_def)

lemma MultiGet_step:
  assumes "OS_MultiGet (e # es) a = (ok, a')"
  obtains (bad) "\<not> ok" "a' = a"
  | (take) s1 m where "quiet (acc_os a) s1" "OS_MultiGet es (multi_take s1 e m a) = (ok, a')"
  | (skip) st where "stat_any st" "OS_MultiGet es (a\<lparr>acc_stat := acc_stat a OR st\<rparr>) = (ok, a')"
proof -
  let ?s = "acc_os a" and ?v = "OSEvents (acc_os a) e"
  note l = assms [unfolded OS_MultiGet.simps Let_def]
  show ?thesis
  proof (cases "OSEventType ?v = OS_EVENT_TYPE_SEM")
    case sem: True
    then have "quiet ?s (upd_event e (\<lambda>v. v\<lparr>OSEventCnt := OSEventCnt v - 1\<rparr>) ?s)"
      by (intro quiet_upd_event) simp_all
    with l sem that(2) show ?thesis
      by (cases "OSEventCnt ?v > 0") (auto intro: that(3) [OF stat_any_bits(1)])
  next
    case ns: False
    show ?thesis
    proof (cases "OSEventType ?v = OS_EVENT_TYPE_MBOX")
      case mbox: True
      then have "quiet ?s (upd_event e (\<lambda>v. v\<lparr>OSEventPtr := NULL\<rparr>) ?s)"
        by (intro quiet_upd_event) simp_all
      with l ns mbox that(2) show ?thesis
        by (cases "OSEventPtr ?v \<noteq> NULL") (auto intro: that(3) [OF stat_any_bits(2)])
    next
      case nm: False
      obtain r m where g: "OS_QGet (ring_of ?s (pq_of e ?s)) = (r, m)" by fastforce
      show ?thesis
      proof (cases "OSEventType ?v = OS_EVENT_TYPE_Q \<and> OSQEntries (OSQTbl ?s (pq_of e ?s)) > 0")
        case True
        then have "OS_MultiGet es (multi_take (set_ring (pq_of e ?s) r ?s) e m a) = (ok, a')"
          using l ns nm g by simp
        with quiet_set_ring show ?thesis by (rule that(2))
      next
        case False
        with l ns nm show ?thesis
          by (auto intro: that(1) that(3) [OF stat_any_bits(3)] split: if_splits)
      qed
    qed
  qed
qed

lemma MultiGet_effect:
  "OS_MultiGet es a = (ok, a') \<Longrightarrow>
     quiet (acc_os a) (acc_os a') \<and> length (acc_rdy a) \<le> length (acc_rdy a') \<and>
     (ok \<and> acc_rdy a' = acc_rdy a \<longrightarrow>
        acc_os a' = acc_os a \<and> (es \<noteq> [] \<or> stat_any (acc_stat a) \<longrightarrow> stat_any (acc_stat a')))"
proof (induction es arbitrary: a)
  case Nil
  then show ?case by simp
next
  case (Cons e es)
  from Cons.prems show ?case
  proof (cases rule: MultiGet_step)
    case bad
    then show ?thesis by simp
  next
    case (take s1 m)
    have "quiet (acc_os a) (acc_os a')" and l: "length (acc_rdy a) < length (acc_rdy a')"
      using Cons.IH [OF take(2)] quiet_trans [OF take(1)] by (simp_all add: multi_take_def)
    moreover have "acc_rdy a' \<noteq> acc_rdy a" using l by auto
    ultimately show ?thesis by simp
  next
    case (skip st)
    then show ?thesis using Cons.IH [OF skip(2)] by (simp add: stat_any_or)
  qed
qed

lemma WaitListInsertMulti_effect:
  assumes "xy_ok (OSTCBTbl s t)" and "\<And>e. bm_ok (wl s e)"
  shows "rdy (OS_WaitListInsertMulti t es s) = rdy s \<and>
    bm_ok (wl (OS_WaitListInsertMulti t es s) d) \<and>
    bm_mem (wl (OS_WaitListInsertMulti t es s) d) =
      (if d \<in> set es then insert (prio_of (OSTCBTbl s t)) (bm_mem (wl s d)) else bm_mem (wl s d)) \<and>
    OSTCBTbl (OS_WaitListInsertMulti t es s) = OSTCBTbl s \<and>
    only_lists s (OS_WaitListInsertMulti t es s)"
  using assms
proof (induction es arbitrary: s)
  case Nil
  then show ?case by simp
next
  case (Cons e es)
  let ?s = "OS_WaitListInsert t e s"
  note r = WaitListInsert_effect [OF Cons.prems(1)]
  have p: "prio_of (OSTCBTbl s t) < 64" using Cons.prems(1) by (rule xy_okD)
  have "xy_ok (OSTCBTbl ?s t)" and "\<And>e. bm_ok (wl ?s e)"
    using Cons.prems p by (auto simp: r bm_ok_ins)
  note ih = Cons.IH [OF this]
  show ?case
    using ih Cons.prems p only_lists_trans [OF r(4) [of e]] by (auto simp: r bm_mem_ins)
qed

section \<open>Blocking on several events\<close>

lemma MultiBlock_pre_inv:
  fixes s es stat timeout
  defines "s' \<equiv> OS_EventTaskWaitMulti es (upd_tcb (cur s) (\<lambda>p. p\<lparr>
      OSTCBStat := OSTCBStat p OR (stat OR OS_STAT_MULTI), OSTCBStatPend := OS_STAT_PEND_OK,
      OSTCBDly := timeout\<rparr>) s)"
  assumes inv: "pre_inv k s" and none: "k (cur s) = None" and lock: "OSLockNesting s = 0"
    and idle: "unat (OSPrioCur s) \<noteq> 63" and stat: "stat_any stat" and es: "es \<noteq> []"
    and ty: "\<And>e. e \<in> set es \<Longrightarrow> event_type s e \<noteq> OS_EVENT_TYPE_UNUSED"
  shows "pre_inv (k(cur s := Some (PendMulti es))) s'"
proof -
  let ?n = "unat (OSPrioCur s)" and ?t = "cur s" and ?p = "OSTCBTbl s (cur s)"
  note i = pre_invD [OF inv]
  note at = i(6)
  note okr = kernel_invD(1) [OF i(1)] and okw = kernel_invD(2) [OF i(1)]
  have xy: "xy_ok ?p" and pn: "prio_of ?p = ?n" and n64: "?n < 64"
    using task_at_xy [OF i(1) at] at by (simp_all add: task_at_def)
  define q where "q = ?p\<lparr>OSTCBStat := OSTCBStat ?p OR (stat OR OS_STAT_MULTI), OSTCBStatPend := OS_STAT_PEND_OK,
      OSTCBDly := timeout, OSTCBEventMultiPtr := Some es, OSTCBEventMultiRdy := None\<rparr>"
  define s1 where "s1 = upd_tcb ?t (\<lambda>p. q) s"
  have t1: "OSTCBTbl s1 = (OSTCBTbl s)(?t := q)" and w1: "\<And>e. wl s1 e = wl s e" and r1: "rdy s1 = rdy s"
    and o1: "only_lists s s1" by (simp_all add: s1_def)
  have xy1: "xy_ok (OSTCBTbl s1 ?t)" and p1: "prio_of (OSTCBTbl s1 ?t) = ?n"
    using xy pn by (simp_all add: t1 q_def xy_ok_def)
  define s2 where "s2 = OS_WaitListInsertMulti ?t es s1"
  have e2: "rdy s2 = rdy s" "bm_ok (wl s2 d)" "OSTCBTbl s2 = (OSTCBTbl s)(?t := q)" "only_lists s1 s2"
    "bm_mem (wl s2 d) = (if d \<in> set es then insert ?n (bm_mem (wl s d)) else bm_mem (wl s d))" for d
    using WaitListInsertMulti_effect [OF xy1, of es d] okw unfolding s2_def p1 by (simp_all add: w1 r1 t1)
  have xy2: "xy_ok (OSTCBTbl s2 ?t)" using xy1 by (simp add: e2 t1)
  note e3 = RdyListRemove_effect [OF xy2]
  have s': "s' = OS_RdyListRemove ?t s2"
  proof -
    have "s' = OS_RdyListRemove (cur (OS_WaitListInsertMulti (cur s1) es s1)) (OS_WaitListInsertMulti (cur s1) es s1)"
      unfolding s'_def OS_EventTaskWaitMulti_def Let_def by (simp add: s1_def upd_tcb_def q_def)
    moreover have "cur s1 = cur s" by (simp add: s1_def upd_tcb_def)
    ultimately show ?thesis
      using only_lists_global(4) [OF e2(4)] by (simp add: s2_def s1_def upd_tcb_def)
  qed
  have o: "only_lists s s'" using only_lists_trans [OF only_lists_trans [OF o1 e2(4)] e3(5)] by (simp add: s')
  have tcb: "OSTCBTbl s' = (OSTCBTbl s)(?t := q)" by (simp add: s' e3 e2)
  have rdy': "rdy s' = bm_del ?n (rdy s)" using p1 by (simp add: s' e3 e2 t1)
  have wl': "bm_ok (wl s' d)" "bm_mem (wl s' d) = (if d \<in> set es then insert ?n (bm_mem (wl s d)) else bm_mem (wl s d))" for d
    using e2 by (simp_all add: s' e3)
  have co: "cont_ok None (waits_on s ?n) ?p" using i(8) [OF at] none by simp
  then have w: "waits_on s ?n = {}" by (simp add: cont_ok_def)
  have w': "waits_on s' ?n = set es" using w by (auto simp: waits_on_def wl')
  have r': "?n \<notin> bm_mem (rdy s')" using okr n64 by (simp add: rdy' bm_mem_del)
  have ty': "event_type s' = event_type s" by (rule same_kernelD(2) [OF only_lists_kernel(1) [OF o]])
  have mu: "multi q" and pe: "pending q"
    using stat by (auto simp: q_def multi_iff pending_iff stat_any_def stat_bits)
  have tch: "touches ?n ?t s s'"
    using okr n64 only_lists_kernel [OF o]
    by (simp add: touches_def tcb rdy' wl' bm_ok_del bm_mem_del) (simp add: q_def tcb_coords_def)
  show ?thesis
  proof (rule pre_inv_touches [OF inv at tch])
    show "task_ok (?n \<in> bm_mem (rdy s')) (waits_on s' ?n) (event_type s') (OSTCBTbl s' ?t)"
      unfolding task_ok_def w' ty' using r' mu pe ty es co
      by (simp add: tcb) (simp add: q_def awaited_def cont_ok_def)
    show "cont_ok ((k(?t := Some (PendMulti es))) ?t) (waits_on s' ?n) (OSTCBTbl s' ?t)"
      using co mu by (simp add: cont_ok_def w' tcb) (simp add: q_def)
  qed (use lock idle in simp_all)
qed

theorem OSEventPendMulti_inv:
  assumes inv: "sys_inv k s" and none: "k (cur s) = None" and idle: "unat (OSPrioCur s) \<noteq> 63"
    and p: "OSEventPendMulti pe er mr timeout s = (s', r)"
  shows "sys_inv (if r = None then k(cur s := Some (PendMulti (the pe))) else k) s'"
proof -
  consider (quiet) "r \<noteq> None" "quiet s s'"
    | (block) es stat where "pe = Some es" "es \<noteq> []" "OS_MultiCheck es s" "stat_any stat" "OSLockNesting s = 0"
        "r = None" "s' = OS_Sched (OS_EventTaskWaitMulti es (upd_tcb (cur s) (\<lambda>p. p\<lparr>
          OSTCBStat := OSTCBStat p OR (stat OR OS_STAT_MULTI), OSTCBStatPend := OS_STAT_PEND_OK,
          OSTCBDly := timeout\<rparr>) s))"
  proof (cases "\<exists>es. pe = Some es \<and> es \<noteq> [] \<and> er \<and> mr \<and> OS_MultiCheck es s \<and> OSIntNesting s = 0 \<and> OSLockNesting s = 0")
    case False
    then have "r \<noteq> None \<and> s' = s"
      using p by (auto simp: OSEventPendMulti_def word_gt_0 split: option.splits if_splits)
    then show ?thesis using that(1) by simp
  next
    case True
    then obtain es where es: "pe = Some es" "es \<noteq> []" "er" "mr" "OS_MultiCheck es s" "OSIntNesting s = 0" "OSLockNesting s = 0"
      by blast
    let ?a = "\<lparr>acc_os = s, acc_rdy = [], acc_msgs = [], acc_nbr = 0, acc_stat = OS_STAT_RDY\<rparr>"
    obtain ok a where g: "OS_MultiGet es ?a = (ok, a)" by fastforce
    note m = MultiGet_effect [OF g]
    show ?thesis
    proof (cases "ok \<and> acc_rdy a = []")
      case True
      then have "acc_os a = s" "stat_any (acc_stat a)" using m es(2) by simp_all
      with True p es g show ?thesis
        by (intro that(2) [of es "acc_stat a"]) (auto simp: OSEventPendMulti_def Let_def)
    next
      case False
      then have "r \<noteq> None" "s' = acc_os a"
        using p es g by (auto simp: OSEventPendMulti_def Let_def split: if_splits)
      then show ?thesis using that(1) m by simp
    qed
  qed
  then show ?thesis
  proof cases
    case quiet
    with quiet_sys_inv [OF inv] show ?thesis by auto
  next
    case block
    have "event_type s e \<noteq> OS_EVENT_TYPE_UNUSED" if "e \<in> set es" for e
      using MultiCheck_types [OF block(3) that] by auto
    from Sched_sys_inv [OF MultiBlock_pre_inv [OF sys_invD(1) [OF inv] none block(5) idle block(4,2) this]]
    show ?thesis using block by simp
  qed
qed

section \<open>Finishing\<close>

definition multi_done :: "nat \<Rightarrow> os \<Rightarrow> os" where
  "multi_done t s = upd_tcb t (\<lambda>p. p\<lparr>OSTCBStat := OS_STAT_RDY, OSTCBStatPend := OS_STAT_PEND_OK,
     OSTCBEventMultiPtr := None, OSTCBEventMultiRdy := None, OSTCBMsg := NULL\<rparr>) s"

lemma RemoveMulti_tcb [simp]: "OSTCBTbl (OS_EventTaskRemoveMulti t es s) = OSTCBTbl s"
  by (induction t es s rule: OS_EventTaskRemoveMulti.induct) (simp_all add: OS_WaitListRemove_def Let_def)

lemma PendMulti_resume_cases:
  fixes s :: os and es :: "nat list"
  defines "t \<equiv> cur s" and "s' \<equiv> fst (OSEventPendMulti_resume es s)"
  shows "OSTCBStatPend (OSTCBTbl s t) = OS_STAT_PEND_OK \<and> s' = s \<or>
     OSTCBStatPend (OSTCBTbl s t) \<in> {OS_STAT_PEND_OK, OS_STAT_PEND_ABORT} \<and> s' = multi_done t s \<or>
     (\<exists>f. (\<forall>p. tcb_coords (f p) = tcb_coords p \<and> OSTCBEventPtr (f p) = OSTCBEventPtr p \<and>
            OSTCBFlagNode (f p) = OSTCBFlagNode p \<and> OSTCBDly (f p) = OSTCBDly p) \<and>
        s' = multi_done t (OS_EventTaskRemoveMulti t es (upd_tcb t f s)))"
    (is "_ \<or> _ \<or> ?remove")
proof (cases "OSTCBStatPend (OSTCBTbl s t) = OS_STAT_PEND_OK \<or> OSTCBStatPend (OSTCBTbl s t) = OS_STAT_PEND_ABORT")
  case True
  show ?thesis
  proof (cases "OSTCBEventMultiRdy (OSTCBTbl s t)")
    case None
    have "s' = multi_done t (OS_EventTaskRemoveMulti t es (upd_tcb t (\<lambda>p. p\<lparr>OSTCBStatPend := OS_STAT_PEND_TO\<rparr>) s))"
      using True None by (simp add: s'_def OSEventPendMulti_resume_def Let_def multi_done_def t_def)
    then have ?remove
      by (intro exI [of _ "\<lambda>p. p\<lparr>OSTCBStatPend := OS_STAT_PEND_TO\<rparr>"]) (simp add: tcb_coords_def)
    then show ?thesis by simp
  next
    case (Some e)
    have "s' = multi_done t s \<or> OSTCBStatPend (OSTCBTbl s t) = OS_STAT_PEND_OK \<and> s' = s"
      using True Some by (simp add: s'_def OSEventPendMulti_resume_def Let_def multi_done_def t_def split: if_splits)
    with True show ?thesis by auto
  qed
next
  case False
  have "s' = multi_done t (OS_EventTaskRemoveMulti t es (upd_tcb t (\<lambda>p. p) s))"
    using False by (simp add: s'_def OSEventPendMulti_resume_def Let_def multi_done_def t_def)
  then have ?remove by (intro exI [of _ "\<lambda>p. p"]) simp
  then show ?thesis by simp
qed

theorem OSEventPendMulti_resume_inv:
  assumes inv: "sys_inv k s" and int: "OSIntNesting s = 0" and c: "k (cur s) = Some (PendMulti es)"
  shows "sys_inv (k(cur s := None)) (fst (OSEventPendMulti_resume es s))"
proof -
  let ?n = "unat (OSPrioCur s)" and ?t = "cur s" and ?p = "OSTCBTbl s (cur s)"
    and ?s = "fst (OSEventPendMulti_resume es s)"
  note i = pre_invD [OF sys_invD(1) [OF inv]]
  note r = running_ready [OF inv int c]
  have xy: "xy_ok ?p" and pn: "prio_of ?p = ?n" using task_at_xy [OF i(1,6)] i(6) by (simp_all add: task_at_def)
  note okw = kernel_invD(2) [OF i(1)]
  have co: "OSTCBEventPtr ?p = None" "OSTCBFlagNode ?p = None" "multi ?p" "waits_on s ?n \<subseteq> set es"
    using r(4) by (simp_all add: cont_ok_def)
  have d0: "OSTCBDly ?p = 0" using r(3) by (simp add: task_ok_def)
  have w0: "waits_on s ?n = {}" if "OSTCBStatPend ?p \<noteq> OS_STAT_PEND_TO"
    using r(3) that by (auto simp: task_ok_def)
  have m0: "OSTCBEventMultiPtr ?p = None" if "OSTCBStatPend ?p \<noteq> OS_STAT_PEND_TO"
    using r(3) w0 [OF that] by (auto simp: task_ok_def awaited_def split: option.splits)
  have sy: "tcb_sync (OSTCBTbl (multi_done ?t s1) ?t) = tcb_sync (woken_tcb ?p)"
    and cd: "tcb_coords (OSTCBTbl (multi_done ?t s1) ?t) = tcb_coords ?p"
    if "OSTCBTbl s1 = (OSTCBTbl s)(?t := q)" "tcb_coords q = tcb_coords ?p" "OSTCBEventPtr q = OSTCBEventPtr ?p"
      "OSTCBFlagNode q = OSTCBFlagNode ?p" "OSTCBDly q = OSTCBDly ?p" for s1 q
    using that co d0 by (simp_all add: multi_done_def tcb_sync_def woken_tcb_def tcb_coords_def)
  consider (bad) "OSTCBStatPend ?p = OS_STAT_PEND_OK" "?s = s"
    | (keep) "OSTCBStatPend ?p \<in> {OS_STAT_PEND_OK, OS_STAT_PEND_ABORT}" "?s = multi_done ?t s"
    | (remove) f where "\<And>p. tcb_coords (f p) = tcb_coords p" "\<And>p. OSTCBEventPtr (f p) = OSTCBEventPtr p"
      "\<And>p. OSTCBFlagNode (f p) = OSTCBFlagNode p" "\<And>p. OSTCBDly (f p) = OSTCBDly p"
      "?s = multi_done ?t (OS_EventTaskRemoveMulti ?t es (upd_tcb ?t f s))"
    using PendMulti_resume_cases [of s es] by blast
  then show ?thesis
  proof cases
    case bad
    then have st: "OSTCBStatPend ?p \<noteq> OS_STAT_PEND_TO" by simp
    have "pre_inv (k(?t := None)) s"
    proof (rule pre_inv_touches [OF sys_invD(1) [OF inv] i(6) quiet_touches [OF i(1) quiet_refl]])
      show "cont_ok ((k(?t := None)) ?t) (waits_on s ?n) ?p"
        using co w0 [OF st] m0 [OF st] by (simp add: cont_ok_def)
    qed (use kernel_invD(6,7) [OF i(1)] i(6) in simp_all)
    with bad(2) sys_invD(2) [OF inv] show ?thesis by (simp add: sys_inv_def)
  next
    case keep
    then have st: "OSTCBStatPend ?p \<noteq> OS_STAT_PEND_TO" by auto
    have "sys_inv (k(?t := None)) (multi_done ?t s)"
    proof (rule woken_sys_inv [OF inv int c])
      show "waits_on (multi_done ?t s) ?n = {}" using w0 [OF st] by (simp add: waits_on_def multi_done_def)
    qed (use sy [of s ?p] cd [of s ?p] okw in \<open>simp_all add: multi_done_def\<close>)
    with keep show ?thesis by simp
  next
    case (remove f)
    let ?s1 = "upd_tcb ?t f s" and ?s2 = "OS_EventTaskRemoveMulti ?t es (upd_tcb ?t f s)"
    have p1: "xy_ok (OSTCBTbl ?s1 ?t)" "prio_of (OSTCBTbl ?s1 ?t) = ?n"
      using xy pn xy_ok_cong [OF remove(1)] coords_prio [OF remove(1)] by simp_all
    note e = EventTaskRemoveMulti_effect [OF p1(1), of es, unfolded p1(2)]
    have o: "only_lists s ?s2" using only_lists_trans [of s ?s1 ?s2] e okw by simp
    have t2: "OSTCBTbl ?s2 = (OSTCBTbl s)(?t := f ?p)" by simp
    have "sys_inv (k(?t := None)) (multi_done ?t ?s2)"
    proof (rule woken_sys_inv [OF inv int c])
      show "only_lists s (multi_done ?t ?s2)"
        unfolding multi_done_def by (rule only_lists_trans [OF o only_lists_prims(2)])
      show "waits_on (multi_done ?t ?s2) ?n = {}"
        using e okw co(4) by (auto simp: waits_on_def multi_done_def split: if_splits)
      show "m \<in> bm_mem (wl (multi_done ?t ?s2) d) \<longleftrightarrow> m \<in> bm_mem (wl s d)" if "m \<noteq> ?n" for m d
        using e okw that by (simp add: multi_done_def)
      show "tcb_coords (OSTCBTbl (multi_done ?t ?s2) ?t) = tcb_coords ?p"
        using cd [OF t2] remove by simp
      show "tcb_sync (OSTCBTbl (multi_done ?t ?s2) ?t) = tcb_sync (woken_tcb ?p)"
        using sy [OF t2] remove by simp
    qed (use e okw in \<open>simp_all add: multi_done_def\<close>)
    with remove show ?thesis by simp
  qed
qed

end
