(* ===== verification/UCOS_Mbox.thy ===== *)
theory UCOS_Mbox
  imports UCOS_Example
begin

text \<open>
  The message mailboxes of \<open>os_mbox.c\<close>: \<open>OSEventPtr\<close> holds the message, \<open>NULL\<close> when
  the mailbox is empty.  The conventions are those of the semaphores.
\<close>

definition OSMboxAccept :: "nat option \<Rightarrow> os \<Rightarrow> os \<times> voidp" where
  "OSMboxAccept pevent s =
     (case pevent of None \<Rightarrow> (s, NULL)
      | Some e \<Rightarrow>
          if OSEventType (OSEvents s e) \<noteq> OS_EVENT_TYPE_MBOX then (s, NULL)
          else (upd_event e (\<lambda>v. v\<lparr>OSEventPtr := NULL\<rparr>) s, OSEventPtr (OSEvents s e)))"

definition OSMboxCreate :: "voidp \<Rightarrow> os \<Rightarrow> os \<times> nat option" where
  "OSMboxCreate pmsg s =
     (if OSIntNesting s > 0 then (s, None)
      else case OS_EventAlloc s of
             (s, None) \<Rightarrow> (s, None)
           | (s, Some e) \<Rightarrow>
               let s = upd_event e (\<lambda>v. v\<lparr>OSEventType := OS_EVENT_TYPE_MBOX, OSEventCnt := 0,
                         OSEventPtr := pmsg, OSEventName := Some ''?''\<rparr>) s
               in (OS_EventWaitListInit e s, Some e))"

definition OSMboxDel :: "nat option \<Rightarrow> INT8U \<Rightarrow> os \<Rightarrow> (os \<times> nat option \<times> INT8U) option" where
  "OSMboxDel pevent opt s =
     (case pevent of None \<Rightarrow> Some (s, None, OS_ERR_PEVENT_NULL)
      | Some e \<Rightarrow>
          if OSEventType (OSEvents s e) \<noteq> OS_EVENT_TYPE_MBOX then Some (s, Some e, OS_ERR_EVENT_TYPE)
          else if OSIntNesting s > 0 then Some (s, Some e, OS_ERR_DEL_ISR)
          else let tasks_waiting = (OSEventGrp (OSEvents s e) \<noteq> 0)
               in if opt = OS_DEL_NO_PEND then
                    if \<not> tasks_waiting then Some (OS_EventFree e s, None, OS_ERR_NONE)
                    else Some (s, Some e, OS_ERR_TASK_WAITING)
                  else if opt = OS_DEL_ALWAYS then
                    case OS_EventTaskRdyAll e NULL OS_STAT_MBOX OS_STAT_PEND_ABORT (s, 0) of
                      None \<Rightarrow> None
                    | Some (s, _) \<Rightarrow>
                        let s = OS_EventFree e s
                        in Some (if tasks_waiting then OS_Sched s else s, None, OS_ERR_NONE)
                  else Some (s, Some e, OS_ERR_INVALID_OPT))"

text \<open>The pend returns the message and the error, or blocks.\<close>

definition OSMboxPend :: "nat option \<Rightarrow> INT32U \<Rightarrow> os \<Rightarrow> os \<times> (voidp \<times> INT8U) option" where
  "OSMboxPend pevent timeout s =
     (case pevent of None \<Rightarrow> (s, Some (NULL, OS_ERR_PEVENT_NULL))
      | Some e \<Rightarrow>
          if OSEventType (OSEvents s e) \<noteq> OS_EVENT_TYPE_MBOX then (s, Some (NULL, OS_ERR_EVENT_TYPE))
          else if OSIntNesting s > 0 then (s, Some (NULL, OS_ERR_PEND_ISR))
          else if OSLockNesting s > 0 then (s, Some (NULL, OS_ERR_PEND_LOCKED))
          else let pmsg = OSEventPtr (OSEvents s e)
               in if pmsg \<noteq> NULL
                  then (upd_event e (\<lambda>v. v\<lparr>OSEventPtr := NULL\<rparr>) s, Some (pmsg, OS_ERR_NONE))
                  else (OS_Sched (OS_PendBlock OS_STAT_MBOX timeout e s), None))"

definition OSMboxPend_resume :: "nat \<Rightarrow> os \<Rightarrow> os \<times> voidp \<times> INT8U" where
  "OSMboxPend_resume e s =
     (let stat_pend = OSTCBStatPend (OSTCBTbl s (cur s));
          (s, pmsg, err) =
            (if stat_pend = OS_STAT_PEND_OK then (s, OSTCBMsg (OSTCBTbl s (cur s)), OS_ERR_NONE)
             else if stat_pend = OS_STAT_PEND_ABORT then (s, NULL, OS_ERR_PEND_ABORT)
             else (OS_EventTaskRemove (cur s) e s, NULL, OS_ERR_TIMEOUT));
          s = OS_PendDone s
      in (upd_tcb (cur s) (\<lambda>p. p\<lparr>OSTCBMsg := NULL\<rparr>) s, pmsg, err))"

definition OSMboxPendAbort :: "nat option \<Rightarrow> INT8U \<Rightarrow> os \<Rightarrow> (os \<times> INT8U \<times> INT8U) option" where
  "OSMboxPendAbort pevent opt s =
     (case pevent of None \<Rightarrow> Some (s, 0, OS_ERR_PEVENT_NULL)
      | Some e \<Rightarrow>
          if OSEventType (OSEvents s e) \<noteq> OS_EVENT_TYPE_MBOX then Some (s, 0, OS_ERR_EVENT_TYPE)
          else if OSEventGrp (OSEvents s e) \<noteq> 0
          then case (if opt = OS_PEND_OPT_BROADCAST
                     then OS_EventTaskRdyAll e NULL OS_STAT_MBOX OS_STAT_PEND_ABORT (s, 0)
                     else Some (fst (OS_EventTaskRdy e NULL OS_STAT_MBOX OS_STAT_PEND_ABORT s), 1)) of
                 None \<Rightarrow> None
               | Some (s, nbr_tasks) \<Rightarrow> Some (OS_Sched s, nbr_tasks, OS_ERR_PEND_ABORT)
          else Some (s, 0, OS_ERR_NONE))"

definition OSMboxPost :: "nat option \<Rightarrow> voidp \<Rightarrow> os \<Rightarrow> os \<times> INT8U" where
  "OSMboxPost pevent pmsg s =
     (case pevent of None \<Rightarrow> (s, OS_ERR_PEVENT_NULL)
      | Some e \<Rightarrow>
          if pmsg = NULL then (s, OS_ERR_POST_NULL_PTR)
          else if OSEventType (OSEvents s e) \<noteq> OS_EVENT_TYPE_MBOX then (s, OS_ERR_EVENT_TYPE)
          else if OSEventGrp (OSEvents s e) \<noteq> 0
          then (OS_Sched (fst (OS_EventTaskRdy e pmsg OS_STAT_MBOX OS_STAT_PEND_OK s)), OS_ERR_NONE)
          else if OSEventPtr (OSEvents s e) \<noteq> NULL then (s, OS_ERR_MBOX_FULL)
          else (upd_event e (\<lambda>v. v\<lparr>OSEventPtr := pmsg\<rparr>) s, OS_ERR_NONE))"

definition OSMboxPostOpt :: "nat option \<Rightarrow> voidp \<Rightarrow> INT8U \<Rightarrow> os \<Rightarrow> (os \<times> INT8U) option" where
  "OSMboxPostOpt pevent pmsg opt s =
     (case pevent of None \<Rightarrow> Some (s, OS_ERR_PEVENT_NULL)
      | Some e \<Rightarrow>
          if pmsg = NULL then Some (s, OS_ERR_POST_NULL_PTR)
          else if OSEventType (OSEvents s e) \<noteq> OS_EVENT_TYPE_MBOX then Some (s, OS_ERR_EVENT_TYPE)
          else if OSEventGrp (OSEvents s e) \<noteq> 0
          then case (if opt AND OS_POST_OPT_BROADCAST \<noteq> 0
                     then OS_EventTaskRdyAll e pmsg OS_STAT_MBOX OS_STAT_PEND_OK (s, 0)
                     else Some (fst (OS_EventTaskRdy e pmsg OS_STAT_MBOX OS_STAT_PEND_OK s), 1)) of
                 None \<Rightarrow> None
               | Some (s, _) \<Rightarrow>
                   Some (if opt AND OS_POST_OPT_NO_SCHED = 0 then OS_Sched s else s, OS_ERR_NONE)
          else if OSEventPtr (OSEvents s e) \<noteq> NULL then Some (s, OS_ERR_MBOX_FULL)
          else Some (upd_event e (\<lambda>v. v\<lparr>OSEventPtr := pmsg\<rparr>) s, OS_ERR_NONE))"

definition OSMboxQuery :: "nat option \<Rightarrow> bool \<Rightarrow> os \<Rightarrow> INT8U \<times> os_mbox_data option" where
  "OSMboxQuery pevent pdata s =
     (case pevent of None \<Rightarrow> (OS_ERR_PEVENT_NULL, None)
      | Some e \<Rightarrow>
          if \<not> pdata then (OS_ERR_PDATA_NULL, None)
          else let v = OSEvents s e
               in if OSEventType v \<noteq> OS_EVENT_TYPE_MBOX then (OS_ERR_EVENT_TYPE, None)
                  else (OS_ERR_NONE,
                        Some \<lparr>OSMboxMsg = OSEventPtr v,
                              OSMboxEventTbl = map (\<lambda>i. OSEventTbl v ! i) [0..<OS_EVENT_TBL_SIZE],
                              OSMboxEventGrp = OSEventGrp v\<rparr>))"

section \<open>The contract of the wait services\<close>

lemma mbox_pend_done: "OSMboxPend pe timeout s = (s', Some r) \<Longrightarrow> quiet s s'"
  by (auto simp: OSMboxPend_def Let_def quiet_upd_event split: option.splits if_splits)

lemma mbox_pend_blocked:
  "OSMboxPend pe timeout s = (s', None) \<Longrightarrow>
     \<exists>e. pe = Some e \<and> event_type s e = OS_EVENT_TYPE_MBOX \<and> OSIntNesting s = 0 \<and> OSLockNesting s = 0 \<and>
       s' = OS_Sched (OS_PendBlock OS_STAT_MBOX timeout e s)"
  by (auto simp: OSMboxPend_def Let_def word_gt_0 split: option.splits if_splits)

lemma mbox_resume:
  "\<exists>m. fst (OSMboxPend_resume e s) = upd_tcb (cur s) (\<lambda>p. p\<lparr>OSTCBMsg := m p\<rparr>) (pend_wake e s)"
proof (intro exI [of _ "\<lambda>p. NULL"])
  have c: "OSTCBCur (OS_PendDone s) = OSTCBCur s" for s
    using only_lists_global(4) [OF PendDone_effect(4)] .
  have "OSTCBCur (OS_EventTaskRemove (cur s) e s) = OSTCBCur s"
    by (simp add: OS_EventTaskRemove_def OS_WaitListRemove_def Let_def set_wl_def os_defs)
  then show "fst (OSMboxPend_resume e s) = upd_tcb (cur s) (\<lambda>p. p\<lparr>OSTCBMsg := NULL\<rparr>) (pend_wake e s)"
    by (simp add: OSMboxPend_resume_def pend_wake_def Let_def c split: prod.splits)
qed

lemma mbox_post:
  "quiet s (fst (OSMboxPost pe msg s)) \<or>
     (\<exists>e. pe = Some e \<and> event_type s e = OS_EVENT_TYPE_MBOX \<and> OSEventGrp (OSEvents s e) \<noteq> 0 \<and>
       fst (OSMboxPost pe msg s) = OS_Sched (fst (OS_EventTaskRdy e msg OS_STAT_MBOX OS_STAT_PEND_OK s)))"
  by (cases pe) (auto simp: OSMboxPost_def Let_def quiet_upd_event)

lemma mbox_abort:
  "(\<exists>err. OSMboxPendAbort pe opt s = Some (s, 0, err)) \<or>
      (\<exists>e. pe = Some e \<and> event_type s e = OS_EVENT_TYPE_MBOX \<and> OSEventGrp (OSEvents s e) \<noteq> 0 \<and>
        OSMboxPendAbort pe opt s =
          (if opt = OS_PEND_OPT_BROADCAST
           then map_option (\<lambda>(s, n). (OS_Sched s, n, OS_ERR_PEND_ABORT))
                  (OS_EventTaskRdyAll e NULL OS_STAT_MBOX OS_STAT_PEND_ABORT (s, 0))
           else Some (OS_Sched (fst (OS_EventTaskRdy e NULL OS_STAT_MBOX OS_STAT_PEND_ABORT s)), 1,
                      OS_ERR_PEND_ABORT)))"
  by (cases pe) (auto simp: OSMboxPendAbort_def map_option_case split: option.splits)

lemma mbox_del:
  "(\<exists>r. OSMboxDel pe opt s = Some (s, r)) \<or>
      (\<exists>e. pe = Some e \<and> event_type s e = OS_EVENT_TYPE_MBOX \<and> OSEventGrp (OSEvents s e) = 0 \<and>
        OSMboxDel pe opt s = Some (OS_EventFree e s, None, OS_ERR_NONE)) \<or>
      (\<exists>e. pe = Some e \<and> event_type s e = OS_EVENT_TYPE_MBOX \<and>
        OSMboxDel pe opt s = map_option (\<lambda>(s', n). (if OSEventGrp (OSEvents s e) \<noteq> 0
              then OS_Sched (OS_EventFree e s') else OS_EventFree e s', None, OS_ERR_NONE))
          (OS_EventTaskRdyAll e NULL OS_STAT_MBOX OS_STAT_PEND_ABORT (s, 0)))"
  by (cases pe) (auto simp: OSMboxDel_def Let_def map_option_case split: option.splits)

lemma mbox_post_opt:
  "(\<exists>s' err. OSMboxPostOpt pe msg opt s = Some (s', err) \<and> quiet s s') \<or>
      (\<exists>e. pe = Some e \<and> event_type s e = OS_EVENT_TYPE_MBOX \<and> OSEventGrp (OSEvents s e) \<noteq> 0 \<and>
        OSMboxPostOpt pe msg opt s =
          map_option (\<lambda>(s', n). (if opt AND OS_POST_OPT_NO_SCHED = 0 then OS_Sched s' else s', OS_ERR_NONE))
            (if opt AND OS_POST_OPT_BROADCAST \<noteq> 0
             then OS_EventTaskRdyAll e msg OS_STAT_MBOX OS_STAT_PEND_OK (s, 0)
             else Some (fst (OS_EventTaskRdy e msg OS_STAT_MBOX OS_STAT_PEND_OK s), 1)))"
  by (cases pe) (auto simp: OSMboxPostOpt_def Let_def map_option_case quiet_upd_event split: option.splits)

interpretation mbox: broadcast_service OS_EVENT_TYPE_MBOX OS_STAT_MBOX PendMbox OSMboxPend
  "\<lambda>e s. fst (OSMboxPend_resume e s)" "\<lambda>pe msg s. fst (OSMboxPost pe msg s)" "\<lambda>m. m"
  OSMboxPendAbort OSMboxDel OS_EventFree OSMboxPostOpt
proof
  show "\<exists>s0. quiet s s0 \<and> OS_EventFree e s = OS_EventFree e s0" for s e
    using quiet_refl by blast
qed (fact mbox_pend_done mbox_pend_blocked mbox_resume mbox_post mbox_abort mbox_del mbox_post_opt |
     simp add: type_stat_def)+

section \<open>The mailbox as a message and a set of waiters\<close>

type_synonym ambox = "voidp option \<times> nat set"

definition mbox_abs :: "os \<Rightarrow> nat \<Rightarrow> ambox" where
  "mbox_abs s e =
     (if OSEventPtr (OSEvents s e) = NULL then None else Some (OSEventPtr (OSEvents s e)), bm_mem (wl s e))"

definition amb_post :: "voidp \<Rightarrow> ambox \<Rightarrow> ambox" where
  "amb_post m a = (let (x, W) = a in
     if W \<noteq> {} then (x, W - {Min W}) else if x = None then (Some m, W) else (x, W))"

definition amb_pend :: "nat \<Rightarrow> ambox \<Rightarrow> ambox" where
  "amb_pend n a = (case a of (None, W) \<Rightarrow> (None, insert n W) | (Some x, W) \<Rightarrow> (None, W))"

text \<open>\<open>OSMboxPost\<close> implements the post of an abstract one-place mailbox: the waiter of
  highest priority is released, or the message fills an empty mailbox; the call reports a full mailbox
  exactly when it has no waiter and a message already.\<close>

theorem OSMboxPost_refines:
  assumes inv: "kernel_inv s" and ty: "event_type s e = OS_EVENT_TYPE_MBOX" and m: "m \<noteq> NULL"
  shows "mbox_abs (fst (OSMboxPost (Some e) m s)) e = amb_post m (mbox_abs s e) \<and>
    snd (OSMboxPost (Some e) m s) =
      (if snd (mbox_abs s e) = {} \<and> fst (mbox_abs s e) \<noteq> None then OS_ERR_MBOX_FULL else OS_ERR_NONE)"
proof (cases "bm_mem (wl s e) = {}")
  case False
  have m3: "\<not> bit (OS_STAT_MBOX :: INT8U) 3" by simp
  note o = EventTaskRdy_only_lists [OF inv False m3, of m OS_STAT_PEND_OK]
  from False have "OSEventGrp (OSEvents s e) \<noteq> 0" using grp_nonzero_iff [OF inv] by blast
  then show ?thesis
    using ty m False EventTaskRdy_shrinks [OF inv False m3, of m OS_STAT_PEND_OK] only_lists_event(3) [OF o]
    by (simp add: OSMboxPost_def amb_post_def mbox_abs_def)
next
  case True
  then have "OSEventGrp (OSEvents s e) = 0" using grp_nonzero_iff [OF inv, of e] by blast
  then show ?thesis
    using ty m True by (simp add: OSMboxPost_def amb_post_def mbox_abs_def upd_event_def wl_def)
qed

text \<open>\<open>OSMboxPend\<close> from a task returns the message and empties the mailbox, or blocks and
  adds the caller to the waiting set when it is empty.\<close>

theorem OSMboxPend_refines:
  assumes inv: "pre_inv k s" and ty: "event_type s e = OS_EVENT_TYPE_MBOX"
    and task: "OSIntNesting s = 0" "OSLockNesting s = 0"
  shows "mbox_abs (fst (OSMboxPend (Some e) timeout s)) e = amb_pend (unat (OSPrioCur s)) (mbox_abs s e) \<and>
    snd (OSMboxPend (Some e) timeout s) = map_option (\<lambda>m. (m, OS_ERR_NONE)) (fst (mbox_abs s e))"
proof (cases "OSEventPtr (OSEvents s e) = NULL")
  case False
  with ty task show ?thesis
    by (simp add: OSMboxPend_def amb_pend_def mbox_abs_def upd_event_def wl_def)
next
  case True
  note i = pre_invD [OF inv]
  have xy: "xy_ok (OSTCBTbl s (cur s))" and pn: "prio_of (OSTCBTbl s (cur s)) = unat (OSPrioCur s)"
    and n64: "unat (OSPrioCur s) < 64"
    using task_at_xy [OF i(1,6)] i(6) by (simp_all add: task_at_def)
  note eff = PendBlock_effect [OF xy, of OS_STAT_MBOX timeout e, unfolded pn]
  show ?thesis
    using True ty task n64 kernel_invD(2) [OF i(1)] only_lists_event(3) [OF eff(4)]
    by (simp add: OSMboxPend_def amb_pend_def mbox_abs_def eff(2) bm_mem_ins)
qed

section \<open>Creation and hand-over\<close>

theorem OSMboxCreate_inv:
  assumes inv: "sys_inv k s"
  shows "sys_inv k (fst (OSMboxCreate msg s))"
proof (cases "OSIntNesting s > 0 \<or> OSEventFreeList s = None")
  case True
  with inv show ?thesis by (auto simp: OSMboxCreate_def OS_EventAlloc_def)
next
  case False
  then obtain e where e: "OSEventFreeList s = Some e" by blast
  have "fst (OSMboxCreate msg s) = OS_EventWaitListInit e (upd_event e (\<lambda>v. v\<lparr>OSEventType := OS_EVENT_TYPE_MBOX,
      OSEventCnt := 0, OSEventPtr := msg, OSEventName := Some ''?''\<rparr>) (fst (OS_EventAlloc s)))"
    using False e by (simp add: OSMboxCreate_def OS_EventAlloc_def Let_def)
  then show ?thesis using EventAlloc_sys_inv [OF inv e] by simp
qed

text \<open>The message of a post reaches the waiter of highest priority.\<close>

text \<open>A message posted to a mailbox with waiters goes to the waiter of highest priority, whose
  pend then returns this message without error.\<close>

theorem OSMboxPost_hands_over:
  assumes inv: "kernel_inv s" and ty: "event_type s e = OS_EVENT_TYPE_MBOX" and m: "m \<noteq> NULL"
    and n: "bm_mem (wl s e) \<noteq> {}" "n = Min (bm_mem (wl s e))" and at: "task_at s n t"
  shows "snd (OSMboxPost (Some e) m s) = OS_ERR_NONE \<and>
    bm_mem (wl (fst (OSMboxPost (Some e) m s)) e) = bm_mem (wl s e) - {n} \<and>
    (\<not> suspended (OSTCBTbl s t) \<longrightarrow> n \<in> bm_mem (rdy (fst (OSMboxPost (Some e) m s)))) \<and>
    (\<forall>u. cur u = t \<and>
       OSTCBStatPend (OSTCBTbl u t) = OSTCBStatPend (OSTCBTbl (fst (OSMboxPost (Some e) m s)) t) \<and>
       OSTCBMsg (OSTCBTbl u t) = OSTCBMsg (OSTCBTbl (fst (OSMboxPost (Some e) m s)) t) \<longrightarrow>
       snd (OSMboxPend_resume e u) = (m, OS_ERR_NONE))"
proof -
  have m3: "\<not> bit (OS_STAT_MBOX :: INT8U) 3" by simp
  note h = hand_over [OF inv n(1) at [unfolded n(2)] m3, of m OS_STAT_PEND_OK]
  have "OSEventGrp (OSEvents s e) \<noteq> 0" using grp_nonzero_iff [OF inv] n(1) by blast
  then have p: "OSMboxPost (Some e) m s =
      (OS_Sched (fst (OS_EventTaskRdy e m OS_STAT_MBOX OS_STAT_PEND_OK s)), OS_ERR_NONE)"
    using ty m by (simp add: OSMboxPost_def)
  show ?thesis by (simp add: p h n(2)) (auto simp: OSMboxPend_resume_def Let_def h)
qed

section \<open>The theorems on a concrete state\<close>

lemma ex_mbox_abs: "mbox_abs (ex_os OS_EVENT_TYPE_MBOX w) 0 = (None, if w then {5} else {})"
  by (simp add: mbox_abs_def)

lemma OSMboxPost_refines_witness:
  "mbox_abs (fst (OSMboxPost (Some 0) (AppP 9) (ex_os OS_EVENT_TYPE_MBOX False))) 0 = (Some (AppP 9), {})"
  using OSMboxPost_refines [OF ex_kernel_inv, of OS_EVENT_TYPE_MBOX False 0 "AppP 9"]
  by (simp add: ex_mbox_abs amb_post_def)

lemma OSMboxPend_refines_witness:
  "mbox_abs (fst (OSMboxPend (Some 0) 0 (ex_os OS_EVENT_TYPE_MBOX True))) 0 = (None, {5, 10})"
  using OSMboxPend_refines [OF ex_pre_inv, of OS_EVENT_TYPE_MBOX "PendMbox 0" True 0 0]
  by (simp add: ex_mbox_abs amb_pend_def insert_commute)

lemma OSMboxPost_hands_over_witness:
  "5 \<in> bm_mem (rdy (fst (OSMboxPost (Some 0) (AppP 9) (ex_os OS_EVENT_TYPE_MBOX True))))"
  using OSMboxPost_hands_over [OF ex_kernel_inv _ _ ex_top_waiter, of OS_EVENT_TYPE_MBOX "AppP 9"]
    ex_not_suspended [of OS_EVENT_TYPE_MBOX True] by simp

end
