(* ===== verification/UCOS_Move.thy ===== *)
theory UCOS_Move
  imports UCOS_TaskCtl UCOS_Example
begin

text \<open>
  Moving a task to another priority: its bits in the ready list and in the wait lists, its entry of the
  priority table and its coordinates, as \<open>OSTaskChangePrio\<close> and the mutexes do.
\<close>

section \<open>One bitmap\<close>

definition bm_moved :: "nat \<Rightarrow> nat \<Rightarrow> bitmap \<Rightarrow> bitmap \<Rightarrow> bool" where
  "bm_moved m n b b' \<longleftrightarrow> bm_ok b' \<and>
     (\<forall>k. k \<in> bm_mem b' \<longleftrightarrow> (if k = n then m \<in> bm_mem b else k \<noteq> m \<and> k \<in> bm_mem b))"

lemma bm_moved_same: "bm_ok b \<Longrightarrow> m \<notin> bm_mem b \<Longrightarrow> n \<notin> bm_mem b \<Longrightarrow> bm_moved m n b b"
  by (auto simp: bm_moved_def)

lemma bm_moved_move:
  assumes "bm_ok b" and "m \<in> bm_mem b" and "n < 64" and "n \<noteq> m"
  shows "bm_moved m n b (bm_ins n (bm_del m b))"
  using assms bm_mem_less [OF assms(2)]
  by (auto simp: bm_moved_def bm_ok_ins bm_ok_del bm_mem_ins bm_mem_del)

lemma bm_move_xy: "xy_ok p \<Longrightarrow> xy_ok q \<Longrightarrow> bm_move p q b = bm_ins (prio_of q) (bm_del (prio_of p) b)"
  by (simp add: bm_move_def bm_set_xy bm_clear_xy)

lemma row_bit_iff:
  assumes "xy_ok p"
  shows "(snd b ! unat (OSTCBY p) AND OSTCBBitX p \<noteq> 0) \<longleftrightarrow> prio_of p \<in> bm_mem b"
  using xy_okD [OF assms] by (simp add: bm_mem_def and_exp_eq_0_iff_not_bit)

lemma set_prio_xy_fields:
  "xy_ok (set_prio_xy prio p) \<longleftrightarrow> unat prio < 64" "OSTCBPrio (set_prio_xy prio p) = prio"
  "tcb_sync (set_prio_xy prio p) = tcb_sync p" "OSTCBNext (set_prio_xy prio p) = OSTCBNext p"
  "OSTCBPrev (set_prio_xy prio p) = OSTCBPrev p"
  by (simp_all add: set_prio_xy_def Let_def xy_ok_def tcb_sync_def)

section \<open>The kernel\<close>

text \<open>
  Task \<open>t\<close> goes from priority \<open>m\<close> to priority \<open>n\<close>, which belongs to nobody else.
\<close>

definition moves :: "nat \<Rightarrow> nat \<Rightarrow> nat \<Rightarrow> os \<Rightarrow> os \<Rightarrow> bool" where
  "moves m n t s s' \<longleftrightarrow>
     (\<forall>k. k \<noteq> m \<and> k \<noteq> n \<longrightarrow> OSTCBPrioTbl s' k = OSTCBPrioTbl s k) \<and>
     OSTCBPrioTbl s' n = TCB t \<and> (\<forall>u. OSTCBPrioTbl s' m = TCB u \<longrightarrow> u = t) \<and>
     (\<forall>u. u \<noteq> t \<longrightarrow> same_task (OSTCBTbl s' u) (OSTCBTbl s u)) \<and>
     xy_ok (OSTCBTbl s' t) \<and> prio_of (OSTCBTbl s' t) = n \<and> tcb_sync (OSTCBTbl s' t) = tcb_sync (OSTCBTbl s t) \<and>
     OSTCBNext (OSTCBTbl s' t) = OSTCBNext (OSTCBTbl s t) \<and> OSTCBPrev (OSTCBTbl s' t) = OSTCBPrev (OSTCBTbl s t) \<and>
     bm_moved m n (rdy s) (rdy s') \<and> (\<forall>e. bm_moved m n (wl s e) (wl s' e)) \<and>
     event_type s' = event_type s"

lemma movesD:
  assumes "moves m n t s s'"
  shows "k \<noteq> m \<Longrightarrow> k \<noteq> n \<Longrightarrow> OSTCBPrioTbl s' k = OSTCBPrioTbl s k"
    and "OSTCBPrioTbl s' n = TCB t" and "OSTCBPrioTbl s' m = TCB u \<Longrightarrow> u = t"
    and "u \<noteq> t \<Longrightarrow> same_task (OSTCBTbl s' u) (OSTCBTbl s u)"
    and "xy_ok (OSTCBTbl s' t)" and "prio_of (OSTCBTbl s' t) = n"
    and "tcb_sync (OSTCBTbl s' u) = tcb_sync (OSTCBTbl s u)"
    and "OSTCBNext (OSTCBTbl s' u) = OSTCBNext (OSTCBTbl s u)"
    and "bm_ok (rdy s')" and "k \<in> bm_mem (rdy s') \<longleftrightarrow> (if k = n then m \<in> bm_mem (rdy s) else k \<noteq> m \<and> k \<in> bm_mem (rdy s))"
    and "bm_ok (wl s' e)"
    and "waits_on s' k = (if k = n then waits_on s m else if k = m then {} else waits_on s k)"
    and "event_type s' = event_type s" and "OSTCBPrev (OSTCBTbl s' u) = OSTCBPrev (OSTCBTbl s u)"
proof -
  show "OSTCBPrev (OSTCBTbl s' u) = OSTCBPrev (OSTCBTbl s u)" "tcb_sync (OSTCBTbl s' u) = tcb_sync (OSTCBTbl s u)" "OSTCBNext (OSTCBTbl s' u) = OSTCBNext (OSTCBTbl s u)"
    using assms by (cases "u = t"; simp add: moves_def same_task_def tcb_coords_def)+
qed (use assms in \<open>auto simp: moves_def bm_moved_def waits_on_def\<close>)

lemma moves_task_at:
  assumes inv: "kernel_inv s" and at: "task_at s m t" and free: "\<And>u. OSTCBPrioTbl s n = TCB u \<Longrightarrow> u = t"
    and mv: "moves m n t s s'" and n: "n < 64"
  shows "task_at s' k u \<longleftrightarrow> (if u = t then k = n else task_at s k u)"
proof (cases "u = t")
  case True
  then show ?thesis using movesD(2,6) [OF mv] n by (auto simp: task_at_def)
next
  case False
  then have p: "prio_of (OSTCBTbl s' u) = prio_of (OSTCBTbl s u)" using movesD(4) [OF mv] by (intro same_task_prio) simp
  have "OSTCBPrioTbl s' k = TCB u \<longleftrightarrow> OSTCBPrioTbl s k = TCB u"
  proof (cases "k = m \<or> k = n")
    case True
    then show ?thesis using movesD(2,3) [OF mv] free at False by (auto simp: task_at_def)
  next
    case False
    then show ?thesis using movesD(1) [OF mv] by simp
  qed
  then show ?thesis using False p by (simp add: task_at_def)
qed

lemma moves_kernel_inv:
  assumes inv: "kernel_inv s" and at: "task_at s m t" and free: "\<And>u. OSTCBPrioTbl s n = TCB u \<Longrightarrow> u = t"
    and mv: "moves m n t s s'" and n: "n < 64" "n \<noteq> m" and idle: "m \<noteq> 63"
  shows "kernel_inv s'"
proof -
  note D = movesD [OF mv] and T = moves_task_at [OF inv at free mv n(1)]
  have mu: "u = t" if "task_at s m u" for u using that at task_at_unique by blast
  have nu: "u = t" if "task_at s n u" for u using that free by (simp add: task_at_def)
  have mt: "k = m" if "task_at s k t" for k using that at by (simp add: task_at_def)
  have nn: "\<not> task_at s n u" for u using nu [of u] mt [of n] n(2) by blast
  have "task_ok (k \<in> bm_mem (rdy s')) (waits_on s' k) (event_type s') (OSTCBTbl s' u)" if u: "task_at s' k u" for k u
  proof -
    obtain k0 where k0: "task_at s k0 u" and r: "(k \<in> bm_mem (rdy s')) = (k0 \<in> bm_mem (rdy s))"
      and w: "waits_on s' k = waits_on s k0"
    proof (cases "u = t")
      case True
      then have "k = n" using u T by simp
      then show ?thesis using that [of m] at True by (simp add: D(10,12))
    next
      case False
      then have su: "task_at s k u" using u T by simp
      then have "k \<noteq> m" "k \<noteq> n" using mu nn False by blast+
      then show ?thesis using that [OF su] by (simp add: D(10,12))
    qed
    show ?thesis unfolding r w D(13) task_ok_cong [OF D(7)] by (rule kernel_invD(6) [OF inv k0])
  qed
  moreover have "xy_ok (OSTCBTbl s' u) \<and> OSTCBPrioTbl s' (prio_of (OSTCBTbl s' u)) = TCB u"
    if k: "k < 64" "OSTCBPrioTbl s' k = TCB u" for k u
  proof (cases "u = t")
    case True
    then show ?thesis using D(2,5,6) by simp
  next
    case False
    then have "k \<noteq> m" "k \<noteq> n" using D(2,3) k(2) by auto
    then have su: "OSTCBPrioTbl s k = TCB u" using D(1) k(2) by simp
    have st: "same_task (OSTCBTbl s' u) (OSTCBTbl s u)" using D(4) [OF False] .
    have a: "task_at s (prio_of (OSTCBTbl s u)) u" using task_at_prio_tbl [OF inv k(1) su] .
    have "xy_ok (OSTCBTbl s' u) = xy_ok (OSTCBTbl s u)" by (rule xy_ok_cong) (use st in \<open>simp add: same_task_def\<close>)
    then have "xy_ok (OSTCBTbl s' u)" using kernel_invD(3) [OF inv k(1) su] by simp
    moreover have "task_at s' (prio_of (OSTCBTbl s u)) u" using a T False by simp
    ultimately show ?thesis using same_task_prio [OF st] by (simp add: task_at_def)
  qed
  moreover have "\<exists>u. task_at s' k u" if "k \<in> bm_mem (rdy s') \<or> waits_on s' k \<noteq> {}" for k
  proof (cases "k = n")
    case True
    then show ?thesis using T by auto
  next
    case False
    then have "k \<noteq> m" "k \<in> bm_mem (rdy s) \<or> waits_on s k \<noteq> {}" using that by (auto simp: D(10,12) split: if_splits)
    then obtain u where u: "task_at s k u" using inv unfolding kernel_inv_def by blast
    then have "u \<noteq> t" using mt \<open>k \<noteq> m\<close> by blast
    then show ?thesis using T u by auto
  qed
  moreover have "63 \<in> bm_mem (rdy s')"
  proof -
    obtain x where x: "task_at s 63 x" using kernel_invD(4,7) [OF inv] by blast
    then have "n \<noteq> 63" using nn by blast
    then show ?thesis using kernel_invD(7) [OF inv] idle by (simp add: D(10))
  qed
  ultimately show ?thesis using D(9,11) by (auto simp: kernel_inv_def)
qed

text \<open>The task list, when the old entry of the priority table is given up.\<close>

lemma moves_task_list:
  assumes l: "task_list s ts" and inv: "kernel_inv s" and at: "task_at s m t"
    and free: "\<And>u. OSTCBPrioTbl s n \<noteq> TCB u" and mv: "moves m n t s s'" and n: "n < 64" "n \<noteq> m" and idle: "m \<noteq> 63"
    and old: "\<And>u. OSTCBPrioTbl s' m \<noteq> TCB u"
    and lst: "OSTCBList s' = OSTCBList s" "OSTCBFreeList s' = OSTCBFreeList s"
  shows "task_list s' ts"
proof -
  note D = movesD [OF mv]
  have T: "task_at s' k u \<longleftrightarrow> (if u = t then k = n else task_at s k u)" for k u
    using moves_task_at [OF inv at _ mv n(1)] free by blast
  have nx: "tcb_next s' = tcb_next s" "tcb_prev s' = tcb_prev s"
    by (intro ext; simp add: tcb_next_def tcb_prev_def D(8,14))+
  have pr: "prio_of (OSTCBTbl s' u) = (if u = t then n else prio_of (OSTCBTbl s u))" for u
    using D(4,6) same_task_prio by simp
  have p: "dpath (tcb_next s') (tcb_prev s') None (tcb_opt (OSTCBList s')) ts" "ts \<noteq> []" "OSTCBPrev (OSTCBTbl s' (hd ts)) = NullTCB"
    using l by (simp_all add: task_list_def nx lst D(14))
  have inl: "task_at s (prio_of (OSTCBTbl s u)) u" if "u \<in> set ts" for u using l that by (simp add: task_list_def)
  have tl: "t \<in> set ts" using l at by (auto simp: task_list_def)
  have pt: "prio_of (OSTCBTbl s t) = m" using at by (simp add: task_at_def)
  have ls: "prio_of (OSTCBTbl s (last ts)) = 63" using l by (simp add: task_list_def)
  then have "last ts \<noteq> t" using pt idle by auto
  then have a: "prio_of (OSTCBTbl s' (last ts)) = 63" using ls by (simp add: pr)
  have b: "\<forall>u\<in>set ts. task_at s' (prio_of (OSTCBTbl s' u)) u" using inl by (simp add: pr T)
  have c: "\<forall>k u. task_at s' k u \<longrightarrow> u \<in> set ts" using l tl by (auto simp: T task_list_def)
  have tb: "OSTCBPrioTbl s' k = TCB u \<Longrightarrow> (k = n \<and> u = t) \<or> (k \<noteq> m \<and> k \<noteq> n \<and> OSTCBPrioTbl s k = TCB u)" for k u
    using D(1,2) old by (cases "k = m"; cases "k = n") auto
  have "prio_of (OSTCBTbl s' u) = k" if "k < 64" "OSTCBPrioTbl s' k = TCB u" for k u
    using tb [OF that(2)]
  proof (elim disjE)
    assume "k = n \<and> u = t"
    then show ?thesis by (simp add: pr)
  next
    assume x: "k \<noteq> m \<and> k \<noteq> n \<and> OSTCBPrioTbl s k = TCB u"
    then have k: "prio_of (OSTCBTbl s u) = k" using l that(1) by (simp add: task_list_def)
    then have "u \<noteq> t" using pt x by auto
    then show ?thesis using k by (simp add: pr)
  qed
  then have d: "\<forall>k u. k < 64 \<and> OSTCBPrioTbl s' k = TCB u \<longrightarrow> prio_of (OSTCBTbl s' u) = k" by blast
  obtain fs where fs: "path (tcb_next s) (tcb_opt (OSTCBFreeList s)) fs" "\<forall>t\<in>set fs. \<forall>n<64. OSTCBPrioTbl s n \<noteq> TCB t"
    using l by (auto simp: task_list_def free_tcbs_def)
  have mlt: "m < 64" "OSTCBPrioTbl s m = TCB t" using at by (simp_all add: task_at_def)
  then have tf: "t \<notin> set fs" using fs(2) by auto
  have "OSTCBPrioTbl s' k \<noteq> TCB x" if "x \<in> set fs" "k < 64" for x k
    using tb [of k x] fs(2) that tf by auto
  then have "free_tcbs s' fs" using fs(1) by (simp add: free_tcbs_def nx lst)
  then show ?thesis using p a b c d unfolding task_list_def by blast
qed

section \<open>Change of priority\<close>

text \<open>What \<open>OSTaskChangePrio\<close> does to the task \<open>t\<close> before it calls the scheduler.\<close>

definition change_prio :: "nat \<Rightarrow> INT8U \<Rightarrow> INT8U \<Rightarrow> os \<Rightarrow> os" where
  "change_prio t oldprio newprio s =
     (let p = OSTCBTbl s t;
          q = set_prio_xy newprio p;
          s = set_prio_tbl newprio (TCB t) (set_prio_tbl oldprio NullTCB s);
          s = (if OSRdyTbl s ! unat (OSTCBY p) AND OSTCBBitX p \<noteq> 0
               then set_rdy (bm_move p q (rdy s)) s else s);
          s = (case OSTCBEventPtr p of None \<Rightarrow> s
               | Some e \<Rightarrow> set_wl e (bm_move p q (wl s e)) s);
          s = (case OSTCBEventMultiPtr p of None \<Rightarrow> s | Some es \<Rightarrow> move_wl p q es s)
      in upd_tcb t (set_prio_xy newprio) s)"

lemma TaskChangePrio_eq:
  "OSTaskChangePrio oldprio newprio s =
     (if oldprio \<ge> OS_LOWEST_PRIO \<and> oldprio \<noteq> OS_PRIO_SELF then (s, OS_ERR_PRIO_INVALID)
      else if newprio \<ge> OS_LOWEST_PRIO then (s, OS_ERR_PRIO_INVALID)
      else if OSTCBPrioTbl s (unat newprio) \<noteq> NullTCB then (s, OS_ERR_PRIO_EXIST)
      else let oldprio = (if oldprio = OS_PRIO_SELF then OSTCBPrio (OSTCBTbl s (cur s)) else oldprio)
           in case OSTCBPrioTbl s (unat oldprio) of
                NullTCB \<Rightarrow> (s, OS_ERR_PRIO)
              | OS_TCB_RESERVED \<Rightarrow> (s, OS_ERR_TASK_NOT_EXIST)
              | TCB t \<Rightarrow>
                  let s' = change_prio t oldprio newprio s
                  in (if OSRunning s' then OS_Sched s' else s', OS_ERR_NONE))"
  unfolding OSTaskChangePrio_def change_prio_def Let_def by (rule refl)

lemma move_wl_frame:
  "rdy (move_wl p q es s) = rdy s" "OSTCBTbl (move_wl p q es s) = OSTCBTbl s" "only_lists s (move_wl p q es s)"
  by (induction es arbitrary: s) (auto intro: only_lists_trans [OF only_lists_prims(3)])

lemma move_wl_mem:
  assumes "xy_ok p" and "xy_ok q" and "\<And>e. bm_ok (wl s e)"
  shows "bm_ok (wl (move_wl p q es s) e) \<and> bm_mem (wl (move_wl p q es s) e) =
    (if e \<in> set es then insert (prio_of q) (bm_mem (wl s e) - {prio_of p}) else bm_mem (wl s e))"
  using assms(3)
proof (induction es arbitrary: s)
  case Nil
  then show ?case by simp
next
  case (Cons d es)
  have l: "prio_of p < 64" "prio_of q < 64" using xy_okD assms(1,2) by blast+
  let ?s = "set_wl d (bm_move p q (wl s d)) s"
  have "bm_ok (wl ?s e)" for e
    using Cons.prems l by (simp add: bm_move_xy [OF assms(1,2)] bm_ok_ins bm_ok_del)
  from Cons.IH [OF this] show ?case
    using Cons.prems l by (auto simp: bm_move_xy [OF assms(1,2)] bm_mem_ins bm_mem_del bm_ok_del)
qed

lemma bm_moved_mem:
  assumes "bm_ok b'" and "bm_mem b' = (if m \<in> bm_mem b then insert n (bm_mem b - {m}) else bm_mem b)"
    and "n \<notin> bm_mem b" and "n \<noteq> m"
  shows "bm_moved m n b b'"
  using assms by (auto simp: bm_moved_def split: if_splits)

lemma change_prio_effect:
  assumes inv: "pre_inv k s" and at: "task_at s m t" and m: "unat oldprio = m" and n: "unat newprio = n"
    and n64: "n < 64" and nn: "n \<noteq> m" and free: "OSTCBPrioTbl s n = NullTCB"
  defines "s' \<equiv> change_prio t oldprio newprio s"
  shows "moves m n t s s'" and "only_lists (s\<lparr>OSTCBPrioTbl := (OSTCBPrioTbl s)(m := NullTCB, n := TCB t)\<rparr>) s'"
proof -
  note i = pre_invD [OF inv]
  define p where "p = OSTCBTbl s t"
  define q where "q = set_prio_xy newprio p"
  define s0 where "s0 = s\<lparr>OSTCBPrioTbl := (OSTCBPrioTbl s)(m := NullTCB, n := TCB t)\<rparr>"
  define s1 where "s1 = (if m \<in> bm_mem (rdy s) then set_rdy (bm_move p q (rdy s)) s0 else s0)"
  define s2 where "s2 = move_wl p q (case OSTCBEventPtr p of None \<Rightarrow> [] | Some e \<Rightarrow> [e]) s1"
  define s3 where "s3 = move_wl p q (case OSTCBEventMultiPtr p of None \<Rightarrow> [] | Some es \<Rightarrow> es) s2"
  have xp: "xy_ok p" and pp: "prio_of p = m" and m64: "m < 64"
    using task_at_xy [OF i(1) at] at by (simp_all add: p_def task_at_def)
  have xq: "xy_ok q" and pq: "prio_of q = n" using n n64 by (simp_all add: q_def set_prio_xy_fields)
  have st: "tcb_sync q = tcb_sync p" "OSTCBNext q = OSTCBNext p" "OSTCBPrev q = OSTCBPrev p" by (simp_all add: q_def set_prio_xy_fields)
  have s0: "rdy s0 = rdy s" "wl s0 e = wl s e" "OSTCBTbl s0 = OSTCBTbl s" for e
    by (simp_all add: s0_def rdy_def wl_def)
  have e: "s' = upd_tcb t (set_prio_xy newprio) s3"
  proof -
    have "set_prio_tbl newprio (TCB t) (set_prio_tbl oldprio NullTCB s) = s0"
      by (simp add: set_prio_tbl_def s0_def m n)
    moreover have "(OSRdyTbl s0 ! unat (OSTCBY p) AND OSTCBBitX p \<noteq> 0) = (m \<in> bm_mem (rdy s))"
      using row_bit_iff [OF xp, of "rdy s0"] pp by (simp add: s0) (simp add: s0_def rdy_def)
    ultimately show ?thesis
      unfolding s'_def change_prio_def Let_def p_def [symmetric] q_def [symmetric]
      by (simp add: s1_def s2_def s3_def s0 split: option.split)
  qed
  have o1: "only_lists s0 s1" by (simp add: s1_def)
  have "only_lists s0 s2" unfolding s2_def by (rule only_lists_trans [OF o1 move_wl_frame(3)])
  then have o3: "only_lists s0 s3" unfolding s3_def by (rule only_lists_trans [OF _ move_wl_frame(3)])
  show o: "only_lists (s\<lparr>OSTCBPrioTbl := (OSTCBPrioTbl s)(m := NullTCB, n := TCB t)\<rparr>) s'"
    unfolding e s0_def [symmetric] by (rule only_lists_trans [OF o3]) simp
  have tcb: "OSTCBTbl s' = (OSTCBTbl s)(t := q)"
    by (simp add: e s3_def s2_def move_wl_frame s1_def s0 q_def p_def)
  have ntask: "\<not> task_at s n u" for u using free by (simp add: task_at_def)
  have nr: "n \<notin> bm_mem (rdy s)" "n \<notin> bm_mem (wl s d)" for d
    using ntask kernel_invD(4,5) [OF i(1)] by blast+
  have rd: "rdy s' = (if m \<in> bm_mem (rdy s) then bm_ins n (bm_del m (rdy s)) else rdy s)"
    by (simp add: e s3_def s2_def move_wl_frame s1_def s0 bm_move_xy [OF xp xq] pp pq)
  have r: "bm_moved m n (rdy s) (rdy s')"
  proof (cases "m \<in> bm_mem (rdy s)")
    case True
    show ?thesis unfolding rd if_P [OF True] by (rule bm_moved_move [OF kernel_invD(1) [OF i(1)] True n64 nn])
  next
    case False
    show ?thesis unfolding rd if_not_P [OF False] by (rule bm_moved_same [OF kernel_invD(1) [OF i(1)] False nr(1)])
  qed
  have aw: "m \<in> bm_mem (wl s d) \<longleftrightarrow> d \<in> awaited p" for d
    using kernel_invD(6) [OF i(1) at] by (auto simp: task_ok_def waits_on_def p_def)
  have w1: "wl s1 d = wl s d" for d by (simp add: s1_def s0)
  note okw = kernel_invD(2) [OF i(1)]
  have ok2: "bm_ok (wl s2 d)" for d using move_wl_mem [OF xp xq] okw by (simp add: s2_def w1)
  have w: "bm_moved m n (wl s d) (wl s' d)" for d
  proof (rule bm_moved_mem)
    show "bm_ok (wl s' d)" using move_wl_mem [OF xp xq ok2] by (simp add: e s3_def)
    have mp: "OSTCBEventPtr p = None" if "OSTCBEventMultiPtr p \<noteq> None"
      using kernel_invD(6) [OF i(1) at] that by (simp add: task_ok_def p_def)
    have m2: "bm_mem (wl s2 d) = (if OSTCBEventPtr p = Some d then insert n (bm_mem (wl s d) - {m}) else bm_mem (wl s d))"
      using move_wl_mem [OF xp xq, of s1] okw by (simp add: s2_def w1 pp pq split: option.split)
    have m3: "bm_mem (wl s3 d) = (if d \<in> set (case OSTCBEventMultiPtr p of None \<Rightarrow> [] | Some es \<Rightarrow> es)
        then insert n (bm_mem (wl s2 d) - {m}) else bm_mem (wl s2 d))"
      using move_wl_mem [OF xp xq ok2] unfolding s3_def pp pq by blast
    show "bm_mem (wl s' d) = (if m \<in> bm_mem (wl s d) then insert n (bm_mem (wl s d) - {m}) else bm_mem (wl s d))"
      using mp unfolding e wl_simps m3 m2 aw awaited_def by (cases "OSTCBEventMultiPtr p") auto
  qed (use nr nn in simp_all)
  have ol: "event_type s' = event_type s"
    using same_kernelD(2) [OF only_lists_kernel(1) [OF o]] by (simp add: fun_eq_iff)
  have pt: "OSTCBPrioTbl s' = (OSTCBPrioTbl s)(m := NullTCB, n := TCB t)"
    using only_lists_global(1) [OF o] by simp
  show "moves m n t s s'"
    unfolding moves_def pt tcb using nn xq pq st r w ol by (simp add: p_def)
qed

lemma free_events_frame:
  assumes "free_events_ok s" and "OSEvents s' = OSEvents s" and "OSEventFreeList s' = OSEventFreeList s"
  shows "free_events_ok s'"
proof -
  have "event_next s' = event_next s" by (intro ext) (simp add: event_next_def assms(2))
  with assms show ?thesis by (simp add: free_events_ok_def event_pool.holds_def)
qed

text \<open>
  When the running task is moved, \<open>OSPrioCur\<close> keeps its old priority until the next switch.  In the
  state in which it is corrected the invariant holds.
\<close>

lemma change_prio_pre_inv:
  assumes inv: "pre_inv k s" and at: "task_at s m t" and m: "unat oldprio = m" and n: "unat newprio = n"
    and n64: "n < 64" and free: "OSTCBPrioTbl s n = NullTCB" and idle: "m \<noteq> 63"
  defines "s' \<equiv> change_prio t oldprio newprio s"
  defines "u \<equiv> s'\<lparr>OSPrioCur := if t = cur s then newprio else OSPrioCur s\<rparr>"
  shows "pre_inv k u" and "m \<notin> bm_mem (rdy s')"
proof -
  note i = pre_invD [OF inv]
  have nn: "n \<noteq> m" using free at by (auto simp: task_at_def)
  note c = change_prio_effect [OF inv at m n n64 nn free, folded s'_def]
  note g = only_lists_global [OF c(2)]
  have f: "rdy u = rdy s'" "wl u e = wl s' e" "OSTCBTbl u = OSTCBTbl s'" "OSTCBPrioTbl u = OSTCBPrioTbl s'"
    "OSEvents u = OSEvents s'" "OSTCBList u = OSTCBList s" "OSTCBFreeList u = OSTCBFreeList s" "cur u = cur s"
    "OSTCBCur u = OSTCBCur s" "OSRunning u = OSRunning s" "OSLockNesting u = OSLockNesting s"
    "OSEventFreeList u = OSEventFreeList s" for e
    using g by (simp_all add: u_def rdy_def wl_def)
  have pc: "OSPrioCur u = (if t = cur s then newprio else OSPrioCur s)" by (simp add: u_def)
  have mv: "moves m n t s u" using c(1) by (simp add: moves_def f)
  note D = movesD [OF mv]
  have T: "task_at u a b \<longleftrightarrow> (if b = t then a = n else task_at s a b)" for a b
    by (rule moves_task_at [OF i(1) at _ mv n64]) (use free in simp)
  show "m \<notin> bm_mem (rdy s')" using movesD(10) [OF c(1), of m] nn by simp
  have "kernel_inv u"
    by (rule moves_kernel_inv [OF i(1) at _ mv n64 nn idle]) (use free in simp)
  moreover have "conts_ok k u"
    unfolding conts_ok_def
  proof (intro allI impI)
    fix a b assume ab: "task_at u a b"
    obtain a0 where a0: "task_at s a0 b" "waits_on u a = waits_on s a0"
    proof (cases "b = t")
      case True
      then show ?thesis using ab at that [of m] by (simp add: T D(12))
    next
      case False
      then have "task_at s a b" using ab by (simp add: T)
      moreover from this have "a \<noteq> m" "a \<noteq> n" using at False free task_at_unique by (auto simp: task_at_def)
      ultimately show ?thesis using that [of a] by (simp add: D(12))
    qed
    show "cont_ok (k b) (waits_on u a) (OSTCBTbl u b)"
      unfolding a0(2) cont_ok_cong [OF D(7)] by (rule i(8) [OF a0(1)])
  qed
  moreover have "cur_ok u"
    using i(6,7) n by (auto simp: cur_ok_def T f pc)
  moreover have "free_events_ok u"
  proof -
    have "free_events_ok (s\<lparr>OSTCBPrioTbl := (OSTCBPrioTbl s)(m := NullTCB, n := TCB t)\<rparr>)"
      by (rule free_events_frame [OF i(4)]) simp_all
    from free_events_cong [OF this only_lists_kernel(1) [OF c(2)]] have "free_events_ok s'" .
    then show ?thesis by (rule free_events_frame) (simp_all add: u_def)
  qed
  moreover have "\<exists>ts. task_list u ts"
  proof -
    obtain ts where "task_list s ts" using i(10) by blast
    from moves_task_list [OF this i(1) at _ mv n64 nn idle] have "task_list u ts"
      using free nn by (simp add: f g(1))
    then show ?thesis by blast
  qed
  ultimately show "pre_inv k u" using i(5,9) by (simp add: pre_inv_def f)
qed

text \<open>A switch from a state whose \<open>OSPrioCur\<close> is an old priority, or whose current task is gone.\<close>

lemma Switch_stale:
  assumes inv: "pre_inv k (s\<lparr>OSPrioCur := q, OSTCBCur := c\<rparr>)" and lock: "OSIntNesting s = 0" "OSLockNesting s = 0"
    and old: "unat (OSPrioCur s) \<notin> bm_mem (rdy s)"
  shows "sys_inv k (OS_Sched s)"
proof -
  let ?u = "s\<lparr>OSPrioCur := q, OSTCBCur := c\<rparr>"
  note i = pre_invD [OF inv]
  have r: "rdy ?u = rdy s" by (simp add: rdy_def)
  have t: "OSTCBPrioTbl s (unat q) = c" using i(6,7) by (simp add: task_at_def)
  have "bm_mem (rdy s) \<noteq> {}" using kernel_invD(7) [OF i(1)] by (auto simp: r)
  then have "unat (bm_top (rdy s)) \<in> bm_mem (rdy s)"
    using bm.top_eq_Min [of "rdy s"] kernel_invD(1) [OF i(1)] by (simp add: r Min_in)
  then have nt: "bm_top (rdy s) \<noteq> OSPrioCur s" using old by auto
  have S: "OS_Sched s = OS_SwitchHighRdy s" "OS_Sched ?u = OS_SwitchHighRdy ?u" using lock by (simp_all add: OS_Sched_def)
  have st: "same_task (OSTCBTbl (OS_SwitchHighRdy s) x) (OSTCBTbl (OS_SwitchHighRdy ?u) x)" for x
    using Switch_frame(9) [of s x] Switch_frame(9) [of ?u x] by (simp add: same_task_def)
  have "quiet (OS_SwitchHighRdy ?u) (OS_SwitchHighRdy s)"
    using st t nt same_kernelD [OF Switch_frame(8) [of s]] same_kernelD [OF Switch_frame(8) [of ?u]]
    by (auto simp: quiet_def same_run_def same_kernel_def Switch_run Switch_frame(1-4) r) (simp_all add: wl_def)
  from quiet_sys_inv [OF _ this] Sched_sys_inv [OF inv] show ?thesis by (simp add: S)
qed

lemma TaskChangePrio_sys_inv:
  assumes inv: "sys_inv k s" and idle: "oldprio = OS_PRIO_SELF \<Longrightarrow> unat (OSPrioCur s) \<noteq> 63"
    and who: "OSIntNesting s = 0 \<and> OSLockNesting s = 0 \<or> oldprio \<noteq> OS_PRIO_SELF \<and> oldprio \<noteq> OSPrioCur s"
  shows "sys_inv k (fst (OSTaskChangePrio oldprio newprio s))"
proof -
  let ?cp = "OSTCBPrio (OSTCBTbl s (cur s))"
  define q where "q = (if oldprio = OS_PRIO_SELF then ?cp else oldprio)"
  note inv' = sys_invD(1) [OF inv]
  note i = pre_invD [OF inv']
  have cp: "?cp = OSPrioCur s" using i(6) by (auto simp: task_at_def intro: word_unat_eq_iff [THEN iffD2])
  show ?thesis
  proof (cases "(oldprio \<ge> 63 \<and> oldprio \<noteq> 255) \<or> newprio \<ge> 63 \<or> OSTCBPrioTbl s (unat newprio) \<noteq> NullTCB \<or>
      (\<forall>t. OSTCBPrioTbl s (unat q) \<noteq> TCB t)")
    case True
    then have "fst (OSTaskChangePrio oldprio newprio s) = s"
      unfolding TaskChangePrio_eq Let_def q_def [symmetric] by (auto split: tcb_ptr.split)
    with inv show ?thesis by simp
  next
    case False
    then obtain t where t: "OSTCBPrioTbl s (unat q) = TCB t" by blast
    have n: "unat newprio < 64" "OSTCBPrioTbl s (unat newprio) = NullTCB"
      using False by (auto simp: word_le_nat_alt)
    have q64: "unat q < 64 \<and> unat q \<noteq> 63"
    proof (cases "oldprio = 255")
      case True
      then show ?thesis using idle cp i(6) by (simp add: q_def task_at_def)
    next
      case pr: False
      then have "unat oldprio < 63" using False by (simp add: word_le_nat_alt)
      then show ?thesis using pr by (simp add: q_def)
    qed
    then have at: "task_at s (unat q) t" using prio_tbl_task_at [OF inv' _ t] by simp
    let ?s = "change_prio t q newprio s"
    note c = change_prio_pre_inv [OF inv' at refl refl n conjunct2 [OF q64]]
    have "unat newprio \<noteq> unat q" using n(2) t by auto
    note g = only_lists_global [OF change_prio_effect(2) [OF inv' at refl refl n(1) this n(2)]]
    have e: "fst (OSTaskChangePrio oldprio newprio s) = OS_Sched ?s"
      using False t g(6) i(9) unfolding TaskChangePrio_eq Let_def q_def [symmetric] by auto
    show ?thesis
    proof (cases "t = cur s")
      case True
      then have "unat q = unat (OSPrioCur s)" using at i(6) by (simp add: task_at_def)
      then have "q = OSPrioCur s" by (simp add: word_unat_eq_iff)
      then have l: "OSIntNesting s = 0" "OSLockNesting s = 0" using who cp by (auto simp: q_def split: if_splits)
      have "pre_inv k (?s\<lparr>OSPrioCur := newprio, OSTCBCur := OSTCBCur ?s\<rparr>)" using c(1) True by simp
      then show ?thesis
        unfolding e by (rule Switch_stale) (use c(2) g(2,3,5) l \<open>q = OSPrioCur s\<close> in simp_all)
    next
      case False
      then have "?s\<lparr>OSPrioCur := OSPrioCur s\<rparr> = ?s" using g(5) by simp
      then show ?thesis unfolding e using Sched_sys_inv c(1) False by simp
    qed
  qed
qed

text \<open>C19: \<open>OSTaskChangePrio\<close> moves the task and nothing else: at the new priority it is ready exactly when it
  was ready at the old one, and waits for exactly the events it waited for; the old priority is free, and every
  other task keeps its priority, its readiness and its place in the wait lists.\<close>

theorem OSTaskChangePrio_moves:
  assumes inv: "sys_inv k s" and at: "task_at s (unat old) t" and p: "old < 63" "new < 63"
    and free: "OSTCBPrioTbl s (unat new) = NullTCB"
  shows "snd (OSTaskChangePrio old new s) = OS_ERR_NONE \<and>
    (let s' = fst (OSTaskChangePrio old new s)
     in OSTCBPrioTbl s' = (OSTCBPrioTbl s)(unat old := NullTCB, unat new := TCB t) \<and>
        (\<forall>n u. task_at s' n u \<longleftrightarrow> (if u = t then n = unat new else task_at s n u)) \<and>
        (\<forall>n. n \<in> bm_mem (rdy s') \<longleftrightarrow>
           (if n = unat new then unat old \<in> bm_mem (rdy s) else n \<noteq> unat old \<and> n \<in> bm_mem (rdy s))) \<and>
        (\<forall>n. waits_on s' n =
           (if n = unat new then waits_on s (unat old) else if n = unat old then {} else waits_on s n)))"
proof -
  note inv' = sys_invD(1) [OF inv]
  note i = pre_invD [OF inv']
  let ?s = "change_prio t old new s"
  have n: "unat new < 64" using p by (simp add: word_less_nat_alt)
  have nn: "unat new \<noteq> unat old" using free at by (auto simp: task_at_def)
  note c = change_prio_effect [OF inv' at refl refl n nn free]
  note D = movesD [OF c(1)]
  note g = only_lists_global [OF c(2)]
  have T: "task_at ?s a b \<longleftrightarrow> (if b = t then a = unat new else task_at s a b)" for a b
    by (rule moves_task_at [OF i(1) at _ c(1) n]) (use free in simp)
  have r: "OSTaskChangePrio old new s = (OS_Sched ?s, OS_ERR_NONE)"
    using p free at g(6) i(9) by (auto simp: TaskChangePrio_eq Let_def task_at_def)
  have w: "waits_on (OS_Sched ?s) m = waits_on ?s m" for m by (simp add: waits_on_def)
  have a: "task_at (OS_Sched ?s) a b = task_at ?s a b" for a b
    using same_task_prio [OF Sched_frame(9)] by (simp add: task_at_def)
  show ?thesis unfolding r fst_conv snd_conv Let_def a w T using g(1) D(10,12) by simp
qed

lemma OSTaskChangePrio_moves_witness:
  "waits_on (fst (OSTaskChangePrio 5 20 (ex_os OS_EVENT_TYPE_SEM True))) 20 = {0}"
  using OSTaskChangePrio_moves [OF ex_sys_inv [of OS_EVENT_TYPE_SEM "PendSem 0" True], of 5 1 20]
  by (simp add: ex_task_at Let_def ex_waits)

section \<open>The running task under the lock\<close>

text \<open>
  The running task, of priority 10, locks the scheduler, ends the delay of task 1, goes to priority 20,
  moves task 1 to priority 10 and unlocks the scheduler.
\<close>

definition change_prio_locked :: "os \<Rightarrow> os" where
  "change_prio_locked s =
     OSSchedUnlock (fst (OSTaskChangePrio 5 10 (fst (OSTaskChangePrio OS_PRIO_SELF 20
       (fst (OSTimeDlyResume 5 (OSSchedLock s)))))))"

text \<open>\<open>OSTaskChangePrio\<close> does not update \<open>OSPrioCur\<close>. When a task changes its own priority with the
  scheduler locked and another task gets the old priority, the scheduler takes the new one for the
  running task when the lock is released: here the scheduler is unlocked, task 1 of priority 10 is the
  ready task of highest priority, and task 0 of priority 20 goes on running.\<close>

theorem change_prio_locked_keeps_running:
  "sys_inv Map.empty (ex_os OS_EVENT_TYPE_SEM False) \<and>
   (let s = change_prio_locked (ex_os OS_EVENT_TYPE_SEM False)
    in OSLockNesting s = 0 \<and> OSIntNesting s = 0 \<and> bm_top (rdy s) = 10 \<and> OSTCBPrioTbl s 10 = TCB 1 \<and>
       OSTCBCur s = TCB 0 \<and> OSTCBPrio (OSTCBTbl s 0) = 20)"
proof
  show "sys_inv Map.empty (ex_os OS_EVENT_TYPE_SEM False)"
    using ex_sys_inv [of OS_EVENT_TYPE_SEM "PendSem 0" False] by (simp add: ex_conts_def)
qed code_simp

end
