(* ===== verification/UCOS_TaskDel.thy ===== *)
theory UCOS_TaskDel
  imports UCOS_Move UCOS_Create UCOS_Example
begin

text \<open>
  The deletion of a task: off the ready list and the wait lists, out of the priority table, out of
  the doubly linked task list and onto the free list.
\<close>

section \<open>The effect of a deletion\<close>

text \<open>
  \<open>drops_task n t s s'\<close>: task \<open>t\<close> of priority \<open>n\<close> is gone; of the other tasks only the links of
  the task list have changed.
\<close>

definition drops_task :: "nat \<Rightarrow> nat \<Rightarrow> os \<Rightarrow> os \<Rightarrow> bool" where
  "drops_task n t s s' \<longleftrightarrow>
     OSTCBPrioTbl s' = (OSTCBPrioTbl s)(n := NullTCB) \<and>
     (\<forall>u. u \<noteq> t \<longrightarrow> tcb_sync (OSTCBTbl s' u) = tcb_sync (OSTCBTbl s u) \<and>
        OSTCBPrio (OSTCBTbl s' u) = OSTCBPrio (OSTCBTbl s u) \<and> xy_ok (OSTCBTbl s' u) = xy_ok (OSTCBTbl s u)) \<and>
     bm_ok (rdy s') \<and> bm_mem (rdy s') = bm_mem (rdy s) - {n} \<and>
     (\<forall>e. bm_ok (wl s' e) \<and> bm_mem (wl s' e) = bm_mem (wl s e) - {n}) \<and>
     event_type s' = event_type s"

lemma drops_taskD:
  assumes "drops_task n t s s'"
  shows "OSTCBPrioTbl s' = (OSTCBPrioTbl s)(n := NullTCB)"
    and "u \<noteq> t \<Longrightarrow> tcb_sync (OSTCBTbl s' u) = tcb_sync (OSTCBTbl s u)"
    and "u \<noteq> t \<Longrightarrow> prio_of (OSTCBTbl s' u) = prio_of (OSTCBTbl s u)"
    and "u \<noteq> t \<Longrightarrow> xy_ok (OSTCBTbl s' u) = xy_ok (OSTCBTbl s u)"
    and "bm_ok (rdy s')" and "bm_mem (rdy s') = bm_mem (rdy s) - {n}"
    and "bm_ok (wl s' e)" and "waits_on s' m = (if m = n then {} else waits_on s m)"
    and "event_type s' = event_type s"
  using assms by (auto simp: drops_task_def waits_on_def)

lemma drops_task_at:
  assumes at: "task_at s n t" and tbl: "\<And>m u. m < 64 \<Longrightarrow> OSTCBPrioTbl s m = TCB u \<Longrightarrow> prio_of (OSTCBTbl s u) = m"
    and dr: "drops_task n t s s'"
  shows "task_at s' m u \<longleftrightarrow> u \<noteq> t \<and> task_at s m u"
proof (cases "u = t")
  case True
  have "m = n" if "OSTCBPrioTbl s m = TCB t" "m < 64" for m using tbl that at by (auto simp: task_at_def)
  then show ?thesis using True drops_taskD(1) [OF dr] by (auto simp: task_at_def)
next
  case False
  then have "m \<noteq> n" if "OSTCBPrioTbl s m = TCB u" using that at by (auto simp: task_at_def)
  then show ?thesis using False drops_taskD(1,3) [OF dr] by (auto simp: task_at_def)
qed

lemma drops_kernel_inv:
  assumes inv: "kernel_inv s" and at: "task_at s n t"
    and tbl: "\<And>m u. m < 64 \<Longrightarrow> OSTCBPrioTbl s m = TCB u \<Longrightarrow> prio_of (OSTCBTbl s u) = m"
    and dr: "drops_task n t s s'" and idle: "n \<noteq> 63"
  shows "kernel_inv s'"
proof -
  note D = drops_taskD [OF dr] and T = drops_task_at [OF at tbl dr]
  have mn: "m \<noteq> n" if "task_at s m u" "u \<noteq> t" for m u using that at task_at_unique by blast
  have "task_ok (m \<in> bm_mem (rdy s')) (waits_on s' m) (event_type s') (OSTCBTbl s' u)" if u: "task_at s' m u" for m u
  proof -
    have su: "u \<noteq> t" "task_at s m u" using u T by simp_all
    then have "m \<noteq> n" using mn by blast
    then have "(m \<in> bm_mem (rdy s')) = (m \<in> bm_mem (rdy s))" "waits_on s' m = waits_on s m" by (simp_all add: D(6,8))
    then show ?thesis unfolding D(9) task_ok_cong [OF D(2) [OF su(1)]] using kernel_invD(6) [OF inv su(2)] by simp
  qed
  moreover have "xy_ok (OSTCBTbl s' u) \<and> OSTCBPrioTbl s' (prio_of (OSTCBTbl s' u)) = TCB u"
    if m: "m < 64" "OSTCBPrioTbl s' m = TCB u" for m u
  proof -
    have mu: "m \<noteq> n" "OSTCBPrioTbl s m = TCB u" using m(2) D(1) by (auto split: if_splits)
    have "u \<noteq> t" using tbl [OF m(1)] mu at by (auto simp: task_at_def)
    moreover have "prio_of (OSTCBTbl s u) = m" using tbl m(1) mu(2) by blast
    ultimately show ?thesis using D(3,4) kernel_invD(3) [OF inv m(1) mu(2)] m(2) by simp
  qed
  moreover have "\<exists>u. task_at s' m u" if "m \<in> bm_mem (rdy s') \<or> waits_on s' m \<noteq> {}" for m
  proof -
    have m: "m \<noteq> n" "m \<in> bm_mem (rdy s) \<or> waits_on s m \<noteq> {}" using that by (auto simp: D(6,8) split: if_splits)
    then obtain u where u: "task_at s m u" using inv unfolding kernel_inv_def by blast
    then have "u \<noteq> t" using at m(1) by (auto simp: task_at_def)
    then show ?thesis using T u by blast
  qed
  moreover have "63 \<in> bm_mem (rdy s')" using kernel_invD(7) [OF inv] idle by (simp add: D(6))
  ultimately show ?thesis using D(5,7) by (auto simp: kernel_inv_def)
qed

text \<open>The links: \<open>t\<close> is unlinked from the task list and pushed onto the free list.\<close>

definition relinks :: "nat \<Rightarrow> os \<Rightarrow> os \<Rightarrow> bool" where
  "relinks t s s' \<longleftrightarrow>
     (\<forall>u. u \<noteq> t \<longrightarrow> OSTCBNext (OSTCBTbl s' u) =
        (if OSTCBPrev (OSTCBTbl s t) = TCB u then OSTCBNext (OSTCBTbl s t) else OSTCBNext (OSTCBTbl s u))) \<and>
     (\<forall>u. u \<noteq> t \<longrightarrow> OSTCBPrev (OSTCBTbl s' u) =
        (if OSTCBNext (OSTCBTbl s t) = TCB u then OSTCBPrev (OSTCBTbl s t) else OSTCBPrev (OSTCBTbl s u))) \<and>
     OSTCBList s' = (if OSTCBPrev (OSTCBTbl s t) = NullTCB then OSTCBNext (OSTCBTbl s t) else OSTCBList s) \<and>
     OSTCBNext (OSTCBTbl s' t) = OSTCBFreeList s \<and> OSTCBFreeList s' = TCB t"

lemma relinksD:
  assumes "relinks t s s'"
  shows "u \<noteq> t \<Longrightarrow> OSTCBNext (OSTCBTbl s' u) =
        (if OSTCBPrev (OSTCBTbl s t) = TCB u then OSTCBNext (OSTCBTbl s t) else OSTCBNext (OSTCBTbl s u))"
    and "u \<noteq> t \<Longrightarrow> OSTCBPrev (OSTCBTbl s' u) =
        (if OSTCBNext (OSTCBTbl s t) = TCB u then OSTCBPrev (OSTCBTbl s t) else OSTCBPrev (OSTCBTbl s u))"
    and "OSTCBList s' = (if OSTCBPrev (OSTCBTbl s t) = NullTCB then OSTCBNext (OSTCBTbl s t) else OSTCBList s)"
    and "OSTCBNext (OSTCBTbl s' t) = OSTCBFreeList s" and "OSTCBFreeList s' = TCB t"
  using assms by (auto simp: relinks_def)

lemma remove1_last:
  assumes "x \<in> set xs" and "last xs \<noteq> x"
  shows "remove1 x xs \<noteq> [] \<and> last (remove1 x xs) = last xs"
proof -
  from assms obtain ys where "xs = ys @ [last xs]" by (metis append_butlast_last_id list.set_cases list.distinct(1))
  moreover from this assms have "x \<in> set ys" by (metis UnE empty_iff empty_set set_ConsD set_append)
  ultimately have "remove1 x xs = remove1 x ys @ [last xs]" by (metis remove1_append)
  then show ?thesis by simp
qed

lemma relinks_list:
  assumes d: "dpath (tcb_next s) (tcb_prev s) None (tcb_opt (OSTCBList s)) ts"
    and h: "OSTCBPrev (OSTCBTbl s (hd ts)) = NullTCB" and tt: "t \<in> set ts" and lt: "last ts \<noteq> t"
    and re: "relinks t s s'"
  shows "dpath (tcb_next s') (tcb_prev s') None (tcb_opt (OSTCBList s')) (remove1 t ts)"
    and "OSTCBPrev (OSTCBTbl s' (hd (remove1 t ts))) = NullTCB"
proof -
  note nx = relinksD(1) [OF re] and pv = relinksD(2) [OF re] and lst = relinksD(3) [OF re]
  have dt: "distinct ts" using dpath_distinct [OF d] .
  have ne: "ts \<noteq> []" using tt by auto
  obtain x xs where ts: "ts = x # xs" using ne by (cases ts) auto
  have x: "tcb_opt (OSTCBList s) = Some x" "tcb_prev s x = None" "dpath (tcb_next s) (tcb_prev s) (Some x) (tcb_next s x) xs"
    using d ts by simp_all
  have pn: "tcb_prev s t = None \<longleftrightarrow> OSTCBPrev (OSTCBTbl s t) = NullTCB"
    using dpath_pv_head [OF d tt] x(1) h ts by (auto simp: tcb_prev_def tcb_opt_def split: tcb_ptr.splits)
  have "dpath (tcb_next s') (tcb_prev s') None (if tcb_prev s t = None then tcb_next s t else tcb_opt (OSTCBList s)) (remove1 t ts)"
  proof (rule dpath_unlink [OF d tt])
    show "tcb_next s' y = (if tcb_prev s t = Some y then tcb_next s t else tcb_next s y)" if "y \<noteq> t" for y
      using nx [OF that] by (auto simp: tcb_next_def tcb_prev_def tcb_opt_def split: tcb_ptr.splits)
    show "tcb_prev s' y = (if tcb_next s t = Some y then tcb_prev s t else tcb_prev s y)" if "y \<noteq> t" for y
      using pv [OF that] by (auto simp: tcb_next_def tcb_prev_def tcb_opt_def split: tcb_ptr.splits)
  qed
  then show "dpath (tcb_next s') (tcb_prev s') None (tcb_opt (OSTCBList s')) (remove1 t ts)"
    unfolding lst using pn by (simp add: tcb_next_def split: if_splits)
  have xn: "xs \<noteq> []" using lt tt ts by auto
  show "OSTCBPrev (OSTCBTbl s' (hd (remove1 t ts))) = NullTCB"
  proof (cases "x = t")
    case True
    obtain y ys where y: "xs = y # ys" using xn by (cases xs) auto
    have "OSTCBNext (OSTCBTbl s t) = TCB y"
      using x(3) True y by (simp add: tcb_next_def tcb_opt_def split: tcb_ptr.splits)
    moreover have "y \<noteq> t" using dt ts y True by auto
    ultimately show ?thesis using pv [of y] h True y ts by simp
  next
    case False
    have "OSTCBNext (OSTCBTbl s t) \<noteq> TCB x"
    proof
      assume "OSTCBNext (OSTCBTbl s t) = TCB x"
      then have n: "tcb_next s t = Some x" by (simp add: tcb_next_def tcb_opt_def)
      obtain as bs where ab: "ts = as @ t # bs" using split_list [OF tt] by blast
      then have "x \<in> set bs" using dpath_next [OF d [unfolded ab]] n by (auto split: list.splits)
      moreover have "x \<in> set as" using ab ts False by (cases as) auto
      ultimately show False using dt ab by auto
    qed
    then show ?thesis using pv [of x] h False ts by simp
  qed
qed

lemma relinks_free:
  assumes l: "task_list s ts" and tt: "t \<in> set ts" and nt: "\<And>m. m < 64 \<Longrightarrow> OSTCBPrioTbl s' m \<noteq> TCB t"
    and sub: "\<And>m u. m < 64 \<Longrightarrow> OSTCBPrioTbl s' m = TCB u \<Longrightarrow> OSTCBPrioTbl s m = TCB u"
    and re: "relinks t s s'"
  shows "\<exists>fs. free_tcbs s' fs"
proof -
  have d: "dpath (tcb_next s) (tcb_prev s) None (tcb_opt (OSTCBList s)) ts"
    and inl: "\<And>u. u \<in> set ts \<Longrightarrow> task_at s (prio_of (OSTCBTbl s u)) u" using l by (auto simp: task_list_def)
  note nx = relinksD(1) [OF re] and fr = relinksD(4,5) [OF re]
  obtain fs where fs: "path (tcb_next s) (tcb_opt (OSTCBFreeList s)) fs" "\<forall>t\<in>set fs. \<forall>n<64. OSTCBPrioTbl s n \<noteq> TCB t"
    using l by (auto simp: task_list_def free_tcbs_def)
  have nf: "u \<notin> set ts" if "u \<in> set fs" for u using inl [of u] fs(2) that by (auto simp: task_at_def)
  have "tcb_next s' u = tcb_next s u" if "u \<in> set fs" for u
  proof -
    have "u \<noteq> t" using nf tt that by blast
    moreover have "tcb_prev s t \<noteq> Some u" using dpath_pv_in [OF d tt] nf that by blast
    ultimately show ?thesis using nx [of u] by (auto simp: tcb_next_def tcb_prev_def tcb_opt_def)
  qed
  then have "path (tcb_next s') (tcb_opt (OSTCBFreeList s)) fs" using fs(1) by (rule path_cong)
  then have "path (tcb_next s') (tcb_opt (OSTCBFreeList s')) (t # fs)" by (simp add: fr tcb_opt_def tcb_next_def)
  moreover have "OSTCBPrioTbl s' m \<noteq> TCB u" if "u \<in> set (t # fs)" "m < 64" for u m
    using that nt [of m] sub [of m u] fs(2) by auto
  ultimately have "free_tcbs s' (t # fs)" unfolding free_tcbs_def by blast
  then show ?thesis by blast
qed

lemma drops_task_list:
  assumes l: "task_list s ts" and at: "task_at s n t" and idle: "n \<noteq> 63" and dr: "drops_task n t s s'"
    and re: "relinks t s s'"
  shows "task_list s' (remove1 t ts)"
proof -
  note D = drops_taskD [OF dr]
  have d: "dpath (tcb_next s) (tcb_prev s) None (tcb_opt (OSTCBList s)) ts"
    and h: "OSTCBPrev (OSTCBTbl s (hd ts)) = NullTCB" and ls: "prio_of (OSTCBTbl s (last ts)) = 63"
    and inl: "\<And>u. u \<in> set ts \<Longrightarrow> task_at s (prio_of (OSTCBTbl s u)) u"
    and al: "\<And>m u. task_at s m u \<Longrightarrow> u \<in> set ts"
    and tbl: "\<And>m u. m < 64 \<Longrightarrow> OSTCBPrioTbl s m = TCB u \<Longrightarrow> prio_of (OSTCBTbl s u) = m"
    using l by (auto simp: task_list_def)
  note T = drops_task_at [OF at tbl dr]
  have tt: "t \<in> set ts" using al at by blast
  have lt: "last ts \<noteq> t" using ls at idle by (auto simp: task_at_def)
  have m: "m \<noteq> n \<and> OSTCBPrioTbl s m = TCB u" if "OSTCBPrioTbl s' m = TCB u" for m u
    using that D(1) by (auto split: if_splits)
  have nt: "u \<noteq> t" if "m < 64" "OSTCBPrioTbl s' m = TCB u" for m u
    using tbl [OF that(1)] m [OF that(2)] at by (auto simp: task_at_def)
  have f: "\<exists>fs. free_tcbs s' fs" using nt m by (intro relinks_free [OF l tt _ _ re]) blast+
  note p = relinks_list [OF d h tt lt re]
  note rl = remove1_last [OF tt lt]
  have mem: "u \<in> set (remove1 t ts) \<longleftrightarrow> u \<noteq> t \<and> u \<in> set ts" for u using dpath_distinct [OF d] by auto
  have a: "\<forall>u\<in>set (remove1 t ts). task_at s' (prio_of (OSTCBTbl s' u)) u" using inl by (simp add: mem T D(3))
  have b: "\<forall>m u. task_at s' m u \<longrightarrow> u \<in> set (remove1 t ts)" using al by (auto simp: mem T)
  have c: "\<forall>m u. m < 64 \<and> OSTCBPrioTbl s' m = TCB u \<longrightarrow> prio_of (OSTCBTbl s' u) = m"
    using nt m tbl D(3) by metis
  have e: "prio_of (OSTCBTbl s' (last (remove1 t ts))) = 63" using rl lt D(3) ls by simp
  show ?thesis using p rl e a b c f unfolding task_list_def by blast
qed

section \<open>OSTaskDel\<close>

text \<open>What \<open>OSTaskDel\<close> does to the task \<open>t\<close> before it calls the scheduler, in two halves.\<close>

definition del_lists :: "nat \<Rightarrow> os \<Rightarrow> os" where
  "del_lists t s =
     (let s = OS_RdyListRemove t s;
          s = (case OSTCBEventPtr (OSTCBTbl s t) of None \<Rightarrow> s
               | Some e \<Rightarrow> OS_EventTaskRemove t e s);
          s = (case OSTCBEventMultiPtr (OSTCBTbl s t) of None \<Rightarrow> s
               | Some es \<Rightarrow> OS_EventTaskRemoveMulti t es s);
          s = (case OSTCBFlagNode (OSTCBTbl s t) of None \<Rightarrow> s
               | Some n \<Rightarrow> OS_FlagUnlink n s)
      in upd_tcb t (\<lambda>p. p\<lparr>OSTCBDly := 0, OSTCBStat := OS_STAT_RDY,
           OSTCBStatPend := OS_STAT_PEND_OK\<rparr>) s)"

definition del_tables :: "nat \<Rightarrow> INT8U \<Rightarrow> os \<Rightarrow> os" where
  "del_tables t prio s =
     (let s = (if OSLockNesting s < 255 then s\<lparr>OSLockNesting := OSLockNesting s + 1\<rparr> else s);
          s = (if OSLockNesting s > 0 then s\<lparr>OSLockNesting := OSLockNesting s - 1\<rparr> else s);
          s = s\<lparr>OSTaskCtr := OSTaskCtr s - 1\<rparr>;
          s = set_prio_tbl prio NullTCB s;
          s = OS_TaskUnlink t s;
          s = upd_tcb t (\<lambda>p. p\<lparr>OSTCBNext := OSTCBFreeList s, OSTCBTaskName := Some ''?''\<rparr>) s
      in s\<lparr>OSTCBFreeList := TCB t\<rparr>)"

lemma TaskDel_eq:
  "OSTaskDel prio s =
     (if OSIntNesting s > 0 then (s, OS_ERR_TASK_DEL_ISR)
      else if prio = OS_TASK_IDLE_PRIO then (s, OS_ERR_TASK_DEL_IDLE)
      else if prio \<ge> OS_LOWEST_PRIO \<and> prio \<noteq> OS_PRIO_SELF then (s, OS_ERR_PRIO_INVALID)
      else
        let prio = (if prio = OS_PRIO_SELF then OSTCBPrio (OSTCBTbl s (cur s)) else prio)
        in case OSTCBPrioTbl s (unat prio) of
             NullTCB \<Rightarrow> (s, OS_ERR_TASK_NOT_EXIST)
           | OS_TCB_RESERVED \<Rightarrow> (s, OS_ERR_TASK_DEL)
           | TCB t \<Rightarrow>
               let s' = del_tables t prio (del_lists t s)
               in (if OSRunning s' then OS_Sched s' else s', OS_ERR_NONE))"
  unfolding OSTaskDel_def del_lists_def del_tables_def Let_def by (rule refl)

lemma del_lists_effect:
  assumes inv: "pre_inv k s" and at: "task_at s n t"
  shows "only_lists s (del_lists t s)" and "u \<noteq> t \<Longrightarrow> OSTCBTbl (del_lists t s) u = OSTCBTbl s u"
    and "tcb_coords (OSTCBTbl (del_lists t s) t) = tcb_coords (OSTCBTbl s t)"
    and "bm_ok (rdy (del_lists t s))" and "bm_mem (rdy (del_lists t s)) = bm_mem (rdy s) - {n}"
    and "bm_ok (wl (del_lists t s) e)" and "bm_mem (wl (del_lists t s) e) = bm_mem (wl s e) - {n}"
proof -
  note i = pre_invD [OF inv]
  have fl: "OSTCBFlagNode (OSTCBTbl s t) = None" using i(8) [OF at] by (simp add: cont_ok_def)
  have xp: "xy_ok (OSTCBTbl s t)" and pp: "prio_of (OSTCBTbl s t) = n" and n64: "n < 64"
    using task_at_xy [OF i(1) at] at by (simp_all add: task_at_def)
  define s1 where "s1 = OS_RdyListRemove t s"
  note r1 = RdyListRemove_effect [OF xp, folded s1_def, unfolded pp]
  have x1: "xy_ok (OSTCBTbl s1 t)" using xp by (simp add: r1)
  define s2 where "s2 = (case OSTCBEventPtr (OSTCBTbl s1 t) of None \<Rightarrow> s1 | Some e \<Rightarrow> OS_EventTaskRemove t e s1)"
  note r2 = EventTaskRemove_effect [OF x1]
  define s3 where "s3 = (case OSTCBEventMultiPtr (OSTCBTbl s2 t) of None \<Rightarrow> s2 | Some es \<Rightarrow> OS_EventTaskRemoveMulti t es s2)"
  have o2: "only_lists s s2" using only_lists_trans [OF r1(5) r2(4)] r1(5) by (simp add: s2_def split: option.split)
  have t2: "OSTCBTbl s2 = (OSTCBTbl s)(t := (OSTCBTbl s t)\<lparr>OSTCBEventPtr := None\<rparr>)"
    by (auto simp: s2_def r2(3) r1(3) fun_eq_iff split: option.split)
  have xx: "xy_ok ((OSTCBTbl s t)\<lparr>OSTCBEventPtr := None\<rparr>)" using xp by (simp add: xy_ok_def)
  then have x2: "xy_ok (OSTCBTbl s2 t)" and p2: "prio_of (OSTCBTbl s2 t) = n" using pp by (simp_all add: t2)
  have m2: "OSTCBEventMultiPtr (OSTCBTbl s2 t) = OSTCBEventMultiPtr (OSTCBTbl s t)" by (simp add: t2)
  have rd2: "rdy s2 = bm_del n (rdy s)" by (simp add: s2_def r2(1) r1(1) split: option.split)
  have w2: "wl s2 d = (if OSTCBEventPtr (OSTCBTbl s t) = Some d then bm_del n (wl s d) else wl s d)" for d
    using pp by (simp add: s2_def r2(2) r1(2,3) split: option.split)
  note okw = kernel_invD(2) [OF i(1)]
  have ok2: "bm_ok (wl s2 d)" for d by (simp add: w2 okw bm_ok_del n64)
  note r3 = EventTaskRemoveMulti_effect [OF x2 ok2, unfolded p2]
  have o3: "only_lists s s3" using only_lists_trans [OF o2] r3 o2 by (auto simp: s3_def split: option.split)
  have t3: "OSTCBTbl s3 = OSTCBTbl s2" and rd3: "rdy s3 = rdy s2" and ok3: "bm_ok (wl s3 d)"
    and w3: "bm_mem (wl s3 d) = (if d \<in> set (case OSTCBEventMultiPtr (OSTCBTbl s t) of None \<Rightarrow> [] | Some es \<Rightarrow> es)
      then bm_mem (wl s2 d) - {n} else bm_mem (wl s2 d))" for d
    using r3 ok2 unfolding s3_def m2 by (simp_all split: option.split)
  have e: "del_lists t s = upd_tcb t (\<lambda>p. p\<lparr>OSTCBDly := 0, OSTCBStat := OS_STAT_RDY, OSTCBStatPend := OS_STAT_PEND_OK\<rparr>) s3"
    using fl unfolding del_lists_def Let_def s1_def [symmetric] s2_def [symmetric] s3_def [symmetric]
    by (simp add: t3 t2)
  show "only_lists s (del_lists t s)" unfolding e by (rule only_lists_trans [OF o3]) simp
  show "OSTCBTbl (del_lists t s) u = OSTCBTbl s u" if "u \<noteq> t" using that by (simp add: e t3 t2)
  show "tcb_coords (OSTCBTbl (del_lists t s) t) = tcb_coords (OSTCBTbl s t)" by (simp add: e t3 t2 tcb_coords_def)
  note okr = kernel_invD(1) [OF i(1)]
  show "bm_ok (rdy (del_lists t s))" "bm_mem (rdy (del_lists t s)) = bm_mem (rdy s) - {n}"
    by (simp_all add: e rd3 rd2 okr n64 bm_ok_del bm_mem_del)
  show "bm_ok (wl (del_lists t s) e)" by (simp add: e ok3)
  have aw: "n \<in> bm_mem (wl s d) \<longleftrightarrow> d \<in> awaited (OSTCBTbl s t)" for d
    using kernel_invD(6) [OF i(1) at] by (auto simp: task_ok_def waits_on_def)
  show "bm_mem (wl (del_lists t s) e) = bm_mem (wl s e) - {n}"
    using aw [of e] unfolding e wl_simps w3 w2 awaited_def
    by (cases "OSTCBEventMultiPtr (OSTCBTbl s t)") (auto simp: bm_mem_del okw n64)
qed

text \<open>A task other than the idle task has a successor in the task list, and is its own neither.\<close>

lemma task_links:
  assumes l: "task_list s ts" and at: "task_at s n t" and idle: "n \<noteq> 63"
  shows "\<exists>y. OSTCBNext (OSTCBTbl s t) = TCB y \<and> y \<noteq> t"
    and "OSTCBPrev (OSTCBTbl s t) = NullTCB \<or> (\<exists>x. OSTCBPrev (OSTCBTbl s t) = TCB x \<and> x \<noteq> t)"
proof -
  have d: "dpath (tcb_next s) (tcb_prev s) None (tcb_opt (OSTCBList s)) ts"
    and h: "OSTCBPrev (OSTCBTbl s (hd ts)) = NullTCB" and ls: "prio_of (OSTCBTbl s (last ts)) = 63"
    and tt: "t \<in> set ts" using l at by (auto simp: task_list_def)
  obtain as bs where ab: "ts = as @ t # bs" using split_list [OF tt] by blast
  have "bs \<noteq> []" using ls at idle ab by (auto simp: task_at_def)
  then obtain y ys where y: "bs = y # ys" by (cases bs) auto
  have dt: "distinct ts" using dpath_distinct [OF d] .
  have "tcb_next s t = Some y" using dpath_next [OF d [unfolded ab]] y by simp
  then show "\<exists>y. OSTCBNext (OSTCBTbl s t) = TCB y \<and> y \<noteq> t"
    using dt ab y by (auto simp: tcb_next_def tcb_opt_def split: tcb_ptr.splits)
  show "OSTCBPrev (OSTCBTbl s t) = NullTCB \<or> (\<exists>x. OSTCBPrev (OSTCBTbl s t) = TCB x \<and> x \<noteq> t)"
  proof (cases "as = []")
    case True
    then show ?thesis using h ab by simp
  next
    case False
    then have "tcb_prev s t = Some (last as)" "last as \<in> set as" using dpath_append [OF d [unfolded ab]] by simp_all
    then show ?thesis using dt ab by (auto simp: tcb_prev_def tcb_opt_def split: tcb_ptr.splits)
  qed
qed

definition unlinked :: "nat \<Rightarrow> nat \<Rightarrow> os \<Rightarrow> nat \<Rightarrow> os_tcb" where
  "unlinked t y s =
     (let f = OSTCBTbl s;
          f = (case OSTCBPrev (f t) of TCB x \<Rightarrow> f(x := (f x)\<lparr>OSTCBNext := TCB y\<rparr>) | _ \<Rightarrow> f)
      in f(y := (f y)\<lparr>OSTCBPrev := OSTCBPrev (OSTCBTbl s t)\<rparr>))"

lemma TaskUnlink_eq:
  assumes nx: "OSTCBNext (OSTCBTbl s t) = TCB y" and pv: "OSTCBPrev (OSTCBTbl s t) \<noteq> OS_TCB_RESERVED"
  shows "OS_TaskUnlink t s = s\<lparr>OSTCBTbl := unlinked t y s,
    OSTCBList := (if OSTCBPrev (OSTCBTbl s t) = NullTCB then TCB y else OSTCBList s)\<rparr>"
  using nx pv by (cases "OSTCBPrev (OSTCBTbl s t)") (simp_all add: OS_TaskUnlink_def upd_tcb_def unlinked_def Let_def)

lemma unlinked_fields:
  "tcb_sync (unlinked t y s u) = tcb_sync (OSTCBTbl s u)" "OSTCBPrio (unlinked t y s u) = OSTCBPrio (OSTCBTbl s u)"
  "xy_ok (unlinked t y s u) = xy_ok (OSTCBTbl s u)"
  "OSTCBNext (unlinked t y s u) = (if OSTCBPrev (OSTCBTbl s t) = TCB u then TCB y else OSTCBNext (OSTCBTbl s u))"
  "OSTCBPrev (unlinked t y s u) = (if u = y then OSTCBPrev (OSTCBTbl s t) else OSTCBPrev (OSTCBTbl s u))"
  by (cases "OSTCBPrev (OSTCBTbl s t)"; auto simp: unlinked_def Let_def tcb_sync_def xy_ok_def)+

lemma del_tables_eq:
  assumes nx: "OSTCBNext (OSTCBTbl s t) = TCB y" and pv: "OSTCBPrev (OSTCBTbl s t) \<noteq> OS_TCB_RESERVED"
  shows "del_tables t prio s =
    s\<lparr>OSLockNesting := (if OSLockNesting s < 255 then OSLockNesting s else OSLockNesting s - 1),
      OSTaskCtr := OSTaskCtr s - 1, OSTCBPrioTbl := (OSTCBPrioTbl s)(unat prio := NullTCB),
      OSTCBTbl := (unlinked t y s)(t := (unlinked t y s t)\<lparr>OSTCBNext := OSTCBFreeList s, OSTCBTaskName := Some ''?''\<rparr>),
      OSTCBList := (if OSTCBPrev (OSTCBTbl s t) = NullTCB then TCB y else OSTCBList s),
      OSTCBFreeList := TCB t\<rparr>"
proof -
  have ne: "OSLockNesting s + 1 \<noteq> 0" if "OSLockNesting s < 255"
  proof
    assume "OSLockNesting s + 1 = 0"
    then have "OSLockNesting s = - 1" by (simp add: add_eq_0_iff2)
    then show False using that by simp
  qed
  let ?u = "s\<lparr>OSLockNesting := (if OSLockNesting s < 255 then OSLockNesting s else OSLockNesting s - 1),
      OSTaskCtr := OSTaskCtr s - 1, OSTCBPrioTbl := (OSTCBPrioTbl s)(unat prio := NullTCB)\<rparr>"
  have "del_tables t prio s =
      (upd_tcb t (\<lambda>p. p\<lparr>OSTCBNext := OSTCBFreeList (OS_TaskUnlink t ?u), OSTCBTaskName := Some ''?''\<rparr>) (OS_TaskUnlink t ?u))
        \<lparr>OSTCBFreeList := TCB t\<rparr>"
    using ne by (cases "OSLockNesting s < 255") (auto simp: del_tables_def set_prio_tbl_def Let_def word_gt_0)
  also have "OS_TaskUnlink t ?u = ?u\<lparr>OSTCBTbl := unlinked t y s,
      OSTCBList := (if OSTCBPrev (OSTCBTbl s t) = NullTCB then TCB y else OSTCBList s)\<rparr>"
    using TaskUnlink_eq [of ?u t y] nx pv by (simp add: unlinked_def)
  finally show ?thesis by (simp add: upd_tcb_def)
qed

lemma del_tables_effect:
  fixes s :: os and prio :: INT8U
  assumes nx: "OSTCBNext (OSTCBTbl s t) = TCB y" "y \<noteq> t"
    and pv: "OSTCBPrev (OSTCBTbl s t) = NullTCB \<or> (\<exists>x. OSTCBPrev (OSTCBTbl s t) = TCB x \<and> x \<noteq> t)"
  defines "s' \<equiv> del_tables t prio s"
  shows "relinks t s s'" and "OSTCBPrioTbl s' = (OSTCBPrioTbl s)(unat prio := NullTCB)"
    and "tcb_sync (OSTCBTbl s' u) = tcb_sync (OSTCBTbl s u)" and "OSTCBPrio (OSTCBTbl s' u) = OSTCBPrio (OSTCBTbl s u)"
    and "xy_ok (OSTCBTbl s' u) = xy_ok (OSTCBTbl s u)" and "rdy s' = rdy s" and "wl s' e = wl s e"
    and "OSEvents s' = OSEvents s" and "OSEventFreeList s' = OSEventFreeList s" and "OSTCBCur s' = OSTCBCur s"
    and "OSPrioCur s' = OSPrioCur s" and "OSRunning s' = OSRunning s" and "OSIntNesting s' = OSIntNesting s"
    and "OSLockNesting s' = (if OSLockNesting s < 255 then OSLockNesting s else OSLockNesting s - 1)"
proof -
  have pr: "OSTCBPrev (OSTCBTbl s t) \<noteq> OS_TCB_RESERVED" using pv by auto
  note e = del_tables_eq [OF nx(1) pr, of prio, folded s'_def]
  show "relinks t s s'" using nx pv by (auto simp: relinks_def e unlinked_fields)
  show "tcb_sync (OSTCBTbl s' u) = tcb_sync (OSTCBTbl s u)" "OSTCBPrio (OSTCBTbl s' u) = OSTCBPrio (OSTCBTbl s u)"
    "xy_ok (OSTCBTbl s' u) = xy_ok (OSTCBTbl s u)"
    using unlinked_fields(1-3) [of t y s t] unlinked_fields(1-3) [of t y s u]
    by (simp_all add: e) (simp_all add: tcb_sync_def xy_ok_def)
  show "OSTCBPrioTbl s' = (OSTCBPrioTbl s)(unat prio := NullTCB)" "rdy s' = rdy s" "wl s' e = wl s e"
    "OSEvents s' = OSEvents s" "OSEventFreeList s' = OSEventFreeList s" "OSTCBCur s' = OSTCBCur s"
    "OSPrioCur s' = OSPrioCur s" "OSRunning s' = OSRunning s" "OSIntNesting s' = OSIntNesting s"
    "OSLockNesting s' = (if OSLockNesting s < 255 then OSLockNesting s else OSLockNesting s - 1)"
    by (simp_all add: e rdy_def wl_def)
qed

section \<open>The invariants\<close>

lemma del_task_effect:
  fixes prio :: INT8U
  assumes inv: "pre_inv k s" and at: "task_at s (unat prio) t" and idle: "unat prio \<noteq> 63"
  defines "s' \<equiv> del_tables t prio (del_lists t s)"
  shows "drops_task (unat prio) t s s'" and "relinks t s s'"
    and "OSEventFreeList s' = OSEventFreeList s" and "OSTCBCur s' = OSTCBCur s" and "OSPrioCur s' = OSPrioCur s"
    and "OSRunning s' = OSRunning s" and "OSIntNesting s' = OSIntNesting s"
    and "OSLockNesting s = 0 \<longleftrightarrow> OSLockNesting s' = 0" and "free_events_ok s'"
proof -
  note i = pre_invD [OF inv]
  let ?s = "del_lists t s"
  note L = del_lists_effect [OF inv at]
  note g = only_lists_global [OF L(1)]
  obtain ts where l: "task_list s ts" using i(10) by blast
  have co: "tcb_coords (OSTCBTbl ?s u) = tcb_coords (OSTCBTbl s u)" for u using L(2,3) by (cases "u = t") simp_all
  have fld: "OSTCBNext (OSTCBTbl ?s u) = OSTCBNext (OSTCBTbl s u)" "OSTCBPrev (OSTCBTbl ?s u) = OSTCBPrev (OSTCBTbl s u)" for u
    using co [of u] by (simp_all add: tcb_coords_def)
  obtain y where y: "OSTCBNext (OSTCBTbl ?s t) = TCB y" "y \<noteq> t" using task_links(1) [OF l at idle] by (auto simp: fld)
  have pv: "OSTCBPrev (OSTCBTbl ?s t) = NullTCB \<or> (\<exists>x. OSTCBPrev (OSTCBTbl ?s t) = TCB x \<and> x \<noteq> t)"
    using task_links(2) [OF l at idle] by (simp add: fld)
  note T = del_tables_effect [OF y pv, of prio, folded s'_def]
  show "relinks t s s'" using T(1) by (simp add: relinks_def fld g)
  have ty: "event_type s' = event_type s" using same_kernelD(2) [OF only_lists_kernel(1) [OF L(1)]] by (simp add: T(8))
  show "drops_task (unat prio) t s s'"
    unfolding drops_task_def T(2) T(6,7) g(1) ty using L(4-7) T(3-5) L(2) by simp
  show "OSEventFreeList s' = OSEventFreeList s" "OSTCBCur s' = OSTCBCur s" "OSPrioCur s' = OSPrioCur s"
    "OSRunning s' = OSRunning s" "OSIntNesting s' = OSIntNesting s"
    using T(9-13) g by simp_all
  show "OSLockNesting s = 0 \<longleftrightarrow> OSLockNesting s' = 0"
    using T(14) g(3) word_less_nat_alt [of "OSLockNesting s" 255] by (auto split: if_splits)
  show "free_events_ok s'"
    by (rule free_events_frame [OF free_events_cong [OF i(4) only_lists_kernel(1) [OF L(1)]] T(8,9)])
qed

lemma del_task_pre_inv:
  fixes prio :: INT8U
  assumes inv: "pre_inv k s" and at: "task_at s (unat prio) t" and idle: "unat prio \<noteq> 63"
    and c: "task_at s (unat q) x" "x \<noteq> t" and lock: "OSLockNesting s \<noteq> 0 \<Longrightarrow> k x = None"
  defines "u \<equiv> (del_tables t prio (del_lists t s))\<lparr>OSPrioCur := q, OSTCBCur := TCB x\<rparr>"
  shows "pre_inv k u"
proof -
  note i = pre_invD [OF inv]
  note E = del_task_effect [OF inv at idle]
  obtain ts where l: "task_list s ts" using i(10) by blast
  have tbl: "prio_of (OSTCBTbl s v) = m" if "m < 64" "OSTCBPrioTbl s m = TCB v" for m v
    using l that by (simp add: task_list_def)
  have dr: "drops_task (unat prio) t s u" using E(1) by (simp add: drops_task_def u_def rdy_def wl_def)
  have re: "relinks t s u" using E(2) by (simp add: relinks_def u_def)
  note D = drops_taskD [OF dr] and T = drops_task_at [OF at tbl dr]
  have mn: "m \<noteq> unat prio" if "task_at s m v" "v \<noteq> t" for m v using that at task_at_unique by blast
  have "kernel_inv u" by (rule drops_kernel_inv [OF i(1) at tbl dr idle])
  moreover have "conts_ok k u"
    unfolding conts_ok_def
  proof (intro allI impI)
    fix m v assume "task_at u m v"
    then have v: "v \<noteq> t" "task_at s m v" using T by simp_all
    then show "cont_ok (k v) (waits_on u m) (OSTCBTbl u v)"
      unfolding cont_ok_cong [OF D(2) [OF v(1)]] using i(8) [OF v(2)] mn [OF v(2,1)] by (simp add: D(8))
  qed
  moreover have "cur_ok u" using c T by (simp add: cur_ok_def) (simp add: u_def)
  moreover have "free_events_ok u" by (rule free_events_frame [OF E(9)]) (simp_all add: u_def)
  moreover have "task_list u (remove1 t ts)" by (rule drops_task_list [OF l at idle dr re])
  moreover have "OSRunning u" "OSLockNesting u \<noteq> 0 \<longrightarrow> k (cur u) = None" using i(9) E(6,8) lock by (simp_all add: u_def)
  ultimately show ?thesis by (auto simp: pre_inv_def)
qed

lemma TaskDel_cases:
  fixes prio :: INT8U
  assumes inv: "pre_inv k s" and self: "prio = OS_PRIO_SELF \<Longrightarrow> unat (OSPrioCur s) \<noteq> 63"
  defines "q \<equiv> if prio = OS_PRIO_SELF then OSPrioCur s else prio"
  obtains "fst (OSTaskDel prio s) = s"
    | t where "OSIntNesting s = 0" "task_at s (unat q) t" "unat q \<noteq> 63"
        "fst (OSTaskDel prio s) = OS_Sched (del_tables t q (del_lists t s))"
proof -
  note i = pre_invD [OF inv]
  have cp: "OSTCBPrio (OSTCBTbl s (cur s)) = OSPrioCur s"
    using i(6) by (auto simp: task_at_def intro: word_unat_eq_iff [THEN iffD2])
  note eq = TaskDel_eq [of prio s, unfolded cp Let_def, folded q_def]
  show ?thesis
  proof (cases "OSIntNesting s > 0 \<or> (prio \<ge> 63 \<and> prio \<noteq> 255) \<or> (\<forall>t. OSTCBPrioTbl s (unat q) \<noteq> TCB t)")
    case True
    then have "fst (OSTaskDel prio s) = s" unfolding eq by (auto split: tcb_ptr.split)
    then show ?thesis by (rule that(1))
  next
    case False
    then obtain t where t: "OSTCBPrioTbl s (unat q) = TCB t" by blast
    have q: "unat q < 64 \<and> unat q \<noteq> 63"
    proof (cases "prio = 255")
      case True
      then show ?thesis using self i(6) by (simp add: q_def task_at_def)
    next
      case pr: False
      then have "unat prio < 63" using False by (simp add: word_le_nat_alt)
      then show ?thesis using pr by (simp add: q_def)
    qed
    then have at: "task_at s (unat q) t" using prio_tbl_task_at [OF inv _ t] by simp
    note E = del_task_effect [OF inv at conjunct2 [OF q]]
    have "fst (OSTaskDel prio s) = OS_Sched (del_tables t q (del_lists t s))"
      using False t E(6) i(9) unfolding eq by auto
    then show ?thesis using False at q by (intro that(2) [of t]) (auto simp: word_gt_0)
  qed
qed

lemma TaskDel_sys_inv:
  assumes inv: "sys_inv k s" and idle: "prio = OS_PRIO_SELF \<Longrightarrow> unat (OSPrioCur s) \<noteq> 63"
    and who: "OSLockNesting s = 0 \<or> prio \<noteq> OS_PRIO_SELF \<and> prio \<noteq> OSPrioCur s"
  shows "sys_inv k (fst (OSTaskDel prio s))"
proof -
  note inv' = sys_invD(1) [OF inv]
  note i = pre_invD [OF inv']
  obtain x where x: "task_at s 63 x" using kernel_invD(4,7) [OF i(1)] by blast
  from inv' idle show ?thesis
  proof (rule TaskDel_cases)
    assume "fst (OSTaskDel prio s) = s"
    then show ?thesis using inv by simp
  next
    fix t let ?q = "if prio = OS_PRIO_SELF then OSPrioCur s else prio"
    assume n: "OSIntNesting s = 0" and at: "task_at s (unat ?q) t" and q: "unat ?q \<noteq> 63"
      and r: "fst (OSTaskDel prio s) = OS_Sched (del_tables t ?q (del_lists t s))"
    note E = del_task_effect [OF inv' at q]
    let ?s = "del_tables t ?q (del_lists t s)"
    show ?thesis
    proof (cases "t = cur s")
      case True
      then have c: "unat ?q = unat (OSPrioCur s)" using at i(6) by (simp add: task_at_def)
      then have "?q = OSPrioCur s" by (simp only: word_unat_eq_iff)
      then have l: "OSLockNesting s = 0" using who by (auto split: if_splits)
      have "x \<noteq> t" using x at q by (auto simp: task_at_def)
      then have "pre_inv k (?s\<lparr>OSPrioCur := 63, OSTCBCur := TCB x\<rparr>)"
        using x l by (intro del_task_pre_inv [OF inv' at q]) simp_all
      then show ?thesis
        unfolding r by (rule Switch_stale) (use E(5,7,8) l n c drops_taskD(6) [OF E(1)] in simp_all)
    next
      case False
      then have "pre_inv k (?s\<lparr>OSPrioCur := OSPrioCur s, OSTCBCur := TCB (cur s)\<rparr>)"
        using i(5,6) by (intro del_task_pre_inv [OF inv' at q]) simp_all
      moreover have "?s\<lparr>OSPrioCur := OSPrioCur s, OSTCBCur := TCB (cur s)\<rparr> = ?s"
        using E(4,5) i(7) by (intro os.equality) simp_all
      ultimately have "pre_inv k ?s" by simp
      then show ?thesis unfolding r by (rule Sched_sys_inv)
    qed
  qed
qed

text \<open>C20: \<open>OSTaskDel\<close> removes the task and nothing else. Its priority is free, it is not ready and in no wait
  list, its control block is the first of the free list; every other task keeps its priority, its readiness
  and its place in the wait lists, and the task list has lost exactly this member.\<close>

theorem OSTaskDel_removes:
  assumes inv: "sys_inv k s" and n: "OSIntNesting s = 0" and at: "task_at s (unat prio) t" and p: "prio < 63"
  shows "snd (OSTaskDel prio s) = OS_ERR_NONE \<and>
    (let s' = fst (OSTaskDel prio s)
     in OSTCBPrioTbl s' = (OSTCBPrioTbl s)(unat prio := NullTCB) \<and>
        (\<forall>m u. task_at s' m u \<longleftrightarrow> u \<noteq> t \<and> task_at s m u) \<and>
        bm_mem (rdy s') = bm_mem (rdy s) - {unat prio} \<and>
        (\<forall>m. waits_on s' m = (if m = unat prio then {} else waits_on s m)) \<and>
        OSTCBFreeList s' = TCB t \<and> OSTCBNext (OSTCBTbl s' t) = OSTCBFreeList s \<and>
        (\<exists>ts. task_list s ts \<and> task_list s' (remove1 t ts)))"
proof -
  note inv' = sys_invD(1) [OF inv]
  note i = pre_invD [OF inv']
  have idle: "unat prio \<noteq> 63" using p by (simp add: word_less_nat_alt)
  obtain ts where l: "task_list s ts" using i(10) by blast
  have tbl: "prio_of (OSTCBTbl s v) = m" if "m < 64" "OSTCBPrioTbl s m = TCB v" for m v
    using l that by (simp add: task_list_def)
  let ?s = "del_tables t prio (del_lists t s)"
  note E = del_task_effect [OF inv' at idle]
  note D = drops_taskD [OF E(1)] and T = drops_task_at [OF at tbl E(1)]
  have self: "prio \<noteq> OS_PRIO_SELF" using p by auto
  have r: "OSTaskDel prio s = (OS_Sched ?s, OS_ERR_NONE)"
    using at p n self i(9) E(6) by (auto simp: TaskDel_eq Let_def task_at_def)
  have same: "same_task (OSTCBTbl (OS_Sched ?s) u) (OSTCBTbl ?s u)" for u by (rule Sched_frame)
  have w: "waits_on (OS_Sched ?s) m = waits_on ?s m" for m by (simp add: waits_on_def)
  have a: "task_at (OS_Sched ?s) m u = task_at ?s m u" for m u
    using same_task_prio [OF same] by (simp add: task_at_def)
  note sk = same_kernelD [OF Sched_frame(8) [of ?s]]
  have lst: "task_list (OS_Sched ?s) (remove1 t ts)"
    by (rule task_list_cong [OF drops_task_list [OF l at idle E(1,2)]]) (use same sk in \<open>simp_all add: same_task_def\<close>)
  have nx: "OSTCBNext (OSTCBTbl (OS_Sched ?s) t) = OSTCBFreeList s"
    using same [of t] relinksD(4) [OF E(2)] by (simp add: same_task_def tcb_coords_def)
  show ?thesis unfolding r fst_conv snd_conv Let_def a w Sched_frame
    using T D(1,6,8) l lst nx relinksD(5) [OF E(2)] sk(9) by auto
qed

lemma OSTaskDel_removes_witness:
  "OSTCBFreeList (fst (OSTaskDel 5 (ex_os OS_EVENT_TYPE_SEM True))) = TCB 1"
  using OSTaskDel_removes [OF ex_sys_inv [of OS_EVENT_TYPE_SEM "PendSem 0" True], of 5 1]
  by (simp add: ex_task_at Let_def)

end
