(* ===== verification/UCOS_System.thy ===== *)
theory UCOS_System
  imports UCOS_Quiet UCOS_Multi UCOS_Mbox UCOS_TaskDel
begin

text \<open>
  The kernel as a transition system.  A state is the kernel's state together with the pends the
  blocked tasks still have to finish.  Every rule is one call of a service, from the running task
  or from an interrupt handler, one resumption of a pend, or the entry or exit of a handler; the
  calls come in any order.  Every state that can be reached satisfies the system invariant.
\<close>

section \<open>Who may call\<close>

text \<open>
  The running task may call when no interrupt is being served and it has no pend to finish; the
  idle task calls nothing.  An interrupt handler may call the services that do not block.
\<close>

definition task_runs :: "os \<Rightarrow> conts \<Rightarrow> bool" where
  "task_runs s k \<longleftrightarrow> OSIntNesting s = 0 \<and> k (cur s) = None \<and> unat (OSPrioCur s) \<noteq> 63"

definition may_call :: "os \<Rightarrow> conts \<Rightarrow> bool" where
  "may_call s k \<longleftrightarrow> OSIntNesting s \<noteq> 0 \<or> task_runs s k"

text \<open>A post that leaves out the scheduler call is for handlers and for code that holds the lock.\<close>

definition opt_allowed :: "INT8U \<Rightarrow> os \<Rightarrow> bool" where
  "opt_allowed opt s \<longleftrightarrow> opt AND OS_POST_OPT_NO_SCHED = 0 \<or> OSIntNesting s \<noteq> 0 \<or> OSLockNesting s \<noteq> 0"

definition after_pend :: "os \<Rightarrow> conts \<Rightarrow> 'r option \<Rightarrow> cont \<Rightarrow> conts" where
  "after_pend s k r c = (if r = None then k(cur s := Some c) else k)"

text \<open>A new task has no pend to finish.\<close>

definition after_create :: "os \<Rightarrow> conts \<Rightarrow> INT8U \<Rightarrow> conts" where
  "after_create s k err = (if err = OS_ERR_NONE then k(tcb_ix (OSTCBFreeList s) := None) else k)"

text \<open>
  The running task changes its own priority only while the scheduler is unlocked, since \<open>OSPrioCur\<close>
  is corrected by the switch that follows.
\<close>

definition change_allowed :: "INT8U \<Rightarrow> os \<Rightarrow> bool" where
  "change_allowed prio s \<longleftrightarrow>
     OSIntNesting s = 0 \<and> OSLockNesting s = 0 \<or> prio \<noteq> OS_PRIO_SELF \<and> prio \<noteq> OSPrioCur s"

text \<open>A task deletes itself only while the scheduler is unlocked: the task that held the lock would be gone.\<close>

definition delete_allowed :: "INT8U \<Rightarrow> os \<Rightarrow> bool" where
  "delete_allowed prio s \<longleftrightarrow> OSLockNesting s = 0 \<or> prio \<noteq> OS_PRIO_SELF \<and> prio \<noteq> OSPrioCur s"

section \<open>Steps\<close>

text \<open>
  The steps are calls of the services of semaphores, mailboxes, queues and multi-event pends, of tasks, time,
  memory partitions and timers, and the interrupts.  They leave out mutexes and flag groups,
  \<open>OSTimeTick\<close> called by a task, and posts with \<open>OS_POST_OPT_NO_SCHED\<close> by a task while the scheduler is unlocked.
\<close>

inductive kstep :: "os \<times> conts \<Rightarrow> os \<times> conts \<Rightarrow> bool" where
  sem_pend: "task_runs s k \<Longrightarrow> OSSemPend (Some e) timeout s = (s', r) \<Longrightarrow>
    kstep (s, k) (s', after_pend s k r (PendSem e))"
| mbox_pend: "task_runs s k \<Longrightarrow> OSMboxPend (Some e) timeout s = (s', r) \<Longrightarrow>
    kstep (s, k) (s', after_pend s k r (PendMbox e))"
| q_pend: "task_runs s k \<Longrightarrow> OSQPend (Some e) timeout s = (s', r) \<Longrightarrow>
    kstep (s, k) (s', after_pend s k r (PendQ e))"
| multi_pend: "task_runs s k \<Longrightarrow> OSEventPendMulti (Some es) er mr timeout s = (s', r) \<Longrightarrow>
    kstep (s, k) (s', after_pend s k r (PendMulti es))"
| sem_resume: "OSIntNesting s = 0 \<Longrightarrow> k (cur s) = Some (PendSem e) \<Longrightarrow>
    kstep (s, k) (fst (OSSemPend_resume e s), k(cur s := None))"
| mbox_resume: "OSIntNesting s = 0 \<Longrightarrow> k (cur s) = Some (PendMbox e) \<Longrightarrow>
    kstep (s, k) (fst (OSMboxPend_resume e s), k(cur s := None))"
| q_resume: "OSIntNesting s = 0 \<Longrightarrow> k (cur s) = Some (PendQ e) \<Longrightarrow>
    kstep (s, k) (fst (OSQPend_resume e s), k(cur s := None))"
| multi_resume: "OSIntNesting s = 0 \<Longrightarrow> k (cur s) = Some (PendMulti es) \<Longrightarrow>
    kstep (s, k) (fst (OSEventPendMulti_resume es s), k(cur s := None))"
| sem_post: "may_call s k \<Longrightarrow> kstep (s, k) (fst (OSSemPost (Some e) s), k)"
| mbox_post: "may_call s k \<Longrightarrow> kstep (s, k) (fst (OSMboxPost (Some e) m s), k)"
| q_post: "may_call s k \<Longrightarrow> kstep (s, k) (fst (OSQPost (Some e) m s), k)"
| q_post_front: "may_call s k \<Longrightarrow> kstep (s, k) (fst (OSQPostFront (Some e) m s), k)"
| mbox_post_opt: "may_call s k \<Longrightarrow> opt_allowed opt s \<Longrightarrow> OSMboxPostOpt (Some e) m opt s = Some (s', err) \<Longrightarrow>
    kstep (s, k) (s', k)"
| q_post_opt: "may_call s k \<Longrightarrow> opt_allowed opt s \<Longrightarrow> OSQPostOpt (Some e) m opt s = Some (s', err) \<Longrightarrow>
    kstep (s, k) (s', k)"
| sem_accept: "may_call s k \<Longrightarrow> kstep (s, k) (fst (OSSemAccept (Some e) s), k)"
| mbox_accept: "may_call s k \<Longrightarrow> kstep (s, k) (fst (OSMboxAccept (Some e) s), k)"
| q_accept: "may_call s k \<Longrightarrow> kstep (s, k) (fst (OSQAccept (Some e) s), k)"
| sem_set: "may_call s k \<Longrightarrow> kstep (s, k) (fst (OSSemSet (Some e) cnt s), k)"
| q_flush: "may_call s k \<Longrightarrow> kstep (s, k) (fst (OSQFlush (Some e) s), k)"
| sem_abort: "may_call s k \<Longrightarrow> OSSemPendAbort (Some e) opt s = Some (s', n, err) \<Longrightarrow> kstep (s, k) (s', k)"
| mbox_abort: "may_call s k \<Longrightarrow> OSMboxPendAbort (Some e) opt s = Some (s', n, err) \<Longrightarrow> kstep (s, k) (s', k)"
| q_abort: "may_call s k \<Longrightarrow> OSQPendAbort (Some e) opt s = Some (s', n, err) \<Longrightarrow> kstep (s, k) (s', k)"
| sem_del: "task_runs s k \<Longrightarrow> OSSemDel (Some e) opt s = Some (s', p) \<Longrightarrow> kstep (s, k) (s', k)"
| mbox_del: "task_runs s k \<Longrightarrow> OSMboxDel (Some e) opt s = Some (s', p) \<Longrightarrow> kstep (s, k) (s', k)"
| q_del: "task_runs s k \<Longrightarrow> OSQDel (Some e) opt s = Some (s', p) \<Longrightarrow> kstep (s, k) (s', k)"
| sem_create: "task_runs s k \<Longrightarrow> kstep (s, k) (fst (OSSemCreate cnt s), k)"
| mbox_create: "task_runs s k \<Longrightarrow> kstep (s, k) (fst (OSMboxCreate m s), k)"
| q_create: "task_runs s k \<Longrightarrow> kstep (s, k) (fst (OSQCreate start sz s), k)"
| time_dly: "task_runs s k \<Longrightarrow> kstep (s, k) (OSTimeDly ticks s, k)"
| time_dly_hmsm: "task_runs s k \<Longrightarrow> kstep (s, k) (fst (OSTimeDlyHMSM h m sec ms s), k)"
| dly_resume: "may_call s k \<Longrightarrow> kstep (s, k) (fst (OSTimeDlyResume prio s), k)"
| suspend: "may_call s k \<Longrightarrow> prio = OS_PRIO_SELF \<longrightarrow> unat (OSPrioCur s) \<noteq> 63 \<Longrightarrow>
    kstep (s, k) (fst (OSTaskSuspend prio s), k)"
| resume: "may_call s k \<Longrightarrow> kstep (s, k) (fst (OSTaskResume prio s), k)"
| lock: "task_runs s k \<Longrightarrow> kstep (s, k) (OSSchedLock s, k)"
| unlock: "task_runs s k \<Longrightarrow> kstep (s, k) (OSSchedUnlock s, k)"
| int_enter: "kstep (s, k) (OSIntEnter s, k)"
| int_exit: "OSIntNesting s \<noteq> 0 \<Longrightarrow> kstep (s, k) (OSIntExit s, k)"
| tick: "OSIntNesting s \<noteq> 0 \<Longrightarrow> OSTimeTick s = Some s' \<Longrightarrow> kstep (s, k) (s', k)"
| sys_tick: "SysTick_Handler s = Some s' \<Longrightarrow> kstep (s, k) (s', k)"
| task_create: "task_runs s k \<Longrightarrow> OSTaskCreate ret task p_arg ptos prio s = (s', err) \<Longrightarrow>
    kstep (s, k) (s', after_create s k err)"
| task_create_ext: "task_runs s k \<Longrightarrow>
    OSTaskCreateExt ret task p_arg ptos prio i pbos sz ext opt s = (s', err) \<Longrightarrow>
    kstep (s, k) (s', after_create s k err)"
| change_prio: "may_call s k \<Longrightarrow> change_allowed prio s \<Longrightarrow> kstep (s, k) (fst (OSTaskChangePrio prio newprio s), k)"
| task_del: "task_runs s k \<Longrightarrow> delete_allowed prio s \<Longrightarrow> kstep (s, k) (fst (OSTaskDel prio s), k)"
| del_req: "may_call s k \<Longrightarrow> kstep (s, k) (fst (OSTaskDelReq prio s), k)"
| task_name: "may_call s k \<Longrightarrow> kstep (s, k) (fst (OSTaskNameSet prio pname s), k)"
| event_name: "may_call s k \<Longrightarrow> kstep (s, k) (fst (OSEventNameSet pe pname s), k)"
| reg_id: "may_call s k \<Longrightarrow> kstep (s, k) (fst (OSTaskRegGetID s), k)"
| reg_set: "may_call s k \<Longrightarrow> kstep (s, k) (fst (OSTaskRegSet prio i val s), k)"
| time_set: "may_call s k \<Longrightarrow> kstep (s, k) (OSTimeSet ticks s, k)"
| mem_create: "may_call s k \<Longrightarrow> kstep (s, k) (fst (OSMemCreate addr nblks blksize s), k)"
| mem_get: "may_call s k \<Longrightarrow> kstep (s, k) (fst (OSMemGet pm s), k)"
| mem_put: "may_call s k \<Longrightarrow> kstep (s, k) (fst (OSMemPut pm pblk s), k)"
| mem_name: "may_call s k \<Longrightarrow> kstep (s, k) (fst (OSMemNameSet pm pname s), k)"
| tmr_create: "task_runs s k \<Longrightarrow> kstep (s, k) (fst (OSTmrCreate dly period opt callback arg pname s), k)"
| tmr_del: "task_runs s k \<Longrightarrow> kstep (s, k) (fst (OSTmrDel pt s), k)"
| tmr_start: "task_runs s k \<Longrightarrow> kstep (s, k) (fst (OSTmrStart pt s), k)"
| tmr_stop: "task_runs s k \<Longrightarrow> quiet_callbacks cb \<Longrightarrow> kstep (s, k) (fst (OSTmrStop cb pt opt arg s), k)"
| tmr_remain: "task_runs s k \<Longrightarrow> kstep (s, k) (fst (OSTmrRemainGet pt s), k)"
| tmr_state: "task_runs s k \<Longrightarrow> kstep (s, k) (fst (OSTmrStateGet pt s), k)"
| tmr_name: "task_runs s k \<Longrightarrow> kstep (s, k) (fst (OSTmrNameGet pt pdest s), k)"
| tmr_round: "task_runs s k \<Longrightarrow> quiet_callbacks cb \<Longrightarrow> OSTmr_Round cb s = Some s' \<Longrightarrow> kstep (s, k) (s', k)"

section \<open>Every step keeps the invariant\<close>

lemma accept_quiet:
  "quiet s (fst (OSSemAccept pe s))" "quiet s (fst (OSMboxAccept pe s))" "quiet s (fst (OSQAccept pe s))"
  "quiet s (fst (OSSemSet pe cnt s))" "quiet s (fst (OSQFlush pe s))"
  by (cases pe; auto simp: OSSemAccept_def OSMboxAccept_def OSQAccept_def OSSemSet_def OSQFlush_def Let_def
      quiet_upd_event split: prod.splits)+

lemma TimeDlyHMSM_sys_inv:
  assumes "sys_inv k s" and "k (cur s) = None" and "unat (OSPrioCur s) \<noteq> 63"
  shows "sys_inv k (fst (OSTimeDlyHMSM h m sec ms s))"
  using TimeDly_sys_inv [OF assms] assms(1) by (simp add: OSTimeDlyHMSM_def)

lemma kstep_sys_inv:
  assumes "kstep (s, k) (s', k')" and inv: "sys_inv k s"
  shows "sys_inv k' s'"
  using assms(1)
proof (cases rule: kstep.cases)
  case (sem_pend e timeout r)
  then show ?thesis using sem.pend_inv [OF inv, of "Some e" timeout s' r]
    by (cases r) (simp_all add: task_runs_def after_pend_def)
next
  case (mbox_pend e timeout r)
  then show ?thesis using mbox.pend_inv [OF inv, of "Some e" timeout s' r]
    by (cases r) (simp_all add: task_runs_def after_pend_def)
next
  case (q_pend e timeout r)
  then show ?thesis using msgq.pend_inv [OF inv, of "Some e" timeout s' r]
    by (cases r) (simp_all add: task_runs_def after_pend_def)
next
  case (multi_pend es er mr timeout r)
  then show ?thesis using OSEventPendMulti_inv [OF inv, of "Some es" er mr timeout s' r]
    by (cases r) (simp_all add: task_runs_def after_pend_def)
next
  case (mbox_post_opt opt e m err)
  then show ?thesis using mbox.post_opt_inv [OF inv, of opt "Some e" m] by (auto simp: opt_allowed_def)
next
  case (q_post_opt opt e m err)
  then show ?thesis using msgq.post_opt_inv [OF inv, of opt "Some e" m] by (auto simp: opt_allowed_def)
next
  case (sem_abort e opt n err)
  then show ?thesis using sem.abort_inv [OF inv, of "Some e" opt] by auto
next
  case (mbox_abort e opt n err)
  then show ?thesis using mbox.abort_inv [OF inv, of "Some e" opt] by auto
next
  case (q_abort e opt n err)
  then show ?thesis using msgq.abort_inv [OF inv, of "Some e" opt] by auto
next
  case (sem_del e opt p)
  then show ?thesis using sem.del_inv [OF inv, of "Some e" opt] by auto
next
  case (mbox_del e opt p)
  then show ?thesis using mbox.del_inv [OF inv, of "Some e" opt] by auto
next
  case (q_del e opt p)
  then show ?thesis using msgq.del_inv [OF inv, of "Some e" opt] by auto
next
  case int_enter
  then show ?thesis using IntEnter_pre_inv [OF sys_invD(1) [OF inv]] by (auto intro: pre_sys_inv)
next
  case (tick)
  then show ?thesis
    using TimeTick_pre_inv [OF sys_invD(1) [OF inv]] by (auto intro: pre_sys_inv)
next
  case (sys_tick)
  then show ?thesis using SysTick_Handler_inv [OF inv] by auto
next
  case (task_create ret task p_arg ptos prio err)
  then show ?thesis using create_step_sys_inv [OF inv, of prio s' err] TaskCreate_step [of prio s ret task p_arg ptos]
    by (simp add: after_create_def)
next
  case (task_create_ext ret task p_arg ptos prio i pbos sz ext opt err)
  then show ?thesis using create_step_sys_inv [OF inv, of prio s' err]
      TaskCreateExt_step [of prio s ret task p_arg ptos i pbos sz ext opt]
    by (simp add: after_create_def)
next
  case (change_prio prio newprio)
  then show ?thesis using TaskChangePrio_sys_inv [OF inv] by (auto simp: change_allowed_def may_call_def task_runs_def)
next
  case (task_del prio)
  then show ?thesis using TaskDel_sys_inv [OF inv] by (auto simp: delete_allowed_def task_runs_def)
next
  case (tmr_stop cb pt opt arg)
  then show ?thesis using Tmr_sys_inv(7) [OF inv] by (simp add: task_runs_def)
next
  case (tmr_round cb)
  then show ?thesis using TmrRound_sys_inv [OF inv] by (auto simp: task_runs_def)
qed (use inv in \<open>auto simp: task_runs_def intro: sem.resume_inv mbox.resume_inv msgq.resume_inv
       OSEventPendMulti_resume_inv sem.post_inv mbox.post_inv msgq.post_inv msgq_front.post_inv
       quiet_sys_inv accept_quiet OSSemCreate_inv OSMboxCreate_inv OSQCreate_inv TimeDly_sys_inv
       TimeDlyHMSM_sys_inv TimeDlyResume_sys_inv TaskSuspend_sys_inv TaskResume_sys_inv
       SchedLock_sys_inv SchedUnlock_sys_inv IntExit_sys_inv sys_invD Tmr_sys_inv(1-6) quiet_services\<close>)

lemma ksteps_sys_inv:
  assumes "kstep\<^sup>*\<^sup>* (s0, k0) (s, k)" and "sys_inv k0 s0"
  shows "sys_inv k s"
  using assms by (induction rule: rtranclp_induct2) (auto intro: kstep_sys_inv)

section \<open>What the invariant says\<close>

text \<open>
  A task that is not ready is suspended, has a delay or a timeout running, or is in the wait list
  of the event it pends on, so that a post, an abort or a deletion finds it.
\<close>

definition task_known :: "os \<Rightarrow> nat \<Rightarrow> nat \<Rightarrow> bool" where
  "task_known s n t \<longleftrightarrow>
     n \<in> bm_mem (rdy s) \<or> suspended (OSTCBTbl s t) \<or> OSTCBDly (OSTCBTbl s t) \<noteq> 0 \<or>
     (\<exists>e. OSTCBEventPtr (OSTCBTbl s t) = Some e \<and> n \<in> bm_mem (wl s e)) \<or> multi (OSTCBTbl s t)"

lemma sys_inv_known:
  assumes inv: "sys_inv k s" and at: "task_at s n t"
  shows "task_known s n t"
proof -
  note i = pre_invD [OF sys_invD(1) [OF inv]]
  let ?p = "OSTCBTbl s t"
  have ok: "task_ok (n \<in> bm_mem (rdy s)) (waits_on s n) (event_type s) ?p" using kernel_invD(6) [OF i(1) at] .
  have co: "cont_ok (k t) (waits_on s n) ?p" using i(8) [OF at] .
  show ?thesis
  proof (cases "n \<in> bm_mem (rdy s) \<or> suspended ?p \<or> OSTCBDly ?p \<noteq> 0 \<or> multi ?p")
    case True
    then show ?thesis by (auto simp: task_known_def)
  next
    case False
    then have "pending ?p" using ok by (simp add: task_ok_def)
    moreover have "OSTCBFlagNode ?p = None" using co by (simp add: cont_ok_def)
    ultimately have "waits_on s n \<noteq> {} \<and> waits_on s n = awaited ?p"
      using ok False unfolding task_ok_def by blast
    moreover have "OSTCBEventMultiPtr ?p = None"
      using co \<open>pending ?p\<close> False by (auto simp: cont_ok_def split: option.splits if_splits)
    ultimately obtain e where "OSTCBEventPtr ?p = Some e" "e \<in> waits_on s n"
      by (auto simp: awaited_def)
    then show ?thesis by (auto simp: task_known_def waits_on_def)
  qed
qed

end
