(* ===== verification/UCOS_Mutex.thy ===== *)
theory UCOS_Mutex
  imports UCOS_Event
begin

text \<open>
  The mutexes of \<open>os_mutex.c\<close> with their priority ceiling protocol.  The upper byte of
  \<open>OSEventCnt\<close> is the ceiling priority (PCP), the lower one the priority of the owner or
  \<open>0xFF\<close>; \<open>OSEventPtr\<close> points to the owner.  An owner that blocks a more urgent task runs at
  the ceiling priority until it releases the mutex.
\<close>

abbreviation (input) OS_MUTEX_KEEP_LOWER_8 :: INT16U where "OS_MUTEX_KEEP_LOWER_8 \<equiv> 0x00FF"
abbreviation (input) OS_MUTEX_KEEP_UPPER_8 :: INT16U where "OS_MUTEX_KEEP_UPPER_8 \<equiv> 0xFF00"
abbreviation (input) OS_MUTEX_AVAILABLE :: INT16U where "OS_MUTEX_AVAILABLE \<equiv> 0x00FF"

text \<open>\<open>(INT8U)(OSEventCnt >> 8)\<close> and \<open>(INT8U)(OSEventCnt & 0xFF)\<close>.\<close>

definition mutex_pcp :: "INT16U \<Rightarrow> INT8U" where "mutex_pcp cnt = ucast (drop_bit 8 cnt)"

definition mutex_owner_prio :: "INT16U \<Rightarrow> INT8U" where
  "mutex_owner_prio cnt = ucast (cnt AND OS_MUTEX_KEEP_LOWER_8)"

text \<open>Storing the priority of the new owner in the lower byte.\<close>

definition mutex_set_owner :: "INT8U \<Rightarrow> INT16U \<Rightarrow> INT16U" where
  "mutex_set_owner prio cnt = (cnt AND OS_MUTEX_KEEP_UPPER_8) OR ucast prio"

definition OSMutex_RdyAtPrio :: "nat \<Rightarrow> INT8U \<Rightarrow> os \<Rightarrow> os" where
  "OSMutex_RdyAtPrio t prio s =
     (let s = OS_RdyListRemove t s;
          s = upd_tcb t (\<lambda>p. p\<lparr>OSTCBPrio := prio\<rparr>) s;
          s = s\<lparr>OSPrioCur := prio\<rparr>;
          s = upd_tcb t (\<lambda>p. p\<lparr>OSTCBY := drop_bit 3 prio AND 0x07, OSTCBX := prio AND 0x07\<rparr>) s;
          s = upd_tcb t (\<lambda>p. p\<lparr>OSTCBBitY := push_bit (unat (OSTCBY p)) 1,
                               OSTCBBitX := push_bit (unat (OSTCBX p)) 1\<rparr>) s;
          s = OS_RdyListInsert t s
      in s\<lparr>OSTCBPrioTbl := (OSTCBPrioTbl s)(unat prio := TCB t)\<rparr>)"

text \<open>The acquisition of a free mutex by the current task; the result is the error code.\<close>

definition OS_MutexTake :: "nat \<Rightarrow> os \<Rightarrow> os \<times> INT8U" where
  "OS_MutexTake e s =
     (let pcp = mutex_pcp (OSEventCnt (OSEvents s e));
          prio = OSTCBPrio (OSTCBTbl s (cur s));
          s = upd_event e (\<lambda>v. v\<lparr>OSEventCnt := mutex_set_owner prio (OSEventCnt v),
                OSEventPtr := void_of_tcb (OSTCBCur s)\<rparr>) s
      in (s, if pcp \<noteq> OS_PRIO_MUTEX_CEIL_DIS \<and> prio \<le> pcp then OS_ERR_PCP_LOWER else OS_ERR_NONE))"

definition OSMutexAccept :: "nat option \<Rightarrow> os \<Rightarrow> os \<times> BOOLEAN \<times> INT8U" where
  "OSMutexAccept pevent s =
     (case pevent of None \<Rightarrow> (s, False, OS_ERR_PEVENT_NULL)
      | Some e \<Rightarrow>
          if OSEventType (OSEvents s e) \<noteq> OS_EVENT_TYPE_MUTEX then (s, False, OS_ERR_EVENT_TYPE)
          else if OSIntNesting s > 0 then (s, False, OS_ERR_PEND_ISR)
          else if OSEventCnt (OSEvents s e) AND OS_MUTEX_KEEP_LOWER_8 = OS_MUTEX_AVAILABLE
          then let (s, err) = OS_MutexTake e s in (s, True, err)
          else (s, False, OS_ERR_NONE))"

definition OSMutexCreate :: "INT8U \<Rightarrow> os \<Rightarrow> os \<times> nat option \<times> INT8U" where
  "OSMutexCreate prio s =
     (if prio \<noteq> OS_PRIO_MUTEX_CEIL_DIS \<and> prio \<ge> OS_LOWEST_PRIO then (s, None, OS_ERR_PRIO_INVALID)
      else if OSIntNesting s > 0 then (s, None, OS_ERR_CREATE_ISR)
      else if prio \<noteq> OS_PRIO_MUTEX_CEIL_DIS \<and> OSTCBPrioTbl s (unat prio) \<noteq> NullTCB
      then (s, None, OS_ERR_PRIO_EXIST)
      else
        let s = (if prio \<noteq> OS_PRIO_MUTEX_CEIL_DIS
                 then s\<lparr>OSTCBPrioTbl := (OSTCBPrioTbl s)(unat prio := OS_TCB_RESERVED)\<rparr> else s)
        in case OSEventFreeList s of
             None \<Rightarrow>
               let s = (if prio \<noteq> OS_PRIO_MUTEX_CEIL_DIS
                        then s\<lparr>OSTCBPrioTbl := (OSTCBPrioTbl s)(unat prio := NullTCB)\<rparr> else s)
               in (s, None, OS_ERR_PEVENT_NULL)
           | Some e \<Rightarrow>
               let s = fst (OS_EventAlloc s);
                   s = upd_event e (\<lambda>v. v\<lparr>OSEventType := OS_EVENT_TYPE_MUTEX,
                         OSEventCnt := push_bit 8 (ucast prio) OR OS_MUTEX_AVAILABLE,
                         OSEventPtr := NULL, OSEventName := Some ''?''\<rparr>) s
               in (OS_EventWaitListInit e s, Some e, OS_ERR_NONE))"

text \<open>The release of the reserved ceiling priority and of the control block.\<close>

definition OS_MutexFree :: "nat \<Rightarrow> os \<Rightarrow> os" where
  "OS_MutexFree e s =
     (let pcp = mutex_pcp (OSEventCnt (OSEvents s e));
          s = (if pcp \<noteq> OS_PRIO_MUTEX_CEIL_DIS
               then s\<lparr>OSTCBPrioTbl := (OSTCBPrioTbl s)(unat pcp := NullTCB)\<rparr> else s)
      in OS_EventFree e s)"

definition OSMutexDel :: "nat option \<Rightarrow> INT8U \<Rightarrow> os \<Rightarrow> (os \<times> nat option \<times> INT8U) option" where
  "OSMutexDel pevent opt s =
     (case pevent of None \<Rightarrow> Some (s, None, OS_ERR_PEVENT_NULL)
      | Some e \<Rightarrow>
          if OSEventType (OSEvents s e) \<noteq> OS_EVENT_TYPE_MUTEX then Some (s, Some e, OS_ERR_EVENT_TYPE)
          else if OSIntNesting s > 0 then Some (s, Some e, OS_ERR_DEL_ISR)
          else let tasks_waiting = (OSEventGrp (OSEvents s e) \<noteq> 0)
               in if opt = OS_DEL_NO_PEND then
                    if \<not> tasks_waiting then Some (OS_MutexFree e s, None, OS_ERR_NONE)
                    else Some (s, Some e, OS_ERR_TASK_WAITING)
                  else if opt = OS_DEL_ALWAYS then
                    let cnt = OSEventCnt (OSEvents s e);
                        pcp = mutex_pcp cnt;
                        s = (if pcp \<noteq> OS_PRIO_MUTEX_CEIL_DIS
                             then case tcb_of_void (OSEventPtr (OSEvents s e)) of
                                    TCB t \<Rightarrow> if OSTCBPrio (OSTCBTbl s t) = pcp
                                             then OSMutex_RdyAtPrio t (mutex_owner_prio cnt) s else s
                                  | _ \<Rightarrow> s
                             else s)
                    in case OS_EventTaskRdyAll e NULL OS_STAT_MUTEX OS_STAT_PEND_ABORT (s, 0) of
                         None \<Rightarrow> None
                       | Some (s, _) \<Rightarrow>
                           let s = OS_MutexFree e s
                           in Some (if tasks_waiting then OS_Sched s else s, None, OS_ERR_NONE)
                  else Some (s, Some e, OS_ERR_INVALID_OPT))"

text \<open>
  The promotion of the owner to the ceiling priority: it moves in the ready list, or in the wait
  list of the event it pends on.
\<close>

definition OS_MutexPromote :: "nat \<Rightarrow> INT8U \<Rightarrow> os \<Rightarrow> os" where
  "OS_MutexPromote t pcp s =
     (let p = OSTCBTbl s t;
          ready = (OSRdyTbl s ! unat (OSTCBY p) AND OSTCBBitX p \<noteq> 0);
          s = (if ready then OS_RdyListRemove t s
               else case OSTCBEventPtr p of None \<Rightarrow> s | Some e2 \<Rightarrow> OS_WaitListRemove t e2 s);
          s = upd_tcb t (set_prio_xy pcp) s;
          s = (if ready then OS_RdyListInsert t s
               else case OSTCBEventPtr p of None \<Rightarrow> s | Some e2 \<Rightarrow> OS_WaitListInsert t e2 s)
      in s\<lparr>OSTCBPrioTbl := (OSTCBPrioTbl s)(unat pcp := TCB t)\<rparr>)"

definition OSMutexPend :: "nat option \<Rightarrow> INT32U \<Rightarrow> os \<Rightarrow> os \<times> INT8U option" where
  "OSMutexPend pevent timeout s =
     (case pevent of None \<Rightarrow> (s, Some OS_ERR_PEVENT_NULL)
      | Some e \<Rightarrow>
          if OSEventType (OSEvents s e) \<noteq> OS_EVENT_TYPE_MUTEX then (s, Some OS_ERR_EVENT_TYPE)
          else if OSIntNesting s > 0 then (s, Some OS_ERR_PEND_ISR)
          else if OSLockNesting s > 0 then (s, Some OS_ERR_PEND_LOCKED)
          else
            let cnt = OSEventCnt (OSEvents s e);
                pcp = mutex_pcp cnt
            in if mutex_owner_prio cnt = ucast OS_MUTEX_AVAILABLE
               then let (s, err) = OS_MutexTake e s in (s, Some err)
               else
                 let s = (if pcp \<noteq> OS_PRIO_MUTEX_CEIL_DIS
                          then let mprio = mutex_owner_prio cnt;
                                   t = tcb_ix (tcb_of_void (OSEventPtr (OSEvents s e)))
                               in if OSTCBPrio (OSTCBTbl s t) > pcp
                                  then if mprio > OSTCBPrio (OSTCBTbl s (cur s))
                                       then OS_MutexPromote t pcp s else s
                                  else s
                          else s)
                 in (OS_Sched (OS_PendBlock OS_STAT_MUTEX timeout e s), None))"

definition OSMutexPend_resume :: "nat \<Rightarrow> os \<Rightarrow> os \<times> INT8U" where
  "OSMutexPend_resume e s =
     (let stat_pend = OSTCBStatPend (OSTCBTbl s (cur s));
          (s, err) =
            (if stat_pend = OS_STAT_PEND_OK then (s, OS_ERR_NONE)
             else if stat_pend = OS_STAT_PEND_ABORT then (s, OS_ERR_PEND_ABORT)
             else (OS_EventTaskRemove (cur s) e s, OS_ERR_TIMEOUT))
      in (OS_PendDone s, err))"

definition OSMutexPost :: "nat option \<Rightarrow> os \<Rightarrow> os \<times> INT8U" where
  "OSMutexPost pevent s =
     (if OSIntNesting s > 0 then (s, OS_ERR_POST_ISR)
      else case pevent of None \<Rightarrow> (s, OS_ERR_PEVENT_NULL)
      | Some e \<Rightarrow>
          if OSEventType (OSEvents s e) \<noteq> OS_EVENT_TYPE_MUTEX then (s, OS_ERR_EVENT_TYPE)
          else
            let cnt = OSEventCnt (OSEvents s e);
                pcp = mutex_pcp cnt;
                prio = mutex_owner_prio cnt
            in if OSTCBCur s \<noteq> tcb_of_void (OSEventPtr (OSEvents s e)) then (s, OS_ERR_NOT_MUTEX_OWNER)
               else
                 let s = (if pcp \<noteq> OS_PRIO_MUTEX_CEIL_DIS
                          then let s = (if OSTCBPrio (OSTCBTbl s (cur s)) = pcp
                                        then OSMutex_RdyAtPrio (cur s) prio s else s)
                               in s\<lparr>OSTCBPrioTbl := (OSTCBPrioTbl s)(unat pcp := OS_TCB_RESERVED)\<rparr>
                          else s)
                 in if OSEventGrp (OSEvents s e) \<noteq> 0
                    then let (s, prio) = OS_EventTaskRdy e NULL OS_STAT_MUTEX OS_STAT_PEND_OK s;
                             s = upd_event e (\<lambda>v. v\<lparr>OSEventCnt := mutex_set_owner prio (OSEventCnt v),
                                   OSEventPtr := void_of_tcb (OSTCBPrioTbl s (unat prio))\<rparr>) s
                         in if pcp \<noteq> OS_PRIO_MUTEX_CEIL_DIS \<and> prio \<le> pcp
                            then (OS_Sched s, OS_ERR_PCP_LOWER)
                            else (OS_Sched s, OS_ERR_NONE)
                    else (upd_event e (\<lambda>v. v\<lparr>OSEventCnt := OSEventCnt v OR OS_MUTEX_AVAILABLE,
                            OSEventPtr := NULL\<rparr>) s, OS_ERR_NONE))"

definition OSMutexQuery :: "nat option \<Rightarrow> bool \<Rightarrow> os \<Rightarrow> INT8U \<times> os_mutex_data option" where
  "OSMutexQuery pevent pdata s =
     (if OSIntNesting s > 0 then (OS_ERR_QUERY_ISR, None)
      else case pevent of None \<Rightarrow> (OS_ERR_PEVENT_NULL, None)
      | Some e \<Rightarrow>
          if \<not> pdata then (OS_ERR_PDATA_NULL, None)
          else let v = OSEvents s e
               in if OSEventType v \<noteq> OS_EVENT_TYPE_MUTEX then (OS_ERR_EVENT_TYPE, None)
                  else (OS_ERR_NONE,
                        Some \<lparr>OSMutexEventTbl = map (\<lambda>i. OSEventTbl v ! i) [0..<OS_EVENT_TBL_SIZE],
                              OSMutexEventGrp = OSEventGrp v,
                              OSValue = (mutex_owner_prio (OSEventCnt v) = 0xFF),
                              OSOwnerPrio = mutex_owner_prio (OSEventCnt v),
                              OSMutexPCP = mutex_pcp (OSEventCnt v)\<rparr>))"

end
