(* ===== verification/UCOS_Init.thy ===== *)
theory UCOS_Init
  imports UCOS_Tmr UCOS_Q UCOS_Mem UCOS_Mutex UCOS_Mbox UCOS_Multi
begin

text \<open>
  The start of the kernel: \<open>OSInit\<close> of \<open>os_core.c\<close> and the routines it calls.  The hooks
  and \<open>OSDebugInit\<close>, which only takes addresses of constants, are left out.
\<close>

definition OS_InitMisc :: "os \<Rightarrow> os" where
  "OS_InitMisc s =
     s\<lparr>OSTime := 0, OSIntNesting := 0, OSLockNesting := 0, OSTaskCtr := 0, OSRunning := False,
       OSCtxSwCtr := 0, OSIdleCtr := 0, OSIdleCtrRun := 0, OSIdleCtrMax := 0, OSStatRdy := False,
       OSTaskRegNextAvailID := 0\<rparr>"

definition OS_InitRdyList :: "os \<Rightarrow> os" where
  "OS_InitRdyList s =
     s\<lparr>OSRdyGrp := 0, OSRdyTbl := map (\<lambda>i. 0) [0..<OS_RDY_TBL_SIZE], OSPrioCur := 0,
       OSPrioHighRdy := 0, OSTCBHighRdy := NullTCB, OSTCBCur := NullTCB\<rparr>"

fun OS_InitTCBChain :: "nat \<Rightarrow> nat \<Rightarrow> os \<Rightarrow> os" where
  "OS_InitTCBChain 0 ix s = s"
| "OS_InitTCBChain (Suc n) ix s =
     OS_InitTCBChain n (ix + 1)
       (upd_tcb ix (\<lambda>p. p\<lparr>OSTCBNext := TCB (ix + 1), OSTCBTaskName := Some ''?''\<rparr>) s)"

definition OS_InitTCBList :: "os \<Rightarrow> os" where
  "OS_InitTCBList s =
     (let s = s\<lparr>OSTCBTbl := (\<lambda>_. zero_tcb), OSTCBPrioTbl := (\<lambda>_. NullTCB)\<rparr>;
          last = OS_MAX_TASKS + OS_N_SYS_TASKS - 1;
          s = OS_InitTCBChain last 0 s;
          s = upd_tcb last (\<lambda>p. p\<lparr>OSTCBNext := NullTCB, OSTCBTaskName := Some ''?''\<rparr>) s
      in s\<lparr>OSTCBList := NullTCB, OSTCBFreeList := TCB 0\<rparr>)"

definition OS_InitTaskIdle :: "sys_task \<Rightarrow> os \<Rightarrow> os" where
  "OS_InitTaskIdle k s =
     (let s = fst (OSTaskCreateExt (st_ret k) (st_entry k) 0 (st_stk k + (OS_TASK_IDLE_STK_SIZE - 1))
                OS_TASK_IDLE_PRIO OS_TASK_IDLE_ID (st_stk k) (of_nat OS_TASK_IDLE_STK_SIZE) NULL
                (OS_TASK_OPT_STK_CHK OR OS_TASK_OPT_STK_CLR) s)
      in fst (OSTaskNameSet OS_TASK_IDLE_PRIO (Some ''uC/OS-II Idle'') s))"

definition OS_InitTaskStat :: "sys_task \<Rightarrow> os \<Rightarrow> os" where
  "OS_InitTaskStat k s =
     (let s = fst (OSTaskCreateExt (st_ret k) (st_entry k) 0 (st_stk k + (OS_TASK_STAT_STK_SIZE - 1))
                OS_TASK_STAT_PRIO OS_TASK_STAT_ID (st_stk k) (of_nat OS_TASK_STAT_STK_SIZE) NULL
                (OS_TASK_OPT_STK_CHK OR OS_TASK_OPT_STK_CLR) s)
      in fst (OSTaskNameSet OS_TASK_STAT_PRIO (Some ''uC/OS-II Stat'') s))"

text \<open>The three system tasks: idle, statistics and timers.\<close>

definition OSInit :: "sys_task \<Rightarrow> sys_task \<Rightarrow> sys_task \<Rightarrow> os \<Rightarrow> os" where
  "OSInit idle stat tmr s =
     (let s = OS_InitMisc s;
          s = OS_InitRdyList s;
          s = OS_InitTCBList s;
          s = OS_InitEventList s;
          s = OS_FlagInit s;
          s = OS_MemInit s;
          s = OS_QInit s;
          s = OS_InitTaskIdle idle s;
          s = OS_InitTaskStat stat s
      in OSTmr_Init tmr s)"

end
