(* ===== verification/UCOS_Boot.thy ===== *)
theory UCOS_Boot
  imports UCOS_System UCOS_Quiet UCOS_Init
begin

text \<open>
  From \<open>OSInit\<close> to \<open>OSStart\<close>: the application initialises the kernel, creates tasks and
  events, and starts it.  Every state from which \<open>OSStart\<close> may be called is one that
  \<open>OSStart\<close> turns into a state with the system invariant.
\<close>

section \<open>Starting\<close>

lemma Start_eq:
  "\<not> OSRunning s \<Longrightarrow> OSStart s =
     s\<lparr>OSPrioHighRdy := bm_top (rdy s), OSPrioCur := bm_top (rdy s),
       OSTCBHighRdy := OSTCBPrioTbl s (unat (bm_top (rdy s))),
       OSTCBCur := OSTCBPrioTbl s (unat (bm_top (rdy s))), OSRunning := True\<rparr>"
  by (simp add: OSStart_def OSStartHighRdy_def OS_SchedNew_def bm_top_def rdy_def Let_def)

text \<open>
  \<open>OSStart\<close> does what a context switch would do if some task of the table were running already.
\<close>

lemma Start_sys_inv:
  assumes run: "\<not> OSRunning s" and lock: "OSLockNesting s = 0"
    and inv: "pre_inv k (s\<lparr>OSPrioCur := p, OSTCBCur := c, OSRunning := True\<rparr>)"
  shows "sys_inv k (OSStart s)"
proof -
  let ?v = "s\<lparr>OSPrioCur := p, OSTCBCur := c, OSRunning := True\<rparr>"
  have l: "OSLockNesting ?v = 0" using lock by simp
  note sw = Switch_pre_inv [OF inv l]
  have c: "OSTCBPrioTbl s (unat p) = c" using pre_invD(6,7) [OF inv] by (simp add: task_at_def)
  have r: "rdy ?v = rdy s" by (simp add: rdy_def)
  have "quiet (OS_SwitchHighRdy ?v) (OSStart s)"
    unfolding quiet_def same_run_def Switch_run Start_eq [OF run] r
    using c by (simp add: r Switch_frame) (simp add: switch_defs same_kernel_def same_task_def
      tcb_coords_def tcb_sync_def rdy_def wl_def)
  then have "pre_inv k (OSStart s)" by (rule quiet_pre_inv [OF sw(1)])
  moreover have "unat (OSPrioCur (OSStart s)) = Min (bm_mem (rdy (OSStart s)))"
    using sw(2) by (simp add: Switch_run r Start_eq [OF run]) (simp add: rdy_def)
  ultimately show ?thesis by (simp add: sys_inv_def top_runs_def)
qed

section \<open>Before the start\<close>

definition boot_inv :: "os \<Rightarrow> bool" where
  "boot_inv s \<longleftrightarrow> \<not> OSRunning s \<and> OSIntNesting s = 0 \<and> OSLockNesting s = 0 \<and>
     sys_inv Map.empty (OSStart s)"

lemma boot_inv_quiet:
  assumes b: "boot_inv s" and q: "quiet s s'"
  shows "boot_inv s'"
proof -
  note d = quietD [OF q]
  note sk = same_kernelD [OF d(1)]
  have r: "\<not> OSRunning s" "\<not> OSRunning s'" using b by (simp_all add: boot_inv_def sk)
  have rr: "OSRdyGrp s' = OSRdyGrp s" "OSRdyTbl s' = OSRdyTbl s" using d(4) by (simp_all add: rdy_def)
  have "quiet (OSStart s) (OSStart s')"
    unfolding Start_eq [OF r(1)] Start_eq [OF r(2)]
    using q by (simp add: d(4) sk(1) quiet_def same_run_def) (simp add: same_kernel_def rdy_def wl_def rr)
  then show ?thesis using b quiet_sys_inv by (auto simp: boot_inv_def sk)
qed

text \<open>Creating an event before the start or after it gives the same state.\<close>

lemma Start_commutes:
  assumes "\<not> OSRunning s"
  shows "OSStart (fst (OSSemCreate cnt s)) = fst (OSSemCreate cnt (OSStart s))"
    and "OSStart (fst (OSMboxCreate m s)) = fst (OSMboxCreate m (OSStart s))"
    and "OSStart (fst (OSQCreate start sz s)) = fst (OSQCreate start sz (OSStart s))"
proof -
  show "OSStart (fst (OSSemCreate cnt s)) = fst (OSSemCreate cnt (OSStart s))"
    using assms by (cases "OSEventFreeList s")
      (simp_all add: OSSemCreate_def OS_EventAlloc_def Let_def Start_eq upd_event_def OS_EventWaitListInit_def rdy_def)
  show "OSStart (fst (OSMboxCreate m s)) = fst (OSMboxCreate m (OSStart s))"
    using assms by (cases "OSEventFreeList s")
      (simp_all add: OSMboxCreate_def OS_EventAlloc_def Let_def Start_eq upd_event_def OS_EventWaitListInit_def rdy_def)
  show "OSStart (fst (OSQCreate start sz s)) = fst (OSQCreate start sz (OSStart s))"
    using assms by (cases "OSEventFreeList s"; cases "OSQFreeList s")
      (simp_all add: OSQCreate_def OS_EventAlloc_def Let_def Start_eq upd_event_def upd_q_def
        OS_EventWaitListInit_def rdy_def)
qed

lemma create_frame:
  "OSRunning (fst (OSSemCreate cnt s)) = OSRunning s" "OSIntNesting (fst (OSSemCreate cnt s)) = OSIntNesting s"
  "OSLockNesting (fst (OSSemCreate cnt s)) = OSLockNesting s"
  "OSRunning (fst (OSMboxCreate m s)) = OSRunning s" "OSIntNesting (fst (OSMboxCreate m s)) = OSIntNesting s"
  "OSLockNesting (fst (OSMboxCreate m s)) = OSLockNesting s"
  "OSRunning (fst (OSQCreate start sz s)) = OSRunning s" "OSIntNesting (fst (OSQCreate start sz s)) = OSIntNesting s"
  "OSLockNesting (fst (OSQCreate start sz s)) = OSLockNesting s"
  by (cases "OSEventFreeList s"; cases "OSQFreeList s"; simp add: OSSemCreate_def OSMboxCreate_def OSQCreate_def
      OS_EventAlloc_def Let_def upd_event_def upd_q_def OS_EventWaitListInit_def)+

lemma event_create_boot_inv:
  assumes "boot_inv s"
  shows "boot_inv (fst (OSSemCreate cnt s))" and "boot_inv (fst (OSMboxCreate m s))"
    and "boot_inv (fst (OSQCreate start sz s))"
  using assms Start_commutes [of s]
  by (simp_all add: boot_inv_def create_frame OSSemCreate_inv OSMboxCreate_inv OSQCreate_inv)

text \<open>Creating a task before the start, where \<open>OSTaskCreate\<close> leaves out the scheduler.\<close>

lemma adds_task_run:
  assumes "adds_task n t u v"
  shows "adds_task n t (u\<lparr>OSPrioCur := p, OSTCBCur := c, OSRunning := True\<rparr>)
    (v\<lparr>OSPrioCur := p, OSTCBCur := c, OSRunning := True\<rparr>)"
  using assms by (simp add: adds_task_def rdy_def bm_ins_def bm_set_def)

lemma create_step_boot_inv:
  assumes b: "boot_inv s" and st: "create_step prio s (s', err)"
  shows "boot_inv s'"
  using st unfolding create_step_def
proof (elim disjE)
  assume "snd (s', err) \<noteq> OS_ERR_NONE \<and> (\<exists>c. fst (s', err) = s\<lparr>OSStkCell := c\<rparr>)"
  then obtain c where "s' = s\<lparr>OSStkCell := c\<rparr>" by auto
  then have "quiet s s'" by (simp add: quiet_def same_kernel_def same_run_def rdy_def wl_def)
  with b show ?thesis by (rule boot_inv_quiet)
next
  assume "\<exists>t c s2. prio \<le> 63 \<and> OSTCBPrioTbl s (unat prio) = NullTCB \<and> OSTCBFreeList s = TCB t \<and> snd (s', err) = OS_ERR_NONE \<and>
        (OSTCBList s \<noteq> TCB t \<longrightarrow>
           adds_task (unat prio) t (s\<lparr>OSStkCell := c, OSTCBPrioTbl := (OSTCBPrioTbl s)(unat prio := OS_TCB_RESERVED)\<rparr>) s2) \<and>
        fst (s', err) = (if OSRunning s2 then OS_Sched s2 else s2)"
  then obtain t c s2 where c: "prio \<le> 63" "OSTCBPrioTbl s (unat prio) = NullTCB" "OSTCBFreeList s = TCB t"
    and add: "OSTCBList s \<noteq> TCB t \<Longrightarrow>
      adds_task (unat prio) t (s\<lparr>OSStkCell := c, OSTCBPrioTbl := (OSTCBPrioTbl s)(unat prio := OS_TCB_RESERVED)\<rparr>) s2"
    and s': "s' = (if OSRunning s2 then OS_Sched s2 else s2)" by auto
  have run: "\<not> OSRunning s" using b by (simp add: boot_inv_def)
  let ?w = "OSStart s"
  let ?up = "\<lambda>v. v\<lparr>OSPrioCur := OSPrioCur ?w, OSTCBCur := OSTCBCur ?w, OSRunning := True\<rparr>"
  have inv: "pre_inv Map.empty ?w" using b by (simp add: boot_inv_def sys_invD(1))
  have "OSTCBList s \<noteq> TCB t" using pre_inv_free_not_head [OF inv, of t] c(3) by (simp add: Start_eq [OF run])
  note a = add [OF this]
  have pu: "pre_inv Map.empty (?w\<lparr>OSStkCell := c, OSTCBPrioTbl := (OSTCBPrioTbl ?w)(unat prio := OS_TCB_RESERVED)\<rparr>)"
    using c(2) by (intro pre_inv_reserve [OF inv]) (simp add: Start_eq [OF run])
  have "adds_task (unat prio) t (?w\<lparr>OSStkCell := c, OSTCBPrioTbl := (OSTCBPrioTbl ?w)(unat prio := OS_TCB_RESERVED)\<rparr>) (?up s2)"
    using adds_task_run [OF a, where p = "OSPrioCur ?w" and c = "OSTCBCur ?w"]
    by (simp add: Start_eq [OF run] adds_task_def rdy_def)
  from adds_task_pre_inv [OF pu this] have "pre_inv Map.empty (?up s2)"
    using c(1) by (simp add: word_le_nat_alt)
  moreover have s2: "\<not> OSRunning s2" "OSIntNesting s2 = 0" "OSLockNesting s2 = 0"
    using a b by (simp_all add: adds_task_def boot_inv_def)
  ultimately show ?thesis using Start_sys_inv [OF s2(1,3)] by (simp add: boot_inv_def s' s2)
qed

section \<open>The first task\<close>

text \<open>Before any task exists: what \<open>OSInit\<close> has set up when it creates the idle task.\<close>

definition no_tasks :: "os \<Rightarrow> bool" where
  "no_tasks s \<longleftrightarrow> \<not> OSRunning s \<and> OSIntNesting s = 0 \<and> OSLockNesting s = 0 \<and>
     rdy s = (0, replicate 8 0) \<and> (\<forall>e. wl s e = (0, replicate 8 0)) \<and>
     (\<forall>e. event_type s e = OS_EVENT_TYPE_UNUSED) \<and> (\<exists>es. event_pool.holds s es) \<and>
     (\<forall>n u. OSTCBPrioTbl s n \<noteq> TCB u) \<and> OSTCBList s = NullTCB \<and>
     (\<exists>fs. path (tcb_next s) (tcb_opt (OSTCBFreeList s)) fs)"

lemma first_task:
  assumes no: "no_tasks u" and a: "adds_task 63 t u v"
  shows "boot_inv v"
proof -
  let ?v = "v\<lparr>OSPrioCur := 63, OSTCBCur := TCB t, OSRunning := True\<rparr>"
  note D = adds_taskD [OF a]
  have none: "OSTCBPrioTbl u n \<noteq> TCB x" for n x using no by (simp add: no_tasks_def)
  have tbl: "OSTCBPrioTbl ?v n = TCB x \<longleftrightarrow> n = 63 \<and> x = t" for n x using none by (auto simp: D(5))
  have tcb: "OSTCBTbl ?v = OSTCBTbl v" by simp
  have at: "task_at ?v n x \<longleftrightarrow> n = 63 \<and> x = t" for n x
    unfolding task_at_def tbl using D(9) by auto
  have r: "rdy ?v = bm_ins 63 (0, replicate 8 0)" using no D(6) by (simp add: no_tasks_def rdy_def)
  have ev: "OSEvents v = OSEvents u" using a by (simp add: adds_task_def)
  have w: "wl ?v e = (0, replicate 8 0)" for e using no ev by (simp add: no_tasks_def wl_def)
  then have wo: "waits_on ?v n = {}" for n by (simp add: waits_on_def bm_mem_empty)
  have mem: "bm_ok (rdy ?v)" "bm_mem (rdy ?v) = {63}"
    by (simp_all add: r bm_ok_ins bm_mem_ins bm_ok_empty bm_mem_empty)
  have "kernel_inv ?v"
    unfolding kernel_inv_def at tbl mem wo w
    using D(8,9) fresh_task_ok(1) [OF D(14)] by (simp add: bm_ok_empty tbl mem)
  moreover have "conts_ok Map.empty ?v"
    unfolding conts_ok_def at wo using fresh_task_ok(2) [OF D(14)] by simp
  moreover have "cur_ok ?v" by (simp add: cur_ok_def at)
  moreover have "free_events_ok ?v"
  proof -
    obtain es where "event_pool.holds u es" using no by (auto simp: no_tasks_def)
    moreover have "event_next ?v = event_next u" using ev by (intro ext) (simp add: event_next_def)
    ultimately have "event_pool.holds ?v es" using a by (simp add: event_pool.holds_def adds_task_def)
    then show ?thesis using no ev by (auto simp: free_events_ok_def no_tasks_def)
  qed
  moreover have "task_list ?v [t]"
  proof -
    obtain fs where f: "path (tcb_next u) (tcb_opt (OSTCBFreeList u)) fs" using no by (auto simp: no_tasks_def)
    then obtain fs' where fs: "fs = t # fs'" using D(1) by (cases fs) (auto simp: tcb_opt_def)
    have d: "t \<notin> set fs'" using path_distinct [OF f] fs by simp
    have tn: "tcb_next ?v = tcb_next v" "tcb_prev ?v = tcb_prev v" by (intro ext; simp add: tcb_next_def tcb_prev_def)+
    have "path (tcb_next v) (tcb_next u t) fs'"
    proof (rule path_cong [of _ _ "tcb_next u"])
      show "tcb_next v x = tcb_next u x" if "x \<in> set fs'" for x using that d by (intro D(12)) auto
      show "path (tcb_next u) (tcb_next u t) fs'" using f fs by simp
    qed
    moreover have "tcb_opt (OSTCBFreeList ?v) = tcb_next u t" by (simp add: D(2) tcb_next_def)
    ultimately have "free_tcbs ?v fs'" unfolding free_tcbs_def tn tbl using d by auto
    moreover have "tcb_next v t = None" using no D(13) by (simp add: no_tasks_def tcb_opt_def)
    moreover have "OSTCBPrev (OSTCBTbl v t) = NullTCB" "tcb_prev v t = None"
      using no D(15) by (simp_all add: no_tasks_def tcb_prev_def tcb_opt_def new_prev_def)
    ultimately show ?thesis unfolding task_list_def at tbl tn using D(3,9) by (auto simp: tcb_opt_def)
  qed
  moreover have nest: "\<not> OSRunning v" "OSIntNesting v = 0" "OSLockNesting v = 0"
    using no a by (simp_all add: no_tasks_def adds_task_def)
  ultimately have "pre_inv Map.empty ?v" by (auto simp: pre_inv_def)
  then show ?thesis using Start_sys_inv [OF nest(1,3)] nest by (simp add: boot_inv_def)
qed

section \<open>OSInit\<close>

text \<open>The control blocks of the tasks are chained in the order of the table.\<close>

lemma InitTCBChain_effect:
  "tcb_next (OS_InitTCBChain n ix s) t = (if ix \<le> t \<and> t < ix + n then Some (Suc t) else tcb_next s t) \<and>
   (\<exists>f. OS_InitTCBChain n ix s = s\<lparr>OSTCBTbl := f\<rparr>)"
proof (induction n arbitrary: ix s)
  case 0
  show ?case by (intro conjI exI [of _ "OSTCBTbl s"]) auto
next
  case (Suc n)
  let ?u = "upd_tcb ix (\<lambda>p. p\<lparr>OSTCBNext := TCB (ix + 1), OSTCBTaskName := Some ''?''\<rparr>) s"
  have n: "tcb_next ?u t = (if t = ix then Some (Suc ix) else tcb_next s t)"
    by (simp add: tcb_next_def upd_tcb_def tcb_opt_def)
  obtain f where f: "OS_InitTCBChain n (ix + 1) ?u = ?u\<lparr>OSTCBTbl := f\<rparr>" using Suc.IH by blast
  show ?case using Suc.IH [of "ix + 1" ?u] f n by (auto simp: upd_tcb_def)
qed

lemma InitTCBList_effect:
  "path (tcb_next (OS_InitTCBList s)) (tcb_opt (OSTCBFreeList (OS_InitTCBList s))) [0..<22]"
  "OSTCBPrioTbl (OS_InitTCBList s) = (\<lambda>_. NullTCB)" "OSTCBList (OS_InitTCBList s) = NullTCB"
  "\<exists>f. OS_InitTCBList s = s\<lparr>OSTCBTbl := f, OSTCBPrioTbl := \<lambda>_. NullTCB, OSTCBList := NullTCB, OSTCBFreeList := TCB 0\<rparr>"
proof -
  let ?s = "s\<lparr>OSTCBTbl := (\<lambda>_. zero_tcb), OSTCBPrioTbl := (\<lambda>_. NullTCB)\<rparr>"
  obtain f where f: "OS_InitTCBChain 21 0 ?s = ?s\<lparr>OSTCBTbl := f\<rparr>" using InitTCBChain_effect by blast
  let ?g = "f(21 := (f 21)\<lparr>OSTCBNext := NullTCB, OSTCBTaskName := Some ''?''\<rparr>)"
  have r: "OS_InitTCBList s =
      s\<lparr>OSTCBTbl := ?g, OSTCBPrioTbl := \<lambda>_. NullTCB, OSTCBList := NullTCB, OSTCBFreeList := TCB 0\<rparr>"
    using f by (simp add: OS_InitTCBList_def upd_tcb_def Let_def)
  show "OSTCBPrioTbl (OS_InitTCBList s) = (\<lambda>_. NullTCB)" "OSTCBList (OS_InitTCBList s) = NullTCB"
    "\<exists>f. OS_InitTCBList s = s\<lparr>OSTCBTbl := f, OSTCBPrioTbl := \<lambda>_. NullTCB, OSTCBList := NullTCB, OSTCBFreeList := TCB 0\<rparr>"
    by (auto simp: r)
  have "tcb_next (OS_InitTCBList s) x = Some (Suc x)" if "x < 21" for x
    using InitTCBChain_effect [of 21 0 ?s x] f that by (simp add: r tcb_next_def)
  then have "path (tcb_next (OS_InitTCBList s)) (Some 0) [0..<Suc 21]"
    by (intro path_table) (simp_all add: r tcb_next_def tcb_opt_def)
  then show "path (tcb_next (OS_InitTCBList s)) (tcb_opt (OSTCBFreeList (OS_InitTCBList s))) [0..<22]"
    by (simp add: r tcb_opt_def)
qed

lemma InitEventList_frame:
  "\<exists>f. OS_InitEventList s = s\<lparr>OSEvents := f, OSEventFreeList := Some 0\<rparr>"
proof -
  have c: "\<exists>f. OS_InitEventChain n ix s = s\<lparr>OSEvents := f\<rparr>" for n ix s
  proof (induction n arbitrary: ix s)
    case 0
    show ?case by (intro exI [of _ "OSEvents s"]) simp
  next
    case (Suc n)
    let ?u = "upd_event ix (\<lambda>p. p\<lparr>OSEventType := OS_EVENT_TYPE_UNUSED, OSEventPtr := EventP (ix + 1),
        OSEventName := Some ''?''\<rparr>) s"
    obtain f where "OS_InitEventChain n (ix + 1) ?u = ?u\<lparr>OSEvents := f\<rparr>" using Suc.IH by blast
    then show ?case by (intro exI [of _ f]) (simp add: upd_event_def)
  qed
  obtain f where "OS_InitEventChain (OS_MAX_EVENTS - 1) 0 (s\<lparr>OSEvents := \<lambda>_. zero_event\<rparr>) =
      s\<lparr>OSEvents := \<lambda>_. zero_event, OSEvents := f\<rparr>" using c by blast
  then show ?thesis by (auto simp: OS_InitEventList_def Let_def upd_event_def)
qed

text \<open>What the tables of the other components are set to does not matter to the tasks.\<close>

lemma quiet_upd_grp [simp]: "quiet s (upd_grp g f s)"
  by (simp add: upd_grp_def)

lemma quiet_chains:
  "quiet s (OS_FlagInitChain n ix s)" "quiet s (OS_MemInitChain n ix s)" "quiet s (OS_QInitChain n ix s)"
  "quiet s (OSTmr_InitChain n ix s)"
  by (induction n arbitrary: ix s; simp; blast intro: quiet_trans quiet_upd quiet_upd_grp quiet_upd_q)+

lemma InitRdyList_lists: "rdy (OS_InitRdyList s) = (0, replicate 8 0)"
proof -
  have "map (\<lambda>i. 0 :: INT8U) [0..<OS_RDY_TBL_SIZE] = replicate 8 0" by (simp add: map_replicate_const)
  then show ?thesis by (simp add: OS_InitRdyList_def rdy_def)
qed

lemma no_tasks_quiet:
  assumes "no_tasks s" and q: "quiet s s'" and "OSTCBTbl s' = OSTCBTbl s"
    and "OSEvents s' = OSEvents s"
  shows "no_tasks s'"
proof -
  have "tcb_next s' = tcb_next s" "event_next s' = event_next s" "wl s' = wl s"
    using assms(3,4) by (auto simp: tcb_next_def event_next_def wl_def fun_eq_iff)
  then show ?thesis
    using assms(1) quietD(4) [OF q] same_kernelD [OF quietD(1) [OF q]]
    by (simp add: no_tasks_def event_pool.holds_def assms(4))
qed

text \<open>The tables of the other components.\<close>

lemma tables_frame:
  "OSTCBTbl (OS_FlagInitChain n ix s) = OSTCBTbl s \<and> OSEvents (OS_FlagInitChain n ix s) = OSEvents s"
  "OSTCBTbl (OS_MemInitChain n ix s) = OSTCBTbl s \<and> OSEvents (OS_MemInitChain n ix s) = OSEvents s"
  "OSTCBTbl (OS_QInitChain n ix s) = OSTCBTbl s \<and> OSEvents (OS_QInitChain n ix s) = OSEvents s"
  by (induction n arbitrary: ix s) (simp_all add: upd_grp_def upd_mem_def upd_q_def)

lemma Init_tables:
  "quiet s (OS_FlagInit s)" "quiet s (OS_MemInit s)" "quiet s (OS_QInit s)"
  "OSTCBTbl (OS_FlagInit s) = OSTCBTbl s" "OSTCBTbl (OS_MemInit s) = OSTCBTbl s" "OSTCBTbl (OS_QInit s) = OSTCBTbl s"
  "OSEvents (OS_FlagInit s) = OSEvents s" "OSEvents (OS_MemInit s) = OSEvents s" "OSEvents (OS_QInit s) = OSEvents s"
proof -
  show "quiet s (OS_FlagInit s)" "quiet s (OS_MemInit s)" "quiet s (OS_QInit s)"
    unfolding OS_FlagInit_def OS_MemInit_def OS_QInit_def Let_def
    by (rule quiet_trans [OF quiet_trans [OF quiet_trans [OF quiet_tables(1) quiet_chains(1)] quiet_upd_grp] quiet_tables(2)]
          quiet_trans [OF quiet_trans [OF quiet_trans [OF quiet_tables(3) quiet_chains(2)] quiet_upd(1)] quiet_tables(4)]
          quiet_trans [OF quiet_trans [OF quiet_trans [OF quiet_tables(5) quiet_chains(3)] quiet_upd_q] quiet_tables(6)])+
qed (simp_all add: OS_FlagInit_def OS_MemInit_def OS_QInit_def Let_def tables_frame upd_grp_def upd_mem_def upd_q_def)

lemma Init_no_tasks: "no_tasks (OS_InitEventList (OS_InitTCBList (OS_InitRdyList (OS_InitMisc s))))"
proof -
  let ?r = "OS_InitRdyList (OS_InitMisc s)"
  let ?t = "OS_InitTCBList ?r"
  obtain f g where f: "?t = ?r\<lparr>OSTCBTbl := f, OSTCBPrioTbl := \<lambda>_. NullTCB, OSTCBList := NullTCB, OSTCBFreeList := TCB 0\<rparr>"
    and g: "OS_InitEventList ?t = ?t\<lparr>OSEvents := g, OSEventFreeList := Some 0\<rparr>"
    using InitTCBList_effect(4) InitEventList_frame by blast
  have gf: "OS_InitEventList ?t = ?r\<lparr>OSTCBTbl := f, OSTCBPrioTbl := \<lambda>_. NullTCB, OSTCBList := NullTCB,
      OSTCBFreeList := TCB 0, OSEvents := g, OSEventFreeList := Some 0\<rparr>"
    by (subst g) (simp add: f)
  have r: "OSRunning ?r = False" "OSIntNesting ?r = 0" "OSLockNesting ?r = 0"
    by (simp_all add: OS_InitRdyList_def OS_InitMisc_def)
  have rd: "rdy (OS_InitEventList ?t) = (0, replicate 8 0)"
    using InitRdyList_lists [of "OS_InitMisc s"] by (simp add: gf rdy_def)
  have nx: "tcb_next (OS_InitEventList ?t) = tcb_next ?t" "OSTCBFreeList (OS_InitEventList ?t) = OSTCBFreeList ?t"
    by (subst g, rule ext, simp add: tcb_next_def) (subst g, simp)
  have "\<exists>fs. path (tcb_next (OS_InitEventList ?t)) (tcb_opt (OSTCBFreeList (OS_InitEventList ?t))) fs"
    unfolding nx using InitTCBList_effect(1) [of ?r] by blast
  moreover have "\<exists>es. event_pool.holds (OS_InitEventList ?t) es" using InitEventList_effect(1) by blast
  moreover have "\<not> OSRunning (OS_InitEventList ?t) \<and> OSIntNesting (OS_InitEventList ?t) = 0 \<and>
      OSLockNesting (OS_InitEventList ?t) = 0 \<and> (\<forall>n u. OSTCBPrioTbl (OS_InitEventList ?t) n \<noteq> TCB u) \<and>
      OSTCBList (OS_InitEventList ?t) = NullTCB"
    by (simp add: gf r)
  ultimately show ?thesis unfolding no_tasks_def rd by (simp add: InitEventList_effect(2,3))
qed

lemma InitTaskIdle_boot_inv:
  assumes no: "no_tasks s" and null: "OSTCBPrioTbl s 63 = NullTCB" and f: "OSTCBFreeList s = TCB x"
  shows "boot_inv (OS_InitTaskIdle k s)"
proof -
  obtain s' err where r: "OSTaskCreateExt (st_ret k) (st_entry k) 0 (st_stk k + (OS_TASK_IDLE_STK_SIZE - 1))
                OS_TASK_IDLE_PRIO OS_TASK_IDLE_ID (st_stk k) (of_nat OS_TASK_IDLE_STK_SIZE) NULL
                (OS_TASK_OPT_STK_CHK OR OS_TASK_OPT_STK_CLR) s = (s', err)" by fastforce
  have "create_err OS_TASK_IDLE_PRIO s = OS_ERR_NONE" using no null f by (simp add: create_err_def no_tasks_def)
  then have e: "err = OS_ERR_NONE" using TaskCreateExt_err r by (metis snd_conv)
  have "create_step OS_TASK_IDLE_PRIO s (s', err)" using TaskCreateExt_step r by metis
  then obtain t c s2 where add: "OSTCBList s \<noteq> TCB t \<Longrightarrow>
      adds_task 63 t (s\<lparr>OSStkCell := c, OSTCBPrioTbl := (OSTCBPrioTbl s)(63 := OS_TCB_RESERVED)\<rparr>) s2"
    and s': "s' = (if OSRunning s2 then OS_Sched s2 else s2)"
    unfolding create_step_def e by auto
  let ?u = "s\<lparr>OSStkCell := c, OSTCBPrioTbl := (OSTCBPrioTbl s)(63 := OS_TCB_RESERVED)\<rparr>"
  have a: "adds_task 63 t ?u s2" using add no by (simp add: no_tasks_def)
  have "event_next ?u = event_next s" "tcb_next ?u = tcb_next s" by (auto simp: event_next_def tcb_next_def)
  then have "no_tasks ?u"
    using no by (simp add: no_tasks_def event_pool.holds_def) (simp add: rdy_def wl_def)
  then have "boot_inv s2" using first_task [OF _ a] by blast
  moreover from this have "s' = s2" by (simp add: s' boot_inv_def)
  ultimately show ?thesis
    unfolding OS_InitTaskIdle_def Let_def r fst_conv using boot_inv_quiet TaskNameSet_quiet by blast
qed

lemma create_ext_boot_inv:
  assumes "boot_inv s"
  shows "boot_inv (fst (OSTaskCreateExt ret task p_arg ptos prio i pbos sz ext opt s))"
  using create_step_boot_inv [OF assms] TaskCreateExt_step by (metis prod.collapse)

lemma create_boot_inv:
  assumes "boot_inv s"
  shows "boot_inv (fst (OSTaskCreate ret task p_arg ptos prio s))"
  using create_step_boot_inv [OF assms] TaskCreate_step by (metis prod.collapse)

lemma InitTask_boot_inv:
  assumes "boot_inv s"
  shows "boot_inv (OS_InitTaskStat k s)" and "boot_inv (OSTmr_InitTask k s)"
  unfolding OS_InitTaskStat_def OSTmr_InitTask_def Let_def
  by (rule boot_inv_quiet [OF create_ext_boot_inv [OF assms] TaskNameSet_quiet])+

lemma TmrInit_boot_inv:
  assumes "boot_inv s"
  shows "boot_inv (OSTmr_Init k s)"
proof -
  define s1 where "s1 = (upd_tmr (OS_TMR_CFG_MAX - 1) (\<lambda>p. p\<lparr>OSTmrType := OS_TMR_TYPE,
                OSTmrState := OS_TMR_STATE_UNUSED, OSTmrNext := None, OSTmrName := Some ''?''\<rparr>)
     (OSTmr_InitChain (OS_TMR_CFG_MAX - 1) 0 (s\<lparr>OSTmrTbl := (\<lambda>_. zero_tmr), OSTmrWheelTbl := (\<lambda>_. zero_tmr_wheel)\<rparr>)))
       \<lparr>OSTmrTime := 0, OSTmrUsed := 0, OSTmrFree := of_nat OS_TMR_CFG_MAX, OSTmrFreeList := Some 0\<rparr>"
  have "quiet s s1"
    unfolding s1_def
    by (intro quiet_after quiet_trans [OF _ quiet_chains(4)]) (rule quiet_trans [OF quiet_tables(7) quiet_tables(9)])
  then have b1: "boot_inv s1" using assms by (rule boot_inv_quiet [rotated])
  obtain s2 sem where r2: "OSSemCreate 1 s1 = (s2, sem)" by fastforce
  have b2: "boot_inv (s2\<lparr>OSTmrSem := sem\<rparr>)"
    using event_create_boot_inv(1) [OF b1, of 1] r2 by (auto intro: boot_inv_quiet)
  obtain s3 sig where r3: "OSSemCreate 0 (s2\<lparr>OSTmrSem := sem\<rparr>) = (s3, sig)" by fastforce
  have b3: "boot_inv (s3\<lparr>OSTmrSemSignal := sig\<rparr>)"
    using event_create_boot_inv(1) [OF b2, of 0] r3 by (auto intro: boot_inv_quiet)
  define s4 where "s4 = fst (OSEventNameSet (OSTmrSem (s3\<lparr>OSTmrSemSignal := sig\<rparr>)) (Some ''uC/OS-II TmrLock'')
      (s3\<lparr>OSTmrSemSignal := sig\<rparr>))"
  have b4: "boot_inv s4" unfolding s4_def using b3 EventNameSet_quiet by (rule boot_inv_quiet)
  have "boot_inv (fst (OSEventNameSet (OSTmrSemSignal s4) (Some ''uC/OS-II TmrSignal'') s4))"
    using b4 EventNameSet_quiet by (rule boot_inv_quiet)
  from InitTask_boot_inv(2) [OF this, of k] show ?thesis
    unfolding OSTmr_Init_def Let_def s1_def [symmetric] r2 r3 prod.case s4_def [symmetric] .
qed

section \<open>The tasks of the system\<close>

text \<open>
  The tasks that exist before the start are all ready: \<open>P\<close> is the set of their priorities.
\<close>

definition ready_tasks :: "nat set \<Rightarrow> os \<Rightarrow> bool" where
  "ready_tasks P s \<longleftrightarrow> finite P \<and> bm_ok (rdy s) \<and> bm_mem (rdy s) = P \<and>
     (\<forall>n. if n \<in> P then \<exists>t. OSTCBPrioTbl s n = TCB t else OSTCBPrioTbl s n = NullTCB) \<and>
     (\<exists>fs. path (tcb_next s) (tcb_opt (OSTCBFreeList s)) fs \<and> length fs + card P = 22)"

lemma ready_tasks_quiet:
  assumes "ready_tasks P s" and "quiet s s'"
  shows "ready_tasks P s'"
proof -
  note q = quietD [OF assms(2)]
  have "tcb_next s' = tcb_next s"
    using q(3) by (intro ext) (simp add: tcb_next_def same_task_def tcb_coords_def)
  then show ?thesis using assms(1) by (simp add: ready_tasks_def q(4) same_kernelD [OF q(1)])
qed

lemma ready_tasks_create:
  assumes b: "ready_tasks P s" and run: "\<not> OSRunning s" and l: "\<And>t. OSTCBFreeList s = TCB t \<Longrightarrow> OSTCBList s \<noteq> TCB t"
    and st: "create_step prio s (s', err)"
  shows "ready_tasks (if err = OS_ERR_NONE then insert (unat prio) P else P) s'"
proof (cases "err = OS_ERR_NONE")
  case False
  then obtain c where "s' = s\<lparr>OSStkCell := c\<rparr>" using st by (auto simp: create_step_def)
  then have "quiet s s'" by (simp add: quiet_def same_kernel_def same_run_def rdy_def wl_def)
  with b False show ?thesis by (simp add: ready_tasks_quiet)
next
  case True
  then obtain t c s2 where c: "prio \<le> 63" "OSTCBPrioTbl s (unat prio) = NullTCB" "OSTCBFreeList s = TCB t"
    and add: "OSTCBList s \<noteq> TCB t \<Longrightarrow>
      adds_task (unat prio) t (s\<lparr>OSStkCell := c, OSTCBPrioTbl := (OSTCBPrioTbl s)(unat prio := OS_TCB_RESERVED)\<rparr>) s2"
    and s': "s' = (if OSRunning s2 then OS_Sched s2 else s2)"
    using st by (auto simp: create_step_def)
  note a = add [OF l [OF c(3)]]
  note D = adds_taskD [OF a]
  have eq: "s' = s2" using a run by (simp add: s' adds_task_def)
  have n: "unat prio < 64" using c(1) by (simp add: word_le_nat_alt)
  have np: "unat prio \<notin> P" using b c(2) by (auto simp: ready_tasks_def dest: spec [of _ "unat prio"])
  obtain fs where fs: "path (tcb_next s) (tcb_opt (OSTCBFreeList s)) fs" "length fs + card P = 22"
    using b by (auto simp: ready_tasks_def)
  then obtain fs' where f: "fs = t # fs'" "path (tcb_next s) (tcb_next s t) fs'"
    using c(3) by (cases fs) (auto simp: tcb_opt_def)
  have nt: "t \<notin> set fs'" using path_distinct [OF fs(1)] f(1) by simp
  have "path (tcb_next s2) (tcb_next s t) fs'"
  proof (rule path_cong [OF _ f(2)])
    show "tcb_next s2 x = tcb_next s x" if "x \<in> set fs'" for x
      using D(12) [of x] that nt by (auto simp: tcb_next_def)
  qed
  moreover have "tcb_opt (OSTCBFreeList s2) = tcb_next s t" using D(2) by (simp add: tcb_next_def)
  ultimately have p: "path (tcb_next s2) (tcb_opt (OSTCBFreeList s2)) fs'" by simp
  have r: "rdy s2 = bm_ins (unat prio) (rdy s)" using D(6) by (simp add: rdy_def)
  have k: "length fs' + card (insert (unat prio) P) = 22"
    using np fs(2) f(1) b by (simp add: ready_tasks_def)
  show ?thesis
    using b n p k True unfolding ready_tasks_def eq
    by (auto simp: r bm_ok_ins bm_mem_ins D(5))
qed

lemma boot_free_not_head:
  assumes "boot_inv s" and "OSTCBFreeList s = TCB t"
  shows "OSTCBList s \<noteq> TCB t"
proof -
  have run: "\<not> OSRunning s" and "pre_inv Map.empty (OSStart s)" using assms(1) by (simp_all add: boot_inv_def sys_invD(1))
  from pre_inv_free_not_head [OF this(2), of t] assms(2) show ?thesis by (simp add: Start_eq [OF run])
qed

lemma boot_ready_create:
  assumes "ready_tasks P s" and "boot_inv s" and "create_step prio s (s', err)"
  shows "ready_tasks (if err = OS_ERR_NONE then insert (unat prio) P else P) s'"
proof (rule ready_tasks_create [OF assms(1) _ _ assms(3)])
  show run: "\<not> OSRunning s" using assms(2) by (simp add: boot_inv_def)
  show "OSTCBList s \<noteq> TCB t" if "OSTCBFreeList s = TCB t" for t
    using boot_free_not_head [OF assms(2) that] .
qed

lemma ready_create_err:
  assumes "ready_tasks P s" and "OSIntNesting s = 0" and "prio \<le> 63" and "unat prio \<notin> P" and "card P < 22"
  shows "create_err prio s = OS_ERR_NONE"
proof -
  have "OSTCBPrioTbl s (unat prio) = NullTCB" using assms(1,4) by (auto simp: ready_tasks_def dest: spec [of _ "unat prio"])
  moreover obtain fs where "path (tcb_next s) (tcb_opt (OSTCBFreeList s)) fs" "length fs + card P = 22"
    using assms(1) by (auto simp: ready_tasks_def)
  then obtain t where "OSTCBFreeList s = TCB t"
    using assms(5) by (cases fs; cases "OSTCBFreeList s") (auto simp: tcb_opt_def)
  ultimately show ?thesis using assms(2,3) by (simp add: create_err_def)
qed

text \<open>The three tasks of the system: none of the creations in \<open>OSInit\<close> fails.\<close>

lemma ready_create_ext:
  assumes "ready_tasks P s" and "OSIntNesting s = 0" and "prio \<le> 63" and "unat prio \<notin> P" and "card P < 22"
    and "\<not> OSRunning s" and "\<And>t. OSTCBFreeList s = TCB t \<Longrightarrow> OSTCBList s \<noteq> TCB t"
  shows "ready_tasks (insert (unat prio) P) (fst (OSTaskCreateExt ret task p_arg ptos prio i pbos sz ext opt s))"
proof -
  obtain s' err where r: "OSTaskCreateExt ret task p_arg ptos prio i pbos sz ext opt s = (s', err)" by fastforce
  have "err = OS_ERR_NONE"
    using ready_create_err [OF assms(1-5)] TaskCreateExt_err [of ret task p_arg ptos prio i pbos sz ext opt s] r by simp
  then show ?thesis
    using ready_tasks_create [OF assms(1,6,7)] TaskCreateExt_step [of prio s ret task p_arg ptos i pbos sz ext opt] r
    by fastforce
qed

lemma ready_InitTask:
  "ready_tasks {} s \<Longrightarrow> no_tasks s \<Longrightarrow> ready_tasks {63} (OS_InitTaskIdle k s)"
  "ready_tasks {63} s \<Longrightarrow> boot_inv s \<Longrightarrow> ready_tasks {62, 63} (OS_InitTaskStat k s)"
  "ready_tasks {62, 63} s \<Longrightarrow> boot_inv s \<Longrightarrow> ready_tasks {61, 62, 63} (OSTmr_InitTask k s)"
proof -
  show "ready_tasks {63} (OS_InitTaskIdle k s)" if "ready_tasks {} s" "no_tasks s"
    unfolding OS_InitTaskIdle_def Let_def
    by (rule ready_tasks_quiet [OF ready_create_ext [OF that(1), of OS_TASK_IDLE_PRIO, simplified] TaskNameSet_quiet])
      (use that(2) in \<open>auto simp: no_tasks_def\<close>)
  show "ready_tasks {62, 63} (OS_InitTaskStat k s)" if "ready_tasks {63} s" "boot_inv s"
    unfolding OS_InitTaskStat_def Let_def
    by (rule ready_tasks_quiet [OF ready_create_ext [OF that(1), of OS_TASK_STAT_PRIO, simplified] TaskNameSet_quiet])
      (use that(2) boot_free_not_head in \<open>auto simp: boot_inv_def\<close>)
  show "ready_tasks {61, 62, 63} (OSTmr_InitTask k s)" if "ready_tasks {62, 63} s" "boot_inv s"
    unfolding OSTmr_InitTask_def Let_def
    by (rule ready_tasks_quiet [OF ready_create_ext [OF that(1), of OS_TASK_TMR_PRIO, simplified] TaskNameSet_quiet])
      (use that(2) boot_free_not_head in \<open>auto simp: boot_inv_def\<close>)
qed

lemma ready_tasks_cong:
  assumes "ready_tasks P s" and "rdy s' = rdy s" and "OSTCBTbl s' = OSTCBTbl s"
    and "OSTCBPrioTbl s' = OSTCBPrioTbl s" and "OSTCBFreeList s' = OSTCBFreeList s"
  shows "ready_tasks P s'"
proof -
  have "tcb_next s' = tcb_next s" using assms(3) by (intro ext) (simp add: tcb_next_def)
  with assms show ?thesis by (simp add: ready_tasks_def)
qed

lemma ready_event_create:
  assumes "ready_tasks P s"
  shows "ready_tasks P (fst (OSSemCreate cnt s))" and "ready_tasks P (fst (OSMboxCreate m s))"
    and "ready_tasks P (fst (OSQCreate start sz s))"
proof -
  show "ready_tasks P (fst (OSSemCreate cnt s))" using assms by (rule ready_tasks_cong)
      (cases "OSEventFreeList s"; simp add: OSSemCreate_def OS_EventAlloc_def Let_def upd_event_def
        OS_EventWaitListInit_def rdy_def)+
  show "ready_tasks P (fst (OSMboxCreate m s))" using assms by (rule ready_tasks_cong)
      (cases "OSEventFreeList s"; simp add: OSMboxCreate_def OS_EventAlloc_def Let_def upd_event_def
        OS_EventWaitListInit_def rdy_def)+
  show "ready_tasks P (fst (OSQCreate start sz s))" using assms by (rule ready_tasks_cong)
      (cases "OSEventFreeList s"; cases "OSQFreeList s"; simp add: OSQCreate_def OS_EventAlloc_def Let_def
        upd_event_def upd_q_def OS_EventWaitListInit_def rdy_def)+
qed

lemma ready_TmrInit:
  assumes "ready_tasks {62, 63} s" and "boot_inv s"
  shows "ready_tasks {61, 62, 63} (OSTmr_Init k s)"
proof -
  define s1 where "s1 = (upd_tmr (OS_TMR_CFG_MAX - 1) (\<lambda>p. p\<lparr>OSTmrType := OS_TMR_TYPE,
                OSTmrState := OS_TMR_STATE_UNUSED, OSTmrNext := None, OSTmrName := Some ''?''\<rparr>)
     (OSTmr_InitChain (OS_TMR_CFG_MAX - 1) 0 (s\<lparr>OSTmrTbl := (\<lambda>_. zero_tmr), OSTmrWheelTbl := (\<lambda>_. zero_tmr_wheel)\<rparr>)))
       \<lparr>OSTmrTime := 0, OSTmrUsed := 0, OSTmrFree := of_nat OS_TMR_CFG_MAX, OSTmrFreeList := Some 0\<rparr>"
  let ?ok = "\<lambda>s. ready_tasks {62, 63} s \<and> boot_inv s"
  have q: "?ok s \<Longrightarrow> quiet s s' \<Longrightarrow> ?ok s'" for s s' using ready_tasks_quiet boot_inv_quiet by blast
  have c: "?ok s \<Longrightarrow> OSSemCreate cnt s = (s', e) \<Longrightarrow> ?ok s'" for s s' cnt e
    using ready_event_create(1) [of _ s cnt] event_create_boot_inv(1) [of s cnt] by simp
  have "quiet s s1"
    unfolding s1_def
    by (intro quiet_after quiet_trans [OF _ quiet_chains(4)]) (rule quiet_trans [OF quiet_tables(7) quiet_tables(9)])
  then have b1: "?ok s1" using assms q by blast
  obtain s2 sem where r2: "OSSemCreate 1 s1 = (s2, sem)" by fastforce
  have b2: "?ok (s2\<lparr>OSTmrSem := sem\<rparr>)" by (rule q [OF c [OF b1 r2]]) simp
  obtain s3 sig where r3: "OSSemCreate 0 (s2\<lparr>OSTmrSem := sem\<rparr>) = (s3, sig)" by fastforce
  have b3: "?ok (s3\<lparr>OSTmrSemSignal := sig\<rparr>)" by (rule q [OF c [OF b2 r3]]) simp
  define s4 where "s4 = fst (OSEventNameSet (OSTmrSem (s3\<lparr>OSTmrSemSignal := sig\<rparr>)) (Some ''uC/OS-II TmrLock'')
      (s3\<lparr>OSTmrSemSignal := sig\<rparr>))"
  have b4: "?ok s4" unfolding s4_def using b3 EventNameSet_quiet by (rule q)
  have "?ok (fst (OSEventNameSet (OSTmrSemSignal s4) (Some ''uC/OS-II TmrSignal'') s4))"
    using b4 EventNameSet_quiet by (rule q)
  then show ?thesis
    unfolding OSTmr_Init_def Let_def s1_def [symmetric] r2 r3 prod.case s4_def [symmetric]
    by (intro ready_InitTask(3)) blast+
qed

text \<open>What \<open>OSInit\<close> has set up when it creates the first task, whatever the memory holds at
  power-up, and after it has created the tasks of the system.\<close>

lemma Init_lists:
  defines "q \<equiv> \<lambda>s. OS_QInit (OS_MemInit (OS_FlagInit (OS_InitEventList (OS_InitTCBList (OS_InitRdyList (OS_InitMisc s))))))"
  shows "no_tasks (q s)" and "ready_tasks {} (q s)" and "boot_inv (OS_InitTaskIdle idle (q s))"
proof -
  let ?l = "OS_InitTCBList (OS_InitRdyList (OS_InitMisc s))"
  let ?e = "OS_InitEventList ?l"
  have "no_tasks (OS_FlagInit ?e)" using Init_no_tasks by (rule no_tasks_quiet) (simp_all add: Init_tables)
  then have "no_tasks (OS_MemInit (OS_FlagInit ?e))" by (rule no_tasks_quiet) (simp_all add: Init_tables)
  then show no: "no_tasks (q s)" unfolding q_def by (rule no_tasks_quiet) (simp_all add: Init_tables)
  have qu: "quiet ?e (q s)" unfolding q_def by (meson quiet_trans Init_tables(1-3))
  obtain f where f: "?e = ?l\<lparr>OSEvents := f, OSEventFreeList := Some 0\<rparr>" using InitEventList_frame by blast
  obtain g where g: "?l = (OS_InitRdyList (OS_InitMisc s))
      \<lparr>OSTCBTbl := g, OSTCBPrioTbl := \<lambda>_. NullTCB, OSTCBList := NullTCB, OSTCBFreeList := TCB 0\<rparr>"
    using InitTCBList_effect(4) by blast
  have "rdy ?e = (0, replicate 8 0)" using Init_no_tasks by (simp add: no_tasks_def)
  moreover have tb: "OSTCBPrioTbl ?e = (\<lambda>_. NullTCB)" "OSTCBFreeList ?e = OSTCBFreeList ?l"
    by (simp_all add: f) (simp add: g)
  moreover have "tcb_next ?e = tcb_next ?l" by (rule ext) (simp add: f tcb_next_def)
  ultimately have "ready_tasks {} ?e"
    using InitTCBList_effect(1) [of "OS_InitRdyList (OS_InitMisc s)"]
    by (auto simp: ready_tasks_def bm_mem_empty bm_ok_empty intro!: exI [of _ "[0..<22]"])
  then show "ready_tasks {} (q s)" using qu by (rule ready_tasks_quiet)
  have "OSTCBFreeList ?l = TCB 0" by (subst g) simp
  with tb have "OSTCBPrioTbl (q s) 63 = NullTCB" "OSTCBFreeList (q s) = TCB 0"
    by (simp_all add: same_kernelD [OF quietD(1) [OF qu]])
  then show "boot_inv (OS_InitTaskIdle idle (q s))" by (rule InitTaskIdle_boot_inv [OF no])
qed

lemma Init_boot_inv: "boot_inv (OSInit idle stat tmr s)"
  unfolding OSInit_def Let_def by (intro TmrInit_boot_inv InitTask_boot_inv(1) Init_lists(3))

lemma ready_Init: "ready_tasks {61, 62, 63} (OSInit idle stat tmr s)"
  unfolding OSInit_def Let_def
  by (intro ready_TmrInit ready_InitTask(2) ready_InitTask(1) InitTask_boot_inv(1) Init_lists)

section \<open>What the application does before the start\<close>

text \<open>\<open>booted P s\<close>: the calls of the application since \<open>OSInit\<close> led to \<open>s\<close>, and those of
  \<open>OSTaskCreate\<close> and \<open>OSTaskCreateExt\<close> that returned no error had the priorities \<open>P\<close>.\<close>

definition created :: "INT8U \<Rightarrow> INT8U \<Rightarrow> nat set \<Rightarrow> nat set" where
  "created prio err P = (if err = OS_ERR_NONE then insert (unat prio) P else P)"

inductive booted :: "nat set \<Rightarrow> os \<Rightarrow> bool" where
  init: "booted {} (OSInit idle stat tmr s)"
| task_create: "booted P s \<Longrightarrow> OSTaskCreate ret task p_arg ptos prio s = (s', err) \<Longrightarrow>
    booted (created prio err P) s'"
| task_create_ext: "booted P s \<Longrightarrow> OSTaskCreateExt ret task p_arg ptos prio i pbos sz ext opt s = (s', err) \<Longrightarrow>
    booted (created prio err P) s'"
| task_name: "booted P s \<Longrightarrow> booted P (fst (OSTaskNameSet prio pname s))"
| sem_create: "booted P s \<Longrightarrow> booted P (fst (OSSemCreate cnt s))"
| mbox_create: "booted P s \<Longrightarrow> booted P (fst (OSMboxCreate m s))"
| q_create: "booted P s \<Longrightarrow> booted P (fst (OSQCreate start sz s))"
| event_name: "booted P s \<Longrightarrow> booted P (fst (OSEventNameSet pe pname s))"
| mem_create: "booted P s \<Longrightarrow> booted P (fst (OSMemCreate addr nblks blksize s))"

lemma booted_create:
  assumes "boot_inv s \<and> ready_tasks (P \<union> {61, 62, 63}) s" and "create_step prio s (s', err)"
  shows "boot_inv s' \<and> ready_tasks (created prio err P \<union> {61, 62, 63}) s'"
proof -
  have "insert (unat prio) (P \<union> {61, 62, 63}) = insert (unat prio) P \<union> {61, 62, 63}" by auto
  then show ?thesis
    using boot_ready_create [OF conjunct2 [OF assms(1)] conjunct1 [OF assms(1)] assms(2)]
      create_step_boot_inv [OF conjunct1 [OF assms(1)] assms(2)]
    by (cases "err = OS_ERR_NONE") (simp_all only: created_def if_True if_False simp_thms)
qed

lemma booted_inv: "booted P s \<Longrightarrow> boot_inv s \<and> ready_tasks (P \<union> {61, 62, 63}) s"
proof (induction rule: booted.induct)
  case (init idle stat tmr s)
  show ?case using Init_boot_inv ready_Init by simp
next
  case (task_create P s ret task p_arg ptos prio s' err)
  show ?case using booted_create [OF task_create.IH] TaskCreate_step task_create.hyps(2) by metis
next
  case (task_create_ext P s ret task p_arg ptos prio i pbos sz ext opt s' err)
  show ?case using booted_create [OF task_create_ext.IH] TaskCreateExt_step task_create_ext.hyps(2) by metis
qed (blast intro: event_create_boot_inv ready_event_create boot_inv_quiet ready_tasks_quiet
  TaskNameSet_quiet EventNameSet_quiet MemCreate_quiet)+

definition booting :: "os \<Rightarrow> bool" where
  "booting s \<longleftrightarrow> (\<exists>P. booted P s)"

lemma booting_boot_inv: "booting s \<Longrightarrow> boot_inv s"
  using booted_inv by (auto simp: booting_def)

text \<open>The states of a kernel that was initialised and started, in any number of steps.\<close>

definition reachable :: "os \<Rightarrow> conts \<Rightarrow> bool" where
  "reachable s k \<longleftrightarrow> (\<exists>s0. booting s0 \<and> kstep\<^sup>*\<^sup>* (OSStart s0, Map.empty) (s, k))"

lemma reachable_sys_inv: "reachable s k \<Longrightarrow> sys_inv k s"
  unfolding reachable_def using ksteps_sys_inv booting_boot_inv by (auto simp: boot_inv_def)

lemma reachable_start: "booting s \<Longrightarrow> reachable (OSStart s) Map.empty"
  by (auto simp: reachable_def)

lemma reachable_step: "reachable s k \<Longrightarrow> kstep (s, k) (s', k') \<Longrightarrow> reachable s' k'"
  by (auto simp: reachable_def intro: rtranclp.rtrancl_into_rtrancl)

end
