(* ===== verification/UCOS_Tick.thy ===== *)
theory UCOS_Tick
  imports UCOS_System UCOS_Example
begin

text \<open>
  The tick interrupt of the port as a whole, with the hook that signals the timer task, and the promise
  the delays rest on it: how long a delay or a timeout lasts, whatever other tasks do meanwhile.
\<close>

section \<open>What a tick leaves alone\<close>

definition tick_frame :: "os \<Rightarrow> os \<Rightarrow> bool" where
  "tick_frame s s' \<longleftrightarrow> OSTCBPrioTbl s' = OSTCBPrioTbl s \<and> OSIntNesting s' = OSIntNesting s \<and>
     OSLockNesting s' = OSLockNesting s \<and> OSTCBCur s' = OSTCBCur s \<and> OSPrioCur s' = OSPrioCur s \<and>
     OSRunning s' = OSRunning s"

lemma tick_frame_trans: "tick_frame s u \<Longrightarrow> tick_frame u v \<Longrightarrow> tick_frame s v"
  by (simp add: tick_frame_def)

lemma tick_frame_only_lists: "only_lists s s' \<Longrightarrow> tick_frame s s'"
  using only_lists_global(1-6) by (simp add: tick_frame_def)

lemma tick_frame_simps [simp]:
  "tick_frame s (s\<lparr>OSTmrCtr := c\<rparr>)" "tick_frame s (s\<lparr>OSTime := x\<rparr>)" "tick_frame s (upd_event e f s)"
  "tick_frame s (fst (OS_TickStep s))" "tick_frame s s"
  by (simp_all add: tick_frame_def upd_event_def OS_TickStep_def)

text \<open>In an interrupt the scheduler does nothing, so that the hook is the bare post.\<close>

lemma TimeTickHook_effect:
  assumes inv: "pre_inv k s" and int: "OSIntNesting s \<noteq> 0"
  shows "tick_frame s (OSTimeTickHook s)" and "OSTickStepState (OSTimeTickHook s) = OSTickStepState s"
    and "task_at s n t \<Longrightarrow> (\<And>e. OSTmrSemSignal s = Some e \<Longrightarrow> n \<notin> bm_mem (wl s e)) \<Longrightarrow>
      OSTCBTbl (OSTimeTickHook s) t = OSTCBTbl s t \<and>
      (n \<in> bm_mem (rdy (OSTimeTickHook s)) \<longleftrightarrow> n \<in> bm_mem (rdy s))"
proof -
  let ?s1 = "s\<lparr>OSTmrCtr := OSTmrCtr s + 1\<rparr>" and ?s2 = "s\<lparr>OSTmrCtr := 0\<rparr>"
  let ?p = "fst (OSSemPost (OSTmrSemSignal s) ?s2)"
  have e: "OSTimeTickHook s = (if ucast (OSTmrCtr s + 1) \<ge> OS_TICKS_PER_SEC div OS_TMR_CFG_TICKS_PER_SEC
      then ?p else ?s1)"
    by (simp add: OSTimeTickHook_def OSTmrSignal_def Let_def)
  have sch: "OS_Sched u = u" if "OSIntNesting u \<noteq> 0" for u using that by (simp add: OS_Sched_def)
  have i2: "kernel_inv ?s2"
    using pre_invD(1,5) [OF inv] by (intro pre_invD(1) [OF pre_inv_counters [OF inv]]) (simp_all add: rdy_def)
  have m3: "\<not> bit OS_STAT_SEM 3" by simp
  have "tick_frame ?s2 ?p \<and> OSTickStepState ?p = OSTickStepState s \<and>
    (task_at s n t \<and> (\<forall>e. OSTmrSemSignal s = Some e \<longrightarrow> n \<notin> bm_mem (wl s e)) \<longrightarrow>
      OSTCBTbl ?p t = OSTCBTbl s t \<and> (n \<in> bm_mem (rdy ?p) \<longleftrightarrow> n \<in> bm_mem (rdy s)))"
  proof (cases "\<exists>e. OSTmrSemSignal s = Some e \<and> OSEventType (OSEvents s e) = OS_EVENT_TYPE_SEM \<and> OSEventGrp (OSEvents s e) \<noteq> 0")
    case False
    then have "?p = ?s2 \<or> (\<exists>e f. ?p = upd_event e f ?s2)" by (cases "OSTmrSemSignal s") (auto simp: OSSemPost_def)
    moreover have "rdy (upd_event e f ?s2) = rdy s" "rdy ?s2 = rdy s" for e f by (simp_all add: rdy_def upd_event_def)
    moreover have "OSTickStepState (upd_event e f ?s2) = OSTickStepState s" for e f by (simp add: upd_event_def)
    moreover have "OSTCBTbl (upd_event e f ?s2) = OSTCBTbl s" for e f by (simp add: upd_event_def)
    ultimately show ?thesis by auto
  next
    case True
    then obtain e where e: "OSTmrSemSignal s = Some e" "OSEventType (OSEvents s e) = OS_EVENT_TYPE_SEM"
      "OSEventGrp (OSEvents ?s2 e) \<noteq> 0" by auto
    have w: "wl ?s2 = wl s" "rdy ?s2 = rdy s" "task_at ?s2 = task_at s" by (auto simp: wl_def rdy_def task_at_def fun_eq_iff)
    have ne: "bm_mem (wl ?s2 e) \<noteq> {}" using e(3) grp_nonzero_iff [OF i2] by blast
    obtain x where x: "task_at ?s2 (Min (bm_mem (wl ?s2 e))) x" using top_waiter(1) [OF i2 ne] by blast
    note E = EventTaskRdy_effect [OF i2 ne x m3, of NULL OS_STAT_PEND_OK]
    have "OSIntNesting (fst (OS_EventTaskRdy e NULL OS_STAT_SEM OS_STAT_PEND_OK ?s2)) \<noteq> 0"
      using only_lists_global(2) [OF E(6)] int by simp
    then have p: "?p = fst (OS_EventTaskRdy e NULL OS_STAT_SEM OS_STAT_PEND_OK ?s2)"
      using e by (simp add: OSSemPost_def sch)
    have "?p = ?s2\<lparr>OSRdyGrp := OSRdyGrp ?p, OSRdyTbl := OSRdyTbl ?p, OSEvents := OSEvents ?p, OSTCBTbl := OSTCBTbl ?p\<rparr>"
      using E(6) unfolding p only_lists_def by (rule conjunct1)
    then have fr: "OSTickStepState ?p = OSTickStepState s" by (rule ssubst) simp
    have "OSTCBTbl ?p t = OSTCBTbl s t \<and> (n \<in> bm_mem (rdy ?p) \<longleftrightarrow> n \<in> bm_mem (rdy s))"
      if t: "task_at s n t" "n \<notin> bm_mem (wl s e)"
    proof -
      have m: "Min (bm_mem (wl s e)) \<noteq> n" using top_waiter(2) [OF i2 ne] t(2) by (auto simp: w)
      then have "x \<noteq> t" using x t(1) by (auto simp: w task_at_def)
      moreover have "bm_ok (rdy s)" "Min (bm_mem (wl s e)) < 64"
        using pre_invD(1) [OF inv] x kernel_invD(1) by (auto simp: w task_at_def)
      ultimately show ?thesis using m by (simp add: p E(2,3) w bm_mem_ins)
    qed
    moreover have "tick_frame ?s2 ?p" unfolding p by (rule tick_frame_only_lists [OF E(6)])
    ultimately show ?thesis using e(1) fr by simp
  qed
  note h = this
  have "tick_frame s ?p" using h by (intro tick_frame_trans [of s ?s2 ?p]) simp_all
  then show "tick_frame s (OSTimeTickHook s)" by (simp add: e)
  show "OSTickStepState (OSTimeTickHook s) = OSTickStepState s" using h by (simp add: e)
  show "task_at s n t \<Longrightarrow> (\<And>e. OSTmrSemSignal s = Some e \<Longrightarrow> n \<notin> bm_mem (wl s e)) \<Longrightarrow>
      OSTCBTbl (OSTimeTickHook s) t = OSTCBTbl s t \<and>
      (n \<in> bm_mem (rdy (OSTimeTickHook s)) \<longleftrightarrow> n \<in> bm_mem (rdy s))"
    using h by (simp add: e) (simp add: rdy_def)
qed

section \<open>The tick interrupt\<close>

text \<open>Task \<open>t\<close> of priority \<open>n\<close> is not a waiter of the semaphore the hook signals, and the ticks are
  not held back by the single-stepping of a debugger.\<close>

definition counts_ticks :: "nat \<Rightarrow> os \<Rightarrow> bool" where
  "counts_ticks n s \<longleftrightarrow> OSTickStepState s = OS_TICK_STEP_DIS \<and>
     (\<forall>e. OSTmrSemSignal s = Some e \<longrightarrow> n \<notin> bm_mem (wl s e))"

lemma TimeTick_effect:
  assumes inv: "pre_inv k s" and int: "OSIntNesting s \<noteq> 0"
  shows "\<exists>s'. OSTimeTick s = Some s' \<and> pre_inv k s' \<and> tick_frame s s' \<and> OSTime s' = OSTime s + 1 \<and>
    (\<forall>n t. task_at s n t \<and> counts_ticks n s \<longrightarrow> task_at s' n t \<and>
       ticked (n \<in> bm_mem (rdy s)) (OSTCBTbl s t) (n \<in> bm_mem (rdy s')) (OSTCBTbl s' t))"
proof -
  note h = TimeTickHook_effect [OF assms] and hi = TimeTickHook_pre_inv [OF assms]
  obtain s' where s': "OSTimeTick s = Some s'" "pre_inv k s'" "OSTime s' = OSTime s + 1"
    using TimeTick_pre_inv [OF assms] by blast
  define s1 where "s1 = (OSTimeTickHook s)\<lparr>OSTime := OSTime s + 1\<rparr>"
  have p1: "pre_inv k s1" unfolding s1_def
    by (rule pre_inv_counters [OF hi(1)]) (use pre_invD(5) [OF hi(1)] in \<open>simp_all add: rdy_def\<close>)
  have f1: "tick_frame s s1" using tick_frame_trans [OF h(1)] by (simp add: s1_def)
  obtain s2 b where st: "OS_TickStep s1 = (s2, b)" by fastforce
  have f2: "tick_frame s1 s2" using tick_frame_simps(4) [of s1] st by simp
  have same: "rdy s2 = rdy s1" "OSEvents s2 = OSEvents s1" "OSTCBTbl s2 = OSTCBTbl s1"
    "OSTCBPrioTbl s2 = OSTCBPrioTbl s1" "OSTCBList s2 = OSTCBList s1" "OSTCBCur s2 = OSTCBCur s1"
    "OSPrioCur s2 = OSPrioCur s1" "OSEventFreeList s2 = OSEventFreeList s1" "OSRunning s2 = OSRunning s1"
    "OSTCBFreeList s2 = OSTCBFreeList s1" "OSLockNesting s2 = OSLockNesting s1" "OSIntNesting s2 = OSIntNesting s1"
    using st by (auto simp: OS_TickStep_def rdy_def split: if_splits)
  have p2: "pre_inv k s2"
    using pre_invD(5) [OF p1] by (intro pre_inv_counters [OF p1 same(1-10)]) (simp add: same(11))
  obtain s3 where s3: "OS_TickList (OSTCBList s2) s2 = Some s3" "only_lists s2 s3"
    and tk: "\<forall>n t. task_at s2 n t \<longrightarrow>
       ticked (n \<in> bm_mem (rdy s2)) (OSTCBTbl s2 t) (n \<in> bm_mem (rdy s3)) (OSTCBTbl s3 t)"
    using TickList_effect [OF p2] by blast
  have r: "s' = (if b then s3 else s2)"
  proof -
    have "OSRunning (OSTimeTickHook s)" "OSTime (OSTimeTickHook s) = OSTime s" using pre_invD(9) [OF hi(1)] hi(2) by simp_all
    then have "OSTimeTick s = (if b then OS_TickList (OSTCBList s2) s2 else Some s2)"
      using st by (simp add: OSTimeTick_def s1_def)
    with s'(1) s3(1) show ?thesis by (simp split: if_splits)
  qed
  have "tick_frame s s'" unfolding r
    using tick_frame_trans [OF tick_frame_trans [OF f1 f2]] tick_frame_only_lists [OF s3(2)] by simp
  moreover have "task_at s' n t \<and> ticked (n \<in> bm_mem (rdy s)) (OSTCBTbl s t) (n \<in> bm_mem (rdy s')) (OSTCBTbl s' t)"
    if t: "task_at s n t" "counts_ticks n s" for n t
  proof -
    have s: "OSTCBTbl s1 t = OSTCBTbl s t" "n \<in> bm_mem (rdy s1) \<longleftrightarrow> n \<in> bm_mem (rdy s)" "OSTickStepState s1 = OS_TICK_STEP_DIS"
      using h(3) [OF t(1)] h(2) t(2) by (auto simp: counts_ticks_def s1_def rdy_def)
    then have b: "s' = s3" using st by (auto simp: r OS_TickStep_def)
    have "task_at s2 n t" using t(1) f1 f2 s(1) by (simp add: task_at_def tick_frame_def same(3))
    with tk have tk': "ticked (n \<in> bm_mem (rdy s2)) (OSTCBTbl s2 t) (n \<in> bm_mem (rdy s3)) (OSTCBTbl s3 t)" by blast
    then have "prio_of (OSTCBTbl s3 t) = prio_of (OSTCBTbl s2 t)" by (auto simp: ticked_def split: if_splits)
    then show ?thesis
      using tk' \<open>task_at s2 n t\<close> only_lists_global(1) [OF s3(2)] s by (simp add: b same task_at_def)
  qed
  ultimately show ?thesis using s' by blast
qed

lemma IntExit_effect:
  assumes "OSRunning s"
  shows "OSIntNesting (OSIntExit s) = (if OSIntNesting s > 0 then OSIntNesting s - 1 else 0)"
    and "OSLockNesting (OSIntExit s) = OSLockNesting s" and "rdy (OSIntExit s) = rdy s"
    and "OSTCBPrioTbl (OSIntExit s) = OSTCBPrioTbl s" and "OSTime (OSIntExit s) = OSTime s"
    and "same_task (OSTCBTbl (OSIntExit s) t) (OSTCBTbl s t)"
    and "OSIntNesting s > 1 \<or> OSLockNesting s \<noteq> 0 \<Longrightarrow> OSTCBCur (OSIntExit s) = OSTCBCur s"
proof -
  let ?u = "if OSIntNesting s > 0 then s\<lparr>OSIntNesting := OSIntNesting s - 1\<rparr> else s"
  have e: "OSIntExit s = OS_Sched ?u" using assms by (simp add: OSIntExit_def OS_Sched_def Let_def)
  have k: "OSIntNesting (OS_Sched u) = OSIntNesting u" "OSLockNesting (OS_Sched u) = OSLockNesting u" for u
    using same_kernelD(3,4) [OF Sched_frame(8) [of u]] by simp_all
  show "OSIntNesting (OSIntExit s) = (if OSIntNesting s > 0 then OSIntNesting s - 1 else 0)"
    "OSLockNesting (OSIntExit s) = OSLockNesting s" "OSTCBPrioTbl (OSIntExit s) = OSTCBPrioTbl s"
    by (simp_all add: e k word_gt_0)
  show "rdy (OSIntExit s) = rdy s" by (simp add: e) (simp add: rdy_def)
  have "OSTCBTbl ?u = OSTCBTbl s" by simp
  then show "same_task (OSTCBTbl (OSIntExit s) t) (OSTCBTbl s t)"
    unfolding e using Sched_frame(9) [of ?u t] by metis
  have "OSTime (OS_Sched u) = OSTime u" for u by (simp add: OS_Sched_def switch_defs)
  then show "OSTime (OSIntExit s) = OSTime s" by (simp add: e)
  have sch: "OS_Sched u = u" if "OSIntNesting u \<noteq> 0 \<or> OSLockNesting u \<noteq> 0" for u using that by (auto simp: OS_Sched_def)
  show "OSTCBCur (OSIntExit s) = OSTCBCur s" if "OSIntNesting s > 1 \<or> OSLockNesting s \<noteq> 0"
    using that by (subst e, subst sch) auto
qed

text \<open>What the interrupt does to the counters, to the running task and to every task that counts ticks.\<close>

lemma SysTick_effect:
  assumes inv: "sys_inv k s"
  shows "\<exists>s'. SysTick_Handler s = Some s' \<and> sys_inv k s' \<and> OSTime s' = OSTime s + 1 \<and>
    OSLockNesting s' = OSLockNesting s \<and> OSIntNesting s' = (if OSIntNesting s = 255 then 254 else OSIntNesting s) \<and>
    (OSIntNesting s \<noteq> 0 \<or> OSLockNesting s \<noteq> 0 \<longrightarrow> OSTCBCur s' = OSTCBCur s) \<and>
    (\<forall>n t. task_at s n t \<and> counts_ticks n s \<longrightarrow> task_at s' n t \<and>
       (\<exists>p. ticked (n \<in> bm_mem (rdy s)) (OSTCBTbl s t) (n \<in> bm_mem (rdy s')) p \<and> same_task (OSTCBTbl s' t) p))"
proof -
  let ?i = "OSIntEnter s"
  note i = IntEnter_pre_inv [OF sys_invD(1) [OF inv]]
  have run: "OSRunning s" using pre_invD(9) [OF sys_invD(1) [OF inv]] .
  have ent: "?i = s\<lparr>OSIntNesting := (if OSIntNesting s = 255 then 255 else OSIntNesting s + 1)\<rparr>"
  proof (cases "OSIntNesting s = 255")
    case True
    then show ?thesis by (simp add: OSIntEnter_def)
  next
    case False
    then have "OSIntNesting s < 255"
      using unsigned_less [of "OSIntNesting s", where ?'a = nat] by (simp add: word_less_nat_alt word_unat_eq_iff)
    with False run show ?thesis by (simp add: OSIntEnter_def)
  qed
  obtain v where v: "OSTimeTick ?i = Some v" "pre_inv k v" "tick_frame ?i v" "OSTime v = OSTime ?i + 1"
    and tk: "\<forall>n t. task_at ?i n t \<and> counts_ticks n ?i \<longrightarrow> task_at v n t \<and>
       ticked (n \<in> bm_mem (rdy ?i)) (OSTCBTbl ?i t) (n \<in> bm_mem (rdy v)) (OSTCBTbl v t)"
    using TimeTick_effect [OF i] by blast
  have fr: "OSRunning v" "OSIntNesting v = OSIntNesting ?i" "OSLockNesting v = OSLockNesting s" "OSTCBCur v = OSTCBCur s"
    using v(3) run by (simp_all add: tick_frame_def ent)
  note x = IntExit_effect [OF fr(1)]
  have same: "task_at ?i = task_at s" "rdy ?i = rdy s" "OSTCBTbl ?i = OSTCBTbl s" "counts_ticks n ?i = counts_ticks n s" for n
    by (simp_all add: ent task_at_def rdy_def counts_ticks_def wl_def fun_eq_iff)
  have at: "task_at (OSIntExit v) n t \<longleftrightarrow> task_at v n t" for n t
    using same_task_prio [OF x(6)] by (simp add: task_at_def x(4))
  have "OSIntNesting v > 0" using fr(2) i(2) by (simp add: word_gt_0)
  then have nest: "OSIntNesting (OSIntExit v) = (if OSIntNesting s = 255 then 254 else OSIntNesting s)"
    by (simp add: x(1) fr(2)) (simp add: ent)
  have cur: "OSTCBCur (OSIntExit v) = OSTCBCur s" if "OSIntNesting s \<noteq> 0 \<or> OSLockNesting s \<noteq> 0"
  proof -
    have "OSIntNesting v > 1 \<or> OSLockNesting v \<noteq> 0"
    proof (cases "OSLockNesting s = 0")
      case True
      then have n0: "OSIntNesting s \<noteq> 0" using that by simp
      have "OSIntNesting v \<noteq> 0" "OSIntNesting v \<noteq> 1" using n0 i(2) by (simp_all add: fr(2)) (simp add: ent)
      then have "unat (OSIntNesting v) \<noteq> 0 \<and> unat (OSIntNesting v) \<noteq> 1" by (simp add: word_unat_eq_iff)
      then show ?thesis by (simp add: word_less_nat_alt)
    qed (simp add: fr(3))
    from x(7) [OF this] show ?thesis by (simp add: fr(4))
  qed
  have "SysTick_Handler s = Some (OSIntExit v)" by (simp add: SysTick_Handler_def v(1))
  moreover have "sys_inv k (OSIntExit v)" using IntExit_sys_inv [OF v(2)] .
  moreover have "OSTime (OSIntExit v) = OSTime s + 1" by (simp add: x(5) v(4)) (simp add: ent)
  moreover have "task_at (OSIntExit v) n t \<and>
       (\<exists>p. ticked (n \<in> bm_mem (rdy s)) (OSTCBTbl s t) (n \<in> bm_mem (rdy (OSIntExit v))) p \<and>
          same_task (OSTCBTbl (OSIntExit v) t) p)"
    if "task_at s n t \<and> counts_ticks n s" for n t
    using tk that x(6) [of t] unfolding same at x(3) by blast
  ultimately show ?thesis using nest cur x(2) fr(3) by auto
qed

lemma sys_inv_runs:
  assumes inv: "sys_inv k s" and "OSIntNesting s = 0" and "OSLockNesting s = 0"
  shows "unat (OSPrioCur s) = Min (bm_mem (rdy s)) \<and> OSTCBCur s = OSTCBPrioTbl s (Min (bm_mem (rdy s)))"
proof -
  note i = pre_invD [OF sys_invD(1) [OF inv]]
  have "unat (OSPrioCur s) = Min (bm_mem (rdy s))" using sys_invD(2) [OF inv] assms(2,3) by (simp add: top_runs_def)
  with i(6,7) show ?thesis by (simp add: task_at_def)
qed

section \<open>The length of a delay\<close>

text \<open>
  \<open>passes n t m\<close>: the kernel goes from one state to another with \<open>m\<close> tick interrupts, which
  count for the task \<open>t\<close> of priority \<open>n\<close>, and any steps between them that do not concern
  this task: they leave alone whether it is ready and suspended, and its delay.
\<close>

definition unconcerned :: "nat \<Rightarrow> nat \<Rightarrow> os \<Rightarrow> os \<Rightarrow> bool" where
  "unconcerned n t s s' \<longleftrightarrow> (task_at s n t \<longrightarrow> task_at s' n t) \<and>
     (n \<in> bm_mem (rdy s') \<longleftrightarrow> n \<in> bm_mem (rdy s)) \<and>
     OSTCBDly (OSTCBTbl s' t) = OSTCBDly (OSTCBTbl s t) \<and> suspended (OSTCBTbl s' t) = suspended (OSTCBTbl s t)"

inductive passes :: "nat \<Rightarrow> nat \<Rightarrow> nat \<Rightarrow> os \<times> conts \<Rightarrow> os \<times> conts \<Rightarrow> bool" for n t where
  start: "passes n t 0 c c"
| tick: "passes n t m c (s, k) \<Longrightarrow> counts_ticks n s \<Longrightarrow> SysTick_Handler s = Some s' \<Longrightarrow> passes n t (Suc m) c (s', k)"
| other: "passes n t m c (s, k) \<Longrightarrow> kstep (s, k) (s', k') \<Longrightarrow> unconcerned n t s s' \<Longrightarrow> passes n t m c (s', k')"

lemma ticked_fields:
  assumes "ticked R p R' p'" and "OSTCBDly p = d" and "d \<noteq> 0"
  shows "OSTCBDly p' = d - 1" and "R' \<longleftrightarrow> (if d = 1 then \<not> suspended p else R)"
    and "suspended p' = suspended p"
proof -
  have "suspended (p\<lparr>OSTCBDly := x, OSTCBStat := OSTCBStat p AND NOT OS_STAT_PEND_ANY, OSTCBStatPend := y\<rparr>) = suspended p" for x y
    by (simp add: suspended_iff bit_and_iff bit_not_iff)
  then show "suspended p' = suspended p" using assms by (auto simp: ticked_def suspended_def split: if_splits)
qed (use assms in \<open>auto simp: ticked_def split: if_splits\<close>)

lemma same_task_fields:
  "same_task p q \<Longrightarrow> OSTCBDly p = OSTCBDly q" "same_task p q \<Longrightarrow> suspended p = suspended q"
  by (simp_all add: same_task_def tcb_sync_def suspended_def)

text \<open>One tick of the \<open>d\<close> that are left.\<close>

lemma tick_of_delay:
  assumes inv: "sys_inv k s" and at: "task_at s n t" and c: "counts_ticks n s" and m: "m < unat d"
    and dly: "OSTCBDly (OSTCBTbl s t) = d - of_nat m" and s': "SysTick_Handler s = Some s'"
    and r: "n \<notin> bm_mem (rdy s)"
  shows "sys_inv k s'" and "task_at s' n t" and "OSTCBDly (OSTCBTbl s' t) = d - of_nat (Suc m)"
    and "suspended (OSTCBTbl s' t) = suspended (OSTCBTbl s t)"
    and "n \<in> bm_mem (rdy s') \<longleftrightarrow> Suc m = unat d \<and> \<not> suspended (OSTCBTbl s t)"
proof -
  obtain p where p: "sys_inv k s'" "task_at s' n t" "ticked (n \<in> bm_mem (rdy s)) (OSTCBTbl s t) (n \<in> bm_mem (rdy s')) p"
    "same_task (OSTCBTbl s' t) p"
    using SysTick_effect [OF inv] s' at c by auto
  have m64: "unat (of_nat m :: INT32U) = m"
    using m unsigned_less [of d, where ?'a = nat] by (simp add: unat_of_nat)
  have ne: "d - of_nat m \<noteq> 0" using m m64 by auto
  have "of_nat m \<le> d" using m m64 by (simp add: word_le_nat_alt)
  then have left: "unat (d - of_nat m) = unat d - m" by (simp add: unat_sub m64)
  have one: "d - of_nat m = 1 \<longleftrightarrow> Suc m = unat d"
    using left m by (auto simp: word_unat_eq_iff [of "d - of_nat m"])
  note f = ticked_fields [OF p(3) dly ne] and g = same_task_fields [OF p(4)]
  show "sys_inv k s'" "task_at s' n t" by (rule p(1), rule p(2))
  show "OSTCBDly (OSTCBTbl s' t) = d - of_nat (Suc m)" by (simp add: g f algebra_simps)
  show "suspended (OSTCBTbl s' t) = suspended (OSTCBTbl s t)" by (simp add: g f)
  show "n \<in> bm_mem (rdy s') \<longleftrightarrow> Suc m = unat d \<and> \<not> suspended (OSTCBTbl s t)" using f(2) one r by auto
qed

text \<open>C18: a task with \<open>d\<close> ticks left on its delay or timeout is not ready before the \<open>d\<close>-th
  tick interrupt; at the \<open>d\<close>-th its delay is over, and it is ready exactly when it is not suspended.
  Between the ticks tasks and interrupt handlers may take any of the steps of \<open>kstep\<close> that leave
  this task's delay, suspension and readiness alone, so no post or abort that wakes it, no
  \<open>OSTimeDlyResume\<close>, \<open>OSTaskSuspend\<close>, \<open>OSTaskResume\<close>, deletion or change of priority of it;
  it is not a waiter of the semaphore with which the tick signals the timer task, and no debugger
  holds back the ticks.\<close>

theorem delay_ends_on_time:
  assumes inv: "sys_inv k s" and at: "task_at s n t" and d: "OSTCBDly (OSTCBTbl s t) = d" "d \<noteq> 0"
    and run: "passes n t m (s, k) (s', k')" and m: "m \<le> unat d"
  shows "task_at s' n t \<and> OSTCBDly (OSTCBTbl s' t) = d - of_nat m \<and>
    suspended (OSTCBTbl s' t) = suspended (OSTCBTbl s t) \<and>
    (n \<in> bm_mem (rdy s') \<longleftrightarrow> m = unat d \<and> \<not> suspended (OSTCBTbl s t))"
proof -
  have "sys_inv k' s' \<and> task_at s' n t \<and> OSTCBDly (OSTCBTbl s' t) = d - of_nat m \<and>
    suspended (OSTCBTbl s' t) = suspended (OSTCBTbl s t) \<and>
    (n \<in> bm_mem (rdy s') \<longleftrightarrow> m = unat d \<and> \<not> suspended (OSTCBTbl s t))"
    using run m
  proof (induction m "(s, k)" "(s', k')" arbitrary: s' k' rule: passes.induct)
    case start
    have "task_ok (n \<in> bm_mem (rdy s)) (waits_on s n) (event_type s) (OSTCBTbl s t)"
      using kernel_invD(6) [OF pre_invD(1) [OF sys_invD(1) [OF inv]] at] .
    then have "n \<notin> bm_mem (rdy s)" using d by (auto simp: task_ok_def)
    moreover have "unat d \<noteq> 0" using d(2) by (simp add: unat_eq_0)
    ultimately show ?case using inv at d by simp
  next
    case (tick m u k' s')
    then have "sys_inv k' u \<and> task_at u n t \<and> OSTCBDly (OSTCBTbl u t) = d - of_nat m \<and>
      suspended (OSTCBTbl u t) = suspended (OSTCBTbl s t) \<and> n \<notin> bm_mem (rdy u)" by auto
    then show ?case using tick_of_delay [of k' u n t m d s'] tick by auto
  next
    case (other m u k'' s' k')
    then show ?case using kstep_sys_inv [OF other.hyps(3)] by (auto simp: unconcerned_def)
  qed
  then show ?thesis by blast
qed

lemma ex_passes:
  "\<exists>s'. passes 5 1 1 (ex_os OS_EVENT_TYPE_SEM False, Map.empty) (s', Map.empty)"
proof -
  let ?s = "ex_os OS_EVENT_TYPE_SEM False"
  have inv: "sys_inv Map.empty ?s" using ex_sys_inv [of OS_EVENT_TYPE_SEM "PendSem 0" False] by (simp add: ex_conts_def)
  have st: "kstep (?s, Map.empty) (OSTimeSet 7 ?s, Map.empty)"
    by (rule kstep.time_set) (simp add: may_call_def task_runs_def)
  have "rdy (OSTimeSet 7 ?s) = rdy ?s" by (simp add: OSTimeSet_def rdy_def)
  then have un: "unconcerned 5 1 ?s (OSTimeSet 7 ?s)"
    by (simp add: unconcerned_def) (simp add: OSTimeSet_def task_at_def)
  have c: "counts_ticks 5 (OSTimeSet 7 ?s)" by (simp add: counts_ticks_def OSTimeSet_def ex_os_def)
  obtain s' where "SysTick_Handler (OSTimeSet 7 ?s) = Some s'" using SysTick_effect [OF kstep_sys_inv [OF st inv]] by blast
  from passes.tick [OF passes.other [OF passes.start st un] c this] show ?thesis by auto
qed

lemma delay_ends_on_time_witness:
  "\<exists>s'. passes 5 1 1 (ex_os OS_EVENT_TYPE_SEM False, Map.empty) (s', Map.empty) \<and> 5 \<in> bm_mem (rdy s')"
proof -
  let ?s = "ex_os OS_EVENT_TYPE_SEM False"
  obtain s' where p: "passes 5 1 1 (?s, Map.empty) (s', Map.empty)" using ex_passes by blast
  have inv: "sys_inv Map.empty ?s" using ex_sys_inv [of OS_EVENT_TYPE_SEM "PendSem 0" False] by (simp add: ex_conts_def)
  have at: "task_at ?s 5 1" by (simp add: ex_task_at)
  have d: "OSTCBDly (OSTCBTbl ?s 1) = 1" by simp
  show ?thesis
    using delay_ends_on_time [OF inv at d _ p] ex_not_suspended [of OS_EVENT_TYPE_SEM False] p by auto
qed

end
