(* ===== verification/UCOS_Broadcast.thy ===== *)
theory UCOS_Broadcast
  imports UCOS_Sem UCOS_Mbox
begin

text \<open>
  What the loops over all waiters of an event do: a broadcast post, a broadcast abort and a deletion
  reach every task that waits, and end.
\<close>

section \<open>Waking every waiter\<close>

text \<open>Task \<open>t\<close> got a message and a pend status, and is ready unless it is suspended.\<close>

definition woken :: "os \<Rightarrow> nat \<Rightarrow> nat \<Rightarrow> voidp \<Rightarrow> INT8U \<Rightarrow> bool" where
  "woken s n t pmsg ps \<longleftrightarrow>
     OSTCBMsg (OSTCBTbl s t) = pmsg \<and> OSTCBStatPend (OSTCBTbl s t) = ps \<and> OSTCBDly (OSTCBTbl s t) = 0 \<and>
     (suspended (OSTCBTbl s t) \<or> n \<in> bm_mem (rdy s))"

lemma readied_fields:
  assumes "\<not> bit msk 3"
  shows "OSTCBMsg (readied_tcb e pmsg msk ps p) = pmsg" "OSTCBStatPend (readied_tcb e pmsg msk ps p) = ps"
    "OSTCBDly (readied_tcb e pmsg msk ps p) = 0" "suspended (readied_tcb e pmsg msk ps p) = suspended p"
  using assms by (simp_all add: readied_tcb_def Let_def suspended_iff and_not_mask_bit split: option.split)

lemma Rdy_woken:
  fixes u e pmsg msk ps
  defines "v \<equiv> fst (OS_EventTaskRdy e pmsg msk ps u)"
  assumes inv: "kernel_inv u" and ne: "bm_mem (wl u e) \<noteq> {}" and m3: "\<not> bit msk 3"
    and at: "task_at u n t"
    and old: "n \<notin> bm_mem (wl u e) \<Longrightarrow> woken u n t pmsg ps" and new: "n \<notin> bm_mem (wl v e)"
  shows "woken v n t pmsg ps"
proof -
  let ?m = "Min (bm_mem (wl u e))"
  obtain x where x: "task_at u ?m x" using top_waiter(1) [OF inv ne] by blast
  note eff = EventTaskRdy_effect [OF inv ne x m3, of pmsg ps]
  have r: "bm_mem (rdy v) = (if suspended (OSTCBTbl u x) then bm_mem (rdy u) else insert ?m (bm_mem (rdy u)))"
    using x kernel_invD(1) [OF inv] by (simp add: v_def eff(3) bm_mem_ins task_at_def)
  show ?thesis
  proof (cases "n = ?m")
    case True
    then have "t = x" using at x task_at_unique by blast
    then show ?thesis
      using True r by (simp add: woken_def v_def eff(2) readied_fields [OF m3])
  next
    case False
    then have "n \<notin> bm_mem (wl u e)" using new eff(5) [of e] by (simp add: v_def)
    moreover have "t \<noteq> x" using False at x by (auto simp: task_at_def)
    ultimately show ?thesis using old r by (auto simp: woken_def v_def eff(2))
  qed
qed

lemma RdyAll_wakes:
  assumes inv: "kernel_inv s" and m: "msk = type_stat (event_type s e)"
  shows "\<exists>s'. OS_EventTaskRdyAll e pmsg msk ps (s, j) = Some (s', j + of_nat (card (bm_mem (wl s e)))) \<and>
    kernel_inv s' \<and> bm_mem (wl s' e) = {} \<and> only_lists s s' \<and>
    (\<forall>n t. n \<in> bm_mem (wl s e) \<and> task_at s n t \<longrightarrow> woken s' n t pmsg ps)"
proof -
  have m3: "\<not> bit msk 3" by (simp add: m)
  let ?Q = "\<lambda>u. (\<forall>n t. task_at u n t = task_at s n t) \<and>
      (\<forall>n t. n \<in> bm_mem (wl s e) \<and> n \<notin> bm_mem (wl u e) \<and> task_at s n t \<longrightarrow> woken u n t pmsg ps)"
  have "\<exists>s'. OS_EventTaskRdyAll e pmsg msk ps (s, j) = Some (s', j + of_nat (card (bm_mem (wl s e)))) \<and>
    kernel_inv s' \<and> bm_mem (wl s' e) = {} \<and> only_lists s s' \<and> ?Q s'"
  proof (rule EventTaskRdyAll_total [OF inv m, where Q = ?Q])
    show "?Q s" by blast
    fix u assume u: "kernel_inv u" "bm_mem (wl u e) \<noteq> {}" and q: "?Q u"
    let ?v = "fst (OS_EventTaskRdy e pmsg msk ps u)"
    obtain x where x: "task_at u (Min (bm_mem (wl u e))) x" using top_waiter(1) [OF u] by blast
    have "task_at ?v n t = task_at u n t" for n t
      using touchesD(9) [OF EventTaskRdy_touches [OF u m3 x]] .
    moreover have "woken ?v n t pmsg ps"
      if "n \<in> bm_mem (wl s e)" "n \<notin> bm_mem (wl ?v e)" "task_at s n t" for n t
      using that q by (intro Rdy_woken [OF u m3]) auto
    ultimately show "?Q ?v" using q by simp
  qed
  then show ?thesis by auto
qed

lemma woken_Sched [simp]: "woken (OS_Sched s) n t pmsg ps = woken s n t pmsg ps"
proof -
  have "suspended (OSTCBTbl (OS_Sched s) t) = suspended (OSTCBTbl s t)"
    using Sched_frame(9) [of s t] by (simp add: same_task_def tcb_sync_def suspended_def)
  then show ?thesis by (simp add: woken_def)
qed

section \<open>The services\<close>

text \<open>Aborting all pends on a semaphore returns, counts the waiters, and leaves none of them
  waiting: each is told of the abort and is ready unless it is suspended.\<close>

theorem OSSemPendAbort_broadcast:
  assumes inv: "kernel_inv s" and ty: "event_type s e = OS_EVENT_TYPE_SEM" and ne: "bm_mem (wl s e) \<noteq> {}"
  shows "\<exists>s'. OSSemPendAbort (Some e) OS_PEND_OPT_BROADCAST s =
      Some (s', of_nat (card (bm_mem (wl s e))), OS_ERR_PEND_ABORT) \<and>
    bm_mem (wl s' e) = {} \<and>
    (\<forall>n t. n \<in> bm_mem (wl s e) \<and> task_at s n t \<longrightarrow> woken s' n t NULL OS_STAT_PEND_ABORT)"
proof -
  have g: "OSEventGrp (OSEvents s e) \<noteq> 0" using grp_nonzero_iff [OF inv] ne by blast
  have m: "OS_STAT_SEM = type_stat (event_type s e)" by (simp add: ty type_stat_def)
  obtain u where "OS_EventTaskRdyAll e NULL OS_STAT_SEM OS_STAT_PEND_ABORT (s, 0) =
      Some (u, of_nat (card (bm_mem (wl s e))))" "bm_mem (wl u e) = {}"
    "\<forall>n t. n \<in> bm_mem (wl s e) \<and> task_at s n t \<longrightarrow> woken u n t NULL OS_STAT_PEND_ABORT"
    using RdyAll_wakes [OF inv m, of NULL OS_STAT_PEND_ABORT 0] by auto
  then show ?thesis using g ty by (simp add: OSSemPendAbort_def)
qed

lemma OSSemPendAbort_broadcast_witness:
  "\<exists>s'. OSSemPendAbort (Some 0) OS_PEND_OPT_BROADCAST (ex_os OS_EVENT_TYPE_SEM True) =
     Some (s', 1, OS_ERR_PEND_ABORT) \<and> woken s' 5 1 NULL OS_STAT_PEND_ABORT"
  using OSSemPendAbort_broadcast [OF ex_kernel_inv, of OS_EVENT_TYPE_SEM True 0]
  by (auto simp: ex_task_at)

text \<open>A broadcast post to a mailbox returns and hands the message to every task that waits for
  one; none is left waiting, and the mailbox does not keep the message.\<close>

theorem OSMboxPostOpt_broadcast:
  assumes inv: "kernel_inv s" and ty: "event_type s e = OS_EVENT_TYPE_MBOX" and ne: "bm_mem (wl s e) \<noteq> {}"
    and msg: "msg \<noteq> NULL" and opt: "opt AND OS_POST_OPT_BROADCAST \<noteq> 0"
  shows "\<exists>s'. OSMboxPostOpt (Some e) msg opt s = Some (s', OS_ERR_NONE) \<and>
    bm_mem (wl s' e) = {} \<and> OSEventPtr (OSEvents s' e) = OSEventPtr (OSEvents s e) \<and>
    (\<forall>n t. n \<in> bm_mem (wl s e) \<and> task_at s n t \<longrightarrow> woken s' n t msg OS_STAT_PEND_OK)"
proof -
  have g: "OSEventGrp (OSEvents s e) \<noteq> 0" using grp_nonzero_iff [OF inv] ne by blast
  have m: "OS_STAT_MBOX = type_stat (event_type s e)" by (simp add: ty type_stat_def)
  obtain u where u: "OS_EventTaskRdyAll e msg OS_STAT_MBOX OS_STAT_PEND_OK (s, 0) =
      Some (u, of_nat (card (bm_mem (wl s e))))" "bm_mem (wl u e) = {}" "only_lists s u"
    "\<forall>n t. n \<in> bm_mem (wl s e) \<and> task_at s n t \<longrightarrow> woken u n t msg OS_STAT_PEND_OK"
    using RdyAll_wakes [OF inv m, of msg OS_STAT_PEND_OK 0] by auto
  then show ?thesis using g ty msg opt only_lists_event(3) [OF u(3)] by (simp add: OSMboxPostOpt_def)
qed

lemma OSMboxPostOpt_broadcast_witness:
  "\<exists>s'. OSMboxPostOpt (Some 0) (AppP 77) OS_POST_OPT_BROADCAST (ex_os OS_EVENT_TYPE_MBOX True) =
     Some (s', OS_ERR_NONE) \<and> woken s' 5 1 (AppP 77) OS_STAT_PEND_OK"
  using OSMboxPostOpt_broadcast [OF ex_kernel_inv, of OS_EVENT_TYPE_MBOX True 0 "AppP 77" OS_POST_OPT_BROADCAST]
  by (auto simp: ex_task_at)

text \<open>C8: deleting a semaphore from a task with \<open>OS_DEL_ALWAYS\<close> returns; every waiter is told of
  the abort, and the control block is unused and the next one to be allocated.\<close>

theorem OSSemDel_always:
  assumes inv: "kernel_inv s" and ty: "event_type s e = OS_EVENT_TYPE_SEM" and task: "OSIntNesting s = 0"
  shows "\<exists>s'. OSSemDel (Some e) OS_DEL_ALWAYS s = Some (s', None, OS_ERR_NONE) \<and>
    event_type s' e = OS_EVENT_TYPE_UNUSED \<and> OSEventFreeList s' = Some e \<and>
    event_next s' e = OSEventFreeList s \<and> bm_mem (wl s' e) = {} \<and>
    (\<forall>n t. n \<in> bm_mem (wl s e) \<and> task_at s n t \<longrightarrow> woken s' n t NULL OS_STAT_PEND_ABORT)"
proof -
  have m: "OS_STAT_SEM = type_stat (event_type s e)" by (simp add: ty type_stat_def)
  obtain u where u: "OS_EventTaskRdyAll e NULL OS_STAT_SEM OS_STAT_PEND_ABORT (s, 0) =
      Some (u, of_nat (card (bm_mem (wl s e))))" "bm_mem (wl u e) = {}" "only_lists s u"
    "\<forall>n t. n \<in> bm_mem (wl s e) \<and> task_at s n t \<longrightarrow> woken u n t NULL OS_STAT_PEND_ABORT"
    using RdyAll_wakes [OF inv m, of NULL OS_STAT_PEND_ABORT 0] by auto
  let ?v = "OS_EventFree e u"
  have f: "event_type ?v e = OS_EVENT_TYPE_UNUSED" "OSEventFreeList ?v = Some e" "event_next ?v e = OSEventFreeList s"
    "wl ?v e = wl u e" "woken ?v n t msg ps = woken u n t msg ps" for n t msg ps
    using only_lists_global(7) [OF u(3)]
    by (simp_all add: OS_EventFree_def upd_event_def event_next_def wl_def woken_def rdy_def)
  have sch: "OSEventFreeList (OS_Sched w) = OSEventFreeList w" "event_next (OS_Sched w) x = event_next w x" for w x
    using same_kernelD(5) [OF Sched_frame(8)] by (simp_all add: event_next_def)
  have "OSSemDel (Some e) OS_DEL_ALWAYS s =
      Some (if OSEventGrp (OSEvents s e) \<noteq> 0 then OS_Sched ?v else ?v, None, OS_ERR_NONE)"
    using ty task u(1) by (simp add: OSSemDel_def)
  then show ?thesis using f u(2,4) by (simp add: sch)
qed

lemma OSSemDel_always_witness:
  "\<exists>s'. OSSemDel (Some 0) OS_DEL_ALWAYS (ex_os OS_EVENT_TYPE_SEM True) = Some (s', None, OS_ERR_NONE) \<and>
     event_type s' 0 = OS_EVENT_TYPE_UNUSED \<and> woken s' 5 1 NULL OS_STAT_PEND_ABORT"
  using OSSemDel_always [OF ex_kernel_inv, of OS_EVENT_TYPE_SEM True 0] by (auto simp: ex_task_at)

end
