(* ===== verification/UCOS_MutexProto.thy ===== *)
theory UCOS_MutexProto
  imports UCOS_Mutex UCOS_Move UCOS_Example
begin

text \<open>
  The priority ceiling protocol: what a pend and a post of a mutex do to the owner and the waiters.
\<close>

section \<open>The two bytes of the counter\<close>

lemma byte_masks: "(0x00FF :: INT16U) = mask 8" "(0xFF00 :: INT16U) = NOT (mask 8)" "(0xFF :: INT8U) = mask 8"
  by (simp_all add: mask_eq_exp_minus_1)

lemma bit_byte_high: "bit (p :: INT8U) (8 + n) = False"
  using bit_imp_le_length [of p "8 + n"] by auto

lemma mutex_bytes [simp]:
  "mutex_pcp (mutex_set_owner p c) = mutex_pcp c" "mutex_owner_prio (mutex_set_owner p c) = p"
  unfolding mutex_pcp_def mutex_owner_prio_def mutex_set_owner_def byte_masks
  by (rule bit_word_eqI; auto simp: bit_simps bit_byte_high)+

lemma mutex_set_owner_available:
  assumes "c AND OS_MUTEX_KEEP_LOWER_8 = OS_MUTEX_AVAILABLE"
  shows "mutex_set_owner p c OR OS_MUTEX_AVAILABLE = c"
proof (rule bit_word_eqI)
  fix n assume n: "n < LENGTH(16)"
  have "bit (c AND mask 8) n = bit (mask 8 :: INT16U) n" using assms by (simp only: byte_masks)
  then show "bit (mutex_set_owner p c OR OS_MUTEX_AVAILABLE) n = bit c n"
    using n bit_imp_le_length [of p n] unfolding mutex_set_owner_def byte_masks
    by (auto simp: bit_simps)
qed

lemma mutex_owner_avail:
  "mutex_owner_prio c = ucast OS_MUTEX_AVAILABLE \<longleftrightarrow> c AND OS_MUTEX_KEEP_LOWER_8 = OS_MUTEX_AVAILABLE"
proof
  assume a: "mutex_owner_prio c = ucast OS_MUTEX_AVAILABLE"
  show "c AND OS_MUTEX_KEEP_LOWER_8 = OS_MUTEX_AVAILABLE"
    unfolding byte_masks
  proof (rule bit_word_eqI)
    fix n assume n: "n < LENGTH(16)"
    have "bit (mutex_owner_prio c) n = bit (ucast (mask 8 :: INT16U) :: INT8U) n" using a by (simp only: byte_masks)
    then show "bit (c AND mask 8) n = bit (mask 8 :: INT16U) n"
      unfolding mutex_owner_prio_def byte_masks by (auto simp: bit_simps)
  qed
qed (simp add: mutex_owner_prio_def)

section \<open>A free mutex\<close>

lemma upd_event_self: "f (g (OSEvents s e)) = OSEvents s e \<Longrightarrow> upd_event e f (upd_event e g s) = s"
  by (intro os.equality) (auto simp: upd_event_def)

lemma void_of_tcb_inverse [simp]: "tcb_of_void (void_of_tcb p) = p"
  by (cases p) (simp_all add: tcb_of_void_def void_of_tcb_def)

text \<open>A task that pends on a free mutex owns it at once: the counter holds its priority beside the ceiling, and the
  event points to it. When it releases a mutex nobody waits for, the kernel is in the same state as before the
  pend.\<close>

theorem OSMutexPend_Post_roundtrip:
  assumes ty: "OSEventType (OSEvents s e) = OS_EVENT_TYPE_MUTEX" and n: "OSIntNesting s = 0" "OSLockNesting s = 0"
    and free: "OSEventCnt (OSEvents s e) AND OS_MUTEX_KEEP_LOWER_8 = OS_MUTEX_AVAILABLE" "OSEventPtr (OSEvents s e) = NULL"
    and grp: "OSEventGrp (OSEvents s e) = 0"
    and pcp: "mutex_pcp (OSEventCnt (OSEvents s e)) \<noteq> OS_PRIO_MUTEX_CEIL_DIS \<Longrightarrow>
      OSTCBPrioTbl s (unat (mutex_pcp (OSEventCnt (OSEvents s e)))) = OS_TCB_RESERVED \<and>
      mutex_pcp (OSEventCnt (OSEvents s e)) < OSTCBPrio (OSTCBTbl s (cur s))"
  shows "let (s', r) = OSMutexPend (Some e) timeout s; v = OSEvents s' e
    in r = Some OS_ERR_NONE \<and> tcb_of_void (OSEventPtr v) = OSTCBCur s \<and>
       mutex_owner_prio (OSEventCnt v) = OSTCBPrio (OSTCBTbl s (cur s)) \<and>
       mutex_pcp (OSEventCnt v) = mutex_pcp (OSEventCnt (OSEvents s e)) \<and>
       OSMutexPost (Some e) s' = (s, OS_ERR_NONE)"
proof -
  let ?c = "OSEventCnt (OSEvents s e)" and ?p = "OSTCBPrio (OSTCBTbl s (cur s))"
  let ?g = "\<lambda>v. v\<lparr>OSEventCnt := mutex_set_owner ?p (OSEventCnt v), OSEventPtr := void_of_tcb (OSTCBCur s)\<rparr>"
  let ?s = "upd_event e ?g s"
  let ?r = "if mutex_pcp ?c \<noteq> OS_PRIO_MUTEX_CEIL_DIS \<and> ?p \<le> mutex_pcp ?c then OS_ERR_PCP_LOWER else OS_ERR_NONE"
  have r: "OSMutexPend (Some e) timeout s = (?s, Some OS_ERR_NONE)"
    using ty n free(1) pcp mutex_owner_avail [of ?c] by (auto simp: OSMutexPend_def OS_MutexTake_def Let_def)
  have f: "OSEvents ?s e = ?g (OSEvents s e)" "OSTCBTbl ?s = OSTCBTbl s" "OSTCBPrioTbl ?s = OSTCBPrioTbl s"
    "OSTCBCur ?s = OSTCBCur s" "OSIntNesting ?s = 0"
    using n by (simp_all add: upd_event_def)
  have b: "upd_event e (\<lambda>v. v\<lparr>OSEventCnt := OSEventCnt v OR OS_MUTEX_AVAILABLE, OSEventPtr := NULL\<rparr>) ?s = s"
    by (rule upd_event_self, rule os_event.equality) (simp_all add: mutex_set_owner_available [OF free(1)] free(2))
  have "?s\<lparr>OSTCBPrioTbl := (OSTCBPrioTbl s)(unat (mutex_pcp ?c) := OS_TCB_RESERVED)\<rparr> = ?s"
    if "mutex_pcp ?c \<noteq> OS_PRIO_MUTEX_CEIL_DIS"
    using pcp [OF that] by (intro os.equality) (simp_all add: upd_event_def fun_upd_idem)
  note tb = this
  have np: "?p \<noteq> mutex_pcp ?c" if "mutex_pcp ?c \<noteq> OS_PRIO_MUTEX_CEIL_DIS" using pcp [OF that] by auto
  have "OSMutexPost (Some e) ?s = (s, OS_ERR_NONE)"
  proof (cases "mutex_pcp ?c = OS_PRIO_MUTEX_CEIL_DIS")
    case True
    then show ?thesis using ty grp unfolding OSMutexPost_def Let_def f by (simp add: b)
  next
    case False
    then show ?thesis using ty grp np [OF False] tb [OF False] unfolding OSMutexPost_def Let_def f by (simp add: f b)
  qed
  then show ?thesis by (simp add: r f Let_def)
qed

definition ex_mutex :: "os" where
  "ex_mutex = upd_event 0 (\<lambda>v. v\<lparr>OSEventCnt := 0x03FF\<rparr>) ((ex_os OS_EVENT_TYPE_MUTEX False)\<lparr>OSTCBPrioTbl :=
     (\<lambda>_. NullTCB)(10 := TCB 0, 5 := TCB 1, 63 := TCB 2, 3 := OS_TCB_RESERVED)\<rparr>)"

lemma OSMutexPend_Post_roundtrip_witness:
  "OSMutexPost (Some 0) (fst (OSMutexPend (Some 0) 5 ex_mutex)) = (ex_mutex, OS_ERR_NONE)"
proof -
  have "OSEventType (OSEvents ex_mutex 0) = OS_EVENT_TYPE_MUTEX" "OSIntNesting ex_mutex = 0" "OSLockNesting ex_mutex = 0"
    "OSEventCnt (OSEvents ex_mutex 0) AND OS_MUTEX_KEEP_LOWER_8 = OS_MUTEX_AVAILABLE"
    "OSEventPtr (OSEvents ex_mutex 0) = NULL" "OSEventGrp (OSEvents ex_mutex 0) = 0"
    "OSTCBPrioTbl ex_mutex (unat (mutex_pcp (OSEventCnt (OSEvents ex_mutex 0)))) = OS_TCB_RESERVED \<and>
      mutex_pcp (OSEventCnt (OSEvents ex_mutex 0)) < OSTCBPrio (OSTCBTbl ex_mutex (cur ex_mutex))"
    by (simp_all add: ex_mutex_def upd_event_def mutex_pcp_def) (simp add: ex_os_def)
  from OSMutexPend_Post_roundtrip [OF this, of 5] show ?thesis by (simp add: Let_def split: prod.splits)
qed

section \<open>The promotion of the owner\<close>

text \<open>
  The promotion moves the owner to the ceiling priority, when the owner is ready and has no wait list to
  leave, or is not ready and waits for at most one event.
\<close>

lemma only_lists_prio_tbl:
  assumes o: "only_lists s s'"
  shows "only_lists (s\<lparr>OSTCBPrioTbl := f\<rparr>) (s'\<lparr>OSTCBPrioTbl := f\<rparr>)"
proof -
  obtain a b c d where "s' = s\<lparr>OSRdyGrp := a, OSRdyTbl := b, OSEvents := c, OSTCBTbl := d\<rparr>"
    using o unfolding only_lists_def by blast
  then show ?thesis using o by (simp add: only_lists_def)
qed

lemma MutexPromote_moves:
  fixes pcp :: INT8U
  assumes inv: "kernel_inv s" and at: "task_at s m t" and n: "unat pcp < 64" "unat pcp \<noteq> m"
    and free: "\<And>u. OSTCBPrioTbl s (unat pcp) \<noteq> TCB u"
    and one: "if m \<in> bm_mem (rdy s) then waits_on s m = {} else OSTCBEventMultiPtr (OSTCBTbl s t) = None"
  shows "moves m (unat pcp) t s (OS_MutexPromote t pcp s)"
    and "only_lists (s\<lparr>OSTCBPrioTbl := (OSTCBPrioTbl s)(unat pcp := TCB t)\<rparr>) (OS_MutexPromote t pcp s)"
proof -
  let ?n = "unat pcp"
  define p where "p = OSTCBTbl s t"
  define q where "q = set_prio_xy pcp p"
  have xp: "xy_ok p" and pp: "prio_of p = m"
    using task_at_xy [OF inv at] at by (simp_all add: p_def task_at_def)
  have xq: "xy_ok q" and pq: "prio_of q = ?n" using n by (simp_all add: q_def set_prio_xy_fields)
  define ready where "ready \<longleftrightarrow> m \<in> bm_mem (rdy s)"
  have rb: "(OSRdyTbl s ! unat (OSTCBY p) AND OSTCBBitX p \<noteq> 0) = ready"
    using row_bit_iff [OF xp, of "rdy s"] pp by (simp add: ready_def) (simp add: rdy_def)
  define s1 where "s1 = (if ready then OS_RdyListRemove t s
     else case OSTCBEventPtr p of None \<Rightarrow> s | Some e \<Rightarrow> OS_WaitListRemove t e s)"
  define s2 where "s2 = upd_tcb t (set_prio_xy pcp) s1"
  define s3 where "s3 = (if ready then OS_RdyListInsert t s2
     else case OSTCBEventPtr p of None \<Rightarrow> s2 | Some e \<Rightarrow> OS_WaitListInsert t e s2)"
  note r1 = RdyListRemove_effect [OF xp [unfolded p_def], folded p_def, unfolded pp]
  note w1 = WaitListRemove_effect [OF xp [unfolded p_def], folded p_def, unfolded pp]
  have t1: "OSTCBTbl s1 = OSTCBTbl s" by (simp add: s1_def r1 w1 split: option.split)
  have t2: "OSTCBTbl s2 = (OSTCBTbl s)(t := q)" by (simp add: s2_def t1 q_def p_def)
  have x2: "xy_ok (OSTCBTbl s2 t)" "prio_of (OSTCBTbl s2 t) = ?n" using xq pq by (simp_all add: t2)
  note r3 = RdyListInsert_effect [OF x2(1), unfolded x2(2)] and w3 = WaitListInsert_effect [OF x2(1), unfolded x2(2)]
  have e: "OS_MutexPromote t pcp s = s3\<lparr>OSTCBPrioTbl := (OSTCBPrioTbl s3)(?n := TCB t)\<rparr>"
    unfolding OS_MutexPromote_def Let_def p_def [symmetric] rb s1_def s2_def s3_def by (rule refl)
  have o1: "only_lists s s1" using r1(5) w1(4) by (simp add: s1_def split: option.split)
  have "only_lists s s2" unfolding s2_def by (rule only_lists_trans [OF o1]) simp
  then have o3: "only_lists s s3"
    using only_lists_trans [OF _ r3(5)] only_lists_trans [OF _ w3(4)] by (simp add: s3_def split: option.split)
  show "only_lists (s\<lparr>OSTCBPrioTbl := (OSTCBPrioTbl s)(?n := TCB t)\<rparr>) (OS_MutexPromote t pcp s)"
    unfolding e only_lists_global(1) [OF o3] by (rule only_lists_prio_tbl [OF o3])
  have tcb: "OSTCBTbl s3 = (OSTCBTbl s)(t := q)" by (simp add: s3_def r3 w3 t2 split: option.split)
  have l1: "rdy s1 = (if ready then bm_del m (rdy s) else rdy s)"
    "wl s1 d = (if \<not> ready \<and> OSTCBEventPtr p = Some d then bm_del m (wl s d) else wl s d)" for d
    by (auto simp: s1_def r1 w1 split: option.split)
  have l2: "rdy s2 = rdy s1" "wl s2 d = wl s1 d" for d by (simp_all add: s2_def)
  have rd: "rdy s3 = (if ready then bm_ins ?n (bm_del m (rdy s)) else rdy s)"
    by (simp add: s3_def r3 w3 l2 l1 split: option.split)
  have wl3: "wl s3 d = (if \<not> ready \<and> OSTCBEventPtr p = Some d then bm_ins ?n (bm_del m (wl s d)) else wl s d)" for d
    by (auto simp: s3_def r3 w3 l2 l1 split: option.split)
  have nt: "\<not> task_at s ?n u" for u using free by (simp add: task_at_def)
  have nr: "?n \<notin> bm_mem (rdy s)" "?n \<notin> bm_mem (wl s d)" for d using nt kernel_invD(4,5) [OF inv] by blast+
  note okr = kernel_invD(1) [OF inv] and okw = kernel_invD(2) [OF inv]
  have r: "bm_moved m ?n (rdy s) (rdy s3)"
  proof (cases ready)
    case True
    then show ?thesis unfolding rd if_P [OF True] using bm_moved_move [OF okr _ n] by (simp add: ready_def)
  next
    case False
    then show ?thesis unfolding rd if_not_P [OF False] using bm_moved_same [OF okr _ nr(1)] by (simp add: ready_def)
  qed
  have aw: "m \<in> bm_mem (wl s d) \<longleftrightarrow> d \<in> awaited p" for d
    using kernel_invD(6) [OF inv at] by (auto simp: task_ok_def waits_on_def p_def)
  have w: "bm_moved m ?n (wl s d) (wl s3 d)" for d
  proof (cases "m \<in> bm_mem (wl s d)")
    case True
    then have nrd: "\<not> ready" using one by (auto simp: ready_def waits_on_def split: if_splits)
    then have "OSTCBEventPtr p = Some d" using one aw [of d] True by (auto simp: ready_def awaited_def p_def)
    then show ?thesis using bm_moved_move [OF okw True n] nrd by (simp add: wl3)
  next
    case False
    then have "\<not> (\<not> ready \<and> OSTCBEventPtr p = Some d)" using one aw [of d] by (auto simp: ready_def awaited_def p_def)
    then show ?thesis using bm_moved_same [OF okw False nr(2)] unfolding wl3 by (simp only: if_False)
  qed
  have fs: "rdy (OS_MutexPromote t pcp s) = rdy s3" "wl (OS_MutexPromote t pcp s) d = wl s3 d"
    "OSTCBTbl (OS_MutexPromote t pcp s) = (OSTCBTbl s)(t := q)" "event_type (OS_MutexPromote t pcp s) = event_type s"
    "OSTCBPrioTbl (OS_MutexPromote t pcp s) = (OSTCBPrioTbl s)(?n := TCB t)" for d
    using same_kernelD(2) [OF only_lists_kernel(1) [OF o3]] only_lists_global(1) [OF o3]
    by (simp_all add: e tcb) (simp_all add: rdy_def wl_def)
  have old: "OSTCBPrioTbl s m = TCB t" using at by (simp add: task_at_def)
  show "moves m ?n t s (OS_MutexPromote t pcp s)"
    unfolding moves_def fs using n r w xq pq old by (simp add: q_def p_def set_prio_xy_fields)
qed

section \<open>Priority inheritance\<close>

lemma same_waits_event:
  assumes "only_lists (s\<lparr>OSTCBPrioTbl := f\<rparr>) s'"
  shows "OSEventType (OSEvents s' e) = OSEventType (OSEvents s e)" "OSEventCnt (OSEvents s' e) = OSEventCnt (OSEvents s e)"
    "OSEventPtr (OSEvents s' e) = OSEventPtr (OSEvents s e)" "OSIntNesting s' = OSIntNesting s"
    "OSLockNesting s' = OSLockNesting s" "OSTCBCur s' = OSTCBCur s" "OSPrioCur s' = OSPrioCur s" "OSTCBPrioTbl s' = f"
  using only_lists_event [OF assms] only_lists_global [OF assms] by simp_all

text \<open>The current task blocks, and the ready task of highest priority among the others runs.\<close>

lemma block_and_switch:
  fixes q stat :: INT8U and timeout :: INT32U and e :: nat
  assumes inv: "kernel_inv s" and xc: "xy_ok (OSTCBTbl s (cur s))" and p: "prio_of (OSTCBTbl s (cur s)) = p"
    and n: "OSIntNesting s = 0" "OSLockNesting s = 0"
    and q: "unat q \<in> bm_mem (rdy s) - {p}" "\<forall>k\<in>bm_mem (rdy s) - {p}. unat q \<le> k"
    and sw: "OSPrioCur s \<noteq> q" "OSTCBPrioTbl s (unat q) = TCB t"
  defines "s' \<equiv> OS_Sched (OS_PendBlock stat timeout e s)"
  shows "OSPrioCur s' = q" and "OSTCBCur s' = TCB t" and "bm_mem (rdy s') = bm_mem (rdy s) - {p}"
    and "bm_mem (wl s' e) = insert p (bm_mem (wl s e))" and "d \<noteq> e \<Longrightarrow> wl s' d = wl s d"
    and "task_at s' k u \<longleftrightarrow> task_at s k u"
    and "OSEventCnt (OSEvents s' d) = OSEventCnt (OSEvents s d)" and "OSEventPtr (OSEvents s' d) = OSEventPtr (OSEvents s d)"
proof -
  let ?s = "OS_PendBlock stat timeout e s"
  note B = PendBlock_effect [OF xc, of stat timeout e, unfolded p]
  note g = only_lists_global [OF B(4)]
  have p64: "p < 64" using xy_okD(1) [OF xc] p by simp
  have r: "bm_ok (rdy ?s)" "bm_mem (rdy ?s) = bm_mem (rdy s) - {p}"
    using kernel_invD(1) [OF inv] p64 by (simp_all add: B(1) bm_ok_del bm_mem_del)
  have "Min (bm_mem (rdy ?s)) = unat q"
    using q by (intro Min_eqI) (simp_all add: r bm.finite_mem)
  then have top: "bm_top (rdy ?s) = q"
    using bm.top_eq_Min [OF r(1)] q(1) r(2) by (auto simp: word_unat_eq_iff)
  have S: "s' = OS_SwitchHighRdy ?s" using g n by (simp add: s'_def OS_Sched_def)
  show "OSPrioCur s' = q" "OSTCBCur s' = TCB t" using g sw by (auto simp: S Switch_run top)
  show "bm_mem (rdy s') = bm_mem (rdy s) - {p}" by (simp add: s'_def r)
  show "bm_mem (wl s' e) = insert p (bm_mem (wl s e))"
    using kernel_invD(2) [OF inv] p64 by (simp add: s'_def B(2) bm_mem_ins)
  show "wl s' d = wl s d" if "d \<noteq> e" using that by (simp add: s'_def B(2))
  show "task_at s' k u \<longleftrightarrow> task_at s k u"
    using same_task_prio [OF Sched_frame(9) [of ?s u]] by (cases "u = cur s") (simp_all add: s'_def task_at_def g B(3))
  show "OSEventCnt (OSEvents s' d) = OSEventCnt (OSEvents s d)" "OSEventPtr (OSEvents s' d) = OSEventPtr (OSEvents s d)"
    using only_lists_event [OF B(4)] by (simp_all add: s'_def)
qed

text \<open>C14: priority inheritance. When the running task pends on a mutex that a ready task of lower priority owns, the
  owner gets the ceiling priority and runs at once, before every other ready task; the running task is
  in the wait list of the mutex and no longer ready; and the owner's own priority is kept in the mutex.\<close>

theorem OSMutexPend_inherits:
  assumes inv: "kernel_inv s" and n: "OSIntNesting s = 0" "OSLockNesting s = 0"
    and c: "task_at s (unat (OSPrioCur s)) (cur s)" "unat (OSPrioCur s) = Min (bm_mem (rdy s))"
    and ty: "OSEventType (OSEvents s e) = OS_EVENT_TYPE_MUTEX"
    and own: "tcb_of_void (OSEventPtr (OSEvents s e)) = TCB t"
      "task_at s (unat (mutex_owner_prio (OSEventCnt (OSEvents s e)))) t"
    and rd: "unat (mutex_owner_prio (OSEventCnt (OSEvents s e))) \<in> bm_mem (rdy s)"
      "waits_on s (unat (mutex_owner_prio (OSEventCnt (OSEvents s e)))) = {}"
    and pcp: "mutex_pcp (OSEventCnt (OSEvents s e)) < OSPrioCur s"
      "OSTCBPrioTbl s (unat (mutex_pcp (OSEventCnt (OSEvents s e)))) = OS_TCB_RESERVED"
    and lower: "OSPrioCur s < mutex_owner_prio (OSEventCnt (OSEvents s e))"
      "mutex_owner_prio (OSEventCnt (OSEvents s e)) \<noteq> OS_TASK_IDLE_PRIO"
  shows "let (s', r) = OSMutexPend (Some e) timeout s; pcp = mutex_pcp (OSEventCnt (OSEvents s e))
    in r = None \<and> OSPrioCur s' = pcp \<and> OSTCBCur s' = TCB t \<and> task_at s' (unat pcp) t \<and>
       bm_mem (rdy s') = insert (unat pcp) (bm_mem (rdy s) -
         {unat (OSPrioCur s), unat (mutex_owner_prio (OSEventCnt (OSEvents s e)))}) \<and>
       bm_mem (wl s' e) = insert (unat (OSPrioCur s)) (bm_mem (wl s e)) \<and>
       OSEventCnt (OSEvents s' e) = OSEventCnt (OSEvents s e) \<and> OSEventPtr (OSEvents s' e) = OSEventPtr (OSEvents s e)"
proof -
  let ?cnt = "OSEventCnt (OSEvents s e)" and ?p = "unat (OSPrioCur s)" and ?c = "cur s"
  define pc where "pc = mutex_pcp ?cnt"
  define mp where "mp = mutex_owner_prio ?cnt"
  have p64: "?p < 64" and cprio: "OSTCBPrio (OSTCBTbl s ?c) = OSPrioCur s" and m64: "unat mp < 64"
    using c(1) own(2) by (auto simp: task_at_def mp_def intro: word_unat_eq_iff [THEN iffD2])
  have lt: "unat pc < ?p" "?p < unat mp" "unat mp \<noteq> 63"
    using pcp(1) lower word_unat_eq_iff [of mp 63] by (auto simp: word_less_nat_alt pc_def mp_def)
  have n63: "unat pc < 64" "unat pc \<noteq> unat mp" using lt p64 by simp_all
  have tprio: "OSTCBPrio (OSTCBTbl s t) = mp"
    using own(2) by (auto simp: task_at_def mp_def intro: word_unat_eq_iff [THEN iffD2])
  have free: "\<And>u. OSTCBPrioTbl s (unat pc) \<noteq> TCB u" using pcp(2) by (simp add: pc_def)
  have tc: "t \<noteq> ?c" using c(1) own(2) lt by (auto simp: task_at_def mp_def)
  have at: "task_at s (unat mp) t" using own(2) by (simp add: mp_def)
  define s1 where "s1 = OS_MutexPromote t pc s"
  note mv = MutexPromote_moves [OF inv at n63 free, folded s1_def]
  have one: "if unat mp \<in> bm_mem (rdy s) then waits_on s (unat mp) = {} else OSTCBEventMultiPtr (OSTCBTbl s t) = None"
    using rd by (simp add: mp_def)
  note D = movesD [OF mv(1) [OF one]] and F = same_waits_event [OF mv(2) [OF one]]
  have T: "task_at s1 k u \<longleftrightarrow> (if u = t then k = unat pc else task_at s k u)" for k u
    by (rule moves_task_at [OF inv at _ mv(1) [OF one] n63(1)]) (use free in simp)
  have k1: "kernel_inv s1"
    by (rule moves_kernel_inv [OF inv at _ mv(1) [OF one] n63 lt(3)]) (use free in simp)
  have ct: "OSTCBPrio (OSTCBTbl s1 ?c) = OSPrioCur s" "xy_ok (OSTCBTbl s1 ?c)"
    using T [of ?p ?c] tc c(1) task_at_xy [OF k1, of ?p ?c]
    by (auto simp: task_at_def intro: word_unat_eq_iff [THEN iffD2])
  have curs1: "cur s1 = ?c" by (simp add: F)
  have xc: "xy_ok (OSTCBTbl s1 (cur s1))" using ct by (simp add: F)
  have r: "OSMutexPend (Some e) timeout s = (OS_Sched (OS_PendBlock OS_STAT_MUTEX timeout e s1), None)"
  proof -
    have na: "mutex_owner_prio ?cnt \<noteq> ucast OS_MUTEX_AVAILABLE" using m64 by (auto simp: mp_def)
    have cd: "mutex_pcp ?cnt \<noteq> OS_PRIO_MUTEX_CEIL_DIS" using n63(1) by (auto simp: pc_def)
    have gt: "OSTCBPrio (OSTCBTbl s t) > mutex_pcp ?cnt" "mutex_owner_prio ?cnt > OSTCBPrio (OSTCBTbl s ?c)"
      using pcp(1) lower(1) tprio cprio by (auto simp: mp_def)
    show ?thesis
      using ty n na cd gt own(1) by (simp add: OSMutexPend_def Let_def s1_def pc_def)
  qed
  have r1: "k \<in> bm_mem (rdy s1) \<longleftrightarrow> k = unat pc \<or> k \<noteq> unat mp \<and> k \<in> bm_mem (rdy s)" for k
    using rd(1) n63(2) by (simp add: D(10) mp_def)
  have le: "?p \<le> k" if "k \<in> bm_mem (rdy s)" for k using that c(2) Min_le [OF bm.finite_mem] by simp
  have "unat pc \<in> bm_mem (rdy s1) - {?p}" "\<forall>k\<in>bm_mem (rdy s1) - {?p}. unat pc \<le> k"
    using lt(1) by (auto simp: r1 dest!: le)
  note X = block_and_switch [OF k1 xc _ _ _ this]
  have X': "OSPrioCur s1 \<noteq> pc" "OSTCBPrioTbl s1 (unat pc) = TCB t" "prio_of (OSTCBTbl s1 (cur s1)) = ?p"
    "OSIntNesting s1 = 0" "OSLockNesting s1 = 0"
    using lt(1) ct(1) n by (auto simp: F)
  note X = X [OF X'(3-5,1,2), where stat = OS_STAT_MUTEX and timeout = timeout and e = e]
  have w1: "bm_mem (wl s1 e) = bm_mem (wl s e)"
  proof -
    have "unat mp \<notin> bm_mem (wl s e)" using rd(2) by (auto simp: waits_on_def mp_def)
    moreover have "unat pc \<notin> bm_mem (wl s e)" using kernel_invD(5) [OF inv] free by (auto simp: task_at_def)
    moreover have "bm_moved (unat mp) (unat pc) (wl s e) (wl s1 e)" using mv(1) [OF one] by (simp add: moves_def)
    ultimately show ?thesis by (auto simp: bm_moved_def split: if_splits)
  qed
  have at2: "task_at (OS_Sched (OS_PendBlock OS_STAT_MUTEX timeout e s1)) (unat pc) t"
    using X(6) [of "unat pc" t] T by simp
  have rr: "bm_mem (rdy s1) - {?p} = insert (unat pc) (bm_mem (rdy s) - {?p, unat mp})"
    using lt(1) by (auto simp: r1)
  show ?thesis
    unfolding r Let_def prod.case pc_def [symmetric] mp_def [symmetric] using X(1-4,7,8) at2 rr w1 F(2,3) by simp
qed

text \<open>Task 1 of priority 5 runs, and the ready task 0 of priority 10 owns the mutex with ceiling 3.\<close>

definition ex_owned :: os where
  "ex_owned = upd_event 0 (\<lambda>v. v\<lparr>OSEventCnt := 0x030A, OSEventPtr := TcbP 0\<rparr>)
     ((ex_os OS_EVENT_TYPE_MUTEX False)\<lparr>
       OSTCBPrioTbl := (\<lambda>_. NullTCB)(10 := TCB 0, 5 := TCB 1, 63 := TCB 2, 3 := OS_TCB_RESERVED),
       OSTCBTbl := (\<lambda>_. zero_tcb)(0 := ex_tcb 10 NullTCB (TCB 1), 1 := ex_tcb 5 (TCB 0) (TCB 2), 2 := ex_tcb 63 (TCB 1) NullTCB),
       OSPrioCur := 5, OSTCBCur := TCB 1, OSRdyGrp := 0x83, OSRdyTbl := [32, 4, 0, 0, 0, 0, 0, 128]\<rparr>)"

lemma ex_owned_fields:
  "OSTCBPrioTbl ex_owned = (\<lambda>_. NullTCB)(10 := TCB 0, 5 := TCB 1, 63 := TCB 2, 3 := OS_TCB_RESERVED)"
  "OSTCBTbl ex_owned = (\<lambda>_. zero_tcb)(0 := ex_tcb 10 NullTCB (TCB 1), 1 := ex_tcb 5 (TCB 0) (TCB 2), 2 := ex_tcb 63 (TCB 1) NullTCB)"
  "OSIntNesting ex_owned = 0" "OSLockNesting ex_owned = 0" "OSPrioCur ex_owned = 5" "OSTCBCur ex_owned = TCB 1"
  "OSEventType (OSEvents ex_owned 0) = OS_EVENT_TYPE_MUTEX" "OSEventCnt (OSEvents ex_owned 0) = 0x030A"
  "OSEventPtr (OSEvents ex_owned 0) = TcbP 0"
  by (simp_all add: ex_owned_def upd_event_def)

lemma ex_owned_lists:
  "rdy ex_owned = bm_ins 5 (bm_ins 63 (bm_ins 10 (0, replicate 8 0)))" "wl ex_owned e = wl (ex_os OS_EVENT_TYPE_MUTEX False) e"
  by (simp_all add: ex_owned_def upd_event_def wl_def rdy_def bm_ins_def bm_set_def rows8)

lemma ex_owned_at: "task_at ex_owned n t \<longleftrightarrow> (n, t) \<in> {(10, 0), (5, 1), (63, 2)}"
  by (auto simp: task_at_def ex_owned_fields)

lemma ex_owned_rdy: "bm_ok (rdy ex_owned)" "bm_mem (rdy ex_owned) = {5, 10, 63}"
  by (auto simp: ex_owned_lists bm_ok_ins bm_mem_ins bm_ok_empty bm_mem_empty)

lemma ex_owned_waits: "waits_on ex_owned n = {}"
  by (simp add: waits_on_def ex_owned_lists)

lemma ex_owned_kernel_inv: "kernel_inv ex_owned"
proof -
  have p: "OSTCBPrioTbl ex_owned n = TCB t \<longleftrightarrow> (n, t) \<in> {(10, 0), (5, 1), (63, 2)}" for n t
    by (auto simp: ex_owned_fields)
  have "task_ok True {} ty (ex_tcb q u v)" for ty q u v
    by (simp add: task_ok_def awaited_def suspended_def pending_def)
  then show ?thesis
    unfolding kernel_inv_def ex_owned_at p ex_owned_waits ex_owned_rdy(2)
    by (auto simp: ex_owned_fields ex_xy ex_owned_rdy(1) ex_owned_lists(2))
qed

lemma OSMutexPend_inherits_witness:
  "OSPrioCur (fst (OSMutexPend (Some 0) 0 ex_owned)) = 3 \<and> OSTCBCur (fst (OSMutexPend (Some 0) 0 ex_owned)) = TCB 0"
proof -
  have b: "mutex_pcp 0x030A = 3" "mutex_owner_prio 0x030A = 10"
    by (simp_all add: mutex_pcp_def mutex_owner_prio_def)
  show ?thesis
    using OSMutexPend_inherits [OF ex_owned_kernel_inv, of 0 0 0]
    by (simp add: ex_owned_at ex_owned_rdy ex_owned_waits ex_owned_fields b tcb_of_void_def Let_def split: prod.splits)
qed

section \<open>The release\<close>

text \<open>\<open>OSMutex_RdyAtPrio\<close> computes the coordinates as the other services do.\<close>

lemma RdyAtPrio_eq:
  assumes "unat prio < 64"
  shows "OSMutex_RdyAtPrio t prio s =
    (let s3 = OS_RdyListInsert t (upd_tcb t (set_prio_xy prio) (OS_RdyListRemove t s))
     in s3\<lparr>OSPrioCur := prio, OSTCBPrioTbl := (OSTCBPrioTbl s3)(unat prio := TCB t)\<rparr>)"
proof -
  have "drop_bit 3 prio AND 7 = drop_bit 3 prio"
  proof -
    have "unat (drop_bit 3 prio) < 2 ^ 3" using assms by (simp add: unat_drop_bit_eq drop_bit_eq_div)
    then have "take_bit 3 (drop_bit 3 prio) = drop_bit 3 prio"
      by (simp only: word_unat_eq_iff unsigned_take_bit_eq take_bit_nat_eq_self)
    then show ?thesis by (simp add: take_bit_eq_mask mask_eq_exp_minus_1)
  qed
  then show ?thesis
    by (simp add: OSMutex_RdyAtPrio_def OS_RdyListInsert_def set_rdy_def upd_tcb_def set_prio_xy_def rdy_def Let_def)
qed

text \<open>The owner goes back from the ceiling to its own priority, and the ceiling is reserved again.\<close>

definition demote :: "nat \<Rightarrow> INT8U \<Rightarrow> INT8U \<Rightarrow> os \<Rightarrow> os" where
  "demote t pcp prio s =
     (let s = OSMutex_RdyAtPrio t prio s in s\<lparr>OSTCBPrioTbl := (OSTCBPrioTbl s)(unat pcp := OS_TCB_RESERVED)\<rparr>)"

lemma demote_effect:
  assumes inv: "kernel_inv s" and at: "task_at s (unat pcp) t" and n: "unat prio < 64" "unat prio \<noteq> unat pcp"
    and ready: "unat pcp \<in> bm_mem (rdy s)" "waits_on s (unat pcp) = {}" and own: "OSTCBPrioTbl s (unat prio) = TCB t"
  shows "moves (unat pcp) (unat prio) t s (demote t pcp prio s)" and "wl (demote t pcp prio s) e = wl s e"
    and "OSEvents (demote t pcp prio s) = OSEvents s" and "OSTCBCur (demote t pcp prio s) = OSTCBCur s"
    and "OSPrioCur (demote t pcp prio s) = prio" and "OSIntNesting (demote t pcp prio s) = OSIntNesting s"
    and "OSLockNesting (demote t pcp prio s) = OSLockNesting s"
    and "OSTCBPrioTbl (demote t pcp prio s) = (OSTCBPrioTbl s)(unat pcp := OS_TCB_RESERVED)"
proof -
  let ?m = "unat pcp" and ?n = "unat prio" and ?d = "demote t pcp prio s"
  define q where "q = set_prio_xy prio (OSTCBTbl s t)"
  have xp: "xy_ok (OSTCBTbl s t)" and pp: "prio_of (OSTCBTbl s t) = ?m"
    using task_at_xy [OF inv at] at by (simp_all add: task_at_def)
  have xq: "xy_ok q" and pq: "prio_of q = ?n" using n by (simp_all add: q_def set_prio_xy_fields)
  define s1 where "s1 = OS_RdyListRemove t s"
  note r1 = RdyListRemove_effect [OF xp, folded s1_def, unfolded pp]
  define s2 where "s2 = upd_tcb t (set_prio_xy prio) s1"
  have t2: "OSTCBTbl s2 = (OSTCBTbl s)(t := q)" by (simp add: s2_def r1 q_def)
  have x2: "xy_ok (OSTCBTbl s2 t)" "prio_of (OSTCBTbl s2 t) = ?n" using xq pq by (simp_all add: t2)
  define s3 where "s3 = OS_RdyListInsert t s2"
  note r3 = RdyListInsert_effect [OF x2(1), folded s3_def, unfolded x2(2)]
  have e: "?d = s3\<lparr>OSPrioCur := prio, OSTCBPrioTbl := (OSTCBPrioTbl s3)(?n := TCB t, ?m := OS_TCB_RESERVED)\<rparr>"
    unfolding demote_def RdyAtPrio_eq [OF n(1)] s1_def [symmetric] s2_def [symmetric] s3_def [symmetric] Let_def by simp
  have "only_lists s s2" unfolding s2_def by (rule only_lists_trans [OF r1(5)]) simp
  from only_lists_trans [OF this r3(5)] have o3: "only_lists s s3" .
  note g = only_lists_global [OF o3]
  have r2: "rdy s2 = rdy s1" "wl s2 d = wl s1 d" "OSEvents s2 = OSEvents s1" for d by (simp_all add: s2_def)
  have d3: "rdy ?d = rdy s3" "wl ?d d = wl s3 d" for d by (simp_all add: e rdy_def wl_def)
  have rd: "rdy ?d = bm_ins ?n (bm_del ?m (rdy s))" "wl ?d d = wl s d" "OSTCBTbl ?d = (OSTCBTbl s)(t := q)"
    "OSEvents ?d = OSEvents s" for d
    by (simp_all add: d3 r3 r2 r1) (simp_all add: e r3 r2 r1 t2)
  show "wl ?d e = wl s e" "OSEvents ?d = OSEvents s" by (rule rd)+
  show "OSTCBCur ?d = OSTCBCur s" "OSPrioCur ?d = prio" "OSIntNesting ?d = OSIntNesting s"
    "OSLockNesting ?d = OSLockNesting s" by (simp_all add: e g)
  show tb: "OSTCBPrioTbl ?d = (OSTCBPrioTbl s)(?m := OS_TCB_RESERVED)"
    using own by (simp add: e g fun_upd_idem)
  have nt: "\<not> task_at s ?n u" for u using own pp n(2) by (auto simp: task_at_def)
  have nw: "?m \<notin> bm_mem (wl s d)" "?n \<notin> bm_mem (wl s d)" for d
    using ready(2) nt kernel_invD(5) [OF inv, of ?n d] by (auto simp: waits_on_def)
  show "moves ?m ?n t s ?d"
    unfolding moves_def rd tb using n own xq pq nw bm_moved_move [OF kernel_invD(1) [OF inv] ready(1) n]
      bm_moved_same kernel_invD(2) [OF inv] by (simp add: q_def set_prio_xy_fields)
qed

text \<open>C15: a task releases a mutex for which others wait, outside interrupt handlers and with the scheduler unlocked,
  while it runs at the ceiling because a waiter promoted it, with its own priority above the ceiling in number and
  below 63, and the waiter of highest priority is not suspended by \<open>OSTaskSuspend\<close> as well (such a waiter
  becomes the owner without becoming ready).  Then the releasing task gets its own priority back, the ceiling is
  reserved again, that waiter becomes the owner, leaves the wait list and is made ready, and the ready task of
  highest priority runs.\<close>

theorem OSMutexPost_hands_over:
  assumes inv: "kernel_inv s" and n: "OSIntNesting s = 0" "OSLockNesting s = 0"
    and ty: "OSEventType (OSEvents s e) = OS_EVENT_TYPE_MUTEX"
    and own: "tcb_of_void (OSEventPtr (OSEvents s e)) = OSTCBCur s" "OSTCBCur s = TCB c"
      "task_at s (unat (mutex_pcp (OSEventCnt (OSEvents s e)))) c"
      "OSTCBPrioTbl s (unat (mutex_owner_prio (OSEventCnt (OSEvents s e)))) = TCB c"
    and lt: "mutex_pcp (OSEventCnt (OSEvents s e)) < mutex_owner_prio (OSEventCnt (OSEvents s e))"
      "mutex_owner_prio (OSEventCnt (OSEvents s e)) < 63"
    and rd: "unat (mutex_pcp (OSEventCnt (OSEvents s e))) \<in> bm_mem (rdy s)"
      "waits_on s (unat (mutex_pcp (OSEventCnt (OSEvents s e)))) = {}"
    and ne: "bm_mem (wl s e) \<noteq> {}" and w: "task_at s (Min (bm_mem (wl s e))) t" "\<not> suspended (OSTCBTbl s t)"
      "unat (mutex_pcp (OSEventCnt (OSEvents s e))) < Min (bm_mem (wl s e))"
  shows "let (s', r) = OSMutexPost (Some e) s; v = OSEvents s' e; pcp = mutex_pcp (OSEventCnt (OSEvents s e));
             prio = mutex_owner_prio (OSEventCnt (OSEvents s e)); top = Min (bm_mem (wl s e))
    in r = OS_ERR_NONE \<and> task_at s' (unat prio) c \<and> OSTCBPrioTbl s' (unat pcp) = OS_TCB_RESERVED \<and>
       tcb_of_void (OSEventPtr v) = TCB t \<and> unat (mutex_owner_prio (OSEventCnt v)) = top \<and>
       mutex_pcp (OSEventCnt v) = pcp \<and> bm_mem (wl s' e) = bm_mem (wl s e) - {top} \<and>
       bm_mem (rdy s') = insert top (insert (unat prio) (bm_mem (rdy s) - {unat pcp})) \<and>
       unat (OSPrioCur s') = Min (bm_mem (rdy s')) \<and> OSTCBCur s' = OSTCBPrioTbl s' (Min (bm_mem (rdy s')))"
proof -
  let ?cnt = "OSEventCnt (OSEvents s e)" and ?w = "Min (bm_mem (wl s e))"
  define pc where "pc = mutex_pcp ?cnt"
  define mp where "mp = mutex_owner_prio ?cnt"
  have l: "unat pc < unat mp" "unat mp < 63" "unat mp < 64" "unat mp \<noteq> unat pc" "unat pc \<noteq> 63"
    using lt by (simp_all add: pc_def mp_def word_less_nat_alt)
  have at: "task_at s (unat pc) c" using own(3) by (simp add: pc_def)
  have cp: "OSTCBPrio (OSTCBTbl s c) = pc"
    using at by (auto simp: task_at_def intro: word_unat_eq_iff [THEN iffD2])
  define s2 where "s2 = demote c pc mp s"
  note d = demote_effect [OF inv at l(3,4) rd [folded pc_def] own(4) [folded mp_def], folded s2_def]
  note D = movesD [OF d(1)]
  have T: "task_at s2 k u \<longleftrightarrow> (if u = c then k = unat mp else task_at s k u)" for k u
    by (rule moves_task_at [OF inv at _ d(1) l(3)]) (use own(4) in \<open>simp add: mp_def\<close>)
  have k2: "kernel_inv s2"
    by (rule moves_kernel_inv [OF inv at _ d(1) l(3,4,5)]) (use own(4) in \<open>simp add: mp_def\<close>)
  have w2: "bm_mem (wl s2 e) = bm_mem (wl s e)" by (simp add: d(2))
  have wc: "?w \<noteq> unat pc" "t \<noteq> c"
  proof -
    show "?w \<noteq> unat pc" using w(3) by (simp add: pc_def)
    then show "t \<noteq> c" using w(1) at by (auto simp: task_at_def)
  qed
  have at2: "task_at s2 (Min (bm_mem (wl s2 e))) t" using w(1) wc T by (simp add: w2)
  define r3 where "r3 = OS_EventTaskRdy e NULL OS_STAT_MUTEX OS_STAT_PEND_OK s2"
  have m3: "\<not> bit (OS_STAT_MUTEX :: INT8U) 3" by simp
  have ne2: "bm_mem (wl s2 e) \<noteq> {}" using ne by (simp add: w2)
  note E = EventTaskRdy_effect [OF k2 ne2 at2 m3, of NULL OS_STAT_PEND_OK, folded r3_def, unfolded w2]
  note g = only_lists_global [OF E(6)]
  let ?s4 = "upd_event e (\<lambda>v. v\<lparr>OSEventCnt := mutex_set_owner (snd r3) (OSEventCnt v),
      OSEventPtr := void_of_tcb (OSTCBPrioTbl (fst r3) (unat (snd r3)))\<rparr>) (fst r3)"
  have tw: "OSTCBPrioTbl (fst r3) ?w = TCB t" using at2 g(1) by (simp add: w2 task_at_def)
  have r: "OSMutexPost (Some e) s = (OS_Sched ?s4, OS_ERR_NONE)"
  proof -
    have cd: "pc \<noteq> OS_PRIO_MUTEX_CEIL_DIS" using l(5) at by (auto simp: task_at_def)
    have grp: "OSEventGrp (OSEvents s2 e) \<noteq> 0"
      using bm.none_iff [OF kernel_invD(2) [OF k2, of e]] ne2 by (simp add: wl_def)
    have np: "\<not> snd r3 \<le> pc" using E(1) w(3) by (simp add: word_le_nat_alt pc_def)
    have dm: "s2 = (OSMutex_RdyAtPrio c mp s)\<lparr>OSTCBPrioTbl := (OSTCBPrioTbl (OSMutex_RdyAtPrio c mp s))(unat pc := OS_TCB_RESERVED)\<rparr>"
      by (simp add: s2_def demote_def Let_def)
    show ?thesis
      using n ty own(1,2) cd grp np cp unfolding OSMutexPost_def Let_def option.case pc_def [symmetric] mp_def [symmetric]
      by (simp add: dm [symmetric] r3_def [symmetric] case_prod_beta)
  qed
  have sus: "\<not> suspended (OSTCBTbl s2 t)" using w(2) D(7) [of t] by (auto simp: suspended_def tcb_sync_def)
  have q: "bm_ok (rdy (fst r3))" "bm_mem (rdy (fst r3)) = insert ?w (insert (unat mp) (bm_mem (rdy s) - {unat pc}))"
  proof -
    have w64: "?w < 64" using w(1) by (simp add: task_at_def)
    have "bm_mem (rdy s2) = insert (unat mp) (bm_mem (rdy s) - {unat pc})"
      using rd(1) by (intro set_eqI) (auto simp: D(10) pc_def)
    then show "bm_ok (rdy (fst r3))" "bm_mem (rdy (fst r3)) = insert ?w (insert (unat mp) (bm_mem (rdy s) - {unat pc}))"
      using D(9) w64 sus by (simp_all add: E(3) bm_ok_ins bm_mem_ins)
  qed
  have f4: "rdy ?s4 = rdy (fst r3)" "OSTCBPrioTbl ?s4 = OSTCBPrioTbl (fst r3)" "OSTCBCur ?s4 = TCB c" "OSPrioCur ?s4 = mp"
    "OSIntNesting ?s4 = 0" "OSLockNesting ?s4 = 0" "wl ?s4 e = wl (fst r3) e"
    using g d own(2) n by (simp_all add: upd_event_def rdy_def wl_def)
  have top: "unat (bm_top (rdy ?s4)) = Min (bm_mem (rdy (fst r3)))"
    using bm.top_eq_Min [OF q(1)] q(2) unfolding f4 by simp
  have mpc: "OSTCBPrioTbl (fst r3) (unat mp) = TCB c" using own(4) l(4) d(8) g(1) by (simp add: mp_def)
  have run: "unat (OSPrioCur (OS_Sched ?s4)) = Min (bm_mem (rdy (fst r3)))"
    "OSTCBCur (OS_Sched ?s4) = OSTCBPrioTbl (fst r3) (Min (bm_mem (rdy (fst r3))))"
    using f4(2-6) top mpc by (auto simp: OS_Sched_def Switch_run)
  have at4: "task_at (OS_Sched ?s4) (unat mp) c"
  proof -
    have "prio_of (OSTCBTbl (fst r3) c) = unat mp" using T [of "unat mp" c] wc(2) by (simp add: E(2) task_at_def)
    then show ?thesis using same_task_prio [OF Sched_frame(9) [of ?s4 c]] mpc l(3) by (simp add: task_at_def f4)
  qed
  have cnt: "OSEventCnt (OSEvents (fst r3) e) = ?cnt" using only_lists_event(2) [OF E(6)] by (simp add: d(3))
  show ?thesis
    unfolding r Let_def prod.case Sched_frame f4 pc_def [symmetric] mp_def [symmetric]
    using run at4 q(2) tw E(1,5) d(8) g(1) cnt by (simp add: pc_def [symmetric] w2)
qed

text \<open>The state after the pend of the example: task 0 runs at the ceiling 3, and task 1 of priority 5 waits.\<close>

definition ex_ceiling :: os where
  "ex_ceiling = upd_event 0 (\<lambda>v. v\<lparr>OSEventCnt := 0x030A, OSEventPtr := TcbP 0\<rparr>)
     ((ex_os OS_EVENT_TYPE_MUTEX True)\<lparr>
       OSTCBPrioTbl := (\<lambda>_. NullTCB)(10 := TCB 0, 5 := TCB 1, 63 := TCB 2, 3 := TCB 0),
       OSTCBTbl := (\<lambda>_. zero_tcb)(0 := ex_tcb 3 NullTCB (TCB 1), 1 := ex_waiter OS_EVENT_TYPE_MUTEX True, 2 := ex_tcb 63 (TCB 1) NullTCB),
       OSPrioCur := 3, OSTCBCur := TCB 0, OSRdyGrp := 0x81, OSRdyTbl := [8, 0, 0, 0, 0, 0, 0, 128]\<rparr>)"

lemma ex_ceiling_fields:
  "OSTCBPrioTbl ex_ceiling = (\<lambda>_. NullTCB)(10 := TCB 0, 5 := TCB 1, 63 := TCB 2, 3 := TCB 0)"
  "OSTCBTbl ex_ceiling = (\<lambda>_. zero_tcb)(0 := ex_tcb 3 NullTCB (TCB 1), 1 := ex_waiter OS_EVENT_TYPE_MUTEX True, 2 := ex_tcb 63 (TCB 1) NullTCB)"
  "OSIntNesting ex_ceiling = 0" "OSLockNesting ex_ceiling = 0" "OSPrioCur ex_ceiling = 3" "OSTCBCur ex_ceiling = TCB 0"
  "OSEventType (OSEvents ex_ceiling 0) = OS_EVENT_TYPE_MUTEX" "OSEventCnt (OSEvents ex_ceiling 0) = 0x030A"
  "OSEventPtr (OSEvents ex_ceiling 0) = TcbP 0"
  by (simp_all add: ex_ceiling_def upd_event_def)

lemma ex_ceiling_lists:
  "rdy ex_ceiling = bm_ins 3 (bm_ins 63 (0, replicate 8 0))" "wl ex_ceiling e = wl (ex_os OS_EVENT_TYPE_MUTEX True) e"
  by (simp_all add: ex_ceiling_def upd_event_def wl_def rdy_def bm_ins_def bm_set_def rows8)

lemma ex_ceiling_at: "task_at ex_ceiling n t \<longleftrightarrow> (n, t) \<in> {(3, 0), (5, 1), (63, 2)}"
  by (auto simp: task_at_def ex_ceiling_fields)

lemma ex_ceiling_rdy: "bm_ok (rdy ex_ceiling)" "bm_mem (rdy ex_ceiling) = {3, 63}"
  by (auto simp: ex_ceiling_lists bm_ok_ins bm_mem_ins bm_ok_empty bm_mem_empty)

lemma ex_ceiling_waits: "waits_on ex_ceiling n = (if n = 5 then {0} else {})"
  by (auto simp: waits_on_def ex_ceiling_lists)

lemma ex_ceiling_kernel_inv: "kernel_inv ex_ceiling"
proof -
  have p: "OSTCBPrioTbl ex_ceiling n = TCB t \<longleftrightarrow> (n, t) \<in> {(10, 0), (3, 0), (5, 1), (63, 2)}" for n t
    by (auto simp: ex_ceiling_fields)
  have "task_ok True {} ty (ex_tcb q u v)" for ty q u v
    by (simp add: task_ok_def awaited_def suspended_def pending_def)
  moreover have "task_ok False {0} (event_type ex_ceiling) (ex_waiter OS_EVENT_TYPE_MUTEX True)"
    by (simp add: task_ok_def awaited_def suspended_def pending_def multi_def type_stat_def ex_ceiling_fields)
  ultimately show ?thesis
    unfolding kernel_inv_def ex_ceiling_at p ex_ceiling_waits ex_ceiling_rdy(2)
    by (auto simp: ex_ceiling_fields ex_xy ex_ceiling_rdy(1) ex_ceiling_lists(2) split: if_splits)
qed

lemma OSMutexPost_hands_over_witness:
  "tcb_of_void (OSEventPtr (OSEvents (fst (OSMutexPost (Some 0) ex_ceiling)) 0)) = TCB 1 \<and>
   unat (OSPrioCur (fst (OSMutexPost (Some 0) ex_ceiling))) = 5"
proof -
  have b: "mutex_pcp 0x030A = 3" "mutex_owner_prio 0x030A = 10"
    by (simp_all add: mutex_pcp_def mutex_owner_prio_def)
  have w: "\<not> suspended (ex_waiter OS_EVENT_TYPE_MUTEX True)" by (simp add: suspended_def type_stat_def)
  show ?thesis
    using OSMutexPost_hands_over [OF ex_ceiling_kernel_inv, of 0 0 1] w
    by (simp add: ex_ceiling_at ex_ceiling_rdy ex_ceiling_waits ex_ceiling_fields ex_ceiling_lists(2) b tcb_of_void_def Let_def
        case_prod_beta)
qed

section \<open>An owner whose pend has timed out\<close>

text \<open>C16: a task whose pend has timed out is ready but still in the wait list of the event until it runs. When it owns
  a mutex and is promoted in that moment, its bit of the old priority stays in that wait list, with no
  task of that priority, so that a post of the event finds a waiter that is none, and the invariant of the
  kernel is lost.\<close>

theorem promotion_leaves_stale_waiter:
  assumes inv: "kernel_inv s" and at: "task_at s m t" and rd: "m \<in> bm_mem (rdy s)" and w: "d \<in> waits_on s m"
    and n: "unat pcp < 64" "unat pcp \<noteq> m"
  shows "m \<in> bm_mem (wl (OS_MutexPromote t pcp s) d) \<and> (\<forall>u. \<not> task_at (OS_MutexPromote t pcp s) m u) \<and>
    \<not> kernel_inv (OS_MutexPromote t pcp s)"
proof -
  let ?s = "OS_MutexPromote t pcp s"
  have xp: "xy_ok (OSTCBTbl s t)" and pp: "prio_of (OSTCBTbl s t) = m"
    using task_at_xy [OF inv at] at by (simp_all add: task_at_def)
  have rb: "OSRdyTbl s ! unat (OSTCBY (OSTCBTbl s t)) AND OSTCBBitX (OSTCBTbl s t) \<noteq> 0"
    using row_bit_iff [OF xp, of "rdy s"] rd pp by (simp add: rdy_def)
  let ?s2 = "upd_tcb t (set_prio_xy pcp) (OS_RdyListRemove t s)"
  have e: "?s = (OS_RdyListInsert t ?s2)\<lparr>OSTCBPrioTbl := (OSTCBPrioTbl (OS_RdyListInsert t ?s2))(unat pcp := TCB t)\<rparr>"
    using rb by (simp add: OS_MutexPromote_def Let_def)
  note r1 = RdyListRemove_effect [OF xp]
  have "xy_ok (OSTCBTbl ?s2 t)" using n by (simp add: set_prio_xy_fields)
  note r3 = RdyListInsert_effect [OF this]
  have "wl (OS_RdyListInsert t ?s2) d = wl s d" by (simp add: r3 r1)
  then have wd: "wl ?s d = wl s d" by (simp add: e wl_def)
  have tb: "OSTCBTbl ?s = (OSTCBTbl s)(t := set_prio_xy pcp (OSTCBTbl s t))" by (simp add: e r3 r1)
  have "OSTCBPrioTbl (OS_RdyListInsert t ?s2) = OSTCBPrioTbl s"
    using only_lists_global(1) [OF r3(5)] only_lists_global(1) [OF r1(5)] by (simp add: upd_tcb_def)
  then have pt: "OSTCBPrioTbl ?s m = TCB t" using at n(2) by (simp add: e task_at_def)
  have no: "\<not> task_at ?s m u" for u using pt n(2) by (auto simp: task_at_def tb set_prio_xy_fields)
  have st: "m \<in> bm_mem (wl ?s d)" using w wd by (simp add: waits_on_def)
  then show ?thesis using no kernel_invD(5) by blast
qed

definition ex_timed :: os where
  "ex_timed = upd_event 1 (\<lambda>v. v\<lparr>OSEventType := OS_EVENT_TYPE_SEM, OSEventGrp := 2, OSEventTbl := [0, 4, 0, 0, 0, 0, 0, 0]\<rparr>)
     (upd_tcb 0 (\<lambda>p. p\<lparr>OSTCBEventPtr := Some 1, OSTCBStatPend := OS_STAT_PEND_TO\<rparr>) ex_owned)"

lemma ex_timed_wl: "wl ex_timed e = (if e = 1 then bm_ins 10 (0, replicate 8 0) else wl ex_owned e)"
  by (simp add: ex_timed_def wl_def bm_ins_def bm_set_def rows8)

lemma ex_timed_kernel_inv: "kernel_inv ex_timed" "task_at ex_timed 10 0" "10 \<in> bm_mem (rdy ex_timed)" "1 \<in> waits_on ex_timed 10"
proof -
  have tbl: "OSTCBPrioTbl ex_timed = OSTCBPrioTbl ex_owned" and
    tcb: "OSTCBTbl ex_timed = (OSTCBTbl ex_owned)(0 := (ex_tcb 10 NullTCB (TCB 1))\<lparr>OSTCBEventPtr := Some 1, OSTCBStatPend := OS_STAT_PEND_TO\<rparr>)"
    and rd: "rdy ex_timed = rdy ex_owned" and ty: "event_type ex_timed 1 = OS_EVENT_TYPE_SEM"
    by (simp_all add: ex_timed_def upd_tcb_def upd_event_def ex_owned_fields rdy_def)
  have at: "task_at ex_timed n t \<longleftrightarrow> (n, t) \<in> {(10, 0), (5, 1), (63, 2)}" for n t
    by (auto simp: task_at_def tbl tcb ex_owned_fields)
  have w: "waits_on ex_timed n = (if n = 10 then {1} else {})" for n
    using ex_owned_waits [of n] by (auto simp: waits_on_def ex_timed_wl bm_mem_ins bm_ok_empty bm_mem_empty)
  have p: "OSTCBPrioTbl ex_timed n = TCB t \<longleftrightarrow> (n, t) \<in> {(10, 0), (5, 1), (63, 2)}" for n t
    by (auto simp: tbl ex_owned_fields)
  have ok: "bm_ok (wl ex_timed e)" for e
    using kernel_invD(2) [OF ex_owned_kernel_inv] by (simp add: ex_timed_wl bm_ok_ins bm_ok_empty)
  have "task_ok True {} ty (ex_tcb q u v)" for ty q u v
    by (simp add: task_ok_def awaited_def suspended_def pending_def)
  moreover have "task_ok True {1} (event_type ex_timed) ((ex_tcb 10 NullTCB (TCB 1))\<lparr>OSTCBEventPtr := Some 1, OSTCBStatPend := OS_STAT_PEND_TO\<rparr>)"
    using ty by (simp add: task_ok_def awaited_def suspended_def pending_def)
  moreover have "xy_ok ((ex_tcb 10 NullTCB (TCB 1))\<lparr>OSTCBEventPtr := Some 1, OSTCBStatPend := OS_STAT_PEND_TO\<rparr>)"
    using ex_xy(1) [of 10 NullTCB "TCB 1"] by (simp add: xy_ok_def)
  ultimately show "kernel_inv ex_timed"
    unfolding kernel_inv_def at p w rd ex_owned_rdy(2)
    by (auto simp: tcb tbl ex_owned_fields ex_xy ex_owned_rdy(1) ok split: if_splits)
  show "task_at ex_timed 10 0" "10 \<in> bm_mem (rdy ex_timed)" "1 \<in> waits_on ex_timed 10"
    by (simp_all add: at rd ex_owned_rdy w)
qed

lemma promotion_leaves_stale_waiter_witness:
  "10 \<in> bm_mem (wl (OS_MutexPromote 0 3 ex_timed) 1) \<and> \<not> kernel_inv (OS_MutexPromote 0 3 ex_timed)"
  using promotion_leaves_stale_waiter [OF ex_timed_kernel_inv, of 3] by simp

end
