(* ===== verification/UCOS_FlagList.thy ===== *)
theory UCOS_FlagList
  imports UCOS_Flag UCOS_Dll UCOS_Example
begin

text \<open>
  The waiters of a flag group: the doubly linked list of their nodes, and what a post and a deletion
  do to it.
\<close>

section \<open>The list\<close>

definition node_next :: "os \<Rightarrow> nat \<Rightarrow> nat option" where
  "node_next s n = OSFlagNodeNext (OSFlagNode s n)"

definition node_prev :: "os \<Rightarrow> nat \<Rightarrow> nat option" where
  "node_prev s n = OSFlagNodePrev (OSFlagNode s n)"

text \<open>
  \<open>flag_list s g ns\<close>: the tasks that wait for group \<open>g\<close> are \<open>ns\<close>, in the order of the list, each
  with its own node.
\<close>

definition flag_list :: "os \<Rightarrow> nat \<Rightarrow> nat list \<Rightarrow> bool" where
  "flag_list s g ns \<longleftrightarrow>
     (\<exists>p. OSFlagWaitList (OSFlagTbl s g) = void_of_flag_node p \<and> dpath (node_next s) (node_prev s) None p ns) \<and>
     (\<forall>n\<in>set ns. OSFlagNodeFlagGrp (OSFlagNode s n) = g \<and> OSFlagNodeTCB (OSFlagNode s n) = n)"

lemma flag_node_void [simp]: "flag_node_of_void (void_of_flag_node p) = p"
  by (cases p) (simp_all add: flag_node_of_void_def void_of_flag_node_def)

lemma flag_listD:
  assumes "flag_list s g ns"
  shows "dpath (node_next s) (node_prev s) None (flag_node_of_void (OSFlagWaitList (OSFlagTbl s g))) ns"
    and "OSFlagWaitList (OSFlagTbl s g) = void_of_flag_node (flag_node_of_void (OSFlagWaitList (OSFlagTbl s g)))"
    and "n \<in> set ns \<Longrightarrow> OSFlagNodeFlagGrp (OSFlagNode s n) = g"
    and "n \<in> set ns \<Longrightarrow> OSFlagNodeTCB (OSFlagNode s n) = n"
    and "distinct ns"
  using assms by (auto simp: flag_list_def dest: dpath_distinct)

text \<open>The fields of the nodes and of the group that an operation on the list leaves alone.\<close>

definition node_wait :: "os_flag_node \<Rightarrow> nat \<times> nat \<times> INT16U \<times> INT8U" where
  "node_wait nd = (OSFlagNodeTCB nd, OSFlagNodeFlagGrp nd, OSFlagNodeFlags nd, OSFlagNodeWaitType nd)"

section \<open>Unlinking and readying\<close>

definition flag_unlinked :: "nat \<Rightarrow> nat \<Rightarrow> os \<Rightarrow> os \<Rightarrow> bool" where
  "flag_unlinked g n s s' \<longleftrightarrow>
     (\<forall>m. node_wait (OSFlagNode s' m) = node_wait (OSFlagNode s m)) \<and>
     node_next s' n = node_next s n \<and> node_prev s' n = node_prev s n \<and>
     OSFlagFlags (OSFlagTbl s' g) = OSFlagFlags (OSFlagTbl s g) \<and>
     OSFlagType (OSFlagTbl s' g) = OSFlagType (OSFlagTbl s g) \<and>
     (\<forall>h. h \<noteq> g \<longrightarrow> OSFlagTbl s' h = OSFlagTbl s h) \<and> OSFlagFreeList s' = OSFlagFreeList s"

lemma FlagUnlink_effect:
  assumes l: "flag_list s g ns" and n: "n \<in> set ns"
  shows "flag_list (OS_FlagUnlink n s) g (remove1 n ns)"
    and "flag_unlinked g n s (OS_FlagUnlink n s)"
    and "OSTCBTbl (OS_FlagUnlink n s) = (OSTCBTbl s)(n := (OSTCBTbl s n)\<lparr>OSTCBFlagNode := None\<rparr>)"
    and "OSRdyGrp (OS_FlagUnlink n s) = OSRdyGrp s" and "OSRdyTbl (OS_FlagUnlink n s) = OSRdyTbl s"
proof -
  note D = flag_listD [OF l]
  let ?s = "OS_FlagUnlink n s" and ?p = "flag_node_of_void (OSFlagWaitList (OSFlagTbl s g))"
  have grp: "OSFlagNodeFlagGrp (OSFlagNode s n) = g" and tcb: "OSFlagNodeTCB (OSFlagNode s n) = n"
    using D(3,4) n by auto
  have self: "node_next s n \<noteq> Some n" "node_prev s n \<noteq> Some n"
  proof -
    obtain as bs where ns: "ns = as @ n # bs" using split_list [OF n] by blast
    have ds: "distinct (as @ n # bs)" using D(5) ns by simp
    show "node_next s n \<noteq> Some n"
      using dpath_next [OF D(1) [unfolded ns]] ds by (cases bs) auto
    show "node_prev s n \<noteq> Some n"
    proof (cases "as = []")
      case False
      then have "last as \<in> set as" by simp
      then show ?thesis using dpath_append [OF D(1) [unfolded ns]] ds by auto
    qed (use dpath_append [OF D(1) [unfolded ns]] in simp)
  qed
  have nx: "node_next ?s y = (if node_prev s n = Some y then node_next s n else node_next s y)" if "y \<noteq> n" for y
    using that self
    by (auto simp: OS_FlagUnlink_def Let_def node_next_def node_prev_def upd_grp_def upd_node_def upd_tcb_def
        split: option.split)
  have pv: "node_prev ?s y = (if node_next s n = Some y then node_prev s n else node_prev s y)" if "y \<noteq> n" for y
    using that self
    by (auto simp: OS_FlagUnlink_def Let_def node_next_def node_prev_def upd_grp_def upd_node_def upd_tcb_def
        split: option.split)
  have hd: "OSFlagWaitList (OSFlagTbl ?s g) =
      void_of_flag_node (if node_prev s n = None then node_next s n else ?p)"
    using grp D(2)
    by (auto simp: OS_FlagUnlink_def Let_def node_next_def node_prev_def upd_grp_def upd_node_def upd_tcb_def
        split: option.split)
  have nw: "node_wait (OSFlagNode ?s m) = node_wait (OSFlagNode s m)" for m
    by (auto simp: OS_FlagUnlink_def Let_def node_wait_def upd_grp_def upd_node_def upd_tcb_def split: option.split)
  have "dpath (node_next ?s) (node_prev ?s) None (if node_prev s n = None then node_next s n else ?p) (remove1 n ns)"
    by (rule dpath_unlink [OF D(1) n]) (simp_all add: nx pv)
  moreover have "\<forall>m\<in>set (remove1 n ns). OSFlagNodeFlagGrp (OSFlagNode ?s m) = g \<and> OSFlagNodeTCB (OSFlagNode ?s m) = m"
    using D(3,4) nw set_remove1_subset [of n ns] by (auto simp: node_wait_def)
  ultimately show "flag_list ?s g (remove1 n ns)" unfolding flag_list_def hd by blast
  show "flag_unlinked g n s ?s"
    using nw self grp
    by (auto simp: flag_unlinked_def OS_FlagUnlink_def Let_def node_next_def node_prev_def upd_grp_def upd_node_def
        upd_tcb_def split: option.split)
  show "OSTCBTbl ?s = (OSTCBTbl s)(n := (OSTCBTbl s n)\<lparr>OSTCBFlagNode := None\<rparr>)"
    using self tcb by (auto simp: OS_FlagUnlink_def Let_def node_next_def node_prev_def upd_grp_def upd_node_def
        upd_tcb_def split: option.split)
  show "OSRdyGrp ?s = OSRdyGrp s" "OSRdyTbl ?s = OSRdyTbl s"
    by (auto simp: OS_FlagUnlink_def Let_def upd_grp_def upd_node_def upd_tcb_def split: option.split)
qed

text \<open>The control block of a waiter that is readied.\<close>

definition flag_tcb :: "INT16U \<Rightarrow> INT8U \<Rightarrow> os_tcb \<Rightarrow> os_tcb" where
  "flag_tcb flags_rdy ps p =
     p\<lparr>OSTCBDly := 0, OSTCBFlagsRdy := flags_rdy, OSTCBStat := OSTCBStat p AND NOT OS_STAT_FLAG,
       OSTCBStatPend := ps, OSTCBFlagNode := None\<rparr>"

lemma FlagTaskRdy_effect:
  fixes flags_rdy :: INT16U and ps :: INT8U
  assumes l: "flag_list s g ns" and n: "n \<in> set ns" and xy: "xy_ok (OSTCBTbl s n)" and ok: "bm_ok (rdy s)"
  defines "s' \<equiv> fst (OS_FlagTaskRdy n flags_rdy ps s)" and "q \<equiv> flag_tcb flags_rdy ps (OSTCBTbl s n)"
  shows "flag_list s' g (remove1 n ns)" and "flag_unlinked g n s s'"
    and "OSTCBTbl s' = (OSTCBTbl s)(n := q)"
    and "snd (OS_FlagTaskRdy n flags_rdy ps s) \<longleftrightarrow> OSTCBStat q = OS_STAT_RDY"
    and "rdy s' = (if OSTCBStat q = OS_STAT_RDY then bm_ins (prio_of (OSTCBTbl s n)) (rdy s) else rdy s)"
proof -
  have tcb: "OSFlagNodeTCB (OSFlagNode s n) = n" using flag_listD(4) [OF l n] .
  define s1 where "s1 = upd_tcb n (\<lambda>p. p\<lparr>OSTCBDly := 0, OSTCBFlagsRdy := flags_rdy,
                OSTCBStat := OSTCBStat p AND NOT OS_STAT_FLAG, OSTCBStatPend := ps\<rparr>) s"
  define s2 where "s2 = (if OSTCBStat (OSTCBTbl s1 n) = OS_STAT_RDY then OS_RdyListInsert n s1 else s1)"
  have r: "OS_FlagTaskRdy n flags_rdy ps s = (OS_FlagUnlink n s2, OSTCBStat (OSTCBTbl s1 n) = OS_STAT_RDY)"
    by (simp add: OS_FlagTaskRdy_def Let_def tcb s1_def s2_def)
  have st: "OSTCBStat (OSTCBTbl s1 n) = OSTCBStat q" by (simp add: s1_def q_def upd_tcb_def flag_tcb_def)
  have fl: "OSFlagTbl s2 = OSFlagTbl s" "OSFlagNode s2 = OSFlagNode s" "OSFlagFreeList s2 = OSFlagFreeList s"
    "OSTCBTbl s2 = OSTCBTbl s1"
    by (simp_all add: s2_def s1_def upd_tcb_def OS_RdyListInsert_def set_rdy_def Let_def)
  then have l2: "flag_list s2 g ns" using l by (simp add: flag_list_def node_next_def [abs_def] node_prev_def [abs_def])
  note U = FlagUnlink_effect [OF l2 n]
  show "flag_list s' g (remove1 n ns)" using U(1) by (simp add: s'_def r)
  show "flag_unlinked g n s s'"
    using U(2) fl by (simp add: s'_def r flag_unlinked_def node_next_def node_prev_def)
  have t1: "OSTCBTbl s1 = (OSTCBTbl s)(n := (OSTCBTbl s n)\<lparr>OSTCBDly := 0, OSTCBFlagsRdy := flags_rdy,
                OSTCBStat := OSTCBStat (OSTCBTbl s n) AND NOT OS_STAT_FLAG, OSTCBStatPend := ps\<rparr>)"
    by (simp add: s1_def upd_tcb_def)
  show "OSTCBTbl s' = (OSTCBTbl s)(n := q)"
    using U(3) by (simp add: s'_def r fl(4) t1 q_def flag_tcb_def)
  show "snd (OS_FlagTaskRdy n flags_rdy ps s) \<longleftrightarrow> OSTCBStat q = OS_STAT_RDY" by (simp add: r st)
  have xy1: "xy_ok (OSTCBTbl s1 n)" using xy by (simp add: t1 xy_ok_def)
  have "rdy s2 = (if OSTCBStat q = OS_STAT_RDY then bm_ins (prio_of (OSTCBTbl s n)) (rdy s) else rdy s)"
  proof -
    have "rdy s1 = rdy s" by (simp add: s1_def upd_tcb_def rdy_def)
    then show ?thesis using RdyListInsert_effect(1) [OF xy1] st by (simp add: s2_def t1)
  qed
  moreover have "rdy (OS_FlagUnlink n s2) = rdy s2" using U(4,5) by (simp add: rdy_def)
  ultimately show "rdy s' = (if OSTCBStat q = OS_STAT_RDY then bm_ins (prio_of (OSTCBTbl s n)) (rdy s) else rdy s)"
    by (simp add: s'_def r)
qed

section \<open>The post\<close>

text \<open>A node whose wait the flags satisfy, and the flags its task gets.\<close>

definition node_sat :: "INT16U \<Rightarrow> os_flag_node \<Rightarrow> bool" where
  "node_sat fl nd = (case OS_FlagTest fl (OSFlagNodeFlags nd) (OSFlagNodeWaitType nd) of
     Some (r, ok) \<Rightarrow> ok | None \<Rightarrow> False)"

definition node_rdy :: "INT16U \<Rightarrow> os_flag_node \<Rightarrow> INT16U" where
  "node_rdy fl nd = (case OS_FlagTest fl (OSFlagNodeFlags nd) (OSFlagNodeWaitType nd) of
     Some (r, ok) \<Rightarrow> r | None \<Rightarrow> 0)"

definition node_valid :: "os_flag_node \<Rightarrow> bool" where
  "node_valid nd \<longleftrightarrow> OSFlagNodeWaitType nd \<in> {OS_FLAG_WAIT_SET_ALL, OS_FLAG_WAIT_SET_ANY,
     OS_FLAG_WAIT_CLR_ALL, OS_FLAG_WAIT_CLR_ANY}"

lemma node_test: "node_valid nd \<Longrightarrow>
    OS_FlagTest fl (OSFlagNodeFlags nd) (OSFlagNodeWaitType nd) = Some (node_rdy fl nd, node_sat fl nd)"
  by (auto simp: node_valid_def node_sat_def node_rdy_def OS_FlagTest_def Let_def)

lemma node_wait_cong:
  "node_wait a = node_wait b \<Longrightarrow> node_sat fl a = node_sat fl b \<and> node_rdy fl a = node_rdy fl b \<and> node_valid a = node_valid b"
  by (simp add: node_wait_def node_sat_def node_rdy_def node_valid_def)

text \<open>
  \<open>flag_readied g fl ps rs s s'\<close>: the waiters \<open>rs\<close> of group \<open>g\<close> were readied, each with the flags
  that satisfy its wait, and nothing else happened to the tasks, the groups and the waits.
\<close>

definition flag_readied :: "nat \<Rightarrow> (os_flag_node \<Rightarrow> INT16U) \<Rightarrow> INT8U \<Rightarrow> nat list \<Rightarrow> os \<Rightarrow> os \<Rightarrow> bool" where
  "flag_readied g fr ps rs s s' \<longleftrightarrow>
     (\<forall>n. OSTCBTbl s' n = (if n \<in> set rs then flag_tcb (fr (OSFlagNode s n)) ps (OSTCBTbl s n) else OSTCBTbl s n)) \<and>
     bm_ok (rdy s') \<and>
     bm_mem (rdy s') = bm_mem (rdy s) \<union>
       {prio_of (OSTCBTbl s n) |n. n \<in> set rs \<and> OSTCBStat (OSTCBTbl s' n) = OS_STAT_RDY} \<and>
     (\<forall>m. node_wait (OSFlagNode s' m) = node_wait (OSFlagNode s m)) \<and>
     OSFlagFlags (OSFlagTbl s' g) = OSFlagFlags (OSFlagTbl s g) \<and>
     OSFlagType (OSFlagTbl s' g) = OSFlagType (OSFlagTbl s g) \<and>
     (\<forall>h. h \<noteq> g \<longrightarrow> OSFlagTbl s' h = OSFlagTbl s h) \<and> OSFlagFreeList s' = OSFlagFreeList s"

lemma flag_readied_refl: "bm_ok (rdy s) \<Longrightarrow> flag_readied g fr ps [] s s"
  by (simp add: flag_readied_def)

lemma flag_readied_one:
  assumes l: "flag_list s g ns" and n: "n \<in> set ns" and xy: "xy_ok (OSTCBTbl s n)" and ok: "bm_ok (rdy s)"
  shows "flag_readied g fr ps [n] s (fst (OS_FlagTaskRdy n (fr (OSFlagNode s n)) ps s))"
proof -
  note e = FlagTaskRdy_effect [OF l n xy ok, of "fr (OSFlagNode s n)" ps]
  have p: "prio_of (OSTCBTbl s n) < 64" using xy_okD(1) [OF xy] by simp
  show ?thesis
    using e(2) ok p by (auto simp: flag_readied_def flag_unlinked_def e(3,5) bm_ok_ins bm_mem_ins)
qed

lemma flag_readiedD:
  assumes "flag_readied g fr ps rs s s'"
  shows "OSTCBTbl s' n = (if n \<in> set rs then flag_tcb (fr (OSFlagNode s n)) ps (OSTCBTbl s n) else OSTCBTbl s n)"
    and "bm_ok (rdy s')"
    and "bm_mem (rdy s') = bm_mem (rdy s) \<union>
       {prio_of (OSTCBTbl s n) |n. n \<in> set rs \<and> OSTCBStat (OSTCBTbl s' n) = OS_STAT_RDY}"
    and "node_wait (OSFlagNode s' m) = node_wait (OSFlagNode s m)"
    and "OSFlagFlags (OSFlagTbl s' g) = OSFlagFlags (OSFlagTbl s g)"
    and "OSFlagType (OSFlagTbl s' g) = OSFlagType (OSFlagTbl s g)"
    and "h \<noteq> g \<Longrightarrow> OSFlagTbl s' h = OSFlagTbl s h" and "OSFlagFreeList s' = OSFlagFreeList s"
  using assms unfolding flag_readied_def by blast+

lemma flag_readied_trans:
  assumes a: "flag_readied g fr ps rs s u" and b: "flag_readied g fr ps qs u v"
    and d: "set rs \<inter> set qs = {}" and fr: "\<And>a b. node_wait a = node_wait b \<Longrightarrow> fr a = fr b"
  shows "flag_readied g fr ps (rs @ qs) s v"
proof -
  note A = flag_readiedD [OF a] and B = flag_readiedD [OF b]
  have f: "fr (OSFlagNode u n) = fr (OSFlagNode s n)" for n using A(4) by (rule fr)
  have pr: "prio_of (OSTCBTbl u n) = prio_of (OSTCBTbl s n)" for n by (simp add: A(1) flag_tcb_def)
  have tv: "OSTCBTbl v n = (if n \<in> set (rs @ qs) then flag_tcb (fr (OSFlagNode s n)) ps (OSTCBTbl s n) else OSTCBTbl s n)"
    for n using d f by (auto simp: A(1) B(1))
  have st: "OSTCBTbl v n = OSTCBTbl u n" if "n \<in> set rs" for n using d that by (auto simp: B(1))
  have "{prio_of (OSTCBTbl s n) |n. n \<in> set (rs @ qs) \<and> OSTCBStat (OSTCBTbl v n) = OS_STAT_RDY} =
      {prio_of (OSTCBTbl s n) |n. n \<in> set rs \<and> OSTCBStat (OSTCBTbl u n) = OS_STAT_RDY} \<union>
      {prio_of (OSTCBTbl u n) |n. n \<in> set qs \<and> OSTCBStat (OSTCBTbl v n) = OS_STAT_RDY}"
    using st by (force simp: pr)
  then have "bm_mem (rdy v) = bm_mem (rdy s) \<union> {prio_of (OSTCBTbl s n) |n. n \<in> set (rs @ qs) \<and> OSTCBStat (OSTCBTbl v n) = OS_STAT_RDY}"
    using A(3) B(3) by (simp add: Un_assoc)
  then show ?thesis unfolding flag_readied_def using tv A(4-8) B(2,4-8) by (intro conjI allI impI) simp_all
qed

text \<open>The loop from a node on: \<open>ks\<close> are the nodes it has left in the list so far.\<close>

lemma FlagPostAll_from:
  assumes "flag_list s g (ks @ ns)" and "\<And>n. n \<in> set ns \<Longrightarrow> node_valid (OSFlagNode s n)"
    and "\<And>n. n \<in> set ns \<Longrightarrow> xy_ok (OSTCBTbl s n)" and "bm_ok (rdy s)"
    and "fl = OSFlagFlags (OSFlagTbl s g)"
    and "p = (case ns of [] \<Rightarrow> None | n # _ \<Rightarrow> Some n)"
  shows "\<exists>s' sched'. OS_FlagPostAll g (s, p, sched, False) = Some (s', None, sched', False) \<and>
    flag_list s' g (ks @ filter (\<lambda>n. \<not> node_sat fl (OSFlagNode s n)) ns) \<and>
    flag_readied g (node_rdy fl) OS_STAT_PEND_OK (filter (\<lambda>n. node_sat fl (OSFlagNode s n)) ns) s s' \<and>
    (sched' \<longleftrightarrow> sched \<or> (\<exists>n\<in>set ns. node_sat fl (OSFlagNode s n) \<and> OSTCBStat (OSTCBTbl s' n) = OS_STAT_RDY))"
  using assms
proof (induction ns arbitrary: s ks p sched)
  case Nil
  then show ?case
    by (auto simp: OS_FlagPostAll_def while_option_unfold flag_readied_refl)
next
  case (Cons n ns)
  note l = Cons.prems(1) and ok = Cons.prems(4) and fl = Cons.prems(5)
  have p: "p = Some n" using Cons.prems(6) by simp
  have t: "OS_FlagTest (OSFlagFlags (OSFlagTbl s g)) (OSFlagNodeFlags (OSFlagNode s n)) (OSFlagNodeWaitType (OSFlagNode s n)) =
      Some (node_rdy fl (OSFlagNode s n), node_sat fl (OSFlagNode s n))"
    using node_test [OF Cons.prems(2) [of n]] fl by simp
  have nin: "n \<notin> set ks" "n \<notin> set ns" "n \<in> set (ks @ n # ns)" using flag_listD(5) [OF l] by auto
  have nx: "node_next s n = (case ns of [] \<Rightarrow> None | m # _ \<Rightarrow> Some m)"
    using dpath_next [OF flag_listD(1) [OF l]] .
  show ?case
  proof (cases "node_sat fl (OSFlagNode s n)")
    case False
    have l': "flag_list s g ((ks @ [n]) @ ns)" using l by simp
    have "OS_FlagPostAll g (s, p, sched, False) = OS_FlagPostAll g (s, node_next s n, sched, False)"
      unfolding OS_FlagPostAll_def by (subst while_option_unfold) (simp add: p t False Let_def node_next_def)
    then show ?thesis
      using Cons.IH [OF l' _ _ ok fl nx] Cons.prems(2,3) False by simp
  next
    case True
    have xy: "xy_ok (OSTCBTbl s n)" using Cons.prems(3) by simp
    note e = FlagTaskRdy_effect [OF l nin(3) xy ok, of "node_rdy fl (OSFlagNode s n)" OS_STAT_PEND_OK]
    note r1 = flag_readied_one [OF l nin(3) xy ok, of "node_rdy fl" OS_STAT_PEND_OK]
    obtain u b where u: "OS_FlagTaskRdy n (node_rdy fl (OSFlagNode s n)) OS_STAT_PEND_OK s = (u, b)" by fastforce
    have step: "OS_FlagPostAll g (s, p, sched, False) = OS_FlagPostAll g (u, node_next s n, sched \<or> b, False)"
      unfolding OS_FlagPostAll_def
      using e(2) by (subst while_option_unfold) (simp add: p t True u Let_def flag_unlinked_def node_next_def)
    have rm: "remove1 n (ks @ n # ns) = ks @ ns" using nin(1) by (simp add: remove1_append)
    have lu: "flag_list u g (ks @ ns)" using e(1) by (simp add: u rm)
    have ru: "flag_readied g (node_rdy fl) OS_STAT_PEND_OK [n] s u" using r1 by (simp add: u)
    have nw: "node_wait (OSFlagNode u m) = node_wait (OSFlagNode s m)" for m using ru by (simp add: flag_readied_def)
    have sat: "node_sat fl (OSFlagNode u m) = node_sat fl (OSFlagNode s m)"
      "node_valid (OSFlagNode u m) = node_valid (OSFlagNode s m)" for m using node_wait_cong [OF nw] by simp_all
    have tb: "OSTCBTbl u m = OSTCBTbl s m" if "m \<in> set ns" for m using ru nin(2) that by (auto simp: flag_readied_def)
    have "\<exists>s' sched'. OS_FlagPostAll g (u, node_next s n, sched \<or> b, False) = Some (s', None, sched', False) \<and>
      flag_list s' g (ks @ filter (\<lambda>n. \<not> node_sat fl (OSFlagNode u n)) ns) \<and>
      flag_readied g (node_rdy fl) OS_STAT_PEND_OK (filter (\<lambda>n. node_sat fl (OSFlagNode u n)) ns) u s' \<and>
      (sched' \<longleftrightarrow> (sched \<or> b) \<or> (\<exists>n\<in>set ns. node_sat fl (OSFlagNode u n) \<and> OSTCBStat (OSTCBTbl s' n) = OS_STAT_RDY))"
      by (rule Cons.IH [OF lu]) (use Cons.prems(2,3) sat tb ru fl nx in \<open>auto simp: flag_readied_def\<close>)
    then obtain s' sched' where s': "OS_FlagPostAll g (u, node_next s n, sched \<or> b, False) = Some (s', None, sched', False)"
      "flag_list s' g (ks @ filter (\<lambda>n. \<not> node_sat fl (OSFlagNode s n)) ns)"
      "flag_readied g (node_rdy fl) OS_STAT_PEND_OK (filter (\<lambda>n. node_sat fl (OSFlagNode s n)) ns) u s'"
      "sched' \<longleftrightarrow> (sched \<or> b) \<or> (\<exists>n\<in>set ns. node_sat fl (OSFlagNode s n) \<and> OSTCBStat (OSTCBTbl s' n) = OS_STAT_RDY)"
      unfolding sat by blast
    have r: "flag_readied g (node_rdy fl) OS_STAT_PEND_OK ([n] @ filter (\<lambda>n. node_sat fl (OSFlagNode s n)) ns) s s'"
      by (rule flag_readied_trans [OF ru s'(3)]) (use nin(2) in simp, blast dest: node_wait_cong)
    have "OSTCBTbl s' n = OSTCBTbl u n" using s'(3) nin(2) by (auto simp: flag_readied_def)
    moreover have "b \<longleftrightarrow> OSTCBStat (OSTCBTbl u n) = OS_STAT_RDY" using e(3,4) by (simp add: u)
    ultimately have "sched' \<longleftrightarrow> sched \<or> (\<exists>m\<in>set (n # ns). node_sat fl (OSFlagNode s m) \<and> OSTCBStat (OSTCBTbl s' m) = OS_STAT_RDY)"
      using s'(4) True by auto
    moreover have "OS_FlagPostAll g (s, p, sched, False) = Some (s', None, sched', False)" using step s'(1) by (rule trans)
    moreover have "flag_list s' g (ks @ filter (\<lambda>n. \<not> node_sat fl (OSFlagNode s n)) (n # ns))" using s'(2) True by simp
    moreover have "flag_readied g (node_rdy fl) OS_STAT_PEND_OK (filter (\<lambda>n. node_sat fl (OSFlagNode s n)) (n # ns)) s s'"
      using r True by simp
    ultimately show ?thesis by blast
  qed
qed

section \<open>The wait conditions\<close>

text \<open>What each wait type means for the flags a task names: all or one of them, set or cleared.\<close>

definition wait_holds :: "INT8U \<Rightarrow> INT16U \<Rightarrow> INT16U \<Rightarrow> bool" where
  "wait_holds wt fl flags \<longleftrightarrow>
     (if wt = OS_FLAG_WAIT_SET_ALL then \<forall>i<16. bit flags i \<longrightarrow> bit fl i
      else if wt = OS_FLAG_WAIT_SET_ANY then \<exists>i<16. bit flags i \<and> bit fl i
      else if wt = OS_FLAG_WAIT_CLR_ALL then \<forall>i<16. bit flags i \<longrightarrow> \<not> bit fl i
      else \<exists>i<16. bit flags i \<and> \<not> bit fl i)"

lemma and_eq_iff: "(a AND b = b) \<longleftrightarrow> (\<forall>i<16. bit b i \<longrightarrow> bit a i)" for a b :: INT16U
  by (auto simp: bit_eq_iff bit_and_iff dest: bit_imp_le_length)

lemma and_nonzero_iff: "(a AND b \<noteq> 0) \<longleftrightarrow> (\<exists>i<16. bit b i \<and> bit a i)" for a b :: INT16U
  by (auto simp: bit_eq_iff bit_and_iff dest: bit_imp_le_length)

lemma not_and_eq_iff: "(NOT a AND b = b) \<longleftrightarrow> (\<forall>i<16. bit b i \<longrightarrow> \<not> bit a i)" for a b :: INT16U
  by (auto simp: bit_eq_iff bit_and_iff bit_not_iff dest: bit_imp_le_length)

lemma not_and_nonzero_iff: "(NOT a AND b \<noteq> 0) \<longleftrightarrow> (\<exists>i<16. bit b i \<and> \<not> bit a i)" for a b :: INT16U
  by (auto simp: bit_eq_iff bit_and_iff bit_not_iff dest: bit_imp_le_length)

abbreviation wait_types :: "INT8U set" where
  "wait_types \<equiv> {OS_FLAG_WAIT_SET_ALL, OS_FLAG_WAIT_SET_ANY, OS_FLAG_WAIT_CLR_ALL, OS_FLAG_WAIT_CLR_ANY}"

lemma FlagTest_holds:
  "wt \<in> wait_types \<Longrightarrow> \<exists>r. OS_FlagTest fl flags wt = Some (r, wait_holds wt fl flags) \<and>
     r = (if wt \<in> {OS_FLAG_WAIT_SET_ALL, OS_FLAG_WAIT_SET_ANY} then fl AND flags else NOT fl AND flags)"
  by (elim insertE emptyE; simp only: OS_FlagTest_def Let_def wait_holds_def and_eq_iff not_and_eq_iff
      and_nonzero_iff not_and_nonzero_iff; auto simp: bit_simps)

lemma node_sat_holds:
  assumes "node_valid nd"
  shows "node_sat fl nd = wait_holds (OSFlagNodeWaitType nd) fl (OSFlagNodeFlags nd)"
    and "bit (node_rdy fl nd) i \<longleftrightarrow> bit (OSFlagNodeFlags nd) i \<and>
      (bit fl i \<longleftrightarrow> OSFlagNodeWaitType nd \<in> {OS_FLAG_WAIT_SET_ALL, OS_FLAG_WAIT_SET_ANY})"
proof -
  have wt: "OSFlagNodeWaitType nd \<in> wait_types" using assms by (simp add: node_valid_def)
  note r = FlagTest_holds [OF wt, of fl "OSFlagNodeFlags nd", unfolded node_test [OF assms, of fl]]
  show "node_sat fl nd = wait_holds (OSFlagNodeWaitType nd) fl (OSFlagNodeFlags nd)" using r by auto
  have "node_rdy fl nd = (if OSFlagNodeWaitType nd \<in> {OS_FLAG_WAIT_SET_ALL, OS_FLAG_WAIT_SET_ANY}
      then fl AND OSFlagNodeFlags nd else NOT fl AND OSFlagNodeFlags nd)" using r by auto
  then show "bit (node_rdy fl nd) i \<longleftrightarrow> bit (OSFlagNodeFlags nd) i \<and>
      (bit fl i \<longleftrightarrow> OSFlagNodeWaitType nd \<in> {OS_FLAG_WAIT_SET_ALL, OS_FLAG_WAIT_SET_ANY})"
    by (auto simp: bit_simps dest: bit_imp_le_length)
qed

text \<open>The flags of the group after a post, and the waiters whose condition they satisfy.\<close>

definition posted :: "INT8U \<Rightarrow> INT16U \<Rightarrow> INT16U \<Rightarrow> INT16U" where
  "posted opt flags fl = (if opt = OS_FLAG_CLR then fl AND NOT flags else fl OR flags)"

definition satisfied :: "os \<Rightarrow> INT16U \<Rightarrow> nat list \<Rightarrow> nat list" where
  "satisfied s fl ns =
     filter (\<lambda>n. wait_holds (OSFlagNodeWaitType (OSFlagNode s n)) fl (OSFlagNodeFlags (OSFlagNode s n))) ns"

text \<open>C11: a post to a flag group returns; it wakes exactly the waiters whose condition holds for the
  new flags, in whatever place of the list they are: all of the flags the task named are set, one of them is
  set, all are clear, or one is clear, as its wait type says.  Each gets the flags that made it hold: those
  it named that are set, or, when it waited for clear flags, those that are clear.  The others stay in the
  list in their order, and the scheduler is called exactly when a woken task is ready.\<close>

theorem OSFlagPost_wakes_satisfied:
  assumes l: "flag_list s g ns" and ty: "OSFlagType (OSFlagTbl s g) = OS_EVENT_TYPE_FLAG"
    and opt: "opt = OS_FLAG_CLR \<or> opt = OS_FLAG_SET"
    and valid: "\<And>n. n \<in> set ns \<Longrightarrow> node_valid (OSFlagNode s n)"
    and xy: "\<And>n. n \<in> set ns \<Longrightarrow> xy_ok (OSTCBTbl s n)" and ok: "bm_ok (rdy s)"
    and fl: "fl = posted opt flags (OSFlagFlags (OSFlagTbl s g))" and rs: "rs = satisfied s fl ns"
  shows "\<exists>u got. OSFlagPost (Some g) flags opt s =
      Some (if \<exists>n\<in>set rs. OSTCBStat (OSTCBTbl u n) = OS_STAT_RDY then OS_Sched u else u, None) \<and>
    OSFlagFlags (OSFlagTbl u g) = fl \<and>
    flag_list u g (filter (\<lambda>n. n \<notin> set rs) ns) \<and>
    (\<forall>n. OSTCBTbl u n = (if n \<in> set rs then flag_tcb (got n) OS_STAT_PEND_OK (OSTCBTbl s n) else OSTCBTbl s n)) \<and>
    (\<forall>n\<in>set rs. \<forall>i. bit (got n) i \<longleftrightarrow> bit (OSFlagNodeFlags (OSFlagNode s n)) i \<and>
      (bit fl i \<longleftrightarrow> OSFlagNodeWaitType (OSFlagNode s n) \<in> {OS_FLAG_WAIT_SET_ALL, OS_FLAG_WAIT_SET_ANY})) \<and>
    bm_mem (rdy u) = bm_mem (rdy s) \<union> {prio_of (OSTCBTbl s n) |n. n \<in> set rs \<and> OSTCBStat (OSTCBTbl u n) = OS_STAT_RDY}"
proof -
  have rs': "rs = filter (\<lambda>n. node_sat fl (OSFlagNode s n)) ns"
    unfolding rs satisfied_def by (rule filter_cong) (simp_all add: node_sat_holds(1) valid)
  have got: "\<forall>n\<in>set rs. \<forall>i. bit (node_rdy fl (OSFlagNode s n)) i \<longleftrightarrow> bit (OSFlagNodeFlags (OSFlagNode s n)) i \<and>
      (bit fl i \<longleftrightarrow> OSFlagNodeWaitType (OSFlagNode s n) \<in> {OS_FLAG_WAIT_SET_ALL, OS_FLAG_WAIT_SET_ANY})"
    using node_sat_holds(2) [OF valid] by (simp add: rs')
  let ?v = "upd_grp g (\<lambda>p. p\<lparr>OSFlagFlags := fl\<rparr>) s"
  have v: "(if opt = OS_FLAG_CLR then upd_grp g (\<lambda>p. p\<lparr>OSFlagFlags := OSFlagFlags p AND NOT flags\<rparr>) s
      else upd_grp g (\<lambda>p. p\<lparr>OSFlagFlags := OSFlagFlags p OR flags\<rparr>) s) = ?v"
    by (simp add: upd_grp_def fl posted_def)
  have same: "OSFlagNode ?v = OSFlagNode s" "OSTCBTbl ?v = OSTCBTbl s" "rdy ?v = rdy s"
    "OSFlagFlags (OSFlagTbl ?v g) = fl" "OSFlagWaitList (OSFlagTbl ?v g) = OSFlagWaitList (OSFlagTbl s g)"
    by (simp_all add: upd_grp_def rdy_def)
  have lv: "flag_list ?v g ([] @ ns)"
    using l by (simp add: flag_list_def same node_next_def [abs_def] node_prev_def [abs_def])
  let ?p = "flag_node_of_void (OSFlagWaitList (OSFlagTbl s g))"
  have p: "?p = (case ns of [] \<Rightarrow> None | n # _ \<Rightarrow> Some n)" using flag_listD(1) [OF l] by (cases ns) auto
  have "\<exists>u sched'. OS_FlagPostAll g (?v, ?p, False, False) = Some (u, None, sched', False) \<and>
    flag_list u g ([] @ filter (\<lambda>n. \<not> node_sat fl (OSFlagNode ?v n)) ns) \<and>
    flag_readied g (node_rdy fl) OS_STAT_PEND_OK (filter (\<lambda>n. node_sat fl (OSFlagNode ?v n)) ns) ?v u \<and>
    (sched' \<longleftrightarrow> False \<or> (\<exists>n\<in>set ns. node_sat fl (OSFlagNode ?v n) \<and> OSTCBStat (OSTCBTbl u n) = OS_STAT_RDY))"
    by (rule FlagPostAll_from [OF lv _ _ _ _ p]) (simp_all add: same valid xy ok)
  then obtain u b where u: "OS_FlagPostAll g (?v, ?p, False, False) = Some (u, None, b, False)"
    "flag_list u g (filter (\<lambda>n. \<not> node_sat fl (OSFlagNode s n)) ns)"
    "flag_readied g (node_rdy fl) OS_STAT_PEND_OK rs ?v u"
    and b: "b \<longleftrightarrow> (\<exists>n\<in>set ns. node_sat fl (OSFlagNode s n) \<and> OSTCBStat (OSTCBTbl u n) = OS_STAT_RDY)"
    unfolding same rs' by auto
  have b': "b \<longleftrightarrow> (\<exists>n\<in>set rs. OSTCBStat (OSTCBTbl u n) = OS_STAT_RDY)" using b by (auto simp: rs')
  have "filter (\<lambda>n. n \<notin> set rs) ns = filter (\<lambda>n. \<not> node_sat fl (OSFlagNode s n)) ns"
    by (rule filter_cong) (simp_all add: rs')
  moreover have "OSFlagPost (Some g) flags opt s = Some (if b then OS_Sched u else u, None)"
    using ty opt u(1) by (simp add: OSFlagPost_def Let_def v same del: if_False)
  ultimately show ?thesis
    using u(2) flag_readiedD [OF u(3)] b' got by (intro exI [of _ u] exI [of _ "\<lambda>n. node_rdy fl (OSFlagNode s n)"]) (simp add: same)
qed

section \<open>The deletion\<close>

lemma FlagAbortAll_from:
  assumes "flag_list s g ns" and "\<And>n. n \<in> set ns \<Longrightarrow> xy_ok (OSTCBTbl s n)" and "bm_ok (rdy s)"
    and "p = (case ns of [] \<Rightarrow> None | n # _ \<Rightarrow> Some n)"
  shows "\<exists>s'. OS_FlagAbortAll p s = Some s' \<and> flag_list s' g [] \<and>
    flag_readied g (\<lambda>_. 0) OS_STAT_PEND_ABORT ns s s'"
  using assms
proof (induction ns arbitrary: s p)
  case Nil
  then show ?case by (auto simp: OS_FlagAbortAll_def while_option_unfold flag_readied_refl)
next
  case (Cons n ns)
  note l = Cons.prems(1) and ok = Cons.prems(3)
  have p: "p = Some n" using Cons.prems(4) by simp
  have nin: "n \<notin> set ns" "n \<in> set (n # ns)" using flag_listD(5) [OF l] by auto
  have nx: "node_next s n = (case ns of [] \<Rightarrow> None | m # _ \<Rightarrow> Some m)"
    using flag_listD(1) [OF l] by (cases ns) auto
  have xy: "xy_ok (OSTCBTbl s n)" using Cons.prems(2) by simp
  note e = FlagTaskRdy_effect [OF l nin(2) xy ok, of 0 OS_STAT_PEND_ABORT]
  obtain u b where u: "OS_FlagTaskRdy n 0 OS_STAT_PEND_ABORT s = (u, b)" by fastforce
  have ru: "flag_readied g (\<lambda>_. 0) OS_STAT_PEND_ABORT [n] s u"
    using flag_readied_one [OF l nin(2) xy ok, of "\<lambda>_. 0" OS_STAT_PEND_ABORT] by (simp add: u)
  have lu: "flag_list u g ns" using e(1) by (simp add: u)
  have step: "OS_FlagAbortAll p s = OS_FlagAbortAll (node_next s n) u"
    using e(2) unfolding OS_FlagAbortAll_def
    by (subst while_option_unfold) (simp add: p u Let_def flag_unlinked_def node_next_def)
  have "OSTCBTbl u m = OSTCBTbl s m" if "m \<in> set ns" for m
    using flag_readiedD(1) [OF ru] nin(1) that by auto
  then obtain s' where s': "OS_FlagAbortAll (node_next s n) u = Some s'" "flag_list s' g []"
    "flag_readied g (\<lambda>_. 0) OS_STAT_PEND_ABORT ns u s'"
    using Cons.IH [OF lu _ flag_readiedD(2) [OF ru] nx] Cons.prems(2) by auto
  have "flag_readied g (\<lambda>_. 0) OS_STAT_PEND_ABORT ([n] @ ns) s s'"
    by (rule flag_readied_trans [OF ru s'(3)]) (use nin(1) in simp_all)
  then show ?case using step s' by simp
qed

text \<open>C12: deleting a flag group from a task with \<open>OS_DEL_ALWAYS\<close> returns; every waiter is told of
  the abort, and the group is unused and the first of the free list.\<close>

theorem OSFlagDel_always:
  assumes l: "flag_list s g ns" and ty: "OSFlagType (OSFlagTbl s g) = OS_EVENT_TYPE_FLAG"
    and task: "OSIntNesting s = 0"
    and xy: "\<And>n. n \<in> set ns \<Longrightarrow> xy_ok (OSTCBTbl s n)" and ok: "bm_ok (rdy s)"
  shows "\<exists>u. OSFlagDel (Some g) OS_DEL_ALWAYS s = Some (if ns \<noteq> [] then OS_Sched u else u, None, OS_ERR_NONE) \<and>
    OSFlagType (OSFlagTbl u g) = OS_EVENT_TYPE_UNUSED \<and> OSFlagFreeList u = Some g \<and>
    OSFlagWaitList (OSFlagTbl u g) = void_of_flag_grp (OSFlagFreeList s) \<and>
    (\<forall>n. OSTCBTbl u n = (if n \<in> set ns then flag_tcb 0 OS_STAT_PEND_ABORT (OSTCBTbl s n) else OSTCBTbl s n)) \<and>
    bm_mem (rdy u) = bm_mem (rdy s) \<union> {prio_of (OSTCBTbl s n) |n. n \<in> set ns \<and> OSTCBStat (OSTCBTbl u n) = OS_STAT_RDY}"
proof -
  let ?p = "flag_node_of_void (OSFlagWaitList (OSFlagTbl s g))"
  have p: "?p = (case ns of [] \<Rightarrow> None | n # _ \<Rightarrow> Some n)" using flag_listD(1) [OF l] by (cases ns) auto
  obtain v where v: "OS_FlagAbortAll ?p s = Some v" "flag_readied g (\<lambda>_. 0) OS_STAT_PEND_ABORT ns s v"
    using FlagAbortAll_from [OF l xy ok p] by blast
  have "OSFlagWaitList (OSFlagTbl s g) \<noteq> NULL \<longleftrightarrow> ns \<noteq> []"
    using flag_listD(2) [OF l] p by (cases ns) (simp_all add: void_of_flag_node_def)
  then have d: "OSFlagDel (Some g) OS_DEL_ALWAYS s =
      Some (if ns \<noteq> [] then OS_Sched (OS_FlagFree g v) else OS_FlagFree g v, None, OS_ERR_NONE)"
    using ty task v(1) by (simp add: OSFlagDel_def Let_def)
  note D = flag_readiedD [OF v(2)]
  show ?thesis
    unfolding d by (intro exI [of _ "OS_FlagFree g v"])
      (simp add: OS_FlagFree_def Let_def upd_grp_def rdy_def D(1,8) D(3) [unfolded rdy_def])
qed

lemma FlagTaskRdy_frame:
  "OSTCBPrioTbl (fst (OS_FlagTaskRdy n f ps s)) = OSTCBPrioTbl s"
  "OSIntNesting (fst (OS_FlagTaskRdy n f ps s)) = OSIntNesting s"
  "OSLockNesting (fst (OS_FlagTaskRdy n f ps s)) = OSLockNesting s"
  "OSPrioCur (fst (OS_FlagTaskRdy n f ps s)) = OSPrioCur s"
  by (simp_all add: OS_FlagTaskRdy_def OS_FlagUnlink_def OS_RdyListInsert_def upd_tcb_def upd_grp_def upd_node_def
      set_rdy_def Let_def split: option.split)

lemma Switch_flags:
  "OSFlagTbl (OS_SwitchHighRdy s) = OSFlagTbl s" "OSFlagNode (OS_SwitchHighRdy s) = OSFlagNode s"
  "OSFlagFreeList (OS_SwitchHighRdy s) = OSFlagFreeList s"
  by (simp_all add: switch_defs)

text \<open>
  The node of a waiter that was aborted is off the list already when its pend runs again, and the pend
  takes it off once more.
\<close>

lemma resume_of_aborted:
  assumes c: "OSTCBCur u = TCB n" and st: "OSTCBStatPend (OSTCBTbl u n) = OS_STAT_PEND_ABORT"
    and nd: "OSFlagNodePrev (OSFlagNode u n) = None" "OSFlagNodeNext (OSFlagNode u n) = None"
      "OSFlagNodeFlagGrp (OSFlagNode u n) = g" "OSFlagNodeTCB (OSFlagNode u n) = n"
  shows "flag_grp_of_void (OSFlagWaitList (OSFlagTbl (fst (OSFlagPend_resume g wt u)) g)) = None"
    and "OSFlagFreeList (fst (OSFlagPend_resume g wt u)) = OSFlagFreeList u"
  using assms
  by (simp_all add: OSFlagPend_resume_def Let_def upd_tcb_def OS_FlagUnlink_def upd_grp_def upd_node_def
      void_of_flag_node_def flag_grp_of_void_def)

text \<open>C13: a task \<open>c\<close> deletes a flag group with \<open>OS_DEL_ALWAYS\<close>, with the scheduler unlocked, while a task
  \<open>n\<close> of higher priority than every ready one waits for it, first and only in its list and not suspended.  The
  deletion makes the group \<open>g\<close> the first of the free list, followed by the groups that were free before,
  from \<open>h\<close> on, and switches to the waiter.  The waiter then finishes its pend, which writes into the
  deleted group: the free list still starts at \<open>g\<close>, but now ends there, and the groups from \<open>h\<close> on are
  lost.\<close>

theorem OSFlagDel_loses_free_groups:
  assumes l: "flag_list s g [n]" and ty: "OSFlagType (OSFlagTbl s g) = OS_EVENT_TYPE_FLAG"
    and task: "OSIntNesting s = 0" and lock: "OSLockNesting s = 0"
    and xy: "xy_ok (OSTCBTbl s n)" and ok: "bm_ok (rdy s)" and free: "OSFlagFreeList s = Some h"
    and del: "OSTCBCur s = TCB c" "c \<noteq> n" "unat (OSPrioCur s) \<in> bm_mem (rdy s)"
    and waiter: "OSTCBPrioTbl s (prio_of (OSTCBTbl s n)) = TCB n" "OSTCBStat (OSTCBTbl s n) = OS_STAT_FLAG"
      "\<And>m. m \<in> bm_mem (rdy s) \<Longrightarrow> prio_of (OSTCBTbl s n) < m"
  shows "\<exists>v. OSFlagDel (Some g) OS_DEL_ALWAYS s = Some (v, None, OS_ERR_NONE) \<and> OSTCBCur v = TCB n \<and>
    OSFlagFreeList v = Some g \<and> flag_grp_of_void (OSFlagWaitList (OSFlagTbl v g)) = Some h \<and>
    OSFlagFreeList (fst (OSFlagPend_resume g wt v)) = Some g \<and>
    flag_grp_of_void (OSFlagWaitList (OSFlagTbl (fst (OSFlagPend_resume g wt v)) g)) = None"
proof -
  have p: "flag_node_of_void (OSFlagWaitList (OSFlagTbl s g)) = Some n" using flag_listD(1) [OF l] by simp
  have nw: "OSFlagWaitList (OSFlagTbl s g) = FlagNodeP n"
    using flag_listD(2) [OF l] by (simp add: p void_of_flag_node_def)
  have nd: "node_prev s n = None" "node_next s n = None" "OSFlagNodeFlagGrp (OSFlagNode s n) = g"
    "OSFlagNodeTCB (OSFlagNode s n) = n"
    using flag_listD(1,3,4) [OF l] by (simp_all add: p)
  note e = FlagTaskRdy_effect [OF l _ xy ok, of 0 OS_STAT_PEND_ABORT, simplified]
  obtain v b where v: "OS_FlagTaskRdy n 0 OS_STAT_PEND_ABORT s = (v, b)" by fastforce
  have vn: "OSFlagNodePrev (OSFlagNode v n) = None" "OSFlagNodeNext (OSFlagNode v n) = None"
      "OSFlagNodeFlagGrp (OSFlagNode v n) = g" "OSFlagNodeTCB (OSFlagNode v n) = n" "OSFlagFreeList v = Some h"
      "OSTCBStatPend (OSTCBTbl v n) = OS_STAT_PEND_ABORT"
    using e(2,3) nd free
    by (simp_all add: v flag_unlinked_def node_next_def node_prev_def node_wait_def flag_tcb_def)
  have ab: "OS_FlagAbortAll (Some n) s = Some v"
    unfolding OS_FlagAbortAll_def by (subst while_option_unfold, simp add: v Let_def vn) (subst while_option_unfold, simp)
  let ?u = "OS_FlagFree g v"
  have d: "OSFlagDel (Some g) OS_DEL_ALWAYS s = Some (OS_Sched ?u, None, OS_ERR_NONE)"
    using ty task ab by (simp add: OSFlagDel_def Let_def nw flag_node_of_void_def)
  have fr: "OSTCBPrioTbl v = OSTCBPrioTbl s" "OSIntNesting v = 0" "OSLockNesting v = 0" "OSPrioCur v = OSPrioCur s"
    using FlagTaskRdy_frame [of n 0 OS_STAT_PEND_ABORT s] task lock by (simp_all add: v)
  have u: "OSFlagNode ?u n = OSFlagNode v n" "OSFlagWaitList (OSFlagTbl ?u g) = FlagGrpP h" "OSFlagFreeList ?u = Some g"
    "OSTCBTbl ?u n = OSTCBTbl v n" "OSIntNesting ?u = 0" "OSLockNesting ?u = 0" "rdy ?u = rdy v"
    "OSPrioCur ?u = OSPrioCur s" "OSTCBPrioTbl ?u = OSTCBPrioTbl s"
    by (simp_all add: OS_FlagFree_def Let_def upd_grp_def rdy_def vn fr void_of_flag_grp_def)
  have sw: "OS_Sched ?u = OS_SwitchHighRdy ?u" by (simp add: OS_Sched_def u)
  have p64: "prio_of (OSTCBTbl s n) < 64" using xy_okD(1) [OF xy] by simp
  have r: "rdy v = bm_ins (prio_of (OSTCBTbl s n)) (rdy s)"
    using e(5) by (simp add: v flag_tcb_def waiter(2))
  then have "bm_ok (rdy v)" "bm_mem (rdy v) = insert (prio_of (OSTCBTbl s n)) (bm_mem (rdy s))"
    using ok p64 by (simp_all add: bm_ok_ins bm_mem_ins)
  moreover from this have "Min (bm_mem (rdy v)) = prio_of (OSTCBTbl s n)"
    using waiter(3) by (intro Min_eqI) (auto intro: less_imp_le bm.finite_mem)
  ultimately have top: "unat (bm_top (rdy v)) = prio_of (OSTCBTbl s n)" using bm.top_eq_Min [of "rdy v"] by simp
  then have "bm_top (rdy v) \<noteq> OSPrioCur s" using waiter(3) [OF del(3)] by auto
  then have cur: "OSTCBCur (OS_Sched ?u) = TCB n" by (simp add: sw Switch_run u top waiter(1))
  have "OSTCBStatPend (OSTCBTbl (OS_Sched ?u) n) = OS_STAT_PEND_ABORT"
    using Sched_frame(9) [of ?u n] vn(6) by (simp add: same_task_def tcb_sync_def u(4))
  note f = resume_of_aborted [OF cur this, unfolded sw Switch_flags u(1), OF vn(1-4)]
  show ?thesis using d cur f u(2,3) by (simp add: sw Switch_flags flag_grp_of_void_def)
qed

section \<open>Accepting flags\<close>

lemma consume_set: "fl AND NOT (fl AND flags) = fl AND NOT flags" for fl flags :: INT16U
  by (rule bit_word_eqI) (auto simp: bit_simps)

lemma consume_clr: "fl OR (NOT fl AND flags) = fl OR flags" for fl flags :: INT16U
  by (rule bit_word_eqI) (auto simp: bit_simps)

text \<open>\<open>OSFlagAccept\<close> succeeds exactly when the wait condition holds; with
  \<open>OS_FLAG_CONSUME\<close> it then takes the flags it was asked for out of the group, clearing those that
  were waited for to be set and setting those that were waited for to be clear; otherwise it changes
  nothing.\<close>

theorem OSFlagAccept_meaning:
  assumes ty: "OSFlagType (OSFlagTbl s g) = OS_EVENT_TYPE_FLAG" and wt: "wt \<in> wait_types"
    and fl: "fl = OSFlagFlags (OSFlagTbl s g)"
  shows "snd (snd (OSFlagAccept (Some g) flags wt s)) =
      (if wait_holds wt fl flags then OS_ERR_NONE else OS_ERR_FLAG_NOT_RDY) \<and>
    fst (OSFlagAccept (Some g) flags wt s) = s \<and>
    (if wait_holds wt fl flags
     then snd (snd (OSFlagAccept (Some g) flags (wt OR OS_FLAG_CONSUME) s)) = OS_ERR_NONE \<and>
       OSFlagFlags (OSFlagTbl (fst (OSFlagAccept (Some g) flags (wt OR OS_FLAG_CONSUME) s)) g) =
         (if wt \<in> {OS_FLAG_WAIT_SET_ALL, OS_FLAG_WAIT_SET_ANY} then fl AND NOT flags else fl OR flags)
     else snd (snd (OSFlagAccept (Some g) flags (wt OR OS_FLAG_CONSUME) s)) = OS_ERR_FLAG_NOT_RDY \<and>
       fst (OSFlagAccept (Some g) flags (wt OR OS_FLAG_CONSUME) s) = s)"
proof -
  obtain r where r: "OS_FlagTest fl flags wt = Some (r, wait_holds wt fl flags)"
    "r = (if wt \<in> {OS_FLAG_WAIT_SET_ALL, OS_FLAG_WAIT_SET_ANY} then fl AND flags else NOT fl AND flags)"
    using FlagTest_holds [OF wt] by blast
  have w: "wt AND OS_FLAG_CONSUME = 0" "(wt OR OS_FLAG_CONSUME) AND OS_FLAG_CONSUME \<noteq> 0"
    "(wt OR OS_FLAG_CONSUME) AND NOT OS_FLAG_CONSUME = wt"
    using wt by auto
  have a: "OSFlagAccept (Some g) flags wt s =
      (s, r, if wait_holds wt fl flags then OS_ERR_NONE else OS_ERR_FLAG_NOT_RDY)"
    using ty r(1) fl w(1) by (simp add: OSFlagAccept_def Let_def)
  have b: "OSFlagAccept (Some g) flags (wt OR OS_FLAG_CONSUME) s =
      (if wait_holds wt fl flags then (OS_FlagConsume g r wt s, r, OS_ERR_NONE) else (s, r, OS_ERR_FLAG_NOT_RDY))"
    using ty r(1) fl w(2,3) by (simp add: OSFlagAccept_def Let_def)
  have c: "OSFlagFlags (OSFlagTbl (OS_FlagConsume g r wt s) g) =
      (if wt \<in> {OS_FLAG_WAIT_SET_ALL, OS_FLAG_WAIT_SET_ANY} then fl AND NOT flags else fl OR flags)"
  proof (cases "wt \<in> {OS_FLAG_WAIT_SET_ALL, OS_FLAG_WAIT_SET_ANY}")
    case True
    then have "fl AND NOT r = fl AND NOT flags" using r(2) consume_set [of fl flags] by (simp only: if_True)
    then show ?thesis using True by (auto simp: OS_FlagConsume_def upd_grp_def simp flip: fl)
  next
    case False
    then have "fl OR r = fl OR flags" using r(2) consume_clr [of fl flags] by (simp only: if_False)
    then show ?thesis using False by (auto simp: OS_FlagConsume_def upd_grp_def simp flip: fl)
  qed
  show ?thesis unfolding a b using c by simp
qed

section \<open>The theorems on a concrete state\<close>

text \<open>Tasks 1 and 2 wait for group 0, for one flag of 1 and for both flags of 6.\<close>

definition ex_flags :: os where
  "ex_flags = (ex_os OS_EVENT_TYPE_SEM False)\<lparr>
     OSFlagTbl := (\<lambda>_. zero_flag_grp)(0 := zero_flag_grp\<lparr>OSFlagType := OS_EVENT_TYPE_FLAG,
       OSFlagWaitList := FlagNodeP 1, OSFlagFlags := 4\<rparr>),
     OSFlagNode := (\<lambda>_. undefined)(
       1 := \<lparr>OSFlagNodeNext = Some 2, OSFlagNodePrev = None, OSFlagNodeTCB = 1, OSFlagNodeFlagGrp = 0,
            OSFlagNodeFlags = 1, OSFlagNodeWaitType = OS_FLAG_WAIT_SET_ANY\<rparr>,
       2 := \<lparr>OSFlagNodeNext = None, OSFlagNodePrev = Some 1, OSFlagNodeTCB = 2, OSFlagNodeFlagGrp = 0,
            OSFlagNodeFlags = 6, OSFlagNodeWaitType = OS_FLAG_WAIT_SET_ALL\<rparr>),
     OSFlagFreeList := Some 1\<rparr>"

text \<open>Task 1, of priority 5, waits alone for group 0, and task 0, of priority 10, runs.\<close>

definition ex_flags1 :: os where
  "ex_flags1 = ex_flags\<lparr>OSFlagNode := (OSFlagNode ex_flags)(1 := (OSFlagNode ex_flags 1)\<lparr>OSFlagNodeNext := None\<rparr>),
     OSTCBTbl := (OSTCBTbl ex_flags)(1 := (ex_tcb 5 (TCB 0) (TCB 2))\<lparr>OSTCBStat := OS_STAT_FLAG, OSTCBFlagNode := Some 1\<rparr>)\<rparr>"

lemma ex_flag_list: "flag_list ex_flags 0 [1, 2]" "flag_list ex_flags1 0 [1]"
  by (auto simp: flag_list_def ex_flags_def ex_flags1_def node_next_def node_prev_def void_of_flag_node_def
      intro!: exI [of _ "Some 1"])

lemma ex_flag_tcbs: "OSTCBTbl ex_flags = OSTCBTbl (ex_os OS_EVENT_TYPE_SEM False)" "rdy ex_flags = rdy (ex_os OS_EVENT_TYPE_SEM False)"
  "rdy ex_flags1 = rdy (ex_os OS_EVENT_TYPE_SEM False)"
  by (simp_all add: ex_flags_def ex_flags1_def rdy_def)

lemma ex_flag_xy: "n \<in> {1, 2} \<Longrightarrow> xy_ok (OSTCBTbl (ex_os OS_EVENT_TYPE_SEM False) n)"
  by (auto simp: ex_xy)

lemma OSFlagPost_wakes_satisfied_witness:
  "\<exists>u. OSFlagPost (Some 0) 1 OS_FLAG_SET ex_flags = Some (OS_Sched u, None) \<and> flag_list u 0 [2] \<and>
     OSTCBFlagsRdy (OSTCBTbl u 1) = 1 \<and> 5 \<in> bm_mem (rdy u)"
proof -
  have "wait_holds OS_FLAG_WAIT_SET_ANY 5 1" "\<not> wait_holds OS_FLAG_WAIT_SET_ALL 5 6"
    by (auto simp: wait_holds_def intro: exI [of _ 0] exI [of _ 1])
  then have sat: "satisfied ex_flags 5 [1, 2] = [1]" by (simp add: satisfied_def ex_flags_def)
  have v: "node_valid (OSFlagNode ex_flags n)" if "n \<in> set [1, 2]" for n
    using that by (auto simp: node_valid_def ex_flags_def)
  have ty: "OSFlagType (OSFlagTbl ex_flags 0) = OS_EVENT_TYPE_FLAG" by (simp add: ex_flags_def)
  have fl: "5 = posted OS_FLAG_SET 1 (OSFlagFlags (OSFlagTbl ex_flags 0))" by (simp add: posted_def ex_flags_def)
  have xy: "xy_ok (OSTCBTbl ex_flags n)" if "n \<in> set [1, 2]" for n
    using that ex_flag_xy [of n] by (simp add: ex_flag_tcbs del: ex_fields)
  have ok: "bm_ok (rdy ex_flags)" by (simp add: ex_flag_tcbs)
  obtain u got where u: "OSFlagPost (Some 0) 1 OS_FLAG_SET ex_flags =
      Some (if \<exists>n\<in>set [1]. OSTCBStat (OSTCBTbl u n) = OS_STAT_RDY then OS_Sched u else u, None)"
    "flag_list u 0 (filter (\<lambda>n. n \<notin> set [1]) [1, 2])"
    "\<forall>n. OSTCBTbl u n = (if n \<in> set [1] then flag_tcb (got n) OS_STAT_PEND_OK (OSTCBTbl ex_flags n) else OSTCBTbl ex_flags n)"
    and got: "\<forall>n\<in>set [1]. \<forall>i. bit (got n) i \<longleftrightarrow> bit (OSFlagNodeFlags (OSFlagNode ex_flags n)) i \<and>
      (bit (5 :: INT16U) i \<longleftrightarrow> OSFlagNodeWaitType (OSFlagNode ex_flags n) \<in> {OS_FLAG_WAIT_SET_ALL, OS_FLAG_WAIT_SET_ANY})"
    and r: "bm_mem (rdy u) = bm_mem (rdy ex_flags) \<union>
      {prio_of (OSTCBTbl ex_flags n) |n. n \<in> set [1] \<and> OSTCBStat (OSTCBTbl u n) = OS_STAT_RDY}"
    using OSFlagPost_wakes_satisfied [OF ex_flag_list(1) ty disjI2 [OF refl] v xy ok fl sat [symmetric]]
    by - (erule meta_impE, assumption, erule meta_impE, assumption, elim exE conjE, rule that)
  have nd: "OSFlagNodeFlags (OSFlagNode ex_flags 1) = 1" "OSFlagNodeWaitType (OSFlagNode ex_flags 1) = OS_FLAG_WAIT_SET_ANY"
    by (simp_all add: ex_flags_def)
  have "bit (got 1) i \<longleftrightarrow> bit (1 AND 5 :: INT16U) i" for i
    using bspec [OF got, of 1] unfolding nd by (simp only: list.set insert_iff bit_and_iff simp_thms)
  then have "got 1 = 1 AND 5" by (intro bit_word_eqI) blast
  then have t1: "OSTCBTbl u 1 = flag_tcb 1 OS_STAT_PEND_OK (OSTCBTbl (ex_os OS_EVENT_TYPE_SEM False) 1)"
    using spec [OF u(3), of 1] by (simp add: ex_flag_tcbs)
  then have t2: "OSTCBStat (OSTCBTbl u 1) = OS_STAT_RDY" "OSTCBFlagsRdy (OSTCBTbl u 1) = 1"
    by (simp_all add: flag_tcb_def)
  have "5 \<in> bm_mem (rdy u)" unfolding r using t2(1) by (auto simp: ex_flag_tcbs)
  with u(1,2) t2 show ?thesis by (intro exI [of _ u]) simp
qed

lemma OSFlagDel_always_witness:
  "\<exists>u. OSFlagDel (Some 0) OS_DEL_ALWAYS ex_flags = Some (OS_Sched u, None, OS_ERR_NONE) \<and>
     OSTCBStatPend (OSTCBTbl u 1) = OS_STAT_PEND_ABORT \<and> OSTCBStatPend (OSTCBTbl u 2) = OS_STAT_PEND_ABORT"
proof -
  have ty: "OSFlagType (OSFlagTbl ex_flags 0) = OS_EVENT_TYPE_FLAG" and i: "OSIntNesting ex_flags = 0"
    by (simp_all add: ex_flags_def)
  obtain u where "OSFlagDel (Some 0) OS_DEL_ALWAYS ex_flags = Some (OS_Sched u, None, OS_ERR_NONE)"
    "\<And>n. OSTCBTbl u n = (if n \<in> set [1, 2] then flag_tcb 0 OS_STAT_PEND_ABORT (OSTCBTbl ex_flags n) else OSTCBTbl ex_flags n)"
    using OSFlagDel_always [OF ex_flag_list(1) ty i] by (auto simp: ex_flag_tcbs ex_flag_xy simp del: ex_fields)
  then show ?thesis by (intro exI [of _ u]) (simp add: flag_tcb_def)
qed

lemma OSFlagDel_loses_free_groups_witness:
  "\<exists>v. OSTCBCur ex_flags1 = TCB 0 \<and> OSFlagDel (Some 0) OS_DEL_ALWAYS ex_flags1 = Some (v, None, OS_ERR_NONE) \<and>
     OSTCBCur v = TCB 1 \<and> flag_grp_of_void (OSFlagWaitList (OSFlagTbl v 0)) = Some 1 \<and>
     OSFlagFreeList (fst (OSFlagPend_resume 0 OS_FLAG_WAIT_SET_ANY v)) = Some 0 \<and>
     flag_grp_of_void (OSFlagWaitList (OSFlagTbl (fst (OSFlagPend_resume 0 OS_FLAG_WAIT_SET_ANY v)) 0)) = None"
proof -
  have s: "OSFlagType (OSFlagTbl ex_flags1 0) = OS_EVENT_TYPE_FLAG" "OSIntNesting ex_flags1 = 0" "OSLockNesting ex_flags1 = 0"
    "OSFlagFreeList ex_flags1 = Some 1" "OSTCBCur ex_flags1 = TCB 0" "OSPrioCur ex_flags1 = 10"
    "OSTCBPrioTbl ex_flags1 = OSTCBPrioTbl (ex_os OS_EVENT_TYPE_SEM False)"
    by (simp_all add: ex_flags1_def ex_flags_def)
  have t: "OSTCBTbl ex_flags1 1 = (ex_tcb 5 (TCB 0) (TCB 2))\<lparr>OSTCBStat := OS_STAT_FLAG, OSTCBFlagNode := Some 1\<rparr>"
    by (simp add: ex_flags1_def)
  then have "xy_ok (OSTCBTbl ex_flags1 1)" using ex_xy(1) [of 5 "TCB 0" "TCB 2"] by (simp add: xy_ok_def)
  moreover have p: "prio_of (OSTCBTbl ex_flags1 1) = 5" by (simp add: t del: One_nat_def)
  have "prio_of (OSTCBTbl ex_flags1 1) < m" if "m \<in> bm_mem (rdy ex_flags1)" for m
    using that by (auto simp: p ex_flag_tcbs simp del: One_nat_def)
  ultimately have "\<exists>v. OSFlagDel (Some 0) OS_DEL_ALWAYS ex_flags1 = Some (v, None, OS_ERR_NONE) \<and> OSTCBCur v = TCB 1 \<and>
      OSFlagFreeList v = Some 0 \<and> flag_grp_of_void (OSFlagWaitList (OSFlagTbl v 0)) = Some 1 \<and>
      OSFlagFreeList (fst (OSFlagPend_resume 0 OS_FLAG_WAIT_SET_ANY v)) = Some 0 \<and>
      flag_grp_of_void (OSFlagWaitList (OSFlagTbl (fst (OSFlagPend_resume 0 OS_FLAG_WAIT_SET_ANY v)) 0)) = None"
    by (intro OSFlagDel_loses_free_groups [OF ex_flag_list(2) s(1-3) _ _ s(4,5)])
      (simp_all add: ex_flag_tcbs s p t del: One_nat_def)
  with s(5) show ?thesis by blast
qed

lemma OSFlagAccept_meaning_witness:
  "snd (snd (OSFlagAccept (Some 0) 4 (OS_FLAG_WAIT_SET_ALL OR OS_FLAG_CONSUME) ex_flags)) = OS_ERR_NONE \<and>
   snd (snd (OSFlagAccept (Some 0) 6 OS_FLAG_WAIT_SET_ALL ex_flags)) = OS_ERR_FLAG_NOT_RDY"
proof -
  have ty: "OSFlagType (OSFlagTbl ex_flags 0) = OS_EVENT_TYPE_FLAG" and fl: "4 = OSFlagFlags (OSFlagTbl ex_flags 0)"
    by (simp_all add: ex_flags_def)
  have "wait_holds OS_FLAG_WAIT_SET_ALL 4 4" "\<not> wait_holds OS_FLAG_WAIT_SET_ALL 4 6"
    unfolding wait_holds_def and_eq_iff [symmetric] by simp_all
  then show ?thesis
    using OSFlagAccept_meaning [OF ty _ fl, of OS_FLAG_WAIT_SET_ALL 4] OSFlagAccept_meaning [OF ty _ fl, of OS_FLAG_WAIT_SET_ALL 6]
    by simp
qed

end
