(* ===== verification/UCOS_Wheel.thy ===== *)
theory UCOS_Wheel
  imports UCOS_Tmr UCOS_Dll
begin

text \<open>
  The timer wheel: each spoke is the doubly linked list of the running timers whose expiry time has
  that remainder, and the unused timers are the free list.  Every service keeps this, and a round of
  the timer task expires exactly the timers that are due.
\<close>

definition tmr_pv :: "os \<Rightarrow> nat \<Rightarrow> nat option" where
  "tmr_pv s t = OSTmrPrev (OSTmrTbl s t)"

definition running :: "os \<Rightarrow> nat \<Rightarrow> bool" where
  "running s t \<longleftrightarrow> OSTmrState (OSTmrTbl s t) = OS_TMR_STATE_RUNNING"

definition spoke_of :: "os \<Rightarrow> nat \<Rightarrow> nat" where
  "spoke_of s t = tmr_spoke (OSTmrMatch (OSTmrTbl s t))"

text \<open>The sequence \<open>W i\<close> of the timers of each spoke \<open>i\<close>.\<close>

definition wheel :: "os \<Rightarrow> (nat \<Rightarrow> nat list) \<Rightarrow> bool" where
  "wheel s W \<longleftrightarrow>
     (\<forall>i. dpath (tmr_next s) (tmr_pv s) None (OSTmrFirst (OSTmrWheelTbl s i)) (W i) \<and>
          OSTmrEntries (OSTmrWheelTbl s i) = of_nat (length (W i)) \<and>
          (\<forall>t. t \<in> set (W i) \<longleftrightarrow> running s t \<and> spoke_of s t = i))"

definition tmr_free_list :: "os \<Rightarrow> nat list \<Rightarrow> bool" where
  "tmr_free_list s fs \<longleftrightarrow>
     tmr_pool.holds s fs \<and>
     (\<forall>t. t \<in> set fs \<longleftrightarrow> t < OS_TMR_CFG_MAX \<and> OSTmrState (OSTmrTbl s t) = OS_TMR_STATE_UNUSED) \<and>
     OSTmrFree s = of_nat (length fs) \<and> OSTmrUsed s = of_nat OS_TMR_CFG_MAX - of_nat (length fs)"

definition tmr_ok :: "os_tmr \<Rightarrow> bool" where
  "tmr_ok p \<longleftrightarrow>
     OSTmrState p \<in> {OS_TMR_STATE_UNUSED, OS_TMR_STATE_STOPPED, OS_TMR_STATE_COMPLETED, OS_TMR_STATE_RUNNING}"

definition tmr_inv :: "os \<Rightarrow> (nat \<Rightarrow> nat list) \<Rightarrow> nat list \<Rightarrow> bool" where
  "tmr_inv s W fs \<longleftrightarrow> wheel s W \<and> tmr_free_list s fs \<and>
     (\<forall>t. tmr_ok (OSTmrTbl s t)) \<and>
     (\<forall>t. OSTmrType (OSTmrTbl s t) = OS_TMR_TYPE \<longleftrightarrow> t < OS_TMR_CFG_MAX) \<and>
     (\<forall>t. running s t \<longrightarrow> t < OS_TMR_CFG_MAX)"

lemmas wheelD = wheel_def [THEN iffD1, THEN spec, THEN conjunct1]
  wheel_def [THEN iffD1, THEN spec, THEN conjunct2, THEN conjunct1]
  wheel_def [THEN iffD1, THEN spec, THEN conjunct2, THEN conjunct2, THEN spec]

section \<open>Linking and unlinking\<close>

definition link_match :: "INT8U \<Rightarrow> INT32U \<Rightarrow> os_tmr \<Rightarrow> INT32U" where
  "link_match ty now p =
     (if ty = OS_TMR_LINK_PERIODIC \<or> OSTmrDly p = 0 then OSTmrPeriod p + now else OSTmrDly p + now)"

text \<open>Both routines change the timer, one or two neighbours, and the spoke.\<close>

lemma OSTmr_Link_eq:
  assumes h: "OSTmrFirst (OSTmrWheelTbl s (tmr_spoke (link_match ty (OSTmrTime s) (OSTmrTbl s t)))) = h"
    and e: "h = None \<Longrightarrow> OSTmrEntries (OSTmrWheelTbl s (tmr_spoke (link_match ty (OSTmrTime s) (OSTmrTbl s t)))) = 0"
    and ht: "h \<noteq> Some t"
  shows "OSTmr_Link t ty s = s\<lparr>OSTmrTbl := (\<lambda>x. if x = t then (OSTmrTbl s t)\<lparr>OSTmrState := OS_TMR_STATE_RUNNING,
              OSTmrMatch := link_match ty (OSTmrTime s) (OSTmrTbl s t), OSTmrNext := h, OSTmrPrev := None\<rparr>
            else if h = Some x then (OSTmrTbl s x)\<lparr>OSTmrPrev := Some t\<rparr> else OSTmrTbl s x),
          OSTmrWheelTbl := (\<lambda>i. if i = tmr_spoke (link_match ty (OSTmrTime s) (OSTmrTbl s t))
            then \<lparr>OSTmrFirst = Some t, OSTmrEntries = OSTmrEntries (OSTmrWheelTbl s i) + 1\<rparr>
            else OSTmrWheelTbl s i)\<rparr>"
  using h e ht
  by (cases h) (auto simp: OSTmr_Link_def upd_tmr_def upd_spoke_def Let_def link_match_def fun_eq_iff)

lemma OSTmr_Unlink_eq:
  assumes w: "wheel s W" and t: "running s t"
  shows "OSTmr_Unlink t s = s\<lparr>OSTmrTbl := (\<lambda>x. if x = t then (OSTmrTbl s t)\<lparr>OSTmrState := OS_TMR_STATE_STOPPED,
              OSTmrNext := None, OSTmrPrev := None\<rparr>
            else (OSTmrTbl s x)
              \<lparr>OSTmrNext := (if tmr_pv s t = Some x then tmr_next s t else tmr_next s x),
               OSTmrPrev := (if tmr_next s t = Some x then tmr_pv s t else tmr_pv s x)\<rparr>),
          OSTmrWheelTbl := (\<lambda>i. if i = spoke_of s t
            then \<lparr>OSTmrFirst = (if tmr_pv s t = None then tmr_next s t else OSTmrFirst (OSTmrWheelTbl s i)),
                  OSTmrEntries = OSTmrEntries (OSTmrWheelTbl s i) - 1\<rparr>
            else OSTmrWheelTbl s i)\<rparr>"
proof -
  let ?i = "spoke_of s t"
  have m: "t \<in> set (W ?i)" using wheelD(3) [OF w, of t ?i] t by simp
  note d = wheelD(1) [OF w, of ?i]
  have hd: "tmr_pv s t = None \<longleftrightarrow> OSTmrFirst (OSTmrWheelTbl s ?i) = Some t" by (rule dpath_pv_head [OF d m])
  obtain as bs where ab: "W ?i = as @ t # bs" using split_list [OF m] by blast
  have pn: "tmr_pv s t = (if as = [] then None else Some (last as))"
    "tmr_next s t = (case bs of [] \<Rightarrow> None | b # _ \<Rightarrow> Some b)"
    using dpath_append [OF d [unfolded ab]] dpath_next [OF d [unfolded ab]] by simp_all
  have ds: "distinct (as @ t # bs)" using dpath_distinct [OF d] ab by simp
  have nt: "tmr_next s t \<noteq> Some t" "tmr_pv s t \<noteq> Some t"
    "tmr_pv s t = Some x \<Longrightarrow> tmr_next s t \<noteq> Some x" for x
    using pn ds by (auto split: list.splits if_splits dest: last_in_set)
  show ?thesis
  proof (cases "tmr_pv s t")
    case None
    then show ?thesis using hd nt
      by (cases "tmr_next s t")
        (auto simp: OSTmr_Unlink_def Let_def upd_tmr_def upd_spoke_def spoke_of_def tmr_next_def tmr_pv_def fun_eq_iff)
  next
    case (Some u)
    then show ?thesis using hd nt
      by (cases "tmr_next s t")
        (auto simp: OSTmr_Unlink_def Let_def upd_tmr_def upd_spoke_def spoke_of_def tmr_next_def tmr_pv_def fun_eq_iff)
  qed
qed

text \<open>The timers after linking and unlinking, field by field.\<close>

lemma wheel_head:
  assumes w: "wheel s W" and h: "OSTmrFirst (OSTmrWheelTbl s i) = Some x"
  shows "x \<in> set (W i)" and "running s x" and "spoke_of s x = i"
proof -
  show x: "x \<in> set (W i)" using wheelD(1) [OF w, of i] h by (cases "W i") auto
  show "running s x" "spoke_of s x = i" using wheelD(3) [OF w, of x i] x by simp_all
qed

lemma wheel_empty: "wheel s W \<Longrightarrow> OSTmrFirst (OSTmrWheelTbl s i) = None \<Longrightarrow> W i = [] \<and> OSTmrEntries (OSTmrWheelTbl s i) = 0"
  using wheelD(1,2) [of s W i] by (cases "W i") auto

lemma link_view:
  fixes ty :: INT8U
  assumes w: "wheel s W" and t: "\<not> running s t"
  defines "m \<equiv> link_match ty (OSTmrTime s) (OSTmrTbl s t)"
  defines "h \<equiv> OSTmrFirst (OSTmrWheelTbl s (tmr_spoke m))"
  shows "OSTmr_Link t ty s = s\<lparr>OSTmrTbl := (\<lambda>x. if x = t then (OSTmrTbl s t)\<lparr>OSTmrState := OS_TMR_STATE_RUNNING,
              OSTmrMatch := m, OSTmrNext := h, OSTmrPrev := None\<rparr>
            else if h = Some x then (OSTmrTbl s x)\<lparr>OSTmrPrev := Some t\<rparr> else OSTmrTbl s x),
          OSTmrWheelTbl := (\<lambda>i. if i = tmr_spoke m
            then \<lparr>OSTmrFirst = Some t, OSTmrEntries = OSTmrEntries (OSTmrWheelTbl s i) + 1\<rparr>
            else OSTmrWheelTbl s i)\<rparr>"
  unfolding m_def
  by (rule OSTmr_Link_eq)
    (use wheel_head(2) [OF w, of "tmr_spoke m" t] wheel_empty [OF w, of "tmr_spoke m"] t in
      \<open>auto simp: h_def m_def\<close>)

lemma link_wheel:
  assumes w: "wheel s W" and t: "\<not> running s t"
    and i: "i = tmr_spoke (link_match ty (OSTmrTime s) (OSTmrTbl s t))"
  shows "wheel (OSTmr_Link t ty s) (W(i := t # W i))"
  unfolding wheel_def
proof (intro allI conjI)
  fix j
  let ?m = "link_match ty (OSTmrTime s) (OSTmrTbl s t)" and ?s = "OSTmr_Link t ty s"
  let ?h = "OSTmrFirst (OSTmrWheelTbl s i)"
  note v = link_view [OF w t, of ty, folded i]
  note d = wheelD(1) [OF w, of j]
  have nt: "t \<notin> set (W k)" for k using wheelD(3) [OF w, of t k] t by simp
  have hm: "x \<notin> set (W j)" if "?h = Some x" "j \<noteq> i" for x
    using wheel_head [OF w that(1)] wheelD(3) [OF w, of x j] that(2) by auto
  have hn: "?h \<noteq> Some t" using wheel_head(2) [OF w, of i t] t by auto
  show "dpath (tmr_next ?s) (tmr_pv ?s) None (OSTmrFirst (OSTmrWheelTbl ?s j)) ((W(i := t # W i)) j)"
  proof (cases "j = i")
    case True
    have "dpath (tmr_next ?s) (tmr_pv ?s) None (Some t) (t # W i)"
      by (rule dpath_push [OF wheelD(1) [OF w, of i] nt [of i]])
        (use nt [of i] in \<open>auto simp: v tmr_next_def tmr_pv_def\<close>)
    then show ?thesis using True by (simp add: v i)
  next
    case False
    have "dpath (tmr_next ?s) (tmr_pv ?s) None (OSTmrFirst (OSTmrWheelTbl s j)) (W j)"
      by (rule dpath_cong [OF _ _ d]) (use nt [of j] hm False in \<open>auto simp: v tmr_next_def tmr_pv_def\<close>)
    then show ?thesis using False by (simp add: v i)
  qed
  show "OSTmrEntries (OSTmrWheelTbl ?s j) = of_nat (length ((W(i := t # W i)) j))"
    using wheelD(2) [OF w, of j] by (auto simp: v i)
  show "x \<in> set ((W(i := t # W i)) j) \<longleftrightarrow> running ?s x \<and> spoke_of ?s x = j" for x
    using wheelD(3) [OF w, of x j] t by (auto simp: v running_def spoke_of_def i)
qed

lemma unlink_wheel:
  assumes w: "wheel s W" and t: "running s t"
  shows "wheel (OSTmr_Unlink t s) (W(spoke_of s t := remove1 t (W (spoke_of s t))))"
  unfolding wheel_def
proof (intro allI conjI)
  fix j
  let ?i = "spoke_of s t" and ?s = "OSTmr_Unlink t s"
  let ?W = "W(?i := remove1 t (W ?i))"
  note v = OSTmr_Unlink_eq [OF w t]
  note d = wheelD(1) [OF w, of j]
  have m: "t \<in> set (W ?i)" using wheelD(3) [OF w, of t ?i] t by simp
  have ds: "distinct (W k)" for k by (rule dpath_distinct [OF wheelD(1) [OF w]])
  have nb: "x \<in> set (W ?i)" if "tmr_pv s t = Some x \<or> tmr_next s t = Some x" for x
    using that dpath_pv_in [OF wheelD(1) [OF w] m] dpath_nx_in [OF wheelD(1) [OF w] m] by blast
  have oth: "x \<notin> set (W j)" if "x \<in> set (W ?i)" "j \<noteq> ?i" for x
    using wheelD(3) [OF w, of x ?i] wheelD(3) [OF w, of x j] that by auto
  show "dpath (tmr_next ?s) (tmr_pv ?s) None (OSTmrFirst (OSTmrWheelTbl ?s j)) (?W j)"
  proof (cases "j = ?i")
    case True
    have "dpath (tmr_next ?s) (tmr_pv ?s) None
        (if tmr_pv s t = None then tmr_next s t else OSTmrFirst (OSTmrWheelTbl s ?i)) (remove1 t (W ?i))"
      by (rule dpath_unlink [OF wheelD(1) [OF w] m]) (auto simp: v tmr_next_def tmr_pv_def)
    then show ?thesis using True by (simp add: v)
  next
    case False
    have n: "tmr_pv s t \<noteq> Some x" "tmr_next s t \<noteq> Some x" "x \<noteq> t" if "x \<in> set (W j)" for x
      using nb [of x] oth [of x] oth [OF m] that False by auto
    have "dpath (tmr_next ?s) (tmr_pv ?s) None (OSTmrFirst (OSTmrWheelTbl s j)) (W j)"
      by (rule dpath_cong [OF _ _ d]) (use n in \<open>auto simp: v tmr_next_def tmr_pv_def\<close>)
    then show ?thesis using False by (simp add: v)
  qed
  have "W ?i \<noteq> []" using m by auto
  then have "of_nat (length (W ?i)) - 1 = (of_nat (length (W ?i) - 1) :: 16 word)"
    by (cases "W ?i") simp_all
  then show "OSTmrEntries (OSTmrWheelTbl ?s j) = of_nat (length (?W j))"
    using wheelD(2) [OF w, of j] m by (auto simp: v length_remove1)
  show "x \<in> set (?W j) \<longleftrightarrow> running ?s x \<and> spoke_of ?s x = j" for x
    using wheelD(3) [OF w, of x j] ds [of ?i] m by (auto simp: v running_def spoke_of_def)
qed

section \<open>The invariant of the timers\<close>

definition tmrs :: "os \<Rightarrow> (nat \<Rightarrow> os_tmr) \<times> (nat \<Rightarrow> os_tmr_wheel) \<times> nat option \<times> INT16U \<times> INT16U" where
  "tmrs s = (OSTmrTbl s, OSTmrWheelTbl s, OSTmrFreeList s, OSTmrFree s, OSTmrUsed s)"

lemma tmr_inv_cong: "tmrs s' = tmrs s \<Longrightarrow> tmr_inv s' W fs \<longleftrightarrow> tmr_inv s W fs"
proof -
  assume e: "tmrs s' = tmrs s"
  then have "tmr_next s' = tmr_next s" "tmr_pv s' = tmr_pv s" "running s' = running s" "spoke_of s' = spoke_of s"
    by (simp_all add: tmrs_def fun_eq_iff tmr_next_def tmr_pv_def running_def spoke_of_def)
  with e show ?thesis
    by (simp add: tmrs_def tmr_inv_def wheel_def tmr_free_list_def tmr_pool.holds_def)
qed

lemma tmrs_lock [simp]:
  "tmrs (OSSchedLock s) = tmrs s" "tmrs (OSSchedUnlock s) = tmrs s" "tmrs (s\<lparr>OSTmrTime := x\<rparr>) = tmrs s"
  by (simp_all add: tmrs_def OSSchedLock_def OSSchedUnlock_def OS_Sched_def OS_SwitchHighRdy_def OS_SchedNew_def
      OS_TASK_SW_def Let_def upd_tcb_def)

lemma lock_fields [simp]:
  "OSTmrTbl (OSSchedLock s) = OSTmrTbl s" "OSTmrTime (OSSchedLock s) = OSTmrTime s"
  "OSTmrTbl (OSSchedUnlock s) = OSTmrTbl s" "OSTmrTime (OSSchedUnlock s) = OSTmrTime s"
  "OSTmrFreeList (OSSchedLock s) = OSTmrFreeList s" "OSTmrWheelTbl (OSSchedLock s) = OSTmrWheelTbl s"
  by (simp_all add: OSSchedLock_def OSSchedUnlock_def OS_Sched_def OS_SwitchHighRdy_def OS_SchedNew_def
      OS_TASK_SW_def Let_def upd_tcb_def)

lemmas tmr_inv_lock [simp] = tmrs_lock [THEN tmr_inv_cong]

lemma tmr_invD:
  assumes "tmr_inv s W fs"
  shows "wheel s W" and "tmr_free_list s fs" and "tmr_ok (OSTmrTbl s t)"
    and "OSTmrType (OSTmrTbl s t) = OS_TMR_TYPE \<longleftrightarrow> t < OS_TMR_CFG_MAX"
    and "running s t \<Longrightarrow> t < OS_TMR_CFG_MAX"
  using assms by (auto simp: tmr_inv_def)

text \<open>A step keeps the rest of the invariant when it keeps the types and the running timers in the table.\<close>

lemma tmr_invI:
  assumes "tmr_inv s W fs" and "wheel s' W'" and "tmr_free_list s' fs'" and "\<And>x. tmr_ok (OSTmrTbl s' x)"
    and "\<And>x. OSTmrType (OSTmrTbl s' x) = OSTmrType (OSTmrTbl s x)"
    and "\<And>x. running s' x \<Longrightarrow> x < OS_TMR_CFG_MAX \<or> running s x"
  shows "tmr_inv s' W' fs'"
proof -
  have "x < OS_TMR_CFG_MAX" if "running s' x" for x using assms(6) [OF that] assms(1) by (auto simp: tmr_inv_def)
  then show ?thesis using assms(1-5) by (simp add: tmr_inv_def)
qed

lemma tmr_free_list_cong:
  assumes "tmr_free_list s fs" and "\<And>x. x \<in> set fs \<Longrightarrow> tmr_next s' x = tmr_next s x"
    and "\<And>x. OSTmrState (OSTmrTbl s' x) = OS_TMR_STATE_UNUSED \<longleftrightarrow> OSTmrState (OSTmrTbl s x) = OS_TMR_STATE_UNUSED"
    and "OSTmrFreeList s' = OSTmrFreeList s" "OSTmrFree s' = OSTmrFree s" "OSTmrUsed s' = OSTmrUsed s"
  shows "tmr_free_list s' fs"
  using assms path_cong [of fs "tmr_next s'" "tmr_next s" "OSTmrFreeList s"]
  by (simp add: tmr_free_list_def tmr_pool.holds_def)

lemma free_not_running: "tmr_free_list s fs \<Longrightarrow> x \<in> set fs \<Longrightarrow> \<not> running s x"
  by (auto simp: tmr_free_list_def running_def)

lemma link_inv:
  assumes inv: "tmr_inv s W fs" and t: "t < OS_TMR_CFG_MAX" "\<not> running s t"
      "OSTmrState (OSTmrTbl s t) \<noteq> OS_TMR_STATE_UNUSED"
    and i: "i = tmr_spoke (link_match ty (OSTmrTime s) (OSTmrTbl s t))"
  shows "tmr_inv (OSTmr_Link t ty s) (W(i := t # W i)) fs"
proof -
  let ?s = "OSTmr_Link t ty s"
  note inv' = tmr_invD [OF inv]
  note v = link_view [OF inv'(1) t(2), of ty]
  have w: "wheel ?s (W(i := t # W i))" by (rule link_wheel [OF inv'(1) t(2) i])
  have "tmr_free_list ?s fs"
  proof (rule tmr_free_list_cong [OF inv'(2)])
    fix x assume x: "x \<in> set fs"
    then have "x \<noteq> t" using inv'(2) t by (auto simp: tmr_free_list_def)
    then show "tmr_next ?s x = tmr_next s x" by (simp add: v tmr_next_def)
  qed (use t in \<open>auto simp: v\<close>)
  moreover have "tmr_ok (OSTmrTbl ?s x)" for x using inv'(3) [of x] by (auto simp: v tmr_ok_def)
  moreover have "OSTmrType (OSTmrTbl ?s x) = OSTmrType (OSTmrTbl s x)" for x by (simp add: v)
  moreover have "running ?s x \<longleftrightarrow> x = t \<or> running s x" for x by (simp add: v running_def)
  ultimately show ?thesis using t(1) by (intro tmr_invI [OF inv w]) auto
qed

lemma unlink_inv:
  assumes inv: "tmr_inv s W fs" and t: "running s t"
  shows "tmr_inv (OSTmr_Unlink t s) (W(spoke_of s t := remove1 t (W (spoke_of s t)))) fs"
proof -
  let ?s = "OSTmr_Unlink t s"
  note inv' = tmr_invD [OF inv]
  note v = OSTmr_Unlink_eq [OF inv'(1) t]
  note w = unlink_wheel [OF inv'(1) t]
  have m: "t \<in> set (W (spoke_of s t))" using wheelD(3) [OF inv'(1), of t "spoke_of s t"] t by simp
  have "tmr_free_list ?s fs"
  proof (rule tmr_free_list_cong [OF inv'(2)])
    fix x assume x: "x \<in> set fs"
    have "running s y" if "tmr_pv s t = Some y" for y
      using dpath_pv_in [OF wheelD(1) [OF inv'(1)] m that] wheelD(3) [OF inv'(1), of y] by auto
    then have "x \<noteq> t" "tmr_pv s t \<noteq> Some x" using free_not_running [OF inv'(2) x] t by auto
    then show "tmr_next ?s x = tmr_next s x" by (simp add: v tmr_next_def)
  qed (use t in \<open>auto simp: v running_def\<close>)
  moreover have "tmr_ok (OSTmrTbl ?s x)" for x using inv'(3) [of x] by (auto simp: v tmr_ok_def)
  moreover have "OSTmrType (OSTmrTbl ?s x) = OSTmrType (OSTmrTbl s x)" for x by (simp add: v)
  moreover have "running ?s x \<longleftrightarrow> x \<noteq> t \<and> running s x" for x by (simp add: v running_def)
  ultimately show ?thesis by (intro tmr_invI [OF inv w]) auto
qed

text \<open>A timer outside the wheel may change freely while it does not run.\<close>

lemma wheel_outside:
  assumes w: "wheel s W" and t: "\<not> running s t" "\<not> running s' t"
    and o: "\<And>x. x \<noteq> t \<Longrightarrow> OSTmrTbl s' x = OSTmrTbl s x" and e: "OSTmrWheelTbl s' = OSTmrWheelTbl s"
  shows "wheel s' W"
  unfolding wheel_def
proof (intro allI conjI)
  fix i
  have nt: "x \<noteq> t" if "x \<in> set (W i)" for x using that wheelD(3) [OF w, of t i] t(1) by auto
  show "dpath (tmr_next s') (tmr_pv s') None (OSTmrFirst (OSTmrWheelTbl s' i)) (W i)"
    unfolding e by (rule dpath_cong [OF _ _ wheelD(1) [OF w, of i]]) (simp_all add: tmr_next_def tmr_pv_def o nt)
  show "OSTmrEntries (OSTmrWheelTbl s' i) = of_nat (length (W i))" using wheelD(2) [OF w, of i] by (simp add: e)
  show "x \<in> set (W i) \<longleftrightarrow> running s' x \<and> spoke_of s' x = i" for x
    using wheelD(3) [OF w, of x i] t o [of x] by (cases "x = t") (auto simp: running_def spoke_of_def)
qed

text \<open>A change of a timer that is not running and keeps its links, state class and type.\<close>

lemma upd_tmr_inv:
  assumes inv: "tmr_inv s W fs" and t: "\<not> running s t" "OSTmrState (OSTmrTbl s t) \<noteq> OS_TMR_STATE_UNUSED"
    and f: "OSTmrState (f (OSTmrTbl s t)) \<in> {OS_TMR_STATE_STOPPED, OS_TMR_STATE_COMPLETED}"
      "OSTmrType (f (OSTmrTbl s t)) = OSTmrType (OSTmrTbl s t)"
  shows "tmr_inv (upd_tmr t f s) W fs"
proof -
  let ?s = "upd_tmr t f s"
  note inv' = tmr_invD [OF inv]
  have u: "OSTmrTbl ?s x = (if x = t then f (OSTmrTbl s t) else OSTmrTbl s x)" for x by (simp add: upd_tmr_def)
  have r: "running ?s x \<longleftrightarrow> running s x" for x using t(1) f(1) by (auto simp: running_def u)
  have "wheel ?s W"
    by (rule wheel_outside [OF inv'(1)]) (use t(1) r [of t] in \<open>auto simp: upd_tmr_def\<close>)
  moreover have "tmr_free_list ?s fs"
  proof (rule tmr_free_list_cong [OF inv'(2)])
    fix x assume "x \<in> set fs"
    then have "x \<noteq> t" using inv'(2) t(2) by (auto simp: tmr_free_list_def)
    then show "tmr_next ?s x = tmr_next s x" by (simp add: tmr_next_def u)
  next
    fix x
    show "OSTmrState (OSTmrTbl ?s x) = OS_TMR_STATE_UNUSED \<longleftrightarrow> OSTmrState (OSTmrTbl s x) = OS_TMR_STATE_UNUSED"
      using t(2) f(1) by (auto simp: u)
  qed (simp_all add: upd_tmr_def)
  moreover have "tmr_ok (OSTmrTbl ?s x)" for x using inv'(3) [of x] f(1) by (auto simp: u tmr_ok_def)
  moreover have "OSTmrType (OSTmrTbl ?s x) = OSTmrType (OSTmrTbl s x)" for x using f(2) by (simp add: u)
  ultimately show ?thesis using r by (intro tmr_invI [OF inv]) auto
qed

section \<open>The services\<close>

lemma free_inv:
  assumes inv: "tmr_inv s W fs" and t: "t < OS_TMR_CFG_MAX" "\<not> running s t"
      "OSTmrState (OSTmrTbl s t) \<noteq> OS_TMR_STATE_UNUSED"
  shows "tmr_inv (OSTmr_Free t s) W (t # fs)"
proof -
  let ?s = "OSTmr_Free t s"
  note inv' = tmr_invD [OF inv]
  have tf: "t \<notin> set fs" using inv'(2) t(3) by (auto simp: tmr_free_list_def)
  have u: "x \<noteq> t \<Longrightarrow> OSTmrTbl ?s x = OSTmrTbl s x" "OSTmrState (OSTmrTbl ?s t) = OS_TMR_STATE_UNUSED"
    "OSTmrType (OSTmrTbl ?s t) = OSTmrType (OSTmrTbl s t)" "OSTmrWheelTbl ?s = OSTmrWheelTbl s"
    "OSTmrFree ?s = OSTmrFree s + 1" "OSTmrUsed ?s = OSTmrUsed s - 1" for x
    by (simp_all add: OSTmr_Free_def upd_tmr_def Let_def)
  have r: "running ?s x \<longleftrightarrow> running s x" for x using t(2) u(1) [of x] u(2) by (cases "x = t") (simp_all add: running_def)
  have w: "wheel ?s W"
    by (rule wheel_outside [OF inv'(1)]) (use t(2) r [of t] in \<open>auto simp: u\<close>)
  have "tmr_pool.holds ?s (t # fs)"
    using inv'(2) tf by (intro tmr_pool.free_holds) (simp_all add: tmr_free_list_def)
  moreover have "x \<in> set (t # fs) \<longleftrightarrow> x < OS_TMR_CFG_MAX \<and> OSTmrState (OSTmrTbl ?s x) = OS_TMR_STATE_UNUSED" for x
    using inv'(2) t(1) u(1) [of x] u(2) by (cases "x = t") (auto simp: tmr_free_list_def)
  ultimately have f: "tmr_free_list ?s (t # fs)"
    using inv'(2) by (simp add: tmr_free_list_def u)
  have "tmr_ok (OSTmrTbl ?s x)" "OSTmrType (OSTmrTbl ?s x) = OSTmrType (OSTmrTbl s x)" for x
    using inv'(3) [of x] u(1) [of x] u(2,3) by (cases "x = t"; simp add: tmr_ok_def)+
  with w f r show ?thesis by (intro tmr_invI [OF inv]) auto
qed

text \<open>A timer taken from the free list and set up: the two steps of \<open>OSTmrCreate\<close>.\<close>

lemma alloc_inv:
  assumes inv: "tmr_inv s W (t # fs)"
    and f: "\<And>p. OSTmrState (f p) = OS_TMR_STATE_STOPPED" "\<And>p. OSTmrType (f p) = OSTmrType p"
  shows "OSTmr_Alloc s = (fst (OSTmr_Alloc s), Some t)" and "tmr_inv (upd_tmr t f (fst (OSTmr_Alloc s))) W fs"
proof -
  let ?a = "fst (OSTmr_Alloc s)"
  let ?s = "upd_tmr t f ?a"
  note inv' = tmr_invD [OF inv]
  have hd: "tmr_pool.holds s (t # fs)" and tu: "t < OS_TMR_CFG_MAX" "OSTmrState (OSTmrTbl s t) = OS_TMR_STATE_UNUSED"
    using inv'(2) by (auto simp: tmr_free_list_def)
  note al = tmr_pool.alloc_first [OF hd]
  have tf: "t \<notin> set fs" using tmr_pool.holds_distinct [OF hd] by simp
  show "OSTmr_Alloc s = (?a, Some t)" using al(1) by (simp add: prod_eq_iff)
  have h: "OSTmrFreeList s = Some t" using hd by (simp add: tmr_pool.holds_def)
  have u: "x \<noteq> t \<Longrightarrow> OSTmrTbl ?s x = OSTmrTbl s x" "OSTmrState (OSTmrTbl ?s t) = OS_TMR_STATE_STOPPED"
    "OSTmrType (OSTmrTbl ?s t) = OSTmrType (OSTmrTbl s t)" "OSTmrWheelTbl ?s = OSTmrWheelTbl s"
    "OSTmrFree ?s = OSTmrFree s - 1" "OSTmrUsed ?s = OSTmrUsed s + 1" "OSTmrFreeList ?s = OSTmrFreeList ?a" for x
    by (simp_all add: OSTmr_Alloc_def upd_tmr_def Let_def h f)
  have nr: "\<not> running s t" using tu by (simp add: running_def)
  have r: "running ?s x \<longleftrightarrow> running s x" for x using nr u(1) [of x] u(2) by (cases "x = t") (simp_all add: running_def)
  have w: "wheel ?s W"
    by (rule wheel_outside [OF inv'(1)]) (use nr r [of t] in \<open>auto simp: u\<close>)
  have "path (tmr_next ?s) (OSTmrFreeList ?s) fs"
    unfolding u(7) by (rule path_cong [OF _ al(2) [unfolded tmr_pool.holds_def]])
      (use tf in \<open>auto simp: tmr_next_def upd_tmr_def\<close>)
  moreover have "x \<in> set fs \<longleftrightarrow> x < OS_TMR_CFG_MAX \<and> OSTmrState (OSTmrTbl ?s x) = OS_TMR_STATE_UNUSED" for x
    using inv'(2) tf u(1) [of x] u(2) by (cases "x = t") (auto simp: tmr_free_list_def)
  ultimately have "tmr_free_list ?s fs"
    using inv'(2) by (simp add: tmr_free_list_def tmr_pool.holds_def u)
  moreover have "tmr_ok (OSTmrTbl ?s x)" "OSTmrType (OSTmrTbl ?s x) = OSTmrType (OSTmrTbl s x)" for x
    using inv'(3) [of x] u(1) [of x] u(2,3) by (cases "x = t"; simp add: tmr_ok_def)+
  ultimately show "tmr_inv ?s W fs" using w r by (intro tmr_invI [OF inv]) auto
qed

text \<open>Consistent timer tables.\<close>

definition tmr_good :: "os \<Rightarrow> bool" where "tmr_good s \<longleftrightarrow> (\<exists>W fs. tmr_inv s W fs)"

lemma tmr_goodI: "tmr_inv s W fs \<Longrightarrow> tmr_good s" by (auto simp: tmr_good_def)

lemma tmr_good_lock [simp]:
  "tmr_good (OSSchedLock s) = tmr_good s" "tmr_good (OSSchedUnlock s) = tmr_good s"
  by (simp_all add: tmr_good_def)

lemma tmr_good_cong: "tmrs s' = tmrs s \<Longrightarrow> tmr_good s' = tmr_good s"
  using tmr_inv_cong [of s' s] by (simp add: tmr_good_def)

lemma create_inv:
  assumes inv: "tmr_inv s W fs"
  shows "\<exists>fs'. tmr_inv (fst (OSTmrCreate dly period opt f arg pname s)) W fs'"
    and "OSTmrTime (fst (OSTmrCreate dly period opt f arg pname s)) = OSTmrTime s"
    and "running s x \<Longrightarrow> OSTmrTbl (fst (OSTmrCreate dly period opt f arg pname s)) x = OSTmrTbl s x"
proof -
  let ?l = "OSSchedLock s" and ?c = "OSTmrCreate dly period opt f arg pname s"
  have invl: "tmr_inv ?l W fs" using inv by simp
  have "(\<exists>fs'. tmr_inv (fst ?c) W fs') \<and> OSTmrTime (fst ?c) = OSTmrTime s \<and>
      (running s x \<longrightarrow> OSTmrTbl (fst ?c) x = OSTmrTbl s x)"
  proof (cases fs)
    case Nil
    then have "tmr_pool.holds ?l []" using tmr_invD(2) [OF invl] by (simp add: tmr_free_list_def)
    then have "OSTmr_Alloc ?l = (?l, None)" by (rule tmr_pool.alloc_empty)
    then show ?thesis using inv by (auto simp: OSTmrCreate_def Let_def)
  next
    case (Cons t gs)
    let ?f = "\<lambda>p. p\<lparr>OSTmrState := OS_TMR_STATE_STOPPED, OSTmrDly := dly,
                OSTmrPeriod := period, OSTmrOpt := opt, OSTmrCallback := f, OSTmrCallbackArg := arg,
                OSTmrName := (case pname of None \<Rightarrow> Some ''?'' | Some n \<Rightarrow> Some n)\<rparr>"
    let ?a = "fst (OSTmr_Alloc ?l)"
    have al: "OSTmr_Alloc ?l = (?a, Some t)" "tmr_inv (upd_tmr t ?f ?a) W gs"
      by (rule alloc_inv [OF invl [unfolded Cons], of ?f]; simp)+
    have "t \<in> set fs" by (simp add: Cons)
    then have nt: "\<not> running s t" using tmr_invD(2) [OF inv] by (rule free_not_running [rotated])
    have ta: "OSTmrTime ?a = OSTmrTime s" "x \<noteq> t \<Longrightarrow> OSTmrTbl ?a x = OSTmrTbl s x" for x
      using al(1) by (auto simp: OSTmr_Alloc_def Let_def upd_tmr_def split: option.splits)
    have "fst ?c = s \<or> fst ?c = OSSchedUnlock (upd_tmr t ?f ?a)"
      by (subst (1 2) OSTmrCreate_def, subst (1 2) al(1)) (simp add: Let_def)
    then show ?thesis using inv al(2) nt ta by (auto simp: upd_tmr_def)
  qed
  then show "\<exists>fs'. tmr_inv (fst ?c) W fs'" "OSTmrTime (fst ?c) = OSTmrTime s"
    "running s x \<Longrightarrow> OSTmrTbl (fst ?c) x = OSTmrTbl s x" by blast+
qed

lemma good_create: "tmr_good s \<Longrightarrow> tmr_good (fst (OSTmrCreate dly period opt f arg pname s))"
  unfolding tmr_good_def using create_inv(1) by blast

lemma tmr_guard_Inr: "tmr_guard p isr s = Inr t \<Longrightarrow> p = Some t \<and> OSTmrType (OSTmrTbl s t) = OS_TMR_TYPE \<and> OSIntNesting s = 0"
  by (auto simp: tmr_guard_def word_gt_0 split: option.splits if_splits)

lemma good_unlink: "tmr_good s \<Longrightarrow> running s t \<Longrightarrow> tmr_good (OSTmr_Unlink t s)"
  unfolding tmr_good_def by (blast intro: unlink_inv)

lemma good_link:
  "tmr_good s \<Longrightarrow> t < OS_TMR_CFG_MAX \<Longrightarrow> \<not> running s t \<Longrightarrow>
   OSTmrState (OSTmrTbl s t) \<noteq> OS_TMR_STATE_UNUSED \<Longrightarrow> tmr_good (OSTmr_Link t ty s)"
  unfolding tmr_good_def by (blast intro: link_inv [OF _ _ _ _ refl])

lemma good_free:
  "tmr_good s \<Longrightarrow> t < OS_TMR_CFG_MAX \<Longrightarrow> \<not> running s t \<Longrightarrow>
   OSTmrState (OSTmrTbl s t) \<noteq> OS_TMR_STATE_UNUSED \<Longrightarrow> tmr_good (OSTmr_Free t s)"
  unfolding tmr_good_def by (blast intro: free_inv)

lemma unlink_state: "OSTmrState (OSTmrTbl (OSTmr_Unlink t s) t) = OS_TMR_STATE_STOPPED"
  by (simp add: OSTmr_Unlink_def Let_def upd_tmr_def upd_spoke_def)

lemma unlink_stopped:
  "\<not> running (OSTmr_Unlink t s) t \<and> OSTmrState (OSTmrTbl (OSTmr_Unlink t s) t) \<noteq> OS_TMR_STATE_UNUSED"
  by (simp add: running_def unlink_state)

lemma good_type: "tmr_good s \<Longrightarrow> OSTmrType (OSTmrTbl s t) = OS_TMR_TYPE \<Longrightarrow> t < OS_TMR_CFG_MAX"
  by (auto simp: tmr_good_def dest: tmr_invD(4))

lemma good_del: "tmr_good s \<Longrightarrow> tmr_good (fst (OSTmrDel p s))"
  using good_free [OF good_unlink] good_free unlink_stopped good_type
  by (auto simp: OSTmrDel_def Let_def running_def dest!: tmr_guard_Inr split: sum.splits)

lemma good_start: "tmr_good s \<Longrightarrow> tmr_good (fst (OSTmrStart p s))"
  using good_link [OF good_unlink] good_link unlink_stopped good_type
  by (auto simp: OSTmrStart_def Let_def running_def dest!: tmr_guard_Inr split: sum.splits)

lemma good_get:
  "tmr_good (fst (OSTmrRemainGet p s)) = tmr_good s" "tmr_good (fst (OSTmrStateGet p s)) = tmr_good s"
  "tmr_good (fst (OSTmrNameGet p d s)) = tmr_good s"
  by (auto simp: OSTmrRemainGet_def OSTmrStateGet_def OSTmrNameGet_def Let_def split: sum.splits)

section \<open>The round of the timer task\<close>

text \<open>What the application sees of a timer, and what expiry at time \<open>now\<close> does to it.\<close>

definition tmr_view :: "os_tmr \<Rightarrow> INT8U \<times> INT32U" where
  "tmr_view p = (OSTmrState p, OSTmrMatch p)"

definition tmr_cfg :: "os_tmr \<Rightarrow> INT8U \<times> nat option \<times> voidp \<times> INT32U \<times> INT32U \<times> string option \<times> INT8U" where
  "tmr_cfg p = (OSTmrType p, OSTmrCallback p, OSTmrCallbackArg p, OSTmrDly p, OSTmrPeriod p, OSTmrName p, OSTmrOpt p)"

definition tmr_after :: "INT32U \<Rightarrow> os_tmr \<Rightarrow> INT8U \<times> INT32U" where
  "tmr_after now p =
     (if OSTmrMatch p = now
      then if OSTmrOpt p = OS_TMR_OPT_PERIODIC then (OS_TMR_STATE_RUNNING, OSTmrPeriod p + now)
           else (OS_TMR_STATE_COMPLETED, OSTmrMatch p)
      else tmr_view p)"

lemma unlink_view:
  assumes "wheel s W" and "running s t"
  shows "OSTmrTime (OSTmr_Unlink t s) = OSTmrTime s"
    and "tmr_cfg (OSTmrTbl (OSTmr_Unlink t s) x) = tmr_cfg (OSTmrTbl s x)"
    and "tmr_view (OSTmrTbl (OSTmr_Unlink t s) x) =
      (if x = t then (OS_TMR_STATE_STOPPED, OSTmrMatch (OSTmrTbl s t)) else tmr_view (OSTmrTbl s x))"
  by (simp_all add: OSTmr_Unlink_eq [OF assms] tmr_cfg_def tmr_view_def)

lemma link_view':
  assumes "wheel s W" and "\<not> running s t"
  shows "OSTmrTime (OSTmr_Link t ty s) = OSTmrTime s"
    and "tmr_cfg (OSTmrTbl (OSTmr_Link t ty s) x) = tmr_cfg (OSTmrTbl s x)"
    and "tmr_view (OSTmrTbl (OSTmr_Link t ty s) x) =
      (if x = t then (OS_TMR_STATE_RUNNING, link_match ty (OSTmrTime s) (OSTmrTbl s t)) else tmr_view (OSTmrTbl s x))"
  by (simp_all add: link_view [OF assms] tmr_cfg_def tmr_view_def)

text \<open>An expired timer leaves the spoke, and a periodic one goes to the spoke of its next expiry.\<close>

definition requeue :: "nat \<Rightarrow> os \<Rightarrow> os" where
  "requeue t s =
     (if OSTmrOpt (OSTmrTbl s t) = OS_TMR_OPT_PERIODIC then OSTmr_Link t OS_TMR_LINK_PERIODIC s
      else upd_tmr t (\<lambda>p. p\<lparr>OSTmrState := OS_TMR_STATE_COMPLETED\<rparr>) s)"

lemma expire_requeue:
  "OSTmr_Expire cb t s =
     (if OSTmrTime s = OSTmrMatch (OSTmrTbl s t)
      then let u = requeue t (OSTmr_Unlink t s)
           in (case OSTmrCallback (OSTmrTbl u t) of None \<Rightarrow> u | Some f \<Rightarrow> cb f t (OSTmrCallbackArg (OSTmrTbl u t)) u)
      else s)"
  by (simp add: OSTmr_Expire_def requeue_def Let_def)

lemma requeue_step:
  assumes inv: "tmr_inv s W fs" and t: "t < OS_TMR_CFG_MAX" "\<not> running s t"
      "OSTmrState (OSTmrTbl s t) \<noteq> OS_TMR_STATE_UNUSED" and W: "W i = xs @ ys"
  shows "\<exists>W' xs'. tmr_inv (requeue t s) W' fs \<and> W' i = xs' @ ys"
    and "OSTmrTime (requeue t s) = OSTmrTime s"
    and "tmr_cfg (OSTmrTbl (requeue t s) x) = tmr_cfg (OSTmrTbl s x)"
    and "tmr_view (OSTmrTbl (requeue t s) x) =
      (if x = t then if OSTmrOpt (OSTmrTbl s t) = OS_TMR_OPT_PERIODIC
           then (OS_TMR_STATE_RUNNING, OSTmrPeriod (OSTmrTbl s t) + OSTmrTime s)
           else (OS_TMR_STATE_COMPLETED, OSTmrMatch (OSTmrTbl s t))
       else tmr_view (OSTmrTbl s x))"
proof -
  note lv = link_view' [OF tmr_invD(1) [OF inv] t(2), of OS_TMR_LINK_PERIODIC]
  show "\<exists>W' xs'. tmr_inv (requeue t s) W' fs \<and> W' i = xs' @ ys"
  proof (cases "OSTmrOpt (OSTmrTbl s t) = OS_TMR_OPT_PERIODIC")
    case True
    let ?j = "tmr_spoke (link_match OS_TMR_LINK_PERIODIC (OSTmrTime s) (OSTmrTbl s t))"
    have "tmr_inv (requeue t s) (W(?j := t # W ?j)) fs"
      using link_inv [OF inv t refl, of OS_TMR_LINK_PERIODIC] True by (simp only: requeue_def if_True simp_thms)
    moreover have "(W(?j := t # W ?j)) i = (if ?j = i then t # xs else xs) @ ys" using W by auto
    ultimately show ?thesis by blast
  next
    case False
    have "tmr_inv (requeue t s) W fs" using False unfolding requeue_def by (auto intro: upd_tmr_inv [OF inv t(2,3)])
    then show ?thesis using W by blast
  qed
  show "OSTmrTime (requeue t s) = OSTmrTime s" "tmr_cfg (OSTmrTbl (requeue t s) x) = tmr_cfg (OSTmrTbl s x)"
    "tmr_view (OSTmrTbl (requeue t s) x) =
      (if x = t then if OSTmrOpt (OSTmrTbl s t) = OS_TMR_OPT_PERIODIC
           then (OS_TMR_STATE_RUNNING, OSTmrPeriod (OSTmrTbl s t) + OSTmrTime s)
           else (OS_TMR_STATE_COMPLETED, OSTmrMatch (OSTmrTbl s t))
       else tmr_view (OSTmrTbl s x))"
    using lv by (cases "OSTmrOpt (OSTmrTbl s t) = OS_TMR_OPT_PERIODIC";
        simp add: requeue_def upd_tmr_def link_match_def tmr_cfg_def; simp add: tmr_view_def)+
qed

section \<open>What callbacks may do\<close>

text \<open>
  \<open>spares t s s'\<close>: a change of the timers that keeps them consistent and the time, and leaves every running
  timer but \<open>t\<close> alone, so that these keep their places in the spokes, perhaps behind new ones.
\<close>

definition keeps_tail :: "nat \<Rightarrow> (nat \<Rightarrow> nat list) \<Rightarrow> (nat \<Rightarrow> nat list) \<Rightarrow> bool" where
  "keeps_tail t W W' \<longleftrightarrow> (\<forall>i xs ys. W i = xs @ ys \<and> t \<notin> set ys \<longrightarrow> (\<exists>xs'. W' i = xs' @ ys))"

definition same_timer :: "nat \<Rightarrow> os \<Rightarrow> os \<Rightarrow> bool" where
  "same_timer x s s' \<longleftrightarrow> tmr_cfg (OSTmrTbl s' x) = tmr_cfg (OSTmrTbl s x) \<and> tmr_view (OSTmrTbl s' x) = tmr_view (OSTmrTbl s x)"

definition spares :: "nat \<Rightarrow> os \<Rightarrow> os \<Rightarrow> bool" where
  "spares t s s' \<longleftrightarrow> (\<forall>W fs. tmr_inv s W fs \<longrightarrow> OSTmrTime s' = OSTmrTime s \<and>
     (\<exists>W' fs'. tmr_inv s' W' fs' \<and> keeps_tail t W W') \<and> (\<forall>x. x \<noteq> t \<and> running s x \<longrightarrow> same_timer x s s'))"

lemma keeps_tail_refl [simp]: "keeps_tail t W W"
  by (simp add: keeps_tail_def)

lemma keeps_tail_trans: "keeps_tail t W V \<Longrightarrow> keeps_tail t V U \<Longrightarrow> keeps_tail t W U"
  unfolding keeps_tail_def by metis

lemma keeps_tail_push: "keeps_tail t W (W(i := u # W i))"
  unfolding keeps_tail_def
proof (intro allI impI)
  fix j xs ys assume "W j = xs @ ys \<and> t \<notin> set ys"
  then have "(W(i := u # W i)) j = (if j = i then u # xs else xs) @ ys" by auto
  then show "\<exists>xs'. (W(i := u # W i)) j = xs' @ ys" by blast
qed

lemma keeps_tail_remove: "keeps_tail t W (W(i := remove1 t (W i)))"
  unfolding keeps_tail_def
proof (intro allI impI)
  fix j xs ys assume w: "W j = xs @ ys \<and> t \<notin> set ys"
  have "remove1 t (xs @ ys) = remove1 t xs @ ys" using w by (simp add: remove1_append remove1_idem)
  then have "(W(i := remove1 t (W i))) j = (if j = i then remove1 t xs else xs) @ ys" using w by auto
  then show "\<exists>xs'. (W(i := remove1 t (W i))) j = xs' @ ys" by blast
qed

lemma same_timer_running: "same_timer x s s' \<Longrightarrow> running s' x = running s x"
  by (simp add: same_timer_def tmr_view_def running_def)

lemma same_timer_trans: "same_timer x s u \<Longrightarrow> same_timer x u v \<Longrightarrow> same_timer x s v"
  by (simp add: same_timer_def)

lemma sparesD:
  assumes "spares t s s'" and "tmr_inv s W fs"
  shows "OSTmrTime s' = OSTmrTime s" and "\<exists>W' fs'. tmr_inv s' W' fs' \<and> keeps_tail t W W'"
    and "x \<noteq> t \<Longrightarrow> running s x \<Longrightarrow> same_timer x s s'"
  using assms unfolding spares_def by blast+

lemma sparesI:
  assumes "\<And>W fs. tmr_inv s W fs \<Longrightarrow> OSTmrTime s' = OSTmrTime s"
    and "\<And>W fs. tmr_inv s W fs \<Longrightarrow> \<exists>W' fs'. tmr_inv s' W' fs' \<and> keeps_tail t W W'"
    and "\<And>W fs x. tmr_inv s W fs \<Longrightarrow> x \<noteq> t \<Longrightarrow> running s x \<Longrightarrow> same_timer x s s'"
  shows "spares t s s'"
  unfolding spares_def using assms by blast

lemma spares_good: "spares t s s' \<Longrightarrow> tmr_good s \<Longrightarrow> tmr_good s'"
  unfolding spares_def tmr_good_def by blast

lemma spares_other: "tmrs s' = tmrs s \<Longrightarrow> OSTmrTime s' = OSTmrTime s \<Longrightarrow> spares t s s'"
  using tmr_inv_cong [of s' s] keeps_tail_refl by (fastforce simp: spares_def tmrs_def same_timer_def)

lemma spares_trans:
  assumes a: "spares t s u" and b: "spares t u v"
  shows "spares t s v"
  unfolding spares_def
proof (intro allI impI)
  fix W fs assume inv: "tmr_inv s W fs"
  note A = sparesD [OF a inv]
  obtain U gs where u: "tmr_inv u U gs" "keeps_tail t W U" using A(2) by blast
  note B = sparesD [OF b u(1)]
  have "same_timer x s v" if "x \<noteq> t \<and> running s x" for x
    using that A(3) [of x] B(3) [of x] same_timer_running same_timer_trans by blast
  then show "OSTmrTime v = OSTmrTime s \<and> (\<exists>W' fs'. tmr_inv v W' fs' \<and> keeps_tail t W W') \<and>
      (\<forall>x. x \<noteq> t \<and> running s x \<longrightarrow> same_timer x s v)"
    using A(1) B(1,2) keeps_tail_trans [OF u(2)] by auto
qed

lemma spares_lock [simp]: "spares t s (OSSchedLock s)" "spares t s (OSSchedUnlock s)"
  by (simp_all add: spares_other)

lemma spares_unlink:
  assumes r: "running s t"
  shows "spares t s (OSTmr_Unlink t s)"
proof (rule sparesI)
  fix W fs assume inv: "tmr_inv s W fs"
  note v = unlink_view [OF tmr_invD(1) [OF inv] r]
  show "OSTmrTime (OSTmr_Unlink t s) = OSTmrTime s" by (rule v(1))
  show "\<exists>W' fs'. tmr_inv (OSTmr_Unlink t s) W' fs' \<and> keeps_tail t W W'"
    using unlink_inv [OF inv r] keeps_tail_remove by blast
  show "same_timer x s (OSTmr_Unlink t s)" if "x \<noteq> t" for x using that v(2,3) by (simp add: same_timer_def)
qed

lemma spares_link:
  assumes r: "\<not> running s u" "OSTmrState (OSTmrTbl s u) \<noteq> OS_TMR_STATE_UNUSED" and ty: "OSTmrType (OSTmrTbl s u) = OS_TMR_TYPE"
  shows "spares t s (OSTmr_Link u k s)"
proof (rule sparesI)
  fix W fs assume inv: "tmr_inv s W fs"
  note v = link_view' [OF tmr_invD(1) [OF inv] r(1), of k]
  have "u < OS_TMR_CFG_MAX" using tmr_invD(4) [OF inv, of u] ty by blast
  then show "\<exists>W' fs'. tmr_inv (OSTmr_Link u k s) W' fs' \<and> keeps_tail t W W'"
    using link_inv [OF inv _ r refl, of k] keeps_tail_push by blast
  show "OSTmrTime (OSTmr_Link u k s) = OSTmrTime s" by (rule v(1))
  show "same_timer x s (OSTmr_Link u k s)" if "running s x" for x
    using that r(1) v(2,3) by (auto simp: same_timer_def)
qed

lemma spares_free:
  assumes r: "\<not> running s u" "OSTmrState (OSTmrTbl s u) \<noteq> OS_TMR_STATE_UNUSED" and ty: "OSTmrType (OSTmrTbl s u) = OS_TMR_TYPE"
  shows "spares t s (OSTmr_Free u s)"
proof (rule sparesI)
  fix W fs assume inv: "tmr_inv s W fs"
  have "u < OS_TMR_CFG_MAX" using tmr_invD(4) [OF inv, of u] ty by blast
  then show "\<exists>W' fs'. tmr_inv (OSTmr_Free u s) W' fs' \<and> keeps_tail t W W'"
    using free_inv [OF inv _ r] keeps_tail_refl by blast
  show "OSTmrTime (OSTmr_Free u s) = OSTmrTime s" by (simp add: OSTmr_Free_def upd_tmr_def Let_def)
  show "same_timer x s (OSTmr_Free u s)" if "running s x" for x
    using that r(1) by (auto simp: same_timer_def OSTmr_Free_def upd_tmr_def Let_def)
qed

lemma spares_requeue:
  assumes r: "\<not> running s u" "OSTmrState (OSTmrTbl s u) \<noteq> OS_TMR_STATE_UNUSED" and ty: "OSTmrType (OSTmrTbl s u) = OS_TMR_TYPE"
  shows "spares t s (requeue u s)"
proof (cases "OSTmrOpt (OSTmrTbl s u) = OS_TMR_OPT_PERIODIC")
  case True
  then show ?thesis using spares_link [OF assms] by (simp add: requeue_def)
next
  case False
  let ?s = "upd_tmr u (\<lambda>p. p\<lparr>OSTmrState := OS_TMR_STATE_COMPLETED\<rparr>) s"
  have "spares t s ?s"
  proof (rule sparesI)
    fix W fs assume inv: "tmr_inv s W fs"
    have "tmr_inv ?s W fs" by (rule upd_tmr_inv [OF inv r]) simp_all
    then show "\<exists>W' fs'. tmr_inv ?s W' fs' \<and> keeps_tail t W W'" using keeps_tail_refl by blast
    show "OSTmrTime ?s = OSTmrTime s" by (simp add: upd_tmr_def)
    show "same_timer x s ?s" if "running s x" for x using that r(1) by (auto simp: same_timer_def upd_tmr_def)
  qed
  then show ?thesis using False by (simp add: requeue_def)
qed

lemma Unlink_type [simp]: "OSTmrType (OSTmrTbl (OSTmr_Unlink t s) x) = OSTmrType (OSTmrTbl s x)"
  by (simp add: OSTmr_Unlink_def Let_def upd_tmr_def upd_spoke_def split: option.split)

text \<open>The services, called by anybody or for the timer \<open>t\<close> itself.\<close>

definition not_another :: "nat \<Rightarrow> nat option \<Rightarrow> os \<Rightarrow> bool" where
  "not_another t p s \<longleftrightarrow> (\<forall>u. p = Some u \<and> running s u \<longrightarrow> u = t)"

lemma spares_create: "spares t s (fst (OSTmrCreate dly period opt f arg pname s))"
proof (rule sparesI)
  fix W fs assume inv: "tmr_inv s W fs"
  note c = create_inv [OF inv]
  show "\<exists>W' fs'. tmr_inv (fst (OSTmrCreate dly period opt f arg pname s)) W' fs' \<and> keeps_tail t W W'"
    using c(1) keeps_tail_refl by blast
  show "OSTmrTime (fst (OSTmrCreate dly period opt f arg pname s)) = OSTmrTime s" by (rule c(2))
  show "same_timer x s (fst (OSTmrCreate dly period opt f arg pname s))" if "running s x" for x
    using c(3) [OF that] by (simp add: same_timer_def)
qed

lemma spares_start:
  assumes "not_another t p s"
  shows "spares t s (fst (OSTmrStart p s))"
proof (cases "tmr_guard p OS_ERR_TMR_ISR s")
  case (Inl e)
  then show ?thesis by (simp add: OSTmrStart_def spares_other)
next
  case (Inr u)
  note g = tmr_guard_Inr [OF Inr]
  let ?l = "OSSchedLock s"
  consider (run) "running s u" | (idle) "OSTmrState (OSTmrTbl s u) = OS_TMR_STATE_STOPPED \<or> OSTmrState (OSTmrTbl s u) = OS_TMR_STATE_COMPLETED"
    | (none) "\<not> running s u" "OSTmrState (OSTmrTbl s u) \<noteq> OS_TMR_STATE_STOPPED" "OSTmrState (OSTmrTbl s u) \<noteq> OS_TMR_STATE_COMPLETED"
    by blast
  then show ?thesis
  proof cases
    case run
    then have u: "u = t" "running ?l t" using assms g by (auto simp: not_another_def running_def)
    have "spares t ?l (OSTmr_Link t OS_TMR_LINK_DLY (OSTmr_Unlink t ?l))"
      using u(1) g unlink_stopped by (intro spares_trans [OF spares_unlink [OF u(2)] spares_link]) simp_all
    then have "spares t s (OSSchedUnlock (OSTmr_Link t OS_TMR_LINK_DLY (OSTmr_Unlink t ?l)))"
      using spares_trans spares_lock by blast
    then show ?thesis using Inr run u(1) by (simp add: OSTmrStart_def Let_def running_def)
  next
    case idle
    then have "spares t ?l (OSTmr_Link u OS_TMR_LINK_DLY ?l)" using g by (intro spares_link) (auto simp: running_def)
    then have "spares t s (OSSchedUnlock (OSTmr_Link u OS_TMR_LINK_DLY ?l))" using spares_trans spares_lock by blast
    then show ?thesis using Inr idle by (auto simp: OSTmrStart_def Let_def)
  next
    case none
    then show ?thesis using Inr by (auto simp: OSTmrStart_def Let_def running_def intro: spares_other)
  qed
qed

lemma spares_del:
  assumes "not_another t p s"
  shows "spares t s (fst (OSTmrDel p s))"
proof (cases "tmr_guard p OS_ERR_TMR_ISR s")
  case (Inl e)
  then show ?thesis by (simp add: OSTmrDel_def spares_other)
next
  case (Inr u)
  note g = tmr_guard_Inr [OF Inr]
  let ?l = "OSSchedLock s"
  consider (run) "running s u" | (idle) "OSTmrState (OSTmrTbl s u) = OS_TMR_STATE_STOPPED \<or> OSTmrState (OSTmrTbl s u) = OS_TMR_STATE_COMPLETED"
    | (none) "\<not> running s u" "OSTmrState (OSTmrTbl s u) \<noteq> OS_TMR_STATE_STOPPED" "OSTmrState (OSTmrTbl s u) \<noteq> OS_TMR_STATE_COMPLETED"
    by blast
  then show ?thesis
  proof cases
    case run
    then have u: "u = t" "running ?l t" using assms g by (auto simp: not_another_def running_def)
    have "spares t ?l (OSTmr_Free t (OSTmr_Unlink t ?l))"
      using u(1) g unlink_stopped by (intro spares_trans [OF spares_unlink [OF u(2)] spares_free]) simp_all
    then have "spares t s (OSSchedUnlock (OSTmr_Free t (OSTmr_Unlink t ?l)))"
      using spares_trans spares_lock by blast
    then show ?thesis using Inr run u(1) by (simp add: OSTmrDel_def Let_def running_def)
  next
    case idle
    then have "spares t ?l (OSTmr_Free u ?l)" using g by (intro spares_free) (auto simp: running_def)
    then have "spares t s (OSSchedUnlock (OSTmr_Free u ?l))" using spares_trans spares_lock by blast
    then show ?thesis using Inr idle by (auto simp: OSTmrDel_def Let_def)
  next
    case none
    then show ?thesis using Inr by (auto simp: OSTmrDel_def Let_def running_def intro: spares_other)
  qed
qed

lemma spares_stop:
  assumes na: "not_another t p s" and cb: "\<And>f u arg v. p = Some u \<Longrightarrow> spares t v (cb f u arg v)"
  shows "spares t s (fst (OSTmrStop cb p opt arg s))"
proof (cases "tmr_guard p OS_ERR_TMR_ISR s")
  case (Inl e)
  then show ?thesis by (simp add: OSTmrStop_def spares_other)
next
  case (Inr u)
  note g = tmr_guard_Inr [OF Inr]
  let ?l = "OSSchedLock s"
  show ?thesis
  proof (cases "running s u")
    case True
    then have u: "u = t" "running ?l t" using na g by (auto simp: not_another_def running_def)
    have c: "spares t s (OSSchedUnlock (OSTmr_Unlink t ?l))"
      "spares t s (OSSchedUnlock (cb f t a (OSTmr_Unlink t ?l)))" for f a
      using spares_trans [OF spares_trans [OF spares_lock(1) spares_unlink [OF u(2)]]] cb g u(1) spares_trans spares_lock
      by metis+
    then show ?thesis using Inr True u(1) by (auto simp: OSTmrStop_def Let_def running_def split: option.splits)
  next
    case False
    then show ?thesis using Inr by (auto simp: OSTmrStop_def Let_def running_def intro: spares_other)
  qed
qed

lemma tmrs_get:
  "tmrs (fst (OSTmrRemainGet p s)) = tmrs s \<and> OSTmrTime (fst (OSTmrRemainGet p s)) = OSTmrTime s"
  "tmrs (fst (OSTmrStateGet p s)) = tmrs s \<and> OSTmrTime (fst (OSTmrStateGet p s)) = OSTmrTime s"
  "tmrs (fst (OSTmrNameGet p d s)) = tmrs s \<and> OSTmrTime (fst (OSTmrNameGet p d s)) = OSTmrTime s"
  by (auto simp: OSTmrRemainGet_def OSTmrStateGet_def OSTmrNameGet_def Let_def split: sum.splits)

text \<open>
  \<open>polite t s s'\<close>: any sequence of calls of timer services and of work that leaves the timers alone, in which
  no running timer but \<open>t\<close> is started, stopped or deleted.  A callback is polite when all it does is
  polite for the timer that called it.
\<close>

inductive polite :: "nat \<Rightarrow> os \<Rightarrow> os \<Rightarrow> bool" for t s where
  refl: "polite t s s"
| create: "polite t s u \<Longrightarrow> polite t s (fst (OSTmrCreate dly period opt f arg pname u))"
| start: "polite t s u \<Longrightarrow> not_another t p u \<Longrightarrow> polite t s (fst (OSTmrStart p u))"
| stop: "polite t s u \<Longrightarrow> not_another t p u \<Longrightarrow> polite t s (fst (OSTmrStop (\<lambda>f x arg v. v) p OS_TMR_OPT_NONE arg u))"
| del: "polite t s u \<Longrightarrow> not_another t p u \<Longrightarrow> polite t s (fst (OSTmrDel p u))"
| other: "polite t s u \<Longrightarrow> tmrs v = tmrs u \<Longrightarrow> OSTmrTime v = OSTmrTime u \<Longrightarrow> polite t s v"

definition polite_callbacks :: "callbacks \<Rightarrow> bool" where
  "polite_callbacks cb \<longleftrightarrow> (\<forall>f t arg s. polite t s (cb f t arg s))"

lemma polite_spares: "polite t s s' \<Longrightarrow> spares t s s'"
proof (induction rule: polite.induct)
  case refl
  show ?case by (simp add: spares_other)
qed (blast intro: spares_trans spares_create spares_start spares_del spares_other spares_stop [OF _ spares_other])+

lemma callback_spares: "polite_callbacks cb \<Longrightarrow> spares t s (cb f t arg s)"
  by (simp add: polite_callbacks_def polite_spares)

text \<open>No callback changes timer \<open>t\<close>.\<close>

definition untouched :: "callbacks \<Rightarrow> nat \<Rightarrow> bool" where
  "untouched cb t \<longleftrightarrow> (\<forall>f u arg s. same_timer t s (cb f u arg s))"

section \<open>The walk along a spoke\<close>

text \<open>One timer of a spoke: those after it stay behind it, and no other running timer changes.\<close>

lemma expire_spares:
  assumes r: "running s t" and ty: "OSTmrType (OSTmrTbl s t) = OS_TMR_TYPE" and cb: "polite_callbacks cb"
  shows "spares t s (OSTmr_Expire cb t s)"
proof (cases "OSTmrTime s = OSTmrMatch (OSTmrTbl s t)")
  case True
  let ?u = "requeue t (OSTmr_Unlink t s)"
  have "spares t s ?u"
    using ty unlink_stopped by (intro spares_trans [OF spares_unlink [OF r] spares_requeue]) simp_all
  then have "spares t s (cb f t arg ?u)" for f arg using spares_trans callback_spares [OF cb] by blast
  with \<open>spares t s ?u\<close> show ?thesis using True by (simp add: expire_requeue Let_def split: option.split)
next
  case False
  then show ?thesis by (simp add: OSTmr_Expire_def spares_other)
qed

lemma expire_view:
  assumes inv: "tmr_inv s W fs" and r: "running s t" and un: "untouched cb x"
  shows "tmr_cfg (OSTmrTbl (OSTmr_Expire cb t s) x) = tmr_cfg (OSTmrTbl s x)"
    and "tmr_view (OSTmrTbl (OSTmr_Expire cb t s) x) =
      (if x = t then tmr_after (OSTmrTime s) (OSTmrTbl s t) else tmr_view (OSTmrTbl s x))"
proof -
  let ?due = "OSTmrTime s = OSTmrMatch (OSTmrTbl s t)" and ?u = "OSTmr_Unlink t s"
  note w = tmr_invD(1) [OF inv] and ui = unlink_inv [OF inv r]
  note un' = conjunct1 [OF unlink_stopped [of t s]] conjunct2 [OF unlink_stopped [of t s]]
  note uv = unlink_view [OF w r] and rq = requeue_step [OF ui tmr_invD(5) [OF inv r] un' append_Nil [symmetric]]
  have same: "OSTmrMatch (OSTmrTbl ?u t) = OSTmrMatch (OSTmrTbl s t)" "OSTmrOpt (OSTmrTbl ?u t) = OSTmrOpt (OSTmrTbl s t)"
    "OSTmrPeriod (OSTmrTbl ?u t) = OSTmrPeriod (OSTmrTbl s t)"
    using uv(2,3) [of t] by (simp_all add: tmr_cfg_def tmr_view_def)
  have e: "tmr_cfg (OSTmrTbl (OSTmr_Expire cb t s) x) = tmr_cfg (OSTmrTbl (requeue t ?u) x)"
    "tmr_view (OSTmrTbl (OSTmr_Expire cb t s) x) = tmr_view (OSTmrTbl (requeue t ?u) x)" if ?due
    using that un by (simp_all add: expire_requeue Let_def untouched_def same_timer_def split: option.split)
  show "tmr_cfg (OSTmrTbl (OSTmr_Expire cb t s) x) = tmr_cfg (OSTmrTbl s x)"
    using e(1) rq(3) uv(2) by (cases ?due) (simp_all add: OSTmr_Expire_def)
  show "tmr_view (OSTmrTbl (OSTmr_Expire cb t s) x) =
      (if x = t then tmr_after (OSTmrTime s) (OSTmrTbl s t) else tmr_view (OSTmrTbl s x))"
  proof (cases ?due)
    case True
    then show ?thesis using e(2) [OF True] rq(4) [of x] uv(1) uv(3) [of x] same by (simp add: tmr_after_def)
  next
    case False
    then have "OSTmrMatch (OSTmrTbl s t) \<noteq> OSTmrTime s" by auto
    then show ?thesis using False by (simp add: tmr_after_def OSTmr_Expire_def)
  qed
qed

text \<open>The step of the walk in the spoke \<open>i\<close>.\<close>

lemma expire_step:
  assumes inv: "tmr_inv s W fs" and cb: "polite_callbacks cb" and W: "W i = xs @ t # ys"
  shows "\<exists>W' fs' xs'. tmr_inv (OSTmr_Expire cb t s) W' fs' \<and> W' i = xs' @ ys"
    and "OSTmrTime (OSTmr_Expire cb t s) = OSTmrTime s" and "running s t" and "t \<notin> set ys"
    and "x \<noteq> t \<or> OSTmrMatch (OSTmrTbl s t) \<noteq> OSTmrTime s \<Longrightarrow> running s x \<Longrightarrow> same_timer x s (OSTmr_Expire cb t s)"
proof -
  have w: "wheel s W" by (rule tmr_invD(1) [OF inv])
  show r: "running s t" using wheelD(3) [OF w, of t i] W by simp
  have "distinct (xs @ t # ys)" using dpath_distinct [OF wheelD(1) [OF w, of i]] W by simp
  then show nt: "t \<notin> set ys" by simp
  have ty: "OSTmrType (OSTmrTbl s t) = OS_TMR_TYPE" using tmr_invD(4,5) [OF inv, of t] r by blast
  note sp = sparesD [OF expire_spares [OF r ty cb] inv]
  obtain W' fs' where w': "tmr_inv (OSTmr_Expire cb t s) W' fs'" "keeps_tail t W W'" using sp(2) by blast
  have "W i = (xs @ [t]) @ ys" using W by simp
  then obtain xs' where "W' i = xs' @ ys" using w'(2) nt unfolding keeps_tail_def by blast
  then show "\<exists>W' fs' xs'. tmr_inv (OSTmr_Expire cb t s) W' fs' \<and> W' i = xs' @ ys" using w'(1) by blast
  show "OSTmrTime (OSTmr_Expire cb t s) = OSTmrTime s" by (rule sp(1))
  show "x \<noteq> t \<or> OSTmrMatch (OSTmrTbl s t) \<noteq> OSTmrTime s \<Longrightarrow> running s x \<Longrightarrow> same_timer x s (OSTmr_Expire cb t s)"
    using sp(3) [of x] by (cases "x = t") (auto simp: OSTmr_Expire_def same_timer_def)
qed

text \<open>The walk along a spoke treats each of its timers once, in the order of the list.\<close>

lemma walk_fold:
  assumes cb: "polite_callbacks cb"
  shows "tmr_inv s W fs \<Longrightarrow> W i = xs @ ys \<Longrightarrow>
    OSTmr_Walk cb (case ys of [] \<Rightarrow> None | t # _ \<Rightarrow> Some t) s = Some (fold (OSTmr_Expire cb) ys s)"
proof (induction ys arbitrary: s W fs xs)
  case Nil
  then show ?case by (simp add: OSTmr_Walk_def while_option_unfold)
next
  case (Cons t ys)
  note st = expire_step [OF Cons.prems(1) cb Cons.prems(2)]
  obtain W' fs' xs' where w': "tmr_inv (OSTmr_Expire cb t s) W' fs'" "W' i = xs' @ ys" using st(1) by blast
  have "OSTmrNext (OSTmrTbl s t) = (case ys of [] \<Rightarrow> None | t # _ \<Rightarrow> Some t)"
    using dpath_next [OF wheelD(1) [OF tmr_invD(1) [OF Cons.prems(1)], of i, unfolded Cons.prems(2)]]
    by (simp add: tmr_next_def)
  then have "OSTmr_Walk cb (Some t) s = OSTmr_Walk cb (case ys of [] \<Rightarrow> None | t # _ \<Rightarrow> Some t) (OSTmr_Expire cb t s)"
    by (simp add: OSTmr_Walk_def while_option_unfold)
  then show ?case using Cons.IH [OF w'] by simp
qed

lemma fold_expire:
  assumes cb: "polite_callbacks cb"
  shows "tmr_inv s W fs \<Longrightarrow> W i = xs @ ys \<Longrightarrow>
    tmr_good (fold (OSTmr_Expire cb) ys s) \<and> OSTmrTime (fold (OSTmr_Expire cb) ys s) = OSTmrTime s \<and>
    (running s x \<and> (x \<in> set ys \<longrightarrow> OSTmrMatch (OSTmrTbl s x) \<noteq> OSTmrTime s) \<longrightarrow> same_timer x s (fold (OSTmr_Expire cb) ys s)) \<and>
    (untouched cb x \<longrightarrow> tmr_cfg (OSTmrTbl (fold (OSTmr_Expire cb) ys s) x) = tmr_cfg (OSTmrTbl s x) \<and>
       tmr_view (OSTmrTbl (fold (OSTmr_Expire cb) ys s) x) =
         (if x \<in> set ys then tmr_after (OSTmrTime s) (OSTmrTbl s x) else tmr_view (OSTmrTbl s x)))"
proof (induction ys arbitrary: s W fs xs)
  case Nil
  then show ?case by (auto intro: tmr_goodI simp: same_timer_def)
next
  case (Cons t ys)
  let ?s = "OSTmr_Expire cb t s"
  note st = expire_step [OF Cons.prems(1) cb Cons.prems(2)]
  obtain W' fs' xs' where w': "tmr_inv ?s W' fs'" "W' i = xs' @ ys" using st(1) by blast
  note ih = Cons.IH [OF w', unfolded st(2)]
  let ?f = "fold (OSTmr_Expire cb) ys ?s"
  have "same_timer x s ?f" if r: "running s x" "x \<in> set (t # ys) \<longrightarrow> OSTmrMatch (OSTmrTbl s x) \<noteq> OSTmrTime s"
  proof -
    have sx: "same_timer x s ?s" using st(5) [of x] r by auto
    then have "OSTmrMatch (OSTmrTbl ?s x) = OSTmrMatch (OSTmrTbl s x)" by (simp add: same_timer_def tmr_view_def)
    then show ?thesis using ih sx r same_timer_running [OF sx] same_timer_trans [OF sx] by auto
  qed
  moreover have "tmr_cfg (OSTmrTbl ?f x) = tmr_cfg (OSTmrTbl s x) \<and> tmr_view (OSTmrTbl ?f x) =
      (if x \<in> set (t # ys) then tmr_after (OSTmrTime s) (OSTmrTbl s x) else tmr_view (OSTmrTbl s x))"
    if un: "untouched cb x"
  proof -
    note v = expire_view [OF Cons.prems(1) st(3) un]
    have "tmr_after (OSTmrTime s) (OSTmrTbl ?s x) = tmr_after (OSTmrTime s) (OSTmrTbl s x)" if "x \<noteq> t"
      using v that by (simp add: tmr_after_def tmr_cfg_def tmr_view_def)
    then show ?thesis using ih un v st(4) by auto
  qed
  ultimately show ?case using ih by auto
qed

text \<open>One round, with the spoke of the new time.\<close>

lemma round_eq:
  assumes inv: "tmr_inv s W fs" and cb: "polite_callbacks cb"
  shows "OSTmr_Round cb s = Some (OSSchedUnlock
    (fold (OSTmr_Expire cb) (W (tmr_spoke (OSTmrTime s + 1))) ((OSSchedLock s)\<lparr>OSTmrTime := OSTmrTime s + 1\<rparr>)))"
proof -
  let ?s = "(OSSchedLock s)\<lparr>OSTmrTime := OSTmrTime s + 1\<rparr>" and ?i = "tmr_spoke (OSTmrTime s + 1)"
  have i': "tmr_inv ?s W fs" using inv by simp
  have "OSTmrFirst (OSTmrWheelTbl s ?i) = (case W ?i of [] \<Rightarrow> None | t # _ \<Rightarrow> Some t)"
    using wheelD(1) [OF tmr_invD(1) [OF inv], of ?i] by (cases "W ?i") auto
  then show ?thesis using walk_fold [OF cb i', of ?i "[]" "W ?i"] by (simp add: OSTmr_Round_def Let_def)
qed

lemma round_effect:
  assumes g: "tmr_good s" and cb: "polite_callbacks cb"
  shows "\<exists>s'. OSTmr_Round cb s = Some s' \<and> tmr_good s' \<and> OSTmrTime s' = OSTmrTime s + 1 \<and>
    (\<forall>t. running s t \<and> OSTmrMatch (OSTmrTbl s t) \<noteq> OSTmrTime s + 1 \<longrightarrow> same_timer t s s') \<and>
    (\<forall>t. untouched cb t \<longrightarrow> tmr_cfg (OSTmrTbl s' t) = tmr_cfg (OSTmrTbl s t) \<and>
      tmr_view (OSTmrTbl s' t) =
        (if running s t then tmr_after (OSTmrTime s + 1) (OSTmrTbl s t) else tmr_view (OSTmrTbl s t)))"
proof -
  obtain W fs where inv: "tmr_inv s W fs" using g by (auto simp: tmr_good_def)
  let ?s = "(OSSchedLock s)\<lparr>OSTmrTime := OSTmrTime s + 1\<rparr>" and ?i = "tmr_spoke (OSTmrTime s + 1)"
  note w = tmr_invD(1) [OF inv]
  have i': "tmr_inv ?s W fs" using inv by simp
  have tt: "OSTmrTime ?s = OSTmrTime s + 1" "OSTmrTbl ?s = OSTmrTbl s" by simp_all
  have rt: "running ?s t = running s t" for t by (simp add: running_def)
  note f = fold_expire [OF cb i' append_Nil [symmetric, of "W ?i"], unfolded tt rt]
  let ?f = "fold (OSTmr_Expire cb) (W ?i) ?s"
  have r: "OSTmr_Round cb s = Some (OSSchedUnlock ?f)" by (rule round_eq [OF inv cb])
  have "same_timer t s (OSSchedUnlock ?f)" if "running s t" "OSTmrMatch (OSTmrTbl s t) \<noteq> OSTmrTime s + 1" for t
    using f [of t] that by (simp add: same_timer_def)
  moreover have "tmr_cfg (OSTmrTbl ?f t) = tmr_cfg (OSTmrTbl s t) \<and> tmr_view (OSTmrTbl ?f t) =
      (if running s t then tmr_after (OSTmrTime s + 1) (OSTmrTbl s t) else tmr_view (OSTmrTbl s t))"
    if un: "untouched cb t" for t
  proof -
    have "tmr_after (OSTmrTime s + 1) (OSTmrTbl s t) = tmr_view (OSTmrTbl s t)" if "t \<notin> set (W ?i)" "running s t"
      using that wheelD(3) [OF w, of t ?i] by (auto simp: tmr_after_def spoke_of_def)
    moreover have "running s t" if "t \<in> set (W ?i)" using that wheelD(3) [OF w, of t ?i] by simp
    ultimately show ?thesis using f [of t] un by auto
  qed
  ultimately show ?thesis using f [of 0] by (simp add: r)
qed

text \<open>C23: one round of the timer task always ends, when the callbacks of the application are polite: they may
  leave the timers alone or create, start, stop (with no callback of the stop) and delete timers, their own or
  such as do not run, but start, stop and delete no other running timer (what happens else is the theorem
  \<open>stop_in_callback_unlinks_twice\<close>).  The round advances the time by one.  Every running timer that is not
  due at the new time stays as it is, although callbacks run and only one of the seven spokes is searched.
  Every timer that no callback changes expires exactly when it is running and due: a one-shot timer
  completes, a periodic one goes on running towards one period later, and any other is as it was.  The wheel
  and the free list stay consistent.\<close>

theorem OSTmr_Round_expires:
  assumes "tmr_good s" and "polite_callbacks cb"
  shows "\<exists>s'. OSTmr_Round cb s = Some s' \<and> tmr_good s' \<and> OSTmrTime s' = OSTmrTime s + 1 \<and>
    (\<forall>t. running s t \<and> OSTmrMatch (OSTmrTbl s t) \<noteq> OSTmrTime s + 1 \<longrightarrow> same_timer t s s') \<and>
    (\<forall>t. untouched cb t \<longrightarrow> tmr_cfg (OSTmrTbl s' t) = tmr_cfg (OSTmrTbl s t) \<and>
      tmr_view (OSTmrTbl s' t) =
        (if running s t then tmr_after (OSTmrTime s + 1) (OSTmrTbl s t) else tmr_view (OSTmrTbl s t)))"
  by (rule round_effect [OF assms])

section \<open>Expiry on time\<close>

text \<open>What \<open>OSTmrStart\<close> leaves: the timer runs and expires after its delay, its period without one.\<close>

lemma start_view:
  assumes g: "tmr_good s" and t: "t < OS_TMR_CFG_MAX" "OSTmrState (OSTmrTbl s t) \<noteq> OS_TMR_STATE_UNUSED"
    and isr: "OSIntNesting s = 0"
  shows "tmr_cfg (OSTmrTbl (fst (OSTmrStart (Some t) s)) x) = tmr_cfg (OSTmrTbl s x) \<and>
    OSTmrTime (fst (OSTmrStart (Some t) s)) = OSTmrTime s \<and>
    tmr_view (OSTmrTbl (fst (OSTmrStart (Some t) s)) x) =
      (if x = t then (OS_TMR_STATE_RUNNING, link_match OS_TMR_LINK_DLY (OSTmrTime s) (OSTmrTbl s t))
       else tmr_view (OSTmrTbl s x)) \<and>
    snd (OSTmrStart (Some t) s) = (True, OS_ERR_NONE)"
proof -
  let ?l = "OSSchedLock s"
  obtain W fs where inv: "tmr_inv ?l W fs" using g by (auto simp: tmr_good_def)
  note inv' = tmr_invD [OF inv]
  have gd: "tmr_guard (Some t) OS_ERR_TMR_ISR s = Inr t" using inv'(4) [of t] t(1) isr by (simp add: tmr_guard_def)
  have ok: "tmr_ok (OSTmrTbl s t)" using inv'(3) [of t] by simp
  show ?thesis
  proof (cases "running s t")
    case True
    then have r: "running ?l t" by (simp add: running_def)
    note ui = tmr_invD(1) [OF unlink_inv [OF inv r]] and un = conjunct1 [OF unlink_stopped [of t ?l]]
    note uv = unlink_view [OF inv'(1) r] and lv = link_view' [OF ui un, of OS_TMR_LINK_DLY]
    have "link_match OS_TMR_LINK_DLY (OSTmrTime s) (OSTmrTbl (OSTmr_Unlink t ?l) t) =
        link_match OS_TMR_LINK_DLY (OSTmrTime s) (OSTmrTbl s t)"
      using uv(2) [of t] by (simp add: tmr_cfg_def link_match_def)
    then show ?thesis using gd True uv lv by (simp add: OSTmrStart_def Let_def running_def)
  next
    case False
    then have nr: "\<not> running ?l t" by (simp add: running_def)
    have "OSTmrState (OSTmrTbl s t) = OS_TMR_STATE_STOPPED \<or> OSTmrState (OSTmrTbl s t) = OS_TMR_STATE_COMPLETED"
      using ok t(2) False by (auto simp: tmr_ok_def running_def)
    then show ?thesis using gd False link_view' [OF inv'(1) nr, of OS_TMR_LINK_DLY]
      by (auto simp: OSTmrStart_def Let_def running_def)
  qed
qed

text \<open>The services as tasks call them, and what leaves the timers alone.\<close>

inductive tmr_step :: "callbacks \<Rightarrow> os \<Rightarrow> os \<Rightarrow> bool" for cb where
  create: "tmr_step cb s (fst (OSTmrCreate dly period opt f arg pname s))"
| del: "tmr_step cb s (fst (OSTmrDel p s))"
| start: "tmr_step cb s (fst (OSTmrStart p s))"
| stop: "tmr_step cb s (fst (OSTmrStop cb p opt arg s))"
| remain: "tmr_step cb s (fst (OSTmrRemainGet p s))"
| state: "tmr_step cb s (fst (OSTmrStateGet p s))"
| name: "tmr_step cb s (fst (OSTmrNameGet p d s))"
| other: "tmrs s' = tmrs s \<Longrightarrow> OSTmrTime s' = OSTmrTime s \<Longrightarrow> tmr_step cb s s'"

lemma tmr_step_spares: "tmr_step cb s s' \<Longrightarrow> polite_callbacks cb \<Longrightarrow> \<exists>t. spares t s s'"
proof (induction rule: tmr_step.induct)
  case (stop s p opt arg)
  have "spares (the p) s (fst (OSTmrStop cb p opt arg s))"
    by (rule spares_stop) (use callback_spares [OF stop] in \<open>auto simp: not_another_def\<close>)
  then show ?case by blast
next
  case (start s p)
  have "spares (the p) s (fst (OSTmrStart p s))" by (rule spares_start) (auto simp: not_another_def)
  then show ?case by blast
next
  case (del s p)
  have "spares (the p) s (fst (OSTmrDel p s))" by (rule spares_del) (auto simp: not_another_def)
  then show ?case by blast
qed (use spares_create spares_other tmrs_get in blast)+

lemma tmr_step_good:
  assumes "tmr_step cb s s'" and "polite_callbacks cb" and "tmr_good s"
  shows "tmr_good s'" and "OSTmrTime s' = OSTmrTime s"
  using tmr_step_spares [OF assms(1,2)] assms(3) unfolding spares_def tmr_good_def by blast+

text \<open>\<open>tmr_run cb t k s s'\<close>: \<open>k\<close> rounds of the timer task, with any steps between them that leave timer
  \<open>t\<close> alone.\<close>

inductive tmr_run :: "callbacks \<Rightarrow> nat \<Rightarrow> nat \<Rightarrow> os \<Rightarrow> os \<Rightarrow> bool" for cb t where
  start: "tmr_run cb t 0 s s"
| round: "tmr_run cb t k s u \<Longrightarrow> OSTmr_Round cb u = Some s' \<Longrightarrow> tmr_run cb t (Suc k) s s'"
| step: "tmr_run cb t k s u \<Longrightarrow> tmr_step cb u s' \<Longrightarrow> same_timer t u s' \<Longrightarrow> tmr_run cb t k s s'"

text \<open>A running timer counts down with the rounds, and is due in the \<open>n\<close>th.\<close>

lemma run_counts_down:
  assumes cb: "polite_callbacks cb" and n: "n < 2 ^ 32"
  shows "tmr_run cb t k s s' \<Longrightarrow> tmr_good s \<Longrightarrow> running s t \<Longrightarrow>
    OSTmrMatch (OSTmrTbl s t) = OSTmrTime s + of_nat n \<Longrightarrow> k \<le> n \<Longrightarrow>
    tmr_good s' \<and> OSTmrTime s' = OSTmrTime s + of_nat k \<and>
    (k < n \<longrightarrow> same_timer t s s') \<and>
    (k = n \<and> 0 < n \<and> untouched cb t \<longrightarrow> tmr_view (OSTmrTbl s' t) = tmr_after (OSTmrTime s') (OSTmrTbl s t))"
proof (induction rule: tmr_run.induct)
  case (start s)
  then show ?case by (auto simp: same_timer_def)
next
  case (round k s u s')
  then have u: "tmr_good u" "OSTmrTime u = OSTmrTime s + of_nat k" "same_timer t s u" by auto
  then have ru: "running u t" "OSTmrMatch (OSTmrTbl u t) = OSTmrMatch (OSTmrTbl s t)"
    "tmr_cfg (OSTmrTbl u t) = tmr_cfg (OSTmrTbl s t)"
    using round.prems(2) same_timer_running [OF u(3)] by (simp_all add: same_timer_def tmr_view_def)
  obtain v where v: "OSTmr_Round cb u = Some v" "tmr_good v" "OSTmrTime v = OSTmrTime u + 1"
    and keep: "running u t \<and> OSTmrMatch (OSTmrTbl u t) \<noteq> OSTmrTime u + 1 \<longrightarrow> same_timer t u v"
    and due: "untouched cb t \<longrightarrow> tmr_view (OSTmrTbl v t) =
        (if running u t then tmr_after (OSTmrTime u + 1) (OSTmrTbl u t) else tmr_view (OSTmrTbl u t))"
    using round_effect [OF u(1) cb] by blast
  have s': "s' = v" using round.hyps(2) v(1) by simp
  have "same_timer t s v" if k: "Suc k < n"
  proof -
    have "of_nat n \<noteq> (of_nat (Suc k) :: INT32U)"
      using n k by (simp add: word_of_nat_eq_iff take_bit_nat_eq_self del: of_nat_Suc)
    then have "OSTmrMatch (OSTmrTbl u t) \<noteq> OSTmrTime u + 1"
      using round.prems(3) ru(2) u(2) by (simp add: add.commute add.left_commute)
    then show ?thesis using keep ru(1) same_timer_trans [OF u(3)] by blast
  qed
  moreover have "tmr_view (OSTmrTbl v t) = tmr_after (OSTmrTime v) (OSTmrTbl s t)" if "untouched cb t"
    using due that ru u(3) v(3) by (simp add: tmr_after_def tmr_cfg_def same_timer_def tmr_view_def)
  ultimately show ?case using v(2,3) u(2) by (simp add: s')
next
  case (step k s u s')
  then have u: "tmr_good u" by blast
  note st = tmr_step_good [OF step.hyps(2) cb u]
  have "tmr_view (OSTmrTbl s' t) = tmr_view (OSTmrTbl u t)" using step.hyps(3) by (simp add: same_timer_def)
  then show ?case using step.IH step.prems st same_timer_trans [OF _ step.hyps(3)] by auto
qed

text \<open>C24: a timer that \<open>OSTmrStart\<close> starts with a delay of \<open>n\<close> ticks (its period, when the delay is 0) expires
  in the \<open>n\<close>th round of the timer task and not before.  Between the rounds tasks may call any timer services
  that leave this timer alone, with polite callbacks as in \<open>OSTmr_Round_expires\<close>.  After \<open>k < n\<close> rounds
  it is running and \<open>OSTmrRemainGet\<close> tells \<open>n - k\<close> ticks; after \<open>n\<close> rounds, when no callback
  changes it, its own included, a one-shot timer is completed and a periodic one runs with its period left.
  Every further round ends.\<close>

theorem timer_expires_on_time:
  assumes g: "tmr_good s" and cb: "polite_callbacks cb" and t: "t < OS_TMR_CFG_MAX"
      "OSTmrState (OSTmrTbl s t) \<noteq> OS_TMR_STATE_UNUSED" and isr: "OSIntNesting s = 0"
    and d: "(if OSTmrDly (OSTmrTbl s t) = 0 then OSTmrPeriod (OSTmrTbl s t) else OSTmrDly (OSTmrTbl s t)) = of_nat n"
      "0 < n" "n < 2 ^ 32"
    and run: "tmr_run cb t k (fst (OSTmrStart (Some t) s)) s'" and k: "k \<le> n"
  shows "(k < n \<longrightarrow> OSTmrState (OSTmrTbl s' t) = OS_TMR_STATE_RUNNING \<and>
      (OSIntNesting s' = 0 \<longrightarrow> snd (OSTmrRemainGet (Some t) s') = (of_nat (n - k), OS_ERR_NONE))) \<and>
    (k = n \<and> untouched cb t \<longrightarrow>
      (if OSTmrOpt (OSTmrTbl s t) = OS_TMR_OPT_PERIODIC
       then OSTmrState (OSTmrTbl s' t) = OS_TMR_STATE_RUNNING \<and>
            OSTmrMatch (OSTmrTbl s' t) - OSTmrTime s' = OSTmrPeriod (OSTmrTbl s t)
       else OSTmrState (OSTmrTbl s' t) = OS_TMR_STATE_COMPLETED)) \<and>
    (\<exists>v. OSTmr_Round cb s' = Some v)"
proof -
  let ?s = "fst (OSTmrStart (Some t) s)"
  note sv = start_view [OF g t isr]
  have g': "tmr_good ?s" by (rule good_start [OF g])
  have r: "running ?s t" and m: "OSTmrMatch (OSTmrTbl ?s t) = OSTmrTime ?s + of_nat n"
    and c: "tmr_cfg (OSTmrTbl ?s t) = tmr_cfg (OSTmrTbl s t)"
    using sv [of t] d(1) by (auto simp: running_def tmr_view_def link_match_def split: if_splits)
  note cd = run_counts_down [OF cb d(3) run g' r m k]
  have gs: "tmr_good s'" using cd by blast
  have ty: "OSTmrType (OSTmrTbl s' t) = OS_TMR_TYPE" using gs t(1) tmr_invD(4) by (auto simp: tmr_good_def)
  have "OSTmrState (OSTmrTbl s' t) = OS_TMR_STATE_RUNNING \<and>
      (OSIntNesting s' = 0 \<longrightarrow> snd (OSTmrRemainGet (Some t) s') = (of_nat (n - k), OS_ERR_NONE))" if kn: "k < n"
  proof -
    have sm: "same_timer t ?s s'" using cd kn by blast
    then have "running s' t" "OSTmrMatch (OSTmrTbl s' t) = OSTmrMatch (OSTmrTbl ?s t)"
      using r same_timer_running [OF sm] by (simp_all add: same_timer_def tmr_view_def)
    moreover from this have "OSTmrMatch (OSTmrTbl s' t) - OSTmrTime s' = of_nat (n - k)"
      using m cd kn by (simp add: of_nat_diff less_imp_le)
    ultimately show ?thesis using ty by (auto simp: OSTmrRemainGet_def tmr_guard_def running_def Let_def)
  qed
  moreover have "if OSTmrOpt (OSTmrTbl s t) = OS_TMR_OPT_PERIODIC
       then OSTmrState (OSTmrTbl s' t) = OS_TMR_STATE_RUNNING \<and>
            OSTmrMatch (OSTmrTbl s' t) - OSTmrTime s' = OSTmrPeriod (OSTmrTbl s t)
       else OSTmrState (OSTmrTbl s' t) = OS_TMR_STATE_COMPLETED" if kn: "k = n" and un: "untouched cb t"
  proof -
    have "tmr_view (OSTmrTbl s' t) = tmr_after (OSTmrTime s') (OSTmrTbl ?s t)" "OSTmrTime s' = OSTmrMatch (OSTmrTbl ?s t)"
      using cd kn un d(2) m by auto
    then show ?thesis using c by (auto simp: tmr_after_def tmr_view_def tmr_cfg_def split: if_splits)
  qed
  ultimately show ?thesis using round_effect [OF gs cb] by blast
qed

section \<open>Callbacks that change other timers\<close>

text \<open>C25: the walk saves the next timer before it runs the callback of the current one.  When two
  timers that follow each other in a spoke expire together and the callback of the first one stops the
  second with \<open>OSTmrStop\<close>, the walk still goes on to the second, which is stopped and out of the wheel
  by then.  Its expiry time matches, so \<open>OSTmr_Unlink\<close> is called for it again; as it is not the first of its
  spoke, this dereferences its \<open>OSTmrPrev\<close>, which is null, and counts the spoke down once more.  After
  it the walk ends, since the stopped timer has no next one: the timers behind it in the spoke, due or not, are not
  looked at.\<close>

theorem stop_in_callback_unlinks_twice:
  assumes inv: "tmr_inv s W fs" and W: "W i = xs @ a # b # ys"
    and m: "OSTmrMatch (OSTmrTbl s a) = OSTmrTime s" "OSTmrMatch (OSTmrTbl s b) = OSTmrTime s"
    and f: "OSTmrCallback (OSTmrTbl s a) = Some f" and isr: "OSIntNesting s = 0"
    and cb: "\<And>arg u. cb f a arg u = fst (OSTmrStop cb' (Some b) OS_TMR_OPT_NONE NULL u)"
  defines "e \<equiv> OSTmr_Expire cb a s"
  shows "OSTmrState (OSTmrTbl e b) = OS_TMR_STATE_STOPPED \<and>
    OSTmrFirst (OSTmrWheelTbl e (spoke_of e b)) \<noteq> Some b \<and> OSTmrPrev (OSTmrTbl e b) = None \<and>
    OSTmr_Walk cb (Some a) s = Some (OSTmr_Expire cb b e) \<and>
    OSTmr_Expire cb b e = (let u = requeue b (OSTmr_Unlink b e)
      in case OSTmrCallback (OSTmrTbl u b) of None \<Rightarrow> u | Some h \<Rightarrow> cb h b (OSTmrCallbackArg (OSTmrTbl u b)) u) \<and>
    OSTmrEntries (OSTmrWheelTbl (OSTmr_Unlink b e) (spoke_of e b)) = OSTmrEntries (OSTmrWheelTbl e (spoke_of e b)) - 1"
proof -
  let ?u = "requeue a (OSTmr_Unlink a s)" and ?e = "OSTmr_Expire cb a s"
  have w: "wheel s W" by (rule tmr_invD(1) [OF inv])
  have ra: "running s a" "spoke_of s a = i" and rb: "running s b" "spoke_of s b = i"
    using wheelD(3) [OF w, of a i] wheelD(3) [OF w, of b i] W by simp_all
  have ds: "distinct (xs @ a # b # ys)" using dpath_distinct [OF wheelD(1) [OF w, of i]] W by simp
  have nx: "OSTmrNext (OSTmrTbl s a) = Some b"
    using dpath_next [OF wheelD(1) [OF w, of i, unfolded W]] by (simp add: tmr_next_def)
  have rm: "(W(i := remove1 a (W i))) i = xs @ (b # ys)" using ds W by (simp add: remove1_append)
  have ui: "tmr_inv (OSTmr_Unlink a s) (W(i := remove1 a (W i))) fs" using unlink_inv [OF inv ra(1)] ra(2) by simp
  note un = conjunct1 [OF unlink_stopped [of a s]] conjunct2 [OF unlink_stopped [of a s]]
  note uv = unlink_view [OF w ra(1)] and rq = requeue_step [OF ui tmr_invD(5) [OF inv ra(1)] un rm]
  obtain W' where u: "tmr_inv ?u W' fs" using rq(1) by blast
  have ab: "b \<noteq> a" using ds by auto
  have cf: "OSTmrCallback (OSTmrTbl ?u a) = Some f" using rq(3) [of a] uv(2) [of a] f by (simp add: tmr_cfg_def)
  have vb: "OSTmrState (OSTmrTbl ?u b) = OS_TMR_STATE_RUNNING" "OSTmrMatch (OSTmrTbl ?u b) = OSTmrTime s"
    using rq(4) [of b] uv(3) [of b] ab rb(1) m(2) by (simp_all add: tmr_view_def running_def)
  have tu: "OSTmrTime ?u = OSTmrTime s" using rq(2) uv(1) by simp
  have iu: "OSIntNesting ?u = 0"
  proof -
    have "OSIntNesting (OSTmr_Unlink a s) = 0" using isr by (simp add: OSTmr_Unlink_eq [OF w ra(1)])
    then show ?thesis by (simp add: requeue_def upd_tmr_def link_view [OF tmr_invD(1) [OF ui] un(1)])
  qed
  let ?v = "OSTmr_Unlink b (OSSchedLock ?u)"
  have ul: "tmr_inv (OSSchedLock ?u) W' fs" and rl: "running (OSSchedLock ?u) b" using u vb(1) by (simp_all add: running_def)
  have ty: "OSTmrType (OSTmrTbl ?u b) = OS_TMR_TYPE" using tmr_invD(4) [OF u, of b] tmr_invD(5) [OF u, of b] vb(1)
    by (simp add: running_def)
  have e: "?e = OSSchedUnlock ?v"
    using m(1) vb(1) iu ty by (simp add: expire_requeue Let_def cf cb OSTmrStop_def tmr_guard_def)
  have tb: "OSTmrTbl ?e = OSTmrTbl ?v" "OSTmrTime ?e = OSTmrTime ?v" "OSTmrWheelTbl ?e = OSTmrWheelTbl ?v"
    using tmrs_lock(2) [of ?v] by (simp_all add: e tmrs_def)
  note vv = unlink_view [OF tmr_invD(1) [OF ul] rl]
  have "OSTmrState (OSTmrTbl ?e b) = OS_TMR_STATE_STOPPED" "OSTmrMatch (OSTmrTbl ?e b) = OSTmrTime ?e"
    using tb vv(1) vv(3) [of b] vb(2) tu by (simp_all add: tmr_view_def)
  moreover have "OSTmrPrev (OSTmrTbl ?e b) = None" by (simp add: tb OSTmr_Unlink_eq [OF tmr_invD(1) [OF ul] rl])
  moreover have "OSTmrFirst (OSTmrWheelTbl ?e (spoke_of ?e b)) \<noteq> Some b"
    using wheel_head(2) [OF unlink_wheel [OF tmr_invD(1) [OF ul] rl], of _ b] tb(3) unlink_stopped [of b] by auto
  moreover have nb: "OSTmrNext (OSTmrTbl ?e b) = None" by (simp add: tb OSTmr_Unlink_eq [OF tmr_invD(1) [OF ul] rl])
  moreover have "OSTmr_Walk cb (Some a) s = Some (OSTmr_Expire cb b ?e)"
    unfolding OSTmr_Walk_def
    by (subst while_option_unfold, simp add: nx, subst while_option_unfold, simp add: nb, subst while_option_unfold, simp)
  ultimately show ?thesis unfolding e_def
    by (simp add: expire_requeue [of cb b ?e]) (simp add: OSTmr_Unlink_def Let_def upd_spoke_def upd_tmr_def spoke_of_def)
qed

section \<open>Initialisation\<close>

text \<open>The tables after \<open>OSTmr_Init\<close>: an empty wheel and every timer on the free list.\<close>

lemma InitChain_tables:
  "OSTmrWheelTbl (OSTmr_InitChain n ix s) = OSTmrWheelTbl s \<and>
   OSTmrState (OSTmrTbl (OSTmr_InitChain n ix s) t) =
     (if ix \<le> t \<and> t < ix + n then OS_TMR_STATE_UNUSED else OSTmrState (OSTmrTbl s t)) \<and>
   OSTmrType (OSTmrTbl (OSTmr_InitChain n ix s) t) =
     (if ix \<le> t \<and> t < ix + n then OS_TMR_TYPE else OSTmrType (OSTmrTbl s t))"
  by (induction n arbitrary: ix s) (auto simp: upd_tmr_def)

definition tmr_tables :: "os \<Rightarrow> os" where
  "tmr_tables s =
     (upd_tmr (OS_TMR_CFG_MAX - 1) (\<lambda>p. p\<lparr>OSTmrType := OS_TMR_TYPE,
                OSTmrState := OS_TMR_STATE_UNUSED, OSTmrNext := None, OSTmrName := Some ''?''\<rparr>)
       (OSTmr_InitChain (OS_TMR_CFG_MAX - 1) 0 (s\<lparr>OSTmrTbl := (\<lambda>_. zero_tmr), OSTmrWheelTbl := (\<lambda>_. zero_tmr_wheel)\<rparr>)))
       \<lparr>OSTmrTime := 0, OSTmrUsed := 0, OSTmrFree := of_nat OS_TMR_CFG_MAX, OSTmrFreeList := Some 0\<rparr>"

lemma tmr_tables_inv: "tmr_inv (tmr_tables s) (\<lambda>_. []) [0..<OS_TMR_CFG_MAX]"
proof -
  let ?z = "s\<lparr>OSTmrTbl := (\<lambda>_. zero_tmr), OSTmrWheelTbl := (\<lambda>_. zero_tmr_wheel)\<rparr>" and ?s = "tmr_tables s"
  note ch = InitChain_tables [of "OS_TMR_CFG_MAX - 1" 0 ?z]
  have st: "OSTmrState (OSTmrTbl ?s t) = OS_TMR_STATE_UNUSED" for t
    using ch [of t] by (simp add: tmr_tables_def upd_tmr_def zero_tmr_def)
  have ty: "OSTmrType (OSTmrTbl ?s t) = OS_TMR_TYPE \<longleftrightarrow> t < OS_TMR_CFG_MAX" for t
    using ch [of t] by (auto simp: tmr_tables_def upd_tmr_def zero_tmr_def)
  have nx: "tmr_next ?s t = (if t < OS_TMR_CFG_MAX - 1 then Some (Suc t) else None)" for t
    using TmrInitChain_next [of "OS_TMR_CFG_MAX - 1" 0 ?z t]
    by (auto simp: tmr_tables_def upd_tmr_def tmr_next_def zero_tmr_def)
  have whl: "OSTmrWheelTbl ?s = (\<lambda>_. zero_tmr_wheel)"
    using ch [of 0] by (simp add: tmr_tables_def upd_tmr_def)
  have "wheel ?s (\<lambda>_. [])" by (simp add: wheel_def whl zero_tmr_wheel_def running_def st)
  moreover have "path (tmr_next ?s) (Some 0) [0..<Suc 15]" by (rule path_table) (simp_all add: nx)
  then have "tmr_pool.holds ?s [0..<OS_TMR_CFG_MAX]" by (simp add: tmr_pool.holds_def tmr_tables_def del: upt_Suc)
  then have "tmr_free_list ?s [0..<OS_TMR_CFG_MAX]"
    by (simp add: tmr_free_list_def st) (simp add: tmr_tables_def)
  ultimately show ?thesis by (simp add: tmr_inv_def ty tmr_ok_def st running_def)
qed

text \<open>The rest of the initialisation leaves the timers alone.\<close>

lemma tmrs_frame [simp]:
  "tmrs (upd_tcb t f s) = tmrs s" "tmrs (upd_event e g s) = tmrs s" "tmrs (s\<lparr>OSTmrSem := x1\<rparr>) = tmrs s"
  "tmrs (s\<lparr>OSTmrSemSignal := x1\<rparr>) = tmrs s" "tmrs (set_prio_tbl p q s) = tmrs s"
  "tmrs (s\<lparr>OSEventFreeList := x2\<rparr>) = tmrs s" "tmrs (s\<lparr>OSStkCell := x3\<rparr>) = tmrs s"
  "tmrs (s\<lparr>OSTCBFreeList := x4\<rparr>) = tmrs s" "tmrs (s\<lparr>OSTCBList := x4\<rparr>) = tmrs s"
  "tmrs (s\<lparr>OSTaskCtr := x5\<rparr>) = tmrs s" "tmrs (s\<lparr>OSRdyGrp := x6, OSRdyTbl := x7\<rparr>) = tmrs s"
  by (simp_all add: tmrs_def upd_tcb_def upd_event_def set_prio_tbl_def)

lemma tmrs_push [simp]: "tmrs (snd (push_stk vs (p, s))) = tmrs s"
  by (induction vs arbitrary: p s) (simp_all add: Let_def)

lemma tmrs_clr [simp]: "tmrs (clr_stk n p s) = tmrs s"
  by (induction n arbitrary: p s) simp_all

lemma tmrs_rdy [simp]: "tmrs (OS_RdyListInsert t s) = tmrs s"
  by (simp add: OS_RdyListInsert_def Let_def tmrs_def set_rdy_def)

lemma tmrs_sched [simp]: "tmrs (OS_Sched s) = tmrs s"
  by (simp add: tmrs_def OS_Sched_def OS_SwitchHighRdy_def OS_SchedNew_def OS_TASK_SW_def Let_def upd_tcb_def)

lemma tmrs_TCBInit: "tmrs (fst (OS_TCBInit prio p b i n x opt s)) = tmrs s"
  by (simp add: OS_TCBInit_def Let_def split: tcb_ptr.split)

lemma tmrs_StkInit: "tmrs (snd (OSTaskStkInit ret task p_arg ptos opt s)) = tmrs s"
  by (simp only: OSTaskStkInit_def Let_def tmrs_push)

lemma tmrs_create_ext: "tmrs (fst (OSTaskCreateExt ret task p_arg ptos prio i pbos sz ext opt s)) = tmrs s"
proof (cases "prio > OS_LOWEST_PRIO \<or> OSIntNesting s > 0 \<or> OSTCBPrioTbl s (unat prio) \<noteq> NullTCB")
  case True
  then show ?thesis by (auto simp: OSTaskCreateExt_def)
next
  case False
  let ?c = "OS_TaskStkClr pbos sz opt (set_prio_tbl prio OS_TCB_RESERVED s)"
  obtain psp u where u: "OSTaskStkInit ret task p_arg ptos opt ?c = (psp, u)" by fastforce
  obtain v err where v: "OS_TCBInit prio psp pbos i sz ext opt u = (v, err)" by fastforce
  have "tmrs v = tmrs u" using tmrs_TCBInit [of prio psp pbos i sz ext opt u] v by simp
  moreover have "tmrs u = tmrs ?c" using tmrs_StkInit [of ret task p_arg ptos opt ?c] u by simp
  moreover have "tmrs ?c = tmrs s" by (simp add: OS_TaskStkClr_def)
  ultimately show ?thesis using False by (simp add: OSTaskCreateExt_def Let_def u v)
qed

lemma tmrs_creates:
  "tmrs (fst (OSSemCreate cnt s)) = tmrs s" "tmrs (fst (OSEventNameSet e n s)) = tmrs s"
  "tmrs (fst (OSTaskNameSet prio n s)) = tmrs s"
  by (auto simp: OSSemCreate_def OS_EventAlloc_def OS_EventWaitListInit_def OSEventNameSet_def OSTaskNameSet_def Let_def
      split: option.splits tcb_ptr.splits)

lemma tmr_init_good: "tmr_good (OSTmr_Init k s)"
proof -
  obtain s2 sem where r2: "OSSemCreate 1 (tmr_tables s) = (s2, sem)" by fastforce
  obtain s3 sig where r3: "OSSemCreate 0 (s2\<lparr>OSTmrSem := sem\<rparr>) = (s3, sig)" by fastforce
  have "tmrs s2 = tmrs (tmr_tables s)" using tmrs_creates(1) [of 1 "tmr_tables s"] r2 by simp
  moreover have "tmrs s3 = tmrs s2" using tmrs_creates(1) [of 0 "s2\<lparr>OSTmrSem := sem\<rparr>"] r3 by simp
  ultimately have "tmrs (OSTmr_Init k s) = tmrs (tmr_tables s)"
    unfolding OSTmr_Init_def Let_def tmr_tables_def [symmetric] r2 r3 prod.case
    by (simp add: OSTmr_InitTask_def tmrs_creates tmrs_create_ext)
  then show ?thesis using tmr_goodI [OF tmr_tables_inv] tmr_good_cong by blast
qed

text \<open>Any sequence of services, rounds and steps of the rest of the kernel.\<close>

inductive tmr_reach :: "callbacks \<Rightarrow> os \<Rightarrow> bool" for cb where
  init: "tmr_reach cb (OSTmr_Init k s)"
| step: "tmr_reach cb s \<Longrightarrow> tmr_step cb s s' \<Longrightarrow> tmr_reach cb s'"
| round: "tmr_reach cb s \<Longrightarrow> OSTmr_Round cb s = Some s' \<Longrightarrow> tmr_reach cb s'"

text \<open>C22: whatever sequence of timer services, rounds of the timer task and work that leaves the timers alone follows the
  initialisation, as long as the callbacks of the application are polite (they start, stop and delete no running timer but their own; see
  \<open>stop_in_callback_unlinks_twice\<close> for what happens else), every spoke is a doubly linked list of exactly the running timers
  whose expiry time belongs to it, with its count, and the unused timers are the free list, with the counters of
  used and free timers.\<close>

theorem timers_stay_linked:
  assumes cb: "polite_callbacks cb" and r: "tmr_reach cb s"
  shows "\<exists>W fs. tmr_inv s W fs"
proof -
  have "tmr_good s" using r
  proof (induction rule: tmr_reach.induct)
    case (step s s')
    then show ?case using tmr_step_good(1) cb by blast
  next
    case (round s s')
    then show ?case using round_effect [OF _ cb, of s] by auto
  qed (rule tmr_init_good)
  then show ?thesis by (simp add: tmr_good_def)
qed

section \<open>The theorems on a concrete wheel\<close>

text \<open>Timers 0 and 1 run, both due at time 1, and the others are free.\<close>

definition ex_timers :: "INT32U \<Rightarrow> os \<Rightarrow> os" where
  "ex_timers now s =
     s\<lparr>OSIntNesting := 0, OSRunning := False, OSTmrTime := now, OSTmrFreeList := Some 2, OSTmrFree := 14,
       OSTmrUsed := 2,
       OSTmrTbl := (\<lambda>t. zero_tmr\<lparr>OSTmrType := (if t < 16 then OS_TMR_TYPE else 0),
          OSTmrState := (if t < 2 then OS_TMR_STATE_RUNNING else OS_TMR_STATE_UNUSED),
          OSTmrCallback := Some t, OSTmrOpt := OS_TMR_OPT_ONE_SHOT, OSTmrDly := 3,
          OSTmrMatch := (if t < 2 then 1 else 0),
          OSTmrNext := (if t = 1 \<or> t \<ge> 15 then None else Some (Suc t)),
          OSTmrPrev := (if t = 1 then Some 0 else None)\<rparr>),
       OSTmrWheelTbl := (\<lambda>i. if i = 1 then \<lparr>OSTmrFirst = Some 0, OSTmrEntries = 2\<rparr> else zero_tmr_wheel)\<rparr>"

lemma ex_timers_inv: "tmr_inv (ex_timers now s) (\<lambda>i. if i = 1 then [0, 1] else []) [2..<16]"
proof -
  let ?s = "ex_timers now s"
  have sp: "tmr_spoke 1 = 1" by (simp add: tmr_spoke_def unat_mod)
  have "t < 2 \<longleftrightarrow> t = 0 \<or> t = Suc 0" for t :: nat by auto
  then have w: "wheel ?s (\<lambda>i. if i = 1 then [0, 1] else [])"
    by (auto simp: wheel_def ex_timers_def tmr_next_def tmr_pv_def running_def spoke_of_def zero_tmr_wheel_def sp)
  have "path (tmr_next ?s) (Some 2) [2..<Suc 15]"
    by (rule path_table) (simp_all add: ex_timers_def tmr_next_def)
  then have "tmr_pool.holds ?s [2..<16]" by (simp add: tmr_pool.holds_def ex_timers_def del: upt_Suc)
  moreover have "t \<in> set [2..<16] \<longleftrightarrow> t < OS_TMR_CFG_MAX \<and> OSTmrState (OSTmrTbl ?s t) = OS_TMR_STATE_UNUSED" for t
    unfolding set_upt by (auto simp: ex_timers_def)
  ultimately have "tmr_free_list ?s [2..<16]"
    unfolding tmr_free_list_def by (auto simp: ex_timers_def)
  with w show ?thesis by (simp add: tmr_inv_def ex_timers_def tmr_ok_def running_def)
qed

lemma ex_timers_good: "tmr_good (ex_timers now s)"
  by (rule tmr_goodI [OF ex_timers_inv])

text \<open>The callback of timer 0 starts timer 0 again and creates another timer.\<close>

definition ex_callback :: callbacks where
  "ex_callback = (\<lambda>f t arg u. fst (OSTmrCreate 5 0 OS_TMR_OPT_ONE_SHOT None NULL None (fst (OSTmrStart (Some t) u))))"

lemma ex_callback_polite: "polite_callbacks ex_callback"
  unfolding polite_callbacks_def ex_callback_def
  by (intro allI polite.create polite.start polite.refl) (simp add: not_another_def)

lemma ex_idle_callbacks: "polite_callbacks (\<lambda>f t arg u. u)" "untouched (\<lambda>f t arg u. u) t"
  by (simp_all add: polite_callbacks_def polite.refl untouched_def same_timer_def)

lemma OSTmr_Round_expires_witness:
  "\<forall>s. (\<exists>s'. OSTmr_Round ex_callback (ex_timers 5 s) = Some s' \<and> same_timer 0 (ex_timers 5 s) s') \<and>
    (\<exists>s'. OSTmr_Round (\<lambda>f t arg u. u) (ex_timers 0 s) = Some s' \<and>
     OSTmrState (OSTmrTbl s' 0) = OS_TMR_STATE_COMPLETED \<and> OSTmrState (OSTmrTbl s' 1) = OS_TMR_STATE_COMPLETED \<and>
     OSTmrState (OSTmrTbl s' 2) = OS_TMR_STATE_UNUSED)"
proof
  fix s
  obtain s' where "OSTmr_Round (\<lambda>f t arg u. u) (ex_timers 0 s) = Some s'"
    and v: "\<forall>t. tmr_view (OSTmrTbl s' t) = (if running (ex_timers 0 s) t
      then tmr_after (OSTmrTime (ex_timers 0 s) + 1) (OSTmrTbl (ex_timers 0 s) t) else tmr_view (OSTmrTbl (ex_timers 0 s) t))"
    using OSTmr_Round_expires [OF ex_timers_good ex_idle_callbacks(1), of 0 s] ex_idle_callbacks(2) by blast
  moreover have "OSTmrState (OSTmrTbl s' 0) = OS_TMR_STATE_COMPLETED" "OSTmrState (OSTmrTbl s' 1) = OS_TMR_STATE_COMPLETED"
    "OSTmrState (OSTmrTbl s' 2) = OS_TMR_STATE_UNUSED"
    using v [THEN spec, of 0] v [THEN spec, of 1] v [THEN spec, of 2]
    by (simp_all add: ex_timers_def running_def tmr_view_def tmr_after_def)
  moreover have "running (ex_timers 5 s) 0" "OSTmrMatch (OSTmrTbl (ex_timers 5 s) 0) \<noteq> OSTmrTime (ex_timers 5 s) + 1"
    by (simp_all add: ex_timers_def running_def)
  ultimately show "(\<exists>s'. OSTmr_Round ex_callback (ex_timers 5 s) = Some s' \<and> same_timer 0 (ex_timers 5 s) s') \<and>
    (\<exists>s'. OSTmr_Round (\<lambda>f t arg u. u) (ex_timers 0 s) = Some s' \<and>
     OSTmrState (OSTmrTbl s' 0) = OS_TMR_STATE_COMPLETED \<and> OSTmrState (OSTmrTbl s' 1) = OS_TMR_STATE_COMPLETED \<and>
     OSTmrState (OSTmrTbl s' 2) = OS_TMR_STATE_UNUSED)"
    using OSTmr_Round_expires [OF ex_timers_good ex_callback_polite, of 5 s] by blast
qed

text \<open>A delay of 3: three rounds, with another timer stopped after the first.\<close>

lemma ex_rounds:
  "\<exists>s'. tmr_run (\<lambda>f t arg u. u) 0 3 (fst (OSTmrStart (Some 0) (ex_timers 0 s))) s'"
proof -
  let ?cb = "\<lambda>f t arg u. u"
  have cb: "polite_callbacks ?cb" by (rule ex_idle_callbacks)
  have g: "tmr_good (fst (OSTmrStart (Some 0) (ex_timers 0 s)))" by (rule good_start [OF ex_timers_good])
  obtain a where a: "OSTmr_Round ?cb (fst (OSTmrStart (Some 0) (ex_timers 0 s))) = Some a" "tmr_good a"
    using round_effect [OF g cb] by blast
  let ?b = "fst (OSTmrRemainGet (Some 1) a)"
  have b: "tmr_step ?cb a ?b" by (rule tmr_step.remain)
  have st: "same_timer 0 a ?b" using tmrs_get(1) [of "Some 1" a] by (simp add: same_timer_def tmrs_def)
  obtain c where c: "OSTmr_Round ?cb ?b = Some c" "tmr_good c"
    using round_effect [OF tmr_step_good(1) [OF b cb a(2)] cb] by blast
  obtain d where d: "OSTmr_Round ?cb c = Some d" using round_effect [OF c(2) cb] by blast
  have "tmr_run ?cb 0 (Suc (Suc (Suc 0))) (fst (OSTmrStart (Some 0) (ex_timers 0 s))) d"
    by (rule tmr_run.round [OF tmr_run.round [OF tmr_run.step [OF tmr_run.round [OF tmr_run.start a(1)] b st] c(1)] d])
  then show ?thesis by (auto simp: eval_nat_numeral)
qed

lemma timer_expires_on_time_witness:
  "\<forall>s. \<exists>s'. tmr_run (\<lambda>f t arg u. u) 0 3 (fst (OSTmrStart (Some 0) (ex_timers 0 s))) s' \<and>
     OSTmrState (OSTmrTbl s' 0) = OS_TMR_STATE_COMPLETED"
proof
  fix s
  obtain s' where r: "tmr_run (\<lambda>f t arg u. u) 0 3 (fst (OSTmrStart (Some 0) (ex_timers 0 s))) s'"
    using ex_rounds by blast
  have "OSTmrState (OSTmrTbl s' 0) = OS_TMR_STATE_COMPLETED"
    using timer_expires_on_time [OF ex_timers_good ex_idle_callbacks(1) _ _ _ _ _ _ r, of 3] ex_idle_callbacks(2)
    by (simp add: ex_timers_def)
  with r show "\<exists>s'. tmr_run (\<lambda>f t arg u. u) 0 3 (fst (OSTmrStart (Some 0) (ex_timers 0 s))) s' \<and>
     OSTmrState (OSTmrTbl s' 0) = OS_TMR_STATE_COMPLETED" by blast
qed

lemma stop_in_callback_unlinks_twice_witness:
  "\<forall>s. let cb = \<lambda>f t arg u. fst (OSTmrStop (\<lambda>f t arg u. u) (Some 1) OS_TMR_OPT_NONE NULL u);
      e = OSTmr_Expire cb 0 (ex_timers 1 s)
    in OSTmrState (OSTmrTbl e 1) = OS_TMR_STATE_STOPPED \<and> OSTmrPrev (OSTmrTbl e 1) = None \<and>
       OSTmr_Walk cb (Some 0) (ex_timers 1 s) = Some (OSTmr_Expire cb 1 e)"
proof
  fix s
  let ?cb = "\<lambda>f t arg u. fst (OSTmrStop (\<lambda>f t arg u. u) (Some 1) OS_TMR_OPT_NONE NULL u)"
  have "OSTmrMatch (OSTmrTbl (ex_timers 1 s) 0) = OSTmrTime (ex_timers 1 s)"
    "OSTmrMatch (OSTmrTbl (ex_timers 1 s) 1) = OSTmrTime (ex_timers 1 s)"
    "OSTmrCallback (OSTmrTbl (ex_timers 1 s) 0) = Some 0" "OSIntNesting (ex_timers 1 s) = 0"
    by (simp_all add: ex_timers_def)
  from stop_in_callback_unlinks_twice [OF ex_timers_inv [of 1 s] _ this, of 1 "[]" "[]" ?cb]
  show "let cb = ?cb; e = OSTmr_Expire cb 0 (ex_timers 1 s)
    in OSTmrState (OSTmrTbl e 1) = OS_TMR_STATE_STOPPED \<and> OSTmrPrev (OSTmrTbl e 1) = None \<and>
       OSTmr_Walk cb (Some 0) (ex_timers 1 s) = Some (OSTmr_Expire cb 1 e)"
    by (simp add: Let_def)
qed

lemma timers_stay_linked_witness:
  "\<forall>k s. \<exists>W fs. tmr_inv (fst (OSTmrCreate 3 0 OS_TMR_OPT_ONE_SHOT None NULL None (OSTmr_Init k s))) W fs"
  using timers_stay_linked [OF ex_callback_polite tmr_reach.step [OF tmr_reach.init tmr_step.create]] by blast

end
