(* ===== verification/FRTOS_List.thy ===== *)
theory FRTOS_List
  imports UCOS_Prelude "HOL-Library.While_Combinator" "HOL-Library.Multiset"
begin

text \<open>
  The lists of FreeRTOS, \<open>list.c\<close> and \<open>list.h\<close>: circular doubly linked lists whose end marker
  \<open>xListEnd\<close> is part of the list structure.  Every queue of tasks of that kernel is one of them.
  \<open>'i\<close> names the items and \<open>'l\<close> the lists of a program that uses them.
\<close>

type_synonym TickType = "32 word"
type_synonym UBaseType = "32 word"

abbreviation (input) portMAX_DELAY :: TickType where "portMAX_DELAY \<equiv> 0xFFFFFFFF"

text \<open>A \<open>ListItem_t *\<close>: an item, or the end marker of a list, cast to that type.\<close>

datatype ('i, 'l) item_ptr = Item 'i | End 'l

record ('i, 'l) list_item =
  xItemValue :: TickType
  pxNext :: "('i, 'l) item_ptr"
  pxPrevious :: "('i, 'l) item_ptr"
  pvOwner :: "nat option"
  pxContainer :: "'l option"

record ('i, 'l) xlist =
  uxNumberOfItems :: UBaseType
  pxIndex :: "('i, 'l) item_ptr"

text \<open>The items and end markers, and the rest of the list structures.\<close>

record ('i, 'l) lists =
  xItems :: "('i, 'l) item_ptr \<Rightarrow> ('i, 'l) list_item"
  xLists :: "'l \<Rightarrow> ('i, 'l) xlist"

definition upd_item :: "('i, 'l) item_ptr \<Rightarrow> (('i, 'l) list_item \<Rightarrow> ('i, 'l) list_item)
    \<Rightarrow> ('i, 'l, 'z) lists_scheme \<Rightarrow> ('i, 'l, 'z) lists_scheme" where
  "upd_item p f s = s\<lparr>xItems := (xItems s)(p := f (xItems s p))\<rparr>"

definition upd_list :: "'l \<Rightarrow> (('i, 'l) xlist \<Rightarrow> ('i, 'l) xlist)
    \<Rightarrow> ('i, 'l, 'z) lists_scheme \<Rightarrow> ('i, 'l, 'z) lists_scheme" where
  "upd_list l f s = s\<lparr>xLists := (xLists s)(l := f (xLists s l))\<rparr>"

section \<open>The operations\<close>

definition vListInitialise :: "'l \<Rightarrow> ('i, 'l, 'z) lists_scheme \<Rightarrow> ('i, 'l, 'z) lists_scheme" where
  "vListInitialise l s =
     (let s = upd_list l (\<lambda>p. p\<lparr>pxIndex := End l\<rparr>) s;
          s = upd_item (End l) (\<lambda>p. p\<lparr>xItemValue := portMAX_DELAY\<rparr>) s;
          s = upd_item (End l) (\<lambda>p. p\<lparr>pxNext := End l, pxPrevious := End l\<rparr>) s
      in upd_list l (\<lambda>p. p\<lparr>uxNumberOfItems := 0\<rparr>) s)"

definition vListInitialiseItem :: "'i \<Rightarrow> ('i, 'l, 'z) lists_scheme \<Rightarrow> ('i, 'l, 'z) lists_scheme" where
  "vListInitialiseItem i s = upd_item (Item i) (\<lambda>p. p\<lparr>pxContainer := None\<rparr>) s"

definition vListInsertEnd :: "'l \<Rightarrow> 'i \<Rightarrow> ('i, 'l, 'z) lists_scheme \<Rightarrow> ('i, 'l, 'z) lists_scheme" where
  "vListInsertEnd l i s =
     (let index = pxIndex (xLists s l);
          s = upd_item (Item i) (\<lambda>p. p\<lparr>pxNext := index\<rparr>) s;
          s = upd_item (Item i) (\<lambda>p. p\<lparr>pxPrevious := pxPrevious (xItems s index)\<rparr>) s;
          s = upd_item (pxPrevious (xItems s index)) (\<lambda>p. p\<lparr>pxNext := Item i\<rparr>) s;
          s = upd_item index (\<lambda>p. p\<lparr>pxPrevious := Item i\<rparr>) s;
          s = upd_item (Item i) (\<lambda>p. p\<lparr>pxContainer := Some l\<rparr>) s
      in upd_list l (\<lambda>p. p\<lparr>uxNumberOfItems := uxNumberOfItems p + 1\<rparr>) s)"

text \<open>
  The search for the place, which ends in an intact list because the marker has the largest value;
  \<open>None\<close> when it does not end.
\<close>

definition list_find :: "'l \<Rightarrow> TickType \<Rightarrow> ('i, 'l, 'z) lists_scheme \<Rightarrow> ('i, 'l) item_ptr option" where
  "list_find l v s =
     (if v = portMAX_DELAY then Some (pxPrevious (xItems s (End l)))
      else while_option (\<lambda>it. xItemValue (xItems s (pxNext (xItems s it))) \<le> v)
             (\<lambda>it. pxNext (xItems s it)) (End l))"

definition list_link :: "'l \<Rightarrow> 'i \<Rightarrow> ('i, 'l) item_ptr \<Rightarrow> ('i, 'l, 'z) lists_scheme
    \<Rightarrow> ('i, 'l, 'z) lists_scheme" where
  "list_link l i it s =
     (let s = upd_item (Item i) (\<lambda>p. p\<lparr>pxNext := pxNext (xItems s it)\<rparr>) s;
          s = upd_item (pxNext (xItems s (Item i))) (\<lambda>p. p\<lparr>pxPrevious := Item i\<rparr>) s;
          s = upd_item (Item i) (\<lambda>p. p\<lparr>pxPrevious := it\<rparr>) s;
          s = upd_item it (\<lambda>p. p\<lparr>pxNext := Item i\<rparr>) s;
          s = upd_item (Item i) (\<lambda>p. p\<lparr>pxContainer := Some l\<rparr>) s
      in upd_list l (\<lambda>p. p\<lparr>uxNumberOfItems := uxNumberOfItems p + 1\<rparr>) s)"

definition vListInsert :: "'l \<Rightarrow> 'i \<Rightarrow> ('i, 'l, 'z) lists_scheme \<Rightarrow> ('i, 'l, 'z) lists_scheme option" where
  "vListInsert l i s =
     map_option (\<lambda>it. list_link l i it s) (list_find l (xItemValue (xItems s (Item i))) s)"

text \<open>Removing an item that is in no list goes through a null pointer: \<open>None\<close>.\<close>

definition uxListRemove :: "'i \<Rightarrow> ('i, 'l, 'z) lists_scheme \<Rightarrow> (('i, 'l, 'z) lists_scheme \<times> UBaseType) option" where
  "uxListRemove i s =
     (case pxContainer (xItems s (Item i)) of
        None \<Rightarrow> None
      | Some l \<Rightarrow>
          let s = upd_item (pxNext (xItems s (Item i))) (\<lambda>p. p\<lparr>pxPrevious := pxPrevious (xItems s (Item i))\<rparr>) s;
              s = upd_item (pxPrevious (xItems s (Item i))) (\<lambda>p. p\<lparr>pxNext := pxNext (xItems s (Item i))\<rparr>) s;
              s = (if pxIndex (xLists s l) = Item i
                   then upd_list l (\<lambda>p. p\<lparr>pxIndex := pxPrevious (xItems s (Item i))\<rparr>) s else s);
              s = upd_item (Item i) (\<lambda>p. p\<lparr>pxContainer := None\<rparr>) s;
              s = upd_list l (\<lambda>p. p\<lparr>uxNumberOfItems := uxNumberOfItems p - 1\<rparr>) s
          in Some (s, uxNumberOfItems (xLists s l)))"

text \<open>The inline versions of the two in \<open>list.h\<close>.\<close>

definition listREMOVE_ITEM :: "'i \<Rightarrow> ('i, 'l, 'z) lists_scheme \<Rightarrow> ('i, 'l, 'z) lists_scheme option" where
  "listREMOVE_ITEM i s =
     (case pxContainer (xItems s (Item i)) of
        None \<Rightarrow> None
      | Some l \<Rightarrow>
          let s = upd_item (pxNext (xItems s (Item i))) (\<lambda>p. p\<lparr>pxPrevious := pxPrevious (xItems s (Item i))\<rparr>) s;
              s = upd_item (pxPrevious (xItems s (Item i))) (\<lambda>p. p\<lparr>pxNext := pxNext (xItems s (Item i))\<rparr>) s;
              s = (if pxIndex (xLists s l) = Item i
                   then upd_list l (\<lambda>p. p\<lparr>pxIndex := pxPrevious (xItems s (Item i))\<rparr>) s else s);
              s = upd_item (Item i) (\<lambda>p. p\<lparr>pxContainer := None\<rparr>) s
          in Some (upd_list l (\<lambda>p. p\<lparr>uxNumberOfItems := uxNumberOfItems p - 1\<rparr>) s))"

definition listINSERT_END :: "'l \<Rightarrow> 'i \<Rightarrow> ('i, 'l, 'z) lists_scheme \<Rightarrow> ('i, 'l, 'z) lists_scheme" where
  "listINSERT_END l i s =
     (let index = pxIndex (xLists s l);
          s = upd_item (Item i) (\<lambda>p. p\<lparr>pxNext := index\<rparr>) s;
          s = upd_item (Item i) (\<lambda>p. p\<lparr>pxPrevious := pxPrevious (xItems s index)\<rparr>) s;
          s = upd_item (pxPrevious (xItems s index)) (\<lambda>p. p\<lparr>pxNext := Item i\<rparr>) s;
          s = upd_item index (\<lambda>p. p\<lparr>pxPrevious := Item i\<rparr>) s;
          s = upd_item (Item i) (\<lambda>p. p\<lparr>pxContainer := Some l\<rparr>) s
      in upd_list l (\<lambda>p. p\<lparr>uxNumberOfItems := uxNumberOfItems p + 1\<rparr>) s)"

text \<open>The access macros of \<open>list.h\<close>.\<close>

definition listSET_LIST_ITEM_OWNER :: "'i \<Rightarrow> nat \<Rightarrow> ('i, 'l, 'z) lists_scheme \<Rightarrow> ('i, 'l, 'z) lists_scheme" where
  "listSET_LIST_ITEM_OWNER i owner s = upd_item (Item i) (\<lambda>p. p\<lparr>pvOwner := Some owner\<rparr>) s"

definition listSET_LIST_ITEM_VALUE :: "'i \<Rightarrow> TickType \<Rightarrow> ('i, 'l, 'z) lists_scheme \<Rightarrow> ('i, 'l, 'z) lists_scheme" where
  "listSET_LIST_ITEM_VALUE i v s = upd_item (Item i) (\<lambda>p. p\<lparr>xItemValue := v\<rparr>) s"

definition listGET_LIST_ITEM_VALUE :: "'i \<Rightarrow> ('i, 'l, 'z) lists_scheme \<Rightarrow> TickType" where
  "listGET_LIST_ITEM_VALUE i s = xItemValue (xItems s (Item i))"

definition listGET_LIST_ITEM_OWNER :: "'i \<Rightarrow> ('i, 'l, 'z) lists_scheme \<Rightarrow> nat option" where
  "listGET_LIST_ITEM_OWNER i s = pvOwner (xItems s (Item i))"

definition listGET_NEXT :: "('i, 'l) item_ptr \<Rightarrow> ('i, 'l, 'z) lists_scheme \<Rightarrow> ('i, 'l) item_ptr" where
  "listGET_NEXT p s = pxNext (xItems s p)"

definition listGET_ITEM_VALUE_OF_HEAD_ENTRY :: "'l \<Rightarrow> ('i, 'l, 'z) lists_scheme \<Rightarrow> TickType" where
  "listGET_ITEM_VALUE_OF_HEAD_ENTRY l s = xItemValue (xItems s (pxNext (xItems s (End l))))"

definition listGET_HEAD_ENTRY :: "'l \<Rightarrow> ('i, 'l, 'z) lists_scheme \<Rightarrow> ('i, 'l) item_ptr" where
  "listGET_HEAD_ENTRY l s = pxNext (xItems s (End l))"

definition listLIST_IS_EMPTY :: "'l \<Rightarrow> ('i, 'l, 'z) lists_scheme \<Rightarrow> bool" where
  "listLIST_IS_EMPTY l s \<longleftrightarrow> uxNumberOfItems (xLists s l) = 0"

definition listCURRENT_LIST_LENGTH :: "'l \<Rightarrow> ('i, 'l, 'z) lists_scheme \<Rightarrow> UBaseType" where
  "listCURRENT_LIST_LENGTH l s = uxNumberOfItems (xLists s l)"

definition listGET_OWNER_OF_NEXT_ENTRY ::
    "'l \<Rightarrow> ('i, 'l, 'z) lists_scheme \<Rightarrow> ('i, 'l, 'z) lists_scheme \<times> nat option" where
  "listGET_OWNER_OF_NEXT_ENTRY l s =
     (let s = upd_list l (\<lambda>p. p\<lparr>pxIndex := pxNext (xItems s (pxIndex p))\<rparr>) s;
          s = (if pxIndex (xLists s l) = End l
               then upd_list l (\<lambda>p. p\<lparr>pxIndex := pxNext (xItems s (End l))\<rparr>) s else s)
      in (s, pvOwner (xItems s (pxIndex (xLists s l)))))"

definition listGET_OWNER_OF_HEAD_ENTRY :: "'l \<Rightarrow> ('i, 'l, 'z) lists_scheme \<Rightarrow> nat option" where
  "listGET_OWNER_OF_HEAD_ENTRY l s = pvOwner (xItems s (pxNext (xItems s (End l))))"

definition listIS_CONTAINED_WITHIN :: "'l \<Rightarrow> 'i \<Rightarrow> ('i, 'l, 'z) lists_scheme \<Rightarrow> bool" where
  "listIS_CONTAINED_WITHIN l i s \<longleftrightarrow> pxContainer (xItems s (Item i)) = Some l"

definition listLIST_ITEM_CONTAINER :: "'i \<Rightarrow> ('i, 'l, 'z) lists_scheme \<Rightarrow> 'l option" where
  "listLIST_ITEM_CONTAINER i s = pxContainer (xItems s (Item i))"

text \<open>The inline versions do what the functions do.\<close>

lemma listREMOVE_ITEM_eq: "listREMOVE_ITEM i s = map_option fst (uxListRemove i s)"
  by (simp add: listREMOVE_ITEM_def uxListRemove_def Let_def split: option.split)

lemma listINSERT_END_eq: "listINSERT_END l i s = vListInsertEnd l i s"
  by (simp add: listINSERT_END_def vListInsertEnd_def)

section \<open>The ring a list is\<close>

text \<open>Neighbours in a sequence of pointers are linked both ways.\<close>

definition linked :: "('p \<Rightarrow> 'p) \<Rightarrow> ('p \<Rightarrow> 'p) \<Rightarrow> 'p \<Rightarrow> 'p \<Rightarrow> bool" where
  "linked nx pv p q \<longleftrightarrow> nx p = q \<and> pv q = p"

lemma linked_cong:
  "successively (linked nx pv) ps \<Longrightarrow> (\<And>p. p \<in> set (butlast ps) \<Longrightarrow> nx' p = nx p) \<Longrightarrow>
   (\<And>p. p \<in> set (tl ps) \<Longrightarrow> pv' p = pv p) \<Longrightarrow> successively (linked nx' pv') ps"
proof (induction ps)
  case (Cons p ps)
  then show ?case
    by (cases ps) (auto simp: linked_def split: if_splits)
qed simp

text \<open>Inserting \<open>z\<close> between the two parts of a ring, and taking it out again.\<close>

lemma ring_insert:
  assumes r: "successively (linked nx pv) (e # xs @ ys @ [e])" and d: "distinct (e # xs @ ys)"
    and z: "z \<notin> set (e # xs @ ys)"
    and nx': "\<And>p. nx' p = (if p = last (e # xs) then z else if p = z then hd (ys @ [e]) else nx p)"
    and pv': "\<And>p. pv' p = (if p = hd (ys @ [e]) then z else if p = z then last (e # xs) else pv p)"
  shows "successively (linked nx' pv') (e # xs @ z # ys @ [e])"
proof -
  let ?a = "e # xs" and ?b = "ys @ [e]"
  have r': "successively (linked nx pv) (?a @ ?b)" using r by simp
  have ab: "successively (linked nx pv) ?a" "successively (linked nx pv) ?b"
    using r' unfolding successively_append_iff by blast+
  have a: "successively (linked nx' pv') ?a"
  proof (rule linked_cong [OF ab(1)])
    fix p assume p: "p \<in> set (butlast ?a)"
    have "?a = butlast ?a @ [last ?a]" by simp
    then have "distinct (butlast ?a @ [last ?a])" using d by (metis distinct_append append_Cons)
    then have "p \<noteq> last ?a" using p by auto
    moreover have "p \<noteq> z" using p z in_set_butlastD [OF p] by auto
    ultimately show "nx' p = nx p" by (simp add: nx')
  next
    fix p assume p: "p \<in> set (tl ?a)"
    then show "pv' p = pv p" using d z by (cases ys) (auto simp: pv')
  qed
  have b: "successively (linked nx' pv') ?b"
  proof (rule linked_cong [OF ab(2)])
    fix p assume p: "p \<in> set (butlast ?b)"
    then have "p \<in> set ys" by simp
    moreover have "last ?a \<in> set ?a" by (rule last_in_set) simp
    ultimately show "nx' p = nx p" using d z by (auto simp: nx' simp del: last.simps)
  next
    fix p assume "p \<in> set (tl ?b)"
    then show "pv' p = pv p" using d z by (cases ys) (auto simp: pv')
  qed
  have "last ?a \<noteq> z" using z last_in_set [of ?a] by auto
  moreover have "hd ?b \<noteq> z" using z by (cases ys) auto
  ultimately have "linked nx' pv' (last ?a) z" "linked nx' pv' z (hd ?b)"
    by (auto simp: linked_def nx' pv' simp del: last.simps)
  with a b have "successively (linked nx' pv') (?a @ z # ?b)"
    unfolding successively_append_iff successively_Cons by simp
  then show ?thesis by simp
qed

lemma ring_remove:
  assumes r: "successively (linked nx pv) (e # xs @ z # ys @ [e])" and d: "distinct (e # xs @ z # ys)"
    and nx': "\<And>p. p \<noteq> z \<Longrightarrow> nx' p = (if p = pv z then nx z else nx p)"
    and pv': "\<And>p. p \<noteq> z \<Longrightarrow> pv' p = (if p = nx z then pv z else pv p)"
  shows "successively (linked nx' pv') (e # xs @ ys @ [e])"
    and "pv z = last (e # xs)" and "nx z = hd (ys @ [e])"
proof -
  let ?a = "e # xs" and ?b = "ys @ [e]"
  have "successively (linked nx pv) (?a @ z # ?b)" using r by simp
  then have ab: "successively (linked nx pv) ?a" "successively (linked nx pv) ?b"
    and l: "linked nx pv (last ?a) z" "linked nx pv z (hd ?b)"
    unfolding successively_append_iff successively_Cons by auto
  show pz: "pv z = last ?a" and nz: "nx z = hd ?b" using l by (simp_all add: linked_def)
  have a: "successively (linked nx' pv') ?a"
  proof (rule linked_cong [OF ab(1)])
    fix p assume p: "p \<in> set (butlast ?a)"
    have "?a = butlast ?a @ [last ?a]" by simp
    moreover have "distinct ?a" using d by simp
    ultimately have "distinct (butlast ?a @ [last ?a])" by (simp del: append_butlast_last_id)
    then have "p \<noteq> last ?a" using p by auto
    moreover have "p \<noteq> z" using d in_set_butlastD [OF p] by auto
    ultimately show "nx' p = nx p" by (simp add: nx' pz del: last.simps)
  next
    fix p assume p: "p \<in> set (tl ?a)"
    then have "p \<noteq> z" "p \<noteq> hd ?b" using d by (cases ys; auto)+
    then show "pv' p = pv p" by (simp add: pv' nz)
  qed
  have b: "successively (linked nx' pv') ?b"
  proof (rule linked_cong [OF ab(2)])
    fix p assume p: "p \<in> set (butlast ?b)"
    moreover have "last ?a \<in> set ?a" by (rule last_in_set) simp
    ultimately have "p \<noteq> z" "p \<noteq> last ?a" using d by (auto simp del: last.simps)
    then show "nx' p = nx p" by (simp add: nx' pz del: last.simps)
  next
    fix p assume "p \<in> set (tl ?b)"
    then have "p \<noteq> z" "p \<noteq> hd ?b" using d by (cases ys; auto)+
    then show "pv' p = pv p" by (simp add: pv' nz)
  qed
  have "last ?a \<noteq> z" using d last_in_set [of ?a] by auto
  moreover have "hd ?b \<noteq> z" using d by (cases ys) auto
  ultimately have "linked nx' pv' (last ?a) (hd ?b)" by (simp add: linked_def nx' pv' pz nz del: last.simps)
  with a b have "successively (linked nx' pv') (?a @ ?b)" unfolding successively_append_iff by simp
  then show "successively (linked nx' pv') (e # xs @ ys @ [e])" by simp
qed

definition nxt :: "('i, 'l, 'z) lists_scheme \<Rightarrow> ('i, 'l) item_ptr \<Rightarrow> ('i, 'l) item_ptr" where
  "nxt s p = pxNext (xItems s p)"

definition prv :: "('i, 'l, 'z) lists_scheme \<Rightarrow> ('i, 'l) item_ptr \<Rightarrow> ('i, 'l) item_ptr" where
  "prv s p = pxPrevious (xItems s p)"

definition item_value :: "('i, 'l, 'z) lists_scheme \<Rightarrow> 'i \<Rightarrow> TickType" where
  "item_value s i = xItemValue (xItems s (Item i))"

text \<open>The list \<open>l\<close> holds the items \<open>xs\<close>, in this order, and its index is the marker or one of them.\<close>

definition in_ring :: "('i, 'l, 'z) lists_scheme \<Rightarrow> 'l \<Rightarrow> 'i list \<Rightarrow> bool" where
  "in_ring s l xs \<longleftrightarrow> distinct xs \<and>
     successively (linked (nxt s) (prv s)) (End l # map Item xs @ [End l]) \<and>
     (\<forall>i. pxContainer (xItems s (Item i)) = Some l \<longleftrightarrow> i \<in> set xs) \<and>
     uxNumberOfItems (xLists s l) = of_nat (length xs) \<and>
     xItemValue (xItems s (End l)) = portMAX_DELAY \<and>
     pxIndex (xLists s l) \<in> set (End l # map Item xs)"

lemma ringD:
  assumes "in_ring s l xs"
  shows "distinct xs" and "successively (linked (nxt s) (prv s)) (End l # map Item xs @ [End l])"
    and "pxContainer (xItems s (Item i)) = Some l \<longleftrightarrow> i \<in> set xs"
    and "uxNumberOfItems (xLists s l) = of_nat (length xs)"
    and "xItemValue (xItems s (End l)) = portMAX_DELAY"
    and "pxIndex (xLists s l) \<in> set (End l # map Item xs)"
  using assms by (auto simp: in_ring_def)

lemma ring_distinct: "in_ring s l xs \<Longrightarrow> distinct (End l # map Item xs)"
  by (auto simp: in_ring_def distinct_map inj_on_def)

text \<open>What an operation on another list leaves of a ring: everything when its own pointers are kept.\<close>

lemma ring_cong:
  assumes r: "in_ring s l xs"
    and "\<And>p. p \<in> set (End l # map Item xs) \<Longrightarrow> nxt s' p = nxt s p \<and> prv s' p = prv s p"
    and "\<And>i. pxContainer (xItems s' (Item i)) = Some l \<longleftrightarrow> pxContainer (xItems s (Item i)) = Some l"
    and "xLists s' l = xLists s l" and "xItemValue (xItems s' (End l)) = xItemValue (xItems s (End l))"
  shows "in_ring s' l xs"
proof -
  have "successively (linked (nxt s') (prv s')) (End l # map Item xs @ [End l])"
    by (rule linked_cong [OF ringD(2) [OF r]]) (use assms(2) in \<open>auto simp: butlast_append\<close>)
  then show ?thesis using r assms(3-5) by (simp add: in_ring_def)
qed

lemma ring_neighbours:
  assumes r: "in_ring s l (xs @ ys)"
  shows "nxt s (last (End l # map Item xs)) = hd (map Item ys @ [End l])"
    and "prv s (hd (map Item ys @ [End l])) = last (End l # map Item xs)"
proof -
  have "successively (linked (nxt s) (prv s)) ((End l # map Item xs) @ (map Item ys @ [End l]))"
    using ringD(2) [OF r] by simp
  then show "nxt s (last (End l # map Item xs)) = hd (map Item ys @ [End l])"
    "prv s (hd (map Item ys @ [End l])) = last (End l # map Item xs)"
    unfolding successively_append_iff by (auto simp: linked_def simp del: last.simps)
qed

text \<open>A list that was just initialised is empty, whatever the memory held.\<close>

lemma vListInitialise_ring:
  assumes "\<And>i. pxContainer (xItems s (Item i)) \<noteq> Some l"
  shows "in_ring (vListInitialise l s) l []"
  using assms by (simp add: in_ring_def vListInitialise_def upd_item_def upd_list_def linked_def nxt_def prv_def Let_def)

section \<open>What the operations do to the rings\<close>

text \<open>\<open>inserts i l p q s s'\<close>: item \<open>i\<close> was linked between \<open>p\<close> and \<open>q\<close>.\<close>

definition inserts :: "'i \<Rightarrow> 'l \<Rightarrow> ('i, 'l) item_ptr \<Rightarrow> ('i, 'l) item_ptr \<Rightarrow> ('i, 'l, 'z) lists_scheme
    \<Rightarrow> ('i, 'l, 'z) lists_scheme \<Rightarrow> bool" where
  "inserts i l p q s s' \<longleftrightarrow>
     (\<forall>r. nxt s' r = (if r = p then Item i else if r = Item i then q else nxt s r)) \<and>
     (\<forall>r. prv s' r = (if r = q then Item i else if r = Item i then p else prv s r)) \<and>
     (\<forall>j. pxContainer (xItems s' (Item j)) = (if j = i then Some l else pxContainer (xItems s (Item j)))) \<and>
     (\<forall>r. xItemValue (xItems s' r) = xItemValue (xItems s r)) \<and>
     (\<forall>r. pvOwner (xItems s' r) = pvOwner (xItems s r)) \<and>
     (\<forall>k. xLists s' k = (if k = l then (xLists s l)\<lparr>uxNumberOfItems := uxNumberOfItems (xLists s l) + 1\<rparr>
                         else xLists s k))"

lemma link_inserts:
  assumes "it \<noteq> Item i" and "nxt s it \<noteq> Item i"
  shows "inserts i l it (nxt s it) s (list_link l i it s)"
  using assms by (auto simp: inserts_def list_link_def Let_def upd_item_def upd_list_def nxt_def prv_def)

lemma InsertEnd_inserts:
  assumes "pxIndex (xLists s l) \<noteq> Item i" and "prv s (pxIndex (xLists s l)) \<noteq> Item i"
  shows "inserts i l (prv s (pxIndex (xLists s l))) (pxIndex (xLists s l)) s (vListInsertEnd l i s)"
  using assms by (auto simp: inserts_def vListInsertEnd_def Let_def upd_item_def upd_list_def nxt_def prv_def)

lemma inserts_ring:
  assumes r: "in_ring s l (xs @ ys)" and i: "pxContainer (xItems s (Item i)) = None"
    and ins: "inserts i l (last (End l # map Item xs)) (hd (map Item ys @ [End l])) s s'"
  shows "in_ring s' l (xs @ i # ys)"
proof -
  have ni: "i \<notin> set (xs @ ys)" using ringD(3) [OF r, of i] i by simp
  have "successively (linked (nxt s') (prv s')) (End l # map Item xs @ Item i # map Item ys @ [End l])"
    by (rule ring_insert [of "nxt s" "prv s"])
      (use ringD(2) [OF r] ring_distinct [OF r] ni ins in \<open>auto simp: inserts_def\<close>)
  moreover have "pxIndex (xLists s l) \<in> set (End l # map Item (xs @ i # ys))" using ringD(6) [OF r] by auto
  ultimately show ?thesis
    using ni ringD(1,3,4,5) [OF r] ins by (auto simp: in_ring_def inserts_def)
qed

lemma ring_disjoint: "in_ring s l xs \<Longrightarrow> in_ring s k ys \<Longrightarrow> k \<noteq> l \<Longrightarrow> i \<in> set xs \<Longrightarrow> i \<notin> set ys"
  using ringD(3) [of s l xs i] ringD(3) [of s k ys i] by auto

lemma inserts_other:
  assumes r: "in_ring s l xs" and i: "pxContainer (xItems s (Item i)) = None"
    and ins: "inserts i l p q s s'" and pq: "p \<in> set (End l # map Item xs)" "q \<in> set (End l # map Item xs)"
    and k: "k \<noteq> l" "in_ring s k ys"
  shows "in_ring s' k ys"
proof (rule ring_cong [OF k(2)])
  fix u assume u: "u \<in> set (End k # map Item ys)"
  have "u \<notin> set (End l # map Item xs)" using u k ring_disjoint [OF r k(2,1)] by auto
  moreover have "u \<noteq> Item i" using u i ringD(3) [OF k(2), of i] by auto
  ultimately show "nxt s' u = nxt s u \<and> prv s' u = prv s u" using ins pq by (auto simp: inserts_def)
next
  show "pxContainer (xItems s' (Item j)) = Some k \<longleftrightarrow> pxContainer (xItems s (Item j)) = Some k" for j
    using ins i k(1) by (auto simp: inserts_def)
qed (use ins k(1) in \<open>simp_all add: inserts_def\<close>)

lemma last_in_ring: "last (End l # map Item xs) \<in> set (End l # map Item (xs @ ys))"
  by (cases xs rule: rev_cases) auto

lemma hd_in_ring: "hd (map Item ys @ [End l]) \<in> set (End l # map Item (xs @ ys))"
  by (cases ys) auto

text \<open>\<open>vListInsertEnd\<close> puts the item in front of the index.\<close>

lemma vListInsertEnd_ring:
  assumes r: "in_ring s l (xs @ ys)" and i: "pxContainer (xItems s (Item i)) = None"
    and ix: "pxIndex (xLists s l) = hd (map Item ys @ [End l])"
  shows "in_ring (vListInsertEnd l i s) l (xs @ i # ys)"
    and "k \<noteq> l \<Longrightarrow> in_ring s k zs \<Longrightarrow> in_ring (vListInsertEnd l i s) k zs"
    and "pxIndex (xLists (vListInsertEnd l i s) k') = pxIndex (xLists s k')"
proof -
  let ?p = "last (End l # map Item xs)" and ?q = "hd (map Item ys @ [End l])"
  have p: "prv s ?q = ?p" by (rule ring_neighbours(2) [OF r])
  have ni: "i \<notin> set (xs @ ys)" using ringD(3) [OF r, of i] i by simp
  have n: "?p \<noteq> Item i" "?q \<noteq> Item i"
    using ni last_in_ring [of l xs ys] hd_in_ring [of ys l xs] by auto
  have ins: "inserts i l ?p ?q s (vListInsertEnd l i s)"
    using InsertEnd_inserts [of s l i] n p unfolding ix by simp
  show "in_ring (vListInsertEnd l i s) l (xs @ i # ys)" by (rule inserts_ring [OF r i ins])
  show "k \<noteq> l \<Longrightarrow> in_ring s k zs \<Longrightarrow> in_ring (vListInsertEnd l i s) k zs"
    by (rule inserts_other [OF r i ins last_in_ring hd_in_ring])
  show "pxIndex (xLists (vListInsertEnd l i s) k') = pxIndex (xLists s k')"
    by (simp add: vListInsertEnd_def Let_def upd_item_def upd_list_def)
qed

lemma le_max_delay: "v \<le> portMAX_DELAY"
proof -
  have "portMAX_DELAY = - 1" by simp
  then show ?thesis by (simp only: word_order.extremum)
qed

lemma max_delay_le: "portMAX_DELAY \<le> v \<longleftrightarrow> v = portMAX_DELAY"
  using le_max_delay [of v] by auto

text \<open>The search stops behind the items that are not greater, at the latest at the marker.\<close>

lemma list_find_from:
  assumes r: "in_ring s l (xs @ ys)" and v: "v \<noteq> portMAX_DELAY"
  shows "while_option (\<lambda>it. xItemValue (xItems s (pxNext (xItems s it))) \<le> v)
             (\<lambda>it. pxNext (xItems s it)) (last (End l # map Item xs))
     = Some (last (End l # map Item (xs @ takeWhile (\<lambda>j. item_value s j \<le> v) ys)))"
  using r
proof (induction ys arbitrary: xs)
  case Nil
  have "nxt s (last (End l # map Item xs)) = End l" using ring_neighbours(1) [OF Nil] by simp
  moreover have "\<not> portMAX_DELAY \<le> v" using v max_delay_le by blast
  ultimately show ?case using ringD(5) [OF Nil]
    by (subst while_option_unfold) (simp add: nxt_def del: last.simps)
next
  case (Cons y ys)
  have n: "nxt s (last (End l # map Item xs)) = Item y" using ring_neighbours(1) [OF Cons.prems] by simp
  have r: "in_ring s l ((xs @ [y]) @ ys)" using Cons.prems by simp
  show ?case
  proof (cases "item_value s y \<le> v")
    case True
    then show ?thesis using Cons.IH [OF r] n
      by (subst while_option_unfold) (simp add: nxt_def item_value_def)
  next
    case False
    then show ?thesis using n
      by (subst while_option_unfold) (simp add: nxt_def item_value_def del: last.simps)
  qed
qed

lemma list_find_ring:
  assumes r: "in_ring s l xs" and v: "v = portMAX_DELAY \<Longrightarrow> \<forall>j\<in>set xs. item_value s j \<le> v"
  shows "list_find l v s = Some (last (End l # map Item (takeWhile (\<lambda>j. item_value s j \<le> v) xs)))"
proof (cases "v = portMAX_DELAY")
  case True
  have "\<forall>j\<in>set xs. item_value s j \<le> v" by (rule v [OF True])
  then have tw: "takeWhile (\<lambda>j. item_value s j \<le> v) xs = xs" by (simp add: takeWhile_eq_all_conv)
  have "prv s (End l) = last (End l # map Item xs)" using ring_neighbours(2) [of s l xs "[]"] r by simp
  then show ?thesis unfolding tw using True by (simp add: list_find_def prv_def del: last.simps)
next
  case False
  then show ?thesis using list_find_from [of s l "[]" xs v] r by (simp add: list_find_def)
qed

lemma max_delay_top: "v = portMAX_DELAY \<Longrightarrow> \<forall>j\<in>set xs. item_value s j \<le> v"
  using le_max_delay by auto

text \<open>\<open>vListInsert\<close> always returns, and puts the item behind those that are not greater.\<close>

lemma vListInsert_ring:
  fixes s :: "('i, 'l, 'z) lists_scheme"
  assumes r: "in_ring s l xs" and i: "pxContainer (xItems s (Item i)) = None"
  defines "le \<equiv> \<lambda>j. item_value s j \<le> item_value s i"
  shows "\<exists>s'. vListInsert l i s = Some s' \<and> in_ring s' l (takeWhile le xs @ i # dropWhile le xs) \<and>
    (\<forall>k zs. k \<noteq> l \<longrightarrow> in_ring s k zs \<longrightarrow> in_ring s' k zs) \<and>
    (\<forall>k. pxIndex (xLists s' k) = pxIndex (xLists s k)) \<and>
    (\<forall>j. item_value s' j = item_value s j \<and> pvOwner (xItems s' (Item j)) = pvOwner (xItems s (Item j)))"
proof -
  let ?a = "takeWhile le xs" and ?b = "dropWhile le xs"
  let ?it = "last (End l # map Item ?a)"
  let ?s = "list_link l i ?it s"
  have r': "in_ring s l (?a @ ?b)" using r by simp
  have f: "list_find l (xItemValue (xItems s (Item i))) s = Some ?it"
    using list_find_ring [OF r max_delay_top, of "item_value s i"] by (simp add: le_def item_value_def)
  have ni: "i \<notin> set xs" using ringD(3) [OF r, of i] i by simp
  have n: "?it \<noteq> Item i" using ni last_in_ring [of l ?a ?b] by auto
  have nx: "nxt s ?it = hd (map Item ?b @ [End l])" by (rule ring_neighbours(1) [OF r'])
  then have "nxt s ?it \<noteq> Item i" using ni hd_in_ring [of ?b l ?a] by auto
  from link_inserts [OF n this] nx have ins: "inserts i l ?it (hd (map Item ?b @ [End l])) s ?s" by simp
  have "in_ring ?s l (?a @ i # ?b)" by (rule inserts_ring [OF r' i ins])
  moreover have "in_ring ?s k zs" if "k \<noteq> l" "in_ring s k zs" for k zs
    by (rule inserts_other [OF r' i ins last_in_ring hd_in_ring that])
  moreover have "vListInsert l i s = Some ?s" by (simp add: vListInsert_def f)
  moreover have "pxIndex (xLists ?s k) = pxIndex (xLists s k)" for k using ins by (simp add: inserts_def)
  moreover have "item_value ?s j = item_value s j" "pvOwner (xItems ?s (Item j)) = pvOwner (xItems s (Item j))" for j
    using ins by (simp_all add: inserts_def item_value_def)
  ultimately show ?thesis by blast
qed

text \<open>\<open>uxListRemove\<close> takes the item out and returns the number of those left.\<close>

lemma uxListRemove_ring:
  assumes r: "in_ring s l xs" and i: "i \<in> set xs"
  shows "\<exists>s'. uxListRemove i s = Some (s', of_nat (length xs - 1)) \<and> in_ring s' l (remove1 i xs) \<and>
    (\<forall>k zs. k \<noteq> l \<longrightarrow> in_ring s k zs \<longrightarrow> in_ring s' k zs) \<and> pxContainer (xItems s' (Item i)) = None \<and>
    (\<forall>j. j \<noteq> i \<longrightarrow> pxContainer (xItems s' (Item j)) = pxContainer (xItems s (Item j))) \<and>
    (\<forall>k. pxIndex (xLists s' k) = (if k = l \<and> pxIndex (xLists s l) = Item i then prv s (Item i) else pxIndex (xLists s k))) \<and>
    (\<forall>j. item_value s' j = item_value s j \<and> pvOwner (xItems s' (Item j)) = pvOwner (xItems s (Item j)))"
proof -
  obtain as bs where xs: "xs = as @ i # bs" and na: "i \<notin> set as" using split_list_first [OF i] by blast
  have c: "pxContainer (xItems s (Item i)) = Some l" using ringD(3) [OF r, of i] i by simp
  have sq: "successively (linked (nxt s) (prv s)) (End l # map Item as @ Item i # map Item bs @ [End l])"
    using ringD(2) [OF r] by (simp add: xs)
  have dq: "distinct (End l # map Item as @ Item i # map Item bs)" using ring_distinct [OF r] by (simp add: xs)
  obtain s' n where s': "uxListRemove i s = Some (s', n)" by (auto simp: uxListRemove_def c Let_def)
  have pn: "prv s (Item i) = last (End l # map Item as)" "nxt s (Item i) = hd (map Item bs @ [End l])"
    using ring_remove(2,3) [OF sq dq, of "\<lambda>p. if p = prv s (Item i) then nxt s (Item i) else nxt s p"
        "\<lambda>p. if p = nxt s (Item i) then prv s (Item i) else prv s p"] by simp_all
  have ne: "prv s (Item i) \<noteq> Item i" "nxt s (Item i) \<noteq> Item i"
    using dq last_in_ring [of l as bs] hd_in_ring [of bs l as] by (auto simp: pn simp del: last.simps)
  have v: "nxt s' p = (if p = prv s (Item i) then nxt s (Item i) else nxt s p)"
    "prv s' p = (if p = nxt s (Item i) then prv s (Item i) else prv s p)"
    "pxContainer (xItems s' (Item j)) = (if j = i then None else pxContainer (xItems s (Item j)))"
    "xItemValue (xItems s' p) = xItemValue (xItems s p)" "pvOwner (xItems s' p) = pvOwner (xItems s p)"
    "pxIndex (xLists s' k) = (if k = l \<and> pxIndex (xLists s l) = Item i then prv s (Item i) else pxIndex (xLists s k))"
    "uxNumberOfItems (xLists s' k) = (if k = l then uxNumberOfItems (xLists s l) - 1 else uxNumberOfItems (xLists s k))"
    "n = uxNumberOfItems (xLists s l) - 1" for p j k
    using s' ne by (auto simp: uxListRemove_def c Let_def upd_item_def upd_list_def nxt_def prv_def)
  have len: "of_nat (length xs) - 1 = (of_nat (length xs - 1) :: UBaseType)" using i by (cases xs) simp_all
  have rm: "remove1 i xs = as @ bs" using xs na by (simp add: remove1_append)
  have "successively (linked (nxt s') (prv s')) (End l # map Item as @ map Item bs @ [End l])"
    by (rule ring_remove(1) [OF sq dq]) (simp_all add: v)
  moreover have "prv s (Item i) \<in> set (End l # map Item (as @ bs))" using last_in_ring [of l as bs] by (simp add: pn del: last.simps)
  moreover have "pxIndex (xLists s l) \<in> set (End l # map Item (as @ bs))" if "pxIndex (xLists s l) \<noteq> Item i"
    using ringD(6) [OF r] that by (auto simp: xs)
  moreover have "distinct (as @ bs)" "i \<notin> set (as @ bs)" using ringD(1) [OF r] by (simp_all add: xs)
  moreover have "length (as @ bs) = length xs - 1" by (simp add: xs)
  ultimately have r': "in_ring s' l (as @ bs)"
    using ringD(3,4,5) [OF r] len unfolding in_ring_def v by (auto simp: xs)
  have "in_ring s' k zs" if k: "k \<noteq> l" "in_ring s k zs" for k zs
  proof (rule ring_cong [OF k(2)])
    fix u assume u: "u \<in> set (End k # map Item zs)"
    have "u \<notin> set (End l # map Item (as @ bs))" using u k ring_disjoint [OF r k(2,1)] by (auto simp: xs)
    then show "nxt s' u = nxt s u \<and> prv s' u = prv s u"
      using last_in_ring [of l as bs] hd_in_ring [of bs l as] by (auto simp: v pn simp del: last.simps)
  next
    show "pxContainer (xItems s' (Item j)) = Some k \<longleftrightarrow> pxContainer (xItems s (Item j)) = Some k" for j
      using c k(1) by (auto simp: v)
  next
    show "xLists s' k = xLists s k" using k(1) v(6,7) [of k] by (intro xlist.equality) simp_all
  qed (simp add: v)
  then show ?thesis using s' r' rm v len ringD(4) [OF r] by (auto simp: item_value_def)
qed

section \<open>Sorted insertion\<close>

lemma sorted_between:
  "sorted (map f xs) \<Longrightarrow> sorted (map f ys) \<Longrightarrow> \<forall>j\<in>set xs. f j \<le> f i \<Longrightarrow> \<forall>j\<in>set ys. f i \<le> f j \<Longrightarrow>
   sorted (map f (xs @ i # ys))"
  by (fastforce simp: sorted_append)

lemma sorted_key_insert:
  fixes f :: "'i \<Rightarrow> 'b :: linorder"
  assumes "sorted (map f xs)"
  shows "sorted (map f (takeWhile (\<lambda>j. f j \<le> f i) xs @ i # dropWhile (\<lambda>j. f j \<le> f i) xs))"
proof -
  let ?a = "takeWhile (\<lambda>j. f j \<le> f i) xs" and ?b = "dropWhile (\<lambda>j. f j \<le> f i) xs"
  have "sorted (map f (?a @ ?b))" using assms by simp
  then have "sorted (map f ?a)" "sorted (map f ?b)" unfolding map_append sorted_append by blast+
  moreover have "\<forall>j\<in>set ?b. f i \<le> f j"
    using assms by (induction xs) (auto split: if_splits)
  moreover have "\<forall>j\<in>set ?a. f j \<le> f i" using set_takeWhileD by fastforce
  ultimately show ?thesis by (intro sorted_between)
qed

lemma key_insert_stable:
  fixes f :: "'i \<Rightarrow> 'b :: linorder"
  assumes "sorted (map f xs)"
  shows "filter (\<lambda>j. f j = f i) (takeWhile (\<lambda>j. f j \<le> f i) xs @ i # dropWhile (\<lambda>j. f j \<le> f i) xs) =
    filter (\<lambda>j. f j = f i) xs @ [i]"
proof -
  have "\<forall>j\<in>set (dropWhile (\<lambda>j. f j \<le> f i) xs). f j \<noteq> f i"
    using assms by (induction xs) (auto split: if_splits)
  then have d: "filter (\<lambda>j. f j = f i) (dropWhile (\<lambda>j. f j \<le> f i) xs) = []" by simp
  have "filter (\<lambda>j. f j = f i) xs =
      filter (\<lambda>j. f j = f i) (takeWhile (\<lambda>j. f j \<le> f i) xs @ dropWhile (\<lambda>j. f j \<le> f i) xs)" by simp
  then show ?thesis using d by (simp del: takeWhile_dropWhile_id)
qed

text \<open>C33: \<open>vListInsert\<close> always returns.  In a list that is sorted by the values of the items it leaves
  a sorted list with the one item more, which comes behind every item of the same value, and every other
  list as it was.\<close>

theorem vListInsert_sorts:
  assumes r: "in_ring s l xs" and so: "sorted (map (item_value s) xs)" and i: "pxContainer (xItems s (Item i)) = None"
  shows "\<exists>s' ys. vListInsert l i s = Some s' \<and> in_ring s' l ys \<and> sorted (map (item_value s') ys) \<and>
    mset ys = add_mset i (mset xs) \<and>
    filter (\<lambda>j. item_value s' j = item_value s' i) ys = filter (\<lambda>j. item_value s j = item_value s i) xs @ [i] \<and>
    (\<forall>k zs. k \<noteq> l \<longrightarrow> in_ring s k zs \<longrightarrow> in_ring s' k zs)"
proof -
  let ?le = "\<lambda>j. item_value s j \<le> item_value s i"
  let ?ys = "takeWhile ?le xs @ i # dropWhile ?le xs"
  obtain s' where s': "vListInsert l i s = Some s'" "in_ring s' l ?ys"
      "\<forall>k zs. k \<noteq> l \<longrightarrow> in_ring s k zs \<longrightarrow> in_ring s' k zs" "\<forall>j. item_value s' j = item_value s j"
    using vListInsert_ring [OF r i] by blast
  have e: "item_value s' = item_value s" using s'(4) by (simp add: fun_eq_iff)
  have "mset ?ys = add_mset i (mset (takeWhile ?le xs @ dropWhile ?le xs))"
    by (simp del: takeWhile_dropWhile_id)
  then have "mset ?ys = add_mset i (mset xs)" by simp
  with s'(1-3) sorted_key_insert [OF so, of i] key_insert_stable [OF so, of i] show ?thesis
    by (intro exI [of _ s'] exI [of _ ?ys]) (simp only: e simp_thms)
qed

section \<open>Taking turns\<close>

text \<open>The items in the order in which \<open>listGET_OWNER_OF_NEXT_ENTRY\<close> comes to them.\<close>

definition turns :: "('i, 'l, 'z) lists_scheme \<Rightarrow> 'l \<Rightarrow> 'i list \<Rightarrow> bool" where
  "turns s l ts \<longleftrightarrow>
     (\<exists>xs ys. in_ring s l (xs @ ys) \<and> pxIndex (xLists s l) = last (End l # map Item xs) \<and> ts = ys @ xs)"

lemma turnsI: "in_ring s l (xs @ ys) \<Longrightarrow> pxIndex (xLists s l) = last (End l # map Item xs) \<Longrightarrow> turns s l (ys @ xs)"
  by (auto simp: turns_def)

definition owner :: "('i, 'l, 'z) lists_scheme \<Rightarrow> 'i \<Rightarrow> nat option" where
  "owner s i = pvOwner (xItems s (Item i))"

lemma ring_index:
  assumes "in_ring s l xs" and "p \<in> set (End l # map Item xs)"
  shows "in_ring (upd_list l (\<lambda>q. q\<lparr>pxIndex := p\<rparr>) s) l xs"
  using assms by (auto simp: in_ring_def upd_list_def nxt_def prv_def linked_def)

lemma next_entry:
  assumes "turns s l (t # ts)"
  shows "\<exists>s'. listGET_OWNER_OF_NEXT_ENTRY l s = (s', owner s t) \<and> turns s' l (ts @ [t]) \<and> xItems s' = xItems s"
proof -
  obtain xs ys where r: "in_ring s l (xs @ ys)" and ix: "pxIndex (xLists s l) = last (End l # map Item xs)"
    and ts: "t # ts = ys @ xs" using assms by (auto simp: turns_def)
  let ?s = "upd_list l (\<lambda>q. q\<lparr>pxIndex := Item t\<rparr>) s"
  have nx: "nxt s (pxIndex (xLists s l)) = hd (map Item ys @ [End l])" using ring_neighbours(1) [OF r] by (simp add: ix)
  have e: "listGET_OWNER_OF_NEXT_ENTRY l s = (?s, owner s t)"
  proof (cases ys)
    case Nil
    then have "nxt s (End l) = Item t" using ring_neighbours(1) [of s l "[]" "xs @ ys"] r ts by auto
    then show ?thesis using nx Nil
      by (simp add: listGET_OWNER_OF_NEXT_ENTRY_def Let_def upd_list_def nxt_def owner_def)
  next
    case (Cons y ys')
    then show ?thesis using nx ts
      by (simp add: listGET_OWNER_OF_NEXT_ENTRY_def Let_def upd_list_def nxt_def owner_def)
  qed
  have rt: "in_ring ?s l (xs @ ys)" by (rule ring_index [OF r]) (use ts in \<open>cases ys; auto\<close>)
  have "\<exists>xs' ys'. xs @ ys = xs' @ ys' \<and> Item t = last (End l # map Item xs') \<and> ts @ [t] = ys' @ xs'"
  proof (cases ys)
    case Nil
    then show ?thesis using ts by (intro exI [of _ "[t]"] exI [of _ ts]) auto
  next
    case (Cons y ys')
    then show ?thesis using ts by (intro exI [of _ "xs @ [t]"] exI [of _ ys']) auto
  qed
  then obtain xs' ys' where sp: "xs @ ys = xs' @ ys'" "Item t = last (End l # map Item xs')" "ts @ [t] = ys' @ xs'" by blast
  have "pxIndex (xLists ?s l) = last (End l # map Item xs')" unfolding sp(2) [symmetric] by (simp add: upd_list_def)
  from turnsI [OF rt [unfolded sp(1)] this] have "turns ?s l (ts @ [t])" unfolding sp(3) .
  then show ?thesis using e by (simp add: upd_list_def)
qed

text \<open>The owners \<open>n\<close> calls return.\<close>

fun next_entries :: "nat \<Rightarrow> 'l \<Rightarrow> ('i, 'l, 'z) lists_scheme \<Rightarrow> nat option list" where
  "next_entries 0 l s = []"
| "next_entries (Suc n) l s =
     (let (s, owner) = listGET_OWNER_OF_NEXT_ENTRY l s in owner # next_entries n l s)"

lemma next_entries_turns:
  "turns s l ts \<Longrightarrow> n \<le> length ts \<Longrightarrow> next_entries n l s = map (owner s) (take n ts)"
proof (induction n arbitrary: s ts)
  case (Suc n)
  then obtain t us where ts: "ts = t # us" by (cases ts) auto
  obtain s' where s': "listGET_OWNER_OF_NEXT_ENTRY l s = (s', owner s t)" "turns s' l (us @ [t])" "xItems s' = xItems s"
    using next_entry [of s l t us] Suc.prems(1) ts by blast
  have "owner s' = owner s" using s'(3) by (simp add: owner_def fun_eq_iff)
  then show ?case using Suc.IH [OF s'(2)] s'(1) Suc.prems(2) by (simp add: ts)
qed simp

lemma turns_ring: "turns s l ts \<Longrightarrow> \<exists>xs. in_ring s l xs \<and> set xs = set ts"
  unfolding turns_def by fastforce

text \<open>C34: the items of a list take turns.  After \<open>vListInsertEnd\<close> has added an item, the calls of
  \<open>listGET_OWNER_OF_NEXT_ENTRY\<close> that follow return the owners of all items that were waiting for
  their turn, in their order, before they return the owner of the new item; the item whose turn it
  was last, when there is one, comes behind it.  The comments of \<open>list.c\<close> and \<open>list.h\<close> say
  that every other item comes before the new one; they overlook this item.\<close>

theorem vListInsertEnd_waits_for_turn:
  assumes t: "turns s l ts" and i: "pxContainer (xItems s (Item i)) = None"
    and n: "n = (if pxIndex (xLists s l) = End l then length ts else length ts - 1)"
  shows "next_entries (Suc n) l (vListInsertEnd l i s) = map (owner s) (take n ts) @ [owner s i]"
proof -
  let ?s = "vListInsertEnd l i s"
  obtain xs ys where r: "in_ring s l (xs @ ys)" and ix: "pxIndex (xLists s l) = last (End l # map Item xs)"
    and ts: "ts = ys @ xs" using t by (auto simp: turns_def)
  have ow: "owner ?s = owner s"
    by (simp add: fun_eq_iff owner_def vListInsertEnd_def Let_def upd_item_def upd_list_def)
  have "turns ?s l (take n ts @ i # drop n ts)"
  proof (cases xs rule: rev_cases)
    case Nil
    have e: "pxIndex (xLists s l) = End l" using ix Nil by simp
    have "in_ring ?s l (ys @ i # [])" by (rule vListInsertEnd_ring(1)) (use r Nil i e in simp_all)
    then have g: "in_ring ?s l ([] @ ys @ [i])" by simp
    have ix': "pxIndex (xLists ?s l) = End l"
      using vListInsertEnd_ring(3) [of s l ys "[]" i l] r Nil i e by simp
    have "take n ts = ys" "drop n ts = []" using n e ts Nil by simp_all
    then show ?thesis using turnsI [OF g] ix' by simp
  next
    case (snoc us j)
    have e: "pxIndex (xLists s l) = Item j" using ix snoc by simp
    have r': "in_ring s l (us @ j # ys)" using r snoc by simp
    note v = vListInsertEnd_ring [OF r' i]
    have "in_ring ?s l (us @ i # j # ys)" by (rule v(1)) (simp add: e)
    then have g: "in_ring ?s l ((us @ [i, j]) @ ys)" by simp
    have ix': "pxIndex (xLists ?s l) = Item j" using v(3) e by simp
    have "take n ts = ys @ us" "drop n ts = [j]" using n e ts snoc by simp_all
    then show ?thesis using turnsI [OF g] ix' by simp
  qed
  moreover have "n \<le> length ts" using n by simp
  ultimately show ?thesis using next_entries_turns [of ?s l "take n ts @ i # drop n ts" "Suc n"] ow
    by simp
qed

section \<open>The theorems on concrete lists\<close>

text \<open>Two items outside every list, of the values 5 and 3, and an empty list.\<close>

definition ex_lists :: "(nat, nat) lists" where
  "ex_lists = vListInitialise 0
     \<lparr>xItems = (\<lambda>p. \<lparr>xItemValue = (if p = Item 0 then 5 else 3), pxNext = p, pxPrevious = p,
         pvOwner = (if p = Item 0 then Some 100 else Some 200), pxContainer = None\<rparr>),
      xLists = (\<lambda>l. \<lparr>uxNumberOfItems = 7, pxIndex = Item 0\<rparr>)\<rparr>"

lemma ex_lists_ring: "in_ring ex_lists 0 []"
  unfolding ex_lists_def by (rule vListInitialise_ring) simp

lemma ex_lists_fields:
  "pxContainer (xItems ex_lists (Item i)) = None" "pxIndex (xLists ex_lists 0) = End 0"
  "item_value ex_lists i = (if i = 0 then 5 else 3)" "owner ex_lists i = Some (if i = 0 then 100 else 200)"
  by (simp_all add: ex_lists_def vListInitialise_def upd_item_def upd_list_def item_value_def owner_def Let_def)

definition ex_one :: "(nat, nat) lists" where "ex_one = vListInsertEnd 0 0 ex_lists"

lemma ex_one_ring: "in_ring ex_one 0 [0]"
  using vListInsertEnd_ring(1) [of ex_lists 0 "[]" "[]" 0] ex_lists_ring ex_lists_fields by (simp add: ex_one_def)

lemma ex_one_fields:
  "pxContainer (xItems ex_one (Item 1)) = None" "pxIndex (xLists ex_one 0) = End 0"
  "item_value ex_one i = (if i = 0 then 5 else 3)" "owner ex_one i = Some (if i = 0 then 100 else 200)"
proof -
  have ins: "inserts 0 0 (prv ex_lists (End 0)) (End 0) ex_lists ex_one"
    using InsertEnd_inserts [of ex_lists 0 0] ring_neighbours(2) [of ex_lists 0 "[]" "[]"] ex_lists_ring ex_lists_fields
    by (simp add: ex_one_def)
  then show "pxContainer (xItems ex_one (Item 1)) = None" "pxIndex (xLists ex_one 0) = End 0"
    "item_value ex_one i = (if i = 0 then 5 else 3)" "owner ex_one i = Some (if i = 0 then 100 else 200)"
    using ex_lists_fields by (simp_all add: inserts_def item_value_def owner_def)
qed

lemma vListInsert_sorts_witness:
  "\<exists>s'. vListInsert 0 1 ex_one = Some s' \<and> in_ring s' 0 [1, 0]"
proof -
  obtain s' ys where s': "vListInsert 0 1 ex_one = Some s'" "in_ring s' 0 ys" "sorted (map (item_value s') ys)"
    "mset ys = add_mset 1 (mset [0])"
    using vListInsert_sorts [OF ex_one_ring _ ex_one_fields(1)] by auto
  have "\<exists>s'. vListInsert 0 1 ex_one = Some s' \<and> in_ring s' 0 [1, 0 :: nat]"
    using vListInsert_ring [OF ex_one_ring ex_one_fields(1)] by (auto simp: ex_one_fields)
  then show ?thesis using s'(1,2) by blast
qed

lemma vListInsertEnd_waits_for_turn_witness:
  "next_entries 2 0 (vListInsertEnd 0 1 ex_one) = [Some 100, Some 200]"
proof -
  have "turns ex_one 0 [0]" using turnsI [of ex_one 0 "[]" "[0]"] ex_one_ring ex_one_fields by simp
  from vListInsertEnd_waits_for_turn [OF this ex_one_fields(1), of 1] show ?thesis
    by (simp add: ex_one_fields numeral_2_eq_2 del: next_entries.simps)
qed

end
