(* ===== verification/FRTOS_Heap.thy ===== *)
theory FRTOS_Heap
  imports UCOS_Prelude "HOL-Library.While_Combinator"
begin

text \<open>
  The heap of FreeRTOS, \<open>portable/MemMang/heap_4.c\<close>, on a port with 32-bit \<open>size_t\<close> and 8-byte
  alignment, without heap protector and clearing on free, as \<open>FreeRTOS.h\<close> and the file itself have
  them by default.  Pointers are natural numbers, 0 the null pointer; sizes are 32-bit words.  The
  array \<open>ucHeap\<close>, placed by the linker, and its size are the parameter \<open>heap_cfg\<close>.  The headers of
  blocks are a store of their own: that the application's bytes never overlap them is proved.
\<close>

unbundle bit_operations_syntax

type_synonym size_t = "32 word"

record heap_cfg =
  ucHeap :: nat
  configTOTAL_HEAP_SIZE :: size_t

record BlockLink_t =
  pxNextFreeBlock :: nat
  xBlockSize :: size_t

text \<open>A \<open>BlockLink_t *\<close>: the variable \<open>xStart\<close>, or a block at an address.\<close>

datatype block_ptr = XStart | Blk nat

record heap4 =
  hBlock :: "nat \<Rightarrow> BlockLink_t"
  hByte :: "nat \<Rightarrow> 8 word"
  xStart :: BlockLink_t
  pxEnd :: nat
  xFreeBytesRemaining :: size_t
  xMinimumEverFreeBytesRemaining :: size_t
  xNumberOfSuccessfulAllocations :: size_t
  xNumberOfSuccessfulFrees :: size_t

abbreviation (input) portBYTE_ALIGNMENT :: size_t where "portBYTE_ALIGNMENT \<equiv> 8"
abbreviation (input) portBYTE_ALIGNMENT_MASK :: size_t where "portBYTE_ALIGNMENT_MASK \<equiv> 7"
abbreviation (input) xHeapStructSize :: size_t where "xHeapStructSize \<equiv> 8"
abbreviation (input) heapMINIMUM_BLOCK_SIZE :: size_t where "heapMINIMUM_BLOCK_SIZE \<equiv> 16"
abbreviation (input) heapBLOCK_ALLOCATED_BITMASK :: size_t where "heapBLOCK_ALLOCATED_BITMASK \<equiv> 0x80000000"

definition block :: "heap4 \<Rightarrow> block_ptr \<Rightarrow> BlockLink_t" where
  "block h p = (case p of XStart \<Rightarrow> xStart h | Blk a \<Rightarrow> hBlock h a)"

definition upd_block :: "block_ptr \<Rightarrow> (BlockLink_t \<Rightarrow> BlockLink_t) \<Rightarrow> heap4 \<Rightarrow> heap4" where
  "upd_block p f h =
     (case p of XStart \<Rightarrow> h\<lparr>xStart := f (xStart h)\<rparr> | Blk a \<Rightarrow> h\<lparr>hBlock := (hBlock h)(a := f (hBlock h a))\<rparr>)"

definition heapADD_WILL_OVERFLOW :: "size_t \<Rightarrow> size_t \<Rightarrow> bool" where
  "heapADD_WILL_OVERFLOW a b \<longleftrightarrow> a > 0xFFFFFFFF - b"

definition heapMULTIPLY_WILL_OVERFLOW :: "size_t \<Rightarrow> size_t \<Rightarrow> bool" where
  "heapMULTIPLY_WILL_OVERFLOW a b \<longleftrightarrow> a > 0 \<and> b > 0xFFFFFFFF div a"

definition heapBLOCK_SIZE_IS_VALID :: "size_t \<Rightarrow> bool" where
  "heapBLOCK_SIZE_IS_VALID n \<longleftrightarrow> n AND heapBLOCK_ALLOCATED_BITMASK = 0"

section \<open>Initialisation\<close>

definition prvHeapInit :: "heap_cfg \<Rightarrow> heap4 \<Rightarrow> heap4" where
  "prvHeapInit c h =
     (let total = configTOTAL_HEAP_SIZE c;
          start = of_nat (ucHeap c) :: size_t;
          (start, total) =
            (if start AND portBYTE_ALIGNMENT_MASK \<noteq> 0
             then let start' = (start + (portBYTE_ALIGNMENT - 1)) AND NOT portBYTE_ALIGNMENT_MASK
                  in (start', total - (start' - start))
             else (start, total));
          h = h\<lparr>xStart := \<lparr>pxNextFreeBlock = unat start, xBlockSize = 0\<rparr>\<rparr>;
          end' = (start + total - xHeapStructSize) AND NOT portBYTE_ALIGNMENT_MASK;
          h = h\<lparr>pxEnd := unat end'\<rparr>;
          h = upd_block (Blk (pxEnd h)) (\<lambda>b. b\<lparr>xBlockSize := 0, pxNextFreeBlock := 0\<rparr>) h;
          h = upd_block (Blk (unat start)) (\<lambda>b. b\<lparr>xBlockSize := end' - start, pxNextFreeBlock := pxEnd h\<rparr>) h;
          h = h\<lparr>xMinimumEverFreeBytesRemaining := xBlockSize (hBlock h (unat start))\<rparr>
      in h\<lparr>xFreeBytesRemaining := xBlockSize (hBlock h (unat start))\<rparr>)"

section \<open>Allocation\<close>

text \<open>The size of the block for a request: with the header, rounded up; 0 when that overflows.\<close>

definition heap_request :: "size_t \<Rightarrow> size_t" where
  "heap_request want =
     (if want > 0
      then if \<not> heapADD_WILL_OVERFLOW want xHeapStructSize
           then let want = want + xHeapStructSize
                in if want AND portBYTE_ALIGNMENT_MASK \<noteq> 0
                   then let extra = portBYTE_ALIGNMENT - (want AND portBYTE_ALIGNMENT_MASK)
                        in if \<not> heapADD_WILL_OVERFLOW want extra then want + extra else 0
                   else want
           else 0
      else want)"

text \<open>The search from the lowest address: the block before the one found, and that one.\<close>

definition heap_search :: "size_t \<Rightarrow> heap4 \<Rightarrow> (block_ptr \<times> nat) option" where
  "heap_search want h =
     while_option (\<lambda>(prev, b). xBlockSize (hBlock h b) < want \<and> pxNextFreeBlock (hBlock h b) \<noteq> 0)
       (\<lambda>(prev, b). (Blk b, pxNextFreeBlock (hBlock h b))) (XStart, pxNextFreeBlock (xStart h))"

text \<open>The block is taken out of the list, and what it has too much goes back to it.\<close>

definition heap_unlink :: "size_t \<Rightarrow> block_ptr \<Rightarrow> nat \<Rightarrow> heap4 \<Rightarrow> heap4" where
  "heap_unlink want prev b h =
     (let h = upd_block prev (\<lambda>p. p\<lparr>pxNextFreeBlock := pxNextFreeBlock (hBlock h b)\<rparr>) h
      in if xBlockSize (hBlock h b) - want > heapMINIMUM_BLOCK_SIZE
         then let new = b + unat want;
                  h = upd_block (Blk new) (\<lambda>p. p\<lparr>xBlockSize := xBlockSize (hBlock h b) - want\<rparr>) h;
                  h = upd_block (Blk b) (\<lambda>p. p\<lparr>xBlockSize := want\<rparr>) h;
                  h = upd_block (Blk new) (\<lambda>p. p\<lparr>pxNextFreeBlock := pxNextFreeBlock (block h prev)\<rparr>) h
              in upd_block prev (\<lambda>p. p\<lparr>pxNextFreeBlock := new\<rparr>) h
         else h)"

text \<open>The counters, and the mark that the application owns the block.\<close>

definition heap_own :: "nat \<Rightarrow> heap4 \<Rightarrow> heap4" where
  "heap_own b h =
     (let h = h\<lparr>xFreeBytesRemaining := xFreeBytesRemaining h - xBlockSize (hBlock h b)\<rparr>;
          h = (if xFreeBytesRemaining h < xMinimumEverFreeBytesRemaining h
               then h\<lparr>xMinimumEverFreeBytesRemaining := xFreeBytesRemaining h\<rparr> else h);
          h = upd_block (Blk b) (\<lambda>p. p\<lparr>xBlockSize := xBlockSize p OR heapBLOCK_ALLOCATED_BITMASK\<rparr>) h;
          h = upd_block (Blk b) (\<lambda>p. p\<lparr>pxNextFreeBlock := 0\<rparr>) h
      in h\<lparr>xNumberOfSuccessfulAllocations := xNumberOfSuccessfulAllocations h + 1\<rparr>)"

definition heap_take :: "size_t \<Rightarrow> block_ptr \<Rightarrow> nat \<Rightarrow> heap4 \<Rightarrow> heap4" where
  "heap_take want prev b h = heap_own b (heap_unlink want prev b h)"

definition pvPortMalloc :: "heap_cfg \<Rightarrow> size_t \<Rightarrow> heap4 \<Rightarrow> (heap4 \<times> nat) option" where
  "pvPortMalloc c xWantedSize h =
     (let want = heap_request xWantedSize;
          h = (if pxEnd h = 0 then prvHeapInit c h else h)
      in if heapBLOCK_SIZE_IS_VALID want
         then if want > 0 \<and> want \<le> xFreeBytesRemaining h
              then case heap_search want h of
                     None \<Rightarrow> None
                   | Some (prev, b) \<Rightarrow>
                       if b \<noteq> pxEnd h
                       then Some (heap_take want prev b h,
                                  pxNextFreeBlock (block h prev) + unat xHeapStructSize)
                       else Some (h, 0)
              else Some (h, 0)
         else Some (h, 0))"

text \<open>\<open>pvPortCalloc\<close> clears the application's bytes with \<open>memset\<close>.\<close>

definition memset_0 :: "nat \<Rightarrow> size_t \<Rightarrow> heap4 \<Rightarrow> heap4" where
  "memset_0 pv n h = h\<lparr>hByte := (\<lambda>a. if pv \<le> a \<and> a < pv + unat n then 0 else hByte h a)\<rparr>"

definition pvPortCalloc :: "heap_cfg \<Rightarrow> size_t \<Rightarrow> size_t \<Rightarrow> heap4 \<Rightarrow> (heap4 \<times> nat) option" where
  "pvPortCalloc c xNum xSize h =
     (if \<not> heapMULTIPLY_WILL_OVERFLOW xNum xSize
      then map_option (\<lambda>(h, pv). (if pv \<noteq> 0 then memset_0 pv (xNum * xSize) h else h, pv))
             (pvPortMalloc c (xNum * xSize) h)
      else Some (h, 0))"

section \<open>Release\<close>

text \<open>The block is merged with the one before it, \<open>it\<close>, and the one behind it, where they meet.\<close>

definition heap_merge :: "block_ptr \<Rightarrow> nat \<Rightarrow> heap4 \<Rightarrow> heap4" where
  "heap_merge it b h =
     (let (h, b) =
            (case it of
               Blk a \<Rightarrow>
                 if a + unat (xBlockSize (hBlock h a)) = b
                 then (upd_block it (\<lambda>p. p\<lparr>xBlockSize := xBlockSize p + xBlockSize (hBlock h b)\<rparr>) h, a)
                 else (h, b)
             | XStart \<Rightarrow> (h, b));
          nx = pxNextFreeBlock (block h it);
          h = (if b + unat (xBlockSize (hBlock h b)) = nx
               then if nx \<noteq> pxEnd h
                    then let h = upd_block (Blk b) (\<lambda>p. p\<lparr>xBlockSize := xBlockSize p + xBlockSize (hBlock h nx)\<rparr>) h
                         in upd_block (Blk b) (\<lambda>p. p\<lparr>pxNextFreeBlock := pxNextFreeBlock (hBlock h nx)\<rparr>) h
                    else upd_block (Blk b) (\<lambda>p. p\<lparr>pxNextFreeBlock := pxEnd h\<rparr>) h
               else upd_block (Blk b) (\<lambda>p. p\<lparr>pxNextFreeBlock := nx\<rparr>) h)
      in if it \<noteq> Blk b then upd_block it (\<lambda>p. p\<lparr>pxNextFreeBlock := b\<rparr>) h else h)"

definition prvInsertBlockIntoFreeList :: "nat \<Rightarrow> heap4 \<Rightarrow> heap4 option" where
  "prvInsertBlockIntoFreeList b h =
     map_option (\<lambda>it. heap_merge it b h)
       (while_option (\<lambda>it. pxNextFreeBlock (block h it) < b) (\<lambda>it. Blk (pxNextFreeBlock (block h it))) XStart)"

definition vPortFree :: "nat \<Rightarrow> heap4 \<Rightarrow> heap4 option" where
  "vPortFree pv h =
     (if pv \<noteq> 0
      then let b = pv - unat xHeapStructSize
           in if xBlockSize (hBlock h b) AND heapBLOCK_ALLOCATED_BITMASK \<noteq> 0
              then if pxNextFreeBlock (hBlock h b) = 0
                   then let h = upd_block (Blk b) (\<lambda>p. p\<lparr>xBlockSize := xBlockSize p AND NOT heapBLOCK_ALLOCATED_BITMASK\<rparr>) h;
                            h = h\<lparr>xFreeBytesRemaining := xFreeBytesRemaining h + xBlockSize (hBlock h b)\<rparr>
                        in map_option (\<lambda>h. h\<lparr>xNumberOfSuccessfulFrees := xNumberOfSuccessfulFrees h + 1\<rparr>)
                             (prvInsertBlockIntoFreeList b h)
                   else Some h
              else Some h
      else Some h)"

section \<open>Statistics\<close>

definition xPortGetFreeHeapSize :: "heap4 \<Rightarrow> size_t" where
  "xPortGetFreeHeapSize h = xFreeBytesRemaining h"

definition xPortGetMinimumEverFreeHeapSize :: "heap4 \<Rightarrow> size_t" where
  "xPortGetMinimumEverFreeHeapSize h = xMinimumEverFreeBytesRemaining h"

definition xPortResetHeapMinimumEverFreeHeapSize :: "heap4 \<Rightarrow> heap4" where
  "xPortResetHeapMinimumEverFreeHeapSize h = h\<lparr>xMinimumEverFreeBytesRemaining := xFreeBytesRemaining h\<rparr>"

record HeapStats_t =
  xAvailableHeapSpaceInBytes :: size_t
  xSizeOfLargestFreeBlockInBytes :: size_t
  xSizeOfSmallestFreeBlockInBytes :: size_t
  xNumberOfFreeBlocks :: size_t
  hsMinimumEverFreeBytesRemaining :: size_t
  hsNumberOfSuccessfulAllocations :: size_t
  hsNumberOfSuccessfulFrees :: size_t

definition heap_stats_walk :: "heap4 \<Rightarrow> (nat \<times> size_t \<times> size_t \<times> size_t) option" where
  "heap_stats_walk h =
     while_option (\<lambda>(b, blocks, mx, mn). b \<noteq> pxEnd h)
       (\<lambda>(b, blocks, mx, mn).
          let n = xBlockSize (hBlock h b);
              blocks = blocks + 1;
              mx = (if n > mx then n else mx);
              mn = (if n < mn then n else mn)
          in (pxNextFreeBlock (hBlock h b), blocks, mx, mn))
       (pxNextFreeBlock (xStart h), 0, 0, 0xFFFFFFFF)"

definition vPortGetHeapStats :: "heap4 \<Rightarrow> HeapStats_t option" where
  "vPortGetHeapStats h =
     map_option (\<lambda>(b, blocks, mx, mn).
         \<lparr>xAvailableHeapSpaceInBytes = xFreeBytesRemaining h, xSizeOfLargestFreeBlockInBytes = mx,
          xSizeOfSmallestFreeBlockInBytes = mn, xNumberOfFreeBlocks = blocks,
          hsMinimumEverFreeBytesRemaining = xMinimumEverFreeBytesRemaining h,
          hsNumberOfSuccessfulAllocations = xNumberOfSuccessfulAllocations h,
          hsNumberOfSuccessfulFrees = xNumberOfSuccessfulFrees h\<rparr>)
       (if pxNextFreeBlock (xStart h) \<noteq> 0 then heap_stats_walk h else Some (0, 0, 0, 0xFFFFFFFF))"

definition vPortHeapResetState :: "heap4 \<Rightarrow> heap4" where
  "vPortHeapResetState h =
     h\<lparr>pxEnd := 0, xFreeBytesRemaining := 0, xMinimumEverFreeBytesRemaining := 0,
       xNumberOfSuccessfulAllocations := 0, xNumberOfSuccessfulFrees := 0\<rparr>"

section \<open>The blocks of the heap\<close>

lemma block_simps [simp]:
  "block h (Blk a) = hBlock h a"
  "block (upd_block p f h) q = (if q = p then f (block h p) else block h q)"
  "hBlock (upd_block p f h) a = (if p = Blk a then f (hBlock h a) else hBlock h a)"
  "block (h\<lparr>xFreeBytesRemaining := n\<rparr>) q = block h q"
  "block (h\<lparr>xMinimumEverFreeBytesRemaining := n\<rparr>) q = block h q"
  "block (h\<lparr>xNumberOfSuccessfulAllocations := n\<rparr>) q = block h q"
  "block (h\<lparr>xNumberOfSuccessfulFrees := n\<rparr>) q = block h q"
  by (cases p; cases q; simp add: block_def upd_block_def; fail)+

lemma upd_block_frame [simp]:
  "pxEnd (upd_block p f h) = pxEnd h" "hByte (upd_block p f h) = hByte h"
  "xFreeBytesRemaining (upd_block p f h) = xFreeBytesRemaining h"
  "xMinimumEverFreeBytesRemaining (upd_block p f h) = xMinimumEverFreeBytesRemaining h"
  "xNumberOfSuccessfulAllocations (upd_block p f h) = xNumberOfSuccessfulAllocations h"
  "xNumberOfSuccessfulFrees (upd_block p f h) = xNumberOfSuccessfulFrees h"
  by (cases p; simp add: upd_block_def)+

text \<open>A block: its address, its size and whether the application owns it.  The blocks tile the heap.\<close>

type_synonym blk = "nat \<times> nat \<times> bool"

fun tiles :: "nat \<Rightarrow> blk list \<Rightarrow> nat \<Rightarrow> bool" where
  "tiles a [] e \<longleftrightarrow> a = e"
| "tiles a ((x, n, al) # bs) e \<longleftrightarrow> x = a \<and> 0 < n \<and> 8 dvd n \<and> tiles (a + n) bs e"

lemma tiles_append: "tiles a (us @ vs) e \<longleftrightarrow> (\<exists>b. tiles a us b \<and> tiles b vs e)"
  by (induction us arbitrary: a) auto

lemma tiles_le: "tiles a bs e \<Longrightarrow> a \<le> e"
  by (induction bs arbitrary: a) fastforce+

lemma tiles_mem: "tiles a bs e \<Longrightarrow> (x, n, al) \<in> set bs \<Longrightarrow> a \<le> x \<and> x + n \<le> e \<and> 0 < n \<and> 8 dvd n"
proof (induction bs arbitrary: a)
  case (Cons b bs)
  obtain y m bl where b: "b = (y, m, bl)" by (cases b)
  then have t: "tiles (a + m) bs e" "y = a" "0 < m" "8 dvd m" using Cons.prems(1) by simp_all
  then show ?case using Cons.IH [OF t(1)] Cons.prems(2) tiles_le [OF t(1)] b by auto
qed simp

lemma tiles_aligned: "tiles a bs e \<Longrightarrow> 8 dvd a \<Longrightarrow> (x, n, al) \<in> set bs \<Longrightarrow> 8 dvd x"
  by (induction bs arbitrary: a) auto

text \<open>Different blocks do not overlap.\<close>

lemma tiles_disjoint:
  "tiles a bs e \<Longrightarrow> (x, n, al) \<in> set bs \<Longrightarrow> (y, m, bl) \<in> set bs \<Longrightarrow> (x, n, al) \<noteq> (y, m, bl) \<Longrightarrow>
   x + n \<le> y \<or> y + m \<le> x"
proof (induction bs arbitrary: a)
  case (Cons b bs)
  obtain z k cl where b: "b = (z, k, cl)" by (cases b)
  then have t: "tiles (a + k) bs e" "z = a" using Cons.prems(1) by simp_all
  show ?case
    using Cons.prems(2-4) Cons.IH [OF t(1)] tiles_mem [OF t(1), of x n al] tiles_mem [OF t(1), of y m bl] b t(2)
    by auto
qed simp

text \<open>The addresses of the free blocks.\<close>

fun frees :: "blk list \<Rightarrow> nat list" where
  "frees [] = []"
| "frees ((x, n, al) # bs) = (if al then frees bs else x # frees bs)"

lemma frees_append [simp]: "frees (us @ vs) = frees us @ frees vs"
  by (induction us rule: frees.induct) auto

lemma frees_mem: "x \<in> set (frees bs) \<longleftrightarrow> (\<exists>n. (x, n, False) \<in> set bs)"
  by (induction bs rule: frees.induct) auto

fun free_size :: "blk list \<Rightarrow> nat" where
  "free_size [] = 0"
| "free_size ((x, n, al) # bs) = (if al then free_size bs else n + free_size bs)"

lemma free_size_append [simp]: "free_size (us @ vs) = free_size us + free_size vs"
  by (induction us rule: free_size.induct) auto

lemma free_size_le: "tiles a bs e \<Longrightarrow> free_size bs + a \<le> e"
proof (induction bs arbitrary: a)
  case (Cons b bs)
  obtain y m bl where b: "b = (y, m, bl)" by (cases b)
  then have t: "tiles (a + m) bs e" using Cons.prems(1) by simp
  from Cons.IH [OF this] show ?case by (auto simp: b)
qed simp

text \<open>No two free blocks are neighbours: freeing merges them.\<close>

definition merged :: "blk list \<Rightarrow> bool" where
  "merged bs \<longleftrightarrow> successively (\<lambda>b c. snd (snd b) \<or> snd (snd c)) bs"

text \<open>What the header of a block says.\<close>

definition header :: "heap4 \<Rightarrow> blk \<Rightarrow> bool" where
  "header h b \<longleftrightarrow> (case b of (x, n, al) \<Rightarrow>
     xBlockSize (hBlock h x) = (if al then of_nat n OR heapBLOCK_ALLOCATED_BITMASK else of_nat n) \<and>
     (al \<longrightarrow> pxNextFreeBlock (hBlock h x) = 0))"

text \<open>The free list: from \<open>xStart\<close> through the free blocks to the end marker.\<close>

definition free_link :: "heap4 \<Rightarrow> block_ptr \<Rightarrow> block_ptr \<Rightarrow> bool" where
  "free_link h p q \<longleftrightarrow> q = Blk (pxNextFreeBlock (block h p))"

definition free_list :: "heap4 \<Rightarrow> nat list \<Rightarrow> bool" where
  "free_list h fs \<longleftrightarrow> successively (free_link h) (XStart # map Blk fs @ [Blk (pxEnd h)])"

definition heap_inv :: "heap4 \<Rightarrow> nat \<Rightarrow> blk list \<Rightarrow> bool" where
  "heap_inv h a bs \<longleftrightarrow>
     0 < a \<and> 8 dvd a \<and> pxEnd h + 8 \<le> 2 ^ 32 \<and> pxEnd h < a + 2 ^ 31 \<and>
     tiles a bs (pxEnd h) \<and> merged bs \<and> (\<forall>b\<in>set bs. header h b) \<and> free_list h (frees bs) \<and>
     hBlock h (pxEnd h) = \<lparr>pxNextFreeBlock = 0, xBlockSize = 0\<rparr> \<and>
     xFreeBytesRemaining h = of_nat (free_size bs) \<and>
     xMinimumEverFreeBytesRemaining h \<le> xFreeBytesRemaining h"

lemma heap_invD:
  assumes "heap_inv h a bs"
  shows "0 < a" "8 dvd a" "pxEnd h + 8 \<le> 2 ^ 32" "pxEnd h < a + 2 ^ 31" "tiles a bs (pxEnd h)" "merged bs"
    "b \<in> set bs \<Longrightarrow> header h b" "free_list h (frees bs)"
    "hBlock h (pxEnd h) = \<lparr>pxNextFreeBlock = 0, xBlockSize = 0\<rparr>"
    "xFreeBytesRemaining h = of_nat (free_size bs)" "xMinimumEverFreeBytesRemaining h \<le> xFreeBytesRemaining h"
  using assms unfolding heap_inv_def by blast+

lemma inv_size:
  assumes inv: "heap_inv h a bs" and b: "(x, n, al) \<in> set bs"
  shows "unat (of_nat n :: size_t) = n" and "n < 2 ^ 31" and "a \<le> x" and "x + n \<le> pxEnd h" and "0 < n" and "8 dvd n"
proof -
  note t = tiles_mem [OF heap_invD(5) [OF inv] b]
  then show "a \<le> x" "x + n \<le> pxEnd h" "0 < n" "8 dvd n" by simp_all
  then show n: "n < 2 ^ 31" using heap_invD(4) [OF inv] by simp
  then show "unat (of_nat n :: size_t) = n" by (simp add: unat_of_nat)
qed

text \<open>The search: the first free block that is large enough, or the end marker.\<close>

lemma free_list_split:
  "free_list h (fs @ gs) \<Longrightarrow>
   pxNextFreeBlock (block h (last (XStart # map Blk fs))) = (case gs of [] \<Rightarrow> pxEnd h | g # _ \<Rightarrow> g)"
proof -
  assume "free_list h (fs @ gs)"
  then have "successively (free_link h) ((XStart # map Blk fs) @ (map Blk gs @ [Blk (pxEnd h)]))"
    by (simp add: free_list_def)
  then have "free_link h (last (XStart # map Blk fs)) (hd (map Blk gs @ [Blk (pxEnd h)]))"
    unfolding successively_append_iff by simp
  then show ?thesis by (cases gs) (simp_all add: free_link_def)
qed

definition fits :: "heap4 \<Rightarrow> size_t \<Rightarrow> nat \<Rightarrow> bool" where
  "fits h want x \<longleftrightarrow> want \<le> xBlockSize (hBlock h x)"

lemma inv_pos: "heap_inv h a bs \<Longrightarrow> 0 < pxEnd h"
  using heap_invD(1,5) tiles_le by fastforce

lemma frees_pos: "heap_inv h a bs \<Longrightarrow> x \<in> set (frees bs) \<Longrightarrow> 0 < x \<and> x < pxEnd h"
  using inv_size(3,4,5) heap_invD(1) by (fastforce simp: frees_mem)

lemma search_from:
  assumes inv: "heap_inv h a bs" and w: "0 < want"
  shows "frees bs = fs @ gs \<Longrightarrow>
    while_option (\<lambda>(prev, b). xBlockSize (hBlock h b) < want \<and> pxNextFreeBlock (hBlock h b) \<noteq> 0)
       (\<lambda>(prev, b). (Blk b, pxNextFreeBlock (hBlock h b))) (last (XStart # map Blk fs), hd (gs @ [pxEnd h])) =
    Some (last (XStart # map Blk (fs @ takeWhile (\<lambda>g. \<not> fits h want g) gs)),
          hd (dropWhile (\<lambda>g. \<not> fits h want g) gs @ [pxEnd h]))"
proof (induction gs arbitrary: fs)
  case Nil
  then show ?case using heap_invD(9) [OF inv] by (simp add: while_option_unfold)
next
  case (Cons g gs)
  have f: "free_list h ((fs @ [g]) @ gs)" using heap_invD(8) [OF inv] Cons.prems by simp
  have n: "pxNextFreeBlock (hBlock h g) = hd (gs @ [pxEnd h])"
    using free_list_split [OF f] by (cases gs) (simp_all add: block_def)
  have "hd (gs @ [pxEnd h]) \<noteq> 0"
    using frees_pos [OF inv] inv_pos [OF inv] Cons.prems by (cases gs) auto
  moreover have "last (XStart # map Blk fs @ [Blk g]) = Blk g" by simp
  ultimately show ?case using Cons.IH [of "fs @ [g]"] Cons.prems n
    by (subst while_option_unfold) (auto simp: fits_def simp del: last.simps hd_append)
qed

text \<open>The search returns; on success it splits the blocks at the first free one that is large enough.\<close>

lemma heap_search_cases:
  assumes inv: "heap_inv h a bs" and w: "0 < want"
  shows "(\<exists>us x n vs. bs = us @ (x, n, False) # vs \<and> unat want \<le> n \<and>
       (\<forall>y m. (y, m, False) \<in> set us \<longrightarrow> m < unat want) \<and>
       heap_search want h = Some (last (XStart # map Blk (frees us)), x)) \<or>
    (\<forall>y m. (y, m, False) \<in> set bs \<longrightarrow> m < unat want) \<and> (\<exists>prev. heap_search want h = Some (prev, pxEnd h))"
proof -
  let ?P = "\<lambda>b. case b of (x, n, al) \<Rightarrow> \<not> al \<and> unat want \<le> n"
  have fit: "fits h want y \<longleftrightarrow> unat want \<le> m" if "(y, m, False) \<in> set bs" for y m
    using heap_invD(7) [OF inv that] inv_size(1) [OF inv that] by (simp add: fits_def header_def word_le_nat_alt)
  have hs: "heap_search want h = Some (last (XStart # map Blk (takeWhile (\<lambda>g. \<not> fits h want g) (frees bs))),
      hd (dropWhile (\<lambda>g. \<not> fits h want g) (frees bs) @ [pxEnd h]))"
  proof -
    have "pxNextFreeBlock (xStart h) = hd (frees bs @ [pxEnd h])"
      using free_list_split [of h "[]" "frees bs"] heap_invD(8) [OF inv] by (cases "frees bs") (simp_all add: block_def)
    then show ?thesis using search_from [OF inv w, of "[]" "frees bs"] by (simp add: heap_search_def)
  qed
  show ?thesis
  proof (cases "\<exists>b\<in>set bs. ?P b")
    case True
    then obtain us b vs where bs: "bs = us @ b # vs" "?P b" and us: "\<forall>c\<in>set us. \<not> ?P c"
      using split_list_first_prop [of bs ?P] by blast
    obtain x n where b: "b = (x, n, False)" "unat want \<le> n" using bs(2) by (cases b) auto
    have "\<not> fits h want y" if "y \<in> set (frees us)" for y
      using that us fit by (fastforce simp: frees_mem bs(1))
    moreover have "fits h want x" using fit [of x n] b bs(1) by simp
    ultimately have "takeWhile (\<lambda>g. \<not> fits h want g) (frees bs) = frees us"
      "hd (dropWhile (\<lambda>g. \<not> fits h want g) (frees bs) @ [pxEnd h]) = x"
      by (simp_all add: bs(1) b takeWhile_append dropWhile_append)
    then show ?thesis using hs bs(1) b us by (intro disjI1 exI [of _ us] exI [of _ x] exI [of _ n] exI [of _ vs]) (auto simp: not_le)
  next
    case False
    then have small: "m < unat want" if "(y, m, False) \<in> set bs" for y m using that by (fastforce simp: not_le)
    then have "\<not> fits h want y" if "y \<in> set (frees bs)" for y
      using that fit by (fastforce simp: frees_mem)
    then have "dropWhile (\<lambda>g. \<not> fits h want g) (frees bs) = []" by simp
    then have "hd (dropWhile (\<lambda>g. \<not> fits h want g) (frees bs) @ [pxEnd h]) = pxEnd h" by (simp only: append_Nil list.sel)
    then have "heap_search want h = Some (last (XStart # map Blk (takeWhile (\<lambda>g. \<not> fits h want g) (frees bs))), pxEnd h)"
      using hs by (simp only:)
    then show ?thesis using small by blast
  qed
qed

section \<open>The free list under updates\<close>

lemma frees_sorted: "tiles a bs e \<Longrightarrow> sorted_wrt (<) (frees bs)"
proof (induction bs arbitrary: a)
  case (Cons b bs)
  obtain x n al where b: "b = (x, n, al)" by (cases b)
  then have t: "tiles (a + n) bs e" "x = a" "0 < n" using Cons.prems by simp_all
  have "a < y" if "y \<in> set (frees bs)" for y
    using that tiles_mem [OF t(1)] t(3) by (fastforce simp: frees_mem)
  then show ?case using Cons.IH [OF t(1)] b t(2) by simp
qed simp

lemma frees_distinct: "tiles a bs e \<Longrightarrow> distinct (frees bs)"
  using frees_sorted strict_sorted_iff by blast

lemma tiles_unique:
  assumes "tiles a bs e" and "(x, n, al) \<in> set bs" and "(x, m, bl) \<in> set bs"
  shows "n = m \<and> al = bl"
  using tiles_disjoint [OF assms] tiles_mem [OF assms(1,2)] tiles_mem [OF assms(1,3)] by auto

lemma chain_cong:
  "successively (free_link h) ps \<Longrightarrow>
   (\<And>p. p \<in> set (butlast ps) \<Longrightarrow> pxNextFreeBlock (block h' p) = pxNextFreeBlock (block h p)) \<Longrightarrow>
   successively (free_link h') ps"
proof (induction ps)
  case (Cons p ps)
  then show ?case by (cases ps) (auto simp: free_link_def)
qed simp

lemma successively_glue:
  "successively P (xs @ [x]) \<Longrightarrow> successively P (x # ys) \<Longrightarrow> successively P (xs @ x # ys)"
  by (auto simp: successively_append_iff)

text \<open>A stretch \<open>ms\<close> of the free list is replaced by \<open>ns\<close>.\<close>

lemma free_list_replace:
  assumes f: "free_list h (fs @ ms @ gs)" and e: "pxEnd h' = pxEnd h"
    and fs: "\<And>p. p \<in> set (butlast (XStart # map Blk fs)) \<Longrightarrow> pxNextFreeBlock (block h' p) = pxNextFreeBlock (block h p)"
    and gs: "\<And>g. g \<in> set gs \<Longrightarrow> pxNextFreeBlock (hBlock h' g) = pxNextFreeBlock (hBlock h g)"
    and ns: "successively (free_link h') (last (XStart # map Blk fs) # map Blk ns @ [hd (map Blk gs @ [Blk (pxEnd h)])])"
  shows "free_list h' (fs @ ns @ gs)"
proof -
  let ?a = "XStart # map Blk fs" and ?b = "map Blk gs @ [Blk (pxEnd h)]"
  have "successively (free_link h) (?a @ map Blk ms @ ?b)" using f by (simp add: free_list_def)
  then have ab: "successively (free_link h) ?a" "successively (free_link h) ?b"
    unfolding successively_append_iff by blast+
  have a: "successively (free_link h') ?a" by (rule chain_cong [OF ab(1) fs])
  have b: "successively (free_link h') ?b" by (rule chain_cong [OF ab(2)]) (use gs in \<open>auto simp: block_def\<close>)
  obtain as l where as: "?a = as @ [l]" by (cases ?a rule: rev_cases) simp_all
  obtain q qs where q: "?b = q # qs" by (cases ?b) simp_all
  have n: "successively (free_link h') (l # map Blk ns @ [q])" using ns unfolding as q by simp
  have "successively (free_link h') (l # map Blk ns @ q # qs)"
    using successively_glue [of "free_link h'" "l # map Blk ns" q qs] n b [unfolded q] by simp
  then have c: "successively (free_link h') (as @ l # map Blk ns @ ?b)"
    using a [unfolded as] unfolding q by (rule successively_glue [rotated])
  have "XStart # map Blk (fs @ ns @ gs) @ [Blk (pxEnd h')] = ?a @ map Blk ns @ ?b" by (simp add: e)
  also have "\<dots> = as @ l # map Blk ns @ ?b" by (subst as) simp
  finally show ?thesis using c by (simp only: free_list_def)
qed

section \<open>Allocation\<close>

text \<open>What taking a block of \<open>n\<close> bytes leaves: the block itself, and the rest when it is large enough.\<close>

definition taken :: "nat \<Rightarrow> nat \<Rightarrow> nat \<Rightarrow> blk list" where
  "taken w x n = (if n - w > 16 then [(x, w, True), (x + w, n - w, False)] else [(x, n, True)])"

lemma take_view:
  assumes w: "unat want \<le> n" "0 < want" and n: "n < 2 ^ 31" and s: "xBlockSize (hBlock h x) = of_nat n"
    and p: "prev \<noteq> Blk x" "prev \<noteq> Blk (x + unat want)"
  defines "big \<equiv> n - unat want > 16" and "h' \<equiv> heap_take want prev x h"
  shows "pxEnd h' = pxEnd h"
    and "pxNextFreeBlock (block h' q) = (if q = Blk x then 0
       else if big \<and> q = Blk (x + unat want) then pxNextFreeBlock (hBlock h x)
       else if q = prev then if big then x + unat want else pxNextFreeBlock (hBlock h x)
       else pxNextFreeBlock (block h q))"
    and "xBlockSize (hBlock h' y) = (if y = x then (if big then want else of_nat n) OR heapBLOCK_ALLOCATED_BITMASK
       else if big \<and> y = x + unat want then of_nat (n - unat want) else xBlockSize (hBlock h y))"
    and "xFreeBytesRemaining h' = xFreeBytesRemaining h - (if big then want else of_nat n)"
    and "xMinimumEverFreeBytesRemaining h' \<le> xFreeBytesRemaining h'"
    and "xNumberOfSuccessfulAllocations h' = xNumberOfSuccessfulAllocations h + 1"
    and "xNumberOfSuccessfulFrees h' = xNumberOfSuccessfulFrees h"
    and "hByte h' = hByte h"
proof -
  have d: "of_nat n - want = (of_nat (n - unat want) :: size_t)" using w(1) by (simp add: of_nat_diff)
  have "unat (of_nat (n - unat want) :: size_t) = n - unat want" using n by (simp add: unat_of_nat)
  then have b: "of_nat (n - unat want) > (16 :: size_t) \<longleftrightarrow> big" by (simp add: big_def word_less_nat_alt)
  have "unat want \<noteq> 0" using w(2) by (simp add: word_greater_zero_iff unat_eq_zero)
  then have x: "x \<noteq> x + unat want" by simp
  let ?u = "heap_unlink want prev x h"
  have u: "block ?u q = (if q = Blk x then (hBlock h x)\<lparr>xBlockSize := (if big then want else of_nat n)\<rparr>
       else if big \<and> q = Blk (x + unat want)
         then \<lparr>pxNextFreeBlock = pxNextFreeBlock (hBlock h x), xBlockSize = of_nat (n - unat want)\<rparr>
       else if q = prev then (block h q)\<lparr>pxNextFreeBlock := if big then x + unat want else pxNextFreeBlock (hBlock h x)\<rparr>
       else block h q)" for q
    using p x s by (auto simp: heap_unlink_def Let_def d b)
  have fr: "pxEnd ?u = pxEnd h" "xFreeBytesRemaining ?u = xFreeBytesRemaining h"
    "xMinimumEverFreeBytesRemaining ?u = xMinimumEverFreeBytesRemaining h"
    "xNumberOfSuccessfulAllocations ?u = xNumberOfSuccessfulAllocations h"
    "xNumberOfSuccessfulFrees ?u = xNumberOfSuccessfulFrees h" "hByte ?u = hByte h"
    by (simp_all add: heap_unlink_def Let_def)
  have o: "block h' q = (if q = Blk x then \<lparr>pxNextFreeBlock = 0,
       xBlockSize = (if big then want else of_nat n) OR heapBLOCK_ALLOCATED_BITMASK\<rparr> else block ?u q)" for q
    using u [of "Blk x"] by (auto simp: h'_def heap_take_def heap_own_def Let_def)
  show "pxEnd h' = pxEnd h" "xNumberOfSuccessfulAllocations h' = xNumberOfSuccessfulAllocations h + 1"
    "xNumberOfSuccessfulFrees h' = xNumberOfSuccessfulFrees h" "hByte h' = hByte h"
    "xFreeBytesRemaining h' = xFreeBytesRemaining h - (if big then want else of_nat n)"
    "xMinimumEverFreeBytesRemaining h' \<le> xFreeBytesRemaining h'"
    using u [of "Blk x"] by (auto simp: h'_def heap_take_def heap_own_def Let_def fr)
  show "pxNextFreeBlock (block h' q) = (if q = Blk x then 0
       else if big \<and> q = Blk (x + unat want) then pxNextFreeBlock (hBlock h x)
       else if q = prev then if big then x + unat want else pxNextFreeBlock (hBlock h x)
       else pxNextFreeBlock (block h q))"
    by (simp add: o u)
  show "xBlockSize (hBlock h' y) = (if y = x then (if big then want else of_nat n) OR heapBLOCK_ALLOCATED_BITMASK
       else if big \<and> y = x + unat want then of_nat (n - unat want) else xBlockSize (hBlock h y))"
    using o [of "Blk y"] u [of "Blk y"] by (auto split: if_splits)
qed

text \<open>Which block has a free one before it in the list.\<close>

lemma last_free: "last (XStart # map Blk (frees us)) = Blk y \<Longrightarrow> y \<in> set (frees us)"
  by (cases "frees us" rule: rev_cases) auto

lemma merged_append:
  "merged (us @ vs) \<longleftrightarrow> merged us \<and> merged vs \<and>
     (us = [] \<or> vs = [] \<or> snd (snd (last us)) \<or> snd (snd (hd vs)))"
  by (auto simp: merged_def successively_append_iff)

lemma merged_Cons:
  "merged (b # vs) \<longleftrightarrow> merged vs \<and> (vs = [] \<or> snd (snd b) \<or> snd (snd (hd vs)))"
  by (cases vs) (auto simp: merged_def)

lemma merged_Nil [simp]: "merged []" by (simp add: merged_def)

lemma link_below:
  assumes "tiles a us x" and "last (XStart # map Blk (frees us)) = Blk y"
  shows "\<exists>m. (y, m, False) \<in> set us \<and> y < x"
  using last_free [OF assms(2)] tiles_mem [OF assms(1)] by (fastforce simp: frees_mem)

text \<open>The headers outside the block that is taken.\<close>

lemma take_out:
  assumes t: "tiles a us x" and w: "unat want \<le> n" "0 < want" and n: "n < 2 ^ 31" and s: "xBlockSize (hBlock h x) = of_nat n"
    and y: "y < x \<or> x + n \<le> y"
  defines "prev \<equiv> last (XStart # map Blk (frees us))"
  shows "hBlock (heap_take want prev x h) y = (if prev = Blk y then (hBlock h y)\<lparr>pxNextFreeBlock :=
      if n - unat want > 16 then x + unat want else pxNextFreeBlock (hBlock h x)\<rparr> else hBlock h y)"
proof -
  have p: "prev \<noteq> Blk x" "prev \<noteq> Blk (x + unat want)" using link_below [OF t] unfolding prev_def by fastforce+
  have "0 < unat want" using w(2) by (simp add: word_less_nat_alt)
  then show ?thesis using take_view(2) [OF w n s p, of "Blk y"] take_view(3) [OF w n s p, of y] y w(1)
    by (intro BlockLink_t.equality) auto
qed

lemma take_headers:
  assumes inv: "heap_inv h a bs" and bs: "bs = us @ (x, n, False) # vs"
    and w: "unat want \<le> n" "0 < want" and t: "tiles a us x" "tiles (x + n) vs (pxEnd h)" and c: "c \<in> set us \<union> set vs"
  shows "header (heap_take want (last (XStart # map Blk (frees us))) x h) c"
proof -
  note i = heap_invD [OF inv]
  have xn: "(x, n, False) \<in> set bs" by (simp add: bs)
  then have hx: "xBlockSize (hBlock h x) = of_nat n" using i(7) [OF xn] by (simp add: header_def)
  obtain y m al where c': "c = (y, m, al)" by (cases c)
  have y: "y < x \<or> x + n \<le> y" using c tiles_mem [OF t(1), of y m al] tiles_mem [OF t(2), of y m al] by (auto simp: c')
  have h: "header h c" "(y, m, al) \<in> set bs" using i(7) c by (auto simp: bs c')
  have "\<not> al" if l: "last (XStart # map Blk (frees us)) = Blk y"
  proof -
    obtain m' where "(y, m', False) \<in> set bs" using link_below [OF t(1) l] by (auto simp: bs)
    from tiles_unique [OF i(5) h(2) this] show ?thesis by simp
  qed
  then show ?thesis using take_out [OF t(1) w inv_size(2) [OF inv xn] hx y] h(1)
    by (auto simp: header_def c' simp del: last.simps)
qed

lemma take_free_list:
  assumes inv: "heap_inv h a bs" and bs: "bs = us @ (x, n, False) # vs"
    and w: "unat want \<le> n" "0 < want" and t: "tiles a us x" "tiles (x + n) vs (pxEnd h)"
  defines "prev \<equiv> last (XStart # map Blk (frees us))"
  shows "free_list (heap_take want prev x h) (frees us @ frees (taken (unat want) x n) @ frees vs)"
proof -
  let ?w = "unat want" and ?h = "heap_take want prev x h"
  note i = heap_invD [OF inv]
  have xn: "(x, n, False) \<in> set bs" by (simp add: bs)
  have hx: "xBlockSize (hBlock h x) = of_nat n" using i(7) [OF xn] by (simp add: header_def)
  have w0: "0 < ?w" using w(2) by (simp add: word_less_nat_alt)
  have p: "prev \<noteq> Blk x" "prev \<noteq> Blk (x + ?w)" using link_below [OF t(1)] unfolding prev_def by fastforce+
  note v = take_view [OF w inv_size(2) [OF inv xn] hx p]
  have f0: "free_list h (frees us @ [x] @ frees vs)" using i(8) by (simp add: bs)
  have nx: "Blk (pxNextFreeBlock (hBlock h x)) = hd (map Blk (frees vs) @ [Blk (pxEnd h)])"
    using free_list_split [of h "frees us @ [x]" "frees vs"] f0 by (cases "frees vs") simp_all
  show ?thesis
  proof (rule free_list_replace [OF f0 v(1)])
    show "pxNextFreeBlock (block ?h q) = pxNextFreeBlock (block h q)" if q: "q \<in> set (butlast (XStart # map Blk (frees us)))" for q
    proof -
      have d: "distinct (XStart # map Blk (frees us))" using frees_distinct [OF t(1)] by (auto simp: distinct_map inj_on_def)
      have "XStart # map Blk (frees us) = butlast (XStart # map Blk (frees us)) @ [prev]" by (simp add: prev_def)
      with d have "distinct (butlast (XStart # map Blk (frees us)) @ [prev])" by argo
      then have "q \<noteq> prev" using q by auto
      moreover have "y < x" if "q = Blk y" for y
        using in_set_butlastD [OF q] that tiles_mem [OF t(1)] by (fastforce simp: frees_mem)
      ultimately show ?thesis using v(2) [of q] w0 by (cases q) auto
    qed
    show "pxNextFreeBlock (hBlock ?h g) = pxNextFreeBlock (hBlock h g)" if "g \<in> set (frees vs)" for g
    proof -
      have "x + n \<le> g" using that tiles_mem [OF t(2)] by (auto simp: frees_mem)
      moreover from this have "prev \<noteq> Blk g" using link_below [OF t(1), of g] unfolding prev_def by auto
      ultimately show ?thesis using take_out [OF t(1) w inv_size(2) [OF inv xn] hx, of g] unfolding prev_def by simp
    qed
    show "successively (free_link ?h) (last (XStart # map Blk (frees us)) # map Blk (frees (taken ?w x n)) @
        [hd (map Blk (frees vs) @ [Blk (pxEnd h)])])"
      unfolding nx [symmetric] prev_def [symmetric]
      using p v(2) [of prev] v(2) [of "Blk (x + ?w)"] w0 by (auto simp: taken_def free_link_def)
  qed
qed

lemma take_inv:
  assumes inv: "heap_inv h a bs" and bs: "bs = us @ (x, n, False) # vs"
    and w: "unat want \<le> n" "0 < want" "8 dvd unat want"
  defines "prev \<equiv> last (XStart # map Blk (frees us))"
  shows "heap_inv (heap_take want prev x h) a (us @ taken (unat want) x n @ vs)"
proof -
  let ?w = "unat want" and ?h = "heap_take want prev x h"
  note i = heap_invD [OF inv] and z = inv_size [OF inv, of x n False]
  have xn: "(x, n, False) \<in> set bs" by (simp add: bs)
  have hx: "xBlockSize (hBlock h x) = of_nat n" using i(7) [OF xn] by (simp add: header_def)
  have w0: "0 < ?w" using w(2) by (simp add: word_less_nat_alt)
  obtain b where "tiles a us b" "tiles b ((x, n, False) # vs) (pxEnd h)" using i(5) by (auto simp: bs tiles_append)
  then have t: "tiles a us x" "tiles (x + n) vs (pxEnd h)" by simp_all
  have p: "prev \<noteq> Blk x" "prev \<noteq> Blk (x + ?w)" using link_below [OF t(1)] unfolding prev_def by fastforce+
  note v = take_view [OF w(1,2) z(2) [OF xn] hx p]
  have tl: "tiles a (us @ taken ?w x n @ vs) (pxEnd h)"
    using t w0 w(1,3) z(5,6) [OF xn] by (auto simp: tiles_append taken_def dvd_diff_nat)
  have mg: "merged (us @ taken ?w x n @ vs)"
    using i(6) by (auto simp: bs merged_append merged_Cons taken_def)
  have new: "header ?h c" if "c \<in> set (taken ?w x n)" for c
    using that v(2) [of "Blk x"] v(3) [of x] v(3) [of "x + ?w"] w0
    by (auto simp: taken_def header_def split: if_splits)
  have hds: "\<forall>c\<in>set (us @ taken ?w x n @ vs). header ?h c"
    using new take_headers [OF inv bs w(1,2) t] unfolding prev_def by auto
  have fl: "free_list ?h (frees (us @ taken ?w x n @ vs))"
    using take_free_list [OF inv bs w(1,2) t] unfolding prev_def by simp
  have fs: "xFreeBytesRemaining ?h = of_nat (free_size (us @ taken ?w x n @ vs))"
    using w(1) by (simp add: v(4) i(10) bs taken_def of_nat_diff)
  have "prev \<noteq> Blk (pxEnd h)" using link_below [OF t(1), of "pxEnd h"] z(4) [OF xn] unfolding prev_def by auto
  then have "hBlock ?h (pxEnd h) = hBlock h (pxEnd h)"
    using take_out [OF t(1) w(1,2) z(2) [OF xn] hx, of "pxEnd h"] z(4) [OF xn] unfolding prev_def by simp
  then show ?thesis
    using i(1-4,9) tl mg hds fl fs v(5) unfolding heap_inv_def v(1) by simp
qed

text \<open>The size of a request in numbers: the header and the bytes, rounded up to a multiple of 8.\<close>

lemma unat_32: "unat (w :: 32 word) < 2 ^ 32"
proof -
  have "unat w < 2 ^ LENGTH(32)" by (rule unsigned_less)
  then show ?thesis by simp
qed

lemma unat_and_7: "unat (w AND 7 :: size_t) = unat w mod 8"
proof -
  have "w AND 7 = take_bit 3 w" by (simp add: take_bit_eq_mask mask_eq_exp_minus_1)
  then show ?thesis by (simp add: unsigned_take_bit_eq take_bit_eq_mod unat_mod)
qed

lemma add_overflow_iff: "heapADD_WILL_OVERFLOW a b \<longleftrightarrow> 2 ^ 32 \<le> unat a + unat b"
proof -
  have m: "(0xFFFFFFFF :: size_t) = - 1" by simp
  have "unat (0xFFFFFFFF - b) = 2 ^ 32 - 1 - unat b"
    using unat_32 [of b] by (subst unat_sub) (auto simp: word_le_nat_alt)
  then show ?thesis using unat_32 [of a] unat_32 [of b]
    by (auto simp: heapADD_WILL_OVERFLOW_def word_less_nat_alt)
qed

lemma round_up: "k mod 8 \<noteq> 0 \<Longrightarrow> (k + 7) div 8 * 8 = k + (8 - k mod 8)" for k :: nat
proof -
  assume "k mod 8 \<noteq> 0"
  then have "(k + 7) div 8 = k div 8 + 1" by (intro div_nat_eqI) (auto simp: mult.commute, presburger+)
  then show ?thesis using div_mult_mod_eq [of k 8] mod_less_divisor [of 8 k] by linarith
qed

lemma heap_request_nat:
  "heap_request want = (let k = (unat want + 15) div 8 * 8 in
     if 0 < want \<and> k < 2 ^ 32 then of_nat k else 0)"
proof (cases "0 < want \<and> unat want + 8 < 2 ^ 32")
  case True
  let ?v = "want + 8"
  have v: "unat ?v = unat want + 8" using True by (simp add: unat_word_ariths)
  have o: "\<not> heapADD_WILL_OVERFLOW want 8" using True by (simp add: add_overflow_iff)
  show ?thesis
  proof (cases "?v AND 7 = 0")
    case True
    then have "(unat want + 8) mod 8 = 0" using unat_and_7 [of ?v] v by simp
    then have k: "(unat want + 15) div 8 * 8 = unat want + 8" by presburger
    have "heap_request want = ?v" using o True \<open>0 < want \<and> unat want + 8 < 2 ^ 32\<close> by (simp add: heap_request_def Let_def)
    moreover have "of_nat (unat want + 8) = ?v" by simp
    ultimately show ?thesis using \<open>0 < want \<and> unat want + 8 < 2 ^ 32\<close> by (simp only: k Let_def if_True simp_thms)
  next
    case False
    then have m: "(unat want + 8) mod 8 \<noteq> 0" unfolding v [symmetric] unat_and_7 [symmetric] unat_eq_zero by simp
    have e: "unat (8 - (?v AND 7)) = 8 - (unat want + 8) mod 8"
      using unat_and_7 [of ?v] v by (subst unat_sub) (auto simp: word_le_nat_alt)
    have k: "(unat want + 15) div 8 * 8 = unat want + 8 + (8 - (unat want + 8) mod 8)" using round_up [OF m] by (simp only: add.assoc) simp
    let ?x = "8 - (?v AND 7)"
    have ov: "heapADD_WILL_OVERFLOW ?v ?x \<longleftrightarrow> \<not> (unat want + 15) div 8 * 8 < 2 ^ 32"
      unfolding add_overflow_iff v e k by auto
    have "heap_request want = (if \<not> heapADD_WILL_OVERFLOW ?v ?x then ?v + ?x else 0)"
      using o False \<open>0 < want \<and> unat want + 8 < 2 ^ 32\<close> by (simp add: heap_request_def Let_def)
    moreover have "of_nat ((unat want + 15) div 8 * 8) = ?v + ?x"
      unfolding k v [symmetric] e [unfolded v [symmetric], symmetric] by simp
    ultimately show ?thesis using ov \<open>0 < want \<and> unat want + 8 < 2 ^ 32\<close> by (simp only: Let_def simp_thms if_cancel)
  qed
next
  case False
  show ?thesis
  proof (cases "want = 0")
    case False
    then have b: "2 ^ 32 \<le> unat want + 8" "0 < want" using \<open>\<not> (0 < want \<and> unat want + 8 < 2 ^ 32)\<close> by (auto simp: word_neq_0_conv)
    then have "2 ^ 32 \<le> (unat want + 15) div 8 * 8" by presburger
    moreover have "heap_request want = 0" using b by (simp add: heap_request_def add_overflow_iff)
    ultimately show ?thesis by simp
  qed (simp add: heap_request_def)
qed

lemma valid_size_iff: "heapBLOCK_SIZE_IS_VALID n \<longleftrightarrow> unat n < 2 ^ 31"
proof -
  have "(0x80000000 :: size_t) = push_bit 31 1" by simp
  then have "n AND 0x80000000 = 0 \<longleftrightarrow> \<not> bit n 31" by (simp only: and_exp_eq_0_iff_not_bit push_bit_of_1)
  moreover have "bit n 31 \<longleftrightarrow> odd (unat n div 2 ^ 31)" 
  proof -
    have "bit (unat n) 31 \<longleftrightarrow> bit n 31" by (simp add: bit_unsigned_iff)
    then show ?thesis by (simp add: bit_iff_odd [of "unat n"])
  qed
  moreover have "odd (unat n div 2 ^ 31) \<longleftrightarrow> \<not> unat n < 2 ^ 31" 
  proof -
    have "unat n div 2 ^ 31 = (if unat n < 2 ^ 31 then 0 else 1)"
      using unat_32 [of n] by (auto intro: div_nat_eqI)
    then show ?thesis by simp
  qed
  ultimately show ?thesis by (simp add: heapBLOCK_SIZE_IS_VALID_def)
qed

lemma free_size_member: "(x, n, False) \<in> set bs \<Longrightarrow> n \<le> free_size bs"
  by (induction bs rule: free_size.induct) auto

text \<open>What \<open>pvPortMalloc\<close> does to an initialised heap, on each branch.\<close>

definition malloc_size :: "size_t \<Rightarrow> nat" where
  "malloc_size want = (unat want + 15) div 8 * 8"

lemma heap_request_cases:
  assumes "0 < want"
  shows "if malloc_size want < 2 ^ 32 then unat (heap_request want) = malloc_size want else heap_request want = 0"
proof -
  have "heap_request want = (if malloc_size want < 2 ^ 32 then of_nat (malloc_size want) else 0)"
    using heap_request_nat [of want] assms by (simp only: malloc_size_def Let_def simp_thms)
  moreover have "unat (of_nat k :: size_t) = k" if "k < 2 ^ 32" for k using that by (simp add: unat_of_nat)
  ultimately show ?thesis by simp
qed

lemma malloc_cases:
  fixes want :: size_t
  assumes inv: "heap_inv h a bs"
  defines "w \<equiv> malloc_size want"
  shows "(\<exists>us x n vs h'. bs = us @ (x, n, False) # vs \<and> 0 < want \<and> w \<le> n \<and>
       (\<forall>y m. (y, m, False) \<in> set us \<longrightarrow> m < w) \<and>
       pvPortMalloc c want h = Some (h', x + 8) \<and> heap_inv h' a (us @ taken w x n @ vs) \<and>
       xNumberOfSuccessfulAllocations h' = xNumberOfSuccessfulAllocations h + 1 \<and> hByte h' = hByte h) \<or>
    (want = 0 \<or> (\<forall>y m. (y, m, False) \<in> set bs \<longrightarrow> m < w)) \<and> pvPortMalloc c want h = Some (h, 0)"
proof -
  let ?r = "heap_request want"
  note i = heap_invD [OF inv]
  have sz: "n < 2 ^ 31" if "(x, n, False) \<in> set bs" for x n using inv_size(2) [OF inv that] .
  have init: "pxEnd h \<noteq> 0" using inv_pos [OF inv] by simp
  have w8: "8 dvd w" and wp: "0 < w" unfolding w_def malloc_size_def by simp_all
  show ?thesis
  proof (cases "0 < want \<and> w < 2 ^ 31")
    case False
    have "want = 0 \<or> (\<forall>y m. (y, m, False) \<in> set bs \<longrightarrow> m < w)" using False sz by (fastforce simp: word_neq_0_conv)
    moreover have "unat ?r = w \<or> ?r = 0" if "0 < want"
      using heap_request_cases [OF that] by (auto simp: w_def split: if_splits)
    then have "\<not> (heapBLOCK_SIZE_IS_VALID ?r \<and> 0 < ?r)"
      using False by (auto simp: valid_size_iff heap_request_def word_neq_0_conv)
    then have "pvPortMalloc c want h = Some (h, 0)" using init by (simp add: pvPortMalloc_def Let_def)
    ultimately show ?thesis by blast
  next
    case True
    then have r: "unat ?r = w" using heap_request_cases [of want] by (simp add: w_def)
    then have r0: "0 < ?r" "heapBLOCK_SIZE_IS_VALID ?r" using wp True by (auto simp: word_less_nat_alt valid_size_iff)
    have fs: "free_size bs < 2 ^ 31" using free_size_le [OF i(5)] i(4) by simp
    show ?thesis
    proof (cases "?r \<le> xFreeBytesRemaining h")
      case False
      then have "free_size bs < w" using fs by (simp add: i(10) word_le_nat_alt r unat_of_nat)
      then have "\<forall>y m. (y, m, False) \<in> set bs \<longrightarrow> m < w" using free_size_member by fastforce
      moreover have "pvPortMalloc c want h = Some (h, 0)" using False init by (simp add: pvPortMalloc_def Let_def)
      ultimately show ?thesis by blast
    next
      case le: True
      from heap_search_cases [OF inv r0(1)] show ?thesis
      proof
        assume "\<exists>us x n vs. bs = us @ (x, n, False) # vs \<and> unat ?r \<le> n \<and>
          (\<forall>y m. (y, m, False) \<in> set us \<longrightarrow> m < unat ?r) \<and>
          heap_search ?r h = Some (last (XStart # map Blk (frees us)), x)"
        then obtain us x n vs where bs: "bs = us @ (x, n, False) # vs" and n: "w \<le> n"
          and us: "\<forall>y m. (y, m, False) \<in> set us \<longrightarrow> m < w"
          and s: "heap_search ?r h = Some (last (XStart # map Blk (frees us)), x)" by (auto simp: r)
        let ?h = "heap_take ?r (last (XStart # map Blk (frees us))) x h"
        have xe: "x \<noteq> pxEnd h" using inv_size(4,5) [OF inv, of x n False] by (simp add: bs)
        have nx: "pxNextFreeBlock (block h (last (XStart # map Blk (frees us)))) = x"
          using free_list_split [of h "frees us" "x # frees vs"] i(8) by (simp add: bs)
        have "pvPortMalloc c want h = Some (?h, x + 8)"
          using init r0 le s xe nx by (simp add: pvPortMalloc_def Let_def del: last.simps)
        moreover have "heap_inv ?h a (us @ taken w x n @ vs)"
          using take_inv [OF inv bs, of ?r] n r0(1) w8 by (simp add: r)
        moreover have "xNumberOfSuccessfulAllocations ?h = xNumberOfSuccessfulAllocations h + 1 \<and> hByte ?h = hByte h"
          by (simp add: heap_take_def heap_own_def heap_unlink_def Let_def)
        ultimately show ?thesis using bs n us True by blast
      next
        assume n: "(\<forall>y m. (y, m, False) \<in> set bs \<longrightarrow> m < unat ?r) \<and> (\<exists>prev. heap_search ?r h = Some (prev, pxEnd h))"
        then have "pvPortMalloc c want h = Some (h, 0)" using init r0 le by (auto simp: pvPortMalloc_def Let_def)
        then show ?thesis using n r by simp
      qed
    qed
  qed
qed

section \<open>Release\<close>

lemma insert_from:
  "free_list h (fs @ gs @ ks) \<Longrightarrow> \<forall>g\<in>set gs. g < x \<Longrightarrow> \<not> hd (ks @ [pxEnd h]) < x \<Longrightarrow>
   while_option (\<lambda>it. pxNextFreeBlock (block h it) < x) (\<lambda>it. Blk (pxNextFreeBlock (block h it)))
     (last (XStart # map Blk fs)) = Some (last (XStart # map Blk (fs @ gs)))"
proof (induction gs arbitrary: fs)
  case Nil
  have "pxNextFreeBlock (block h (last (XStart # map Blk fs))) = hd (ks @ [pxEnd h])"
    using free_list_split [of h fs ks] Nil.prems(1) by (cases ks) simp_all
  then show ?case using Nil.prems(3) by (subst while_option_unfold) (simp del: last.simps)
next
  case (Cons g gs)
  have n: "pxNextFreeBlock (block h (last (XStart # map Blk fs))) = g"
    using free_list_split [of h fs "g # gs @ ks"] Cons.prems(1) by simp
  have l: "last (XStart # map Blk fs @ [Blk g]) = Blk g" by simp
  have "free_list h ((fs @ [g]) @ gs @ ks)" using Cons.prems(1) by simp
  from Cons.IH [OF this] Cons.prems n l show ?case
    by (subst while_option_unfold) (simp del: last.simps)
qed

text \<open>The block that follows is taken in when it is free: \<open>next_in\<close> tells its size and its successor.\<close>

definition next_in :: "heap4 \<Rightarrow> nat \<Rightarrow> nat \<Rightarrow> size_t \<times> nat" where
  "next_in h e nx =
     (if e = nx \<and> nx \<noteq> pxEnd h then (xBlockSize (hBlock h nx), pxNextFreeBlock (hBlock h nx)) else (0, nx))"

lemma merge_alone:
  assumes "it \<noteq> Blk x" and "\<And>y. it = Blk y \<Longrightarrow> y + unat (xBlockSize (hBlock h y)) \<noteq> x"
    and "nx = pxNextFreeBlock (block h it)" and "nx \<noteq> x"
    and "ni = next_in h (x + unat (xBlockSize (hBlock h x))) nx"
  shows "block (heap_merge it x h) q =
    (if q = Blk x then \<lparr>pxNextFreeBlock = snd ni, xBlockSize = xBlockSize (hBlock h x) + fst ni\<rparr>
     else if q = it then (block h it)\<lparr>pxNextFreeBlock := x\<rparr> else block h q)"
  using assms by (cases it) (auto simp: heap_merge_def next_in_def Let_def)

lemma merge_before:
  assumes "y + unat (xBlockSize (hBlock h y)) = x" and "y \<noteq> x"
    and "nx = pxNextFreeBlock (hBlock h y)" and "nx \<noteq> y"
    and "ni = next_in h (y + unat (xBlockSize (hBlock h y) + xBlockSize (hBlock h x))) nx"
  shows "block (heap_merge (Blk y) x h) q =
    (if q = Blk y then \<lparr>pxNextFreeBlock = snd ni, xBlockSize = xBlockSize (hBlock h y) + xBlockSize (hBlock h x) + fst ni\<rparr>
     else block h q)"
  using assms by (auto simp: heap_merge_def next_in_def Let_def)

lemma merge_keeps:
  assumes "\<And>p g h. f (upd_block p g h) = f h"
  shows "f (heap_merge it b h) = f h"
  by (cases it) (simp_all add: heap_merge_def Let_def assms)

lemma merge_frame [simp]:
  "pxEnd (heap_merge it x h) = pxEnd h" "hByte (heap_merge it x h) = hByte h"
  "xFreeBytesRemaining (heap_merge it x h) = xFreeBytesRemaining h"
  "xMinimumEverFreeBytesRemaining (heap_merge it x h) = xMinimumEverFreeBytesRemaining h"
  "xNumberOfSuccessfulAllocations (heap_merge it x h) = xNumberOfSuccessfulAllocations h"
  "xNumberOfSuccessfulFrees (heap_merge it x h) = xNumberOfSuccessfulFrees h"
  by (rule merge_keeps, simp)+

end
