(* ===== verification/FRTOS_HeapFree.thy ===== *)
theory FRTOS_HeapFree
  imports FRTOS_Heap
begin

text \<open>
  Release in the heap of FreeRTOS: a block that is freed is free, and merged with the free blocks before
  and behind it; and the claims about sequences of allocations and releases.
\<close>

unbundle bit_operations_syntax

text \<open>Free neighbours made one block.\<close>

fun join :: "blk list \<Rightarrow> blk list" where
  "join ((x, n, False) # (y, m, False) # bs) = join ((x, n + m, False) # bs)"
| "join (b # bs) = b # join bs"
| "join [] = []"

lemma join_merged: "merged bs \<Longrightarrow> join bs = bs"
  by (induction bs rule: join.induct) (auto simp: merged_Cons)

lemma join_alloc [simp]: "join ((x, n, True) # bs) = (x, n, True) # join bs"
  by (cases bs) auto

lemma join_append:
  "merged us \<Longrightarrow> us = [] \<or> snd (snd (last us)) \<Longrightarrow> join (us @ vs) = us @ join vs"
proof (induction us)
  case (Cons u us)
  then have IH: "join (us @ vs) = us @ join vs" by (cases us) (auto simp: merged_Cons)
  obtain x n al where u: "u = (x, n, al)" by (cases u)
  show ?case
  proof (cases al)
    case False
    with Cons.prems u obtain v us' where "us = v # us'" "snd (snd v)" by (cases us) (auto simp: merged_Cons)
    then show ?thesis using IH u by (cases v) auto
  qed (use IH u in simp)
qed simp

lemma join_free:
  assumes "merged vs" and "vs = [] \<or> snd (snd (hd vs))"
  shows "join ((x, n, False) # vs) = (x, n, False) # vs"
  using assms by (intro join_merged) (simp add: merged_Cons)

text \<open>The free blocks around an allocated one.\<close>

lemma free_before:
  assumes "merged us"
  obtains us0 ms where "us = us0 @ ms" and "us0 = [] \<or> snd (snd (last us0))" and "merged us0"
    and "ms = [] \<or> (\<exists>y m. ms = [(y, m, False)])"
proof (cases "us = [] \<or> snd (snd (last us))")
  case True
  then show ?thesis using that [of us "[]"] assms by simp
next
  case False
  then obtain us0 y m where us: "us = us0 @ [(y, m, False)]" by (cases us rule: rev_cases) auto
  then show ?thesis using that [of us0 "[(y, m, False)]"] assms by (auto simp: merged_append)
qed

lemma free_behind:
  assumes "merged vs"
  obtains ks vs' where "vs = ks @ vs'" and "vs' = [] \<or> snd (snd (hd vs'))" and "merged vs'"
    and "ks = [] \<or> (\<exists>z k. ks = [(z, k, False)])"
proof (cases "vs = [] \<or> snd (snd (hd vs))")
  case True
  then show ?thesis using that [of "[]" vs] assms by simp
next
  case False
  then obtain vs' z k where vs: "vs = (z, k, False) # vs'" by (cases vs) auto
  then show ?thesis using that [of "[(z, k, False)]" vs'] assms by (auto simp: merged_Cons)
qed

lemma join_around:
  assumes "ms = [] \<or> (\<exists>y m. ms = [(y, m, False)])" and "ks = [] \<or> (\<exists>z k. ks = [(z, k, False)])"
    and "merged us0" "us0 = [] \<or> snd (snd (last us0))" and "merged vs'" "vs' = [] \<or> snd (snd (hd vs'))"
  shows "join ((us0 @ ms) @ (x, n, False) # ks @ vs') =
    us0 @ (hd (frees ms @ [x]), free_size ms + n + free_size ks, False) # vs'"
  using assms(1,2) by (auto simp: join_append [OF assms(3,4)] join_free [OF assms(5,6)] add.assoc)

text \<open>The mark of the owner in the header.\<close>

lemma clear_bits:
  fixes m k :: "'a::len word"
  assumes "m AND k = 0"
  shows "(m OR k) AND NOT k = m"
proof (rule bit_word_eqI)
  fix i assume "i < LENGTH('a)"
  moreover have "\<not> (bit m i \<and> bit k i)" using arg_cong [OF assms, of "\<lambda>w. bit w i"] by (simp add: bit_simps)
  ultimately show "bit ((m OR k) AND NOT k) i = bit m i" by (auto simp: bit_simps)
qed

lemma allocated_mark:
  assumes "n < 2 ^ 31"
  shows "(of_nat n OR 0x80000000) AND 0x80000000 \<noteq> (0 :: size_t)"
    and "(of_nat n OR 0x80000000) AND NOT 0x80000000 = (of_nat n :: size_t)"
proof -
  have n: "of_nat n AND (0x80000000 :: size_t) = 0"
    using valid_size_iff [of "of_nat n"] assms by (simp add: heapBLOCK_SIZE_IS_VALID_def unat_of_nat)
  then show "(of_nat n OR 0x80000000) AND 0x80000000 \<noteq> (0 :: size_t)" by (simp add: bit.conj_disj_distrib2)
  show "(of_nat n OR 0x80000000) AND NOT 0x80000000 = (of_nat n :: size_t)" using clear_bits [OF n] .
qed

section \<open>One release\<close>

text \<open>The parts of the heap around the block that is freed.\<close>

lemma around:
  assumes inv: "heap_inv h a bs" and bs: "bs = (us0 @ ms) @ (x, n, True) # ks @ vs'"
    and ms: "ms = [] \<or> (\<exists>y m. ms = [(y, m, False)])" and ks: "ks = [] \<or> (\<exists>z k. ks = [(z, k, False)])"
  defines "b \<equiv> hd (frees ms @ [x])" and "e \<equiv> x + n + free_size ks"
  shows "tiles a us0 b" and "b + free_size ms = x" and "tiles e vs' (pxEnd h)"
    and "frees ks = (if ks = [] then [] else [x + n])" and "ks \<noteq> [] \<Longrightarrow> x + n < pxEnd h"
    and "free_size ms + n + free_size ks < 2 ^ 31" and "0 < n" and "8 dvd n" and "8 dvd free_size ms" and "8 dvd free_size ks"
proof -
  note i = heap_invD [OF inv]
  obtain c d where c: "tiles a us0 c" "tiles c ms d" "tiles d ((x, n, True) # ks @ vs') (pxEnd h)"
    using i(5) by (auto simp: bs tiles_append)
  then obtain f where f: "tiles (x + n) ks f" "tiles f vs' (pxEnd h)" by (auto simp: tiles_append)
  have x: "d = x" "0 < n" "8 dvd n" using c(3) by simp_all
  show "0 < n" "8 dvd n" using x by simp_all
  have m: "c = b" "b + free_size ms = x" "8 dvd free_size ms" using ms c(2) x(1) by (auto simp: b_def)
  show "tiles a us0 b" "b + free_size ms = x" "8 dvd free_size ms" using c(1) m by simp_all
  have k: "f = e" "8 dvd free_size ks" "frees ks = (if ks = [] then [] else [x + n])" using ks f(1) by (auto simp: e_def)
  show "tiles e vs' (pxEnd h)" "8 dvd free_size ks" "frees ks = (if ks = [] then [] else [x + n])"
    using f(2) k by simp_all
  have "a \<le> b" "e \<le> pxEnd h" using tiles_le [OF \<open>tiles a us0 b\<close>] tiles_le [OF \<open>tiles e vs' (pxEnd h)\<close>] by simp_all
  then show "free_size ms + n + free_size ks < 2 ^ 31" using m(2) i(4) by (simp add: e_def)
  show "x + n < pxEnd h" if "ks \<noteq> []" using that ks f(1) \<open>e \<le> pxEnd h\<close> k(1) by (auto simp: e_def)
qed
lemma hd_behind:
  assumes "tiles e vs p" and "vs = [] \<or> snd (snd (hd vs))"
  shows "hd (frees vs @ [p]) = p \<or> e < hd (frees vs @ [p])"
proof (cases vs)
  case (Cons v vs')
  then obtain n where v: "v = (e, n, True)" "0 < n" "tiles (e + n) vs' p" using assms by (cases v) auto
  show ?thesis
  proof (cases "frees vs'")
    case (Cons y ys)
    then have "y \<in> set (frees vs')" by simp
    then have "e + n \<le> y" using tiles_mem [OF v(3)] by (auto simp: frees_mem)
    then show ?thesis using \<open>vs = v # vs'\<close> v Cons by simp
  qed (simp add: \<open>vs = v # vs'\<close> v)
qed simp

lemma apart:
  assumes "tiles a us b" and "us = [] \<or> snd (snd (last us))" and "(y, m, False) \<in> set us"
  shows "y + m < b"
proof -
  obtain u1 c k where us: "us = u1 @ [(c, k, True)]" using assms(2,3) by (cases us rule: rev_cases) auto
  then have "tiles a u1 c" "c + k = b" "0 < k" using assms(1) by (auto simp: tiles_append)
  then show ?thesis using tiles_mem [of a u1 c y m False] assms(3) us by auto
qed

text \<open>The heap when the block is marked free and not yet in the list.\<close>

definition unmarked :: "nat \<Rightarrow> heap4 \<Rightarrow> heap4" where
  "unmarked x h =
     (let h = upd_block (Blk x) (\<lambda>p. p\<lparr>xBlockSize := xBlockSize p AND NOT 0x80000000\<rparr>) h
      in h\<lparr>xFreeBytesRemaining := xFreeBytesRemaining h + xBlockSize (hBlock h x)\<rparr>)"

lemma unmarked_view:
  assumes "header h (x, n, True)" and "n < 2 ^ 31"
  shows "block (unmarked x h) q = (if q = Blk x then \<lparr>pxNextFreeBlock = 0, xBlockSize = of_nat n\<rparr> else block h q)"
    and "xFreeBytesRemaining (unmarked x h) = xFreeBytesRemaining h + of_nat n"
    and "pxEnd (unmarked x h) = pxEnd h" and "hByte (unmarked x h) = hByte h"
    and "xMinimumEverFreeBytesRemaining (unmarked x h) = xMinimumEverFreeBytesRemaining h"
    and "xNumberOfSuccessfulAllocations (unmarked x h) = xNumberOfSuccessfulAllocations h"
    and "xNumberOfSuccessfulFrees (unmarked x h) = xNumberOfSuccessfulFrees h"
  using assms allocated_mark(2) [OF assms(2)]
  by (auto simp: unmarked_def Let_def header_def intro: BlockLink_t.equality)

lemma free_insert:
  assumes inv: "heap_inv h a bs" and bs: "bs = us @ (x, n, True) # vs"
  shows "vPortFree (x + 8) h = Some ((heap_merge (last (XStart # map Blk (frees us))) x (unmarked x h))
      \<lparr>xNumberOfSuccessfulFrees := xNumberOfSuccessfulFrees h + 1\<rparr>)"
    and "free_list (unmarked x h) (frees us @ frees vs)"
proof -
  note i = heap_invD [OF inv]
  have xn: "(x, n, True) \<in> set bs" by (simp add: bs)
  have hx: "header h (x, n, True)" "n < 2 ^ 31" using i(7) [OF xn] inv_size(2) [OF inv xn] .
  note u = unmarked_view [OF hx]
  have "pxNextFreeBlock (block (unmarked x h) p) = pxNextFreeBlock (block h p)" for p
    using hx(1) by (auto simp: u header_def)
  then show f: "free_list (unmarked x h) (frees us @ frees vs)"
    using i(8) chain_cong [of h _ "unmarked x h"] by (simp add: free_list_def bs u(3))
  obtain b where t: "tiles a us b" "tiles b ((x, n, True) # vs) (pxEnd h)" using i(5) by (auto simp: bs tiles_append)
  then have bx: "tiles a us x" "tiles (x + n) vs (pxEnd h)" by simp_all
  have lt: "\<forall>g\<in>set (frees us). g < x" using tiles_mem [OF bx(1)] by (fastforce simp: frees_mem)
  have "x < g" if "g \<in> set (frees vs @ [pxEnd h])" for g
    using that tiles_mem [OF bx(2)] inv_size(4,5) [OF inv xn] by (fastforce simp: frees_mem)
  then have "x < hd (frees vs @ [pxEnd h])" by (meson hd_in_set snoc_eq_iff_butlast)
  then have "while_option (\<lambda>it. pxNextFreeBlock (block (unmarked x h) it) < x)
      (\<lambda>it. Blk (pxNextFreeBlock (block (unmarked x h) it))) XStart = Some (last (XStart # map Blk (frees us)))"
    using insert_from [of "unmarked x h" "[]" "frees us" "frees vs" x] f lt by (simp add: u(3))
  then have "prvInsertBlockIntoFreeList x (unmarked x h) = Some (heap_merge (last (XStart # map Blk (frees us))) x (unmarked x h))"
    by (simp only: prvInsertBlockIntoFreeList_def option.map)
  then show "vPortFree (x + 8) h = Some ((heap_merge (last (XStart # map Blk (frees us))) x (unmarked x h))
      \<lparr>xNumberOfSuccessfulFrees := xNumberOfSuccessfulFrees h + 1\<rparr>)"
    using hx(1) allocated_mark(1) [OF hx(2)] u(7)
    by (simp add: vPortFree_def Let_def header_def unmarked_def del: last.simps)
qed
text \<open>What follows in the list, and what the block takes in there.\<close>

lemma taken_in:
  assumes inv: "heap_inv h a bs" and bs: "bs = (us0 @ ms) @ (x, n, True) # ks @ vs'"
    and ms: "ms = [] \<or> (\<exists>y m. ms = [(y, m, False)])" and ks: "ks = [] \<or> (\<exists>z k. ks = [(z, k, False)])"
    and vs': "vs' = [] \<or> snd (snd (hd vs'))"
  shows "next_in (unmarked x h) (x + n) (pxNextFreeBlock (block (unmarked x h) (last (XStart # map Blk (frees (us0 @ ms)))))) =
      (of_nat (free_size ks), hd (frees vs' @ [pxEnd h]))"
    and "x < pxNextFreeBlock (block (unmarked x h) (last (XStart # map Blk (frees (us0 @ ms)))))"
proof -
  note r = around [OF inv bs ms ks]
  have xn: "(x, n, True) \<in> set bs" by (simp add: bs)
  note i = heap_invD [OF inv] and u = unmarked_view [OF i(7) [OF xn] inv_size(2) [OF inv xn]]
  note f = free_insert(2) [OF inv bs]
  let ?l = "last (XStart # map Blk (frees (us0 @ ms)))"
  have nx: "pxNextFreeBlock (block (unmarked x h) ?l) = hd (frees (ks @ vs') @ [pxEnd h])"
    using free_list_split [OF f] by (cases "frees (ks @ vs')") (simp_all add: u(3))
  have g: "hd (frees vs' @ [pxEnd h]) = pxEnd h \<or> x + n + free_size ks < hd (frees vs' @ [pxEnd h])"
    by (rule hd_behind [OF r(3) vs'])
  have pe: "x + n \<le> pxEnd h" using inv_size(4) [OF inv xn] .
  have "next_in (unmarked x h) (x + n) (hd (frees (ks @ vs') @ [pxEnd h])) = (of_nat (free_size ks), hd (frees vs' @ [pxEnd h])) \<and>
      x < hd (frees (ks @ vs') @ [pxEnd h])"
  proof (cases "ks = []")
    case True
    then show ?thesis using g pe r(7) by (auto simp: next_in_def u(3))
  next
    case False
    then obtain k where k: "ks = [(x + n, k, False)]" using ks r(4) by auto
    then have "xBlockSize (hBlock h (x + n)) = of_nat k" using i(7) [of "(x + n, k, False)"] by (simp add: bs header_def)
    moreover have "pxNextFreeBlock (hBlock (unmarked x h) (x + n)) = hd (frees vs' @ [pxEnd h])"
      using free_list_split [of "unmarked x h" "frees (us0 @ ms) @ [x + n]" "frees vs'"] f k
      by (cases "frees vs'") (simp_all add: u(3))
    ultimately show ?thesis using r(5,7) k u(1) [of "Blk (x + n)"] by (simp add: next_in_def u(3))
  qed
  then show "next_in (unmarked x h) (x + n) (pxNextFreeBlock (block (unmarked x h) ?l)) =
      (of_nat (free_size ks), hd (frees vs' @ [pxEnd h]))" "x < pxNextFreeBlock (block (unmarked x h) ?l)"
    unfolding nx by simp_all
qed

text \<open>The headers after the release: the one of the merged block, and the link to it.\<close>

lemma link_apart:
  assumes "tiles a us b" and "us = [] \<or> snd (snd (last us))" and "last (XStart # map Blk (frees us)) = Blk y"
  shows "\<exists>m. (y, m, False) \<in> set us \<and> y + m < b"
  using last_free [OF assms(3)] apart [OF assms(1,2)] by (auto simp: frees_mem)

definition relinked :: "heap4 \<Rightarrow> block_ptr \<Rightarrow> nat \<Rightarrow> nat \<Rightarrow> BlockLink_t \<Rightarrow> heap4 \<Rightarrow> bool" where
  "relinked h l x b v h' \<longleftrightarrow> hBlock h' b = v \<and>
     (\<forall>q. q \<noteq> Blk b \<longrightarrow> q \<noteq> Blk x \<longrightarrow>
        block h' q = (block h q)\<lparr>pxNextFreeBlock := if q = l then b else pxNextFreeBlock (block h q)\<rparr>)"

lemma merge_view_alone:
  assumes inv: "heap_inv h a bs" and bs: "bs = us0 @ (x, n, True) # ks @ vs'"
    and ks: "ks = [] \<or> (\<exists>z k. ks = [(z, k, False)])"
    and us0: "us0 = [] \<or> snd (snd (last us0))" and vs': "vs' = [] \<or> snd (snd (hd vs'))"
  defines "l \<equiv> last (XStart # map Blk (frees us0))"
  shows "relinked h l x x \<lparr>pxNextFreeBlock = hd (frees vs' @ [pxEnd h]), xBlockSize = of_nat (n + free_size ks)\<rparr>
    (heap_merge l x (unmarked x h))"
proof -
  have bs': "bs = (us0 @ []) @ (x, n, True) # ks @ vs'" using bs by simp
  note r = around [OF inv bs' _ ks, simplified] and ti = taken_in [OF inv bs' _ ks vs', simplified append_Nil2, folded l_def]
  have xn: "(x, n, True) \<in> set bs" by (simp add: bs)
  note i = heap_invD [OF inv] and u = unmarked_view [OF i(7) [OF xn] inv_size(2) [OF inv xn]]
  have un: "unat (of_nat n :: size_t) = n" using inv_size(1) [OF inv xn] .
  have link: "\<exists>m. (y, m, False) \<in> set us0 \<and> y + m < x" if "l = Blk y" for y
    using link_apart [OF r(1) us0] that unfolding l_def by simp
  then have lx: "l \<noteq> Blk x" by auto
  have na: "y + unat (xBlockSize (hBlock (unmarked x h) y)) \<noteq> x" if y: "l = Blk y" for y
  proof -
    obtain m where m: "(y, m, False) \<in> set bs" "y + m < x" using link [OF y] by (auto simp: bs)
    then have "unat (xBlockSize (hBlock h y)) = m" using i(7) [OF m(1)] inv_size(1) [OF inv m(1)] by (simp add: header_def)
    then show ?thesis using m(2) u(1) [of "Blk y"] by simp
  qed
  have v: "block (heap_merge l x (unmarked x h)) q =
      (if q = Blk x then \<lparr>pxNextFreeBlock = hd (frees vs' @ [pxEnd h]), xBlockSize = of_nat n + of_nat (free_size ks)\<rparr>
       else if q = l then (block (unmarked x h) l)\<lparr>pxNextFreeBlock := x\<rparr> else block (unmarked x h) q)" for q
    using merge_alone [of l x "unmarked x h", OF lx na refl _ refl] ti u(1) [of "Blk x"] un by simp
  show ?thesis unfolding relinked_def using v [of "Blk x"] v u(1) lx by simp
qed

lemma merge_view_before:
  assumes inv: "heap_inv h a bs" and bs: "bs = (us0 @ [(y, m, False)]) @ (x, n, True) # ks @ vs'"
    and ks: "ks = [] \<or> (\<exists>z k. ks = [(z, k, False)])" and vs': "vs' = [] \<or> snd (snd (hd vs'))"
  shows "relinked h (last (XStart # map Blk (frees us0))) x y
    \<lparr>pxNextFreeBlock = hd (frees vs' @ [pxEnd h]), xBlockSize = of_nat (m + n + free_size ks)\<rparr>
    (heap_merge (Blk y) x (unmarked x h))"
proof -
  note r = around [OF inv bs _ ks, simplified] and ti = taken_in [OF inv bs _ ks vs', simplified]
  have xn: "(x, n, True) \<in> set bs" and ym: "(y, m, False) \<in> set bs" by (simp_all add: bs)
  note i = heap_invD [OF inv] and u = unmarked_view [OF i(7) [OF xn] inv_size(2) [OF inv xn]]
  have s: "xBlockSize (hBlock h y) = of_nat m" "unat (of_nat m :: size_t) = m" "0 < m"
    using i(7) [OF ym] inv_size(1,5) [OF inv ym] by (simp_all add: header_def)
  have uy: "hBlock (unmarked x h) y = hBlock h y" using u(1) [of "Blk y"] r(2) s(3) by simp
  have mn: "unat (of_nat m + of_nat n :: size_t) = m + n" using r(6) by (simp add: unat_of_nat flip: of_nat_add)
  have v: "block (heap_merge (Blk y) x (unmarked x h)) q = (if q = Blk y then \<lparr>pxNextFreeBlock = hd (frees vs' @ [pxEnd h]),
      xBlockSize = of_nat m + of_nat n + of_nat (free_size ks)\<rparr> else block (unmarked x h) q)" for q
    using merge_before [of y "unmarked x h" x _ _ q, OF _ _ refl _ refl] ti u(1) [of "Blk x"] s uy r(2) mn
    by (simp add: add.assoc [symmetric])
  have "pxNextFreeBlock (block h (last (XStart # map Blk (frees us0)))) = y"
    using free_list_split [of h "frees us0" "y # frees ks @ frees vs'"] i(8) by (simp add: bs)
  then show ?thesis unfolding relinked_def using v [of "Blk y"] v u(1) by (auto intro: BlockLink_t.equality)
qed
text \<open>Both cases in one: the merged block replaces the one that is freed and its free neighbours.\<close>

lemma merge_view:
  assumes inv: "heap_inv h a bs" and bs: "bs = (us0 @ ms) @ (x, n, True) # ks @ vs'"
    and ms: "ms = [] \<or> (\<exists>y m. ms = [(y, m, False)])" and ks: "ks = [] \<or> (\<exists>z k. ks = [(z, k, False)])"
    and us0: "us0 = [] \<or> snd (snd (last us0))" and vs': "vs' = [] \<or> snd (snd (hd vs'))"
  shows "relinked h (last (XStart # map Blk (frees us0))) x (hd (frees ms @ [x]))
    \<lparr>pxNextFreeBlock = hd (frees vs' @ [pxEnd h]), xBlockSize = of_nat (free_size ms + n + free_size ks)\<rparr>
    (heap_merge (last (XStart # map Blk (frees (us0 @ ms)))) x (unmarked x h))"
proof (cases "ms = []")
  case True
  then show ?thesis using merge_view_alone [OF inv _ ks us0 vs'] bs by simp
next
  case False
  then obtain y m where ym: "ms = [(y, m, False)]" using ms by blast
  then show ?thesis using merge_view_before [OF inv bs [unfolded ym] ks vs'] by simp
qed

lemma relinked_out:
  assumes r: "relinked h (last (XStart # map Blk (frees us))) x b v h'" and b: "tiles a us b"
    and us: "us = [] \<or> snd (snd (last us))" and x: "b \<le> x" "x < c"
  shows "y < b \<or> c \<le> y \<Longrightarrow> hBlock h' y =
      (hBlock h y)\<lparr>pxNextFreeBlock := if last (XStart # map Blk (frees us)) = Blk y then b else pxNextFreeBlock (hBlock h y)\<rparr>"
    and "c \<le> y \<Longrightarrow> hBlock h' y = hBlock h y"
proof -
  show out: "hBlock h' y = (hBlock h y)\<lparr>pxNextFreeBlock :=
      if last (XStart # map Blk (frees us)) = Blk y then b else pxNextFreeBlock (hBlock h y)\<rparr>" if "y < b \<or> c \<le> y"
    using r [unfolded relinked_def, THEN conjunct2, rule_format, of "Blk y"] that x by (auto simp del: last.simps)
  show "hBlock h' y = hBlock h y" if "c \<le> y"
    using out link_apart [OF b us, of y] that x by (fastforce simp del: last.simps)
qed

lemma relinked_headers:
  assumes inv: "heap_inv h a bs" and sub: "set us \<union> set vs \<subseteq> set bs"
    and r: "relinked h (last (XStart # map Blk (frees us))) x b v h'" and b: "tiles a us b" "tiles c vs e"
    and us: "us = [] \<or> snd (snd (last us))" and x: "b \<le> x" "x < c" and k: "k \<in> set us \<union> set vs"
  shows "header h' k"
proof -
  obtain y m al where y: "k = (y, m, al)" by (cases k)
  note o = relinked_out [OF r b(1) us x, of y]
  have h: "header h k" "(y, m, al) \<in> set bs" using heap_invD(7) [OF inv] sub k by (auto simp: y)
  have "y < b \<or> c \<le> y" using k tiles_mem [OF b(1), of y m al] tiles_mem [OF b(2), of y m al] by (auto simp: y)
  moreover have "\<not> al" if l: "last (XStart # map Blk (frees us)) = Blk y"
  proof -
    obtain m' where "(y, m', False) \<in> set us" using link_apart [OF b(1) us l] by blast
    then have "(y, m', False) \<in> set bs" using sub by blast
    from tiles_unique [OF heap_invD(5) [OF inv] h(2) this] show ?thesis by simp
  qed
  ultimately show ?thesis using h(1) o(1) by (auto simp: header_def y simp del: last.simps)
qed

lemma relinked_free_list:
  assumes f: "free_list h (frees us @ gs @ frees vs)" and r: "relinked h (last (XStart # map Blk (frees us))) x b v h'"
    and v: "pxNextFreeBlock v = hd (frees vs @ [pxEnd h])" and b: "tiles a us b" "tiles c vs e"
    and us: "us = [] \<or> snd (snd (last us))" and x: "b \<le> x" "x < c" and e: "pxEnd h' = pxEnd h"
  shows "free_list h' (frees us @ [b] @ frees vs)"
proof (rule free_list_replace [OF f e])
  let ?l = "last (XStart # map Blk (frees us))"
  have o: "pxNextFreeBlock (block h' q) = (if q = ?l then b else pxNextFreeBlock (block h q))" if "q \<noteq> Blk b" "q \<noteq> Blk x" for q
    using r that by (simp add: relinked_def)
  have lx: "?l \<noteq> Blk b" "?l \<noteq> Blk x" using link_apart [OF b(1) us] x(1) by fastforce+
  show "pxNextFreeBlock (block h' q) = pxNextFreeBlock (block h q)" if q: "q \<in> set (butlast (XStart # map Blk (frees us)))" for q
  proof -
    have "distinct (XStart # map Blk (frees us))" using frees_distinct [OF b(1)] by (auto simp: distinct_map inj_on_def)
    moreover have "XStart # map Blk (frees us) = butlast (XStart # map Blk (frees us)) @ [?l]"
      using append_butlast_last_id [of "XStart # map Blk (frees us)"] by simp
    ultimately have "distinct (butlast (XStart # map Blk (frees us)) @ [?l])" by argo
    then have "q \<noteq> ?l" using q by auto
    moreover have "y < b" if "q = Blk y" for y
      using in_set_butlastD [OF q] that tiles_mem [OF b(1)] by (fastforce simp: frees_mem)
    ultimately show ?thesis using o [of q] x(1) by (cases q) auto
  qed
  show "pxNextFreeBlock (hBlock h' g) = pxNextFreeBlock (hBlock h g)" if "g \<in> set (frees vs)" for g
    using that tiles_mem [OF b(2)] relinked_out(2) [OF r b(1) us x] by (auto simp: frees_mem)
  have "hBlock h' b = v" using r by (simp add: relinked_def)
  then show "successively (free_link h') (?l # map Blk [b] @ [hd (map Blk (frees vs) @ [Blk (pxEnd h)])])"
    using o [OF lx] v by (cases "frees vs") (simp_all add: free_link_def del: last.simps)
qed

lemma relinked_inv:
  assumes inv: "heap_inv h a bs" and bs: "bs = (us0 @ ms) @ (x, n, True) # ks @ vs'"
    and ms: "ms = [] \<or> (\<exists>y m. ms = [(y, m, False)])" and ks: "ks = [] \<or> (\<exists>z k. ks = [(z, k, False)])"
    and us0: "us0 = [] \<or> snd (snd (last us0))" and vs': "vs' = [] \<or> snd (snd (hd vs'))"
    and r: "relinked h (last (XStart # map Blk (frees us0))) x b
      \<lparr>pxNextFreeBlock = hd (frees vs' @ [pxEnd h]), xBlockSize = of_nat N\<rparr> h'"
    and b: "b = hd (frees ms @ [x])" and N: "N = free_size ms + n + free_size ks"
    and fr: "pxEnd h' = pxEnd h" "xFreeBytesRemaining h' = xFreeBytesRemaining h + of_nat n"
      "xMinimumEverFreeBytesRemaining h' = xMinimumEverFreeBytesRemaining h"
  shows "heap_inv h' a (us0 @ (b, N, False) # vs')"
proof -
  note i = heap_invD [OF inv] and d = around [OF inv bs ms ks, folded b N]
  have bN: "b + N = x + n + free_size ks" using d(2) by (simp add: N)
  have bx: "b \<le> x" "x < b + N" "b + N \<le> pxEnd h" using d(2,7) tiles_le [OF d(3)] bN by simp_all
  have t: "tiles a us0 b" "tiles (b + N) vs' (pxEnd h)" using d(1,3) bN by simp_all
  have tl: "tiles a (us0 @ (b, N, False) # vs') (pxEnd h)"
    using t d(7-10) by (auto simp: tiles_append N)
  have mg: "merged (us0 @ (b, N, False) # vs')"
    using i(6) us0 vs' by (auto simp: bs merged_append merged_Cons)
  have hds: "header h' c" if "c \<in> set us0 \<union> set vs'" for c
    by (rule relinked_headers [OF inv _ r t us0 bx(1,2) that]) (auto simp: bs)
  have hb: "header h' (b, N, False)" using r by (simp add: relinked_def header_def)
  have "free_list h (frees us0 @ (frees ms @ frees ks) @ frees vs')" using i(8) by (simp add: bs)
  then have fl: "free_list h' (frees us0 @ [b] @ frees vs')"
    by (rule relinked_free_list [OF _ r _ t us0 bx(1,2) fr(1)]) simp
  have fs: "xFreeBytesRemaining h' = of_nat (free_size (us0 @ (b, N, False) # vs'))"
    by (simp add: fr i(10) bs N)
  have "free_size bs + n < 2 ^ 32" "free_size bs < 2 ^ 32"
    using free_size_le [OF tl] i(4) by (simp_all add: bs N)
  then have "unat (of_nat (free_size bs + n) :: size_t) = free_size bs + n" "unat (of_nat (free_size bs) :: size_t) = free_size bs"
    by (simp_all only: unat_of_nat len_num1 mod_less) simp_all
  then have "xFreeBytesRemaining h \<le> xFreeBytesRemaining h'"
    by (simp add: fr i(10) word_le_nat_alt flip: of_nat_add)
  then have mi: "xMinimumEverFreeBytesRemaining h' \<le> xFreeBytesRemaining h'" using i(11) by (simp add: fr)
  have en: "hBlock h' (pxEnd h') = \<lparr>pxNextFreeBlock = 0, xBlockSize = 0\<rparr>"
    using relinked_out(2) [OF r t(1) us0 bx(1,2), of "pxEnd h"] bx(3) i(9) by (simp add: fr)
  have "\<forall>c\<in>set (us0 @ (b, N, False) # vs'). header h' c" using hds hb by auto
  then show ?thesis
    using i(1-4) tl mg fl fs mi en unfolding heap_inv_def fr(1) by simp
qed

text \<open>\<open>vPortFree\<close> returns, and what it leaves.\<close>

lemma release_inv:
  assumes inv: "heap_inv h a bs" and bs: "bs = us @ (x, n, True) # vs"
  shows "\<exists>h'. vPortFree (x + 8) h = Some h' \<and> heap_inv h' a (join (us @ (x, n, False) # vs)) \<and>
    xNumberOfSuccessfulFrees h' = xNumberOfSuccessfulFrees h + 1 \<and> hByte h' = hByte h"
proof -
  have m: "merged us" "merged vs" using heap_invD(6) [OF inv] by (auto simp: bs merged_append merged_Cons)
  obtain us0 ms where us: "us = us0 @ ms" "us0 = [] \<or> snd (snd (last us0))" "merged us0" "ms = [] \<or> (\<exists>y m. ms = [(y, m, False)])"
    using free_before [OF m(1)] .
  obtain ks vs' where vs: "vs = ks @ vs'" "vs' = [] \<or> snd (snd (hd vs'))" "merged vs'" "ks = [] \<or> (\<exists>z k. ks = [(z, k, False)])"
    using free_behind [OF m(2)] .
  have bs': "bs = (us0 @ ms) @ (x, n, True) # ks @ vs'" by (simp add: bs us vs)
  have xn: "(x, n, True) \<in> set bs" by (simp add: bs)
  note u = unmarked_view [OF heap_invD(7) [OF inv xn] inv_size(2) [OF inv xn]]
  let ?h = "(heap_merge (last (XStart # map Blk (frees us))) x (unmarked x h))\<lparr>xNumberOfSuccessfulFrees := xNumberOfSuccessfulFrees h + 1\<rparr>"
  have r: "relinked h (last (XStart # map Blk (frees us0))) x (hd (frees ms @ [x]))
    \<lparr>pxNextFreeBlock = hd (frees vs' @ [pxEnd h]), xBlockSize = of_nat (free_size ms + n + free_size ks)\<rparr> ?h"
    using merge_view [OF inv bs' us(4) vs(4) us(2) vs(2)] unfolding relinked_def us(1) by simp
  have "heap_inv ?h a (us0 @ (hd (frees ms @ [x]), free_size ms + n + free_size ks, False) # vs')"
    by (rule relinked_inv [OF inv bs' us(4) vs(4) us(2) vs(2) r refl refl]) (simp_all add: u)
  then have "heap_inv ?h a (join (us @ (x, n, False) # vs))"
    using join_around [OF us(4) vs(4) us(3,2) vs(3,2)] us(1) vs(1) by simp
  then show ?thesis using free_insert(1) [OF inv bs] u(4) by simp
qed

end
