(* ===== verification/FRTOS_HeapRun.thy ===== *)
theory FRTOS_HeapRun
  imports FRTOS_HeapFree
begin

text \<open>
  The heap of FreeRTOS from its initialisation on: the state after any calls of the application.
\<close>

unbundle bit_operations_syntax

section \<open>Initialisation\<close>

lemma and_not_minus: "w AND NOT k = w - (w AND k)" for w k :: "'a::len word"
proof -
  have "(w AND k) + (w AND NOT k) = (w AND k) OR (w AND NOT k)"
    by (intro disjunctive_add) (simp add: bit_simps)
  also have "\<dots> = w" by (intro bit_word_eqI) (auto simp: bit_simps)
  finally show ?thesis by (simp add: algebra_simps)
qed

lemma unat_and_not_7: "unat (w AND NOT 7 :: size_t) = unat w div 8 * 8"
proof -
  have "w AND 7 \<le> w" by (simp add: word_le_nat_alt unat_and_7)
  then have "unat (w AND NOT 7) = unat w - unat w mod 8"
    unfolding and_not_minus by (simp add: unat_sub unat_and_7)
  then show ?thesis by (simp only: minus_mod_eq_div_mult)
qed

text \<open>A configuration that can be: the linker has placed the array, its size is positive as a signed number.\<close>

definition cfg_ok :: "heap_cfg \<Rightarrow> bool" where
  "cfg_ok c \<longleftrightarrow> 0 < ucHeap c \<and> ucHeap c + unat (configTOTAL_HEAP_SIZE c) < 2 ^ 32 \<and>
     32 \<le> configTOTAL_HEAP_SIZE c \<and> configTOTAL_HEAP_SIZE c < 2 ^ 31"

definition heap_base :: "heap_cfg \<Rightarrow> nat" where
  "heap_base c = (ucHeap c + 7) div 8 * 8"

definition heap_top :: "heap_cfg \<Rightarrow> nat" where
  "heap_top c = (ucHeap c + unat (configTOTAL_HEAP_SIZE c) - 8) div 8 * 8"

lemma heap_base_top:
  assumes "cfg_ok c"
  shows "ucHeap c \<le> heap_base c" "heap_base c < heap_top c" "heap_top c + 8 \<le> ucHeap c + unat (configTOTAL_HEAP_SIZE c)"
    "8 dvd heap_base c" "8 dvd heap_top c"
  using assms by (auto simp: cfg_ok_def heap_base_def heap_top_def word_le_nat_alt)

lemma prvHeapInit_addr:
  assumes "cfg_ok c"
  defines "start \<equiv> of_nat (ucHeap c) :: size_t" and "tot \<equiv> configTOTAL_HEAP_SIZE c"
  defines "start' \<equiv> if start AND 7 \<noteq> 0 then (start + 7) AND NOT 7 else start"
  defines "tot' \<equiv> if start AND 7 \<noteq> 0 then tot - (start' - start) else tot"
  shows "unat start' = heap_base c" and "unat ((start' + tot' - 8) AND NOT 7) = heap_top c"
proof -
  note c = assms(1) [unfolded cfg_ok_def, folded tot_def]
  have s: "unat start = ucHeap c" using c by (simp add: start_def unat_of_nat)
  have t: "32 \<le> unat tot" "unat tot < 2 ^ 31" "ucHeap c + unat tot < 2 ^ 32"
    using c by (simp_all add: word_le_nat_alt word_less_nat_alt)
  have "unat (start + 7) = ucHeap c + 7" using s t by (simp add: unat_word_ariths)
  moreover have "start AND 7 = 0 \<longleftrightarrow> ucHeap c mod 8 = 0" using unat_and_7 [of start] s by (metis unat_eq_zero)
  ultimately show b: "unat start' = heap_base c"
    using s by (auto simp: start'_def heap_base_def unat_and_not_7 [simplified])
  have "start' + tot' = start + tot" by (auto simp: start'_def tot'_def)
  moreover have "unat (start + tot - 8) = ucHeap c + unat tot - 8"
  proof -
    have "unat (start + tot) = ucHeap c + unat tot" using s t by (simp add: unat_word_ariths)
    then show ?thesis using t by (subst unat_sub) (auto simp: word_le_nat_alt)
  qed
  ultimately show "unat ((start' + tot' - 8) AND NOT 7) = heap_top c"
    by (simp add: unat_and_not_7 [simplified] heap_top_def tot_def)
qed

lemma prvHeapInit_inv:
  assumes "cfg_ok c"
  shows "heap_inv (prvHeapInit c h) (heap_base c) [(heap_base c, heap_top c - heap_base c, False)]"
    and "pxEnd (prvHeapInit c h) = heap_top c" and "hByte (prvHeapInit c h) = hByte h"
proof -
  obtain start' end' :: size_t where a: "unat start' = heap_base c" "unat end' = heap_top c"
    and h: "prvHeapInit c h =
     (let h = h\<lparr>xStart := \<lparr>pxNextFreeBlock = unat start', xBlockSize = 0\<rparr>\<rparr>;
          h = h\<lparr>pxEnd := unat end'\<rparr>;
          h = upd_block (Blk (pxEnd h)) (\<lambda>b. b\<lparr>xBlockSize := 0, pxNextFreeBlock := 0\<rparr>) h;
          h = upd_block (Blk (unat start')) (\<lambda>b. b\<lparr>xBlockSize := end' - start', pxNextFreeBlock := pxEnd h\<rparr>) h;
          h = h\<lparr>xMinimumEverFreeBytesRemaining := xBlockSize (hBlock h (unat start'))\<rparr>
      in h\<lparr>xFreeBytesRemaining := xBlockSize (hBlock h (unat start'))\<rparr>)"
    using prvHeapInit_addr [OF assms] by (auto simp: prvHeapInit_def Let_def split: if_splits)
  note b = heap_base_top [OF assms]
  show "pxEnd (prvHeapInit c h) = heap_top c" "hByte (prvHeapInit c h) = hByte h"
    by (simp_all add: h Let_def a)
  have "start' \<le> end'" using a b(2) by (simp add: word_le_nat_alt)
  then have "unat (end' - start') = heap_top c - heap_base c" using a by (simp add: unat_sub)
  then have n: "end' - start' = of_nat (heap_top c - heap_base c)" by (metis of_nat_unat ucast_id)
  show "heap_inv (prvHeapInit c h) (heap_base c) [(heap_base c, heap_top c - heap_base c, False)]"
    using b assms by (simp add: heap_inv_def h Let_def a n merged_def header_def free_list_def free_link_def cfg_ok_def block_def upd_block_def
      word_less_nat_alt)
qed

section \<open>The specification: a list of blocks\<close>

text \<open>The first free block that is large enough is given out, without what it has too much.\<close>

fun first_fit :: "nat \<Rightarrow> blk list \<Rightarrow> (blk list \<times> nat) option" where
  "first_fit w [] = None"
| "first_fit w ((x, n, al) # bs) =
     (if \<not> al \<and> w \<le> n then Some (taken w x n @ bs, x + 8)
      else map_option (\<lambda>(bs, pv). ((x, n, al) # bs, pv)) (first_fit w bs))"

definition spec_malloc :: "size_t \<Rightarrow> blk list \<Rightarrow> blk list \<times> nat" where
  "spec_malloc want bs =
     (if want = 0 then (bs, 0)
      else case first_fit (malloc_size want) bs of None \<Rightarrow> (bs, 0) | Some r \<Rightarrow> r)"

definition spec_free :: "nat \<Rightarrow> blk list \<Rightarrow> blk list" where
  "spec_free pv bs = join (map (\<lambda>(x, n, al). (x, n, al \<and> x + 8 \<noteq> pv)) bs)"

lemma first_fit_at:
  "\<forall>y m. (y, m, False) \<in> set us \<longrightarrow> m < w \<Longrightarrow> w \<le> n \<Longrightarrow>
   first_fit w (us @ (x, n, False) # vs) = Some (us @ taken w x n @ vs, x + 8)"
proof (induction us)
  case (Cons u us)
  obtain y m al where u: "u = (y, m, al)" by (cases u)
  have "first_fit w (us @ (x, n, False) # vs) = Some (us @ taken w x n @ vs, x + 8)"
    using Cons by (meson list.set_intros(2))
  moreover have "al \<or> m < w" using Cons.prems(1) [rule_format, of y m] by (cases al) (simp_all add: u)
  ultimately show ?case by (auto simp: u)
qed simp

lemma first_fit_none: "\<forall>y m. (y, m, False) \<in> set bs \<longrightarrow> m < w \<Longrightarrow> first_fit w bs = None"
proof (induction bs)
  case (Cons u us)
  obtain y m al where u: "u = (y, m, al)" by (cases u)
  have "first_fit w us = None" using Cons by (meson list.set_intros(2))
  moreover have "al \<or> m < w" using Cons.prems [rule_format, of y m] by (cases al) (simp_all add: u)
  ultimately show ?case by (auto simp: u)
qed simp

lemma pvPortMalloc_refines_core:
  assumes "heap_inv h a bs"
  shows "\<exists>h'. pvPortMalloc c want h = Some (h', snd (spec_malloc want bs)) \<and>
    heap_inv h' a (fst (spec_malloc want bs)) \<and> hByte h' = hByte h"
proof (rule disjE [OF malloc_cases [OF assms, of want c]])
  assume "\<exists>us x n vs h'. bs = us @ (x, n, False) # vs \<and> 0 < want \<and> malloc_size want \<le> n \<and>
    (\<forall>y m. (y, m, False) \<in> set us \<longrightarrow> m < malloc_size want) \<and>
    pvPortMalloc c want h = Some (h', x + 8) \<and> heap_inv h' a (us @ taken (malloc_size want) x n @ vs) \<and>
    xNumberOfSuccessfulAllocations h' = xNumberOfSuccessfulAllocations h + 1 \<and> hByte h' = hByte h"
  then obtain us x n vs h' where bs: "bs = us @ (x, n, False) # vs" "0 < want" "malloc_size want \<le> n"
    "\<forall>y m. (y, m, False) \<in> set us \<longrightarrow> m < malloc_size want"
    and h': "pvPortMalloc c want h = Some (h', x + 8)" "heap_inv h' a (us @ taken (malloc_size want) x n @ vs)"
      "hByte h' = hByte h" by blast
  have "spec_malloc want bs = (us @ taken (malloc_size want) x n @ vs, x + 8)"
    using first_fit_at [OF bs(4,3)] bs(1,2) by (auto simp: spec_malloc_def)
  then show ?thesis using h' by simp
next
  assume n: "(want = 0 \<or> (\<forall>y m. (y, m, False) \<in> set bs \<longrightarrow> m < malloc_size want)) \<and> pvPortMalloc c want h = Some (h, 0)"
  then have "spec_malloc want bs = (bs, 0)" using first_fit_none by (auto simp: spec_malloc_def)
  then show ?thesis using n assms by simp
qed

text \<open>C36: \<open>pvPortMalloc\<close> returns in every intact heap and implements the first-fit allocation of the
  specification: it gives out the first free block that holds the request with its header and alignment,
  split when more than 16 bytes remain, and null exactly when the request is zero or there is none; the
  headers and the free list are intact again.\<close>

theorem pvPortMalloc_refines:
  assumes "heap_inv h a bs"
  shows "\<exists>h'. pvPortMalloc c want h = Some (h', snd (spec_malloc want bs)) \<and>
    heap_inv h' a (fst (spec_malloc want bs)) \<and> hByte h' = hByte h"
  by (rule pvPortMalloc_refines_core [OF assms])

lemma unmark_others: "(\<And>y m al. (y, m, al) \<in> set us \<Longrightarrow> y \<noteq> x) \<Longrightarrow> map (\<lambda>(y, m, al). (y, m, al \<and> y \<noteq> x)) us = us"
  by (rule map_idI) auto

lemma join_two: "join ((y, m, al) # (x, k, False) # (x', j, False) # vs) = join ((y, m, al) # (x, k + j, False) # vs)"
  by (cases al) (simp_all add: add.assoc)

lemma spec_free_at:
  assumes "tiles a (us @ (x, n, al) # vs) e"
  shows "spec_free (x + 8) (us @ (x, n, al) # vs) = join (us @ (x, n, False) # vs)"
proof -
  obtain b where "tiles a us b" "tiles b ((x, n, al) # vs) e" using assms by (auto simp: tiles_append)
  then have t: "tiles a us x" "tiles (x + n) vs e" "0 < n" by auto
  have "y \<noteq> x" if "(y, m, bl) \<in> set us \<union> set vs" for y m bl
    using that tiles_mem [OF t(1), of y m bl] tiles_mem [OF t(2), of y m bl] t(3) by auto
  then have "map (\<lambda>(y, m, al). (y, m, al \<and> y \<noteq> x)) us = us" "map (\<lambda>(y, m, al). (y, m, al \<and> y \<noteq> x)) vs = vs"
    by (intro unmark_others; blast)+
  then show ?thesis by (simp add: spec_free_def)
qed

text \<open>C37: \<open>vPortFree\<close> of a block the application owns returns and implements the specification: the
  block becomes free and is joined with the free blocks before and behind it.\<close>

theorem vPortFree_refines:
  assumes inv: "heap_inv h a bs" and x: "(x, n, True) \<in> set bs"
  shows "\<exists>h'. vPortFree (x + 8) h = Some h' \<and> heap_inv h' a (spec_free (x + 8) bs) \<and> hByte h' = hByte h"
proof -
  obtain us vs where bs: "bs = us @ (x, n, True) # vs" using split_list [OF x] by blast
  then have "spec_free (x + 8) bs = join (us @ (x, n, False) # vs)"
    using spec_free_at [of a us x n True vs "pxEnd h"] heap_invD(5) [OF inv] by simp
  then show ?thesis using release_inv [OF inv bs] by metis
qed

text \<open>An allocation that succeeds and is released at once leaves the heap as it was: the same blocks
  of the same sizes are free, and nothing has been split for good.\<close>

theorem malloc_free_roundtrip:
  assumes inv: "heap_inv h a bs" and m: "pvPortMalloc c want h = Some (h', pv)" and pv: "pv \<noteq> 0"
  shows "\<exists>h''. vPortFree pv h' = Some h'' \<and> heap_inv h'' a bs"
proof -
  let ?w = "malloc_size want"
  obtain us x n vs where bs: "bs = us @ (x, n, False) # vs" "?w \<le> n" "pv = x + 8" "heap_inv h' a (us @ taken ?w x n @ vs)"
    using malloc_cases [OF inv, of want c] m pv by auto
  define k where "k = (if n - ?w > 16 then ?w else n)"
  define ws where "ws = (if n - ?w > 16 then [(x + ?w, n - ?w, False)] else [])"
  have t: "taken ?w x n = (x, k, True) # ws" by (simp add: taken_def k_def ws_def)
  obtain h'' where "vPortFree (x + 8) h' = Some h''" "heap_inv h'' a (join (us @ (x, k, False) # ws @ vs))"
    using release_inv [OF bs(4), of us x k "ws @ vs"] t by auto
  moreover have "join (us @ (x, k, False) # ws @ vs) = join bs"
  proof -
    have g: "join (us @ (x, k, False) # (x + k, j, False) # vs) = join (us @ (x, k + j, False) # vs)" for j
      by (induction us rule: join.induct) (auto simp: join_two)
    show ?thesis using bs(1,2) g [of "n - ?w"] by (auto simp: k_def ws_def)
  qed
  ultimately show ?thesis using join_merged [OF heap_invD(6) [OF inv]] bs(3) by simp
qed

section \<open>Any calls of the application\<close>

text \<open>
  The application's calls in any order, from memory with any contents in which \<open>pxEnd\<close> is null, as the
  start-up code leaves it.  \<open>own\<close> has the pointers the application holds, with the bytes it asked for; it
  writes what it likes to these bytes, and releases only what it holds.
\<close>

inductive heap_run :: "heap_cfg \<Rightarrow> heap4 \<Rightarrow> (nat \<rightharpoonup> nat) \<Rightarrow> bool" for c where
  start_up: "pxEnd h = 0 \<Longrightarrow> heap_run c h Map.empty"
| alloc: "heap_run c h own \<Longrightarrow> pvPortMalloc c want h = Some (h', pv) \<Longrightarrow>
    heap_run c h' (if pv = 0 then own else own(pv \<mapsto> unat want))"
| alloc_zero: "heap_run c h own \<Longrightarrow> pvPortCalloc c k sz h = Some (h', pv) \<Longrightarrow>
    heap_run c h' (if pv = 0 then own else own(pv \<mapsto> unat k * unat sz))"
| release: "heap_run c h own \<Longrightarrow> own pv = Some n \<Longrightarrow> vPortFree pv h = Some h' \<Longrightarrow> heap_run c h' (own(pv := None))"
| store: "heap_run c h own \<Longrightarrow> own pv = Some n \<Longrightarrow> i < n \<Longrightarrow> heap_run c (h\<lparr>hByte := (hByte h)(pv + i := v)\<rparr>) own"
| reset_minimum: "heap_run c h own \<Longrightarrow> heap_run c (xPortResetHeapMinimumEverFreeHeapSize h) own"

definition own_ok :: "(nat \<rightharpoonup> nat) \<Rightarrow> blk list \<Rightarrow> bool" where
  "own_ok own bs \<longleftrightarrow>
     (\<forall>pv n. own pv = Some n \<longrightarrow> (\<exists>x m. (x, m, True) \<in> set bs \<and> pv = x + 8 \<and> n + 8 \<le> m)) \<and>
     (\<forall>x m. (x, m, True) \<in> set bs \<longrightarrow> own (x + 8) \<noteq> None)"

lemma own_okD: "own_ok own bs \<Longrightarrow> own pv = Some n \<Longrightarrow> \<exists>x m. (x, m, True) \<in> set bs \<and> pv = x + 8 \<and> n + 8 \<le> m"
  by (simp add: own_ok_def)

definition run_inv :: "heap_cfg \<Rightarrow> heap4 \<Rightarrow> (nat \<rightharpoonup> nat) \<Rightarrow> bool" where
  "run_inv c h own \<longleftrightarrow> pxEnd h = 0 \<and> own = Map.empty \<or>
     pxEnd h = heap_top c \<and> (\<exists>bs. heap_inv h (heap_base c) bs \<and> own_ok own bs)"

lemma heap_inv_bytes [simp]: "heap_inv (h\<lparr>hByte := f\<rparr>) a bs = heap_inv h a bs"
proof -
  have "block (h\<lparr>hByte := f\<rparr>) p = block h p" for p by (cases p) (simp_all add: block_def)
  then have "free_link (h\<lparr>hByte := f\<rparr>) = free_link h" by (simp add: fun_eq_iff free_link_def)
  then show ?thesis by (simp add: heap_inv_def header_def free_list_def)
qed

lemma heap_inv_minimum: "heap_inv h a bs \<Longrightarrow> heap_inv (xPortResetHeapMinimumEverFreeHeapSize h) a bs"
proof -
  assume inv: "heap_inv h a bs"
  let ?h = "h\<lparr>xMinimumEverFreeBytesRemaining := xFreeBytesRemaining h\<rparr>"
  have "free_link ?h = free_link h" by (simp add: fun_eq_iff free_link_def)
  then show ?thesis
    using inv by (simp add: xPortResetHeapMinimumEverFreeHeapSize_def heap_inv_def header_def free_list_def)
qed

lemma malloc_size_ge: "unat want + 8 \<le> malloc_size want"
  by (simp add: malloc_size_def)

lemma own_ok_malloc:
  assumes ok: "own_ok own (us @ (x, n, False) # vs)" and w: "unat want + 8 \<le> w" "w \<le> n"
  shows "own_ok (own(x + 8 \<mapsto> unat want)) (us @ taken w x n @ vs)"
proof -
  have "\<exists>y m. (y, m, True) \<in> set (us @ taken w x n @ vs) \<and> pv = y + 8 \<and> k + 8 \<le> m"
    if pv: "(own(x + 8 \<mapsto> unat want)) pv = Some k" for pv k
  proof (cases "pv = x + 8")
    case True
    then show ?thesis using pv w by (auto simp: taken_def)
  next
    case False
    then obtain y m where "(y, m, True) \<in> set (us @ (x, n, False) # vs) \<and> pv = y + 8 \<and> k + 8 \<le> m"
      using own_okD [OF ok, of pv k] pv by auto
    then show ?thesis by auto
  qed
  moreover have "(own(x + 8 \<mapsto> unat want)) (y + 8) \<noteq> None" if "(y, m, True) \<in> set (us @ taken w x n @ vs)" for y m
    using ok that unfolding own_ok_def by (auto simp: taken_def split: if_splits)
  ultimately show ?thesis unfolding own_ok_def by blast
qed

lemma join_owned: "(y, m, True) \<in> set (join bs) \<longleftrightarrow> (y, m, True) \<in> set bs"
  by (induction bs rule: join.induct) auto

lemma own_ok_free:
  assumes ok: "own_ok own (us @ (x, n, True) # vs)" and t: "tiles a (us @ (x, n, True) # vs) e"
  shows "own_ok (own(x + 8 := None)) (join (us @ (x, n, False) # vs))"
proof -
  have u: "y \<noteq> x" if "(y, m, True) \<in> set us \<union> set vs" for y m
  proof -
    obtain b where "tiles a us b" "tiles b ((x, n, True) # vs) e" using t by (auto simp: tiles_append)
    then have "tiles a us x" "tiles (x + n) vs e" "0 < n" by auto
    then show ?thesis using that tiles_mem [of a us x y m True] tiles_mem [of "x + n" vs e y m True] by auto
  qed
  let ?bs = "us @ (x, n, False) # vs"
  have "\<exists>y m. (y, m, True) \<in> set ?bs \<and> pv = y + 8 \<and> k + 8 \<le> m" if "(own(x + 8 := None)) pv = Some k" for pv k
    using own_okD [OF ok, of pv k] that by (auto split: if_splits)
  moreover have "(own(x + 8 := None)) (y + 8) \<noteq> None" if y: "(y, m, True) \<in> set ?bs" for y m
  proof -
    have "(y, m, True) \<in> set us \<union> set vs" using y by simp
    then show ?thesis using u [of y m] ok [unfolded own_ok_def, THEN conjunct2, rule_format, of y m] by simp
  qed
  ultimately show ?thesis unfolding own_ok_def join_owned by blast
qed

lemma run_inv_init:
  assumes c: "cfg_ok c" and inv: "run_inv c h own" and e: "pxEnd h = 0"
  shows "run_inv c (prvHeapInit c h) own" and "pvPortMalloc c want h = pvPortMalloc c want (prvHeapInit c h)"
proof -
  have "0 < heap_top c" using heap_base_top [OF c] by simp
  then have "own = Map.empty" using inv e by (auto simp: run_inv_def)
  moreover have "own_ok Map.empty [(heap_base c, heap_top c - heap_base c, False)]" by (simp add: own_ok_def)
  ultimately show "run_inv c (prvHeapInit c h) own" using prvHeapInit_inv [OF c] by (auto simp: run_inv_def)
  show "pvPortMalloc c want h = pvPortMalloc c want (prvHeapInit c h)"
    using e prvHeapInit_inv(2) [OF c] \<open>0 < heap_top c\<close> by (simp add: pvPortMalloc_def Let_def)
qed

lemma heap_take_end: "pxEnd (heap_take want prev b h) = pxEnd h"
  by (simp add: heap_take_def heap_own_def heap_unlink_def Let_def)

lemma pvPortMalloc_end: "pvPortMalloc c want h = Some (h', pv) \<Longrightarrow> pxEnd h \<noteq> 0 \<Longrightarrow> pxEnd h' = pxEnd h"
  by (simp add: pvPortMalloc_def Let_def heap_take_end split: if_splits option.splits prod.splits) (auto simp: heap_take_end)

lemma run_malloc:
  assumes c: "cfg_ok c" and inv: "run_inv c h own"
  shows "\<exists>h' pv. pvPortMalloc c want h = Some (h', pv) \<and> run_inv c h' (if pv = 0 then own else own(pv \<mapsto> unat want))"
proof -
  have main: "\<exists>h' pv. pvPortMalloc c want h = Some (h', pv) \<and> run_inv c h' (if pv = 0 then own else own(pv \<mapsto> unat want))"
    if inv: "run_inv c h own" and e: "pxEnd h \<noteq> 0" for h
  proof -
    obtain bs where bs: "heap_inv h (heap_base c) bs" "own_ok own bs" "pxEnd h = heap_top c"
      using inv e by (auto simp: run_inv_def)
    from malloc_cases [OF bs(1), of want c] show ?thesis
    proof
      assume "\<exists>us x n vs h'. bs = us @ (x, n, False) # vs \<and> 0 < want \<and> malloc_size want \<le> n \<and>
        (\<forall>y m. (y, m, False) \<in> set us \<longrightarrow> m < malloc_size want) \<and>
        pvPortMalloc c want h = Some (h', x + 8) \<and> heap_inv h' (heap_base c) (us @ taken (malloc_size want) x n @ vs) \<and>
        xNumberOfSuccessfulAllocations h' = xNumberOfSuccessfulAllocations h + 1 \<and> hByte h' = hByte h"
      then obtain us x n vs h' where m: "bs = us @ (x, n, False) # vs" "malloc_size want \<le> n"
        "pvPortMalloc c want h = Some (h', x + 8)" "heap_inv h' (heap_base c) (us @ taken (malloc_size want) x n @ vs)" by blast
      have "own_ok (own(x + 8 \<mapsto> unat want)) (us @ taken (malloc_size want) x n @ vs)"
        using own_ok_malloc [OF bs(2) [unfolded m(1)] malloc_size_ge m(2)] .
      then show ?thesis using m(3,4) pvPortMalloc_end [OF m(3) e] bs(3) by (auto simp: run_inv_def)
    qed (use inv in auto)
  qed
  show ?thesis
  proof (cases "pxEnd h = 0")
    case True
    have "pxEnd (prvHeapInit c h) \<noteq> 0" using heap_base_top [OF c] prvHeapInit_inv(2) [OF c] by simp
    then show ?thesis using main [of "prvHeapInit c h"] run_inv_init [OF c inv True] by simp
  qed (use main inv in blast)
qed

lemma run_free:
  assumes inv: "run_inv c h own" and pv: "own pv = Some k"
  shows "\<exists>h'. vPortFree pv h = Some h' \<and> run_inv c h' (own(pv := None))"
proof -
  obtain bs where bs: "heap_inv h (heap_base c) bs" "own_ok own bs" "pxEnd h = heap_top c"
    using inv pv by (auto simp: run_inv_def)
  obtain x m where x: "(x, m, True) \<in> set bs" "pv = x + 8" using own_okD [OF bs(2) pv] by blast
  obtain us vs where sp: "bs = us @ (x, m, True) # vs" using split_list [OF x(1)] by blast
  obtain h' where h': "vPortFree (x + 8) h = Some h'" "heap_inv h' (heap_base c) (join (us @ (x, m, False) # vs))"
    using release_inv [OF bs(1) sp] by blast
  have "pxEnd h' = pxEnd h" using h'(1)
    by (auto simp: vPortFree_def Let_def prvInsertBlockIntoFreeList_def split: if_splits)
  moreover have "own_ok (own(pv := None)) (join (us @ (x, m, False) # vs))"
    using own_ok_free bs(2) heap_invD(5) [OF bs(1)] sp x(2) by simp
  ultimately show ?thesis using h' bs(3) x(2) by (auto simp: run_inv_def)
qed

lemma mult_overflow_iff: "heapMULTIPLY_WILL_OVERFLOW a b \<longleftrightarrow> 2 ^ 32 \<le> unat a * unat b"
proof (cases "a = 0")
  case False
  then have a: "0 < unat a" by (simp add: unat_gt_0)
  have "heapMULTIPLY_WILL_OVERFLOW a b \<longleftrightarrow> (2 ^ 32 - 1) div unat a < unat b"
    using False by (simp add: heapMULTIPLY_WILL_OVERFLOW_def word_less_nat_alt unat_div word_neq_0_conv)
  also have "\<dots> \<longleftrightarrow> 2 ^ 32 - 1 < unat b * unat a" using a by (simp add: div_less_iff_less_mult)
  finally show ?thesis by (auto simp: mult.commute)
qed (simp add: heapMULTIPLY_WILL_OVERFLOW_def)

lemma unat_product: "\<not> heapMULTIPLY_WILL_OVERFLOW a b \<Longrightarrow> unat (a * b) = unat a * unat b"
  by (simp add: mult_overflow_iff unat_word_ariths)

lemma run_inv_bytes: "run_inv c h own \<Longrightarrow> run_inv c (h\<lparr>hByte := f\<rparr>) own"
  by (simp add: run_inv_def)

lemma heap_run_inv:
  assumes "cfg_ok c" and "heap_run c h own"
  shows "run_inv c h own"
  using assms(2)
proof induction
  case (alloc h own want h' pv)
  then show ?case using run_malloc [OF assms(1) alloc.IH, of want] by auto
next
  case (alloc_zero h own k sz h' pv)
  show ?case
  proof (cases "heapMULTIPLY_WILL_OVERFLOW k sz")
    case False
    then obtain h1 where h1: "pvPortMalloc c (k * sz) h = Some (h1, pv)" "h' = (if pv \<noteq> 0 then memset_0 pv (k * sz) h1 else h1)"
      using alloc_zero.hyps(2) by (auto simp: pvPortCalloc_def)
    then have "run_inv c h1 (if pv = 0 then own else own(pv \<mapsto> unat k * unat sz))"
      using run_malloc [OF assms(1) alloc_zero.IH, of "k * sz"] unat_product [OF False] by auto
    then show ?thesis using run_inv_bytes h1(2) by (auto simp: memset_0_def simp del: fun_upd_apply split: if_splits)
  qed (use alloc_zero in \<open>simp add: pvPortCalloc_def\<close>)
next
  case (release h own pv n h')
  then show ?case using run_free [OF release.IH release.hyps(2)] by (metis option.inject)
next
  case (reset_minimum h own)
  have "pxEnd (xPortResetHeapMinimumEverFreeHeapSize h) = pxEnd h" by (simp add: xPortResetHeapMinimumEverFreeHeapSize_def)
  then show ?case using reset_minimum.IH heap_inv_minimum by (auto simp: run_inv_def)
qed (auto simp: run_inv_def)

text \<open>C35: whatever the application allocates, releases and writes, in any order: every piece it holds is
  aligned to 8 bytes, lies inside \<open>ucHeap\<close> with its header before it, and has all the bytes it was
  asked for; and two pieces overlap neither each other nor the other's header.\<close>

theorem heap_run_disjoint:
  assumes c: "cfg_ok c" and r: "heap_run c h own" and p: "own p = Some n"
  shows "8 dvd p \<and> ucHeap c + 8 \<le> p \<and> p + n + 8 \<le> ucHeap c + unat (configTOTAL_HEAP_SIZE c) \<and>
    (\<forall>q m. own q = Some m \<longrightarrow> p \<noteq> q \<longrightarrow> p + n + 8 \<le> q \<or> q + m + 8 \<le> p)"
proof -
  obtain bs where bs: "heap_inv h (heap_base c) bs" "own_ok own bs" "pxEnd h = heap_top c"
    using heap_run_inv [OF c r] p by (auto simp: run_inv_def)
  note i = heap_invD [OF bs(1)] and b = heap_base_top [OF c]
  obtain x k where x: "(x, k, True) \<in> set bs" "p = x + 8" "n + 8 \<le> k" using bs(2) p unfolding own_ok_def by blast
  have "8 dvd p" using tiles_aligned [OF i(5,2) x(1)] x(2) by simp
  moreover have "ucHeap c + 8 \<le> p" "p + n + 8 \<le> ucHeap c + unat (configTOTAL_HEAP_SIZE c)"
    using inv_size(3,4) [OF bs(1) x(1)] x(2,3) b bs(3) by simp_all
  moreover have "p + n + 8 \<le> q \<or> q + m + 8 \<le> p" if q: "own q = Some m" "p \<noteq> q" for q m
  proof -
    obtain y j where y: "(y, j, True) \<in> set bs" "q = y + 8" "m + 8 \<le> j" using bs(2) q(1) unfolding own_ok_def by blast
    then have "x + k \<le> y \<or> y + j \<le> x" using tiles_disjoint [OF i(5) x(1) y(1)] q(2) x(2) by auto
    then show ?thesis using x y by auto
  qed
  ultimately show ?thesis by blast
qed

text \<open>\<open>pvPortCalloc\<close> returns in every intact heap.  It gives null, and changes nothing, when the
  product of the two numbers does not fit in \<open>size_t\<close>; otherwise it gives what \<open>pvPortMalloc\<close> gives for
  the product, and the bytes of the piece are zero.\<close>

theorem pvPortCalloc_clears:
  assumes inv: "heap_inv h a bs"
  shows "\<exists>h' pv. pvPortCalloc c k sz h = Some (h', pv) \<and>
    (if 2 ^ 32 \<le> unat k * unat sz then pv = 0 \<and> h' = h
     else pv = snd (spec_malloc (k * sz) bs) \<and> heap_inv h' a (fst (spec_malloc (k * sz) bs)) \<and>
       (\<forall>i < unat k * unat sz. pv \<noteq> 0 \<longrightarrow> hByte h' (pv + i) = 0))"
proof (cases "2 ^ 32 \<le> unat k * unat sz")
  case True
  then show ?thesis by (simp add: pvPortCalloc_def mult_overflow_iff)
next
  case False
  obtain h1 where h1: "pvPortMalloc c (k * sz) h = Some (h1, snd (spec_malloc (k * sz) bs))"
    "heap_inv h1 a (fst (spec_malloc (k * sz) bs))"
    using pvPortMalloc_refines_core [OF inv, of c "k * sz"] by blast
  have "unat (k * sz) = unat k * unat sz" using False by (intro unat_product) (simp add: mult_overflow_iff)
  then show ?thesis using False h1 by (simp add: pvPortCalloc_def mult_overflow_iff memset_0_def)
qed

section \<open>Statistics\<close>

text \<open>The walk along a chain of headers to the end marker.\<close>

lemma stats_walk:
  fixes h :: heap4 and k mx mn :: size_t
  defines "C \<equiv> \<lambda>(b, blocks :: size_t, mx :: size_t, mn :: size_t). b \<noteq> pxEnd h"
    and "B \<equiv> \<lambda>(b, blocks, mx, mn).
          let n = xBlockSize (hBlock h b);
              blocks = blocks + 1;
              mx = (if n > mx then n else mx);
              mn = (if n < mn then n else mn)
          in (pxNextFreeBlock (hBlock h b), blocks, mx, mn)"
  shows "successively (\<lambda>x y. pxNextFreeBlock (hBlock h x) = y) (ns @ [pxEnd h]) \<Longrightarrow> pxEnd h \<notin> set ns \<Longrightarrow>
   while_option C B (hd (ns @ [pxEnd h]), k, mx, mn) = Some (pxEnd h, k + of_nat (length ns),
     fold (\<lambda>x. max (xBlockSize (hBlock h x))) ns mx, fold (\<lambda>x. min (xBlockSize (hBlock h x))) ns mn)"
proof (induction ns arbitrary: k mx mn)
  case Nil
  then show ?case by (simp add: while_option_unfold C_def)
next
  case (Cons x ns)
  have n: "pxNextFreeBlock (hBlock h x) = hd (ns @ [pxEnd h])" "successively (\<lambda>x y. pxNextFreeBlock (hBlock h x) = y) (ns @ [pxEnd h])"
    using Cons.prems(1) by (cases ns; simp)+
  let ?n = "xBlockSize (hBlock h x)"
  have "B (x, k, mx, mn) = (hd (ns @ [pxEnd h]), k + 1, max ?n mx, min ?n mn)"
    by (auto simp: B_def Let_def n(1) max_def min_def)
  moreover have "C (x, k, mx, mn)" using Cons.prems(2) by (auto simp: C_def)
  ultimately have "while_option C B (x, k, mx, mn) = while_option C B (hd (ns @ [pxEnd h]), k + 1, max ?n mx, min ?n mn)"
    by (subst while_option_unfold) simp
  then show ?case using Cons.IH [OF n(2)] Cons.prems(2) by (simp add: add.assoc)
qed

lemma free_list_chain:
  "free_list h fs \<Longrightarrow> successively (\<lambda>x y. pxNextFreeBlock (hBlock h x) = y) (fs @ [pxEnd h]) \<and>
   pxNextFreeBlock (xStart h) = hd (fs @ [pxEnd h])"
proof -
  assume "free_list h fs"
  then have f: "successively (free_link h) (XStart # map Blk (fs @ [pxEnd h]))" by (simp add: free_list_def)
  then have "successively (free_link h) (map Blk (fs @ [pxEnd h]))" by (cases fs) simp_all
  then have "successively (\<lambda>x y. free_link h (Blk x) (Blk y)) (fs @ [pxEnd h])" by (simp only: successively_map)
  then have "successively (\<lambda>x y. pxNextFreeBlock (hBlock h x) = y) (fs @ [pxEnd h])"
    by (rule successively_mono) (simp_all add: free_link_def)
  moreover have "pxNextFreeBlock (xStart h) = hd (fs @ [pxEnd h])"
    using f by (cases fs) (simp_all add: free_link_def block_def)
  ultimately show ?thesis by simp
qed

lemma heap_stats:
  assumes inv: "heap_inv h a bs"
  shows "heap_stats_walk h = Some (pxEnd h, of_nat (length (frees bs)),
    fold (\<lambda>x. max (xBlockSize (hBlock h x))) (frees bs) 0, fold (\<lambda>x. min (xBlockSize (hBlock h x))) (frees bs) 0xFFFFFFFF)"
    and "pxNextFreeBlock (xStart h) \<noteq> 0"
proof -
  note f = free_list_chain [OF heap_invD(8) [OF inv]]
  have "pxEnd h \<notin> set (frees bs)" using frees_pos [OF inv] by blast
  then show "heap_stats_walk h = Some (pxEnd h, of_nat (length (frees bs)),
    fold (\<lambda>x. max (xBlockSize (hBlock h x))) (frees bs) 0, fold (\<lambda>x. min (xBlockSize (hBlock h x))) (frees bs) 0xFFFFFFFF)"
    using stats_walk [of h "frees bs" 0 0 "0xFFFFFFFF"] f by (simp add: heap_stats_walk_def)
  have "hd (frees bs @ [pxEnd h]) \<in> set (frees bs @ [pxEnd h])" by (intro hd_in_set) simp
  then have "0 < hd (frees bs @ [pxEnd h])" using frees_pos [OF inv] inv_pos [OF inv] by auto
  then show "pxNextFreeBlock (xStart h) \<noteq> 0" using f by simp
qed

text \<open>C38: the heap does not fragment for good: when the application has released everything it held,
  whatever it did before, all memory of the heap is one free block again, as after the initialisation.\<close>

theorem all_released_one_block:
  assumes c: "cfg_ok c" and r: "heap_run c h Map.empty" and e: "pxEnd h \<noteq> 0"
  shows "\<exists>st. vPortGetHeapStats h = Some st \<and> xNumberOfFreeBlocks st = 1 \<and>
    xAvailableHeapSpaceInBytes st = of_nat (heap_top c - heap_base c) \<and>
    xSizeOfLargestFreeBlockInBytes st = of_nat (heap_top c - heap_base c)"
proof -
  obtain bs where bs: "heap_inv h (heap_base c) bs" "own_ok Map.empty bs" "pxEnd h = heap_top c"
    using heap_run_inv [OF c r] e by (auto simp: run_inv_def)
  note i = heap_invD [OF bs(1)] and b = heap_base_top [OF c]
  have f: "\<not> snd (snd k)" if "k \<in> set bs" for k
    using bs(2) that by (cases k) (auto simp: own_ok_def)
  have one: "bs = [(heap_base c, heap_top c - heap_base c, False)]"
  proof (cases bs)
    case Nil
    then show ?thesis using i(5) b(2) bs(3) by simp
  next
    case (Cons k ks)
    then have "ks = []" using i(6) f by (cases ks) (auto simp: merged_Cons)
    then show ?thesis using i(5) f [of k] Cons bs(3) by (cases k) auto
  qed
  have "xBlockSize (hBlock h (heap_base c)) = of_nat (heap_top c - heap_base c)"
    using i(7) [of "(heap_base c, heap_top c - heap_base c, False)"] by (simp add: one header_def)
  then show ?thesis using heap_stats [OF bs(1)] i(10) by (simp add: vPortGetHeapStats_def one max_def)
qed

text \<open>C39: \<open>vPortHeapResetState\<close> leaves \<open>xStart\<close> as it is, so that until the next allocation the
  statistics are those of the old list: \<open>vPortGetHeapStats\<close> runs through the old free blocks and the old
  end marker and counts them all, while it reports that no byte is available.\<close>

theorem reset_leaves_stale_list:
  assumes inv: "heap_inv h a bs"
  shows "\<exists>st. vPortGetHeapStats (vPortHeapResetState h) = Some st \<and>
    xNumberOfFreeBlocks st = of_nat (length (frees bs)) + 1 \<and> xAvailableHeapSpaceInBytes st = 0"
proof -
  let ?h = "vPortHeapResetState h" and ?ns = "frees bs @ [pxEnd h]"
  note f = free_list_chain [OF heap_invD(8) [OF inv]]
  have h: "pxEnd ?h = 0" "hBlock ?h = hBlock h" "xStart ?h = xStart h" "xFreeBytesRemaining ?h = 0"
    by (simp_all add: vPortHeapResetState_def)
  have "pxNextFreeBlock (hBlock h (pxEnd h)) = 0" using heap_invD(9) [OF inv] by simp
  then have "successively (\<lambda>x y. pxNextFreeBlock (hBlock ?h x) = y) (?ns @ [pxEnd ?h])"
    using f by (simp add: h successively_append_iff)
  moreover have "pxEnd ?h \<notin> set ?ns" using frees_pos [OF inv] inv_pos [OF inv] by (auto simp: h)
  moreover have "pxNextFreeBlock (xStart ?h) = hd (?ns @ [pxEnd ?h])" using f by (cases "frees bs") (simp_all add: h)
  ultimately show ?thesis using stats_walk [of ?h ?ns 0 0 "0xFFFFFFFF"] heap_stats(2) [OF inv]
    by (auto simp: vPortGetHeapStats_def heap_stats_walk_def h simp del: append.simps append_assoc)
qed

section \<open>The theorems on a concrete heap\<close>

text \<open>An array of 64 bytes that is not aligned, and the heap in it before and after its initialisation.\<close>

definition ex_cfg :: heap_cfg where
  "ex_cfg = \<lparr>ucHeap = 4099, configTOTAL_HEAP_SIZE = 64\<rparr>"

definition ex_heap0 :: heap4 where
  "ex_heap0 = \<lparr>hBlock = (\<lambda>a. \<lparr>pxNextFreeBlock = 7, xBlockSize = 9\<rparr>), hByte = (\<lambda>a. 0xA5),
     xStart = \<lparr>pxNextFreeBlock = 0, xBlockSize = 0\<rparr>, pxEnd = 0, xFreeBytesRemaining = 0,
     xMinimumEverFreeBytesRemaining = 0, xNumberOfSuccessfulAllocations = 0, xNumberOfSuccessfulFrees = 0\<rparr>"

definition ex_heap :: heap4 where "ex_heap = prvHeapInit ex_cfg ex_heap0"

lemma ex_cfg_ok: "cfg_ok ex_cfg"
  by (simp add: cfg_ok_def ex_cfg_def)

lemma ex_base_top: "heap_base ex_cfg = 4104" "heap_top ex_cfg = 4152" "ucHeap ex_cfg = 4099" "configTOTAL_HEAP_SIZE ex_cfg = 64"
  by (simp_all add: heap_base_def heap_top_def ex_cfg_def)

lemma ex_heap_inv: "heap_inv ex_heap 4104 [(4104, 48, False)]"
  using prvHeapInit_inv(1) [OF ex_cfg_ok, of ex_heap0] by (simp add: ex_base_top ex_heap_def)

lemma ex_malloc: "spec_malloc 5 [(4104, 48, False)] = ([(4104, 16, True), (4120, 32, False)], 4112)"
  by (simp add: spec_malloc_def malloc_size_def taken_def)

lemma pvPortMalloc_refines_witness:
  "\<exists>h'. pvPortMalloc ex_cfg 5 ex_heap = Some (h', 4112) \<and> heap_inv h' 4104 [(4104, 16, True), (4120, 32, False)]"
  using pvPortMalloc_refines [OF ex_heap_inv, of ex_cfg 5] unfolding ex_malloc by auto

definition ex_held :: heap4 where "ex_held = fst (the (pvPortMalloc ex_cfg 5 ex_heap))"

lemma ex_held_inv:
  "pvPortMalloc ex_cfg 5 ex_heap = Some (ex_held, 4112)" "heap_inv ex_held 4104 [(4104, 16, True), (4120, 32, False)]"
  using pvPortMalloc_refines_core [OF ex_heap_inv, of ex_cfg 5] unfolding ex_malloc by (auto simp: ex_held_def)

lemma vPortFree_refines_witness: "\<exists>h'. vPortFree 4112 ex_held = Some h' \<and> heap_inv h' 4104 [(4104, 48, False)]"
  using vPortFree_refines [OF ex_held_inv(2), of 4104 16] by (auto simp: spec_free_def)

lemma malloc_free_roundtrip_witness: "\<exists>h''. vPortFree 4112 ex_held = Some h'' \<and> heap_inv h'' 4104 [(4104, 48, False)]"
  using malloc_free_roundtrip [OF ex_heap_inv ex_held_inv(1)] by simp

text \<open>The same from the start-up on, with a second piece.\<close>

lemma ex_first: "pvPortMalloc ex_cfg 5 ex_heap0 = Some (ex_held, 4112)"
proof -
  have "pxEnd ex_heap0 = 0" by (simp add: ex_heap0_def)
  then have "pvPortMalloc ex_cfg 5 ex_heap0 = pvPortMalloc ex_cfg 5 ex_heap"
    unfolding ex_heap_def using run_inv_init(2) [OF ex_cfg_ok, of ex_heap0 Map.empty] by (simp add: run_inv_def)
  then show ?thesis by (simp add: ex_held_inv(1))
qed

lemma ex_run: "heap_run ex_cfg ex_held [4112 \<mapsto> 5]"
  using heap_run.alloc [OF heap_run.start_up [of ex_heap0] ex_first] by (simp add: ex_heap0_def)

definition ex_held2 :: heap4 where "ex_held2 = fst (the (pvPortMalloc ex_cfg 8 ex_held))"

lemma ex_second: "pvPortMalloc ex_cfg 8 ex_held = Some (ex_held2, 4128)"
  using pvPortMalloc_refines_core [OF ex_held_inv(2), of ex_cfg 8]
  by (auto simp: ex_held2_def spec_malloc_def malloc_size_def taken_def)

lemma ex_run2: "heap_run ex_cfg ex_held2 [4112 \<mapsto> 5, 4128 \<mapsto> 8]"
  using heap_run.alloc [OF ex_run ex_second] by simp

lemma heap_run_disjoint_witness: "(8 :: nat) dvd 4112 \<and> ucHeap ex_cfg + 8 \<le> 4112 \<and> (4112 + 5 + 8 \<le> (4128 :: nat) \<or> 4128 + 8 + 8 \<le> (4112 :: nat))"
proof -
  have "8 dvd (4112 :: nat) \<and> ucHeap ex_cfg + 8 \<le> 4112 \<and> 4112 + 5 + 8 \<le> ucHeap ex_cfg + unat (configTOTAL_HEAP_SIZE ex_cfg) \<and>
    (\<forall>q m. [4112 \<mapsto> 5, 4128 \<mapsto> 8 :: nat] q = Some m \<longrightarrow> 4112 \<noteq> q \<longrightarrow> 4112 + 5 + 8 \<le> q \<or> q + m + 8 \<le> 4112)"
    by (rule heap_run_disjoint [OF ex_cfg_ok ex_run2]) simp
  then show ?thesis by (auto split: if_splits)
qed

lemma pvPortCalloc_clears_witness:
  "\<exists>h'. pvPortCalloc ex_cfg 1 5 ex_heap = Some (h', 4112) \<and> hByte h' 4116 = 0"
proof -
  obtain h' where "pvPortCalloc ex_cfg 1 5 ex_heap = Some (h', 4112)" "\<forall>i<5. hByte h' (4112 + i) = 0"
    using pvPortCalloc_clears [OF ex_heap_inv, of ex_cfg 1 5] ex_malloc by auto
  from this(1) this(2) [rule_format, of 4] show ?thesis by simp
qed

lemma all_released_one_block_witness:
  "\<exists>h st. vPortFree 4112 ex_held = Some h \<and> vPortGetHeapStats h = Some st \<and> xNumberOfFreeBlocks st = 1 \<and>
    xSizeOfLargestFreeBlockInBytes st = 48"
proof -
  obtain h where h: "vPortFree 4112 ex_held = Some h" "heap_inv h 4104 [(4104, 48, False)]"
    using release_inv [OF ex_held_inv(2), of "[]" 4104 16 "[(4120, 32, False)]"] by auto
  have "heap_run ex_cfg h ([4112 \<mapsto> 5](4112 := None))" using heap_run.release [OF ex_run _ h(1), of 5] by simp
  then have r: "heap_run ex_cfg h Map.empty" by simp
  have "pxEnd h \<noteq> 0" using inv_pos [OF h(2)] by simp
  from all_released_one_block [OF ex_cfg_ok r this] show ?thesis using h(1) by (auto simp: ex_base_top)
qed

lemma reset_leaves_stale_list_witness:
  "\<exists>st. vPortGetHeapStats (vPortHeapResetState ex_heap) = Some st \<and> xNumberOfFreeBlocks st = 2 \<and>
    xAvailableHeapSpaceInBytes st = 0"
  using reset_leaves_stale_list [OF ex_heap_inv] by simp

end
