(* ===== verification/FRTOS_Task.thy ===== *)
theory FRTOS_Task
  imports FRTOS_List "HOL-Library.Monad_Syntax"
begin

text \<open>
  The scheduler of FreeRTOS, \<open>tasks.c\<close>, on one core: ready, delayed and event lists, the tick, delays,
  suspension of tasks and of the scheduler, and time-outs.  The configuration is the default of
  \<open>FreeRTOS.h\<close> with preemption, time slicing, mutexes, \<open>INCLUDE_vTaskSuspend\<close> and the
  other services that are modelled, with the generic selection of tasks, and without hooks, tracing, stack
  checking, \<open>vTaskDelete\<close> and \<open>xTaskAbortDelay\<close>.  A task is the index of its TCB.  \<open>configASSERT\<close>
  is empty.  \<open>vTaskDelay\<close> and \<open>xTaskDelayUntil\<close> are one step each: no tick is pended between their
  \<open>vTaskSuspendAll\<close> and \<open>xTaskResumeAll\<close>.  A null pointer that is followed, and a loop that does not end, give \<open>None\<close>.
\<close>

unbundle bit_operations_syntax

section \<open>The state\<close>

text \<open>The two list items of a TCB, and the lists.  Event lists belong to queues and the like.\<close>

datatype task_item = StateItem nat | EventItem nat

datatype task_list =
    pxReadyTasksLists nat | xDelayedTaskList1 | xDelayedTaskList2 | xPendingReadyList | xSuspendedTaskList
  | EventList nat

record tskTCB =
  uxPriority :: UBaseType
  uxBasePriority :: UBaseType
  uxMutexesHeld :: UBaseType
  ucNotifyState :: "8 word"
  ulNotifiedValue :: "32 word"

text \<open>\<open>xPendSV\<close>: the interrupt that switches the context is pending.\<close>

record frtos = "(task_item, task_list) lists" +
  xTCBs :: "nat \<Rightarrow> tskTCB"
  pxCurrentTCB :: "nat option"
  pxDelayedTaskList :: task_list
  pxOverflowDelayedTaskList :: task_list
  uxCurrentNumberOfTasks :: UBaseType
  xTickCount :: TickType
  uxTopReadyPriority :: UBaseType
  xSchedulerRunning :: bool
  xPendedTicks :: TickType
  xYieldPending :: bool
  xNumOfOverflows :: "32 word"
  uxTaskNumber :: UBaseType
  xNextTaskUnblockTime :: TickType
  uxSchedulerSuspended :: UBaseType
  xPendSV :: bool

abbreviation (input) taskNOT_WAITING_NOTIFICATION :: "8 word" where "taskNOT_WAITING_NOTIFICATION \<equiv> 0"
abbreviation (input) taskWAITING_NOTIFICATION :: "8 word" where "taskWAITING_NOTIFICATION \<equiv> 1"
abbreviation (input) taskEVENT_LIST_ITEM_VALUE_IN_USE :: TickType where "taskEVENT_LIST_ITEM_VALUE_IN_USE \<equiv> 0x80000000"

definition priority :: "nat \<Rightarrow> frtos \<Rightarrow> UBaseType" where
  "priority t s = uxPriority (xTCBs s t)"

definition upd_TCB :: "nat \<Rightarrow> (tskTCB \<Rightarrow> tskTCB) \<Rightarrow> frtos \<Rightarrow> frtos" where
  "upd_TCB t f s = s\<lparr>xTCBs := (xTCBs s)(t := f (xTCBs s t))\<rparr>"

text \<open>\<open>portYIELD\<close> and its use within the interface of the kernel.\<close>

definition portYIELD :: "frtos \<Rightarrow> frtos" where
  "portYIELD s = s\<lparr>xPendSV := True\<rparr>"

definition taskYIELD_ANY_CORE_IF_USING_PREEMPTION :: "nat \<Rightarrow> frtos \<Rightarrow> frtos option" where
  "taskYIELD_ANY_CORE_IF_USING_PREEMPTION t s = do {
     c \<leftarrow> pxCurrentTCB s;
     Some (if priority c s < priority t s then portYIELD s else s)
   }"

section \<open>Ready and delayed lists\<close>

definition prvAddTaskToReadyList :: "nat \<Rightarrow> frtos \<Rightarrow> frtos" where
  "prvAddTaskToReadyList t s =
     (let s = (if priority t s > uxTopReadyPriority s then s\<lparr>uxTopReadyPriority := priority t s\<rparr> else s)
      in listINSERT_END (pxReadyTasksLists (unat (priority t s))) (StateItem t) s)"

fun init_ready_lists :: "nat \<Rightarrow> frtos \<Rightarrow> frtos" where
  "init_ready_lists 0 s = s"
| "init_ready_lists (Suc n) s = vListInitialise (pxReadyTasksLists n) (init_ready_lists n s)"

definition prvInitialiseTaskLists :: "nat \<Rightarrow> frtos \<Rightarrow> frtos" where
  "prvInitialiseTaskLists configMAX_PRIORITIES s =
     (let s = init_ready_lists configMAX_PRIORITIES s;
          s = vListInitialise xDelayedTaskList1 s;
          s = vListInitialise xDelayedTaskList2 s;
          s = vListInitialise xPendingReadyList s;
          s = vListInitialise xSuspendedTaskList s
      in s\<lparr>pxDelayedTaskList := xDelayedTaskList1, pxOverflowDelayedTaskList := xDelayedTaskList2\<rparr>)"

text \<open>The list items of a new TCB, and its way into the ready list.\<close>

definition prvInitialiseNewTask_items :: "nat \<Rightarrow> nat \<Rightarrow> UBaseType \<Rightarrow> frtos \<Rightarrow> frtos" where
  "prvInitialiseNewTask_items configMAX_PRIORITIES t prio s =
     (let prio = (if prio \<ge> of_nat configMAX_PRIORITIES then of_nat configMAX_PRIORITIES - 1 else prio);
          s = upd_TCB t (\<lambda>p. p\<lparr>uxPriority := prio\<rparr>) s;
          s = upd_TCB t (\<lambda>p. p\<lparr>uxBasePriority := prio\<rparr>) s;
          s = vListInitialiseItem (StateItem t) s;
          s = vListInitialiseItem (EventItem t) s;
          s = listSET_LIST_ITEM_OWNER (StateItem t) t s;
          s = listSET_LIST_ITEM_VALUE (EventItem t) (of_nat configMAX_PRIORITIES - prio) s
      in listSET_LIST_ITEM_OWNER (EventItem t) t s)"

definition prvAddNewTaskToReadyList :: "nat \<Rightarrow> nat \<Rightarrow> frtos \<Rightarrow> frtos option" where
  "prvAddNewTaskToReadyList configMAX_PRIORITIES t s =
     (let s = s\<lparr>uxCurrentNumberOfTasks := uxCurrentNumberOfTasks s + 1\<rparr>;
          s = (case pxCurrentTCB s of
                 None \<Rightarrow>
                   let s = s\<lparr>pxCurrentTCB := Some t\<rparr>
                   in if uxCurrentNumberOfTasks s = 1 then prvInitialiseTaskLists configMAX_PRIORITIES s else s
               | Some c \<Rightarrow>
                   if \<not> xSchedulerRunning s
                   then if priority c s \<le> priority t s then s\<lparr>pxCurrentTCB := Some t\<rparr> else s
                   else s);
          s = s\<lparr>uxTaskNumber := uxTaskNumber s + 1\<rparr>;
          s = prvAddTaskToReadyList t s
      in if xSchedulerRunning s then taskYIELD_ANY_CORE_IF_USING_PREEMPTION t s else Some s)"

text \<open>
  \<open>memset\<close> of a new TCB; the neighbours of its items, which are in no list, are left out.  \<open>xTaskCreate\<close>
  has the TCB that \<open>prvCreateTask\<close> allocated with its stack, or \<open>None\<close> when there was no memory.
\<close>

definition memset_TCB :: "nat \<Rightarrow> frtos \<Rightarrow> frtos" where
  "memset_TCB t s =
     (let s = upd_TCB t (\<lambda>_. \<lparr>uxPriority = 0, uxBasePriority = 0, uxMutexesHeld = 0, ucNotifyState = 0, ulNotifiedValue = 0\<rparr>) s;
          s = upd_item (Item (StateItem t)) (\<lambda>p. p\<lparr>xItemValue := 0, pvOwner := None, pxContainer := None\<rparr>) s
      in upd_item (Item (EventItem t)) (\<lambda>p. p\<lparr>xItemValue := 0, pvOwner := None, pxContainer := None\<rparr>) s)"

definition prvCreateTask :: "nat \<Rightarrow> nat option \<Rightarrow> UBaseType \<Rightarrow> frtos \<Rightarrow> frtos" where
  "prvCreateTask configMAX_PRIORITIES pxNewTCB prio s =
     (case pxNewTCB of
        None \<Rightarrow> s
      | Some t \<Rightarrow> prvInitialiseNewTask_items configMAX_PRIORITIES t prio (memset_TCB t s))"

definition xTaskCreate :: "nat \<Rightarrow> nat option \<Rightarrow> UBaseType \<Rightarrow> frtos \<Rightarrow> (frtos \<times> bool) option" where
  "xTaskCreate configMAX_PRIORITIES pxNewTCB prio s = do {
     let s = prvCreateTask configMAX_PRIORITIES pxNewTCB prio s;
     (case pxNewTCB of
        None \<Rightarrow> Some (s, False)
      | Some t \<Rightarrow> map_option (\<lambda>s. (s, True)) (prvAddNewTaskToReadyList configMAX_PRIORITIES t s))
   }"

definition prvResetNextTaskUnblockTime :: "frtos \<Rightarrow> frtos" where
  "prvResetNextTaskUnblockTime s =
     (if listLIST_IS_EMPTY (pxDelayedTaskList s) s then s\<lparr>xNextTaskUnblockTime := portMAX_DELAY\<rparr>
      else s\<lparr>xNextTaskUnblockTime := listGET_ITEM_VALUE_OF_HEAD_ENTRY (pxDelayedTaskList s) s\<rparr>)"

definition taskSWITCH_DELAYED_LISTS :: "frtos \<Rightarrow> frtos" where
  "taskSWITCH_DELAYED_LISTS s =
     (let temp = pxDelayedTaskList s;
          s = s\<lparr>pxDelayedTaskList := pxOverflowDelayedTaskList s\<rparr>;
          s = s\<lparr>pxOverflowDelayedTaskList := temp\<rparr>;
          s = s\<lparr>xNumOfOverflows := xNumOfOverflows s + 1\<rparr>
      in prvResetNextTaskUnblockTime s)"

text \<open>The bitmap of a port has no part in the generic selection, so the result of \<open>uxListRemove\<close> is not used.\<close>

definition prvAddCurrentTaskToDelayedList :: "TickType \<Rightarrow> bool \<Rightarrow> frtos \<Rightarrow> frtos option" where
  "prvAddCurrentTaskToDelayedList xTicksToWait xCanBlockIndefinitely s = do {
     let xConstTickCount = xTickCount s;
     c \<leftarrow> pxCurrentTCB s;
     (s, _) \<leftarrow> uxListRemove (StateItem c) s;
     if xTicksToWait = portMAX_DELAY \<and> xCanBlockIndefinitely
     then Some (listINSERT_END xSuspendedTaskList (StateItem c) s)
     else do {
       let xTimeToWake = xConstTickCount + xTicksToWait;
       let s = listSET_LIST_ITEM_VALUE (StateItem c) xTimeToWake s;
       if xTimeToWake < xConstTickCount
       then vListInsert (pxOverflowDelayedTaskList s) (StateItem c) s
       else do {
         s \<leftarrow> vListInsert (pxDelayedTaskList s) (StateItem c) s;
         Some (if xTimeToWake < xNextTaskUnblockTime s then s\<lparr>xNextTaskUnblockTime := xTimeToWake\<rparr> else s)
       }
     }
   }"

section \<open>The tick\<close>

text \<open>The loop that unblocks the tasks whose time has come.\<close>

partial_function (option) tick_unblock :: "TickType \<Rightarrow> bool \<Rightarrow> frtos \<Rightarrow> (frtos \<times> bool) option" where
  "tick_unblock xConstTickCount xSwitchRequired s =
     (if listLIST_IS_EMPTY (pxDelayedTaskList s) s
      then Some (s\<lparr>xNextTaskUnblockTime := portMAX_DELAY\<rparr>, xSwitchRequired)
      else do {
        t \<leftarrow> listGET_OWNER_OF_HEAD_ENTRY (pxDelayedTaskList s) s;
        let xItemValue = listGET_LIST_ITEM_VALUE (StateItem t) s;
        if xConstTickCount < xItemValue
        then Some (s\<lparr>xNextTaskUnblockTime := xItemValue\<rparr>, xSwitchRequired)
        else do {
          s \<leftarrow> listREMOVE_ITEM (StateItem t) s;
          s \<leftarrow> (if listLIST_ITEM_CONTAINER (EventItem t) s \<noteq> None then listREMOVE_ITEM (EventItem t) s else Some s);
          let s = prvAddTaskToReadyList t s;
          c \<leftarrow> pxCurrentTCB s;
          tick_unblock xConstTickCount (xSwitchRequired \<or> priority t s > priority c s) s
        }
      })"

definition xTaskIncrementTick :: "frtos \<Rightarrow> (frtos \<times> bool) option" where
  "xTaskIncrementTick s =
     (if uxSchedulerSuspended s = 0
      then do {
        let xConstTickCount = xTickCount s + 1;
        let s = s\<lparr>xTickCount := xConstTickCount\<rparr>;
        let s = (if xConstTickCount = 0 then taskSWITCH_DELAYED_LISTS s else s);
        (s, xSwitchRequired) \<leftarrow>
          (if xConstTickCount \<ge> xNextTaskUnblockTime s then tick_unblock xConstTickCount False s else Some (s, False));
        c \<leftarrow> pxCurrentTCB s;
        let xSwitchRequired = (xSwitchRequired \<or>
              listCURRENT_LIST_LENGTH (pxReadyTasksLists (unat (priority c s))) s > 1);
        Some (s, xSwitchRequired \<or> xYieldPending s)
      }
      else Some (s\<lparr>xPendedTicks := xPendedTicks s + 1\<rparr>, False))"

definition xPortSysTickHandler :: "frtos \<Rightarrow> frtos option" where
  "xPortSysTickHandler s = do {
     (s, xSwitchRequired) \<leftarrow> xTaskIncrementTick s;
     Some (if xSwitchRequired then s\<lparr>xPendSV := True\<rparr> else s)
   }"

section \<open>Switching the context\<close>

definition taskSELECT_HIGHEST_PRIORITY_TASK :: "frtos \<Rightarrow> frtos option" where
  "taskSELECT_HIGHEST_PRIORITY_TASK s = do {
     uxTopPriority \<leftarrow> while_option (\<lambda>p :: UBaseType. listLIST_IS_EMPTY (pxReadyTasksLists (unat p)) s) (\<lambda>p. p - 1)
       (uxTopReadyPriority s);
     let (s, t) = listGET_OWNER_OF_NEXT_ENTRY (pxReadyTasksLists (unat uxTopPriority)) s;
     let s = s\<lparr>pxCurrentTCB := t\<rparr>;
     Some (s\<lparr>uxTopReadyPriority := uxTopPriority\<rparr>)
   }"

definition vTaskSwitchContext :: "frtos \<Rightarrow> frtos option" where
  "vTaskSwitchContext s =
     (if uxSchedulerSuspended s \<noteq> 0 then Some (s\<lparr>xYieldPending := True\<rparr>)
      else taskSELECT_HIGHEST_PRIORITY_TASK (s\<lparr>xYieldPending := False\<rparr>))"

text \<open>The interrupt is no longer pending when its handler runs.\<close>

definition xPortPendSVHandler :: "frtos \<Rightarrow> frtos option" where
  "xPortPendSVHandler s = vTaskSwitchContext (s\<lparr>xPendSV := False\<rparr>)"

section \<open>Suspending and resuming the scheduler\<close>

definition vTaskSuspendAll :: "frtos \<Rightarrow> frtos" where
  "vTaskSuspendAll s = s\<lparr>uxSchedulerSuspended := uxSchedulerSuspended s + 1\<rparr>"

text \<open>The loop over the tasks that became ready while the scheduler was suspended, and the one over the ticks.\<close>

partial_function (option) resume_ready :: "nat option \<Rightarrow> frtos \<Rightarrow> (frtos \<times> nat option) option" where
  "resume_ready pxTCB s =
     (if listLIST_IS_EMPTY xPendingReadyList s then Some (s, pxTCB)
      else do {
        t \<leftarrow> listGET_OWNER_OF_HEAD_ENTRY xPendingReadyList s;
        s \<leftarrow> listREMOVE_ITEM (EventItem t) s;
        s \<leftarrow> listREMOVE_ITEM (StateItem t) s;
        let s = prvAddTaskToReadyList t s;
        c \<leftarrow> pxCurrentTCB s;
        resume_ready (Some t) (if priority t s > priority c s then s\<lparr>xYieldPending := True\<rparr> else s)
      })"

primrec resume_ticks :: "nat \<Rightarrow> frtos \<Rightarrow> frtos option" where
  "resume_ticks 0 s = Some s"
| "resume_ticks (Suc n) s = do {
     (s, xSwitchRequired) \<leftarrow> xTaskIncrementTick s;
     resume_ticks n (if xSwitchRequired then s\<lparr>xYieldPending := True\<rparr> else s)
   }"

definition xTaskResumeAll :: "frtos \<Rightarrow> (frtos \<times> bool) option" where
  "xTaskResumeAll s = do {
     let s = s\<lparr>uxSchedulerSuspended := uxSchedulerSuspended s - 1\<rparr>;
     if uxSchedulerSuspended s = 0 \<and> uxCurrentNumberOfTasks s > 0
     then do {
       (s, pxTCB) \<leftarrow> resume_ready None s;
       let s = (if pxTCB \<noteq> None then prvResetNextTaskUnblockTime s else s);
       let xPendedCounts = xPendedTicks s;
       s \<leftarrow> (if xPendedCounts > 0
             then map_option (\<lambda>s. s\<lparr>xPendedTicks := 0\<rparr>) (resume_ticks (unat xPendedCounts) s)
             else Some s);
       Some (if xYieldPending s then (portYIELD s, True) else (s, False))
     }
     else Some (s, False)
   }"

definition xTaskCatchUpTicks :: "TickType \<Rightarrow> frtos \<Rightarrow> (frtos \<times> bool) option" where
  "xTaskCatchUpTicks xTicksToCatchUp s =
     (let s = vTaskSuspendAll s
      in xTaskResumeAll (s\<lparr>xPendedTicks := xPendedTicks s + xTicksToCatchUp\<rparr>))"

section \<open>Delays\<close>

definition vTaskDelay :: "TickType \<Rightarrow> frtos \<Rightarrow> frtos option" where
  "vTaskDelay xTicksToDelay s = do {
     (s, xAlreadyYielded) \<leftarrow>
       (if xTicksToDelay > 0
        then do {
          let s = vTaskSuspendAll s;
          s \<leftarrow> prvAddCurrentTaskToDelayedList xTicksToDelay False s;
          xTaskResumeAll s
        }
        else Some (s, False));
     Some (if \<not> xAlreadyYielded then portYIELD s else s)
   }"

text \<open>The decision of \<open>xTaskDelayUntil\<close> whether there is something to wait for.\<close>

definition delay_until_waits :: "TickType \<Rightarrow> TickType \<Rightarrow> TickType \<Rightarrow> bool" where
  "delay_until_waits xConstTickCount previous xTimeToWake =
     (if xConstTickCount < previous
      then xTimeToWake < previous \<and> xTimeToWake > xConstTickCount
      else xTimeToWake < previous \<or> xTimeToWake > xConstTickCount)"

definition xTaskDelayUntil :: "TickType \<Rightarrow> TickType \<Rightarrow> frtos \<Rightarrow> (frtos \<times> TickType \<times> bool) option" where
  "xTaskDelayUntil previous xTimeIncrement s = do {
     let s = vTaskSuspendAll s;
     let xConstTickCount = xTickCount s;
     let xTimeToWake = previous + xTimeIncrement;
     let xShouldDelay = delay_until_waits xConstTickCount previous xTimeToWake;
     s \<leftarrow> (if xShouldDelay then prvAddCurrentTaskToDelayedList (xTimeToWake - xConstTickCount) False s else Some s);
     (s, xAlreadyYielded) \<leftarrow> xTaskResumeAll s;
     Some (if \<not> xAlreadyYielded then portYIELD s else s, xTimeToWake, xShouldDelay)
   }"

definition xTaskGetTickCount :: "frtos \<Rightarrow> TickType" where
  "xTaskGetTickCount s = xTickCount s"

definition uxTaskGetNumberOfTasks :: "frtos \<Rightarrow> UBaseType" where
  "uxTaskGetNumberOfTasks s = uxCurrentNumberOfTasks s"

section \<open>Event lists\<close>

definition vTaskPlaceOnEventList :: "task_list \<Rightarrow> TickType \<Rightarrow> frtos \<Rightarrow> frtos option" where
  "vTaskPlaceOnEventList pxEventList xTicksToWait s = do {
     c \<leftarrow> pxCurrentTCB s;
     s \<leftarrow> vListInsert pxEventList (EventItem c) s;
     prvAddCurrentTaskToDelayedList xTicksToWait True s
   }"

definition vTaskPlaceOnUnorderedEventList :: "task_list \<Rightarrow> TickType \<Rightarrow> TickType \<Rightarrow> frtos \<Rightarrow> frtos option" where
  "vTaskPlaceOnUnorderedEventList pxEventList xValue xTicksToWait s = do {
     c \<leftarrow> pxCurrentTCB s;
     let s = listSET_LIST_ITEM_VALUE (EventItem c) (xValue OR taskEVENT_LIST_ITEM_VALUE_IN_USE) s;
     prvAddCurrentTaskToDelayedList xTicksToWait True (listINSERT_END pxEventList (EventItem c) s)
   }"

definition vTaskPlaceOnEventListRestricted :: "task_list \<Rightarrow> TickType \<Rightarrow> bool \<Rightarrow> frtos \<Rightarrow> frtos option" where
  "vTaskPlaceOnEventListRestricted pxEventList xTicksToWait xWaitIndefinitely s = do {
     c \<leftarrow> pxCurrentTCB s;
     let s = listINSERT_END pxEventList (EventItem c) s;
     let xTicksToWait = (if xWaitIndefinitely then portMAX_DELAY else xTicksToWait);
     prvAddCurrentTaskToDelayedList xTicksToWait xWaitIndefinitely s
   }"

definition xTaskRemoveFromEventList :: "task_list \<Rightarrow> frtos \<Rightarrow> (frtos \<times> bool) option" where
  "xTaskRemoveFromEventList pxEventList s = do {
     t \<leftarrow> listGET_OWNER_OF_HEAD_ENTRY pxEventList s;
     s \<leftarrow> listREMOVE_ITEM (EventItem t) s;
     s \<leftarrow> (if uxSchedulerSuspended s = 0
           then do {
             s \<leftarrow> listREMOVE_ITEM (StateItem t) s;
             Some (prvAddTaskToReadyList t s)
           }
           else Some (listINSERT_END xPendingReadyList (EventItem t) s));
     c \<leftarrow> pxCurrentTCB s;
     Some (if priority t s > priority c s then (s\<lparr>xYieldPending := True\<rparr>, True) else (s, False))
   }"

definition vTaskRemoveFromUnorderedEventList :: "task_item \<Rightarrow> TickType \<Rightarrow> frtos \<Rightarrow> frtos option" where
  "vTaskRemoveFromUnorderedEventList pxEventListItem xValue s = do {
     let s = listSET_LIST_ITEM_VALUE pxEventListItem (xValue OR taskEVENT_LIST_ITEM_VALUE_IN_USE) s;
     t \<leftarrow> listGET_LIST_ITEM_OWNER pxEventListItem s;
     s \<leftarrow> listREMOVE_ITEM pxEventListItem s;
     s \<leftarrow> listREMOVE_ITEM (StateItem t) s;
     let s = prvAddTaskToReadyList t s;
     c \<leftarrow> pxCurrentTCB s;
     Some (if priority t s > priority c s then s\<lparr>xYieldPending := True\<rparr> else s)
   }"

definition uxTaskResetEventItemValue :: "nat \<Rightarrow> frtos \<Rightarrow> (frtos \<times> TickType) option" where
  "uxTaskResetEventItemValue configMAX_PRIORITIES s = do {
     c \<leftarrow> pxCurrentTCB s;
     let uxReturn = listGET_LIST_ITEM_VALUE (EventItem c) s;
     Some (listSET_LIST_ITEM_VALUE (EventItem c) (of_nat configMAX_PRIORITIES - priority c s) s, uxReturn)
   }"

definition vTaskMissedYield :: "frtos \<Rightarrow> frtos" where
  "vTaskMissedYield s = s\<lparr>xYieldPending := True\<rparr>"

section \<open>Time-outs\<close>

record TimeOut =
  xOverflowCount :: "32 word"
  xTimeOnEntering :: TickType

definition vTaskInternalSetTimeOutState :: "frtos \<Rightarrow> TimeOut" where
  "vTaskInternalSetTimeOutState s = \<lparr>xOverflowCount = xNumOfOverflows s, xTimeOnEntering = xTickCount s\<rparr>"

definition vTaskSetTimeOutState :: "frtos \<Rightarrow> TimeOut" where
  "vTaskSetTimeOutState s = \<lparr>xOverflowCount = xNumOfOverflows s, xTimeOnEntering = xTickCount s\<rparr>"

text \<open>The time-out and the ticks to wait are passed by pointer: both come back with the result.\<close>

definition xTaskCheckForTimeOut :: "TimeOut \<Rightarrow> TickType \<Rightarrow> frtos \<Rightarrow> TimeOut \<times> TickType \<times> bool" where
  "xTaskCheckForTimeOut pxTimeOut xTicksToWait s =
     (let xConstTickCount = xTickCount s;
          xElapsedTime = xConstTickCount - xTimeOnEntering pxTimeOut
      in if xTicksToWait = portMAX_DELAY then (pxTimeOut, xTicksToWait, False)
         else if xNumOfOverflows s \<noteq> xOverflowCount pxTimeOut \<and> xConstTickCount \<ge> xTimeOnEntering pxTimeOut
         then (pxTimeOut, 0, True)
         else if xElapsedTime < xTicksToWait
         then (vTaskInternalSetTimeOutState s, xTicksToWait - xElapsedTime, False)
         else (pxTimeOut, 0, True))"

section \<open>Suspending and resuming tasks\<close>

definition prvGetTCBFromHandle :: "nat option \<Rightarrow> frtos \<Rightarrow> nat option" where
  "prvGetTCBFromHandle pxHandle s = (case pxHandle of None \<Rightarrow> pxCurrentTCB s | Some t \<Rightarrow> Some t)"

text \<open>
  An interrupt between the two critical sections of \<open>vTaskSuspend\<close> finds \<open>xNextTaskUnblockTime\<close> as it
  was, which may be too early but never too late.
\<close>

definition vTaskSuspend :: "nat option \<Rightarrow> frtos \<Rightarrow> frtos option" where
  "vTaskSuspend xTaskToSuspend s = do {
     t \<leftarrow> prvGetTCBFromHandle xTaskToSuspend s;
     (s, _) \<leftarrow> uxListRemove (StateItem t) s;
     s \<leftarrow> (if listLIST_ITEM_CONTAINER (EventItem t) s \<noteq> None then map_option fst (uxListRemove (EventItem t) s) else Some s);
     let s = vListInsertEnd xSuspendedTaskList (StateItem t) s;
     let s = (if ucNotifyState (xTCBs s t) = taskWAITING_NOTIFICATION
              then upd_TCB t (\<lambda>p. p\<lparr>ucNotifyState := taskNOT_WAITING_NOTIFICATION\<rparr>) s else s);
     let s = (if xSchedulerRunning s then prvResetNextTaskUnblockTime s else s);
     if pxCurrentTCB s = Some t
     then if xSchedulerRunning s then Some (portYIELD s)
          else if listCURRENT_LIST_LENGTH xSuspendedTaskList s = uxCurrentNumberOfTasks s
               then Some (s\<lparr>pxCurrentTCB := None\<rparr>)
               else vTaskSwitchContext s
     else Some s
   }"

definition prvTaskIsTaskSuspended :: "nat \<Rightarrow> frtos \<Rightarrow> bool" where
  "prvTaskIsTaskSuspended t s \<longleftrightarrow>
     listIS_CONTAINED_WITHIN xSuspendedTaskList (StateItem t) s \<and>
     \<not> listIS_CONTAINED_WITHIN xPendingReadyList (EventItem t) s \<and>
     listLIST_ITEM_CONTAINER (EventItem t) s = None \<and>
     ucNotifyState (xTCBs s t) \<noteq> taskWAITING_NOTIFICATION"

definition vTaskResume :: "nat option \<Rightarrow> frtos \<Rightarrow> frtos option" where
  "vTaskResume xTaskToResume s =
     (case xTaskToResume of
        None \<Rightarrow> Some s
      | Some t \<Rightarrow>
          if pxCurrentTCB s \<noteq> Some t \<and> prvTaskIsTaskSuspended t s
          then do {
            (s, _) \<leftarrow> uxListRemove (StateItem t) s;
            taskYIELD_ANY_CORE_IF_USING_PREEMPTION t (prvAddTaskToReadyList t s)
          }
          else Some s)"

definition xTaskResumeFromISR :: "nat \<Rightarrow> frtos \<Rightarrow> (frtos \<times> bool) option" where
  "xTaskResumeFromISR t s =
     (if prvTaskIsTaskSuspended t s
      then if uxSchedulerSuspended s = 0
           then do {
             c \<leftarrow> pxCurrentTCB s;
             let (s, xYieldRequired) = (if priority t s > priority c s then (s\<lparr>xYieldPending := True\<rparr>, True) else (s, False));
             (s, _) \<leftarrow> uxListRemove (StateItem t) s;
             Some (prvAddTaskToReadyList t s, xYieldRequired)
           }
           else Some (vListInsertEnd xPendingReadyList (EventItem t) s, False)
      else Some (s, False))"

section \<open>Priorities\<close>

definition event_value_free :: "nat \<Rightarrow> frtos \<Rightarrow> bool" where
  "event_value_free t s \<longleftrightarrow> listGET_LIST_ITEM_VALUE (EventItem t) s AND taskEVENT_LIST_ITEM_VALUE_IN_USE = 0"

definition uxTaskPriorityGet :: "nat option \<Rightarrow> frtos \<Rightarrow> UBaseType option" where
  "uxTaskPriorityGet xTask s = map_option (\<lambda>t. priority t s) (prvGetTCBFromHandle xTask s)"

text \<open>Whether the new priority calls for a context switch.\<close>

definition priority_set_yields :: "nat \<Rightarrow> UBaseType \<Rightarrow> frtos \<Rightarrow> bool option" where
  "priority_set_yields t uxNewPriority s =
     (if uxNewPriority > uxBasePriority (xTCBs s t)
      then if pxCurrentTCB s \<noteq> Some t
           then map_option (\<lambda>c. uxNewPriority > priority c s) (pxCurrentTCB s)
           else Some False
      else Some (pxCurrentTCB s = Some t))"

definition vTaskPrioritySet :: "nat \<Rightarrow> nat option \<Rightarrow> UBaseType \<Rightarrow> frtos \<Rightarrow> frtos option" where
  "vTaskPrioritySet configMAX_PRIORITIES xTask uxNewPriority s = do {
     let uxNewPriority = (if uxNewPriority \<ge> of_nat configMAX_PRIORITIES then of_nat configMAX_PRIORITIES - 1 else uxNewPriority);
     t \<leftarrow> prvGetTCBFromHandle xTask s;
     if uxBasePriority (xTCBs s t) \<noteq> uxNewPriority
     then do {
       xYieldRequired \<leftarrow> priority_set_yields t uxNewPriority s;
       let uxPriorityUsedOnEntry = priority t s;
       let s = (if uxBasePriority (xTCBs s t) = priority t s \<or> uxNewPriority > priority t s
                then upd_TCB t (\<lambda>p. p\<lparr>uxPriority := uxNewPriority\<rparr>) s else s);
       let s = upd_TCB t (\<lambda>p. p\<lparr>uxBasePriority := uxNewPriority\<rparr>) s;
       let s = (if event_value_free t s
                then listSET_LIST_ITEM_VALUE (EventItem t) (of_nat configMAX_PRIORITIES - uxNewPriority) s else s);
       s \<leftarrow> (if listIS_CONTAINED_WITHIN (pxReadyTasksLists (unat uxPriorityUsedOnEntry)) (StateItem t) s
             then do {
               (s, _) \<leftarrow> uxListRemove (StateItem t) s;
               Some (prvAddTaskToReadyList t s)
             }
             else Some s);
       Some (if xYieldRequired then portYIELD s else s)
     }
     else Some s
   }"

definition xTaskPriorityInherit :: "nat \<Rightarrow> nat option \<Rightarrow> frtos \<Rightarrow> (frtos \<times> bool) option" where
  "xTaskPriorityInherit configMAX_PRIORITIES pxMutexHolder s =
     (case pxMutexHolder of
        None \<Rightarrow> Some (s, False)
      | Some h \<Rightarrow> do {
          c \<leftarrow> pxCurrentTCB s;
          if priority h s < priority c s
          then do {
            let s = (if event_value_free h s
                     then listSET_LIST_ITEM_VALUE (EventItem h) (of_nat configMAX_PRIORITIES - priority c s) s else s);
            s \<leftarrow> (if listIS_CONTAINED_WITHIN (pxReadyTasksLists (unat (priority h s))) (StateItem h) s
                  then do {
                    (s, _) \<leftarrow> uxListRemove (StateItem h) s;
                    let s = upd_TCB h (\<lambda>p. p\<lparr>uxPriority := priority c s\<rparr>) s;
                    Some (prvAddTaskToReadyList h s)
                  }
                  else Some (upd_TCB h (\<lambda>p. p\<lparr>uxPriority := priority c s\<rparr>) s));
            Some (s, True)
          }
          else Some (s, uxBasePriority (xTCBs s h) < priority c s)
        })"

definition xTaskPriorityDisinherit :: "nat \<Rightarrow> nat option \<Rightarrow> frtos \<Rightarrow> (frtos \<times> bool) option" where
  "xTaskPriorityDisinherit configMAX_PRIORITIES pxMutexHolder s =
     (case pxMutexHolder of
        None \<Rightarrow> Some (s, False)
      | Some t \<Rightarrow> do {
          let s = upd_TCB t (\<lambda>p. p\<lparr>uxMutexesHeld := uxMutexesHeld p - 1\<rparr>) s;
          if priority t s \<noteq> uxBasePriority (xTCBs s t) \<and> uxMutexesHeld (xTCBs s t) = 0
          then do {
            (s, _) \<leftarrow> uxListRemove (StateItem t) s;
            let s = upd_TCB t (\<lambda>p. p\<lparr>uxPriority := uxBasePriority p\<rparr>) s;
            let s = listSET_LIST_ITEM_VALUE (EventItem t) (of_nat configMAX_PRIORITIES - priority t s) s;
            Some (prvAddTaskToReadyList t s, True)
          }
          else Some (s, False)
        })"

definition vTaskPriorityDisinheritAfterTimeout :: "nat \<Rightarrow> nat option \<Rightarrow> UBaseType \<Rightarrow> frtos \<Rightarrow> frtos option" where
  "vTaskPriorityDisinheritAfterTimeout configMAX_PRIORITIES pxMutexHolder uxHighestPriorityWaitingTask s =
     (case pxMutexHolder of
        None \<Rightarrow> Some s
      | Some t \<Rightarrow>
          let uxPriorityToUse = (if uxBasePriority (xTCBs s t) < uxHighestPriorityWaitingTask
                                 then uxHighestPriorityWaitingTask else uxBasePriority (xTCBs s t))
          in if priority t s \<noteq> uxPriorityToUse \<and> uxMutexesHeld (xTCBs s t) = 1
             then let uxPriorityUsedOnEntry = priority t s;
                      s = upd_TCB t (\<lambda>p. p\<lparr>uxPriority := uxPriorityToUse\<rparr>) s;
                      s = (if event_value_free t s
                           then listSET_LIST_ITEM_VALUE (EventItem t) (of_nat configMAX_PRIORITIES - uxPriorityToUse) s else s)
                  in if listIS_CONTAINED_WITHIN (pxReadyTasksLists (unat uxPriorityUsedOnEntry)) (StateItem t) s
                     then do {
                       (s, _) \<leftarrow> uxListRemove (StateItem t) s;
                       Some (prvAddTaskToReadyList t s)
                     }
                     else Some s
             else Some s)"

definition pvTaskIncrementMutexHeldCount :: "frtos \<Rightarrow> frtos \<times> nat option" where
  "pvTaskIncrementMutexHeldCount s =
     (case pxCurrentTCB s of
        None \<Rightarrow> (s, None)
      | Some t \<Rightarrow> (upd_TCB t (\<lambda>p. p\<lparr>uxMutexesHeld := uxMutexesHeld p + 1\<rparr>) s, Some t))"

section \<open>The start\<close>

text \<open>\<open>vTaskStartScheduler\<close> from where the idle task, and the timer task, have been created.\<close>

definition vTaskStartScheduler_run :: "frtos \<Rightarrow> frtos" where
  "vTaskStartScheduler_run s = s\<lparr>xNextTaskUnblockTime := portMAX_DELAY, xSchedulerRunning := True, xTickCount := 0\<rparr>"

end
