(* ===== verification/FRTOS_TaskInv.thy ===== *)
theory FRTOS_TaskInv
  imports FRTOS_Task
begin

text \<open>
  The invariant of the scheduler of FreeRTOS, and what the operations on lists do to it: which item is in
  which list is a function of the item, \<open>cont\<close>, that an operation changes at one place.
\<close>

section \<open>Lists and what is in them\<close>

definition cont :: "frtos \<Rightarrow> task_item \<Rightarrow> task_list option" where
  "cont s i = pxContainer (xItems s (Item i))"

definition delay_list :: "task_list \<Rightarrow> bool" where
  "delay_list l \<longleftrightarrow> l = xDelayedTaskList1 \<or> l = xDelayedTaskList2"

text \<open>A list is a ring; a list of delayed tasks is sorted.\<close>

definition good :: "frtos \<Rightarrow> task_list \<Rightarrow> bool" where
  "good s l \<longleftrightarrow> (\<exists>xs. in_ring s l xs \<and> (delay_list l \<longrightarrow> sorted (map (item_value s) xs)))"

text \<open>Only lists and what concerns them changed.\<close>

definition kept :: "frtos \<Rightarrow> frtos \<Rightarrow> bool" where
  "kept s s' \<longleftrightarrow> xTCBs s' = xTCBs s \<and> pxCurrentTCB s' = pxCurrentTCB s \<and> pxDelayedTaskList s' = pxDelayedTaskList s \<and>
     pxOverflowDelayedTaskList s' = pxOverflowDelayedTaskList s \<and> uxCurrentNumberOfTasks s' = uxCurrentNumberOfTasks s \<and> xTickCount s' = xTickCount s \<and>
     xSchedulerRunning s' = xSchedulerRunning s \<and> xPendedTicks s' = xPendedTicks s \<and> xYieldPending s' = xYieldPending s \<and>
     xNumOfOverflows s' = xNumOfOverflows s \<and> uxTaskNumber s' = uxTaskNumber s \<and> uxSchedulerSuspended s' = uxSchedulerSuspended s \<and>
     xPendSV s' = xPendSV s"

lemma kept_refl [simp]: "kept s s"
  by (simp add: kept_def)

lemma kept_trans: "kept s s' \<Longrightarrow> kept s' s'' \<Longrightarrow> kept s s''"
  by (simp add: kept_def)

lemma keptD:
  assumes "kept s s'"
  shows "xTCBs s' = xTCBs s" "pxCurrentTCB s' = pxCurrentTCB s" "pxDelayedTaskList s' = pxDelayedTaskList s"
    "pxOverflowDelayedTaskList s' = pxOverflowDelayedTaskList s" "uxCurrentNumberOfTasks s' = uxCurrentNumberOfTasks s" "xTickCount s' = xTickCount s"
    "xSchedulerRunning s' = xSchedulerRunning s" "xPendedTicks s' = xPendedTicks s" "xYieldPending s' = xYieldPending s"
    "xNumOfOverflows s' = xNumOfOverflows s" "uxTaskNumber s' = uxTaskNumber s" "uxSchedulerSuspended s' = uxSchedulerSuspended s"
    "xPendSV s' = xPendSV s" "priority t s' = priority t s"
  using assms by (simp_all add: kept_def priority_def)

text \<open>The operations on lists as changes of \<open>cont\<close>.\<close>

definition moved :: "frtos \<Rightarrow> task_item \<Rightarrow> task_list option \<Rightarrow> frtos \<Rightarrow> bool" where
  "moved s i l s' \<longleftrightarrow> kept s s' \<and> uxTopReadyPriority s' = uxTopReadyPriority s \<and>
     xNextTaskUnblockTime s' = xNextTaskUnblockTime s \<and> cont s' = (cont s)(i := l) \<and>
     item_value s' = item_value s \<and> (\<forall>j. listGET_LIST_ITEM_OWNER j s' = listGET_LIST_ITEM_OWNER j s) \<and>
     (\<forall>k. good s k \<longrightarrow> good s' k)"

lemma movedD:
  assumes "moved s i l s'"
  shows "kept s s'" "uxTopReadyPriority s' = uxTopReadyPriority s" "xNextTaskUnblockTime s' = xNextTaskUnblockTime s"
    "cont s' = (cont s)(i := l)" "item_value s' = item_value s"
    "listGET_LIST_ITEM_OWNER j s' = listGET_LIST_ITEM_OWNER j s" "good s k \<Longrightarrow> good s' k"
  using assms unfolding moved_def by blast+

text \<open>What an assignment to an item or a list leaves.\<close>

lemma kept_upd [simp]: "kept s (upd_item p f s') = kept s s'" "kept s (upd_list l g s') = kept s s'"
  by (simp_all add: kept_def upd_item_def upd_list_def)

lemma upd_numbers [simp]:
  "uxTopReadyPriority (upd_item p f s) = uxTopReadyPriority s" "uxTopReadyPriority (upd_list l g s) = uxTopReadyPriority s"
  "xNextTaskUnblockTime (upd_item p f s) = xNextTaskUnblockTime s" "xNextTaskUnblockTime (upd_list l g s) = xNextTaskUnblockTime s"
  by (simp_all add: upd_item_def upd_list_def)

lemma cont_upd [simp]:
  "(\<And>x. pxContainer (f x) = pxContainer x) \<Longrightarrow> cont (upd_item p f s) = cont s"
  "cont (upd_item (Item i) (pxContainer_update (\<lambda>_. c)) s) = (cont s)(i := c)" "cont (upd_list l g s) = cont s"
  by (auto simp: cont_def upd_item_def upd_list_def fun_eq_iff)

lemma value_upd [simp]:
  "(\<And>x. xItemValue (f x) = xItemValue x) \<Longrightarrow> item_value (upd_item p f s) = item_value s"
  "item_value (upd_list l g s) = item_value s"
  by (auto simp: item_value_def upd_item_def upd_list_def fun_eq_iff)

lemma owner_upd [simp]:
  "(\<And>x. pvOwner (f x) = pvOwner x) \<Longrightarrow> listGET_LIST_ITEM_OWNER j (upd_item p f s) = listGET_LIST_ITEM_OWNER j s"
  "listGET_LIST_ITEM_OWNER j (upd_list l g s) = listGET_LIST_ITEM_OWNER j s"
  by (auto simp: listGET_LIST_ITEM_OWNER_def upd_item_def upd_list_def)

lemma uxListRemove_frame:
  "uxListRemove i s = Some (s', k) \<Longrightarrow> kept s s' \<and> uxTopReadyPriority s' = uxTopReadyPriority s \<and>
     xNextTaskUnblockTime s' = xNextTaskUnblockTime s"
  by (auto simp: uxListRemove_def Let_def split: option.splits)

text \<open>An item is taken out.\<close>

lemma remove_moved:
  assumes l: "cont s i = Some l" and g: "good s l"
  shows "\<exists>s' k. uxListRemove i s = Some (s', k) \<and> listREMOVE_ITEM i s = Some s' \<and> moved s i None s'"
proof -
  obtain xs where xs: "in_ring s l xs" "delay_list l \<Longrightarrow> sorted (map (item_value s) xs)" using g by (auto simp: good_def)
  have i: "i \<in> set xs" using ringD(3) [OF xs(1), of i] l by (simp add: cont_def)
  from uxListRemove_ring [OF xs(1) i]
  obtain s' where s': "uxListRemove i s = Some (s', of_nat (length xs - 1))" "in_ring s' l (remove1 i xs)"
    "\<forall>k zs. k \<noteq> l \<longrightarrow> in_ring s k zs \<longrightarrow> in_ring s' k zs" "pxContainer (xItems s' (Item i)) = None"
    "\<forall>j. j \<noteq> i \<longrightarrow> pxContainer (xItems s' (Item j)) = pxContainer (xItems s (Item j))"
    "\<forall>j. item_value s' j = item_value s j \<and> pvOwner (xItems s' (Item j)) = pvOwner (xItems s (Item j))" by blast
  have v: "item_value s' = item_value s" using s'(6) by (simp add: fun_eq_iff)
  have "good s' k" if k: "good s k" for k
  proof (cases "k = l")
    case True
    then show ?thesis using s'(2) xs(2) v by (auto simp: good_def intro!: exI [of _ "remove1 i xs"] sorted_map_remove1)
  next
    case False
    then show ?thesis using k s'(3) v by (auto simp: good_def)
  qed
  moreover have "cont s' = (cont s)(i := None)" using s'(4,5) by (auto simp: cont_def)
  ultimately have "moved s i None s'"
    using uxListRemove_frame [OF s'(1)] v s'(6) by (simp add: moved_def listGET_LIST_ITEM_OWNER_def)
  then show ?thesis using s'(1) by (simp add: listREMOVE_ITEM_eq)
qed

text \<open>An item is put at the end, before the index.\<close>

lemma insert_end_moved:
  assumes i: "cont s i = None" and g: "good s l" and l: "\<not> delay_list l"
  shows "moved s i (Some l) (vListInsertEnd l i s)"
proof -
  let ?s = "vListInsertEnd l i s"
  obtain xs where xs: "in_ring s l xs" using g by (auto simp: good_def)
  obtain as bs where sp: "xs = as @ bs" "pxIndex (xLists s l) = hd (map Item bs @ [End l])"
  proof (cases "pxIndex (xLists s l)")
    case (End k)
    then show ?thesis using that [of xs "[]"] ringD(6) [OF xs] by auto
  next
    case (Item j)
    then obtain as bs where "xs = as @ j # bs" using ringD(6) [OF xs] by (auto dest: split_list)
    then show ?thesis using that [of as "j # bs"] Item by simp
  qed
  have n: "pxContainer (xItems s (Item i)) = None" using i by (simp add: cont_def)
  note r = vListInsertEnd_ring [OF xs [unfolded sp(1)] n sp(2)]
  have fr: "kept s ?s" "uxTopReadyPriority ?s = uxTopReadyPriority s" "xNextTaskUnblockTime ?s = xNextTaskUnblockTime s"
    "cont ?s = (cont s)(i := Some l)" "item_value ?s = item_value s" "listGET_LIST_ITEM_OWNER j ?s = listGET_LIST_ITEM_OWNER j s" for j
    by (simp_all add: vListInsertEnd_def Let_def)
  have "good ?s k" if k: "good s k" for k
  proof (cases "k = l")
    case True
    then show ?thesis using r(1) l by (auto simp: good_def)
  next
    case False
    then show ?thesis using k r(2) fr(5) by (auto simp: good_def)
  qed
  then show ?thesis using fr by (simp add: moved_def)
qed

text \<open>An item is put in its place.\<close>

lemma vListInsert_frame:
  assumes "vListInsert l i s = Some s'"
  shows "kept s s'" "uxTopReadyPriority s' = uxTopReadyPriority s" "xNextTaskUnblockTime s' = xNextTaskUnblockTime s"
    "cont s' = (cont s)(i := Some l)" "item_value s' = item_value s" "listGET_LIST_ITEM_OWNER j s' = listGET_LIST_ITEM_OWNER j s"
  using assms by (auto simp: vListInsert_def list_link_def Let_def)

lemma insert_moved:
  assumes i: "cont s i = None" and g: "good s l"
  shows "\<exists>s'. vListInsert l i s = Some s' \<and> moved s i (Some l) s'"
proof -
  obtain xs where xs: "in_ring s l xs" "delay_list l \<Longrightarrow> sorted (map (item_value s) xs)" using g by (auto simp: good_def)
  have n: "pxContainer (xItems s (Item i)) = None" using i by (simp add: cont_def)
  let ?ys = "takeWhile (\<lambda>j. item_value s j \<le> item_value s i) xs @ i # dropWhile (\<lambda>j. item_value s j \<le> item_value s i) xs"
  obtain s' where s': "vListInsert l i s = Some s'" "in_ring s' l ?ys" "\<forall>k zs. k \<noteq> l \<longrightarrow> in_ring s k zs \<longrightarrow> in_ring s' k zs"
    using vListInsert_ring [OF xs(1) n] by blast
  note f = vListInsert_frame [OF s'(1)]
  have "good s' k" if k: "good s k" for k
  proof (cases "k = l")
    case True
    then show ?thesis using s'(2) sorted_key_insert [OF xs(2), of i] f(5) unfolding good_def by metis
  next
    case False
    then show ?thesis using k s'(3) f(5) by (auto simp: good_def)
  qed
  then show ?thesis using s'(1) f by (simp add: moved_def)
qed

section \<open>The invariant of the lists\<close>

fun task_of :: "task_item \<Rightarrow> nat" where
  "task_of (StateItem t) = t"
| "task_of (EventItem t) = t"

text \<open>The lists that are in use, with \<open>n\<close> priorities and the event lists \<open>E\<close>.\<close>

fun alive :: "nat \<Rightarrow> nat set \<Rightarrow> task_list \<Rightarrow> bool" where
  "alive n E (pxReadyTasksLists p) \<longleftrightarrow> p < n"
| "alive n E (EventList e) \<longleftrightarrow> e \<in> E"
| "alive n E _ \<longleftrightarrow> True"

text \<open>Which item may be in which list.\<close>

fun fits_in :: "frtos \<Rightarrow> task_item \<Rightarrow> task_list \<Rightarrow> bool" where
  "fits_in s (StateItem t) (pxReadyTasksLists p) \<longleftrightarrow> p = unat (priority t s) \<and> priority t s \<le> uxTopReadyPriority s"
| "fits_in s (StateItem t) xPendingReadyList \<longleftrightarrow> False"
| "fits_in s (StateItem t) (EventList e) \<longleftrightarrow> False"
| "fits_in s (StateItem t) _ \<longleftrightarrow> True"
| "fits_in s (EventItem t) xPendingReadyList \<longleftrightarrow> True"
| "fits_in s (EventItem t) (EventList e) \<longleftrightarrow> True"
| "fits_in s (EventItem t) _ \<longleftrightarrow> False"

text \<open>A TCB is larger than four bytes, so fewer than \<open>2 ^ 30\<close> of them have an address.\<close>

definition item_ok :: "nat \<Rightarrow> frtos \<Rightarrow> task_item \<Rightarrow> bool" where
  "item_ok n s i \<longleftrightarrow> listGET_LIST_ITEM_OWNER i s = Some (task_of i) \<and> task_of i < 2 ^ 30 \<and> unat (priority (task_of i) s) < n"

definition frtos_ok :: "nat \<Rightarrow> nat set \<Rightarrow> frtos \<Rightarrow> bool" where
  "frtos_ok n E s \<longleftrightarrow> (\<forall>l. alive n E l \<longrightarrow> good s l) \<and>
     (\<forall>i l. cont s i = Some l \<longrightarrow> alive n E l \<and> fits_in s i l \<and> item_ok n s i) \<and>
     delay_list (pxDelayedTaskList s) \<and> delay_list (pxOverflowDelayedTaskList s) \<and>
     pxDelayedTaskList s \<noteq> pxOverflowDelayedTaskList s \<and> pxCurrentTCB s \<noteq> None \<and> unat (uxTopReadyPriority s) < n"

lemma frtos_okD:
  assumes "frtos_ok n E s"
  shows "alive n E l \<Longrightarrow> good s l" "cont s i = Some l \<Longrightarrow> alive n E l \<and> fits_in s i l \<and> item_ok n s i"
    "delay_list (pxDelayedTaskList s)" "delay_list (pxOverflowDelayedTaskList s)"
    "pxDelayedTaskList s \<noteq> pxOverflowDelayedTaskList s" "\<exists>c. pxCurrentTCB s = Some c"
    "unat (uxTopReadyPriority s) < n"
  using assms unfolding frtos_ok_def by blast+

lemma delay_alive: "delay_list l \<Longrightarrow> alive n E l"
  by (auto simp: delay_list_def)

lemma delay_fits: "delay_list l \<Longrightarrow> fits_in s i l \<Longrightarrow> \<exists>t. i = StateItem t"
  by (cases i) (auto simp: delay_list_def)

text \<open>The order of the wake times: those of this turn of the counter, and those of the next.\<close>

definition time_ok :: "frtos \<Rightarrow> bool" where
  "time_ok s \<longleftrightarrow>
     (\<forall>i. cont s i = Some (pxDelayedTaskList s) \<longrightarrow> xTickCount s < item_value s i \<and> xNextTaskUnblockTime s \<le> item_value s i) \<and>
     (\<forall>i. cont s i = Some (pxOverflowDelayedTaskList s) \<longrightarrow> item_value s i < xTickCount s)"

definition frtos_inv :: "nat \<Rightarrow> nat set \<Rightarrow> frtos \<Rightarrow> bool" where
  "frtos_inv n E s \<longleftrightarrow> frtos_ok n E s \<and> time_ok s"

lemma list_items: "in_ring s l xs \<Longrightarrow> i \<in> set xs \<longleftrightarrow> cont s i = Some l"
  using ringD(3) by (fastforce simp: cont_def)

lemma ring_length:
  assumes ok: "frtos_ok n E s" and r: "in_ring s l xs"
  shows "length xs < 2 ^ 32"
proof -
  have "set xs \<subseteq> StateItem ` {..<2 ^ 30} \<union> EventItem ` {..<2 ^ 30}"
  proof
    fix i assume "i \<in> set xs"
    then have "task_of i < 2 ^ 30" using frtos_okD(2) [OF ok] list_items [OF r] by (auto simp: item_ok_def)
    then show "i \<in> StateItem ` {..<2 ^ 30} \<union> EventItem ` {..<2 ^ 30}" by (cases i) auto
  qed
  then have "card (set xs) \<le> card (StateItem ` {..<2 ^ 30} \<union> EventItem ` {..<2 ^ 30})" by (intro card_mono) simp_all
  also have "\<dots> \<le> card (StateItem ` {..<2 ^ 30}) + card (EventItem ` {..<2 ^ 30 :: nat})" by (rule card_Un_le)
  also have "\<dots> \<le> 2 ^ 30 + 2 ^ 30" by (intro add_mono order_trans [OF card_image_le]) simp_all
  finally show ?thesis using distinct_card [OF ringD(1) [OF r]] by simp
qed

lemma empty_iff:
  assumes ok: "frtos_ok n E s" and l: "alive n E l"
  shows "listLIST_IS_EMPTY l s \<longleftrightarrow> (\<forall>i. cont s i \<noteq> Some l)"
proof -
  obtain xs where xs: "in_ring s l xs" using frtos_okD(1) [OF ok l] by (auto simp: good_def)
  have "uxNumberOfItems (xLists s l) = 0 \<longleftrightarrow> length xs = 0"
    using ringD(4) [OF xs] ring_length [OF ok xs] by (cases "length xs = 0") (simp_all add: word_of_nat_eq_0_iff nat_dvd_not_less del: length_0_conv)
  also have "\<dots> \<longleftrightarrow> (\<forall>i. i \<notin> set xs)" by (cases xs) auto
  finally show ?thesis using list_items [OF xs] by (simp add: listLIST_IS_EMPTY_def)
qed

lemma head_item:
  assumes g: "good s l" and j: "cont s j = Some l"
  obtains i where "cont s i = Some l" "listGET_OWNER_OF_HEAD_ENTRY l s = listGET_LIST_ITEM_OWNER i s"
    "listGET_ITEM_VALUE_OF_HEAD_ENTRY l s = item_value s i"
    "\<And>k. delay_list l \<Longrightarrow> cont s k = Some l \<Longrightarrow> item_value s i \<le> item_value s k"
proof -
  obtain xs where xs: "in_ring s l xs" "delay_list l \<Longrightarrow> sorted (map (item_value s) xs)" using g by (auto simp: good_def)
  obtain i ys where ys: "xs = i # ys" using j list_items [OF xs(1)] by (cases xs) auto
  have h: "pxNext (xItems s (End l)) = Item i"
    using ring_neighbours(1) [of s l "[]" xs] xs(1) by (simp add: ys nxt_def)
  show ?thesis
  proof (rule that [of i])
    show "cont s i = Some l" using list_items [OF xs(1), of i] by (simp add: ys)
    show "listGET_OWNER_OF_HEAD_ENTRY l s = listGET_LIST_ITEM_OWNER i s" "listGET_ITEM_VALUE_OF_HEAD_ENTRY l s = item_value s i"
      by (simp_all add: listGET_OWNER_OF_HEAD_ENTRY_def listGET_LIST_ITEM_OWNER_def listGET_ITEM_VALUE_OF_HEAD_ENTRY_def h item_value_def)
    show "item_value s i \<le> item_value s k" if "delay_list l" "cont s k = Some l" for k
      using xs(2) [OF that(1)] list_items [OF xs(1), of k] that(2) by (auto simp: ys)
  qed
qed

section \<open>One item at a time\<close>

lemma moved_ok:
  assumes ok: "frtos_ok n E s" and m: "moved s i k s'"
    and k: "\<And>l. k = Some l \<Longrightarrow> alive n E l \<and> fits_in s i l \<and> item_ok n s i"
  shows "frtos_ok n E s'"
proof -
  note f = movedD [OF m] and kp = keptD [OF movedD(1) [OF m]]
  have "fits_in s' = fits_in s"
  proof (intro ext)
    show "fits_in s' i l = fits_in s i l" for i l by (cases i; cases l) (simp_all add: kp f(2))
  qed
  moreover have "item_ok n s' = item_ok n s" by (simp add: fun_eq_iff item_ok_def kp f(6))
  ultimately show ?thesis using ok k unfolding frtos_ok_def f(2,4) kp using f(7) by (auto split: if_splits)
qed

text \<open>Assignments to the other variables.\<close>

lemma lists_cong:
  fixes s s' :: frtos
  assumes "xItems s' = xItems s" "xLists s' = xLists s"
  shows "cont s' = cont s" "item_value s' = item_value s" "good s' = good s"
    "listGET_LIST_ITEM_OWNER j s' = listGET_LIST_ITEM_OWNER j s" "listLIST_IS_EMPTY l s' = listLIST_IS_EMPTY l s"
    "listGET_OWNER_OF_HEAD_ENTRY l s' = listGET_OWNER_OF_HEAD_ENTRY l s"
    "listGET_ITEM_VALUE_OF_HEAD_ENTRY l s' = listGET_ITEM_VALUE_OF_HEAD_ENTRY l s" "in_ring s' = in_ring s"
proof -
  have a: "nxt s' = nxt s" "prv s' = prv s" by (simp_all add: fun_eq_iff nxt_def prv_def assms)
  have "in_ring s' l xs = in_ring s l xs" for l xs unfolding in_ring_def a assms ..
  then show r: "in_ring s' = in_ring s" by (simp add: fun_eq_iff)
  show v: "item_value s' = item_value s" by (simp add: fun_eq_iff item_value_def assms)
  have "good s' k = good s k" for k unfolding good_def r v ..
  then show "good s' = good s" by (simp add: fun_eq_iff)
  show "cont s' = cont s" by (simp add: fun_eq_iff cont_def assms)
qed (simp_all add: assms listGET_LIST_ITEM_OWNER_def listLIST_IS_EMPTY_def listGET_OWNER_OF_HEAD_ENTRY_def listGET_ITEM_VALUE_OF_HEAD_ENTRY_def)

lemma ok_cong:
  assumes ok: "frtos_ok n E s" and l: "xItems s' = xItems s" "xLists s' = xLists s" and t: "xTCBs s' = xTCBs s"
    and p: "uxTopReadyPriority s \<le> uxTopReadyPriority s'" "unat (uxTopReadyPriority s') < n"
    and d: "delay_list (pxDelayedTaskList s')" "delay_list (pxOverflowDelayedTaskList s')"
      "pxDelayedTaskList s' \<noteq> pxOverflowDelayedTaskList s'" and c: "pxCurrentTCB s' \<noteq> None"
  shows "frtos_ok n E s'"
proof -
  have pr: "priority u s' = priority u s" for u by (simp add: priority_def t)
  have "fits_in s i k \<Longrightarrow> fits_in s' i k" for i k using p(1) by (cases i; cases k) (auto simp: pr)
  moreover have "item_ok n s' = item_ok n s" by (simp add: fun_eq_iff item_ok_def pr lists_cong [OF l])
  ultimately have "cont s' i = Some k \<Longrightarrow> alive n E k \<and> fits_in s' i k \<and> item_ok n s' i" for i k
    using frtos_okD(2) [OF ok, of i k] lists_cong(1) [OF l] by simp
  moreover have "alive n E k \<Longrightarrow> good s' k" for k using frtos_okD(1) [OF ok] lists_cong(3) [OF l] by simp
  ultimately show ?thesis using d c p(2) by (simp add: frtos_ok_def)
qed

lemma top_ok: "frtos_ok n E s \<Longrightarrow> uxTopReadyPriority s \<le> p \<Longrightarrow> unat p < n \<Longrightarrow> frtos_ok n E (s\<lparr>uxTopReadyPriority := p\<rparr>)"
  by (rule ok_cong [of n E s]) (use frtos_okD in auto)

lemma next_ok: "frtos_ok n E s \<Longrightarrow> frtos_ok n E (s\<lparr>xNextTaskUnblockTime := x\<rparr>)"
  by (rule ok_cong [of n E s]) (use frtos_okD in auto)

text \<open>A task is made ready.\<close>

lemma add_ready:
  assumes ok: "frtos_ok n E s" and c: "cont s (StateItem t) = None" and t: "item_ok n s (StateItem t)"
  defines "s' \<equiv> prvAddTaskToReadyList t s"
  shows "frtos_ok n E s'" "kept s s'" "cont s' = (cont s)(StateItem t \<mapsto> pxReadyTasksLists (unat (priority t s)))"
    "item_value s' = item_value s" "xNextTaskUnblockTime s' = xNextTaskUnblockTime s"
    "listGET_LIST_ITEM_OWNER j s' = listGET_LIST_ITEM_OWNER j s"
proof -
  let ?u = "if priority t s > uxTopReadyPriority s then s\<lparr>uxTopReadyPriority := priority t s\<rparr> else s"
  let ?l = "pxReadyTasksLists (unat (priority t s))"
  have u: "frtos_ok n E ?u" using ok top_ok [OF ok, of "priority t s"] t by (simp add: item_ok_def)
  have k: "kept s ?u" by (simp add: kept_def)
  have e: "cont ?u = cont s" "item_value ?u = item_value s" "priority t ?u = priority t s" "xNextTaskUnblockTime ?u = xNextTaskUnblockTime s"
    "listGET_LIST_ITEM_OWNER j ?u = listGET_LIST_ITEM_OWNER j s" for j
    using lists_cong(1,2,4) [of ?u s] by (simp_all add: priority_def)
  have s': "s' = vListInsertEnd ?l (StateItem t) ?u"
    unfolding s'_def prvAddTaskToReadyList_def Let_def listINSERT_END_eq e(3) ..
  have l: "alive n E ?l" using t by (simp add: item_ok_def)
  have m: "moved ?u (StateItem t) (Some ?l) s'"
    unfolding s' by (rule insert_end_moved) (use c e(1) frtos_okD(1) [OF u l] in \<open>simp_all add: delay_list_def\<close>)
  note f = movedD [OF m]
  have "fits_in ?u (StateItem t) ?l" by (simp add: e(3)) auto
  moreover have "item_ok n ?u (StateItem t)" using t e by (simp add: item_ok_def)
  ultimately show "frtos_ok n E s'" using moved_ok [OF u m] l by simp
  show "kept s s'" by (rule kept_trans [OF k f(1)])
  show "cont s' = (cont s)(StateItem t \<mapsto> ?l)" "item_value s' = item_value s"
    "xNextTaskUnblockTime s' = xNextTaskUnblockTime s" "listGET_LIST_ITEM_OWNER j s' = listGET_LIST_ITEM_OWNER j s"
    using f(3-6) e by simp_all
qed

section \<open>The tick\<close>

text \<open>Which tasks a tick unblocks, and what it leaves of the others.\<close>

definition due :: "frtos \<Rightarrow> TickType \<Rightarrow> nat \<Rightarrow> bool" where
  "due s now t \<longleftrightarrow> cont s (StateItem t) = Some (pxDelayedTaskList s) \<and> item_value s (StateItem t) \<le> now"

definition unblocked :: "frtos \<Rightarrow> TickType \<Rightarrow> frtos \<Rightarrow> bool" where
  "unblocked s now s' \<longleftrightarrow> kept s s' \<and> item_value s' = item_value s \<and>
     (\<forall>t. cont s' (StateItem t) = (if due s now t then Some (pxReadyTasksLists (unat (priority t s))) else cont s (StateItem t))) \<and>
     (\<forall>t. cont s' (EventItem t) = (if due s now t then None else cont s (EventItem t))) \<and>
     (\<forall>i. cont s' i = Some (pxDelayedTaskList s) \<longrightarrow> xNextTaskUnblockTime s' \<le> item_value s i)"

text \<open>One turn of the loop.\<close>

lemma unblock_one:
  assumes ok: "frtos_ok n E s" and t: "cont s (StateItem t) = Some (pxDelayedTaskList s)"
  obtains s1 s2 where "listREMOVE_ITEM (StateItem t) s = Some s1"
    "(if listLIST_ITEM_CONTAINER (EventItem t) s1 \<noteq> None then listREMOVE_ITEM (EventItem t) s1 else Some s1) = Some s2"
    "frtos_ok n E (prvAddTaskToReadyList t s2)" "kept s (prvAddTaskToReadyList t s2)"
    "item_value (prvAddTaskToReadyList t s2) = item_value s"
    "cont (prvAddTaskToReadyList t s2) =
       (cont s)(StateItem t \<mapsto> pxReadyTasksLists (unat (priority t s)), EventItem t := None)"
proof -
  have al: "alive n E (pxDelayedTaskList s)" "item_ok n s (StateItem t)" using frtos_okD(2) [OF ok t] by simp_all
  obtain s1 where s1: "listREMOVE_ITEM (StateItem t) s = Some s1" "moved s (StateItem t) None s1"
    using remove_moved [OF t frtos_okD(1) [OF ok al(1)]] by blast
  have ok1: "frtos_ok n E s1" using moved_ok [OF ok s1(2)] by simp
  note f1 = movedD [OF s1(2)]
  have "\<exists>s2. (if listLIST_ITEM_CONTAINER (EventItem t) s1 \<noteq> None then listREMOVE_ITEM (EventItem t) s1 else Some s1) = Some s2 \<and>
      frtos_ok n E s2 \<and> kept s1 s2 \<and> item_value s2 = item_value s1 \<and> cont s2 = (cont s1)(EventItem t := None) \<and>
      (\<forall>j. listGET_LIST_ITEM_OWNER j s2 = listGET_LIST_ITEM_OWNER j s1)"
  proof (cases "cont s1 (EventItem t)")
    case None
    then show ?thesis using ok1 by (auto simp: listLIST_ITEM_CONTAINER_def cont_def fun_eq_iff)
  next
    case (Some l)
    then have "good s1 l" using frtos_okD(1,2) [OF ok1] by blast
    then obtain s2 where s2: "listREMOVE_ITEM (EventItem t) s1 = Some s2" "moved s1 (EventItem t) None s2"
      using remove_moved [OF Some] by blast
    note f2 = movedD [OF s2(2)]
    show ?thesis using Some s2(1) moved_ok [OF ok1 s2(2)] f2 by (auto simp: listLIST_ITEM_CONTAINER_def cont_def)
  qed
  then obtain s2 where s2: "(if listLIST_ITEM_CONTAINER (EventItem t) s1 \<noteq> None then listREMOVE_ITEM (EventItem t) s1 else Some s1) = Some s2"
    "frtos_ok n E s2" "kept s1 s2" "item_value s2 = item_value s1" "cont s2 = (cont s1)(EventItem t := None)"
    "\<And>j. listGET_LIST_ITEM_OWNER j s2 = listGET_LIST_ITEM_OWNER j s1" by blast
  have k2: "kept s s2" by (rule kept_trans [OF f1(1) s2(3)])
  have pr: "priority u s2 = priority u s" for u by (rule keptD(14) [OF k2])
  have it: "item_ok n s2 (StateItem t)" using al(2) s2(6) f1(6) by (simp add: item_ok_def pr)
  have "cont s2 (StateItem t) = None" by (simp add: s2(5) f1(4))
  note a = add_ready [OF s2(2) this it]
  show ?thesis
  proof (rule that [OF s1(1) s2(1) a(1)])
    show "kept s (prvAddTaskToReadyList t s2)" by (rule kept_trans [OF k2 a(2)])
    show "item_value (prvAddTaskToReadyList t s2) = item_value s" by (simp add: a(4) s2(4) f1(5))
    show "cont (prvAddTaskToReadyList t s2) =
       (cont s)(StateItem t \<mapsto> pxReadyTasksLists (unat (priority t s)), EventItem t := None)"
      by (auto simp: a(3) s2(5) f1(4) pr fun_eq_iff)
  qed
qed

lemma head_of_delayed:
  assumes ok: "frtos_ok n E s" and j: "cont s j = Some (pxDelayedTaskList s)"
  obtains t where "cont s (StateItem t) = Some (pxDelayedTaskList s)" "\<not> listLIST_IS_EMPTY (pxDelayedTaskList s) s"
    "listGET_OWNER_OF_HEAD_ENTRY (pxDelayedTaskList s) s = Some t"
    "listGET_ITEM_VALUE_OF_HEAD_ENTRY (pxDelayedTaskList s) s = item_value s (StateItem t)"
    "\<And>k. cont s k = Some (pxDelayedTaskList s) \<Longrightarrow> item_value s (StateItem t) \<le> item_value s k"
proof -
  let ?D = "pxDelayedTaskList s"
  have al: "alive n E ?D" "delay_list ?D" using frtos_okD(3) [OF ok] delay_alive by blast+
  obtain i where i: "cont s i = Some ?D" "listGET_OWNER_OF_HEAD_ENTRY ?D s = listGET_LIST_ITEM_OWNER i s"
    "listGET_ITEM_VALUE_OF_HEAD_ENTRY ?D s = item_value s i"
    "\<And>k. cont s k = Some ?D \<Longrightarrow> item_value s i \<le> item_value s k"
    using head_item [OF frtos_okD(1) [OF ok al(1)] j] al(2) by metis
  obtain t where t: "i = StateItem t" using delay_fits [OF al(2)] frtos_okD(2) [OF ok i(1)] by blast
  have "listGET_OWNER_OF_HEAD_ENTRY ?D s = Some t" using frtos_okD(2) [OF ok i(1)] i(2) by (simp add: t item_ok_def)
  then show ?thesis using that [of t] i(1,3,4) empty_iff [OF ok al(1)] unfolding t by blast
qed

lemma tick_unblock_stop:
  assumes ok: "frtos_ok n E s" and nd: "\<And>t. \<not> due s now t"
  shows "\<exists>x. tick_unblock now sw s = Some (s\<lparr>xNextTaskUnblockTime := x\<rparr>, sw) \<and>
    (\<forall>i. cont s i = Some (pxDelayedTaskList s) \<longrightarrow> x \<le> item_value s i)"
proof (cases "\<exists>j. cont s j = Some (pxDelayedTaskList s)")
  case False
  then have "listLIST_IS_EMPTY (pxDelayedTaskList s) s"
    using empty_iff [OF ok delay_alive [OF frtos_okD(3) [OF ok]]] by blast
  then show ?thesis using False by (subst tick_unblock.simps) auto
next
  case True
  then obtain t where t: "cont s (StateItem t) = Some (pxDelayedTaskList s)" "\<not> listLIST_IS_EMPTY (pxDelayedTaskList s) s"
    "listGET_OWNER_OF_HEAD_ENTRY (pxDelayedTaskList s) s = Some t"
    "\<And>k. cont s k = Some (pxDelayedTaskList s) \<Longrightarrow> item_value s (StateItem t) \<le> item_value s k"
    using head_of_delayed [OF ok] by metis
  have "now < item_value s (StateItem t)" using nd [of t] t(1) by (simp add: due_def)
  then have "tick_unblock now sw s = Some (s\<lparr>xNextTaskUnblockTime := item_value s (StateItem t)\<rparr>, sw)"
    using t(2,3) by (subst tick_unblock.simps) (simp add: listGET_LIST_ITEM_VALUE_def item_value_def)
  then show ?thesis using t(4) by blast
qed

lemma tick_unblock_next:
  assumes ok: "frtos_ok n E s" and d: "due s now u"
  obtains t s' sw' where "due s now t" "tick_unblock now sw s = tick_unblock now sw' s'" "frtos_ok n E s'" "kept s s'"
    "item_value s' = item_value s"
    "cont s' = (cont s)(StateItem t \<mapsto> pxReadyTasksLists (unat (priority t s)), EventItem t := None)"
proof -
  obtain t where t: "cont s (StateItem t) = Some (pxDelayedTaskList s)" "\<not> listLIST_IS_EMPTY (pxDelayedTaskList s) s"
    "listGET_OWNER_OF_HEAD_ENTRY (pxDelayedTaskList s) s = Some t"
    "\<And>k. cont s k = Some (pxDelayedTaskList s) \<Longrightarrow> item_value s (StateItem t) \<le> item_value s k"
    using head_of_delayed [OF ok, of "StateItem u"] d by (auto simp: due_def)
  have le: "item_value s (StateItem t) \<le> now" using t(4) [of "StateItem u"] d unfolding due_def by (meson order_trans)
  obtain s1 s2 where u: "listREMOVE_ITEM (StateItem t) s = Some s1"
    "(if listLIST_ITEM_CONTAINER (EventItem t) s1 \<noteq> None then listREMOVE_ITEM (EventItem t) s1 else Some s1) = Some s2"
    "frtos_ok n E (prvAddTaskToReadyList t s2)" "kept s (prvAddTaskToReadyList t s2)"
    "item_value (prvAddTaskToReadyList t s2) = item_value s"
    "cont (prvAddTaskToReadyList t s2) =
       (cont s)(StateItem t \<mapsto> pxReadyTasksLists (unat (priority t s)), EventItem t := None)"
    using unblock_one [OF ok t(1)] .
  let ?s = "prvAddTaskToReadyList t s2"
  obtain c where c: "pxCurrentTCB ?s = Some c" using frtos_okD(6) [OF u(3)] by blast
  have "\<not> now < item_value s (StateItem t)" using le by (simp add: not_less)
  then have "tick_unblock now sw s = tick_unblock now (sw \<or> priority t ?s > priority c ?s) ?s"
    using t(2,3) u(1,2) c by (subst tick_unblock.simps) (simp add: listGET_LIST_ITEM_VALUE_def item_value_def Let_def)
  then show ?thesis using that [OF _ _ u(3-6)] t(1) le by (auto simp: due_def)
qed

lemma due_finite: "frtos_ok n E s \<Longrightarrow> finite {t. due s now t}"
proof -
  assume ok: "frtos_ok n E s"
  have "{t. due s now t} \<subseteq> {..<2 ^ 30}" using frtos_okD(2) [OF ok] by (fastforce simp: due_def item_ok_def)
  then show ?thesis by (rule finite_subset) simp
qed

lemma tick_unblock_run:
  assumes "frtos_ok n E s"
  shows "\<exists>s' sw'. tick_unblock now sw s = Some (s', sw') \<and> frtos_ok n E s' \<and> unblocked s now s'"
  using assms
proof (induction "card {t. due s now t}" arbitrary: s sw rule: less_induct)
  case less
  note ok = less.prems
  show ?case
  proof (cases "\<exists>u. due s now u")
    case False
    then obtain x where x: "tick_unblock now sw s = Some (s\<lparr>xNextTaskUnblockTime := x\<rparr>, sw)"
      "\<forall>i. cont s i = Some (pxDelayedTaskList s) \<longrightarrow> x \<le> item_value s i" using tick_unblock_stop [OF ok] by blast
    let ?s = "s\<lparr>xNextTaskUnblockTime := x\<rparr>"
    have "unblocked s now ?s" using False x(2) lists_cong(1,2) [of ?s s] by (simp add: unblocked_def kept_def)
    then show ?thesis using x(1) next_ok [OF ok] by blast
  next
    case True
    then obtain u where u: "due s now u" by blast
    obtain t s1 sw1 where r: "due s now t" "tick_unblock now sw s = tick_unblock now sw1 s1" "frtos_ok n E s1" "kept s s1"
      "item_value s1 = item_value s"
      "cont s1 = (cont s)(StateItem t \<mapsto> pxReadyTasksLists (unat (priority t s)), EventItem t := None)"
      by (rule tick_unblock_next [OF ok u, of sw])
    note k = keptD [OF r(4)]
    have du: "due s1 now u \<longleftrightarrow> due s now u \<and> u \<noteq> t" for u
    proof -
      have "pxReadyTasksLists p \<noteq> pxDelayedTaskList s" for p using frtos_okD(3) [OF ok] by (auto simp: delay_list_def)
      then show ?thesis unfolding due_def k r(5,6) by (cases "u = t") simp_all
    qed
    have "{u. due s1 now u} = {u. due s now u} - {t}" by (auto simp: du)
    then have "card {u. due s1 now u} < card {u. due s now u}"
      using due_finite [OF ok] r(1) by (simp only:) (intro card_Diff1_less, simp_all)
    then obtain s' sw' where i: "tick_unblock now sw1 s1 = Some (s', sw')" "frtos_ok n E s'" "unblocked s1 now s'"
      using less.hyps [OF _ r(3)] by blast
    have "unblocked s now s'"
      using i(3) kept_trans [OF r(4)] r(1) unfolding unblocked_def du r(5,6) k by auto
    then show ?thesis using r(2) i(1,2) by auto
  qed
qed

text \<open>Between the increment of the counter and the loop: what is due has the value of the counter.\<close>

definition time_mid :: "frtos \<Rightarrow> bool" where
  "time_mid s \<longleftrightarrow>
     (\<forall>i. cont s i = Some (pxDelayedTaskList s) \<longrightarrow> xTickCount s \<le> item_value s i \<and> xNextTaskUnblockTime s \<le> item_value s i) \<and>
     (\<forall>i. cont s i = Some (pxOverflowDelayedTaskList s) \<longrightarrow> item_value s i < xTickCount s)"

lemma reset_next:
  assumes ok: "frtos_ok n E s"
  shows "\<exists>x. prvResetNextTaskUnblockTime s = s\<lparr>xNextTaskUnblockTime := x\<rparr> \<and>
    (\<forall>i. cont s i = Some (pxDelayedTaskList s) \<longrightarrow> x \<le> item_value s i)"
proof (cases "\<exists>j. cont s j = Some (pxDelayedTaskList s)")
  case False
  then have "listLIST_IS_EMPTY (pxDelayedTaskList s) s"
    using empty_iff [OF ok delay_alive [OF frtos_okD(3) [OF ok]]] by blast
  then show ?thesis using False by (auto simp: prvResetNextTaskUnblockTime_def)
next
  case True
  then obtain t where "\<not> listLIST_IS_EMPTY (pxDelayedTaskList s) s"
    "listGET_ITEM_VALUE_OF_HEAD_ENTRY (pxDelayedTaskList s) s = item_value s (StateItem t)"
    "\<And>k. cont s k = Some (pxDelayedTaskList s) \<Longrightarrow> item_value s (StateItem t) \<le> item_value s k"
    using head_of_delayed [OF ok] by metis
  then show ?thesis by (auto simp: prvResetNextTaskUnblockTime_def)
qed

definition counted :: "frtos \<Rightarrow> frtos" where
  "counted s = (let s = s\<lparr>xTickCount := xTickCount s + 1\<rparr> in if xTickCount s = 0 then taskSWITCH_DELAYED_LISTS s else s)"

lemma max_plus: "w + 1 = 0 \<Longrightarrow> \<not> w < v" for v w :: TickType
  using word_order.extremum [of v] by (metis add_eq_0_iff2 linorder_not_le)

lemma less_plus: "w < v \<Longrightarrow> w + 1 \<le> v" for v w :: TickType
  by (rule inc_le)

lemma plus_greater: "w + 1 \<noteq> 0 \<Longrightarrow> w < w + 1" for w :: TickType
  using inc_less_eq_triv_imp [of w] by (cases "w + 1 \<le> w") auto

lemma counted_mid:
  assumes inv: "frtos_inv n E s"
  defines "s1 \<equiv> counted s"
  shows "frtos_ok n E s1" "time_mid s1" "cont s1 = cont s" "item_value s1 = item_value s" "xTickCount s1 = xTickCount s + 1"
    "xTCBs s1 = xTCBs s" "uxSchedulerSuspended s1 = uxSchedulerSuspended s" "xYieldPending s1 = xYieldPending s"
    "pxCurrentTCB s1 = pxCurrentTCB s" "xPendedTicks s1 = xPendedTicks s" "uxCurrentNumberOfTasks s1 = uxCurrentNumberOfTasks s"
    "xNumOfOverflows s1 = xNumOfOverflows s + (if xTickCount s + 1 = 0 then 1 else 0)"
proof -
  have ok: "frtos_ok n E s" and tm: "time_ok s" using inv by (simp_all add: frtos_inv_def)
  note d = frtos_okD(3-7) [OF ok]
  have all: "frtos_ok n E s1 \<and> time_mid s1 \<and> cont s1 = cont s \<and> item_value s1 = item_value s \<and> xTickCount s1 = xTickCount s + 1 \<and>
    xTCBs s1 = xTCBs s \<and> uxSchedulerSuspended s1 = uxSchedulerSuspended s \<and> xYieldPending s1 = xYieldPending s \<and>
    pxCurrentTCB s1 = pxCurrentTCB s \<and> xPendedTicks s1 = xPendedTicks s \<and> uxCurrentNumberOfTasks s1 = uxCurrentNumberOfTasks s \<and>
    xNumOfOverflows s1 = xNumOfOverflows s + (if xTickCount s + 1 = 0 then 1 else 0)"
  proof (cases "xTickCount s + 1 = 0")
    case False
    then have s1: "s1 = s\<lparr>xTickCount := xTickCount s + 1\<rparr>" by (simp add: s1_def counted_def Let_def)
    have "frtos_ok n E s1" by (rule ok_cong [OF ok]) (use d in \<open>auto simp: s1\<close>)
    moreover have "cont s1 = cont s" "item_value s1 = item_value s" using lists_cong(1,2) [of s1 s] by (simp_all add: s1)
    moreover have "time_mid s1"
      using tm less_plus plus_greater [OF False] less_trans unfolding time_mid_def time_ok_def calculation(2,3)
      by (auto simp: s1)
    ultimately show ?thesis using False by (simp add: s1)
  next
    case True
    let ?u = "s\<lparr>xTickCount := 0, pxDelayedTaskList := pxOverflowDelayedTaskList s,
      pxOverflowDelayedTaskList := pxDelayedTaskList s, xNumOfOverflows := xNumOfOverflows s + 1\<rparr>"
    have s1: "s1 = prvResetNextTaskUnblockTime ?u" using True by (simp add: s1_def counted_def Let_def taskSWITCH_DELAYED_LISTS_def)
    have u: "frtos_ok n E ?u" by (rule ok_cong [OF ok]) (use d in auto)
    have c: "cont ?u = cont s" "item_value ?u = item_value s" using lists_cong(1,2) [of ?u s] by simp_all
    obtain x where x: "s1 = ?u\<lparr>xNextTaskUnblockTime := x\<rparr>" "\<forall>i. cont s i = Some (pxOverflowDelayedTaskList s) \<longrightarrow> x \<le> item_value s i"
      using reset_next [OF u] unfolding s1 c by auto
    have o: "frtos_ok n E s1" unfolding x(1) by (rule next_ok [OF u])
    have c1: "cont s1 = cont s" "item_value s1 = item_value s" using lists_cong(1,2) [of s1 s] by (simp_all add: x(1))
    have "cont s i \<noteq> Some (pxDelayedTaskList s)" for i using tm max_plus [OF True] by (auto simp: time_ok_def)
    then have "time_mid s1" using x(2) unfolding time_mid_def c1 by (simp add: x(1))
    then show ?thesis using o c1 True by (simp add: x(1))
  qed
  then show "frtos_ok n E s1" "time_mid s1" "cont s1 = cont s" "item_value s1 = item_value s" "xTickCount s1 = xTickCount s + 1"
    "xTCBs s1 = xTCBs s" "uxSchedulerSuspended s1 = uxSchedulerSuspended s" "xYieldPending s1 = xYieldPending s"
    "pxCurrentTCB s1 = pxCurrentTCB s" "xPendedTicks s1 = xPendedTicks s" "uxCurrentNumberOfTasks s1 = uxCurrentNumberOfTasks s"
    "xNumOfOverflows s1 = xNumOfOverflows s + (if xTickCount s + 1 = 0 then 1 else 0)"
    by simp_all
qed

text \<open>The ticks a delayed task still has to wait: the difference wraps around with the counter.\<close>

definition ticks_left :: "frtos \<Rightarrow> nat \<Rightarrow> TickType option" where
  "ticks_left s t = (case cont s (StateItem t) of
     Some l \<Rightarrow> if delay_list l then Some (item_value s (StateItem t) - xTickCount s) else None | None \<Rightarrow> None)"

text \<open>What a tick does to a task.\<close>

definition ticked :: "frtos \<Rightarrow> frtos \<Rightarrow> bool" where
  "ticked s s' \<longleftrightarrow> xTickCount s' = xTickCount s + 1 \<and> xTCBs s' = xTCBs s \<and> pxCurrentTCB s' = pxCurrentTCB s \<and>
     uxSchedulerSuspended s' = uxSchedulerSuspended s \<and> xPendedTicks s' = xPendedTicks s \<and>
     uxCurrentNumberOfTasks s' = uxCurrentNumberOfTasks s \<and>
     xNumOfOverflows s' = xNumOfOverflows s + (if xTickCount s + 1 = 0 then 1 else 0) \<and>
     (\<forall>t. if ticks_left s t = Some 1
          then cont s' (StateItem t) = Some (pxReadyTasksLists (unat (priority t s))) \<and> cont s' (EventItem t) = None
          else ticks_left s' t = map_option (\<lambda>r. r - 1) (ticks_left s t) \<and>
               cont s' (StateItem t) = cont s (StateItem t) \<and> cont s' (EventItem t) = cont s (EventItem t))"

lemma unblocked_refl:
  assumes "time_mid s" and "now < xNextTaskUnblockTime s"
  shows "unblocked s now s"
proof -
  have "\<not> due s now t" for t
    using assms less_le_trans [of now "xNextTaskUnblockTime s" "item_value s (StateItem t)"]
    by (auto simp: due_def time_mid_def not_le)
  then show ?thesis using assms(1) by (simp add: unblocked_def time_mid_def)
qed

lemma ticked_unblocked:
  assumes inv: "frtos_inv n E s" and ok: "frtos_ok n E s'" and u: "unblocked (counted s) (xTickCount s + 1) s'"
  shows "frtos_inv n E s' \<and> ticked s s'"
proof -
  let ?s = "counted s" and ?now = "xTickCount s + 1"
  note m = counted_mid [OF inv]
  have k: "kept ?s s'" and v: "item_value s' = item_value s" using u by (simp_all add: unblocked_def m(4))
  note kd = keptD [OF k]
  note d = frtos_okD(3-5) [OF m(1)]
  have c: "cont s' (StateItem t) = (if due ?s ?now t then Some (pxReadyTasksLists (unat (priority t s))) else cont s (StateItem t))"
    "cont s' (EventItem t) = (if due ?s ?now t then None else cont s (EventItem t))" for t
    using u m(6) by (simp_all add: unblocked_def m(3) priority_def)
  have st: "\<exists>t. i = StateItem t" if "cont s' i = Some l" "delay_list l" for i l
    using frtos_okD(2) [OF ok that(1)] delay_fits [OF that(2)] by blast
  have ge: "?now \<le> item_value s i \<and> xNextTaskUnblockTime ?s \<le> item_value s i" if "cont s i = Some (pxDelayedTaskList ?s)" for i
    using m(2) that by (simp add: time_mid_def m(3-5))
  have lt: "item_value s i < ?now" if "cont s i = Some (pxOverflowDelayedTaskList ?s)" for i
    using m(2) that by (simp add: time_mid_def m(3-5))
  have due: "due ?s ?now t \<longleftrightarrow> cont s (StateItem t) = Some (pxDelayedTaskList ?s) \<and> item_value s (StateItem t) = ?now" for t
    using ge [of "StateItem t"] by (auto simp: due_def m(3,4))
  have "time_ok s'"
    unfolding time_ok_def kd m(5) v
  proof (intro conjI allI impI)
    fix i assume i: "cont s' i = Some (pxDelayedTaskList ?s)"
    obtain t where t: "i = StateItem t" using st [OF i d(1)] by blast
    then have nd: "\<not> due ?s ?now t" "cont s i = Some (pxDelayedTaskList ?s)" using i d(1) by (auto simp: c delay_list_def split: if_splits)
    then show "?now < item_value s i" using ge [of i] due [of t] by (auto simp: t)
    show "xNextTaskUnblockTime s' \<le> item_value s i" using u i by (simp add: unblocked_def m(4))
  next
    fix i assume i: "cont s' i = Some (pxOverflowDelayedTaskList ?s)"
    obtain t where t: "i = StateItem t" using st [OF i d(2)] by blast
    then have "cont s i = Some (pxOverflowDelayedTaskList ?s)" using i d(2) by (auto simp: c delay_list_def split: if_splits)
    then show "item_value s i < ?now" by (rule lt)
  qed
  moreover have "if ticks_left s t = Some 1
      then cont s' (StateItem t) = Some (pxReadyTasksLists (unat (priority t s))) \<and> cont s' (EventItem t) = None
      else ticks_left s' t = map_option (\<lambda>r. r - 1) (ticks_left s t) \<and>
        cont s' (StateItem t) = cont s (StateItem t) \<and> cont s' (EventItem t) = cont s (EventItem t)" for t
  proof (cases "due ?s ?now t")
    case True
    then have "ticks_left s t = Some 1" using d(1) due [of t] by (simp add: ticks_left_def)
    then show ?thesis using True by (simp add: c)
  next
    case False
    have "ticks_left s t \<noteq> Some 1"
    proof
      assume a: "ticks_left s t = Some 1"
      then obtain l where l: "cont s (StateItem t) = Some l" "delay_list l" "item_value s (StateItem t) = ?now"
        by (auto simp: ticks_left_def algebra_simps split: option.splits if_splits)
      then have "l = pxDelayedTaskList ?s \<or> l = pxOverflowDelayedTaskList ?s" using d by (auto simp: delay_list_def)
      then show False using False l due [of t] lt [of "StateItem t"] by auto
    qed
    moreover have "ticks_left s' t = map_option (\<lambda>r. r - 1) (ticks_left s t)"
      using False by (auto simp: ticks_left_def c v kd m(5) split: option.splits)
    ultimately show ?thesis using False by (simp add: c)
  qed
  ultimately show ?thesis using ok m(5-) by (simp add: frtos_inv_def ticked_def kd)
qed

lemma counted_eq:
  "counted s = (if xTickCount s + 1 = 0 then taskSWITCH_DELAYED_LISTS (s\<lparr>xTickCount := xTickCount s + 1\<rparr>)
     else s\<lparr>xTickCount := xTickCount s + 1\<rparr>)"
  by (simp add: counted_def Let_def)

lemma tick_counted:
  assumes "uxSchedulerSuspended s = 0"
  shows "xTaskIncrementTick s =
    do {
      (u, sw) \<leftarrow> (if xTickCount s + 1 \<ge> xNextTaskUnblockTime (counted s) then tick_unblock (xTickCount s + 1) False (counted s)
                 else Some (counted s, False));
      c \<leftarrow> pxCurrentTCB u;
      Some (u, (sw \<or> listCURRENT_LIST_LENGTH (pxReadyTasksLists (unat (priority c u))) u > 1) \<or> xYieldPending u)
    }"
  unfolding xTaskIncrementTick_def counted_eq Let_def assms by (simp only: if_True refl)

text \<open>The tick returns in every state of the invariant, keeps it, and counts every task down by one.\<close>

lemma tick_ticked:
  assumes inv: "frtos_inv n E s" and r: "uxSchedulerSuspended s = 0"
  shows "\<exists>s' sw. xTaskIncrementTick s = Some (s', sw) \<and> frtos_inv n E s' \<and> ticked s s'"
proof -
  let ?s = "counted s" and ?now = "xTickCount s + 1"
  note m = counted_mid [OF inv]
  have "\<exists>s' sw'. (if ?now \<ge> xNextTaskUnblockTime ?s then tick_unblock ?now False ?s else Some (?s, False)) = Some (s', sw') \<and>
      frtos_ok n E s' \<and> unblocked ?s ?now s'"
  proof (cases "?now \<ge> xNextTaskUnblockTime ?s")
    case True
    then show ?thesis using tick_unblock_run [OF m(1), of ?now False] by simp
  next
    case False
    then have "unblocked ?s ?now ?s" using unblocked_refl [OF m(2), of ?now] by (simp add: not_le)
    then show ?thesis using False m(1) by (intro exI [of _ ?s] exI [of _ False]) simp
  qed
  then obtain s' sw' where s': "(if ?now \<ge> xNextTaskUnblockTime ?s then tick_unblock ?now False ?s else Some (?s, False)) = Some (s', sw')"
    "frtos_ok n E s'" "unblocked ?s ?now s'" by blast
  obtain c where "pxCurrentTCB s' = Some c" using frtos_okD(6) [OF s'(2)] by blast
  then have "\<exists>sw. xTaskIncrementTick s = Some (s', sw)"
    unfolding tick_counted [OF r] s'(1) by simp
  then show ?thesis using ticked_unblocked [OF inv s'(2,3)] by blast
qed

end
