(* ===== verification/FRTOS_TaskRun.thy ===== *)
theory FRTOS_TaskRun
  imports FRTOS_TaskInv
begin

text \<open>
  The scheduler of FreeRTOS as it runs: the choice of the next task, ticks and context switches in any
  order, how long a delay lasts, and time-outs across overflows of the tick counter.
\<close>

section \<open>The choice of the next task\<close>

definition is_ready :: "frtos \<Rightarrow> nat \<Rightarrow> bool" where
  "is_ready s t \<longleftrightarrow> cont s (StateItem t) = Some (pxReadyTasksLists (unat (priority t s)))"

lemma ready_iff: "frtos_ok n E s \<Longrightarrow> cont s (StateItem t) = Some (pxReadyTasksLists p) \<Longrightarrow> is_ready s t \<and> p = unat (priority t s)"
  using frtos_okD(2) [of n E s "StateItem t" "pxReadyTasksLists p"] by (simp add: is_ready_def)

text \<open>The loop down to the first list that is not empty.\<close>

lemma count_down:
  fixes P :: "UBaseType \<Rightarrow> bool"
  assumes "\<not> P q" and "q \<le> m"
  shows "\<exists>p. while_option P (\<lambda>p. p - 1) m = Some p \<and> \<not> P p \<and> p \<le> m \<and> (\<forall>r. p < r \<longrightarrow> r \<le> m \<longrightarrow> P r)"
  using assms(2)
proof (induction "unat m" arbitrary: m)
  case 0
  then have "m = 0" by (simp add: unat_eq_0)
  then show ?case using assms(1) 0 by (subst while_option_unfold) auto
next
  case (Suc k)
  show ?case
  proof (cases "P m")
    case False
    then show ?thesis by (subst while_option_unfold) auto
  next
    case True
    have k: "unat (m - 1) = k" using Suc.hyps(2) by (metis Suc_eq_plus1 add_diff_cancel_right' diff_Suc_1 unat_minus_one word_gt_0 unat_0 nat.simps(3))
    have le: "r \<le> m \<Longrightarrow> r \<noteq> m \<Longrightarrow> r \<le> m - 1" for r :: UBaseType
      using Suc.hyps(2) k by (simp add: word_le_nat_alt word_unat_eq_iff)
    have "q \<le> m - 1" using le [OF Suc.prems] True assms(1) by auto
    from Suc.hyps(1) [OF k [symmetric] this]
    obtain p where p: "while_option P (\<lambda>p. p - 1) (m - 1) = Some p" "\<not> P p" "p \<le> m - 1"
      "\<forall>r. p < r \<longrightarrow> r \<le> m - 1 \<longrightarrow> P r" by blast
    have "p \<le> m" using p(3) Suc.hyps(2) k by (simp add: word_le_nat_alt)
    moreover have "\<forall>r. p < r \<longrightarrow> r \<le> m \<longrightarrow> P r" using p(4) le True by blast
    ultimately show ?thesis using p(1,2) True by (subst while_option_unfold) simp
  qed
qed

lemma ring_turns:
  assumes r: "in_ring s l xs"
  shows "\<exists>ts. turns s l ts \<and> set ts = set xs"
proof (cases "pxIndex (xLists s l)")
  case (End k)
  then have "pxIndex (xLists s l) = last (End l # map Item [])" using ringD(6) [OF r] by auto
  then show ?thesis using turnsI [of s l "[]" xs] r by auto
next
  case (Item j)
  then obtain as bs where "xs = as @ j # bs" using ringD(6) [OF r] by (auto dest: split_list)
  then show ?thesis using turnsI [of s l "as @ [j]" bs] r Item by (intro exI [of _ "bs @ as @ [j]"]) auto
qed

text \<open>\<open>listGET_OWNER_OF_NEXT_ENTRY\<close> changes the index of its list only.\<close>

lemma next_entry_frame:
  assumes "listGET_OWNER_OF_NEXT_ENTRY l s = (s', ow)"
  shows "kept s s'" "uxTopReadyPriority s' = uxTopReadyPriority s" "xNextTaskUnblockTime s' = xNextTaskUnblockTime s"
    "xItems s' = xItems s" "k \<noteq> l \<Longrightarrow> xLists s' k = xLists s k"
  using assms by (auto simp: listGET_OWNER_OF_NEXT_ENTRY_def Let_def kept_def upd_list_def split: if_splits)

lemma next_entry_good:
  assumes g: "good s l" and i: "cont s i = Some l" and l: "\<not> delay_list l"
  shows "\<exists>s' t. listGET_OWNER_OF_NEXT_ENTRY l s = (s', listGET_LIST_ITEM_OWNER t s) \<and> cont s t = Some l \<and>
    (\<forall>k. good s k \<longrightarrow> good s' k) \<and> (\<exists>us. turns s l (t # us) \<and> turns s' l (us @ [t]))"
proof -
  obtain xs where xs: "in_ring s l xs" using g by (auto simp: good_def)
  obtain ts where ts: "turns s l ts" "set ts = set xs" using ring_turns [OF xs] by blast
  then obtain t us where t: "ts = t # us" using i list_items [OF xs, of i] by (cases ts) auto
  obtain s' where s': "listGET_OWNER_OF_NEXT_ENTRY l s = (s', owner s t)" "turns s' l (us @ [t])" "xItems s' = xItems s"
    using next_entry [of s l t us] ts(1) t by blast
  have v: "item_value s' = item_value s" "nxt s' = nxt s" "prv s' = prv s"
    by (simp_all add: fun_eq_iff item_value_def nxt_def prv_def s'(3))
  have "good s' k" if k: "good s k" for k
  proof (cases "k = l")
    case True
    then show ?thesis using turns_ring [OF s'(2)] l by (auto simp: good_def)
  next
    case False
    have "in_ring s' k ys" if r: "in_ring s k ys" for ys
      by (rule ring_cong [OF r]) (simp_all add: v s'(3) next_entry_frame(5) [OF s'(1) False])
    then show ?thesis using k v(1) by (auto simp: good_def)
  qed
  moreover have "cont s t = Some l" using ts(2) t list_items [OF xs, of t] by auto
  ultimately show ?thesis using s'(1,2) ts(1) t by (auto simp: owner_def listGET_LIST_ITEM_OWNER_def)
qed

lemma switch_picks:
  assumes inv: "frtos_inv n E s" and u: "is_ready s u" and r: "uxSchedulerSuspended s = 0"
  shows "\<exists>s' t us. vTaskSwitchContext s = Some s' \<and> pxCurrentTCB s' = Some t \<and> is_ready s t \<and>
    (\<forall>v. is_ready s v \<longrightarrow> priority v s \<le> priority t s) \<and>
    turns s (pxReadyTasksLists (unat (priority t s))) (StateItem t # us) \<and>
    turns s' (pxReadyTasksLists (unat (priority t s))) (us @ [StateItem t]) \<and>
    frtos_inv n E s' \<and> xItems s' = xItems s \<and> xTCBs s' = xTCBs s \<and> xTickCount s' = xTickCount s \<and>
    xNumOfOverflows s' = xNumOfOverflows s \<and> uxSchedulerSuspended s' = 0 \<and> xPendedTicks s' = xPendedTicks s \<and>
    uxCurrentNumberOfTasks s' = uxCurrentNumberOfTasks s"
proof -
  let ?s = "s\<lparr>xYieldPending := False\<rparr>"
  have ok: "frtos_ok n E s" and tm: "time_ok s" using inv by (simp_all add: frtos_inv_def)
  have ok': "frtos_ok n E ?s" by (rule ok_cong [OF ok]) (use frtos_okD(3-) [OF ok] in auto)
  have c: "cont ?s = cont s" using lists_cong(1) [of ?s s] by simp
  have al: "alive n E (pxReadyTasksLists (unat p))" if "p \<le> uxTopReadyPriority s" for p
    using frtos_okD(7) [OF ok] that by (simp add: word_le_nat_alt)
  have em: "listLIST_IS_EMPTY (pxReadyTasksLists (unat p)) ?s \<longleftrightarrow> (\<forall>i. cont s i \<noteq> Some (pxReadyTasksLists (unat p)))"
    if "p \<le> uxTopReadyPriority s" for p using empty_iff [OF ok' al [OF that]] c by simp
  have rd: "priority v s \<le> uxTopReadyPriority s" if "is_ready s v" for v
    using frtos_okD(2) [OF ok] that by (fastforce simp: is_ready_def)
  obtain p where p: "while_option (\<lambda>p. listLIST_IS_EMPTY (pxReadyTasksLists (unat p)) ?s) (\<lambda>p. p - 1) (uxTopReadyPriority ?s) = Some p"
    "\<not> listLIST_IS_EMPTY (pxReadyTasksLists (unat p)) ?s" "p \<le> uxTopReadyPriority s"
    "\<forall>q. p < q \<longrightarrow> q \<le> uxTopReadyPriority s \<longrightarrow> listLIST_IS_EMPTY (pxReadyTasksLists (unat q)) ?s"
    using count_down [of "\<lambda>p. listLIST_IS_EMPTY (pxReadyTasksLists (unat p)) ?s" "priority u s" "uxTopReadyPriority s"]
      rd [OF u] em [of "priority u s"] u by (auto simp: is_ready_def)
  let ?l = "pxReadyTasksLists (unat p)"
  obtain i where i: "cont ?s i = Some ?l" using p(2) em [OF p(3)] c by auto
  obtain s1 j us where s1: "listGET_OWNER_OF_NEXT_ENTRY ?l ?s = (s1, listGET_LIST_ITEM_OWNER j ?s)" "cont ?s j = Some ?l"
    "\<forall>k. good ?s k \<longrightarrow> good s1 k" "turns ?s ?l (j # us)" "turns s1 ?l (us @ [j])"
    using next_entry_good [OF frtos_okD(1) [OF ok' al [OF p(3)]] i] by (auto simp: delay_list_def)
  note f = next_entry_frame [OF s1(1)]
  obtain t where t: "j = StateItem t" "listGET_LIST_ITEM_OWNER j ?s = Some t"
    using frtos_okD(2) [OF ok' s1(2)] by (cases j) (auto simp: item_ok_def)
  have pt: "is_ready s t" "p = priority t s" using ready_iff [OF ok, of t] s1(2) c t(1) by (auto simp: word_unat_eq_iff)
  let ?t = "s1\<lparr>pxCurrentTCB := Some t, uxTopReadyPriority := p\<rparr>"
  have e: "vTaskSwitchContext s = Some ?t"
    using r p(1) s1(1) t(2) by (simp add: vTaskSwitchContext_def taskSELECT_HIGHEST_PRIORITY_TASK_def)
  have top: "priority v s \<le> p" if "is_ready s v" for v
  proof (rule ccontr)
    assume "\<not> priority v s \<le> p"
    then show False using p(4) rd [OF that] em [OF rd [OF that]] that by (auto simp: is_ready_def not_le)
  qed
  have it: "xItems ?t = xItems s" "good ?t = good s1" "xTCBs ?t = xTCBs s" "pxDelayedTaskList ?t = pxDelayedTaskList s"
    "pxOverflowDelayedTaskList ?t = pxOverflowDelayedTaskList s" "xTickCount ?t = xTickCount s"
    "xNextTaskUnblockTime ?t = xNextTaskUnblockTime s" "xNumOfOverflows ?t = xNumOfOverflows s"
    "uxSchedulerSuspended ?t = uxSchedulerSuspended s" "xPendedTicks ?t = xPendedTicks s"
    "uxCurrentNumberOfTasks ?t = uxCurrentNumberOfTasks s"
    using f(3,4) keptD [OF f(1)] lists_cong(3) [of ?t s1] by simp_all
  have cv: "cont ?t = cont s" "item_value ?t = item_value s" "listGET_LIST_ITEM_OWNER i ?t = listGET_LIST_ITEM_OWNER i s"
    "priority v ?t = priority v s" for i v
    by (simp_all add: fun_eq_iff cont_def item_value_def listGET_LIST_ITEM_OWNER_def priority_def it)
  have "fits_in ?t i k \<and> item_ok n ?t i" if ik: "cont s i = Some k" for i k
  proof -
    have "fits_in s i k \<and> item_ok n s i" using frtos_okD(2) [OF ok ik] by blast
    moreover have "priority v s \<le> p" if "i = StateItem v" "k = pxReadyTasksLists q" for v q
      using ready_iff [OF ok, of v q] top [of v] ik that by simp
    ultimately show ?thesis by (cases i; cases k) (simp_all add: item_ok_def cv)
  qed
  moreover have "good ?t k" if "alive n E k" for k
    using frtos_okD(1) [OF ok' that] s1(3) it(2) by simp
  ultimately have "frtos_ok n E ?t"
    using frtos_okD [OF ok] p(3) unfolding frtos_ok_def it cv by (auto simp: word_le_nat_alt)
  then have "frtos_inv n E ?t" using tm unfolding frtos_inv_def time_ok_def it cv by simp
  moreover have "turns s ?l (StateItem t # us)" "turns ?t ?l (us @ [StateItem t])"
    using s1(4,5) lists_cong(8) [of ?s s] lists_cong(8) [of ?t s1] by (simp_all add: turns_def t(1))
  ultimately show ?thesis using e pt(1) top it r
    by (intro exI [of _ ?t] exI [of _ t] exI [of _ us]) (simp add: pt(2))
qed

section \<open>Ticks and context switches\<close>

text \<open>The interrupts of the kernel in any order: the tick and the one that switches the context.\<close>

datatype kernel_irq = SysTick | PendSV

primrec kernel_irq_step :: "kernel_irq \<Rightarrow> frtos \<Rightarrow> frtos option" where
  "kernel_irq_step SysTick s = xPortSysTickHandler s"
| "kernel_irq_step PendSV s = xPortPendSVHandler s"

primrec kernel_irqs :: "kernel_irq list \<Rightarrow> frtos \<Rightarrow> frtos option" where
  "kernel_irqs [] s = Some s"
| "kernel_irqs (e # es) s = kernel_irq_step e s \<bind> kernel_irqs es"

text \<open>A state between interrupts while the scheduler is not suspended; some task, the idle task, is ready.\<close>

definition runs_ok :: "nat \<Rightarrow> nat set \<Rightarrow> frtos \<Rightarrow> bool" where
  "runs_ok n E s \<longleftrightarrow> frtos_inv n E s \<and> uxSchedulerSuspended s = 0 \<and> (\<exists>t. is_ready s t)"

text \<open>What \<open>k\<close> ticks do to a task.\<close>

definition waits :: "frtos \<Rightarrow> nat \<Rightarrow> nat \<Rightarrow> bool" where
  "waits s t d \<longleftrightarrow> (if d = 0 then is_ready s t else ticks_left s t = Some (of_nat d))"

lemma inv_cong:
  assumes inv: "frtos_inv n E s" and l: "xItems s' = xItems s" "xLists s' = xLists s" and t: "xTCBs s' = xTCBs s"
    and p: "uxTopReadyPriority s' = uxTopReadyPriority s" "pxDelayedTaskList s' = pxDelayedTaskList s"
      "pxOverflowDelayedTaskList s' = pxOverflowDelayedTaskList s" "xTickCount s' = xTickCount s"
      "xNextTaskUnblockTime s' = xNextTaskUnblockTime s" and c: "pxCurrentTCB s' \<noteq> None"
  shows "frtos_inv n E s'"
proof -
  have ok: "frtos_ok n E s" and tm: "time_ok s" using inv by (simp_all add: frtos_inv_def)
  have "frtos_ok n E s'" by (rule ok_cong [OF ok l t]) (use frtos_okD [OF ok] p c in simp_all)
  moreover have "time_ok s'" using tm unfolding time_ok_def lists_cong(1,2) [OF l] p .
  ultimately show ?thesis by (simp add: frtos_inv_def)
qed

lemma pendsv_simps [simp]:
  "cont (s\<lparr>xPendSV := x\<rparr>) = cont s" "priority t (s\<lparr>xPendSV := x\<rparr>) = priority t s"
  by (simp_all add: cont_def priority_def fun_eq_iff)

lemma pendsv_more [simp]:
  "ticks_left (s\<lparr>xPendSV := x\<rparr>) t = ticks_left s t" "is_ready (s\<lparr>xPendSV := x\<rparr>) t = is_ready s t"
  by (simp_all add: ticks_left_def is_ready_def item_value_def split: option.split)

lemma ticks_left_cong: "xItems s' = xItems s \<Longrightarrow> xTickCount s' = xTickCount s \<Longrightarrow> ticks_left s' t = ticks_left s t"
  by (simp add: ticks_left_def cont_def item_value_def split: option.split)

lemma pendsv_inv: "frtos_inv n E s \<Longrightarrow> frtos_inv n E (s\<lparr>xPendSV := x\<rparr>)"
  by (rule inv_cong [of n E s]) (simp_all add: frtos_inv_def frtos_ok_def)

lemma ticked_pendsv: "ticked s s' \<Longrightarrow> ticked s (s'\<lparr>xPendSV := x\<rparr>)"
  unfolding ticked_def by simp

lemma ready_waits: "is_ready s t \<Longrightarrow> ticks_left s t = None"
  by (simp add: is_ready_def ticks_left_def delay_list_def)

lemma ticked_priority: "ticked s s' \<Longrightarrow> priority t s' = priority t s"
  by (simp add: ticked_def priority_def)

lemma ticked_waits:
  assumes tk: "ticked s s'" and w: "waits s t d" and d: "d < 2 ^ 32"
  shows "waits s' t (d - 1)"
proof -
  have f: "if ticks_left s t = Some 1 then cont s' (StateItem t) = Some (pxReadyTasksLists (unat (priority t s)))
      else ticks_left s' t = map_option (\<lambda>r. r - 1) (ticks_left s t) \<and> cont s' (StateItem t) = cont s (StateItem t)"
    using tk unfolding ticked_def by (elim conjE allE [of _ t]) (simp split: if_splits)
  consider "d = 0" | "d = 1" | "1 < d" by linarith
  then show ?thesis
  proof cases
    case 1
    then show ?thesis using f w ready_waits [of s t] ticked_priority [OF tk] by (simp add: waits_def is_ready_def)
  next
    case 2
    then show ?thesis using f w ticked_priority [OF tk] by (simp add: waits_def is_ready_def)
  next
    case 3
    have "unat (of_nat d :: TickType) = d" using d by (simp add: unat_of_nat)
    then have "(of_nat d :: TickType) \<noteq> 1" using 3 by auto
    then show ?thesis using f w 3 by (simp add: waits_def of_nat_diff)
  qed
qed

text \<open>One interrupt.\<close>

lemma SysTick_step:
  assumes s: "runs_ok n E s"
  shows "\<exists>s'. xPortSysTickHandler s = Some s' \<and> runs_ok n E s' \<and> ticked s s'"
proof -
  obtain s' sw where s': "xTaskIncrementTick s = Some (s', sw)" "frtos_inv n E s'" "ticked s s'"
    using tick_ticked [of n E s] s by (auto simp: runs_ok_def)
  obtain t where "is_ready s t" using s by (auto simp: runs_ok_def)
  then have "waits s' t 0" using ticked_waits [OF s'(3), of t 0] by (simp add: waits_def)
  moreover have "uxSchedulerSuspended s' = 0" using s'(3) s by (simp add: ticked_def runs_ok_def)
  ultimately have "runs_ok n E s'" "runs_ok n E (s'\<lparr>xPendSV := True\<rparr>)"
    using s'(2) pendsv_inv by (auto simp: runs_ok_def waits_def)
  then show ?thesis using s'(1,3) ticked_pendsv [OF s'(3)] by (simp add: xPortSysTickHandler_def)
qed

lemma PendSV_step:
  assumes s: "runs_ok n E s"
  shows "\<exists>s'. xPortPendSVHandler s = Some s' \<and> runs_ok n E s' \<and> (\<forall>t d. waits s t d \<longrightarrow> waits s' t d) \<and>
    xTickCount s' = xTickCount s \<and> xNumOfOverflows s' = xNumOfOverflows s"
proof -
  let ?s = "s\<lparr>xPendSV := False\<rparr>"
  obtain u where u: "is_ready ?s u" using s by (auto simp: runs_ok_def)
  obtain s' t where s': "vTaskSwitchContext ?s = Some s'" "is_ready ?s t" "frtos_inv n E s'" "xItems s' = xItems ?s"
    "xTCBs s' = xTCBs ?s" "xTickCount s' = xTickCount ?s" "xNumOfOverflows s' = xNumOfOverflows ?s" "uxSchedulerSuspended s' = 0"
    using switch_picks [OF pendsv_inv u, of n E] s by (auto simp: runs_ok_def)
  have "is_ready s' v = is_ready s v" "ticks_left s' v = ticks_left s v" for v
    using s'(4-6) ticks_left_cong [of s' s v] by (simp_all add: is_ready_def cont_def priority_def)
  then show ?thesis using s' by (auto simp: xPortPendSVHandler_def runs_ok_def waits_def)
qed

text \<open>Any interrupts.\<close>

lemma kernel_irqs_run:
  assumes "runs_ok n E s" and "\<forall>t. w t < 2 ^ 32" and "\<forall>t\<in>T. waits s t (w t)"
  shows "\<exists>s'. kernel_irqs es s = Some s' \<and> runs_ok n E s' \<and> (\<forall>t\<in>T. waits s' t (w t - count_list es SysTick)) \<and>
    (\<exists>m. unat (xTickCount s) + count_list es SysTick = m * 2 ^ 32 + unat (xTickCount s') \<and>
         xNumOfOverflows s' = xNumOfOverflows s + of_nat m)"
  using assms
proof (induction es arbitrary: s w)
  case Nil
  then show ?case by (auto intro!: exI [of _ 0])
next
  case (Cons e es)
  show ?case
  proof (cases e)
    case SysTick
    obtain s1 where s1: "xPortSysTickHandler s = Some s1" "runs_ok n E s1" "ticked s s1" using SysTick_step [OF Cons.prems(1)] by blast
    let ?k = "count_list es SysTick"
    have "\<forall>t\<in>T. waits s1 t (w t - 1)" using ticked_waits [OF s1(3)] Cons.prems(2,3) by blast
    moreover have "\<forall>t. w t - 1 < 2 ^ 32" using Cons.prems(2) by (metis diff_le_self le_less_trans)
    ultimately obtain s' m where s': "kernel_irqs es s1 = Some s'" "runs_ok n E s'" "\<forall>t\<in>T. waits s' t (w t - 1 - ?k)"
      "unat (xTickCount s1) + ?k = m * 2 ^ 32 + unat (xTickCount s')" "xNumOfOverflows s' = xNumOfOverflows s1 + of_nat m"
      using Cons.IH [OF s1(2), of "\<lambda>t. w t - 1"] by blast
    have x: "xTickCount s1 = xTickCount s + 1" "xNumOfOverflows s1 = xNumOfOverflows s + (if xTickCount s + 1 = 0 then 1 else 0)"
      using s1(3) by (simp_all add: ticked_def)
    have "\<exists>m. unat (xTickCount s) + Suc ?k = m * 2 ^ 32 + unat (xTickCount s') \<and> xNumOfOverflows s' = xNumOfOverflows s + of_nat m"
    proof (cases "xTickCount s + 1 = 0")
      case True
      then have "xTickCount s = - 1" by (simp add: eq_neg_iff_add_eq_0)
      then have "unat (xTickCount s) = 2 ^ 32 - 1" by (simp add: unsigned_minus_1_eq_mask mask_eq_exp_minus_1)
      then show ?thesis using s'(4,5) x True by (intro exI [of _ "Suc m"]) simp
    next
      case False
      then have "unat (xTickCount s + 1) = unat (xTickCount s) + 1" using unatSuc [of "xTickCount s"] by (simp add: add.commute)
      then show ?thesis using s'(4,5) x False by (intro exI [of _ m]) simp
    qed
    then show ?thesis using s1(1) s'(1-3) SysTick by simp
  next
    case PendSV
    obtain s1 where s1: "xPortPendSVHandler s = Some s1" "runs_ok n E s1" "\<forall>t d. waits s t d \<longrightarrow> waits s1 t d"
      "xTickCount s1 = xTickCount s" "xNumOfOverflows s1 = xNumOfOverflows s"
      using PendSV_step [OF Cons.prems(1)] by blast
    then show ?thesis using Cons.IH [OF s1(2), of w] Cons.prems(2,3) PendSV by simp
  qed
qed

section \<open>Delays\<close>

text \<open>The value of an item that is in no list is set.\<close>

lemma set_value:
  fixes v :: TickType
  assumes c: "cont s i = None"
  defines "s' \<equiv> listSET_LIST_ITEM_VALUE i v s"
  shows "kept s s'" "uxTopReadyPriority s' = uxTopReadyPriority s" "xNextTaskUnblockTime s' = xNextTaskUnblockTime s"
    "cont s' = cont s" "item_value s' = (item_value s)(i := v)" "listGET_LIST_ITEM_OWNER j s' = listGET_LIST_ITEM_OWNER j s"
    "good s k \<Longrightarrow> good s' k" "frtos_ok n E s \<Longrightarrow> frtos_ok n E s'"
proof -
  show f: "kept s s'" "uxTopReadyPriority s' = uxTopReadyPriority s" "xNextTaskUnblockTime s' = xNextTaskUnblockTime s"
    "cont s' = cont s" and v: "item_value s' = (item_value s)(i := v)"
    and ow: "listGET_LIST_ITEM_OWNER j s' = listGET_LIST_ITEM_OWNER j s" for j
    by (simp_all add: s'_def listSET_LIST_ITEM_VALUE_def) (auto simp: item_value_def upd_item_def)
  show g: "good s' k" if k: "good s k" for k
  proof -
    obtain xs where xs: "in_ring s k xs" "delay_list k \<longrightarrow> sorted (map (item_value s) xs)" using k by (auto simp: good_def)
    have "in_ring s' k xs"
      by (rule ring_cong [OF xs(1)]) (auto simp: s'_def listSET_LIST_ITEM_VALUE_def upd_item_def nxt_def prv_def)
    moreover have mp: "map (item_value s') xs = map (item_value s) xs" using list_items [OF xs(1), of i] c by (auto simp: v)
    ultimately show ?thesis using xs(2) unfolding good_def by (intro exI [of _ xs]) (simp only: mp)
  qed
  show "frtos_ok n E s'" if ok: "frtos_ok n E s"
  proof -
    note kd = keptD [OF f(1)]
    have "fits_in s' = fits_in s"
    proof (intro ext)
      show "fits_in s' i l = fits_in s i l" for i l by (cases i; cases l) (simp_all add: kd f(2))
    qed
    moreover have "item_ok n s' = item_ok n s" by (simp add: fun_eq_iff item_ok_def kd ow)
    ultimately show ?thesis using ok g unfolding frtos_ok_def kd f(2,4) by simp
  qed
qed

text \<open>Where the current task goes when it blocks, and the value its item has there.\<close>

definition blocked_in :: "TickType \<Rightarrow> bool \<Rightarrow> frtos \<Rightarrow> task_list" where
  "blocked_in d forever s =
     (if d = portMAX_DELAY \<and> forever then xSuspendedTaskList
      else if xTickCount s + d < xTickCount s then pxOverflowDelayedTaskList s else pxDelayedTaskList s)"

lemma wake_later: "0 < d \<Longrightarrow> \<not> w + d < w \<Longrightarrow> w < w + d" for w d :: TickType
  by (metis add_cancel_left_right linorder_not_le order_le_less word_not_simps(1))

lemma block_current:
  assumes inv: "frtos_inv n E s" and c: "pxCurrentTCB s = Some c" "cont s (StateItem c) = Some k" and d: "0 < d"
  shows "\<exists>s'. prvAddCurrentTaskToDelayedList d forever s = Some s' \<and> frtos_inv n E s' \<and> kept s s' \<and>
    cont s' = (cont s)(StateItem c \<mapsto> blocked_in d forever s) \<and>
    item_value s' = (if d = portMAX_DELAY \<and> forever then item_value s else (item_value s)(StateItem c := xTickCount s + d))"
proof -
  let ?i = "StateItem c" and ?w = "xTickCount s + d" and ?k = "blocked_in d forever s"
  have ok: "frtos_ok n E s" and tm: "time_ok s" using inv by (simp_all add: frtos_inv_def)
  note D = frtos_okD(3-5) [OF ok]
  have it: "item_ok n s ?i" "alive n E k" using frtos_okD(2) [OF ok c(2)] by auto
  obtain s1 x where s1: "uxListRemove ?i s = Some (s1, x)" "moved s ?i None s1"
    using remove_moved [OF c(2) frtos_okD(1) [OF ok it(2)]] by blast
  note m1 = movedD [OF s1(2)] and k1 = keptD [OF movedD(1) [OF s1(2)]]
  have ok1: "frtos_ok n E s1" using moved_ok [OF ok s1(2)] by simp
  have c1: "cont s1 ?i = None" by (simp add: m1(4))
  have ik: "?k \<noteq> k'" if "k' = pxReadyTasksLists p" for p k' using D that by (auto simp: blocked_in_def delay_list_def)
  have fit: "alive n E ?k \<and> fits_in u ?i ?k" for u
    using D by (auto simp: blocked_in_def delay_list_def)
  show ?thesis
  proof (cases "d = portMAX_DELAY \<and> forever")
    case True
    let ?s = "vListInsertEnd xSuspendedTaskList ?i s1"
    have m: "moved s1 ?i (Some xSuspendedTaskList) ?s"
      by (rule insert_end_moved [OF c1 frtos_okD(1) [OF ok1]]) (simp_all add: delay_list_def)
    note f = movedD [OF m]
    have "frtos_ok n E ?s" using moved_ok [OF ok1 m] it(1) k1(14) m1(6) by (simp add: item_ok_def)
    moreover have "time_ok ?s" using tm unfolding time_ok_def keptD [OF f(1)] k1 f(3-5) m1(3-5) using D by (auto simp: delay_list_def)
    moreover have "prvAddCurrentTaskToDelayedList d forever s = Some ?s"
      using s1(1) c(1) True by (simp add: prvAddCurrentTaskToDelayedList_def listINSERT_END_eq)
    ultimately show ?thesis using True kept_trans [OF m1(1) f(1)] f(4,5) m1(4,5) by (simp add: frtos_inv_def blocked_in_def)
  next
    case False
    let ?u = "listSET_LIST_ITEM_VALUE ?i ?w s1"
    note u = set_value [OF c1, where v = ?w]
    note ku = keptD [OF u(1)]
    have cu: "cont ?u ?i = None" by (simp add: u(4) c1)
    have oku: "frtos_ok n E ?u" by (rule u(8) [OF ok1])
    obtain s2 where s2: "vListInsert ?k ?i ?u = Some s2" "moved ?u ?i (Some ?k) s2"
      using insert_moved [OF cu frtos_okD(1) [OF oku]] fit by blast
    note f = movedD [OF s2(2)]
    have iu: "item_ok n ?u ?i" using it(1) u(6) m1(6) ku(14) k1(14) by (simp add: item_ok_def)
    have ok2: "frtos_ok n E s2" using moved_ok [OF oku s2(2)] fit iu by simp
    have kp: "kept s s2" by (rule kept_trans [OF m1(1) kept_trans [OF u(1) f(1)]])
    have cv: "cont s2 = (cont s)(?i \<mapsto> ?k)" "item_value s2 = (item_value s)(?i := ?w)" "xNextTaskUnblockTime s2 = xNextTaskUnblockTime s"
      by (simp_all add: f(3-5) u(3-5) m1(3-5) fun_eq_iff)
    have nf: "(d = portMAX_DELAY \<and> forever) = False" using False by simp
    let ?s = "if \<not> ?w < xTickCount s \<and> ?w < xNextTaskUnblockTime s then s2\<lparr>xNextTaskUnblockTime := ?w\<rparr> else s2"
    have e: "prvAddCurrentTaskToDelayedList d forever s = Some ?s"
      using s1(1) c(1) s2(1) cv(3) by (cases "?w < xTickCount s") (simp_all add: prvAddCurrentTaskToDelayedList_def blocked_in_def nf ku k1)
    have lc: "cont ?s = cont s2" "item_value ?s = item_value s2" using lists_cong(1,2) [of ?s s2] by simp_all
    have ks: "kept s ?s" using kp by (simp add: kept_def)
    have "time_ok ?s"
      unfolding time_ok_def lc cv keptD [OF ks]
    proof (intro conjI allI impI)
      fix j assume j: "((cont s)(?i \<mapsto> ?k)) j = Some (pxDelayedTaskList s)"
      show "xTickCount s < ((item_value s)(?i := ?w)) j"
      proof (cases "j = ?i")
        case True
        then show ?thesis using j D False wake_later [OF d, of "xTickCount s"] by (auto simp: blocked_in_def split: if_splits)
      next
        case False
        then show ?thesis using j tm by (auto simp: time_ok_def)
      qed
      show "xNextTaskUnblockTime ?s \<le> ((item_value s)(?i := ?w)) j"
      proof (cases "j = ?i")
        case True
        then show ?thesis using j D False cv(3) by (auto simp: blocked_in_def split: if_splits)
      next
        case False
        then have "xNextTaskUnblockTime s \<le> item_value s j" using j tm by (auto simp: time_ok_def)
        then show ?thesis using False cv(3) by (auto intro: order_trans less_imp_le)
      qed
    next
      fix j assume "((cont s)(?i \<mapsto> ?k)) j = Some (pxOverflowDelayedTaskList s)"
      then show "((item_value s)(?i := ?w)) j < xTickCount s"
        using tm D False by (auto simp: time_ok_def blocked_in_def split: if_splits)
    qed
    moreover have "frtos_ok n E ?s" using ok2 next_ok [OF ok2] by simp
    ultimately show ?thesis using e ks False lc cv(1,2) by (auto simp: frtos_inv_def)
  qed
qed

section \<open>Resuming the scheduler\<close>

text \<open>
  A task whose event item is in a list is blocked: its state item is in a list of delayed or of suspended
  tasks.  Such a task is pending when its event item is in the list of the tasks that wait for the scheduler.
\<close>

definition wait_ok :: "frtos \<Rightarrow> bool" where
  "wait_ok s \<longleftrightarrow> (\<forall>t. cont s (EventItem t) \<noteq> None \<longrightarrow>
     (\<exists>l. cont s (StateItem t) = Some l \<and> (delay_list l \<or> l = xSuspendedTaskList)))"

definition pending :: "frtos \<Rightarrow> nat \<Rightarrow> bool" where
  "pending s t \<longleftrightarrow> cont s (EventItem t) = Some xPendingReadyList"

lemma ticked_wait_ok:
  assumes tk: "ticked s s'" and w: "wait_ok s"
  shows "wait_ok s'"
  unfolding wait_ok_def
proof (intro allI impI)
  fix t assume e: "cont s' (EventItem t) \<noteq> None"
  have "if ticks_left s t = Some 1 then cont s' (EventItem t) = None
      else cont s' (StateItem t) = cont s (StateItem t) \<and> cont s' (EventItem t) = cont s (EventItem t)"
    using tk unfolding ticked_def by (elim conjE allE [of _ t]) (simp split: if_splits)
  then show "\<exists>l. cont s' (StateItem t) = Some l \<and> (delay_list l \<or> l = xSuspendedTaskList)"
    using e w by (auto simp: wait_ok_def split: if_splits)
qed

text \<open>What is the same, and where the pending tasks are.\<close>

definition woken :: "(nat \<Rightarrow> bool) \<Rightarrow> frtos \<Rightarrow> frtos \<Rightarrow> bool" where
  "woken P s s' \<longleftrightarrow> xTCBs s' = xTCBs s \<and> xTickCount s' = xTickCount s \<and> xNumOfOverflows s' = xNumOfOverflows s \<and>
     xPendedTicks s' = xPendedTicks s \<and> uxSchedulerSuspended s' = uxSchedulerSuspended s \<and>
     pxCurrentTCB s' = pxCurrentTCB s \<and> uxCurrentNumberOfTasks s' = uxCurrentNumberOfTasks s \<and> item_value s' = item_value s \<and>
     (\<forall>t. cont s' (StateItem t) = (if P t then Some (pxReadyTasksLists (unat (priority t s))) else cont s (StateItem t)) \<and>
          cont s' (EventItem t) = (if P t then None else cont s (EventItem t)))"

lemma woken_priority: "woken P s s' \<Longrightarrow> priority t s' = priority t s"
  by (simp add: woken_def priority_def)

lemma woken_trans: "woken P s s' \<Longrightarrow> woken Q s' s'' \<Longrightarrow> woken (\<lambda>t. P t \<or> Q t) s s''"
  using woken_priority [of P s s'] unfolding woken_def by auto

lemma waits_cong:
  "cont s' (StateItem t) = cont s (StateItem t) \<Longrightarrow> item_value s' = item_value s \<Longrightarrow> xTickCount s' = xTickCount s \<Longrightarrow>
   priority t s' = priority t s \<Longrightarrow> waits s' t d = waits s t d"
  by (simp add: waits_def is_ready_def ticks_left_def split: option.split)

lemma woken_waits: "woken P s s' \<Longrightarrow> \<not> P t \<Longrightarrow> waits s' t d = waits s t d"
  by (rule waits_cong) (simp_all add: woken_priority, simp_all add: woken_def)

lemma woken_ready: "woken P s s' \<Longrightarrow> P t \<Longrightarrow> waits s' t 0"
  using woken_priority [of P s s' t] by (simp add: woken_def waits_def is_ready_def)

lemma woken_wait_ok: "woken P s s' \<Longrightarrow> wait_ok s \<Longrightarrow> wait_ok s'"
  by (auto simp: woken_def wait_ok_def)

text \<open>One task is taken out of both its lists and made ready.\<close>

lemma wake_both:
  assumes inv: "frtos_inv n E s" and e: "cont s (EventItem t) = Some k" and w: "wait_ok s"
  shows "\<exists>s1 s2. listREMOVE_ITEM (EventItem t) s = Some s1 \<and> listREMOVE_ITEM (StateItem t) s1 = Some s2 \<and>
    frtos_inv n E (prvAddTaskToReadyList t s2) \<and> kept s (prvAddTaskToReadyList t s2) \<and> woken (\<lambda>u. u = t) s (prvAddTaskToReadyList t s2)"
proof -
  have ok: "frtos_ok n E s" and tm: "time_ok s" using inv by (simp_all add: frtos_inv_def)
  obtain l where l: "cont s (StateItem t) = Some l" using w e by (auto simp: wait_ok_def)
  have it: "item_ok n s (StateItem t)" "alive n E k" "alive n E l" using frtos_okD(2) [OF ok] l e by blast+
  obtain s1 where s1: "listREMOVE_ITEM (EventItem t) s = Some s1" "moved s (EventItem t) None s1"
    using remove_moved [OF e frtos_okD(1) [OF ok it(2)]] by blast
  have ok1: "frtos_ok n E s1" using moved_ok [OF ok s1(2)] by simp
  note m1 = movedD [OF s1(2)]
  have l1: "cont s1 (StateItem t) = Some l" by (simp add: m1(4) l)
  obtain s2 where s2: "listREMOVE_ITEM (StateItem t) s1 = Some s2" "moved s1 (StateItem t) None s2"
    using remove_moved [OF l1 frtos_okD(1) [OF ok1 it(3)]] by blast
  have ok2: "frtos_ok n E s2" using moved_ok [OF ok1 s2(2)] by simp
  note m2 = movedD [OF s2(2)]
  have k2: "kept s s2" by (rule kept_trans [OF m1(1) m2(1)])
  have pr: "priority u s2 = priority u s" for u by (rule keptD(14) [OF k2])
  have "item_ok n s2 (StateItem t)" "cont s2 (StateItem t) = None" using it(1) by (simp_all add: item_ok_def pr m1(6) m2(4,6))
  note a = add_ready [OF ok2 this(2,1)]
  let ?s = "prvAddTaskToReadyList t s2"
  have ks: "kept s ?s" by (rule kept_trans [OF k2 a(2)])
  have cv: "cont ?s = (cont s)(EventItem t := None, StateItem t \<mapsto> pxReadyTasksLists (unat (priority t s)))"
    "item_value ?s = item_value s" "xNextTaskUnblockTime ?s = xNextTaskUnblockTime s"
    by (simp_all add: a(3-5) m2(3-5) m1(3-5) pr)
  have "time_ok ?s"
    using tm frtos_okD(3,4) [OF ok] unfolding time_ok_def keptD [OF ks] cv by (auto simp: delay_list_def)
  moreover have "woken (\<lambda>u. u = t) s ?s" unfolding woken_def keptD [OF ks] cv by auto
  ultimately show ?thesis using s1(1) s2(1) a(1) ks by (simp add: frtos_inv_def)
qed

lemma yield_inv: "frtos_inv n E s \<Longrightarrow> frtos_inv n E (s\<lparr>xYieldPending := x\<rparr>)"
  by (rule inv_cong [of n E s]) (simp_all add: frtos_inv_def frtos_ok_def)

lemma yield_woken: "woken P s s' \<Longrightarrow> woken P s (s'\<lparr>xYieldPending := x\<rparr>)"
  using lists_cong(1,2) [of "s'\<lparr>xYieldPending := x\<rparr>" s'] by (simp add: woken_def)

lemma resume_ready_run:
  assumes "frtos_inv n E s" and "wait_ok s"
  shows "\<exists>s' x'. resume_ready x s = Some (s', x') \<and> frtos_inv n E s' \<and> woken (pending s) s s'"
  using assms
proof (induction "card {t. pending s t}" arbitrary: s x rule: less_induct)
  case less
  note inv = less.prems(1)
  have ok: "frtos_ok n E s" using inv by (simp add: frtos_inv_def)
  have em: "listLIST_IS_EMPTY xPendingReadyList s \<longleftrightarrow> (\<forall>i. cont s i \<noteq> Some xPendingReadyList)" by (rule empty_iff [OF ok]) simp
  show ?case
  proof (cases "listLIST_IS_EMPTY xPendingReadyList s")
    case True
    then have "woken (pending s) s s" using em by (simp add: woken_def pending_def)
    then show ?thesis using True inv by (subst resume_ready.simps) auto
  next
    case False
    then obtain j where "cont s j = Some xPendingReadyList" using em by blast
    then obtain i where i: "cont s i = Some xPendingReadyList" "listGET_OWNER_OF_HEAD_ENTRY xPendingReadyList s = listGET_LIST_ITEM_OWNER i s"
      using head_item [OF frtos_okD(1) [OF ok]] by (metis alive.simps(5))
    then obtain t where t: "i = EventItem t" "listGET_LIST_ITEM_OWNER i s = Some t"
      using frtos_okD(2) [OF ok i(1)] by (cases i) (auto simp: item_ok_def)
    obtain s1 s2 where w: "listREMOVE_ITEM (EventItem t) s = Some s1" "listREMOVE_ITEM (StateItem t) s1 = Some s2"
      "frtos_inv n E (prvAddTaskToReadyList t s2)" "kept s (prvAddTaskToReadyList t s2)" "woken (\<lambda>u. u = t) s (prvAddTaskToReadyList t s2)"
      using wake_both [OF inv i(1) [unfolded t(1)] less.prems(2)] by blast
    let ?u = "prvAddTaskToReadyList t s2"
    obtain c where c: "pxCurrentTCB ?u = Some c" using frtos_okD(6) [of n E ?u] w(3) by (auto simp: frtos_inv_def)
    let ?v = "if priority t ?u > priority c ?u then ?u\<lparr>xYieldPending := True\<rparr> else ?u"
    have v: "frtos_inv n E ?v" "woken (\<lambda>u. u = t) s ?v" using w(3,5) yield_inv yield_woken by simp_all
    have pv: "pending ?v u \<longleftrightarrow> pending s u \<and> u \<noteq> t" for u using v(2) by (simp add: woken_def pending_def del: if_split)
    have pt: "pending s t" using i(1) t(1) by (simp add: pending_def)
    have "finite {t. pending s t}"
    proof (rule finite_subset)
      show "{t. pending s t} \<subseteq> {..<2 ^ 30}" using frtos_okD(2) [OF ok] by (fastforce simp: pending_def item_ok_def)
    qed simp
    moreover have "{u. pending ?v u} = {u. pending s u} - {t}" by (auto simp: pv)
    ultimately have "card {u. pending ?v u} < card {u. pending s u}" using pt by (simp only:) (intro card_Diff1_less, simp_all)
    then obtain s' x' where r: "resume_ready (Some t) ?v = Some (s', x')" "frtos_inv n E s'" "woken (pending ?v) ?v s'"
      using less.hyps [OF _ v(1) woken_wait_ok [OF v(2) less.prems(2)], of "Some t"] by blast
    have "(\<lambda>u. u = t \<or> pending ?v u) = pending s" using pt by (auto simp: fun_eq_iff pv)
    then have "woken (pending s) s s'" using woken_trans [OF v(2) r(3)] by simp
    moreover have "resume_ready x s = Some (s', x')"
      using False w(1,2) i(2) t c r(1) by (subst resume_ready.simps) simp
    ultimately show ?thesis using r(2) by blast
  qed
qed

lemma yield_ticked: "ticked s s' \<Longrightarrow> ticked s (s'\<lparr>xYieldPending := x\<rparr>)"
  using lists_cong(1) [of "s'\<lparr>xYieldPending := x\<rparr>" s'] ticks_left_cong [of "s'\<lparr>xYieldPending := x\<rparr>" s'] unfolding ticked_def by simp

lemma resume_ticks_run:
  assumes "frtos_inv n E s" and "uxSchedulerSuspended s = 0" and "wait_ok s"
    and "\<forall>t. w t < 2 ^ 32" and "\<forall>t\<in>T. waits s t (w t)" and "\<forall>t. \<not> pending s t"
  shows "\<exists>s'. resume_ticks k s = Some s' \<and> frtos_inv n E s' \<and> uxSchedulerSuspended s' = 0 \<and> wait_ok s' \<and>
    (\<forall>t\<in>T. waits s' t (w t - k)) \<and> (\<forall>t. \<not> pending s' t) \<and> xTickCount s' = xTickCount s + of_nat k \<and>
    pxCurrentTCB s' = pxCurrentTCB s \<and> xTCBs s' = xTCBs s"
  using assms
proof (induction k arbitrary: s w)
  case (Suc k)
  obtain s1 sw where s1: "xTaskIncrementTick s = Some (s1, sw)" "frtos_inv n E s1" "ticked s s1"
    using tick_ticked [OF Suc.prems(1,2)] by blast
  let ?u = "if sw then s1\<lparr>xYieldPending := True\<rparr> else s1"
  have u: "frtos_inv n E ?u" "ticked s ?u" using s1(2,3) yield_inv yield_ticked by simp_all
  have e: "uxSchedulerSuspended ?u = 0" "xTickCount ?u = xTickCount s + 1" "pxCurrentTCB ?u = pxCurrentTCB s" "xTCBs ?u = xTCBs s"
    using u(2) Suc.prems(2) unfolding ticked_def by simp_all
  have np: "\<not> pending ?u t" for t
    using u(2) Suc.prems(6) unfolding ticked_def pending_def by (elim conjE allE [of _ t]) (simp only: split: if_splits, auto)
  have "\<forall>t\<in>T. waits ?u t (w t - 1)" using ticked_waits [OF u(2)] Suc.prems(4,5) by blast
  moreover have "\<forall>t. w t - 1 < 2 ^ 32" using Suc.prems(4) by (metis diff_le_self le_less_trans)
  ultimately obtain s' where s': "resume_ticks k ?u = Some s'" "frtos_inv n E s'" "uxSchedulerSuspended s' = 0" "wait_ok s'"
    "\<forall>t\<in>T. waits s' t (w t - 1 - k)" "\<forall>t. \<not> pending s' t" "xTickCount s' = xTickCount ?u + of_nat k"
    "pxCurrentTCB s' = pxCurrentTCB ?u" "xTCBs s' = xTCBs ?u"
    using Suc.IH [OF u(1) e(1) ticked_wait_ok [OF u(2) Suc.prems(3)], of "\<lambda>t. w t - 1"] np by blast
  have "resume_ticks (Suc k) s = Some s'" using s1(1) s'(1) by simp
  moreover have "xTickCount s' = xTickCount s + of_nat (Suc k)" by (simp only: s'(7) e(2) of_nat_Suc add.assoc)
  ultimately show ?case using s'(2-6,8,9) e(3,4) by simp
qed auto

text \<open>The whole of \<open>xTaskResumeAll\<close> when it is the outermost call.\<close>

lemma resume_all_run:
  assumes inv: "frtos_inv n E s" and w: "wait_ok s" and one: "uxSchedulerSuspended s = 1" and nt: "0 < uxCurrentNumberOfTasks s"
    and d: "\<forall>t. d t < 2 ^ 32" and t: "\<forall>t\<in>T. if pending s t then d t = 0 else waits s t (d t)"
  shows "\<exists>s' y. xTaskResumeAll s = Some (s', y) \<and> frtos_inv n E s' \<and> uxSchedulerSuspended s' = 0 \<and> wait_ok s' \<and>
    (\<forall>t\<in>T. waits s' t (d t - unat (xPendedTicks s))) \<and> (\<forall>t. \<not> pending s' t) \<and> xPendedTicks s' = 0 \<and>
    xTickCount s' = xTickCount s + xPendedTicks s \<and> xTCBs s' = xTCBs s \<and> pxCurrentTCB s' = pxCurrentTCB s"
proof -
  let ?s = "s\<lparr>uxSchedulerSuspended := 0\<rparr>"
  have c0: "cont ?s = cont s" "item_value ?s = item_value s" using lists_cong(1,2) [of ?s s] by simp_all
  have inv0: "frtos_inv n E ?s" by (rule inv_cong [OF inv]) (use inv in \<open>simp_all add: frtos_inv_def frtos_ok_def\<close>)
  have w0: "wait_ok ?s" using w by (simp add: wait_ok_def c0)
  have p0: "pending ?s = pending s" by (simp add: fun_eq_iff pending_def c0)
  obtain s1 x where s1: "resume_ready None ?s = Some (s1, x)" "frtos_inv n E s1" "woken (pending s) ?s s1"
    using resume_ready_run [OF inv0 w0, of None] p0 by auto
  let ?u = "if x \<noteq> None then prvResetNextTaskUnblockTime s1 else s1"
  have ok1: "frtos_ok n E s1" and tm1: "time_ok s1" using s1(2) by (simp_all add: frtos_inv_def)
  obtain z where z: "prvResetNextTaskUnblockTime s1 = s1\<lparr>xNextTaskUnblockTime := z\<rparr>"
    "\<forall>i. cont s1 i = Some (pxDelayedTaskList s1) \<longrightarrow> z \<le> item_value s1 i" using reset_next [OF ok1] by blast
  have cu: "cont ?u = cont s1" "item_value ?u = item_value s1"
    using lists_cong(1,2) [of "s1\<lparr>xNextTaskUnblockTime := z\<rparr>" s1] by (simp_all add: z(1))
  have "time_ok ?u" using tm1 z(2) unfolding time_ok_def cu by (simp add: z(1))
  then have inv1: "frtos_inv n E ?u" using ok1 next_ok [OF ok1] by (simp add: frtos_inv_def z(1))
  have wk: "woken (pending s) ?s ?u" using s1(3) unfolding woken_def cu by (simp add: z(1))
  note wf = wk [unfolded woken_def c0]
  have np: "\<forall>t. \<not> pending ?u t" using wf by (simp add: pending_def)
  have wt: "\<forall>t\<in>T. waits ?u t (d t)"
  proof
    fix t assume tT: "t \<in> T"
    have "waits ?s t e = waits s t e" for e by (rule waits_cong) (simp_all add: c0 priority_def)
    then show "waits ?u t (d t)"
      using woken_waits [OF wk, of t "d t"] woken_ready [OF wk, of t] bspec [OF t tT] by (cases "pending s t") simp_all
  qed
  have su: "uxSchedulerSuspended ?u = 0" "xPendedTicks ?u = xPendedTicks s" "xTickCount ?u = xTickCount s" "xTCBs ?u = xTCBs s"
    "pxCurrentTCB ?u = pxCurrentTCB s" using wf by simp_all
  obtain s2 where s2: "resume_ticks (unat (xPendedTicks s)) ?u = Some s2" "frtos_inv n E s2" "uxSchedulerSuspended s2 = 0" "wait_ok s2"
    "\<forall>t\<in>T. waits s2 t (d t - unat (xPendedTicks s))" "\<forall>t. \<not> pending s2 t" "xTickCount s2 = xTickCount s + xPendedTicks s"
    "pxCurrentTCB s2 = pxCurrentTCB s" "xTCBs s2 = xTCBs s"
    using resume_ticks_run [OF inv1 su(1) woken_wait_ok [OF wk w0] d wt np, of "unat (xPendedTicks s)"] su by auto
  define s3 where "s3 = (if xYieldPending s2 then portYIELD (s2\<lparr>xPendedTicks := 0\<rparr>) else s2\<lparr>xPendedTicks := 0\<rparr>)"
  have pt: "(if xPendedTicks s > 0 then map_option (\<lambda>s. s\<lparr>xPendedTicks := 0\<rparr>) (resume_ticks (unat (xPendedTicks s)) ?u) else Some ?u) =
      Some (s2\<lparr>xPendedTicks := 0\<rparr>)"
  proof (cases "xPendedTicks s = 0")
    case True
    then have "s2 = ?u" using s2(1) by simp
    then show ?thesis using True su(2) by simp
  next
    case False
    then show ?thesis using s2(1) by (simp add: word_gt_0)
  qed
  have "xTaskResumeAll s =
      (if xPendedTicks s > 0 then map_option (\<lambda>s. s\<lparr>xPendedTicks := 0\<rparr>) (resume_ticks (unat (xPendedTicks s)) ?u) else Some ?u) \<bind>
      (\<lambda>s. Some (if xYieldPending s then (portYIELD s, True) else (s, False)))"
    using one nt s1(1) su(2) by (cases x) (simp_all add: xTaskResumeAll_def Let_def)
  then have "xTaskResumeAll s = Some (s3, xYieldPending s2)" unfolding pt by (simp add: s3_def)
  moreover have it: "xItems s3 = xItems s2" "xLists s3 = xLists s2" "xTCBs s3 = xTCBs s2" "uxTopReadyPriority s3 = uxTopReadyPriority s2"
    "pxDelayedTaskList s3 = pxDelayedTaskList s2" "pxOverflowDelayedTaskList s3 = pxOverflowDelayedTaskList s2"
    "xTickCount s3 = xTickCount s2" "xNextTaskUnblockTime s3 = xNextTaskUnblockTime s2" "pxCurrentTCB s3 = pxCurrentTCB s2"
    "uxSchedulerSuspended s3 = uxSchedulerSuspended s2" "xPendedTicks s3 = 0"
    by (simp_all add: s3_def portYIELD_def)
  moreover have "frtos_inv n E s3"
    by (rule inv_cong [OF s2(2)]) (use it s2(2) in \<open>simp_all add: frtos_inv_def frtos_ok_def\<close>)
  moreover have cv: "cont s3 = cont s2" "item_value s3 = item_value s2" using lists_cong(1,2) [OF it(1,2)] .
  moreover have "wait_ok s3" "pending s3 = pending s2" using s2(4) by (simp_all add: wait_ok_def pending_def fun_eq_iff cv)
  moreover have "waits s3 t e = waits s2 t e" for t e by (rule waits_cong) (simp_all add: cv it priority_def)
  ultimately show ?thesis using s2(3,5-9) by (intro exI [of _ s3] exI [of _ "xYieldPending s2"]) (simp only: simp_thms)
qed

end
