(* ===== verification/FRTOS_TaskBoot.thy ===== *)
theory FRTOS_TaskBoot
  imports FRTOS_TaskRun
begin

text \<open>
  The kernel of FreeRTOS from memory that is not initialised to the first task that runs: the creation of
  tasks and of event lists establishes the invariant.
\<close>

section \<open>Items that are in no list\<close>

lemma detached:
  fixes f :: "(task_item, task_list) list_item \<Rightarrow> (task_item, task_list) list_item"
  assumes c: "cont s i = None" "\<And>x. pxContainer x = None \<Longrightarrow> pxContainer (f x) = None"
  defines "s' \<equiv> upd_item (Item i) f s"
  shows "kept s s'" "uxTopReadyPriority s' = uxTopReadyPriority s" "xNextTaskUnblockTime s' = xNextTaskUnblockTime s"
    "cont s' = cont s" "j \<noteq> i \<Longrightarrow> item_value s' j = item_value s j"
    "j \<noteq> i \<Longrightarrow> listGET_LIST_ITEM_OWNER j s' = listGET_LIST_ITEM_OWNER j s"
    "frtos_ok n E s \<Longrightarrow> frtos_ok n E s'" "time_ok s \<Longrightarrow> time_ok s'"
proof -
  show f: "kept s s'" "uxTopReadyPriority s' = uxTopReadyPriority s" "xNextTaskUnblockTime s' = xNextTaskUnblockTime s"
    by (simp_all add: s'_def)
  show ct: "cont s' = cont s" using c by (auto simp: s'_def upd_item_def cont_def)
  show v: "j \<noteq> i \<Longrightarrow> item_value s' j = item_value s j" for j by (simp add: s'_def upd_item_def item_value_def)
  show ow: "j \<noteq> i \<Longrightarrow> listGET_LIST_ITEM_OWNER j s' = listGET_LIST_ITEM_OWNER j s" for j
    by (simp add: s'_def upd_item_def listGET_LIST_ITEM_OWNER_def)
  note kd = keptD [OF f(1)]
  have g: "good s' k" if k: "good s k" for k
  proof -
    obtain xs where xs: "in_ring s k xs" "delay_list k \<longrightarrow> sorted (map (item_value s) xs)" using k by (auto simp: good_def)
    have i: "i \<notin> set xs" using list_items [OF xs(1), of i] c(1) by simp
    have "in_ring s' k xs"
    proof (rule ring_cong [OF xs(1)])
      show "nxt s' p = nxt s p \<and> prv s' p = prv s p" if "p \<in> set (End k # map Item xs)" for p
        using that i by (auto simp: s'_def upd_item_def nxt_def prv_def)
      show "pxContainer (xItems s' (Item j)) = Some k \<longleftrightarrow> pxContainer (xItems s (Item j)) = Some k" for j
        using fun_cong [OF ct, of j] by (simp add: cont_def)
    qed (simp_all add: s'_def upd_item_def)
    moreover have mp: "map (item_value s') xs = map (item_value s) xs"
    proof (rule map_cong)
      show "item_value s' j = item_value s j" if "j \<in> set xs" for j using v [of j] i that by metis
    qed simp
    ultimately show ?thesis using xs(2) unfolding good_def by (intro exI [of _ xs]) (simp only: mp)
  qed
  show "frtos_ok n E s'" if ok: "frtos_ok n E s"
  proof -
    have "fits_in s' = fits_in s"
    proof (intro ext)
      show "fits_in s' i l = fits_in s i l" for i l by (cases i; cases l) (simp_all add: kd f(2))
    qed
    moreover have "item_ok n s' j = item_ok n s j" if "j \<noteq> i" for j using ow [OF that] by (simp add: item_ok_def kd)
    ultimately have "alive n E l \<and> fits_in s' j l \<and> item_ok n s' j" if "cont s j = Some l" for j l
      using frtos_okD(2) [OF ok that] that c(1) by (cases "j = i") simp_all
    then show ?thesis using g frtos_okD [OF ok] unfolding frtos_ok_def kd f(2) ct by simp
  qed
  show "time_ok s'" if "time_ok s"
  proof -
    have "cont s j = Some l \<Longrightarrow> item_value s' j = item_value s j" for j l using v [of j] c(1) by (cases "j = i") simp_all
    then show ?thesis using that unfolding time_ok_def kd f(3) ct by simp
  qed
qed

text \<open>The TCB of a task whose items are in no list is written.\<close>

lemma tcb_written:
  fixes f :: "tskTCB \<Rightarrow> tskTCB"
  assumes c: "cont s (StateItem t) = None" "cont s (EventItem t) = None"
  defines "s' \<equiv> upd_TCB t f s"
  shows "xItems s' = xItems s" "xLists s' = xLists s" "cont s' = cont s" "item_value s' = item_value s"
    "listGET_LIST_ITEM_OWNER j s' = listGET_LIST_ITEM_OWNER j s" "u \<noteq> t \<Longrightarrow> priority u s' = priority u s"
    "frtos_ok n E s \<Longrightarrow> frtos_ok n E s'" "time_ok s \<Longrightarrow> time_ok s'"
proof -
  show l: "xItems s' = xItems s" "xLists s' = xLists s" by (simp_all add: s'_def upd_TCB_def)
  note cg = lists_cong [OF l]
  show "cont s' = cont s" "item_value s' = item_value s" "listGET_LIST_ITEM_OWNER j s' = listGET_LIST_ITEM_OWNER j s" for j by (fact cg)+
  show pr: "u \<noteq> t \<Longrightarrow> priority u s' = priority u s" for u by (simp add: s'_def upd_TCB_def priority_def)
  have o: "uxTopReadyPriority s' = uxTopReadyPriority s" "pxDelayedTaskList s' = pxDelayedTaskList s" "pxCurrentTCB s' = pxCurrentTCB s"
    "pxOverflowDelayedTaskList s' = pxOverflowDelayedTaskList s" "xTickCount s' = xTickCount s" "xNextTaskUnblockTime s' = xNextTaskUnblockTime s"
    by (simp_all add: s'_def upd_TCB_def)
  show "time_ok s \<Longrightarrow> time_ok s'" unfolding time_ok_def cg o .
  show "frtos_ok n E s'" if ok: "frtos_ok n E s"
  proof -
    have "alive n E l \<and> fits_in s' i l \<and> item_ok n s' i" if il: "cont s i = Some l" for i l
    proof -
      have "task_of i \<noteq> t" using il c by (cases i) auto
      then have "priority (task_of i) s' = priority (task_of i) s" by (rule pr)
      then show ?thesis using frtos_okD(2) [OF ok il] by (cases i; cases l) (simp_all add: item_ok_def cg o)
    qed
    then show ?thesis using frtos_okD [OF ok] unfolding frtos_ok_def cg o by simp
  qed
qed

section \<open>Lists\<close>

text \<open>A list that holds nothing is initialised.\<close>

lemma init_list:
  fixes l :: task_list and s :: frtos
  assumes c: "\<And>i. cont s i \<noteq> Some l"
  defines "s' \<equiv> vListInitialise l s"
  shows "kept s s'" "uxTopReadyPriority s' = uxTopReadyPriority s" "xNextTaskUnblockTime s' = xNextTaskUnblockTime s"
    "cont s' = cont s" "item_value s' = item_value s" "listGET_LIST_ITEM_OWNER j s' = listGET_LIST_ITEM_OWNER j s"
    "good s' l" "good s k \<Longrightarrow> good s' k" "in_ring s' l []"
proof -
  show "kept s s'" "uxTopReadyPriority s' = uxTopReadyPriority s" "xNextTaskUnblockTime s' = xNextTaskUnblockTime s"
    by (simp_all add: s'_def vListInitialise_def Let_def)
  show ct: "cont s' = cont s" "item_value s' = item_value s" "listGET_LIST_ITEM_OWNER j s' = listGET_LIST_ITEM_OWNER j s" for j
    by (auto simp: s'_def vListInitialise_def cont_def item_value_def listGET_LIST_ITEM_OWNER_def upd_item_def upd_list_def Let_def)
  show r: "in_ring s' l []" unfolding s'_def by (rule vListInitialise_ring) (use c in \<open>simp add: cont_def\<close>)
  then show g: "good s' l" by (auto simp: good_def)
  show "good s' k" if k: "good s k"
  proof (cases "k = l")
    case False
    have "in_ring s' k xs" if x: "in_ring s k xs" for xs
      by (rule ring_cong [OF x]) (use False in \<open>auto simp: s'_def vListInitialise_def upd_item_def upd_list_def nxt_def prv_def Let_def\<close>)
    then show ?thesis using k by (auto simp: good_def ct)
  qed (use g in simp)
qed

lemma init_ready:
  fixes n :: nat
  assumes c: "\<And>i p. cont s i \<noteq> Some (pxReadyTasksLists p)"
  defines "s' \<equiv> init_ready_lists n s"
  shows "kept s s' \<and> uxTopReadyPriority s' = uxTopReadyPriority s \<and> cont s' = cont s \<and> item_value s' = item_value s \<and>
    (\<forall>j. listGET_LIST_ITEM_OWNER j s' = listGET_LIST_ITEM_OWNER j s) \<and> (\<forall>p<n. good s' (pxReadyTasksLists p))"
  unfolding s'_def
proof (induction n)
  case (Suc m)
  let ?u = "init_ready_lists m s"
  have "cont ?u i \<noteq> Some (pxReadyTasksLists m)" for i using Suc c by simp
  note i = init_list [of ?u "pxReadyTasksLists m", OF this]
  show ?case using Suc i kept_trans [OF _ i(1)] by (auto simp: less_Suc_eq)
qed simp

lemma init_task_lists:
  fixes n :: nat
  assumes c: "\<And>i. cont s i = None"
  defines "s' \<equiv> prvInitialiseTaskLists n s"
  shows "\<And>l. alive n {} l \<Longrightarrow> good s' l" "cont s' = cont s" "item_value s' = item_value s"
    "listGET_LIST_ITEM_OWNER j s' = listGET_LIST_ITEM_OWNER j s" "uxTopReadyPriority s' = uxTopReadyPriority s"
    "xTCBs s' = xTCBs s" "pxCurrentTCB s' = pxCurrentTCB s" "pxDelayedTaskList s' = xDelayedTaskList1" "pxOverflowDelayedTaskList s' = xDelayedTaskList2"
    "xSchedulerRunning s' = xSchedulerRunning s" "uxSchedulerSuspended s' = uxSchedulerSuspended s" "xPendedTicks s' = xPendedTicks s"
    "uxCurrentNumberOfTasks s' = uxCurrentNumberOfTasks s" "xTickCount s' = xTickCount s"
proof -
  define s1 where "s1 = init_ready_lists n s"
  define s2 where "s2 = vListInitialise xDelayedTaskList1 s1"
  define s3 where "s3 = vListInitialise xDelayedTaskList2 s2"
  define s4 where "s4 = vListInitialise xPendingReadyList s3"
  define s5 where "s5 = vListInitialise xSuspendedTaskList s4"
  have r: "kept s s1 \<and> uxTopReadyPriority s1 = uxTopReadyPriority s \<and> cont s1 = cont s \<and> item_value s1 = item_value s \<and>
    (\<forall>j. listGET_LIST_ITEM_OWNER j s1 = listGET_LIST_ITEM_OWNER j s) \<and> (\<forall>p<n. good s1 (pxReadyTasksLists p))"
    unfolding s1_def by (rule init_ready) (simp add: c)
  have "cont s1 i \<noteq> Some l" for i l using r c by simp
  note i2 = init_list [of s1 xDelayedTaskList1, OF this, folded s2_def]
  have "cont s2 i \<noteq> Some l" for i l using r c by (simp add: i2(4))
  note i3 = init_list [of s2 xDelayedTaskList2, OF this, folded s3_def]
  have "cont s3 i \<noteq> Some l" for i l using r c by (simp add: i2(4) i3(4))
  note i4 = init_list [of s3 xPendingReadyList, OF this, folded s4_def]
  have "cont s4 i \<noteq> Some l" for i l using r c by (simp add: i2(4) i3(4) i4(4))
  note i5 = init_list [of s4 xSuspendedTaskList, OF this, folded s5_def]
  have s': "s' = s5\<lparr>pxDelayedTaskList := xDelayedTaskList1, pxOverflowDelayedTaskList := xDelayedTaskList2\<rparr>"
    by (simp add: s'_def prvInitialiseTaskLists_def s1_def s2_def s3_def s4_def s5_def Let_def)
  have lc: "cont s' = cont s5" "item_value s' = item_value s5" "good s' = good s5"
    "listGET_LIST_ITEM_OWNER j s' = listGET_LIST_ITEM_OWNER j s5" for j using lists_cong(1-4) [of s' s5] by (simp_all add: s')
  have k: "kept s s5" using r i2(1) i3(1) i4(1) i5(1) by (meson kept_trans)
  show "cont s' = cont s" "item_value s' = item_value s" "listGET_LIST_ITEM_OWNER j s' = listGET_LIST_ITEM_OWNER j s" for j
    using r by (simp_all add: lc i2(4-6) i3(4-6) i4(4-6) i5(4-6))
  show "uxTopReadyPriority s' = uxTopReadyPriority s" using r by (simp add: s' i2(2) i3(2) i4(2) i5(2))
  show "xTCBs s' = xTCBs s" "pxCurrentTCB s' = pxCurrentTCB s" "pxDelayedTaskList s' = xDelayedTaskList1" "pxOverflowDelayedTaskList s' = xDelayedTaskList2"
    "xSchedulerRunning s' = xSchedulerRunning s" "uxSchedulerSuspended s' = uxSchedulerSuspended s" "xPendedTicks s' = xPendedTicks s"
    "uxCurrentNumberOfTasks s' = uxCurrentNumberOfTasks s" "xTickCount s' = xTickCount s"
    by (simp_all add: s' keptD [OF k])
  show "good s' l" if "alive n {} l" for l
    using that r i2(7) i3(7) i4(7) i5(7) i2(8) i3(8) i4(8) i5(8) by (cases l) (auto simp: lc)
qed

section \<open>Tasks\<close>

text \<open>What the creation of a task leaves: everything but its own TCB and items.\<close>

definition framed :: "nat \<Rightarrow> frtos \<Rightarrow> frtos \<Rightarrow> bool" where
  "framed t s s' \<longleftrightarrow> cont s' = cont s \<and> (\<forall>j. task_of j \<noteq> t \<longrightarrow> item_value s' j = item_value s j \<and> listGET_LIST_ITEM_OWNER j s' = listGET_LIST_ITEM_OWNER j s) \<and>
     (\<forall>u. u \<noteq> t \<longrightarrow> xTCBs s' u = xTCBs s u) \<and> pxCurrentTCB s' = pxCurrentTCB s \<and> uxCurrentNumberOfTasks s' = uxCurrentNumberOfTasks s \<and>
     uxTopReadyPriority s' = uxTopReadyPriority s \<and> uxSchedulerSuspended s' = uxSchedulerSuspended s \<and> xPendedTicks s' = xPendedTicks s \<and>
     xSchedulerRunning s' = xSchedulerRunning s \<and> xTickCount s' = xTickCount s \<and>
     (\<forall>n E. frtos_ok n E s \<longrightarrow> frtos_ok n E s') \<and> (time_ok s \<longrightarrow> time_ok s')"

lemma framed_trans: "framed t s s' \<Longrightarrow> framed t s' s'' \<Longrightarrow> framed t s s''"
  unfolding framed_def by simp

lemma framed_item:
  assumes "cont s i = None" and "task_of i = t" and "\<And>x. pxContainer x = None \<Longrightarrow> pxContainer (f x) = None"
  shows "framed t s (upd_item (Item i) f s)"
proof -
  note d = detached [where f = f, OF assms(1,3)]
  note k = keptD [OF d(1)]
  have ne: "j \<noteq> i" if "task_of j \<noteq> t" for j using that assms(2) by auto
  show ?thesis unfolding framed_def k using d(2,4-8) ne k by simp
qed

lemma framed_tcb:
  assumes "cont s (StateItem t) = None" "cont s (EventItem t) = None"
  shows "framed t s (upd_TCB t f s)"
  using tcb_written [OF assms, where f = f] by (auto simp: framed_def upd_TCB_def)

lemma created_task:
  fixes prio :: UBaseType
  assumes c: "cont s (StateItem t) = None" "cont s (EventItem t) = None" and n: "0 < n" "n < 2 ^ 32" and t: "t < 2 ^ 30"
  defines "s' \<equiv> prvCreateTask n (Some t) prio s"
  shows "framed t s s'" "item_ok n s' (StateItem t)" "item_ok n s' (EventItem t)"
    "priority t s' = (if prio \<ge> of_nat n then of_nat n - 1 else prio)"
    "item_value s' (EventItem t) = of_nat n - priority t s'"
    "xTCBs s' t = \<lparr>uxPriority = priority t s', uxBasePriority = priority t s', uxMutexesHeld = 0, ucNotifyState = 0, ulNotifiedValue = 0\<rparr>"
proof -
  have fi: "framed t s (upd_item (Item i) f u)" if "framed t s u" "task_of i = t" "\<And>x. pxContainer x = None \<Longrightarrow> pxContainer (f x) = None"
    for u i and f :: "(task_item, task_list) list_item \<Rightarrow> (task_item, task_list) list_item"
  proof (rule framed_trans [OF that(1) framed_item [OF _ that(2,3)]])
    show "cont u i = None" using that(1,2) c by (cases i) (auto simp: framed_def)
  qed
  have ft: "framed t s (upd_TCB t f u)" if "framed t s u" for u f
    by (rule framed_trans [OF that framed_tcb]) (use that c in \<open>simp_all add: framed_def\<close>)
  have fr: "framed t s s" by (simp add: framed_def)
  show "framed t s s'"
    unfolding s'_def prvCreateTask_def prvInitialiseNewTask_items_def memset_TCB_def Let_def vListInitialiseItem_def
      listSET_LIST_ITEM_OWNER_def listSET_LIST_ITEM_VALUE_def option.case
    by (intro fi ft fr) simp_all
  show p: "priority t s' = (if prio \<ge> of_nat n then of_nat n - 1 else prio)"
    by (simp add: s'_def prvCreateTask_def prvInitialiseNewTask_items_def memset_TCB_def vListInitialiseItem_def listSET_LIST_ITEM_OWNER_def
        listSET_LIST_ITEM_VALUE_def priority_def upd_TCB_def upd_item_def Let_def)
  show "item_value s' (EventItem t) = of_nat n - priority t s'"
    by (simp add: p) (simp add: s'_def prvCreateTask_def prvInitialiseNewTask_items_def memset_TCB_def vListInitialiseItem_def listSET_LIST_ITEM_OWNER_def
        listSET_LIST_ITEM_VALUE_def item_value_def upd_TCB_def upd_item_def Let_def)
  show "xTCBs s' t = \<lparr>uxPriority = priority t s', uxBasePriority = priority t s', uxMutexesHeld = 0, ucNotifyState = 0, ulNotifiedValue = 0\<rparr>"
    by (simp add: p) (simp add: s'_def prvCreateTask_def prvInitialiseNewTask_items_def memset_TCB_def vListInitialiseItem_def listSET_LIST_ITEM_OWNER_def
        listSET_LIST_ITEM_VALUE_def upd_TCB_def upd_item_def Let_def)
  have o: "listGET_LIST_ITEM_OWNER (StateItem t) s' = Some t" "listGET_LIST_ITEM_OWNER (EventItem t) s' = Some t"
    by (simp_all add: s'_def prvCreateTask_def prvInitialiseNewTask_items_def memset_TCB_def vListInitialiseItem_def listSET_LIST_ITEM_OWNER_def
        listSET_LIST_ITEM_VALUE_def listGET_LIST_ITEM_OWNER_def upd_TCB_def upd_item_def Let_def)
  have un: "unat (of_nat n :: UBaseType) = n" using n by (simp add: unat_of_nat)
  have "unat (priority t s') < n"
  proof (cases "prio \<ge> of_nat n")
    case True
    have "(of_nat n :: UBaseType) \<noteq> 0" using un n by auto
    then show ?thesis using True p un n by (simp add: unat_minus_one)
  next
    case False
    then show ?thesis using p un by (simp add: word_le_nat_alt)
  qed
  then show "item_ok n s' (StateItem t)" "item_ok n s' (EventItem t)" using o t by (simp_all add: item_ok_def)
qed

text \<open>The invariant of the kernel: lists, times and waiting tasks.\<close>

definition kernel_ok :: "nat \<Rightarrow> nat set \<Rightarrow> frtos \<Rightarrow> bool" where
  "kernel_ok n E s \<longleftrightarrow> frtos_inv n E s \<and> wait_ok s"

text \<open>What the counters are before and after a task is created.\<close>

definition one_more :: "frtos \<Rightarrow> frtos \<Rightarrow> bool" where
  "one_more s s' \<longleftrightarrow> uxCurrentNumberOfTasks s' = uxCurrentNumberOfTasks s + 1 \<and> uxSchedulerSuspended s' = uxSchedulerSuspended s \<and>
     xPendedTicks s' = xPendedTicks s \<and> xSchedulerRunning s' = xSchedulerRunning s \<and> xTickCount s' = xTickCount s"

lemma ready_added:
  assumes inv: "frtos_inv n E s" and w: "wait_ok s" and c: "cont s (StateItem t) = None" and i: "item_ok n s (StateItem t)"
  defines "s' \<equiv> prvAddTaskToReadyList t s"
  shows "kernel_ok n E s'" "is_ready s' t" "cont s' = (cont s)(StateItem t \<mapsto> pxReadyTasksLists (unat (priority t s)))"
    "kept s s'" "item_value s' = item_value s" "listGET_LIST_ITEM_OWNER j s' = listGET_LIST_ITEM_OWNER j s"
proof -
  have ok: "frtos_ok n E s" and tm: "time_ok s" using inv by (simp_all add: frtos_inv_def)
  note a = add_ready [OF ok c i, folded s'_def]
  note k = keptD [OF a(2)]
  have "time_ok s'" using tm frtos_okD(3,4) [OF ok] unfolding time_ok_def k a(3-5) by (auto simp: delay_list_def)
  moreover have "cont s (EventItem t) = None" using w c by (force simp: wait_ok_def)
  then have "wait_ok s'" using w by (simp add: wait_ok_def a(3))
  ultimately show "kernel_ok n E s'" using a(1) by (simp add: kernel_ok_def frtos_inv_def)
  show "cont s' = (cont s)(StateItem t \<mapsto> pxReadyTasksLists (unat (priority t s)))" "kept s s'" "item_value s' = item_value s"
    "listGET_LIST_ITEM_OWNER j s' = listGET_LIST_ITEM_OWNER j s" by (fact a)+
  show "is_ready s' t" by (simp add: is_ready_def a(3) k)
qed

text \<open>The last step of a creation: the yield.\<close>

lemma portYIELD_ok [simp]: "kernel_ok n E (portYIELD s) = kernel_ok n E s" "is_ready (portYIELD s) t = is_ready s t"
  "cont (portYIELD s) = cont s" "one_more u (portYIELD s) = one_more u s" "item_value (portYIELD s) = item_value s"
proof -
  have inv: "frtos_inv n E (s\<lparr>xPendSV := x\<rparr>)" if "frtos_inv n E s" for s x using pendsv_inv [OF that] .
  have "frtos_inv n E (portYIELD s) = frtos_inv n E s"
    using inv [of s True] inv [of "portYIELD s" "xPendSV s"] by (auto simp: portYIELD_def)
  then show "kernel_ok n E (portYIELD s) = kernel_ok n E s" by (simp add: kernel_ok_def wait_ok_def portYIELD_def)
qed (simp_all add: portYIELD_def one_more_def item_value_def fun_eq_iff)

lemma created_yield:
  assumes "frtos_ok n E s"
  shows "\<exists>s'. (if xSchedulerRunning s then taskYIELD_ANY_CORE_IF_USING_PREEMPTION t s else Some s) = Some s' \<and> (s' = s \<or> s' = portYIELD s)"
  using frtos_okD(6) [OF assms] by (auto simp: taskYIELD_ANY_CORE_IF_USING_PREEMPTION_def)

text \<open>A task is created when there are others.\<close>

lemma create_more:
  assumes ok: "kernel_ok n E s" and c: "cont s (StateItem t) = None" "cont s (EventItem t) = None"
    and n: "0 < n" "n < 2 ^ 32" and t: "t < 2 ^ 30"
  shows "\<exists>s'. xTaskCreate n (Some t) prio s = Some (s', True) \<and> kernel_ok n E s' \<and> is_ready s' t \<and> one_more s s' \<and>
    cont s' = (cont s)(StateItem t \<mapsto> pxReadyTasksLists (unat (if prio \<ge> of_nat n then of_nat n - 1 else prio)))"
proof -
  let ?u = "prvCreateTask n (Some t) prio s"
  note cr = created_task [OF c n t, of prio]
  have inv: "frtos_inv n E s" and w: "wait_ok s" using ok by (simp_all add: kernel_ok_def)
  have fr: "cont ?u = cont s" "pxCurrentTCB ?u = pxCurrentTCB s" "uxCurrentNumberOfTasks ?u = uxCurrentNumberOfTasks s"
    "uxSchedulerSuspended ?u = uxSchedulerSuspended s" "xPendedTicks ?u = xPendedTicks s" "xSchedulerRunning ?u = xSchedulerRunning s"
    "xTickCount ?u = xTickCount s" "frtos_inv n E ?u"
    using cr(1) inv by (simp_all add: framed_def frtos_inv_def)
  obtain k where k: "pxCurrentTCB s = Some k" using frtos_okD(6) inv by (metis frtos_inv_def)
  let ?m = "?u\<lparr>uxCurrentNumberOfTasks := uxCurrentNumberOfTasks s + 1\<rparr>"
  define m where "m = (if \<not> xSchedulerRunning s \<and> priority k ?u \<le> priority t ?u then ?m\<lparr>pxCurrentTCB := Some t\<rparr> else ?m)"
  define v where "v = m\<lparr>uxTaskNumber := uxTaskNumber m + 1\<rparr>"
  have l: "xItems v = xItems ?u" "xLists v = xLists ?u" "xTCBs v = xTCBs ?u" by (simp_all add: v_def m_def)
  have iv: "frtos_inv n E v" by (rule inv_cong [OF fr(8) l]) (simp_all add: v_def m_def fr(2) k)
  have cv: "cont v = cont s" "priority t v = priority t ?u" using lists_cong(1) [OF l(1,2)] fr(1) by (simp_all add: priority_def l)
  have wv: "wait_ok v" using w by (simp add: wait_ok_def cv)
  have it: "item_ok n v (StateItem t)" using cr(2) lists_cong(4) [OF l(1,2)] by (simp add: item_ok_def cv)
  have "cont v (StateItem t) = None" using c cv by simp
  note r = ready_added [OF iv wv this it]
  let ?r = "prvAddTaskToReadyList t v"
  have om: "one_more s ?r" using keptD [OF r(4)] fr by (simp add: one_more_def v_def m_def)
  obtain s' where s': "(if xSchedulerRunning ?r then taskYIELD_ANY_CORE_IF_USING_PREEMPTION t ?r else Some ?r) = Some s'"
    "s' = ?r \<or> s' = portYIELD ?r" using created_yield [of n E ?r t] r(1) by (auto simp: kernel_ok_def frtos_inv_def)
  have "prvAddNewTaskToReadyList n t ?u = (if xSchedulerRunning ?r then taskYIELD_ANY_CORE_IF_USING_PREEMPTION t ?r else Some ?r)"
    using k fr by (simp add: prvAddNewTaskToReadyList_def Let_def v_def m_def priority_def)
  then have "xTaskCreate n (Some t) prio s = Some (s', True)" using s'(1) by (simp add: xTaskCreate_def)
  then show ?thesis using s'(2) r(1,2) om r(3) cr(4) by (auto simp: cv)
qed

text \<open>Memory before the first task is created: the variables are 0, no item is in a list.\<close>

definition blank :: "frtos \<Rightarrow> bool" where
  "blank s \<longleftrightarrow> cont s = (\<lambda>_. None) \<and> pxCurrentTCB s = None \<and> uxCurrentNumberOfTasks s = 0 \<and> uxTopReadyPriority s = 0 \<and>
     xTickCount s = 0 \<and> \<not> xSchedulerRunning s \<and> uxSchedulerSuspended s = 0 \<and> xPendedTicks s = 0"

lemma create_first:
  assumes b: "blank s" and n: "0 < n" "n < 2 ^ 32" and t: "t < 2 ^ 30"
  shows "\<exists>s'. xTaskCreate n (Some t) prio s = Some (s', True) \<and> kernel_ok n {} s' \<and> is_ready s' t \<and> one_more s s' \<and>
    cont s' = (\<lambda>_. None)(StateItem t \<mapsto> pxReadyTasksLists (unat (if prio \<ge> of_nat n then of_nat n - 1 else prio)))"
proof -
  have c: "cont s (StateItem t) = None" "cont s (EventItem t) = None" using b by (simp_all add: blank_def)
  let ?u = "prvCreateTask n (Some t) prio s"
  note cr = created_task [OF c n t, of prio]
  have fr: "cont ?u = (\<lambda>_. None)" "pxCurrentTCB ?u = None" "uxCurrentNumberOfTasks ?u = 0" "uxTopReadyPriority ?u = 0"
    "uxSchedulerSuspended ?u = 0" "xPendedTicks ?u = 0" "\<not> xSchedulerRunning ?u" "xTickCount ?u = 0"
    using cr(1) b by (simp_all add: framed_def blank_def)
  let ?w = "?u\<lparr>uxCurrentNumberOfTasks := 1, pxCurrentTCB := Some t\<rparr>"
  have cw: "cont ?w = (\<lambda>_. None)" using lists_cong(1) [of ?w ?u] fr(1) by simp
  then have "cont ?w i = None" for i by simp
  note il = init_task_lists [of ?w, OF this, where n = n]
  define v where "v = (prvInitialiseTaskLists n ?w)\<lparr>uxTaskNumber := uxTaskNumber (prvInitialiseTaskLists n ?w) + 1\<rparr>"
  let ?i = "prvInitialiseTaskLists n ?w"
  have l: "xItems v = xItems ?i" "xLists v = xLists ?i" by (simp_all add: v_def)
  have cv: "cont v = (\<lambda>_. None)" "item_value v = item_value ?u" "good v = good ?i"
    "listGET_LIST_ITEM_OWNER j v = listGET_LIST_ITEM_OWNER j ?u" "priority u v = priority u ?u" for j u
    using lists_cong [OF l] il(2-4,6) cw lists_cong(2,4) [of ?w ?u] by (simp_all add: priority_def v_def)
  have f: "uxTopReadyPriority v = 0" "pxCurrentTCB v = Some t" "pxDelayedTaskList v = xDelayedTaskList1"
    "pxOverflowDelayedTaskList v = xDelayedTaskList2" "\<not> xSchedulerRunning v" "uxSchedulerSuspended v = 0" "xPendedTicks v = 0"
    "uxCurrentNumberOfTasks v = 1" "xTickCount v = 0"
    using il(5,7-14) fr by (simp_all add: v_def)
  have "frtos_ok n {} v" unfolding frtos_ok_def f cv using il(1) n(1) by (simp add: delay_list_def)
  then have iv: "frtos_inv n {} v" by (simp add: frtos_inv_def time_ok_def cv)
  have wv: "wait_ok v" by (simp add: wait_ok_def cv)
  have it: "item_ok n v (StateItem t)" using cr(2) by (simp add: item_ok_def cv)
  have "cont v (StateItem t) = None" by (simp add: cv)
  note r = ready_added [OF iv wv this it]
  let ?r = "prvAddTaskToReadyList t v"
  have "xTaskCreate n (Some t) prio s = Some (?r, True)"
    using fr keptD(7) [OF r(4)] f by (simp add: xTaskCreate_def prvAddNewTaskToReadyList_def v_def Let_def)
  moreover have "one_more s ?r" using keptD [OF r(4)] f b by (simp add: one_more_def blank_def)
  ultimately show ?thesis using r(1-3) cr(4) by (simp add: cv)
qed

text \<open>The start of the scheduler: nothing is delayed yet.\<close>

lemma start_ok:
  assumes ok: "kernel_ok n E s" and d: "\<And>i l. cont s i = Some l \<Longrightarrow> \<not> delay_list l"
  shows "kernel_ok n E (vTaskStartScheduler_run s)" "is_ready (vTaskStartScheduler_run s) t = is_ready s t"
    "cont (vTaskStartScheduler_run s) = cont s"
proof -
  let ?s = "vTaskStartScheduler_run s"
  have l: "xItems ?s = xItems s" "xLists ?s = xLists s" "xTCBs ?s = xTCBs s" "uxTopReadyPriority ?s = uxTopReadyPriority s"
    "pxDelayedTaskList ?s = pxDelayedTaskList s" "pxOverflowDelayedTaskList ?s = pxOverflowDelayedTaskList s" "pxCurrentTCB ?s = pxCurrentTCB s"
    by (simp_all add: vTaskStartScheduler_run_def)
  have o: "frtos_ok n E s" using ok by (simp add: kernel_ok_def frtos_inv_def)
  have "frtos_ok n E ?s" by (rule ok_cong [OF o l(1-3)]) (use frtos_okD [OF o] l in simp_all)
  moreover show c: "cont ?s = cont s" by (rule lists_cong(1) [OF l(1,2)])
  moreover have "time_ok ?s" unfolding time_ok_def c l(5,6) using d frtos_okD(3,4) [OF o] by blast
  ultimately show "kernel_ok n E ?s" using ok by (simp add: kernel_ok_def frtos_inv_def wait_ok_def)
  show "is_ready ?s t = is_ready s t" by (simp add: is_ready_def c priority_def l(3))
qed

text \<open>A queue or the like is created: its event list is initialised.\<close>

lemma event_list_ok:
  assumes ok: "kernel_ok n E s" and e: "e \<notin> E"
  shows "kernel_ok n (insert e E) (vListInitialise (EventList e) s)" "cont (vListInitialise (EventList e) s) = cont s"
    "in_ring (vListInitialise (EventList e) s) (EventList e) []"
proof -
  let ?s = "vListInitialise (EventList e) s"
  have o: "frtos_ok n E s" and tm: "time_ok s" using ok by (simp_all add: kernel_ok_def frtos_inv_def)
  have "cont s i \<noteq> Some (EventList e)" for i using frtos_okD(2) [OF o, of i "EventList e"] e by auto
  note i = init_list [of s "EventList e", OF this]
  note k = keptD [OF i(1)]
  have al: "alive n (insert e E) l \<longleftrightarrow> alive n E l \<or> l = EventList e" for l by (cases l) auto
  have "fits_in ?s = fits_in s"
  proof (intro ext)
    show "fits_in ?s i l = fits_in s i l" for i l by (cases i; cases l) (simp_all add: k i(2))
  qed
  moreover have "item_ok n ?s = item_ok n s" by (simp add: fun_eq_iff item_ok_def k i(6))
  ultimately have "frtos_ok n (insert e E) ?s"
    using frtos_okD [OF o] i(7,8) unfolding frtos_ok_def k i(2,4) al by auto
  moreover have "time_ok ?s" using tm unfolding time_ok_def k i(3-5) .
  ultimately show "kernel_ok n (insert e E) ?s" using ok by (simp add: kernel_ok_def frtos_inv_def wait_ok_def i(4))
  show "cont ?s = cont s" "in_ring ?s (EventList e) []" by (fact i)+
qed

section \<open>A running kernel\<close>

text \<open>Memory of zeros, in which an idle task 0 and a task 1 of priority 2 are created, and the scheduler started.\<close>

definition ex_blank :: frtos where
  "ex_blank = \<lparr>xItems = (\<lambda>p. \<lparr>xItemValue = 0, pxNext = p, pxPrevious = p, pvOwner = None, pxContainer = None\<rparr>),
     xLists = (\<lambda>l. \<lparr>uxNumberOfItems = 0, pxIndex = End l\<rparr>),
     xTCBs = (\<lambda>t. \<lparr>uxPriority = 0, uxBasePriority = 0, uxMutexesHeld = 0, ucNotifyState = 0, ulNotifiedValue = 0\<rparr>),
     pxCurrentTCB = None, pxDelayedTaskList = xDelayedTaskList1, pxOverflowDelayedTaskList = xDelayedTaskList1,
     uxCurrentNumberOfTasks = 0, xTickCount = 0, uxTopReadyPriority = 0, xSchedulerRunning = False, xPendedTicks = 0,
     xYieldPending = False, xNumOfOverflows = 0, uxTaskNumber = 0, xNextTaskUnblockTime = 0, uxSchedulerSuspended = 0, xPendSV = False\<rparr>"

definition ex_kernel :: frtos where
  "ex_kernel = (case xTaskCreate 5 (Some 0) 0 ex_blank of Some (s, _) \<Rightarrow>
     (case xTaskCreate 5 (Some 1) 2 s of Some (s, _) \<Rightarrow>
       (case vTaskSwitchContext (vTaskStartScheduler_run s) of Some s \<Rightarrow> s)))"

lemma ex_kernel_ok:
  "kernel_ok 5 {} ex_kernel" "is_ready ex_kernel 0" "is_ready ex_kernel 1" "uxSchedulerSuspended ex_kernel = 0"
  "xPendedTicks ex_kernel = 0" "0 < uxCurrentNumberOfTasks ex_kernel" "pxCurrentTCB ex_kernel = Some 1"
  "cont ex_kernel = (\<lambda>_. None)(StateItem 0 \<mapsto> pxReadyTasksLists 0, StateItem 1 \<mapsto> pxReadyTasksLists 2)"
proof -
  have b: "blank ex_blank" by (simp add: blank_def ex_blank_def cont_def fun_eq_iff)
  obtain s1 where s1: "xTaskCreate 5 (Some 0) 0 ex_blank = Some (s1, True)" "kernel_ok 5 {} s1" "one_more ex_blank s1"
    "cont s1 = (\<lambda>_. None)(StateItem 0 \<mapsto> pxReadyTasksLists 0)"
    using create_first [OF b, of 5 0 0] by auto
  have c1: "cont s1 (StateItem 1) = None" "cont s1 (EventItem 1) = None" by (simp_all add: s1(4))
  obtain s2 where s2: "xTaskCreate 5 (Some 1) 2 s1 = Some (s2, True)" "kernel_ok 5 {} s2" "one_more s1 s2"
    "cont s2 = (cont s1)(StateItem 1 \<mapsto> pxReadyTasksLists 2)"
    using create_more [OF s1(2) c1, of 2] by (auto simp: unat_eq_nat_uint)
  let ?s = "vTaskStartScheduler_run s2"
  have c2: "cont s2 = (\<lambda>_. None)(StateItem 0 \<mapsto> pxReadyTasksLists 0, StateItem 1 \<mapsto> pxReadyTasksLists 2)" using s2(4) s1(4) by simp
  have "\<not> delay_list l" if "cont s2 i = Some l" for i l using that by (auto simp: c2 delay_list_def split: if_splits)
  note st = start_ok [OF s2(2) this]
  have ok: "frtos_inv 5 {} ?s" "frtos_ok 5 {} ?s" "wait_ok ?s" using st(1) by (simp_all add: kernel_ok_def frtos_inv_def)
  have r: "is_ready ?s 0 \<and> unat (priority 0 ?s) = 0" "is_ready ?s 1 \<and> unat (priority 1 ?s) = 2"
    using ready_iff [OF ok(2), of 0 0] ready_iff [OF ok(2), of 1 2] st(3) c2 by auto
  have z: "uxSchedulerSuspended ?s = 0" "xPendedTicks ?s = 0" "0 < uxCurrentNumberOfTasks ?s"
    using s2(3) s1(3) by (simp_all add: vTaskStartScheduler_run_def one_more_def ex_blank_def)
  obtain s3 t where s3: "vTaskSwitchContext ?s = Some s3" "pxCurrentTCB s3 = Some t" "is_ready ?s t"
    "\<forall>v. is_ready ?s v \<longrightarrow> priority v ?s \<le> priority t ?s" "frtos_inv 5 {} s3" "xItems s3 = xItems ?s" "xTCBs s3 = xTCBs ?s"
    "uxSchedulerSuspended s3 = 0" "xPendedTicks s3 = xPendedTicks ?s" "uxCurrentNumberOfTasks s3 = uxCurrentNumberOfTasks ?s"
    using switch_picks [OF ok(1) conjunct1 [OF r(1)] z(1)] by blast
  have c3: "cont s3 = cont ?s" "is_ready s3 v = is_ready ?s v" for v using s3(6,7) by (simp_all add: cont_def is_ready_def priority_def fun_eq_iff)
  have "t = 0 \<or> t = 1" using s3(3) st(3) c2 by (auto simp: is_ready_def split: if_splits)
  moreover have "unat (priority 1 ?s) \<le> unat (priority t ?s)" using s3(4) r(2) unfolding word_le_nat_alt by blast
  then have "t \<noteq> 0" using r by (cases t) simp_all
  ultimately have t: "t = 1" by simp
  have e: "ex_kernel = s3" by (simp add: ex_kernel_def s1(1) s2(1) s3(1) del: One_nat_def)
  show "kernel_ok 5 {} ex_kernel" using s3(5) ok(3) by (simp add: e kernel_ok_def wait_ok_def c3)
  show "is_ready ex_kernel 0" "is_ready ex_kernel 1" using r by (simp_all add: e c3)
  show "uxSchedulerSuspended ex_kernel = 0" "xPendedTicks ex_kernel = 0" "0 < uxCurrentNumberOfTasks ex_kernel" "pxCurrentTCB ex_kernel = Some 1"
    using s3(2,8-10) z t by (simp_all add: e)
  show "cont ex_kernel = (\<lambda>_. None)(StateItem 0 \<mapsto> pxReadyTasksLists 0, StateItem 1 \<mapsto> pxReadyTasksLists 2)"
    using st(3) c2 by (simp add: e c3)
qed

end
