(* ===== verification/FRTOS_TaskTime.thy ===== *)
theory FRTOS_TaskTime
  imports FRTOS_TaskBoot
begin

text \<open>
  What the scheduler of FreeRTOS promises about time: ticks, delays and time-outs are exact, across every
  overflow of the tick counter and with the scheduler suspended in between, and the task that runs is a ready
  one of the highest priority.
\<close>

section \<open>Ticks and the choice of the task\<close>

text \<open>C28: while the scheduler is not suspended, a tick returns, keeps the invariant, and counts every delayed task down by one, where the ticks left
  are the wake time less the tick count, modulo \<open>2 ^ 32\<close>.  The tasks that had one tick left, and no
  others, become ready and leave the event list they waited in.\<close>

theorem xTaskIncrementTick_counts_down:
  assumes ok: "kernel_ok n E s" and r: "uxSchedulerSuspended s = 0"
  shows "\<exists>s' sw. xTaskIncrementTick s = Some (s', sw) \<and> kernel_ok n E s' \<and> xTickCount s' = xTickCount s + 1 \<and>
    (\<forall>t. if ticks_left s t = Some 1 then is_ready s' t \<and> cont s' (EventItem t) = None
         else ticks_left s' t = map_option (\<lambda>d. d - 1) (ticks_left s t) \<and>
              cont s' (StateItem t) = cont s (StateItem t) \<and> cont s' (EventItem t) = cont s (EventItem t))"
proof -
  obtain s' sw where s': "xTaskIncrementTick s = Some (s', sw)" "frtos_inv n E s'" "ticked s s'"
    using tick_ticked [of n E s] ok r by (auto simp: kernel_ok_def)
  moreover have "wait_ok s'" using ticked_wait_ok [OF s'(3)] ok by (simp add: kernel_ok_def)
  moreover have "priority t s' = priority t s" for t by (rule ticked_priority [OF s'(3)])
  ultimately show ?thesis by (simp add: kernel_ok_def is_ready_def ticked_def)
qed

text \<open>C30: while the scheduler is not suspended and some task is ready, \<open>vTaskSwitchContext\<close> runs a ready task of
  the highest priority, and the tasks of one
  priority take turns: the one chosen was the next in the order of the turns and is the last one
  afterwards.  No task changes its lists, and the invariant is kept.\<close>

theorem vTaskSwitchContext_picks:
  assumes ok: "kernel_ok n E s" and u: "is_ready s u" and r: "uxSchedulerSuspended s = 0"
  shows "\<exists>s' t us. vTaskSwitchContext s = Some s' \<and> pxCurrentTCB s' = Some t \<and> is_ready s t \<and>
    (\<forall>v. is_ready s v \<longrightarrow> priority v s \<le> priority t s) \<and>
    turns s (pxReadyTasksLists (unat (priority t s))) (StateItem t # us) \<and>
    turns s' (pxReadyTasksLists (unat (priority t s))) (us @ [StateItem t]) \<and>
    kernel_ok n E s' \<and> cont s' = cont s"
proof -
  obtain s' t us where s': "vTaskSwitchContext s = Some s'" "pxCurrentTCB s' = Some t" "is_ready s t"
    "\<forall>v. is_ready s v \<longrightarrow> priority v s \<le> priority t s"
    "turns s (pxReadyTasksLists (unat (priority t s))) (StateItem t # us)"
    "turns s' (pxReadyTasksLists (unat (priority t s))) (us @ [StateItem t])" "frtos_inv n E s'" "xItems s' = xItems s"
    using switch_picks [OF _ u r] ok unfolding kernel_ok_def by blast
  have c: "cont s' = cont s" using s'(8) by (simp add: fun_eq_iff cont_def)
  have "kernel_ok n E s'" using s'(7) ok by (simp add: kernel_ok_def wait_ok_def c)
  then show ?thesis using s'(1-6) c by blast
qed

section \<open>Delays\<close>

lemma ticks_lt: "unat d < 2 ^ 32" for d :: TickType
  using unsigned_less [of d, where 'a = nat] by simp

text \<open>The current task blocks, with the scheduler suspended meanwhile.\<close>

lemma delayed_run:
  assumes ok: "kernel_ok n E s" and z: "uxSchedulerSuspended s = 0" "xPendedTicks s = 0" "0 < uxCurrentNumberOfTasks s"
    and c: "pxCurrentTCB s = Some c" "is_ready s c" and u: "is_ready s u" "u \<noteq> c" and d: "0 < d"
  shows "\<exists>s0 s1 y. prvAddCurrentTaskToDelayedList d False (vTaskSuspendAll s) = Some s0 \<and> xTaskResumeAll s0 = Some (s1, y) \<and>
    runs_ok n E s1 \<and> waits s1 c (unat d)"
proof -
  let ?s = "vTaskSuspendAll s"
  have lc: "cont ?s = cont s" "item_value ?s = item_value s" using lists_cong(1,2) [of ?s s] by (simp_all add: vTaskSuspendAll_def)
  have inv: "frtos_inv n E s" and w: "wait_ok s" using ok by (simp_all add: kernel_ok_def)
  have "frtos_inv n E ?s" by (rule inv_cong [OF inv]) (simp_all add: vTaskSuspendAll_def c(1))
  moreover have "pxCurrentTCB ?s = Some c" "cont ?s (StateItem c) = Some (pxReadyTasksLists (unat (priority c s)))"
    using c lc by (simp_all add: vTaskSuspendAll_def is_ready_def)
  ultimately obtain s0 where s0: "prvAddCurrentTaskToDelayedList d False ?s = Some s0" "frtos_inv n E s0" "kept ?s s0"
    "cont s0 = (cont s)(StateItem c \<mapsto> blocked_in d False ?s)" "item_value s0 = (item_value s)(StateItem c := xTickCount ?s + d)"
    using block_current [of n E ?s c _ d False] d lc by auto
  note k = keptD [OF s0(3)]
  have bl: "delay_list (blocked_in d False ?s)"
    using frtos_okD(3,4) inv by (auto simp: blocked_in_def frtos_inv_def vTaskSuspendAll_def)
  have ev: "cont s (EventItem v) = None" if "is_ready s v" for v
    using w that by (auto simp: wait_ok_def is_ready_def delay_list_def)
  have w0: "wait_ok s0" using w ev [OF c(2)] by (auto simp: wait_ok_def s0(4))
  have np: "\<not> pending s0 v" if "is_ready s v" for v using ev [OF that] by (simp add: pending_def s0(4))
  let ?d = "\<lambda>t. if t = c then unat d else 0"
  have "unat d \<noteq> 0" using d by (auto simp: unat_eq_0)
  then have "waits s0 c (unat d)" using bl by (simp add: waits_def ticks_left_def s0(4,5) k)
  moreover have "waits s0 u 0" using u by (simp add: waits_def is_ready_def s0(4) k(14)) (simp add: vTaskSuspendAll_def priority_def)
  ultimately have t: "\<forall>t\<in>{c, u}. if pending s0 t then ?d t = 0 else waits s0 t (?d t)" using np c(2) u by simp
  have "\<forall>t. ?d t < 2 ^ 32" using ticks_lt [of d] by simp
  then obtain s1 y where s1: "xTaskResumeAll s0 = Some (s1, y)" "frtos_inv n E s1" "uxSchedulerSuspended s1 = 0"
    "\<forall>t\<in>{c, u}. waits s1 t (?d t - unat (xPendedTicks s0))"
    using resume_all_run [OF s0(2) w0 _ _ _ t] k z by (auto simp: vTaskSuspendAll_def)
  have p: "xPendedTicks s0 = 0" using k z by (simp add: vTaskSuspendAll_def)
  have "waits s1 c (unat d)" "is_ready s1 u" using s1(4) u(2) p by (simp_all add: waits_def)
  then show ?thesis using s0(1) s1(1-3) by (auto simp: runs_ok_def)
qed

lemma portYIELD_runs [simp]: "runs_ok n E (portYIELD s) = runs_ok n E s" "waits (portYIELD s) t d = waits s t d"
proof -
  have "frtos_inv n E (portYIELD s) = frtos_inv n E s"
    using pendsv_inv [of n E s True] pendsv_inv [of n E "portYIELD s" "xPendSV s"] by (auto simp: portYIELD_def)
  moreover have "uxSchedulerSuspended (portYIELD s) = uxSchedulerSuspended s" by (simp add: portYIELD_def)
  ultimately show "runs_ok n E (portYIELD s) = runs_ok n E s" by (simp add: runs_ok_def)
  show "waits (portYIELD s) t d = waits s t d" by (rule waits_cong) (simp_all add: portYIELD_def item_value_def fun_eq_iff)
qed

lemma irqs_wait:
  assumes s: "runs_ok n E s" and w: "waits s c d" and d: "d < 2 ^ 32"
  shows "\<exists>s'. kernel_irqs es s = Some s' \<and> waits s' c (d - count_list es SysTick)"
  using kernel_irqs_run [OF s, of "\<lambda>_. d" "{c}" es] w d by auto

text \<open>C27: \<open>vTaskDelay\<close> ends on time.  A task that calls it with \<open>d\<close>, not 0, waits for \<open>d\<close> ticks:
  whatever ticks and context switches come, after \<open>k\<close> ticks it has \<open>d - k\<close> ticks left, and it is
  ready from the \<open>d\<close>-th tick on, also when the tick counter overflows.  The calls and interrupts return.\<close>

theorem vTaskDelay_ends_on_time:
  assumes ok: "kernel_ok n E s" and z: "uxSchedulerSuspended s = 0" "xPendedTicks s = 0" "0 < uxCurrentNumberOfTasks s"
    and c: "pxCurrentTCB s = Some c" "is_ready s c" and u: "is_ready s u" "u \<noteq> c" and d: "0 < d"
  shows "\<exists>s1 s2. vTaskDelay d s = Some s1 \<and> kernel_irqs es s1 = Some s2 \<and>
    (if count_list es SysTick < unat d then ticks_left s2 c = Some (d - of_nat (count_list es SysTick)) else is_ready s2 c)"
proof -
  obtain s0 s1 y where s: "prvAddCurrentTaskToDelayedList d False (vTaskSuspendAll s) = Some s0" "xTaskResumeAll s0 = Some (s1, y)"
    "runs_ok n E s1" "waits s1 c (unat d)" using delayed_run [OF ok z c u d] by blast
  let ?s = "if \<not> y then portYIELD s1 else s1"
  have "runs_ok n E ?s" "waits ?s c (unat d)" using s(3,4) by simp_all
  from irqs_wait [OF this] obtain s2 where s2: "kernel_irqs es ?s = Some s2" "waits s2 c (unat d - count_list es SysTick)"
    using ticks_lt [of d] by auto
  have "vTaskDelay d s = Some ?s" using d s(1,2) by (simp add: vTaskDelay_def)
  then show ?thesis using s2 by (auto simp: waits_def of_nat_diff)
qed

text \<open>Whether a periodic task is late, across overflows.\<close>

lemma delay_until_waits_iff: "delay_until_waits now prev (prev + inc) \<longleftrightarrow> now - prev < inc" for now prev inc :: TickType
proof -
  have "unat now < 2 ^ 32" "unat prev < 2 ^ 32" "unat inc < 2 ^ 32" using ticks_lt [of now] ticks_lt [of prev] ticks_lt [of inc] by simp_all
  then show ?thesis
    unfolding delay_until_waits_def word_less_nat_alt unat_sub_if' unat_plus_if' word_le_nat_alt by auto
qed

text \<open>C31: \<open>xTaskDelayUntil\<close> keeps a period, across every overflow of the tick counter.  The next wake time is
  the previous one and the increment.  When fewer ticks than the increment have passed since the previous wake
  time, the task waits for the rest of them, and no longer; otherwise it does not block, and the caller is told so.\<close>

theorem xTaskDelayUntil_keeps_period:
  assumes ok: "kernel_ok n E s" and z: "uxSchedulerSuspended s = 0" "xPendedTicks s = 0" "0 < uxCurrentNumberOfTasks s"
    and c: "pxCurrentTCB s = Some c" "is_ready s c" and u: "is_ready s u" "u \<noteq> c"
  shows "\<exists>s1 s2. xTaskDelayUntil prev inc s = Some (s1, prev + inc, xTickCount s - prev < inc) \<and> kernel_irqs es s1 = Some s2 \<and>
    waits s2 c ((unat inc - unat (xTickCount s - prev)) - count_list es SysTick)"
proof -
  let ?e = "xTickCount s - prev" and ?s = "vTaskSuspendAll s"
  have tc: "xTickCount ?s = xTickCount s" by (simp add: vTaskSuspendAll_def)
  have "\<exists>s0 s1 y. (if ?e < inc then prvAddCurrentTaskToDelayedList (prev + inc - xTickCount s) False ?s else Some ?s) = Some s0 \<and>
      xTaskResumeAll s0 = Some (s1, y) \<and> runs_ok n E s1 \<and> waits s1 c (unat inc - unat ?e)"
  proof (cases "?e < inc")
    case True
    have e: "prev + inc - xTickCount s = inc - ?e" by simp
    have "unat (inc - ?e) = unat inc - unat ?e" using True by (simp add: unat_sub less_imp_le)
    moreover have "0 < inc - ?e" using True by (simp add: word_gt_0)
    ultimately show ?thesis using delayed_run [OF ok z c u, of "inc - ?e"] True unfolding e by auto
  next
    case False
    have inv: "frtos_inv n E ?s" "wait_ok ?s"
      using ok lists_cong(1) [of ?s s] inv_cong [of n E s ?s] c(1)
      by (simp_all add: kernel_ok_def vTaskSuspendAll_def wait_ok_def)
    have r: "is_ready ?s c" using c(2) by (simp add: is_ready_def vTaskSuspendAll_def cont_def priority_def)
    then have "\<not> pending ?s c" using inv(2) by (auto simp: pending_def wait_ok_def is_ready_def delay_list_def)
    then have t: "\<forall>t\<in>{c}. if pending ?s t then (0::nat) = 0 else waits ?s t 0" using r by (simp add: waits_def)
    obtain s1 y where s1: "xTaskResumeAll ?s = Some (s1, y)" "frtos_inv n E s1" "uxSchedulerSuspended s1 = 0" "waits s1 c 0"
      using resume_all_run [OF inv _ _ _ t] z by (auto simp: vTaskSuspendAll_def)
    moreover have "unat inc - unat ?e = 0" using False by (simp add: word_less_nat_alt)
    ultimately show ?thesis using False by (auto simp: runs_ok_def waits_def)
  qed
  then obtain s0 s1 y where s: "(if ?e < inc then prvAddCurrentTaskToDelayedList (prev + inc - xTickCount s) False ?s else Some ?s) = Some s0"
    "xTaskResumeAll s0 = Some (s1, y)" "runs_ok n E s1" "waits s1 c (unat inc - unat ?e)" by blast
  let ?t = "if \<not> y then portYIELD s1 else s1"
  have "runs_ok n E ?t" "waits ?t c (unat inc - unat ?e)" using s(3,4) by simp_all
  from irqs_wait [OF this, of es] obtain s2 where s2: "kernel_irqs es ?t = Some s2" "waits s2 c (unat inc - unat ?e - count_list es SysTick)"
    using le_less_trans [OF diff_le_self ticks_lt [of inc]] by blast
  have "xTaskDelayUntil prev inc s = Some (?t, prev + inc, ?e < inc)"
    unfolding xTaskDelayUntil_def Let_def tc delay_until_waits_iff s(1) using s(2) by simp
  then show ?thesis using s2 by blast
qed

section \<open>Time-outs\<close>

text \<open>C32: time-outs are exact for less than \<open>2 ^ 32\<close> ticks, also when the tick counter overflows in
  between.  When \<open>k\<close> ticks came since \<open>vTaskSetTimeOutState\<close>, \<open>xTaskCheckForTimeOut\<close> reports a
  time-out exactly when at most \<open>k\<close> ticks were to be waited; otherwise the \<open>k\<close> ticks are taken off and
  the time-out starts anew.  \<open>portMAX_DELAY\<close> never times out.\<close>

theorem xTaskCheckForTimeOut_exact:
  assumes ok: "kernel_ok n E s" and r: "uxSchedulerSuspended s = 0" "is_ready s u"
    and es: "kernel_irqs es s = Some s1" and k: "k = count_list es SysTick" "k < 2 ^ 32"
  shows "xTaskCheckForTimeOut (vTaskSetTimeOutState s) w s1 =
    (if w = portMAX_DELAY then (vTaskSetTimeOutState s, w, False)
     else if unat w \<le> k then (vTaskSetTimeOutState s, 0, True)
     else (vTaskSetTimeOutState s1, w - of_nat k, False))"
proof -
  have "runs_ok n E s" using ok r by (auto simp: runs_ok_def kernel_ok_def)
  from kernel_irqs_run [OF this, of "\<lambda>_. 0" "{}" es] es k(1)
  obtain m where m: "unat (xTickCount s) + k = m * 2 ^ 32 + unat (xTickCount s1)"
    "xNumOfOverflows s1 = xNumOfOverflows s + of_nat m" by auto
  have lt: "unat (xTickCount s) < 2 ^ 32" by (rule ticks_lt)
  have el: "xTickCount s1 - xTickCount s = of_nat k"
  proof -
    have "(of_nat (unat (xTickCount s) + k) :: TickType) = of_nat (m * 2 ^ 32 + unat (xTickCount s1))" by (simp only: m(1))
    moreover have "(4294967296 :: TickType) = 0" by simp
    ultimately show ?thesis by (simp add: algebra_simps)
  qed
  have uk: "unat (of_nat k :: TickType) = k" using k(2) by (simp add: unat_of_nat)
  have "xNumOfOverflows s1 = xNumOfOverflows s" if "xTickCount s \<le> xTickCount s1"
  proof -
    have "m * 2 ^ 32 \<le> k" using m(1) that by (simp add: word_le_nat_alt)
    then have "m = 0" using k(2) by (cases m) auto
    then show ?thesis using m(2) by simp
  qed
  then have ov: "(xNumOfOverflows s1 \<noteq> xNumOfOverflows s \<and> xTickCount s1 \<ge> xTickCount s) = False" by blast
  show ?thesis
    unfolding xTaskCheckForTimeOut_def vTaskSetTimeOutState_def vTaskInternalSetTimeOutState_def TimeOut.simps el Let_def ov
    by (simp add: word_less_nat_alt uk not_less)
qed

text \<open>Two overflows later the elapsed time can look short: \<open>2 ^ 33 - 50\<close> ticks pass for \<open>2 ^ 32 - 50\<close>.\<close>

lemma two_overflows_missed:
  "xTickCount s = 50 \<Longrightarrow> xNumOfOverflows s = 2 \<Longrightarrow>
   snd (snd (xTaskCheckForTimeOut \<lparr>xOverflowCount = 0, xTimeOnEntering = 100\<rparr> (portMAX_DELAY - 10) s)) = False"
  by (simp add: xTaskCheckForTimeOut_def Let_def)

section \<open>The suspended scheduler\<close>

text \<open>C29: no tick and no task is lost while the scheduler is suspended.  The outermost \<open>xTaskResumeAll\<close>
  returns and makes every task ready that was made pending meanwhile; the tick count goes up by all ticks that were
  pended, and a delayed task has that many ticks fewer left, so it is ready when it had no more than that.\<close>

theorem xTaskResumeAll_catches_up:
  assumes ok: "kernel_ok n E s" and one: "uxSchedulerSuspended s = 1" "0 < uxCurrentNumberOfTasks s" and d: "d < 2 ^ 32"
  shows "\<exists>s' y. xTaskResumeAll s = Some (s', y) \<and> kernel_ok n E s' \<and> uxSchedulerSuspended s' = 0 \<and> xPendedTicks s' = 0 \<and>
    xTickCount s' = xTickCount s + xPendedTicks s \<and> (\<forall>t. \<not> pending s' t) \<and> (\<forall>t. pending s t \<longrightarrow> is_ready s' t) \<and>
    (\<forall>t. waits s t d \<longrightarrow> \<not> pending s t \<longrightarrow> waits s' t (d - unat (xPendedTicks s)))"
proof -
  let ?d = "\<lambda>t. if pending s t then 0 else d"
  have t: "\<forall>t\<in>{t. pending s t \<or> waits s t d}. if pending s t then ?d t = 0 else waits s t (?d t)" by simp
  have "\<forall>t. ?d t < 2 ^ 32" using d by simp
  then obtain s' y where s': "xTaskResumeAll s = Some (s', y)" "frtos_inv n E s'" "uxSchedulerSuspended s' = 0" "wait_ok s'"
    "\<forall>t\<in>{t. pending s t \<or> waits s t d}. waits s' t (?d t - unat (xPendedTicks s))" "\<forall>t. \<not> pending s' t"
    "xPendedTicks s' = 0" "xTickCount s' = xTickCount s + xPendedTicks s"
    using resume_all_run [OF _ _ one _ t] ok unfolding kernel_ok_def by blast
  have "is_ready s' t" if "pending s t" for t using bspec [OF s'(5), of t] that by (simp add: waits_def)
  moreover have "waits s' t (d - unat (xPendedTicks s))" if "waits s t d" "\<not> pending s t" for t
    using bspec [OF s'(5), of t] that by simp
  ultimately show ?thesis using s' by (simp add: kernel_ok_def)
qed

section \<open>The theorems on a kernel with two tasks\<close>

lemma ex_ready: "is_ready ex_kernel (Suc 0)" "pxCurrentTCB ex_kernel = Some (Suc 0)"
  using ex_kernel_ok(3,7) by simp_all

lemma xTaskIncrementTick_counts_down_witness:
  "\<exists>s' sw. xTaskIncrementTick ex_kernel = Some (s', sw) \<and> kernel_ok 5 {} s'"
  using xTaskIncrementTick_counts_down [OF ex_kernel_ok(1,4)] by blast

lemma vTaskSwitchContext_picks_witness:
  "\<exists>s' t. vTaskSwitchContext ex_kernel = Some s' \<and> pxCurrentTCB s' = Some t \<and> is_ready ex_kernel t"
  using vTaskSwitchContext_picks [OF ex_kernel_ok(1,2,4)] by blast

lemma vTaskDelay_ends_on_time_witness:
  "\<exists>s1 s2. vTaskDelay 2 ex_kernel = Some s1 \<and> kernel_irqs [PendSV, SysTick, SysTick] s1 = Some s2 \<and> is_ready s2 1"
  using vTaskDelay_ends_on_time [OF ex_kernel_ok(1,4-7,3,2), of 2 "[PendSV, SysTick, SysTick]"] by (auto simp: unat_eq_nat_uint)

lemma xTaskDelayUntil_keeps_period_witness:
  "\<exists>s1. xTaskDelayUntil 0 10 ex_kernel = Some (s1, 10, xTickCount ex_kernel < 10)"
  using xTaskDelayUntil_keeps_period [OF ex_kernel_ok(1,4-7,3,2), of 0 10 "[]"] by auto

lemma xTaskCheckForTimeOut_exact_witness:
  "xTaskCheckForTimeOut (vTaskSetTimeOutState ex_kernel) 0 ex_kernel = (vTaskSetTimeOutState ex_kernel, 0, True)"
  using xTaskCheckForTimeOut_exact [OF ex_kernel_ok(1,4,2), of "[]" ex_kernel 0 0] by simp

lemma xTaskResumeAll_catches_up_witness:
  "\<exists>s' y. xTaskResumeAll (vTaskSuspendAll ex_kernel) = Some (s', y) \<and> uxSchedulerSuspended s' = 0"
proof -
  let ?s = "vTaskSuspendAll ex_kernel"
  have "kernel_ok 5 {} ?s"
    using ex_kernel_ok(1) lists_cong(1) [of ?s ex_kernel] inv_cong [of 5 "{}" ex_kernel ?s] ex_kernel_ok(7)
    by (simp add: kernel_ok_def vTaskSuspendAll_def wait_ok_def)
  from xTaskResumeAll_catches_up [OF this _ _, of 0] show ?thesis
    using ex_kernel_ok(4,6) by (auto simp: vTaskSuspendAll_def)
qed

end
