(* ===== verification/Spec2Isabelle.thy ===== *)
theory Spec2Isabelle
  imports UCOS_Boot UCOS_Tick UCOS_Broadcast UCOS_Fifo UCOS_MutexProto UCOS_FlagList UCOS_Wheel FRTOS_List FRTOS_HeapRun FRTOS_TaskTime
begin

text \<open>
  A verification library for the real-time kernel \<open>uC/OS-II\<close> of \<open>src/uC-OS2/Source\<close>, as it
  is configured by \<open>src/uC-OS2/Cfg/Template/os_cfg.h\<close> (argument checking, deletion, abort,
  timers, names, task registers, profiling and the statistics task on; tracing and hooks of the
  application empty) and ported to ARMv7-M in \<open>src/uC-OS2/Ports/ARM-Cortex-M/ARMv7-M\<close>.  Among the
  kernels and stacks the repository collects it is the one whose sources are complete, and whose
  services meet in one set of shared tables.  The last section of this header is about the parts of
  FreeRTOS that are modelled; the rest is listed at its end.

  \<^bold>\<open>The program.\<close>  The kernel runs the ready task of highest priority, the smallest number.
  Tasks are made ready or not by the services: delays and the clock tick (\<open>os_time.c\<close>,
  \<open>OSTimeTick\<close> of \<open>os_core.c\<close>), suspension (\<open>os_task.c\<close>), and pends and posts on
  semaphores, mailboxes, queues, mutexes and flag groups (\<open>os_sem.c\<close>, \<open>os_mbox.c\<close>,
  \<open>os_q.c\<close>, \<open>os_mutex.c\<close>, \<open>os_flag.c\<close>).  All of them work on the ready list, the
  wait lists of the events and the task control blocks, through a few routines of \<open>os_core.c\<close>.
  Memory partitions (\<open>os_mem.c\<close>) and software timers (\<open>os_tmr.c\<close>) have tables of their own.

  \<^bold>\<open>The model.\<close>  The state is one record, \<open>os\<close>, with the globals of \<open>ucos_ii.h\<close> by
  their names; a structure is a record; an array of structures is a function of the index, which
  stands for the pointer, \<open>option\<close> where it may be null; \<open>INT8U\<close>, \<open>INT16U\<close> and
  \<open>INT32U\<close> are words that wrap around.  A service is a function from the state to the state, its
  return value and its error code, with the guards in the order of the code.  Every critical section
  is one step, since nothing else runs in it; a service with more than one is cut where it
  may be preempted.  In particular a pend that blocks returns \<open>None\<close> and its second half is
  the function \<open>..._resume\<close>, run when the task is scheduled again.  The loops that follow a list or
  empty a wait list are \<open>while_option\<close>, so that not returning would be \<open>None\<close>, and that
  they return is proved; the others count down and are recursive functions.  There is no fuel.

  \<^bold>\<open>The theories\<close> and the code they model:
  \<^item> \<open>UCOS_Prelude\<close>, \<open>UCOS_Types\<close>: the machine types (\<open>os_cpu.h\<close>), constants,
    structures and globals (\<open>ucos_ii.h\<close>, \<open>os_cfg.h\<close>).
  \<^item> \<open>UCOS_Bitmap\<close>: the priority bitmap that the ready list and every wait list are, with
    \<open>OSUnMapTbl\<close>.  The locale \<open>prio_set\<close> is its contract, a set of priorities with its
    minimum; the two-level table of the code is its interpretation \<open>bm\<close>.
  \<^item> \<open>UCOS_Pool\<close>: the contract \<open>pool\<close> of a free list, interpreted for the pools of events and
    of timers.  \<open>UCOS_Fifo\<close>: the contract of a bounded buffer, interpreted for the circular buffer
    of a queue.
  \<^item> \<open>UCOS_Sched\<close>: \<open>OS_Sched\<close>, \<open>OS_SchedNew\<close>, \<open>OSIntEnter\<close>, \<open>OSIntExit\<close>,
    the scheduler lock, \<open>OSStart\<close>.  The context switch changes the current task.
  \<^item> \<open>UCOS_Event\<close>: wait lists, \<open>OS_EventTaskRdy\<close>, \<open>OS_EventTaskWait\<close> and their kind, and
    the pool of event control blocks.
  \<^item> \<open>UCOS_Inv\<close>, \<open>UCOS_Prim\<close>, \<open>UCOS_Wait\<close>: the invariants; what each primitive does to
    them; and the locale \<open>wait_service\<close>, the contract of a service with a wait list, in which that
    pend, resume, post, abort and delete keep the system invariant is proved once.  It is
    interpreted for semaphores, mailboxes and queues, with \<open>broadcast_service\<close> for their broadcast posts.
  \<^item> \<open>UCOS_Sem\<close>, \<open>UCOS_Mbox\<close>, \<open>UCOS_Q\<close>, \<open>UCOS_Multi\<close>: \<open>os_sem.c\<close>,
    \<open>os_mbox.c\<close>, \<open>os_q.c\<close> and \<open>OSEventPendMulti\<close>.  Each of the first three has an abstract
    specification, a counter, a cell or a list of messages together with the set of waiting
    priorities, and refinement theorems for it.  \<open>UCOS_Broadcast\<close>: the loops that wake all waiters.
  \<^item> \<open>UCOS_Time\<close>: \<open>os_time.c\<close>, \<open>OSTimeTick\<close>, the tick interrupt of the port.
    \<open>UCOS_Tick\<close>: what a tick of that interrupt does to a delay, and that a delay ends on time whatever
    steps of the kernel that leave the task alone come between the ticks.
  \<^item> \<open>UCOS_Task\<close>, \<open>UCOS_TaskCtl\<close>: \<open>os_task.c\<close>, \<open>OS_TCBInit\<close> and the initial
    stack frame of the port.  \<open>UCOS_Create\<close>, \<open>UCOS_Move\<close>, \<open>UCOS_TaskDel\<close>: that creation, change
    of priority and deletion keep the invariants.
  \<^item> \<open>UCOS_Mem\<close>, \<open>UCOS_Tmr\<close>, \<open>UCOS_Mutex\<close>, \<open>UCOS_Flag\<close>: \<open>os_mem.c\<close>,
    \<open>os_tmr.c\<close>, \<open>os_mutex.c\<close>, \<open>os_flag.c\<close>.  The callbacks of the application are an
    argument of the timer functions.  \<open>UCOS_Quiet\<close>: the services that do not touch the tasks.
    \<open>UCOS_MutexProto\<close>: the priority ceiling protocol.  \<open>UCOS_Dll\<close>, \<open>UCOS_FlagList\<close>: doubly linked lists, and the loops that wake or abort the
    tasks in the wait list of a flag group, where \<open>satisfied\<close> states the four wait conditions bit by bit.
    \<open>UCOS_Wheel\<close>: the timer wheel and the rounds of the timer task, with callbacks that call timer services
    (\<open>polite\<close>: for no running timer but their own) and a theorem about what goes wrong with others.
  \<^item> \<open>UCOS_Init\<close>, \<open>UCOS_Boot\<close>: \<open>OSInit\<close> and what the application does before \<open>OSStart\<close>;
    \<open>booted P s\<close>: the tasks of the priorities \<open>P\<close> have been created since \<open>OSInit\<close>.
  \<^item> \<open>UCOS_System\<close>: the kernel as a transition system \<open>kstep\<close>, whose rules are the calls of
    the services by the running task or by interrupt handlers, in any order and with any arguments within the
    rules of use below.
  \<^item> \<open>UCOS_Example\<close>: the concrete states the theorems are applied to.

  \<^bold>\<open>What is proved.\<close>  \<open>kernel_inv\<close> says that the ready list, the wait lists, the priority
  table and the control blocks agree: which conditions of a task put its priority in which list.
  \<open>pre_inv\<close> adds the pends in progress, the running task, the pool of events and the task list;
  \<open>sys_inv\<close> adds that the running task is the one of highest priority.  \<open>OSInit\<close> establishes
  them from memory with any contents, and every step keeps them; on this rest the theorems of this file
  about every reachable state.  The theorems of the services say what each does on every branch:
  refinement of the abstract specifications, the hand-over of a post to its first waiter
  and the preemption of the poster, the effect of broadcasts and deletion, round trips, the exact
  length of delays, and the bounds of the arithmetic.

  \<^bold>\<open>Limits of the transition system.\<close>  \<open>kstep\<close> leaves out mutexes and flag groups; those are
  modelled, but that they keep the invariant is not shown, and for some calls it does not hold
  (\<open>promotion_leaves_stale_waiter\<close>, \<open>OSFlagDel_loses_free_groups\<close>).  Its side
  conditions are rules of use: the idle task calls no service, an interrupt handler does not suspend the
  idle task by \<open>OS_PRIO_SELF\<close>, the running task does not delete itself or change its own priority while
  the scheduler is locked, a post with \<open>OS_POST_OPT_NO_SCHED\<close> is followed by a scheduler call of
  a handler or of the unlocking, \<open>OSTimeTick\<close> is called by interrupt handlers only, and callbacks of timers
  leave tasks and events alone.
  \<open>OSTaskDel\<close> enables interrupts for the call of \<open>OS_Dummy\<close> half way; the model has no handler run there.

  \<^bold>\<open>Not modelled.\<close>  The registers a context switch saves, SysTick and floating-point setup, the
  debug constants and the trace macros have no kernel state.  Out of bounds accesses and the
  pointers an application may invent are outside: pointers are indices of the tables.

  \<^bold>\<open>FreeRTOS.\<close>  Of the second kernel, \<open>src/FreeRTOS-Kernel\<close>, the model has the
  part every service of it rests on.  \<open>FRTOS_List\<close> models \<open>list.c\<close> and the macros of
  \<open>list.h\<close>: a pointer to an item is the item or the end marker inside a list, an assignment through
  a pointer is an update of the function of all items, and the search of \<open>vListInsert\<close> is a
  \<open>while_option\<close> that is proved to end.  \<open>in_ring\<close> says that a list is a ring of its items in
  an order, linked both ways, with its counter and containers right; every operation is shown to keep
  it, that insertion by value sorts and is first come first served among equal values,
  and that an item inserted at the end waits in the round robin of the scheduler for the turns of all
  items but the one whose turn it was last.
  \<open>FRTOS_Heap\<close>, \<open>FRTOS_HeapFree\<close> and \<open>FRTOS_HeapRun\<close> model the
  allocator \<open>portable/MemMang/heap_4.c\<close> on a 32-bit port.  \<open>heap_inv\<close> says that blocks, each
  with a header that tells its size and owner, tile the heap, that no two neighbours are free, and that
  the free ones are linked in the order of their addresses.  \<open>pvPortMalloc\<close> and
  \<open>vPortFree\<close> return, keep it, and implement a first-fit allocator on lists of blocks whose release
  joins neighbours.  \<open>heap_run\<close> has the states any calls of an application lead to from memory that is not
  initialised; there the pieces the application holds are aligned, inside the array and apart, and
  the heap is one block again when all are released.  Of the configuration the theorems need that the
  array lies in a 32-bit address space and has from 32 to 2 147 483 647 bytes (\<open>cfg_ok\<close>).
  \<open>FRTOS_Task\<close> models the scheduler \<open>tasks.c\<close> on one core with the generic selection of
  tasks: a task is the index of its TCB, whose two list items are elements of one type, and which item
  is in which list is the function \<open>cont\<close> of \<open>FRTOS_TaskInv\<close>.  \<open>kernel_ok\<close> says that every
  list is a ring, that an item is only in a list it belongs to, that the delayed lists are sorted, hold the
  wake times of this turn of the tick counter and of the next, and are not due before
  \<open>xNextTaskUnblockTime\<close>, and that a task in an event list is blocked.  \<open>FRTOS_TaskBoot\<close> shows
  that the creation of tasks establishes it from memory that holds nothing, \<open>FRTOS_TaskInv\<close> and
  \<open>FRTOS_TaskRun\<close> that ticks, context switches, delays and the resumption of the scheduler keep it.
  \<open>FRTOS_TaskTime\<close> has the promises that rest on it: a delay of \<open>n\<close> ends with the \<open>n\<close>-th tick,
  across overflows of the counter; a periodic task keeps its period; no tick that was pended is lost; time-outs
  are exact; a task of the highest priority runs, in turns with its equals.  The loops of the tick and of
  \<open>xTaskResumeAll\<close> are \<open>partial_function\<close>s that are proved to end.  \<open>vTaskDelay\<close> and \<open>xTaskDelayUntil\<close> are single steps, with no tick between their
  \<open>vTaskSuspendAll\<close> and \<open>xTaskResumeAll\<close>; ticks pended while the scheduler is suspended are the
  subject of \<open>xTaskResumeAll_catches_up\<close>.  The configuration is at the head
  of \<open>FRTOS_Task\<close>; notifications, deletion, \<open>xTaskAbortDelay\<close> and tickless idle are not modelled.

  \<^bold>\<open>The rest of the repository.\<close>  The other files of FreeRTOS (queues, timers, event groups, stream buffers), and ThreadX and lwIP,
  are not modelled, and the board directories hold vendor drivers, register definitions and start-up code.
\<close>

section \<open>Every reachable state\<close>

text \<open>
  The first theorems are about \<open>reachable\<close>, the states that \<open>OSInit\<close>, creations, \<open>OSStart\<close> and the
  steps of \<open>kstep\<close> lead to.  The steps are the services of semaphores, mailboxes, queues and pends on
  several events, of tasks, time, memory partitions and timers, the entries, exits and ticks of interrupts,
  in any order and with any arguments, under the rules of use the header lists: no mutexes and no flag
  groups; \<open>OSTimeTick\<close> in interrupts only; \<open>OS_POST_OPT_NO_SCHED\<close> only in interrupts or
  under the scheduler lock; no task deletes itself or changes its own priority under the lock; the callbacks
  of timers leave tasks and events alone; the idle task calls no service and is not suspended.
\<close>

text \<open>C1: in a kernel without mutexes and event flag groups, whatever the application creates before
  \<open>OSStart\<close> and whatever steps of \<open>kstep\<close> follow it, in any order: as long as no interrupt is
  being served and the scheduler is not locked, the running task is the task of the smallest priority number
  in the ready list.  The steps are the services of semaphores, mailboxes, queues, multi-event pends, tasks,
  time, memory partitions and timers and the interrupt entries, exits and ticks, where \<open>OSTimeTick\<close> is called by
  interrupt handlers, a post leaves out the scheduler (\<open>OS_POST_OPT_NO_SCHED\<close>) only in an interrupt or under the
  scheduler lock, no task deletes itself or changes its own priority under the lock, and the callbacks of timers leave
  tasks and events alone.\<close>

theorem reachable_highest_priority_runs:
  assumes "reachable s k" and "OSIntNesting s = 0" and "OSLockNesting s = 0"
  shows "unat (OSPrioCur s) = Min (bm_mem (rdy s)) \<and> OSTCBCur s = OSTCBPrioTbl s (Min (bm_mem (rdy s)))"
  using sys_inv_runs [OF reachable_sys_inv [OF assms(1)] assms(2,3)] .

text \<open>A start with one task of the application, of priority 10, from memory with any contents.\<close>

definition ex_boot :: os where
  "ex_boot = fst (OSTaskCreate 0x100 0x200 7 99 10 (OSInit \<lparr>st_ret = 0, st_entry = 0x1000, st_stk = 1000\<rparr>
     \<lparr>st_ret = 0, st_entry = 0x2000, st_stk = 2000\<rparr> \<lparr>st_ret = 0, st_entry = 0x3000, st_stk = 3000\<rparr>
     (ex_os OS_EVENT_TYPE_SEM True)))"

lemma ex_booted: "booted {10} ex_boot"
proof -
  define s where "s = OSInit \<lparr>st_ret = 0, st_entry = 0x1000, st_stk = 1000\<rparr>
     \<lparr>st_ret = 0, st_entry = 0x2000, st_stk = 2000\<rparr> \<lparr>st_ret = 0, st_entry = 0x3000, st_stk = 3000\<rparr>
     (ex_os OS_EVENT_TYPE_SEM True)"
  have b: "booted {} s" unfolding s_def by (rule booted.init)
  then have "create_err 10 s = OS_ERR_NONE"
    using booted_inv [OF b] by (intro ready_create_err [of "{61, 62, 63}"]) (simp_all add: boot_inv_def)
  then have "snd (OSTaskCreate 0x100 0x200 7 99 10 s) = OS_ERR_NONE" by (simp only: TaskCreate_err)
  then have "OSTaskCreate 0x100 0x200 7 99 10 s = (ex_boot, OS_ERR_NONE)"
    by (simp add: ex_boot_def s_def prod_eq_iff)
  from booted.task_create [OF b this] show ?thesis by (simp add: created_def)
qed

lemma ex_booting: "booting ex_boot"
  unfolding booting_def using ex_booted by blast

lemma ex_started:
  "reachable (OSStart ex_boot) Map.empty" "OSIntNesting (OSStart ex_boot) = 0" "OSLockNesting (OSStart ex_boot) = 0"
  using reachable_start [OF ex_booting] booting_boot_inv [OF ex_booting] by (simp_all add: boot_inv_def Start_eq)

lemma reachable_highest_priority_runs_witness:
  "unat (OSPrioCur (OSStart ex_boot)) = Min (bm_mem (rdy (OSStart ex_boot)))"
  using reachable_highest_priority_runs [OF ex_started] by simp

text \<open>C2: in every state that a kernel without mutexes and event flag groups reaches by the steps of
  \<open>kstep\<close> (the services of semaphores, mailboxes, queues, multi-event pends, tasks, time, memory partitions and
  timers and the interrupt entries, exits and ticks, under the rules of use of \<open>reachable_highest_priority_runs\<close>) no
  task is lost: a task that is not ready is suspended, has a delay or a timeout running, is in the wait list
  of the semaphore, mailbox or queue it pends on, or pends on several events.\<close>

theorem reachable_no_task_lost:
  assumes "reachable s k" and "task_at s n t"
  shows "n \<in> bm_mem (rdy s) \<or> suspended (OSTCBTbl s t) \<or> OSTCBDly (OSTCBTbl s t) \<noteq> 0 \<or>
    (\<exists>e. OSTCBEventPtr (OSTCBTbl s t) = Some e \<and> n \<in> bm_mem (wl s e)) \<or> multi (OSTCBTbl s t)"
  using sys_inv_known [OF reachable_sys_inv [OF assms(1)] assms(2)] by (simp add: task_known_def)

lemma reachable_no_task_lost_witness:
  "task_known (OSStart ex_boot) (unat (OSPrioCur (OSStart ex_boot))) (cur (OSStart ex_boot))"
proof -
  have "task_at (OSStart ex_boot) (unat (OSPrioCur (OSStart ex_boot))) (cur (OSStart ex_boot))"
    using pre_invD(6) [OF sys_invD(1) [OF reachable_sys_inv [OF ex_started(1)]]] .
  from reachable_no_task_lost [OF ex_started(1) this] show ?thesis by (simp add: task_known_def)
qed

text \<open>C3: in every state that a kernel without mutexes and event flag groups reaches by the steps of
  \<open>kstep\<close> (the services of semaphores, mailboxes, queues, multi-event pends, tasks, time, memory partitions and
  timers and the interrupt entries, exits and ticks, under the rules of use of \<open>reachable_highest_priority_runs\<close>)
  the redundant data agree. The ready table and the wait table of
  every event have eight rows, and bit \<open>y\<close> of the group is set exactly when row \<open>y\<close> is not empty; the
  entries of the priority table point to tasks of that priority, with the row, column and masks computed
  from it; and every priority in a ready or wait table belongs to a task.\<close>

theorem reachable_tables_agree:
  assumes "reachable s k"
  shows "length (OSRdyTbl s) = 8 \<and> (\<forall>y<8. bit (OSRdyGrp s) y \<longleftrightarrow> OSRdyTbl s ! y \<noteq> 0) \<and>
    (\<forall>e. length (OSEventTbl (OSEvents s e)) = 8 \<and>
       (\<forall>y<8. bit (OSEventGrp (OSEvents s e)) y \<longleftrightarrow> OSEventTbl (OSEvents s e) ! y \<noteq> 0)) \<and>
    (\<forall>n<64. \<forall>t. OSTCBPrioTbl s n = TCB t \<longrightarrow> prio_of (OSTCBTbl s t) = n \<and> xy_ok (OSTCBTbl s t)) \<and>
    (\<forall>n. n \<in> bm_mem (rdy s) \<or> waits_on s n \<noteq> {} \<longrightarrow> n < 64 \<and> (\<exists>t. OSTCBPrioTbl s n = TCB t))"
proof -
  note i = pre_invD [OF sys_invD(1) [OF reachable_sys_inv [OF assms]]]
  have "bm_ok (rdy s)" "bm_ok (wl s e)" for e using kernel_invD(1,2) [OF i(1)] .
  then have "length (OSRdyTbl s) = 8 \<and> (\<forall>y<8. bit (OSRdyGrp s) y \<longleftrightarrow> OSRdyTbl s ! y \<noteq> 0)"
    "length (OSEventTbl (OSEvents s e)) = 8 \<and>
      (\<forall>y<8. bit (OSEventGrp (OSEvents s e)) y \<longleftrightarrow> OSEventTbl (OSEvents s e) ! y \<noteq> 0)" for e
    by (simp_all add: bm_ok_def rdy_def wl_def)
  moreover have "prio_of (OSTCBTbl s t) = n \<and> xy_ok (OSTCBTbl s t)" if "n < 64" "OSTCBPrioTbl s n = TCB t" for n t
    using i(10) kernel_invD(3) [OF i(1) that] that by (auto simp: task_list_def)
  moreover have "n < 64 \<and> (\<exists>t. OSTCBPrioTbl s n = TCB t)" if n: "n \<in> bm_mem (rdy s) \<or> waits_on s n \<noteq> {}" for n
  proof -
    obtain t where "task_at s n t" using i(1) n unfolding kernel_inv_def by blast
    then show ?thesis by (auto simp: task_at_def)
  qed
  ultimately show ?thesis by blast
qed

lemma reachable_tables_agree_witness: "length (OSRdyTbl (OSStart ex_boot)) = 8"
  using reachable_tables_agree [OF ex_started(1)] by blast

text \<open>C5: the clock tick interrupt \<open>SysTick_Handler\<close> returns, its walk along the task list ends, in
  every state that a kernel without mutexes and event flag groups reaches by the steps of \<open>kstep\<close> (see
  \<open>reachable_highest_priority_runs\<close> for them).  The system time goes up by one; the interrupt level is left as it was
  found, unless 255 levels are nested, where \<open>OSIntEnter\<close> does not count another one and one is lost; the lock is as
  it was.  An interrupt that interrupted another one or locked code leaves the current task alone; otherwise
  the ready task of highest priority runs afterwards.\<close>

theorem tick_interrupt_returns:
  assumes "reachable s k"
  shows "\<exists>s'. SysTick_Handler s = Some s' \<and> OSTime s' = OSTime s + 1 \<and> OSLockNesting s' = OSLockNesting s \<and>
    OSIntNesting s' = (if OSIntNesting s = 255 then 254 else OSIntNesting s) \<and>
    (if OSIntNesting s = 0 \<and> OSLockNesting s = 0
     then unat (OSPrioCur s') = Min (bm_mem (rdy s')) \<and> OSTCBCur s' = OSTCBPrioTbl s' (Min (bm_mem (rdy s')))
     else OSTCBCur s' = OSTCBCur s)"
proof -
  obtain s' where s': "SysTick_Handler s = Some s'" "sys_inv k s'" "OSTime s' = OSTime s + 1"
    "OSLockNesting s' = OSLockNesting s" "OSIntNesting s' = (if OSIntNesting s = 255 then 254 else OSIntNesting s)"
    "OSIntNesting s \<noteq> 0 \<or> OSLockNesting s \<noteq> 0 \<longrightarrow> OSTCBCur s' = OSTCBCur s"
    using SysTick_effect [OF reachable_sys_inv [OF assms]] by blast
  then show ?thesis using sys_inv_runs [OF s'(2)] by auto
qed

lemma tick_interrupt_returns_witness:
  "\<exists>s'. SysTick_Handler (OSStart ex_boot) = Some s' \<and> OSTime s' = OSTime (OSStart ex_boot) + 1 \<and> OSIntNesting s' = 0"
  using tick_interrupt_returns [OF ex_started(1)] ex_started(2) by auto



text \<open>An event that is created in a state of the running kernel gets a control block that was unused, with
  nobody waiting, and no other event changes.\<close>

theorem created_event_is_fresh:
  assumes inv: "sys_inv k s" and r: "OSSemCreate cnt s = (s', Some e)"
  shows "event_type s e = OS_EVENT_TYPE_UNUSED \<and> bm_mem (wl s e) = {} \<and>
    event_type s' e = OS_EVENT_TYPE_SEM \<and> sem_abs s' e = (unat cnt, {}) \<and>
    (\<forall>d. d \<noteq> e \<longrightarrow> OSEvents s' d = OSEvents s d)"
proof -
  note i = pre_invD [OF sys_invD(1) [OF inv]]
  have e: "OSEventFreeList s = Some e" "OSIntNesting s = 0"
    using assms(2) by (auto simp: OSSemCreate_def OS_EventAlloc_def Let_def word_gt_0 split: option.splits if_splits)
  have un: "event_type s e = OS_EVENT_TYPE_UNUSED"
  proof -
    obtain es where "event_pool.holds s es" "\<forall>e\<in>set es. event_type s e = OS_EVENT_TYPE_UNUSED"
      using i(4) by (auto simp: free_events_ok_def)
    then show ?thesis using e(1) by (cases es) (auto simp: event_pool.holds_def)
  qed
  have none: "bm_mem (wl s e) = {}"
    using waits_on_awaited(2) [OF i(1)] kernel_invD(5) [OF i(1)] un by (fastforce simp: waits_on_def)
  have s': "s' = OS_EventWaitListInit e (upd_event e (\<lambda>v. v\<lparr>OSEventType := OS_EVENT_TYPE_SEM,
      OSEventCnt := cnt, OSEventPtr := NULL, OSEventName := Some ''?''\<rparr>) (fst (OS_EventAlloc s)))"
    using assms(2) e by (simp add: OSSemCreate_def OS_EventAlloc_def Let_def)
  have "wl s' e = (0, replicate 8 0)" by (simp add: s' WaitListInit_wl)
  then have "sem_abs s' e = (unat cnt, {})"
    by (simp add: sem_abs_def) (simp add: s' OS_EventWaitListInit_def upd_event_def)
  moreover have "event_type s' e = OS_EVENT_TYPE_SEM" "\<forall>d. d \<noteq> e \<longrightarrow> OSEvents s' d = OSEvents s d"
    by (simp_all add: s' OS_EventWaitListInit_def upd_event_def OS_EventAlloc_def e)
  ultimately show ?thesis using un none by simp
qed

lemma created_event_is_fresh_witness:
  "sem_abs (fst (OSSemCreate 4 (ex_os OS_EVENT_TYPE_SEM True))) 1 = (4, {})"
proof -
  have inv: "sys_inv (ex_conts (PendSem 0) True) (ex_os OS_EVENT_TYPE_SEM True)" by (rule ex_sys_inv) simp_all
  obtain s' where s': "OSSemCreate 4 (ex_os OS_EVENT_TYPE_SEM True) = (s', Some 1)"
    by (simp add: OSSemCreate_def OS_EventAlloc_def Let_def)
  show ?thesis using created_event_is_fresh [OF inv s'] by (simp add: s')
qed

text \<open>After \<open>OS_InitEventList\<close> the pool hands out each of the ten event control blocks once,
  in the order of the table, and then none.\<close>

theorem event_pool_hands_out_all: "event_pool.alloc_all (OS_MAX_EVENTS + n) (OS_InitEventList s) = [0..<OS_MAX_EVENTS]"
  by (rule event_pool.alloc_all_holds [OF InitEventList_effect(1)]) simp

end
